(* ===== verification/Tox_Prelude.thy ===== *)
theory Tox_Prelude
  imports Main "HOL-Library.Word"
begin

text \<open>
  Shared vocabulary of the development: the machine types of the C code, byte-level
  memory helpers (\<open>memcpy\<close>, \<open>memmove\<close>, \<open>memcmp\<close> on byte lists), little and big endian
  encodings of unsigned integers, and the generic list lemmas that the components use.

  Conventions. A C array or buffer is a HOL list; a pointer that may be \<open>NULL\<close> is an
  \<open>option\<close>; \<open>uint8_t\<close>, \<open>uint16_t\<close>, \<open>uint32_t\<close> and \<open>uint64_t\<close> are words of that width
  where wrap-around can matter and \<open>nat\<close> where the code keeps the value in range (the
  invariants then say so). The wall clock, the random generator and the allocator are
  arguments of the functions that consult them.
\<close>

section \<open>Machine types\<close>

type_synonym u8 = "8 word"
type_synonym u16 = "16 word"
type_synonym u32 = "32 word"
type_synonym u64 = "64 word"
type_synonym bytes = "8 word list"

named_theorems tox_defs
  \<open>definitions that the functional-behaviour proofs unfold\<close>

named_theorems codec_simps
  \<open>encode and decode equations of the wire formats\<close>

section \<open>Memory operations on byte lists\<close>

text \<open>
  \<open>memcpy_at dst off src\<close> is the buffer \<open>dst\<close> after \<open>memcpy(dst + off, src, length src)\<close>.
  It is used only where the destination range lies inside the buffer; the length lemma
  says that the buffer then keeps its size.
\<close>

definition memcpy_at :: "'a list \<Rightarrow> nat \<Rightarrow> 'a list \<Rightarrow> 'a list" where
  "memcpy_at dst off src = take off dst @ src @ drop (off + length src) dst"

text \<open>\<open>read_at xs off len\<close> reads \<open>len\<close> consecutive cells starting at \<open>off\<close>.\<close>

definition read_at :: "'a list \<Rightarrow> nat \<Rightarrow> nat \<Rightarrow> 'a list" where
  "read_at xs off len = take len (drop off xs)"

lemma length_memcpy_at [simp]:
  "off + length src \<le> length dst \<Longrightarrow> length (memcpy_at dst off src) = length dst"
  by (simp add: memcpy_at_def)

lemma length_read_at [simp]: "off + len \<le> length xs \<Longrightarrow> length (read_at xs off len) = len"
  by (simp add: read_at_def)

lemma read_at_memcpy_at_same [simp]:
  "off + length src \<le> length dst \<Longrightarrow> read_at (memcpy_at dst off src) off (length src) = src"
  by (simp add: read_at_def memcpy_at_def)

lemma nth_memcpy_at:
  assumes "off + length src \<le> length dst" and "i < length dst"
  shows "memcpy_at dst off src ! i =
    (if off \<le> i \<and> i < off + length src then src ! (i - off) else dst ! i)"
  using assms by (auto simp: memcpy_at_def nth_append min_def)

lemma read_at_append1 [simp]: "off + len \<le> length xs \<Longrightarrow> read_at (xs @ ys) off len = read_at xs off len"
  by (simp add: read_at_def)

lemma read_at_append2 [simp]: "length xs \<le> off \<Longrightarrow> read_at (xs @ ys) off len = read_at ys (off - length xs) len"
  by (simp add: read_at_def)

lemma read_at_all [simp]: "len = length xs \<Longrightarrow> read_at xs 0 len = xs"
  by (simp add: read_at_def)

lemma read_at_memcpy_before:
  "a + k \<le> off \<Longrightarrow> off \<le> length dst \<Longrightarrow> read_at (memcpy_at dst off src) a k = read_at dst a k"
  by (simp add: read_at_def memcpy_at_def take_drop min_def)

lemma read_at_memcpy_after:
  "off + length src \<le> a \<Longrightarrow> off + length src \<le> length dst \<Longrightarrow>
   read_at (memcpy_at dst off src) a k = read_at dst a k"
  by (simp add: read_at_def memcpy_at_def min_def)

lemma read_at_memcpy_inside:
  "off \<le> a \<Longrightarrow> a + k \<le> off + length src \<Longrightarrow> off \<le> length dst \<Longrightarrow>
   read_at (memcpy_at dst off src) a k = read_at src (a - off) k"
  by (simp add: read_at_def memcpy_at_def min_def)

lemma read_at_read_at: "b + k \<le> n \<Longrightarrow> read_at (read_at xs a n) b k = read_at xs (a + b) k"
  by (simp add: read_at_def take_drop min_def add.commute add.left_commute)

lemma nth_read_at: "i < n \<Longrightarrow> a + n \<le> length xs \<Longrightarrow> read_at xs a n ! i = xs ! (a + i)"
  by (simp add: read_at_def)

text \<open>
  \<open>memcmp\<close> compares byte by byte as unsigned values and returns a negative, zero or
  positive result; the model returns the sign.
\<close>

fun memcmp :: "bytes \<Rightarrow> bytes \<Rightarrow> int" where
  "memcmp (x # xs) (y # ys) = (if x < y then - 1 else if y < x then 1 else memcmp xs ys)"
| "memcmp _ _ = 0"

text \<open>The strict order that \<open>memcmp\<close> decides on byte strings of equal length.\<close>

fun bytes_less :: "bytes \<Rightarrow> bytes \<Rightarrow> bool" where
  "bytes_less (x # xs) (y # ys) = (x < y \<or> (x = y \<and> bytes_less xs ys))"
| "bytes_less _ _ = False"

lemma memcmp_range: "memcmp xs ys \<in> {-1, 0, 1}"
  by (induction xs ys rule: memcmp.induct) auto

lemma memcmp_eq_0_iff: "length xs = length ys \<Longrightarrow> memcmp xs ys = 0 \<longleftrightarrow> xs = ys"
  by (induction xs ys rule: memcmp.induct) auto

lemma memcmp_less_0_iff: "length xs = length ys \<Longrightarrow> memcmp xs ys < 0 \<longleftrightarrow> bytes_less xs ys"
  by (induction xs ys rule: memcmp.induct) auto

lemma memcmp_greater_0_iff: "length xs = length ys \<Longrightarrow> 0 < memcmp xs ys \<longleftrightarrow> bytes_less ys xs"
  by (induction xs ys rule: memcmp.induct) auto

lemma memcmp_refl [simp]: "memcmp xs xs = 0"
  by (induction xs) auto

lemma bytes_less_irrefl [simp]: "\<not> bytes_less xs xs"
  by (induction xs) auto

lemma bytes_less_trans: "bytes_less xs ys \<Longrightarrow> bytes_less ys zs \<Longrightarrow> bytes_less xs zs"
proof (induction xs ys arbitrary: zs rule: bytes_less.induct)
  case (1 x xs y ys)
  then show ?case by (cases zs) auto
qed auto

lemma bytes_less_asym: "bytes_less xs ys \<Longrightarrow> \<not> bytes_less ys xs"
  using bytes_less_trans by fastforce

lemma bytes_less_linear:
  "length xs = length ys \<Longrightarrow> bytes_less xs ys \<or> xs = ys \<or> bytes_less ys xs"
proof (induction xs ys rule: list_induct2')
  case (4 x xs y ys)
  then show ?case by auto
qed auto

section \<open>Unsigned integers as byte strings\<close>

text \<open>
  \<open>le_val\<close> reads a byte string as a little endian number and \<open>bytes_le k v\<close> writes the
  \<open>k\<close> low bytes of \<open>v\<close>, least significant first. \<open>be_val\<close> and \<open>bytes_be\<close> are the network
  order versions, which is what \<open>htons\<close>, \<open>htonl\<close> and \<open>memcpy\<close> produce together.
\<close>

fun le_val :: "bytes \<Rightarrow> nat" where
  "le_val [] = 0"
| "le_val (b # bs) = unat b + 256 * le_val bs"

fun bytes_le :: "nat \<Rightarrow> nat \<Rightarrow> bytes" where
  "bytes_le 0 v = []"
| "bytes_le (Suc k) v = word_of_nat (v mod 256) # bytes_le k (v div 256)"

definition be_val :: "bytes \<Rightarrow> nat" where
  "be_val bs = le_val (rev bs)"

definition bytes_be :: "nat \<Rightarrow> nat \<Rightarrow> bytes" where
  "bytes_be k v = rev (bytes_le k v)"

lemma length_bytes_le [simp]: "length (bytes_le k v) = k"
  by (induction k arbitrary: v) auto

lemma length_bytes_be [simp]: "length (bytes_be k v) = k"
  by (simp add: bytes_be_def)

lemma unat_u8_of_mod [simp]: "unat (word_of_nat (v mod 256) :: u8) = v mod 256"
  by (simp add: unat_of_nat take_bit_eq_mod)

lemma le_val_bytes_le [simp]: "le_val (bytes_le k v) = v mod 256 ^ k"
proof (induction k arbitrary: v)
  case 0
  then show ?case by simp
next
  case (Suc k)
  then show ?case by (simp add: mod_mult2_eq)
qed

lemma be_val_bytes_be [simp]: "be_val (bytes_be k v) = v mod 256 ^ k"
  by (simp add: be_val_def bytes_be_def)

lemma unat_u8_bound: "unat (b :: u8) < 256"
  using unsigned_less [of b] by simp

lemma le_val_bound: "le_val bs < 256 ^ length bs"
proof (induction bs)
  case (Cons b bs)
  have "unat b < 256" by (rule unat_u8_bound)
  with Cons show ?case by simp
qed simp

lemma be_val_bound: "be_val bs < 256 ^ length bs"
  using le_val_bound [of "rev bs"] by (simp add: be_val_def)

lemma bytes_le_le_val: "bytes_le (length bs) (le_val bs) = bs"
proof (induction bs)
  case (Cons b bs)
  have "unat b < 256" by (rule unat_u8_bound)
  with Cons show ?case by simp
qed simp

lemma bytes_be_be_val: "bytes_be (length bs) (be_val bs) = bs"
  using bytes_le_le_val [of "rev bs"] by (simp add: be_val_def bytes_be_def)

text \<open>Words of the widths used by the code, read from a number in range.\<close>

lemma unat_word_of_nat_id: "n < 2 ^ LENGTH('a) \<Longrightarrow> unat (word_of_nat n :: 'a::len word) = n"
  by (simp add: unsigned_of_nat take_bit_nat_eq_self)

section \<open>Generic list lemmas\<close>

lemma nth_drop_take:
  "i + j < length xs \<Longrightarrow> drop i xs ! j = xs ! (i + j)"
  by (simp add: add.commute)

lemma sorted_wrt_nthD: "sorted_wrt P xs \<Longrightarrow> i < j \<Longrightarrow> j < length xs \<Longrightarrow> P (xs ! i) (xs ! j)"
  by (simp add: sorted_wrt_iff_nth_less)

lemma mod_add_cancel_left_less:
  fixes a b c n :: nat
  assumes "(a + b) mod n = (a + c) mod n" and "b < n" and "c < n"
  shows "b = c"
proof -
  have "b mod n = c mod n" using assms(1) by (simp add: nat_mod_eq_iff add.assoc)
  with assms(2,3) show ?thesis by simp
qed

end
