(* ===== verification/Util.thy ===== *)
theory Util
  imports Tox_Prelude
begin

text \<open>
  Model of \<open>toxcore/util.c\<close>: the cached clock, the endianness conversions and the
  section reader \<open>load_state\<close> of the save format, with the section header writer that
  \<open>DHT.c\<close> and \<open>Messenger.c\<close> share. The ring buffer of the same file is in
  \<open>Ring_Buffer\<close>.

  The build switch \<open>WORDS_BIGENDIAN\<close> is the argument \<open>be\<close>. The results show that the
  32-bit conversions are little endian on both kinds of host, that the loop of
  \<open>load_state\<close> ends, and that it hands every section of a well-formed file to the
  callback in order.
\<close>

unbundle bit_operations_syntax

section \<open>Cached time\<close>

record unix_clock =
  unix_time_value :: u64
  unix_base_time_value :: u64

definition unix_time_update :: "u64 \<Rightarrow> u64 \<Rightarrow> unix_clock \<Rightarrow> unix_clock" where
  "unix_time_update time monotonic c =
     (let c1 = (if unix_base_time_value c = 0
                then c\<lparr>unix_base_time_value := time - monotonic div 1000\<rparr> else c)
      in c1\<lparr>unix_time_value := monotonic div 1000 + unix_base_time_value c1\<rparr>)"

definition unix_time :: "unix_clock \<Rightarrow> u64" where
  "unix_time c = unix_time_value c"

definition is_timeout :: "u64 \<Rightarrow> u64 \<Rightarrow> u64 \<Rightarrow> bool" where
  "is_timeout now timestamp timeout \<longleftrightarrow> timestamp + timeout \<le> now"

text \<open>With no wrap-around of the 64-bit sum the test is the comparison of numbers.\<close>

lemma is_timeout_iff:
  assumes "unat timestamp + unat timeout < 2 ^ 64"
  shows "is_timeout now timestamp timeout \<longleftrightarrow> unat timestamp + unat timeout \<le> unat now"
proof -
  have "unat (timestamp + timeout) = unat timestamp + unat timeout"
    using assms by (simp add: unat_word_ariths)
  then show ?thesis by (simp add: is_timeout_def word_le_nat_alt)
qed

text \<open>The first update after start-up reads the wall clock; later updates advance with
  the monotonic clock only, however the wall clock moves.\<close>

lemma unix_time_update_first:
  "unix_base_time_value c = 0 \<Longrightarrow> unix_time (unix_time_update t m c) = t"
  by (simp add: unix_time_update_def unix_time_def Let_def)

lemma unix_time_update_later:
  assumes "unix_base_time_value (unix_time_update t m c) \<noteq> 0"
  shows "unix_time (unix_time_update t' m' (unix_time_update t m c)) =
    unix_time (unix_time_update t m c) + (m' div 1000 - m div 1000)"
  using assms by (auto simp: unix_time_update_def unix_time_def Let_def)

section \<open>Keys\<close>

definition id_equal :: "bytes \<Rightarrow> bytes \<Rightarrow> bool" where
  "id_equal dest src \<longleftrightarrow> memcmp dest src = 0"

lemma id_equal_iff: "length xs = length ys \<Longrightarrow> id_equal xs ys \<longleftrightarrow> xs = ys"
  by (simp add: id_equal_def memcmp_eq_0_iff)

section \<open>Byte order\<close>

definition host_to_net :: "bool \<Rightarrow> bytes \<Rightarrow> bytes" where
  "host_to_net be num = (if be then num
     else map (\<lambda>i. num ! (length num - i - 1)) [0..<length num])"

lemma host_to_net_rev: "host_to_net be num = (if be then num else rev num)"
  by (auto simp: host_to_net_def rev_nth intro!: nth_equalityI)

lemma host_to_net_twice: "host_to_net be (host_to_net be num) = num"
  by (simp add: host_to_net_rev)

definition lendian_to_host16 :: "bool \<Rightarrow> u16 \<Rightarrow> u16" where
  "lendian_to_host16 be l = (if be then push_bit 8 l OR drop_bit 8 l else l)"

text \<open>The two assignments of the big endian branch of the 32-bit conversions.\<close>

definition swap32 :: "u32 \<Rightarrow> u32" where
  "swap32 num =
     (let num1 = (push_bit 8 num AND 0xFF00FF00) OR (drop_bit 8 num AND 0xFF00FF)
      in push_bit 16 num1 OR drop_bit 16 num1)"

text \<open>What \<open>memcpy\<close> from or into a \<open>uint32_t\<close> sees of it.\<close>

definition host_bytes32 :: "bool \<Rightarrow> u32 \<Rightarrow> bytes" where
  "host_bytes32 be w = (if be then bytes_be 4 (unat w) else bytes_le 4 (unat w))"

definition host_word32 :: "bool \<Rightarrow> bytes \<Rightarrow> u32" where
  "host_word32 be bs = word_of_nat (if be then be_val bs else le_val bs)"

definition host_to_lendian32 :: "bool \<Rightarrow> u32 \<Rightarrow> bytes" where
  "host_to_lendian32 be num = host_bytes32 be (if be then swap32 num else num)"

definition lendian_to_host32 :: "bool \<Rightarrow> bytes \<Rightarrow> u32" where
  "lendian_to_host32 be lendian =
     (let d = host_word32 be (take 4 lendian) in if be then swap32 d else d)"

lemma word_of_nat_unat_mod_256: "word_of_nat (unat (w :: u32) mod 256) = (ucast w :: u8)"
  by (rule bit_word_eqI) (simp add: bit_simps flip: take_bit_eq_mod [of 8, simplified])

lemma unat_div_256: "unat (w :: u32) div 256 = unat (drop_bit 8 w)"
  using unat_drop_bit_eq [of 8 w] by (simp add: drop_bit_eq_div)

lemma bytes_le_4:
  "bytes_le 4 (unat (w :: u32)) =
     [ucast w, ucast (drop_bit 8 w), ucast (drop_bit 16 w), ucast (drop_bit 24 w)]"
proof -
  have "(4::nat) = Suc (Suc (Suc (Suc 0)))" by simp
  then show ?thesis
    by (simp only: bytes_le.simps word_of_nat_unat_mod_256 unat_div_256 drop_bit_drop_bit) simp
qed

lemma less_8_cases:
  "n < 8 \<Longrightarrow> n = 0 \<or> n = 1 \<or> n = 2 \<or> n = 3 \<or> n = 4 \<or> n = 5 \<or> n = 6 \<or> n = (7::nat)"
  by linarith

lemma swap32_bytes:
  "ucast (swap32 w) = (ucast (drop_bit 24 w) :: u8)"
  "ucast (drop_bit 8 (swap32 w)) = (ucast (drop_bit 16 w) :: u8)"
  "ucast (drop_bit 16 (swap32 w)) = (ucast (drop_bit 8 w) :: u8)"
  "ucast (drop_bit 24 (swap32 w)) = (ucast w :: u8)"
  by (auto intro!: bit_word_eqI dest!: less_8_cases simp: swap32_def Let_def bit_simps)

lemma bytes_le_4_swap32: "bytes_le 4 (unat (swap32 w)) = rev (bytes_le 4 (unat w))"
  by (simp add: bytes_le_4 swap32_bytes)

text \<open>On both kinds of host the 32-bit conversions are little endian.\<close>

lemma host_to_lendian32_bytes [codec_simps]: "host_to_lendian32 be num = bytes_le 4 (unat num)"
  by (simp add: host_to_lendian32_def host_bytes32_def bytes_be_def bytes_le_4_swap32)

lemma word32_of_bytes_le: "word_of_nat (le_val (bytes_le 4 (unat (w :: u32)))) = w"
proof -
  have "unat w < 256 ^ 4" using unsigned_less [of w] by simp
  then show ?thesis by simp
qed

lemma length_host_bytes32 [simp]: "length (host_bytes32 be w) = 4"
  by (simp add: host_bytes32_def)

lemma host_word32_bytes32: "host_word32 be (host_bytes32 be w) = w"
  using word32_of_bytes_le [of w]
  by (simp add: host_word32_def host_bytes32_def be_val_def bytes_be_def)

lemma bytes32_cases:
  assumes "length bs = 4"
  obtains w :: u32 where "bs = bytes_le 4 (unat w)"
proof
  have "le_val bs < 2 ^ 32" using le_val_bound [of bs] assms by simp
  then have "unat (word_of_nat (le_val bs) :: u32) = le_val bs"
    by (simp add: unat_word_of_nat_id)
  then show "bs = bytes_le 4 (unat (word_of_nat (le_val bs) :: u32))"
    using bytes_le_le_val [of bs] assms by simp
qed

lemma swap32_swap32 [simp]: "swap32 (swap32 w) = w"
proof -
  have "bytes_le 4 (unat (swap32 (swap32 w))) = bytes_le 4 (unat w)"
    by (simp add: bytes_le_4_swap32)
  then show ?thesis by (metis word32_of_bytes_le)
qed

lemma lendian_to_host32_bytes [codec_simps]:
  "lendian_to_host32 be (bytes_le 4 (unat w) @ rest) = w"
proof -
  have "bytes_le 4 (unat w) = host_bytes32 be (if be then swap32 w else w)"
    using host_to_lendian32_bytes [of be w] by (simp add: host_to_lendian32_def)
  then show ?thesis
    by (simp add: lendian_to_host32_def host_word32_bytes32 Let_def)
qed

lemma lendian_to_host32_val:
  assumes "4 \<le> length bs"
  shows "lendian_to_host32 be bs = word_of_nat (le_val (take 4 bs))"
proof -
  obtain w :: u32 where w: "take 4 bs = bytes_le 4 (unat w)"
    using bytes32_cases [of "take 4 bs"] assms by auto
  have "lendian_to_host32 be (take 4 bs @ drop 4 bs) = w"
    unfolding w by (rule lendian_to_host32_bytes)
  then have "lendian_to_host32 be bs = w" by (simp only: append_take_drop_id)
  then show ?thesis using w word32_of_bytes_le [of w] by simp
qed

lemma lendian_to_host16_twice [simp]: "lendian_to_host16 be (lendian_to_host16 be x) = x"
proof -
  have "n < 16 \<Longrightarrow> bit (push_bit 8 (push_bit 8 x OR drop_bit 8 x) OR
      drop_bit 8 (push_bit 8 x OR drop_bit 8 x)) n = bit x n" for n
    by (cases "n < 8") (auto simp: bit_simps)
  then show ?thesis
    by (auto simp: lendian_to_host16_def intro!: bit_word_eqI)
qed

section \<open>Sections of the save format\<close>

text \<open>
  \<open>z_state_save_subheader\<close> writes the length and the word \<open>(cookie << 16) | type\<close>. The
  two copies of the function in \<open>DHT.c\<close> and \<open>Messenger.c\<close> differ in the cookie only.
\<close>

definition z_state_save_subheader :: "bool \<Rightarrow> u16 \<Rightarrow> u32 \<Rightarrow> u16 \<Rightarrow> bytes" where
  "z_state_save_subheader be cookie len type =
     host_to_lendian32 be len @
     host_to_lendian32 be
       (push_bit 16 (ucast (lendian_to_host16 be cookie)) OR ucast (lendian_to_host16 be type))"

text \<open>
  The loop of \<open>load_state\<close>. The callback sees the section's bytes and its type and may
  update the outer object; its result \<open>-1\<close> stops with a failure and \<open>-2\<close> with success.
\<close>

type_synonym 's load_callback = "'s \<Rightarrow> bytes \<Rightarrow> u16 \<Rightarrow> int \<times> 's"

function load_state_loop :: "bool \<Rightarrow> 's load_callback \<Rightarrow> u16 \<Rightarrow> 's \<Rightarrow> bytes \<Rightarrow> int \<times> 's" where
  "load_state_loop be callback cookie_inner outer data =
     (if length data < 8 then (if data = [] then 0 else - 1, outer)
      else
        let length_sub = unat (lendian_to_host32 be data);
            cookie_type = lendian_to_host32 be (drop 4 data);
            rest = drop 8 data
        in if length rest < length_sub then (- 1, outer)
           else if lendian_to_host16 be (ucast (drop_bit 16 cookie_type)) \<noteq> cookie_inner
           then (- 1, outer)
           else
             let type = lendian_to_host16 be (ucast (cookie_type AND 0xFFFF));
                 (ret, outer') = callback outer (take length_sub rest) type
             in if ret = - 1 then (- 1, outer')
                else if ret = - 2 then (0, outer')
                else load_state_loop be callback cookie_inner outer' (drop length_sub rest))"
  by pat_completeness auto
termination
  by (relation "measure (\<lambda>(be, callback, cookie, outer, data). length data)") auto

definition load_state ::
  "bool \<Rightarrow> 's load_callback option \<Rightarrow> 's \<Rightarrow> bytes option \<Rightarrow> u16 \<Rightarrow> int \<times> 's" where
  "load_state be callback outer data cookie_inner =
     (case (callback, data) of
        (Some cb, Some d) \<Rightarrow> load_state_loop be cb cookie_inner outer d
      | _ \<Rightarrow> (- 1, outer))"

declare load_state_loop.simps [simp del]

text \<open>
  Reference reading of a list of sections: the callback is run on each of them in turn,
  stopping early where the code does.
\<close>

fun run_sections :: "'s load_callback \<Rightarrow> 's \<Rightarrow> (u16 \<times> bytes) list \<Rightarrow> int \<times> 's" where
  "run_sections cb s [] = (0, s)"
| "run_sections cb s ((type, body) # secs) =
     (let (ret, s') = cb s body type
      in if ret = - 1 then (- 1, s') else if ret = - 2 then (0, s') else run_sections cb s' secs)"

definition save_section :: "bool \<Rightarrow> u16 \<Rightarrow> u16 \<times> bytes \<Rightarrow> bytes" where
  "save_section be cookie sec =
     z_state_save_subheader be cookie (word_of_nat (length (snd sec))) (fst sec) @ snd sec"

lemma cookie_word_parts:
  fixes c t :: u16
  shows "(ucast (drop_bit 16 (push_bit 16 (ucast c) OR ucast t :: u32)) :: u16) = c"
    and "(ucast ((push_bit 16 (ucast c) OR ucast t :: u32) AND 0xFFFF) :: u16) = t"
proof -
  show "(ucast (drop_bit 16 (push_bit 16 (ucast c) OR ucast t :: u32)) :: u16) = c"
    by (rule bit_word_eqI) (auto simp: bit_simps dest: bit_imp_le_length)
  have "(ucast ((push_bit 16 (ucast c) OR ucast t :: u32) AND mask 16) :: u16) = t"
    by (auto intro!: bit_word_eqI simp: bit_simps simp del: mask_numeral)
  then show "(ucast ((push_bit 16 (ucast c) OR ucast t :: u32) AND 0xFFFF) :: u16) = t"
    by (simp add: mask_eq_exp_minus_1)
qed

lemma length_subheader [simp]: "length (z_state_save_subheader be c l t) = 8"
  by (simp add: z_state_save_subheader_def host_to_lendian32_bytes)

lemma load_state_loop_section:
  assumes "length body < 2 ^ 32"
  shows "load_state_loop be cb cookie s (save_section be cookie (type, body) @ rest) =
    (let (ret, s') = cb s body type
     in if ret = - 1 then (- 1, s') else if ret = - 2 then (0, s')
        else load_state_loop be cb cookie s' rest)"
proof -
  define d where "d = save_section be cookie (type, body) @ rest"
  define ct :: u32 where "ct = push_bit 16 (ucast (lendian_to_host16 be cookie)) OR
    ucast (lendian_to_host16 be type)"
  have len: "unat (word_of_nat (length body) :: u32) = length body"
    using assms by (simp add: unat_word_of_nat_id)
  have d: "d = bytes_le 4 (unat (word_of_nat (length body) :: u32)) @ bytes_le 4 (unat ct) @ body @ rest"
    by (simp add: d_def ct_def save_section_def z_state_save_subheader_def codec_simps)
  have ct: "lendian_to_host16 be (ucast (drop_bit 16 ct)) = cookie"
    "lendian_to_host16 be (ucast (ct AND 0xFFFF)) = type"
    by (simp_all only: ct_def cookie_word_parts lendian_to_host16_twice)
  have "unat (lendian_to_host32 be d) = length body"
    unfolding d lendian_to_host32_bytes by (rule len)
  moreover have "lendian_to_host32 be (drop 4 d) = ct"
    using d by (simp add: lendian_to_host32_bytes)
  moreover have "drop 8 d = body @ rest" "8 \<le> length d"
    by (simp_all add: d)
  ultimately have "load_state_loop be cb cookie s d = (let (ret, s') = cb s body type
     in if ret = - 1 then (- 1, s') else if ret = - 2 then (0, s')
        else load_state_loop be cb cookie s' rest)"
    by (subst load_state_loop.simps) (simp add: Let_def ct split: prod.split)
  then show ?thesis by (simp add: d_def)
qed

text \<open>A file made of sections is read section by section.\<close>

lemma load_state_loop_sections:
  assumes "\<forall>sec \<in> set secs. length (snd sec) < 2 ^ 32"
  shows "load_state_loop be cb cookie s (concat (map (save_section be cookie) secs)) =
    run_sections cb s secs"
  using assms
proof (induction secs arbitrary: s)
  case Nil
  then show ?case by (simp add: load_state_loop.simps)
next
  case (Cons sec secs)
  obtain type body where sec: "sec = (type, body)" by (cases sec)
  with Cons show ?case
    by (auto simp: load_state_loop_section Let_def split: prod.splits)
qed

text \<open>A file whose last section is cut short is refused, whatever was read before.\<close>

lemma load_state_loop_truncated:
  assumes "8 \<le> length data" and "length data - 8 < unat (lendian_to_host32 be data)"
  shows "load_state_loop be cb cookie s data = (- 1, s)"
  using assms by (subst load_state_loop.simps) (auto simp: Let_def)

lemma load_state_loop_trailing:
  "0 < length data \<Longrightarrow> length data < 8 \<Longrightarrow> load_state_loop be cb cookie s data = (- 1, s)"
  by (subst load_state_loop.simps) auto

section \<open>Properties\<close>

text \<open>
  \<open>load_state\<close> inverts the section writer: on a file made of sections that
  \<open>z_state_save_subheader\<close> headed, on a host of either byte order, it runs the callback on the
  body and the type of each section in order, stops where the callback asks for it, and
  returns success at the end of the file.
\<close>

theorem load_state_reads_sections:
  assumes "\<forall>sec \<in> set secs. length (snd sec) < 2 ^ 32"
  shows "load_state be (Some callback) outer (Some (concat (map (save_section be cookie) secs))) cookie =
    run_sections callback outer secs"
  using load_state_loop_sections [OF assms] by (simp add: load_state_def)

theorem load_state_reads_sections_witness:
  "load_state True (Some (\<lambda>s body type. (0, s @ [(type, body)]))) []
     (Some (concat (map (save_section True 0x1597) [(3, [1, 2, 3]), (4, [])]))) 0x1597 =
   (0, [(3, [1, 2, 3]), (4, [])])"
  by (subst load_state_reads_sections) simp_all

text \<open>
  The cached clock: after the first update, which reads the wall clock, the time only
  advances by the seconds of the monotonic clock, whatever the wall clock shows later.
\<close>

theorem unix_time_monotonic:
  assumes "unix_base_time_value c = 0" and "unix_base_time_value (unix_time_update time mt c) \<noteq> 0"
  shows "unix_time (unix_time_update time mt c) = time \<and>
    unix_time (unix_time_update time' mt' (unix_time_update time mt c)) = time + (mt' div 1000 - mt div 1000)"
  using assms unix_time_update_first [of c time mt] unix_time_update_later [of time mt c time' mt'] by simp

theorem unix_time_monotonic_witness:
  "unix_time (unix_time_update 7 9000 (unix_time_update 1000 4000 \<lparr>unix_time_value = 0, unix_base_time_value = 0\<rparr>)) = 1005"
  using unix_time_monotonic [of "\<lparr>unix_time_value = 0, unix_base_time_value = 0\<rparr>" 1000 4000 7 9000]
  by (simp add: unix_time_update_def)

end
