(* ===== verification/Ring_Buffer.thy ===== *)
theory Ring_Buffer
  imports Tox_Prelude
begin

text \<open>
  Model of the \<open>RingBuffer\<close> of \<open>toxcore/util.c\<close> (used by the audio/video code) and its
  refinement to a bounded queue.

  \<open>rb_list\<close> abstracts a buffer to the list of stored pointers, oldest first. The locale
  \<open>overwriting_queue\<close> states the contract the users rely on: reading takes the oldest
  element, writing appends, and writing to a full buffer hands the displaced oldest
  element back. It is interpreted on the model of the code.
\<close>

section \<open>The interface\<close>

locale overwriting_queue =
  fixes items :: "'q \<Rightarrow> 'a list"
    and invar :: "'q \<Rightarrow> bool"
    and capacity :: "'q \<Rightarrow> nat"
    and enq :: "'q \<Rightarrow> 'a \<Rightarrow> 'a option \<times> 'q"
    and deq :: "'q \<Rightarrow> 'a option \<times> 'q"
  assumes capacity_pos: "invar q \<Longrightarrow> 0 < capacity q"
    and items_bound: "invar q \<Longrightarrow> length (items q) \<le> capacity q"
    and invar_enq: "invar q \<Longrightarrow> invar (snd (enq q x))"
    and capacity_enq: "invar q \<Longrightarrow> capacity (snd (enq q x)) = capacity q"
    and enq_room: "invar q \<Longrightarrow> length (items q) < capacity q \<Longrightarrow>
      fst (enq q x) = None \<and> items (snd (enq q x)) = items q @ [x]"
    and enq_full: "invar q \<Longrightarrow> length (items q) = capacity q \<Longrightarrow>
      fst (enq q x) = Some (hd (items q)) \<and> items (snd (enq q x)) = tl (items q) @ [x]"
    and invar_deq: "invar q \<Longrightarrow> invar (snd (deq q))"
    and capacity_deq: "invar q \<Longrightarrow> capacity (snd (deq q)) = capacity q"
    and deq_empty: "invar q \<Longrightarrow> items q = [] \<Longrightarrow> deq q = (None, q)"
    and deq_cons: "invar q \<Longrightarrow> items q = x # xs \<Longrightarrow>
      fst (deq q) = Some x \<and> items (snd (deq q)) = xs"
begin

fun enqs :: "'q \<Rightarrow> 'a list \<Rightarrow> 'q" where
  "enqs q [] = q"
| "enqs q (x # xs) = enqs (snd (enq q x)) xs"

lemma items_enq:
  assumes "invar q"
  shows "items (snd (enq q x)) =
    drop (Suc (length (items q)) - capacity q) (items q @ [x])"
proof (cases "length (items q) < capacity q")
  case True
  with assms show ?thesis by (simp add: enq_room)
next
  case False
  with items_bound [OF assms] have full: "length (items q) = capacity q" by simp
  with capacity_pos [OF assms] have "items q \<noteq> []" by auto
  with enq_full [OF assms full, of x] full show ?thesis
    by (cases "items q") auto
qed

lemma invar_enqs: "invar q \<Longrightarrow> invar (enqs q xs)"
  by (induction xs arbitrary: q) (simp_all add: invar_enq)

lemma capacity_enqs: "invar q \<Longrightarrow> capacity (enqs q xs) = capacity q"
  by (induction xs arbitrary: q) (simp_all add: invar_enq capacity_enq)

text \<open>After any series of writes the buffer holds the newest elements, in order.\<close>

lemma items_enqs:
  "invar q \<Longrightarrow>
   items (enqs q xs) = drop (length (items q @ xs) - capacity q) (items q @ xs)"
proof (induction xs arbitrary: q)
  case Nil
  then show ?case using items_bound by simp
next
  case (Cons x xs)
  let ?q = "snd (enq q x)"
  have i: "items ?q = drop (Suc (length (items q)) - capacity q) (items q @ [x])"
    using Cons.prems by (rule items_enq)
  have "items (enqs q (x # xs)) = drop (length (items ?q @ xs) - capacity q) (items ?q @ xs)"
    using Cons.IH [of ?q] Cons.prems by (simp add: invar_enq capacity_enq)
  also have "\<dots> = drop (length (items q @ x # xs) - capacity q) (items q @ x # xs)"
    using items_bound [OF Cons.prems] capacity_pos [OF Cons.prems]
    by (cases "length (items q) < capacity q") (auto simp: i)
  finally show ?case .
qed

end

section \<open>The code\<close>

record 'a ring_buffer =
  rb_max :: nat
  rb_start :: nat
  rb_end :: nat
  rb_cells :: "'a option list"

definition rb_full :: "'a ring_buffer \<Rightarrow> bool" where
  "rb_full b \<longleftrightarrow> (rb_end b + 1) mod rb_max b = rb_start b"

definition rb_empty :: "'a ring_buffer \<Rightarrow> bool" where
  "rb_empty b \<longleftrightarrow> rb_end b = rb_start b"

definition rb_write :: "'a ring_buffer \<Rightarrow> 'a \<Rightarrow> 'a option \<times> 'a ring_buffer" where
  "rb_write b p =
     (let rc = (if (rb_end b + 1) mod rb_max b = rb_start b
                then rb_cells b ! rb_start b else None);
          b1 = b\<lparr>rb_cells := (rb_cells b)[rb_end b := Some p],
                 rb_end := (rb_end b + 1) mod rb_max b\<rparr>;
          b2 = (if rb_end b1 = rb_start b1
                then b1\<lparr>rb_start := (rb_start b1 + 1) mod rb_max b1\<rparr> else b1)
      in (rc, b2))"

definition rb_read :: "'a ring_buffer \<Rightarrow> (bool \<times> 'a option) \<times> 'a ring_buffer" where
  "rb_read b =
     (if rb_end b = rb_start b then ((False, None), b)
      else ((True, rb_cells b ! rb_start b),
            b\<lparr>rb_start := (rb_start b + 1) mod rb_max b\<rparr>))"

text \<open>
  \<open>rb_new(size)\<close>: the 16-bit field \<open>size\<close> receives \<open>size + 1\<close>; the two flags say whether the
  two allocations succeed.
\<close>

definition rb_new :: "bool \<Rightarrow> bool \<Rightarrow> int \<Rightarrow> 'a ring_buffer option" where
  "rb_new alloc_buf alloc_data sz =
     (if \<not> alloc_buf then None
      else let n = nat ((sz + 1) mod 2 ^ 16)
           in if \<not> alloc_data then None
              else Some \<lparr>rb_max = n, rb_start = 0, rb_end = 0, rb_cells = replicate n None\<rparr>)"

definition rb_size :: "'a ring_buffer \<Rightarrow> nat" where
  "rb_size b =
     (if rb_empty b then 0
      else if rb_end b > rb_start b then rb_end b - rb_start b
      else (rb_max b - rb_start b) + rb_end b)"

definition rb_data :: "'a ring_buffer \<Rightarrow> 'a option list" where
  "rb_data b = map (\<lambda>i. rb_cells b ! ((rb_start b + i) mod rb_max b)) [0..<rb_size b]"

section \<open>Invariant and abstraction\<close>

text \<open>
  The cells between start and end hold the written pointers; the indices are in range
  and the buffer has room for at least one element besides the unused cell.
\<close>

definition rb_wf :: "'a ring_buffer \<Rightarrow> bool" where
  "rb_wf b \<longleftrightarrow> 2 \<le> rb_max b \<and> rb_max b < 2 ^ 16 \<and> length (rb_cells b) = rb_max b \<and>
     rb_start b < rb_max b \<and> rb_end b < rb_max b \<and>
     (\<forall>i < rb_size b. rb_cells b ! ((rb_start b + i) mod rb_max b) \<noteq> None)"

definition rb_list :: "'a ring_buffer \<Rightarrow> 'a list" where
  "rb_list b = map the (rb_data b)"

definition rb_capacity :: "'a ring_buffer \<Rightarrow> nat" where
  "rb_capacity b = rb_max b - 1"

definition rb_deq :: "'a ring_buffer \<Rightarrow> 'a option \<times> 'a ring_buffer" where
  "rb_deq b = (let ((ok, p), b') = rb_read b in (p, b'))"

lemma rb_wfD:
  assumes "rb_wf b"
  shows "2 \<le> rb_max b" "rb_start b < rb_max b" "rb_end b < rb_max b"
    "length (rb_cells b) = rb_max b"
    "i < rb_size b \<Longrightarrow> \<exists>x. rb_cells b ! ((rb_start b + i) mod rb_max b) = Some x"
  using assms by (auto simp: rb_wf_def)

lemma rb_size_less: "rb_wf b \<Longrightarrow> rb_size b < rb_max b"
  by (auto simp: rb_wf_def rb_size_def rb_empty_def)

lemma rb_end_eq: "rb_wf b \<Longrightarrow> rb_end b = (rb_start b + rb_size b) mod rb_max b"
  by (auto simp: rb_wf_def rb_size_def rb_empty_def le_mod_geq)

lemma rb_size_unique:
  assumes "rb_start b < rb_max b" and "rb_end b = (rb_start b + n) mod rb_max b" and "n < rb_max b"
  shows "rb_size b = n"
  using assms by (cases "rb_start b + n < rb_max b")
    (auto simp: rb_size_def rb_empty_def le_mod_geq)

lemma length_rb_data [simp]: "length (rb_data b) = rb_size b"
  by (simp add: rb_data_def)

lemma length_rb_list [simp]: "length (rb_list b) = rb_size b"
  by (simp add: rb_list_def)

lemma nth_rb_list: "i < rb_size b \<Longrightarrow>
    rb_list b ! i = the (rb_cells b ! ((rb_start b + i) mod rb_max b))"
  by (simp add: rb_list_def rb_data_def)

lemma rb_full_iff: "rb_wf b \<Longrightarrow> rb_full b \<longleftrightarrow> rb_size b = rb_capacity b"
  by (auto simp: rb_wf_def rb_full_def rb_size_def rb_empty_def rb_capacity_def mod_Suc
      split: if_splits)

lemma rb_empty_iff: "rb_wf b \<Longrightarrow> rb_empty b \<longleftrightarrow> rb_list b = []"
  by (auto simp: rb_wf_def rb_size_def rb_empty_def simp flip: length_0_conv split: if_splits)

section \<open>Operations\<close>

text \<open>The generic step: moving the window to \<open>[s', s' + n')\<close> over cells that are filled there.\<close>

lemma rb_windowI:
  assumes "2 \<le> rb_max b" "rb_max b < 2 ^ 16" "length (rb_cells b) = rb_max b"
    and "rb_start b < rb_max b" "rb_end b = (rb_start b + length xs) mod rb_max b"
    and "length xs < rb_max b"
    and "\<And>i. i < length xs \<Longrightarrow> rb_cells b ! ((rb_start b + i) mod rb_max b) = Some (xs ! i)"
  shows "rb_wf b \<and> rb_list b = xs"
proof -
  have n: "rb_size b = length xs" using assms by (intro rb_size_unique) auto
  then have "rb_wf b" using assms by (auto simp: rb_wf_def)
  moreover have "rb_list b = xs"
    using n assms(7) by (auto intro!: nth_equalityI simp: nth_rb_list)
  ultimately show ?thesis ..
qed

lemma rb_cells_window:
  assumes "rb_wf b" and "i < rb_size b"
  shows "rb_cells b ! ((rb_start b + i) mod rb_max b) = Some (rb_list b ! i)"
  using rb_wfD(5) [OF assms] assms(2) by (auto simp: nth_rb_list)

lemma rb_cells_after_write:
  assumes "rb_wf b" and "i \<le> rb_size b"
  shows "(rb_cells b)[rb_end b := Some p] ! ((rb_start b + i) mod rb_max b) =
    Some ((rb_list b @ [p]) ! i)"
proof (cases "i = rb_size b")
  case True
  with rb_end_eq [OF assms(1)] rb_wfD [OF assms(1)] show ?thesis
    by (simp add: nth_append)
next
  case False
  with assms have i: "i < rb_size b" by simp
  have "(rb_start b + i) mod rb_max b \<noteq> rb_end b"
    using mod_add_cancel_left_less [of "rb_start b" i "rb_max b" "rb_size b"]
      rb_size_less [OF assms(1)] rb_end_eq [OF assms(1)] i by auto
  with i rb_cells_window [OF assms(1) i] show ?thesis by (simp add: nth_append)
qed

lemma rb_write_room:
  assumes wf: "rb_wf b" and room: "rb_size b < rb_capacity b"
  shows "fst (rb_write b p) = None" and "rb_wf (snd (rb_write b p))"
    and "rb_list (snd (rb_write b p)) = rb_list b @ [p]"
proof -
  have nf: "(rb_end b + 1) mod rb_max b \<noteq> rb_start b"
    using rb_full_iff [OF wf] room by (auto simp: rb_full_def)
  let ?b = "b\<lparr>rb_cells := (rb_cells b)[rb_end b := Some p], rb_end := (rb_end b + 1) mod rb_max b\<rparr>"
  have w: "rb_write b p = (None, ?b)"
    using nf by (simp add: rb_write_def Let_def)
  have e: "(rb_end b + 1) mod rb_max b = (rb_start b + length (rb_list b @ [p])) mod rb_max b"
    by (simp add: rb_end_eq [OF wf] mod_Suc_eq)
  have "rb_wf ?b \<and> rb_list ?b = rb_list b @ [p]"
    using wf room e rb_cells_after_write [OF wf]
    by (intro rb_windowI) (auto simp: rb_wf_def rb_capacity_def)
  with w show "fst (rb_write b p) = None" "rb_wf (snd (rb_write b p))"
    "rb_list (snd (rb_write b p)) = rb_list b @ [p]" by simp_all
qed

lemma rb_write_full:
  assumes wf: "rb_wf b" and full: "rb_size b = rb_capacity b"
  shows "fst (rb_write b p) = Some (hd (rb_list b))" and "rb_wf (snd (rb_write b p))"
    and "rb_list (snd (rb_write b p)) = tl (rb_list b) @ [p]"
proof -
  have f: "(rb_end b + 1) mod rb_max b = rb_start b"
    using rb_full_iff [OF wf] full by (simp add: rb_full_def)
  have pos: "0 < rb_size b" using wf full by (simp add: rb_wf_def rb_capacity_def)
  let ?b = "b\<lparr>rb_cells := (rb_cells b)[rb_end b := Some p], rb_end := rb_start b,
    rb_start := (rb_start b + 1) mod rb_max b\<rparr>"
  have hd: "rb_cells b ! rb_start b = Some (hd (rb_list b))"
    using rb_cells_window [OF wf pos] rb_wfD [OF wf] pos
    by (simp add: hd_conv_nth flip: length_greater_0_conv)
  have w: "rb_write b p = (Some (hd (rb_list b)), ?b)"
    using f hd by (simp add: rb_write_def Let_def)
  have nth: "(rb_cells b)[rb_end b := Some p] ! ((rb_start b + 1 + i) mod rb_max b) =
      Some ((tl (rb_list b) @ [p]) ! i)" if "i < rb_size b" for i
    using rb_cells_after_write [OF wf, of "Suc i" p] that pos
    by (cases "rb_list b") (auto simp flip: length_rb_list)
  have e: "rb_start b = ((rb_start b + 1) mod rb_max b + rb_size b) mod rb_max b"
  proof -
    have "((rb_start b + 1) mod rb_max b + rb_size b) mod rb_max b =
        (rb_start b + 1 + rb_size b) mod rb_max b"
      by (rule mod_add_left_eq)
    also have "rb_start b + 1 + rb_size b = rb_start b + rb_max b"
      using full rb_wfD(1) [OF wf] by (simp add: rb_capacity_def)
    finally show ?thesis using rb_wfD(2) [OF wf] by simp
  qed
  have "rb_wf ?b \<and> rb_list ?b = tl (rb_list b) @ [p]"
    using wf e nth pos rb_size_less [OF wf]
    by (intro rb_windowI) (auto simp: rb_wf_def mod_add_left_eq)
  with w show "fst (rb_write b p) = Some (hd (rb_list b))" "rb_wf (snd (rb_write b p))"
    "rb_list (snd (rb_write b p)) = tl (rb_list b) @ [p]" by simp_all
qed

lemma rb_read_empty: "rb_wf b \<Longrightarrow> rb_list b = [] \<Longrightarrow> rb_read b = ((False, None), b)"
  using rb_empty_iff by (auto simp: rb_read_def rb_empty_def)

lemma rb_read_cons:
  assumes wf: "rb_wf b" and l: "rb_list b = x # xs"
  shows "fst (rb_read b) = (True, Some x)" and "rb_wf (snd (rb_read b))"
    and "rb_list (snd (rb_read b)) = xs"
proof -
  have ne: "rb_end b \<noteq> rb_start b" using rb_empty_iff [OF wf] l by (auto simp: rb_empty_def)
  have n: "rb_size b = Suc (length xs)" using l by (metis length_Cons length_rb_list)
  let ?b = "b\<lparr>rb_start := (rb_start b + 1) mod rb_max b\<rparr>"
  have r: "rb_read b = ((True, Some x), ?b)"
    using ne rb_cells_window [OF wf, of 0] n l rb_wfD [OF wf] by (simp add: rb_read_def)
  have nth: "rb_cells b ! ((rb_start b + 1 + i) mod rb_max b) = Some (xs ! i)"
    if "i < length xs" for i
    using rb_cells_window [OF wf, of "Suc i"] that n l by simp
  have "rb_wf ?b \<and> rb_list ?b = xs"
    using wf nth n rb_size_less [OF wf] rb_end_eq [OF wf]
    by (intro rb_windowI) (auto simp: rb_wf_def mod_add_left_eq)
  with r show "fst (rb_read b) = (True, Some x)" "rb_wf (snd (rb_read b))"
    "rb_list (snd (rb_read b)) = xs" by simp_all
qed

lemma rb_max_write [simp]: "rb_max (snd (rb_write b p)) = rb_max b"
  by (simp add: rb_write_def Let_def)

lemma rb_max_read [simp]: "rb_max (snd (rb_read b)) = rb_max b"
  by (simp add: rb_read_def)

interpretation rbq: overwriting_queue rb_list rb_wf rb_capacity rb_write rb_deq
proof unfold_locales
  fix b :: "'a ring_buffer" and p x :: 'a and xs
  assume wf: "rb_wf b"
  show "0 < rb_capacity b" using wf by (simp add: rb_wf_def rb_capacity_def)
  show le: "length (rb_list b) \<le> rb_capacity b"
    using rb_size_less [OF wf] by (simp add: rb_capacity_def)
  show "rb_wf (snd (rb_write b p))"
    using le rb_write_room(2) [OF wf] rb_write_full(2) [OF wf] by fastforce
  show "rb_capacity (snd (rb_write b p)) = rb_capacity b" by (simp add: rb_capacity_def)
  show "rb_wf (snd (rb_deq b))"
    using wf rb_read_empty [OF wf] rb_read_cons(2) [OF wf]
    by (cases "rb_list b") (auto simp: rb_deq_def Let_def split: prod.splits)
  show "rb_capacity (snd (rb_deq b)) = rb_capacity b"
    by (simp add: rb_deq_def rb_capacity_def split_def Let_def)
  show "rb_list b = [] \<Longrightarrow> rb_deq b = (None, b)"
    using rb_read_empty [OF wf] by (simp add: rb_deq_def)
  show "rb_list b = x # xs \<Longrightarrow> fst (rb_deq b) = Some x \<and> rb_list (snd (rb_deq b)) = xs"
    using rb_read_cons [OF wf, of x xs] by (auto simp: rb_deq_def Let_def split: prod.splits)
qed (use rb_write_room rb_write_full in auto)

lemma rb_new_wf:
  assumes "0 < sz" and "sz < 2 ^ 16 - 1"
  obtains b where "rb_new True True sz = Some b" and "rb_wf b" and "rb_list b = []"
    and "int (rb_capacity b) = sz"
proof -
  define b :: "'a ring_buffer" where
    "b = \<lparr>rb_max = nat (sz + 1), rb_start = 0, rb_end = 0, rb_cells = replicate (nat (sz + 1)) None\<rparr>"
  have "rb_new True True sz = Some b"
    using assms by (simp add: rb_new_def b_def Let_def)
  moreover have "rb_size b = 0" by (simp add: b_def rb_size_def rb_empty_def)
  moreover from this have "rb_wf b" using assms by (auto simp: rb_wf_def b_def)
  ultimately show ?thesis
    using assms by (intro that) (auto simp: rb_capacity_def b_def simp flip: length_0_conv)
qed

section \<open>Properties\<close>

text \<open>A series of writes, as a sender makes them.\<close>

fun rb_writes :: "'a ring_buffer \<Rightarrow> 'a list \<Rightarrow> 'a ring_buffer" where
  "rb_writes b [] = b"
| "rb_writes b (p # ps) = rb_writes (snd (rb_write b p)) ps"

lemma rb_writes_enqs: "rb_writes b ps = rbq.enqs b ps"
  by (induction ps arbitrary: b) simp_all

text \<open>
  The ring buffer refines a bounded queue that overwrites its oldest elements: after any
  series of writes it holds, in order, the last \<open>capacity\<close> of the old contents followed by
  the new elements, and the next read returns the oldest of these.
\<close>

theorem rb_keeps_newest:
  assumes "rb_wf b" and "b' = rb_writes b ps"
    and "kept = drop (length (rb_list b @ ps) - rb_capacity b) (rb_list b @ ps)"
  shows "rb_wf b' \<and> rb_list b' = kept \<and>
    (case kept of [] \<Rightarrow> rb_read b' = ((False, None), b')
     | x # xs \<Rightarrow> fst (rb_read b') = (True, Some x) \<and> rb_list (snd (rb_read b')) = xs)"
proof -
  have wf: "rb_wf b'" using assms(1,2) rbq.invar_enqs by (simp add: rb_writes_enqs)
  have l: "rb_list b' = kept" using assms rbq.items_enqs by (simp add: rb_writes_enqs)
  show ?thesis
    using wf l rb_read_empty [OF wf] rb_read_cons [OF wf] by (cases kept) auto
qed

theorem rb_keeps_newest_witness:
  "rb_list (rb_writes \<lparr>rb_max = 3, rb_start = 0, rb_end = 0, rb_cells = [None, None, None]\<rparr> [1::nat, 2, 3, 4]) = [3, 4]"
  using rb_keeps_newest [of "\<lparr>rb_max = 3, rb_start = 0, rb_end = 0, rb_cells = [None, None, None]\<rparr>", OF _ refl refl, of "[1::nat, 2, 3, 4]"]
  by (simp add: rb_wf_def rb_size_def rb_empty_def rb_list_def rb_data_def rb_capacity_def)

end
