(* ===== verification/BS_List.thy ===== *)
theory BS_List
  imports Tox_Prelude
begin

text \<open>
  Model of \<open>toxcore/list.c\<close>, the sorted array that maps fixed-size keys (public keys,
  addresses) to connection numbers, down to the flat byte array the code moves elements
  in, and its refinement to a finite map.

  \<open>find\<close> is the code's own search: it halves its step until the step is one and then walks
  one cell at a time. A read outside the stored elements is the value \<open>None\<close>; the
  correctness lemma shows that it never happens, that the search ends and that the
  result is the position of the key or the place where it belongs. The locale
  \<open>key_index\<close> is the contract \<open>TCP_server.c\<close> and \<open>net_crypto.c\<close> rely on.
\<close>

section \<open>The interface: an index of keys\<close>

locale key_index =
  fixes lookup :: "'l \<Rightarrow> 'k \<Rightarrow> int option"
    and invar :: "'l \<Rightarrow> bool"
    and key_ok :: "'l \<Rightarrow> 'k \<Rightarrow> bool"
    and room :: "'l \<Rightarrow> bool"
    and add :: "'l \<Rightarrow> 'k \<Rightarrow> int \<Rightarrow> bool \<times> 'l"
    and remove :: "'l \<Rightarrow> 'k \<Rightarrow> int \<Rightarrow> bool \<times> 'l"
  assumes add_invar: "invar l \<Longrightarrow> key_ok l k \<Longrightarrow> room l \<Longrightarrow> invar (snd (add l k v))"
    and add_key_ok: "key_ok (snd (add l k v)) = key_ok l"
    and add_present: "invar l \<Longrightarrow> key_ok l k \<Longrightarrow> lookup l k \<noteq> None \<Longrightarrow> add l k v = (False, l)"
    and add_result: "invar l \<Longrightarrow> key_ok l k \<Longrightarrow> room l \<Longrightarrow> fst (add l k v) \<Longrightarrow>
      lookup (snd (add l k v)) = (lookup l)(k \<mapsto> v)"
    and add_failed: "invar l \<Longrightarrow> key_ok l k \<Longrightarrow> room l \<Longrightarrow> \<not> fst (add l k v) \<Longrightarrow>
      lookup (snd (add l k v)) = lookup l"
    and remove_invar: "invar l \<Longrightarrow> key_ok l k \<Longrightarrow> invar (snd (remove l k v))"
    and remove_key_ok: "key_ok (snd (remove l k v)) = key_ok l"
    and remove_iff: "invar l \<Longrightarrow> key_ok l k \<Longrightarrow> fst (remove l k v) \<longleftrightarrow> lookup l k = Some v"
    and remove_result: "invar l \<Longrightarrow> key_ok l k \<Longrightarrow> fst (remove l k v) \<Longrightarrow>
      lookup (snd (remove l k v)) = (lookup l)(k := None)"
    and remove_failed: "invar l \<Longrightarrow> key_ok l k \<Longrightarrow> \<not> fst (remove l k v) \<Longrightarrow>
      snd (remove l k v) = l"
begin

text \<open>Adding a key and then removing the same association gives back the same map.\<close>

lemma add_remove:
  assumes "invar l" "key_ok l k" "room l" "fst (add l k v)"
  shows "fst (remove (snd (add l k v)) k v)"
    and "lookup (snd (remove (snd (add l k v)) k v)) = lookup l"
proof -
  have l: "lookup l k = None" using add_present [OF assms(1,2), of v] assms(4) by fastforce
  have inv: "invar (snd (add l k v))" "key_ok (snd (add l k v)) k"
    using assms add_invar add_key_ok by auto
  have s: "lookup (snd (add l k v)) = (lookup l)(k \<mapsto> v)"
    using assms by (rule add_result)
  then show r: "fst (remove (snd (add l k v)) k v)" using remove_iff [OF inv] by simp
  from remove_result [OF inv r] s l
  show "lookup (snd (remove (snd (add l k v)) k v)) = lookup l"
    by (simp add: fun_upd_idem)
qed

text \<open>
  Moving a number from one key to another: afterwards the number has the new key, not the old
  one, and nothing else has changed. Removing a number under its two keys likewise.
\<close>

lemma remove_lookup:
  assumes "invar l" "key_ok l k" "lookup (snd (remove l k v)) x = Some w"
  shows "lookup l x = Some w \<and> \<not> (x = k \<and> w = v)"
proof (cases "fst (remove l k v)")
  case True
  then show ?thesis using remove_result [OF assms(1,2) True] assms(3) by (auto split: if_splits)
next
  case False
  then show ?thesis using remove_failed [OF assms(1,2) False] remove_iff [OF assms(1,2), of v] assms(3) by auto
qed

lemma move_key:
  assumes "invar l" "key_ok l k" "key_ok l k'" "room l" "fst (add l k v)"
    and "lookup (snd (remove (snd (add l k v)) k' v)) x = Some w"
  shows "(x = k \<and> w = v) \<or> (lookup l x = Some w \<and> \<not> (x = k' \<and> w = v))"
proof -
  have "invar (snd (add l k v))" "key_ok (snd (add l k v)) k'" using assms(1-4) add_invar add_key_ok by auto
  from remove_lookup [OF this assms(6)] show ?thesis
    using add_result [OF assms(1,2,4,5)] by (auto split: if_splits)
qed

lemma drop_keys:
  assumes "invar l" "key_ok l k1" "key_ok l k2"
    and "lookup (snd (remove (snd (remove l k1 v)) k2 v)) x = Some w"
  shows "lookup l x = Some w \<and> (w = v \<longrightarrow> x \<noteq> k1 \<and> x \<noteq> k2)"
proof -
  have "invar (snd (remove l k1 v))" "key_ok (snd (remove l k1 v)) k2" using assms(1-3) remove_invar remove_key_ok by auto
  from remove_lookup [OF this assms(4)] show ?thesis using remove_lookup [OF assms(1,2), of v x w] by blast
qed

text \<open>An element stays findable under its number while other keys come and go.\<close>

lemma lookup_after_add_other:
  assumes "invar l" "key_ok l k" "room l" "k' \<noteq> k"
  shows "lookup (snd (add l k v)) k' = lookup l k'"
  using assms add_result [OF assms(1-3), of v] add_failed [OF assms(1-3), of v]
  by (cases "fst (add l k v)") auto

end

section \<open>The code\<close>

record bs_list =
  bs_n :: nat
  bs_capacity :: nat
  bs_element_size :: nat
  bs_data :: bytes
  bs_ids :: "int list"

definition bs_elem :: "bs_list \<Rightarrow> nat \<Rightarrow> bytes" where
  "bs_elem l i = read_at (bs_data l) (bs_element_size l * i) (bs_element_size l)"

text \<open>\<open>INDEX(i)\<close> is the bitwise complement of \<open>i\<close> as an \<open>int\<close>.\<close>

definition bs_INDEX :: "nat \<Rightarrow> int" where
  "bs_INDEX i = - int i - 1"

text \<open>
  One turn of the loop of \<open>find\<close> per call. Reading at an index past the last element, or
  the wrap-around of \<open>i -= delta\<close> below zero (which makes the next read one past the
  end), is \<open>None\<close>.
\<close>

function find_loop :: "bs_list \<Rightarrow> bytes \<Rightarrow> nat \<Rightarrow> nat \<Rightarrow> int \<Rightarrow> int option" where
  "find_loop l data i delta d =
     (if bs_n l \<le> i then None
      else
        let r = memcmp data (bs_elem l i);
            delta' = (if delta div 2 = 0 then 1 else delta div 2)
        in if r = 0 then Some (int i)
           else if r > 0 then
             (if d = 0 \<or> i + delta = bs_n l then Some (bs_INDEX (i + delta))
              else find_loop l data (i + delta) delta' (if delta div 2 = 0 then 1 else d))
           else
             (if d = 1 \<or> i = 0 then Some (bs_INDEX i)
              else if i < delta then None
              else find_loop l data (i - delta) delta' (if delta div 2 = 0 then 0 else d)))"
  by pat_completeness auto
termination
  by (relation "measures [
      \<lambda>(l, data, i, delta, d). if d = 0 \<or> d = 1 then 0 else delta + 1,
      \<lambda>(l, data, i, delta, d). if d = 1 then bs_n l - i else i,
      \<lambda>(l, data, i, delta, d). if delta = 0 then 1 else 0]")
    auto

definition bs_find :: "bs_list \<Rightarrow> bytes \<Rightarrow> int option" where
  "bs_find l data =
     (if bs_n l = 0 then Some (bs_INDEX 0)
      else let i = bs_n l div 2; delta = i div 2
           in find_loop l data i (if delta = 0 then 1 else delta) (- 1))"

declare find_loop.simps [simp del]

text \<open>
  The allocator: whether each of the two \<open>realloc\<close> calls succeeds, and what fresh memory
  contains.
\<close>

record bs_alloc =
  data_ok :: bool
  ids_ok :: bool
  fresh_byte :: "nat \<Rightarrow> u8"
  fresh_id :: "nat \<Rightarrow> int"

definition realloc_cells :: "'a list \<Rightarrow> nat \<Rightarrow> (nat \<Rightarrow> 'a) \<Rightarrow> 'a list" where
  "realloc_cells xs n fresh = take n xs @ map fresh [length xs..<n]"

text \<open>The byte count \<open>element_size * new_size\<close> is computed in 32 bits.\<close>

definition bs_resize :: "bs_alloc \<Rightarrow> bs_list \<Rightarrow> nat \<Rightarrow> bool \<times> bs_list" where
  "bs_resize al l new_size =
     (if \<not> data_ok al then (False, l)
      else
        let l1 = l\<lparr>bs_data := realloc_cells (bs_data l)
                     ((bs_element_size l * new_size) mod 2 ^ 32) (fresh_byte al)\<rparr>
        in if \<not> ids_ok al then (False, l1)
           else (True, l1\<lparr>bs_ids := realloc_cells (bs_ids l1) new_size (fresh_id al)\<rparr>))"

definition bs_list_init :: "bs_alloc \<Rightarrow> nat \<Rightarrow> nat \<Rightarrow> bool \<times> bs_list" where
  "bs_list_init al element_size initial_capacity =
     (let l = \<lparr>bs_n = 0, bs_capacity = 0, bs_element_size = element_size, bs_data = [], bs_ids = []\<rparr>
      in if initial_capacity \<noteq> 0 then
           (let (ok, l1) = bs_resize al l initial_capacity
            in if \<not> ok then (False, l1) else (True, l1\<lparr>bs_capacity := initial_capacity\<rparr>))
         else (True, l\<lparr>bs_capacity := initial_capacity\<rparr>))"

definition bs_list_find :: "bs_list \<Rightarrow> bytes \<Rightarrow> int option" where
  "bs_list_find l data =
     (case bs_find l data of
        None \<Rightarrow> None
      | Some r \<Rightarrow> Some (if r < 0 then - 1 else bs_ids l ! nat r))"

text \<open>
  The memory moves of \<open>bs_list_add\<close>: open a gap at position \<open>i\<close> in both arrays and fill it;
  and those of \<open>bs_list_remove\<close>: close the gap at position \<open>i\<close>.
\<close>

definition bs_insert_at :: "bs_list \<Rightarrow> nat \<Rightarrow> bytes \<Rightarrow> int \<Rightarrow> bs_list" where
  "bs_insert_at l i data ident =
     (let es = bs_element_size l;
          data1 = memcpy_at (bs_data l) (Suc i * es)
                    (read_at (bs_data l) (i * es) ((bs_n l - i) * es));
          data2 = memcpy_at data1 (i * es) data;
          ids1 = memcpy_at (bs_ids l) (Suc i) (read_at (bs_ids l) i (bs_n l - i));
          ids2 = ids1[i := ident]
      in l\<lparr>bs_data := data2, bs_ids := ids2, bs_n := bs_n l + 1\<rparr>)"

definition bs_delete_at :: "bs_list \<Rightarrow> nat \<Rightarrow> bs_list" where
  "bs_delete_at l i =
     (let es = bs_element_size l;
          n = bs_n l - 1;
          data1 = memcpy_at (bs_data l) (i * es)
                    (read_at (bs_data l) (Suc i * es) ((n - i) * es));
          ids1 = memcpy_at (bs_ids l) i (read_at (bs_ids l) (Suc i) (n - i))
      in l\<lparr>bs_n := n, bs_data := data1, bs_ids := ids1\<rparr>)"

text \<open>In both operations the outer \<open>None\<close> stands for the out-of-range read of \<open>find\<close>.\<close>

definition bs_list_add :: "bs_alloc \<Rightarrow> bs_list \<Rightarrow> bytes \<Rightarrow> int \<Rightarrow> (bool \<times> bs_list) option" where
  "bs_list_add al l data ident =
     (case bs_find l data of
        None \<Rightarrow> None
      | Some r \<Rightarrow>
          if r \<ge> 0 then Some (False, l)
          else
            let i = nat (- r - 1)
            in if bs_n l = bs_capacity l then
                 let new_capacity = bs_n l + bs_n l div 2 + 1;
                     (ok, l1) = bs_resize al l new_capacity
                 in if \<not> ok then Some (False, l1)
                    else Some (True, bs_insert_at (l1\<lparr>bs_capacity := new_capacity\<rparr>) i data ident)
               else Some (True, bs_insert_at l i data ident))"

definition bs_list_remove :: "bs_alloc \<Rightarrow> bs_list \<Rightarrow> bytes \<Rightarrow> int \<Rightarrow> (bool \<times> bs_list) option" where
  "bs_list_remove al l data ident =
     (case bs_find l data of
        None \<Rightarrow> None
      | Some r \<Rightarrow>
          if r < 0 then Some (False, l)
          else if bs_ids l ! nat r \<noteq> ident then Some (False, l)
          else
            let l1 = (if bs_n l < bs_capacity l div 2 then
                        let new_capacity = bs_capacity l div 2;
                            (ok, l1) = bs_resize al l new_capacity
                        in if ok then l1\<lparr>bs_capacity := new_capacity\<rparr> else l1
                      else l)
            in Some (True, bs_delete_at l1 (nat r)))"

definition bs_list_trim :: "bs_alloc \<Rightarrow> bs_list \<Rightarrow> bool \<times> bs_list" where
  "bs_list_trim al l =
     (let (ok, l1) = bs_resize al l (bs_n l)
      in if \<not> ok then (False, l1) else (True, l1\<lparr>bs_capacity := bs_n l\<rparr>))"

section \<open>Invariant\<close>

text \<open>
  The two arrays have room for \<open>capacity\<close> elements, the count is within the capacity, and
  the stored keys ascend strictly.
\<close>

definition bs_keys :: "bs_list \<Rightarrow> bytes list" where
  "bs_keys l = map (bs_elem l) [0..<bs_n l]"

definition bs_wf :: "bs_list \<Rightarrow> bool" where
  "bs_wf l \<longleftrightarrow> 0 < bs_element_size l \<and> bs_n l \<le> bs_capacity l \<and>
     bs_element_size l * bs_capacity l \<le> length (bs_data l) \<and>
     bs_capacity l \<le> length (bs_ids l) \<and> sorted_wrt bytes_less (bs_keys l)"

lemma length_bs_keys [simp]: "length (bs_keys l) = bs_n l"
  by (simp add: bs_keys_def)

lemma nth_bs_keys: "i < bs_n l \<Longrightarrow> bs_keys l ! i = bs_elem l i"
  by (simp add: bs_keys_def)

lemma bs_wf_elem_range:
  assumes "bs_wf l" and "i < bs_n l"
  shows "bs_element_size l * i + bs_element_size l \<le> length (bs_data l)"
proof -
  have "bs_element_size l * Suc i \<le> bs_element_size l * bs_capacity l"
    using assms by (intro mult_le_mono) (auto simp: bs_wf_def)
  then show ?thesis using assms by (simp add: bs_wf_def)
qed

lemma length_bs_elem: "bs_wf l \<Longrightarrow> i < bs_n l \<Longrightarrow> length (bs_elem l i) = bs_element_size l"
  using bs_wf_elem_range [of l i] by (simp add: bs_elem_def)

lemma bs_elem_less: "bs_wf l \<Longrightarrow> i < j \<Longrightarrow> j < bs_n l \<Longrightarrow> bytes_less (bs_elem l i) (bs_elem l j)"
  using sorted_wrt_nthD [of bytes_less "bs_keys l" i j] by (simp add: bs_wf_def nth_bs_keys)

section \<open>The search\<close>

text \<open>Where a key belongs: smaller keys before, larger keys from there on.\<close>

definition bs_insertion_point :: "bs_list \<Rightarrow> bytes \<Rightarrow> nat \<Rightarrow> bool" where
  "bs_insertion_point l key i \<longleftrightarrow> i \<le> bs_n l \<and>
     (\<forall>j < i. bytes_less (bs_elem l j) key) \<and> (\<forall>j. i \<le> j \<and> j < bs_n l \<longrightarrow> bytes_less key (bs_elem l j))"

lemma bs_insertion_pointI:
  assumes wf: "bs_wf l" and "i \<le> bs_n l"
    and below: "i = 0 \<or> bytes_less (bs_elem l (i - 1)) key"
    and above: "i = bs_n l \<or> bytes_less key (bs_elem l i)"
  shows "bs_insertion_point l key i"
  unfolding bs_insertion_point_def
proof (intro conjI allI impI)
  show "i \<le> bs_n l" by fact
next
  fix j assume j: "j < i"
  with below have "bytes_less (bs_elem l (i - 1)) key" by simp
  moreover have "j = i - 1 \<or> bytes_less (bs_elem l j) (bs_elem l (i - 1))"
    using j assms(2) by (auto intro: bs_elem_less [OF wf])
  ultimately show "bytes_less (bs_elem l j) key"
    using bytes_less_trans by auto
next
  fix j assume j: "i \<le> j \<and> j < bs_n l"
  with above have "bytes_less key (bs_elem l i)" by auto
  then show "bytes_less key (bs_elem l j)"
    using j bs_elem_less [OF wf, of i j] bytes_less_trans by (cases "j = i") auto
qed

definition bs_find_ok :: "bs_list \<Rightarrow> bytes \<Rightarrow> int option \<Rightarrow> bool" where
  "bs_find_ok l key res \<longleftrightarrow>
     (\<exists>i. res = Some (int i) \<and> i < bs_n l \<and> bs_elem l i = key) \<or>
     (\<exists>i. res = Some (bs_INDEX i) \<and> bs_insertion_point l key i)"

text \<open>
  The loop invariant. While the step is being halved (\<open>d = -1\<close>) two steps in either
  direction stay inside the array; in the walking phases the neighbour just left
  behind bounds the key.
\<close>

definition bs_find_inv :: "bs_list \<Rightarrow> bytes \<Rightarrow> nat \<Rightarrow> nat \<Rightarrow> int \<Rightarrow> bool" where
  "bs_find_inv l key i delta d \<longleftrightarrow> i < bs_n l \<and> 1 \<le> delta \<and>
     (d = - 1 \<and> (2 * delta \<le> i \<and> i + 2 * delta \<le> bs_n l \<or> delta = 1 \<and> i = bs_n l div 2 \<and> bs_n l \<le> 3) \<or>
      d = 1 \<and> delta = 1 \<and> 1 \<le> i \<and> bytes_less (bs_elem l (i - 1)) key \<or>
      d = 0 \<and> delta = 1 \<and> i + 1 < bs_n l \<and> bytes_less key (bs_elem l (i + 1)))"

lemma bs_find_inv_up:
  assumes "bs_find_inv l key i delta d" and "bytes_less (bs_elem l i) key"
    and "d \<noteq> 0" and "i + delta \<noteq> bs_n l"
  shows "bs_find_inv l key (i + delta) (if delta div 2 = 0 then 1 else delta div 2)
    (if delta div 2 = 0 then 1 else d)"
proof (cases "delta = 1")
  case True
  with assms show ?thesis by (auto simp: bs_find_inv_def)
next
  case False
  with assms show ?thesis by (auto simp: bs_find_inv_def)
qed

lemma bs_find_inv_down:
  assumes "bs_find_inv l key i delta d" and "bytes_less key (bs_elem l i)"
    and "d \<noteq> 1" and "i \<noteq> 0"
  shows "delta \<le> i" and "bs_find_inv l key (i - delta) (if delta div 2 = 0 then 1 else delta div 2)
    (if delta div 2 = 0 then 0 else d)"
proof -
  have small: "i = 1" if "i = bs_n l div 2" "bs_n l \<le> 3" using that assms(4) by linarith
  show "delta \<le> i" using assms by (auto simp: bs_find_inv_def)
  show "bs_find_inv l key (i - delta) (if delta div 2 = 0 then 1 else delta div 2)
    (if delta div 2 = 0 then 0 else d)"
    using assms small by (cases "delta = 1") (auto simp: bs_find_inv_def)
qed

lemma find_loop_correct:
  assumes "bs_wf l" and "length key = bs_element_size l" and "bs_find_inv l key i delta d"
  shows "bs_find_ok l key (find_loop l key i delta d)"
  using assms
proof (induction l key i delta d rule: find_loop.induct)
  case (1 l key i delta d)
  let ?r = "memcmp key (bs_elem l i)"
  have i: "i < bs_n l" using "1.prems"(3) by (simp add: bs_find_inv_def)
  have len: "length key = length (bs_elem l i)"
    using length_bs_elem [OF "1.prems"(1) i] "1.prems"(2) by simp
  note unfold = find_loop.simps [of l key i delta d]
  consider (eq) "?r = 0" | (gt) "?r > 0" | (lt) "?r < 0" by linarith
  then show ?case
  proof cases
    case eq
    then have "find_loop l key i delta d = Some (int i)" using i by (simp add: unfold)
    moreover have "key = bs_elem l i" using eq memcmp_eq_0_iff [OF len] by simp
    ultimately show ?thesis using i by (simp add: bs_find_ok_def)
  next
    case gt
    then have less: "bytes_less (bs_elem l i) key" using memcmp_greater_0_iff [OF len] by simp
    show ?thesis
    proof (cases "d = 0 \<or> i + delta = bs_n l")
      case True
      with "1.prems"(3) have one: "delta = 1" by (auto simp: bs_find_inv_def)
      with True "1.prems" less have "bs_insertion_point l key (i + delta)"
        by (intro bs_insertion_pointI) (auto simp: bs_find_inv_def)
      moreover have "find_loop l key i delta d = Some (bs_INDEX (i + delta))"
        using True gt i by (simp add: unfold)
      ultimately show ?thesis by (auto simp: bs_find_ok_def)
    next
      case False
      with "1.IH"(1) [OF _ refl refl] gt i "1.prems" bs_find_inv_up [OF "1.prems"(3) less] show ?thesis
        by (simp add: unfold Let_def)
    qed
  next
    case lt
    then have less: "bytes_less key (bs_elem l i)" using memcmp_less_0_iff [OF len] by simp
    show ?thesis
    proof (cases "d = 1 \<or> i = 0")
      case True
      then have "bs_insertion_point l key i"
        using "1.prems" less by (intro bs_insertion_pointI) (auto simp: bs_find_inv_def)
      moreover have "find_loop l key i delta d = Some (bs_INDEX i)"
        using True lt i by (auto simp: unfold)
      ultimately show ?thesis by (auto simp: bs_find_ok_def)
    next
      case False
      with "1.IH"(2) [OF _ refl refl] lt i "1.prems" bs_find_inv_down [OF "1.prems"(3) less] show ?thesis
        by (simp add: unfold Let_def)
    qed
  qed
qed

lemma bs_find_correct:
  assumes "bs_wf l" and "length key = bs_element_size l"
  shows "bs_find_ok l key (bs_find l key)"
proof (cases "bs_n l = 0")
  case True
  then show ?thesis
    by (auto simp: bs_find_def bs_find_ok_def bs_insertion_point_def)
next
  case False
  define delta where "delta = (if bs_n l div 2 div 2 = 0 then 1 else bs_n l div 2 div 2)"
  have "bs_find_inv l key (bs_n l div 2) delta (- 1)"
    using False by (auto simp: bs_find_inv_def delta_def)
  with find_loop_correct [OF assms this] False show ?thesis
    by (simp add: bs_find_def Let_def delta_def)
qed

section \<open>Abstraction to a map\<close>

definition bs_assoc :: "bs_list \<Rightarrow> (bytes \<times> int) list" where
  "bs_assoc l = zip (bs_keys l) (take (bs_n l) (bs_ids l))"

definition bs_map :: "bs_list \<Rightarrow> bytes \<Rightarrow> int option" where
  "bs_map l = map_of (bs_assoc l)"

lemma bs_wf_ids_length: "bs_wf l \<Longrightarrow> bs_n l \<le> length (bs_ids l)"
  by (simp add: bs_wf_def)

lemma distinct_bs_keys:
  assumes "bs_wf l"
  shows "distinct (bs_keys l)"
proof (rule distinct_conv_nth [THEN iffD2], intro allI impI)
  fix i j assume ij: "i < length (bs_keys l)" "j < length (bs_keys l)" "i \<noteq> j"
  then have "bytes_less (bs_elem l i) (bs_elem l j) \<or> bytes_less (bs_elem l j) (bs_elem l i)"
    using bs_elem_less [OF assms] by (metis length_bs_keys linorder_neqE_nat)
  with ij show "bs_keys l ! i \<noteq> bs_keys l ! j"
    by (auto simp: nth_bs_keys)
qed

lemma bs_map_Some:
  assumes "bs_wf l" and "i < bs_n l"
  shows "bs_map l (bs_elem l i) = Some (bs_ids l ! i)"
proof -
  have "(bs_elem l i, bs_ids l ! i) \<in> set (bs_assoc l)"
    using assms bs_wf_ids_length [OF assms(1)]
    by (auto simp: bs_assoc_def in_set_zip nth_bs_keys intro!: exI [of _ i])
  moreover have "distinct (map fst (bs_assoc l))"
    using distinct_bs_keys [OF assms(1)] bs_wf_ids_length [OF assms(1)]
    by (simp add: bs_assoc_def min_def)
  ultimately show ?thesis by (simp add: bs_map_def)
qed

lemma bs_map_None:
  assumes "bs_wf l" and "bs_insertion_point l key i"
  shows "bs_map l key = None"
proof -
  have "bs_elem l j \<noteq> key" if "j < bs_n l" for j
    using assms(2) that by (cases "j < i") (auto simp: bs_insertion_point_def not_less)
  then have "key \<notin> set (bs_keys l)"
    by (auto simp: in_set_conv_nth nth_bs_keys)
  then show ?thesis
    using bs_wf_ids_length [OF assms(1)]
    by (auto simp: bs_map_def map_of_eq_None_iff bs_assoc_def dest: set_zip_leftD)
qed

text \<open>The two outcomes of a search, with what they mean for the map.\<close>

lemma bs_find_cases:
  assumes "bs_wf l" and "length key = bs_element_size l"
  obtains (found) i where "bs_find l key = Some (int i)" "i < bs_n l" "bs_elem l i = key"
      "bs_map l key = Some (bs_ids l ! i)"
    | (missing) i where "bs_find l key = Some (bs_INDEX i)" "bs_insertion_point l key i"
      "bs_map l key = None"
  using bs_find_correct [OF assms] bs_map_Some [OF assms(1)] bs_map_None [OF assms(1)]
  unfolding bs_find_ok_def by metis

lemma bs_list_find_map:
  assumes "bs_wf l" and "length key = bs_element_size l"
  shows "bs_list_find l key = Some (case bs_map l key of None \<Rightarrow> - 1 | Some v \<Rightarrow> v)"
  using assms by (cases rule: bs_find_cases) (auto simp: bs_list_find_def bs_INDEX_def)

section \<open>Growing and shrinking the arrays\<close>

text \<open>Two lists that hold the same elements under the same numbers.\<close>

definition bs_same :: "bs_list \<Rightarrow> bs_list \<Rightarrow> bool" where
  "bs_same l l' \<longleftrightarrow> bs_n l' = bs_n l \<and> bs_element_size l' = bs_element_size l \<and>
     (\<forall>i < bs_n l. bs_elem l' i = bs_elem l i \<and> bs_ids l' ! i = bs_ids l ! i)"

lemma bs_same_refl [simp]: "bs_same l l"
  by (simp add: bs_same_def)

lemma bs_same_keys: "bs_same l l' \<Longrightarrow> bs_keys l' = bs_keys l"
  by (auto simp: bs_same_def bs_keys_def)

lemma length_realloc_cells [simp]: "length (realloc_cells xs n fresh) = n"
  by (simp add: realloc_cells_def min_def)

lemma read_at_realloc_cells:
  "a + k \<le> n \<Longrightarrow> a + k \<le> length xs \<Longrightarrow> read_at (realloc_cells xs n fresh) a k = read_at xs a k"
  by (simp add: realloc_cells_def read_at_def take_drop min_def)

lemma nth_realloc_cells:
  "i < n \<Longrightarrow> i < length xs \<Longrightarrow> realloc_cells xs n fresh ! i = xs ! i"
  by (simp add: realloc_cells_def nth_append)

lemma bs_elem_realloc:
  assumes "bs_wf l" and "i < bs_n l" and "bs_n l \<le> m"
  shows "read_at (realloc_cells (bs_data l) (bs_element_size l * m) fresh)
      (bs_element_size l * i) (bs_element_size l) = bs_elem l i"
proof -
  have "bs_element_size l * Suc i \<le> bs_element_size l * m"
    using assms by (intro mult_le_mono) auto
  with bs_wf_elem_range [OF assms(1,2)] show ?thesis
    by (simp add: bs_elem_def read_at_realloc_cells add.commute)
qed

lemma bs_resize_success:
  assumes wf: "bs_wf l" and m: "bs_n l \<le> m" "bs_element_size l * m < 2 ^ 32"
    and r: "bs_resize al l m = (True, l')"
  shows "bs_same l l'" and "bs_wf (l'\<lparr>bs_capacity := m\<rparr>)"
    and "bs_same l (l'\<lparr>bs_capacity := m\<rparr>)"
proof -
  have l': "l' = l\<lparr>bs_data := realloc_cells (bs_data l) (bs_element_size l * m) (fresh_byte al),
      bs_ids := realloc_cells (bs_ids l) m (fresh_id al)\<rparr>"
    using r m(2) by (auto simp: bs_resize_def Let_def split: if_splits)
  show s: "bs_same l l'"
    using bs_elem_realloc [OF wf _ m(1)] m(1) bs_wf_ids_length [OF wf]
    by (auto simp: bs_same_def l' bs_elem_def nth_realloc_cells)
  then show s': "bs_same l (l'\<lparr>bs_capacity := m\<rparr>)"
    by (auto simp: bs_same_def bs_elem_def)
  show "bs_wf (l'\<lparr>bs_capacity := m\<rparr>)"
    using wf m(1) bs_same_keys [OF s'] by (simp add: bs_wf_def l')
qed

lemma bs_resize_failure:
  assumes wf: "bs_wf l" and m: "bs_capacity l \<le> m" "bs_element_size l * m < 2 ^ 32"
    and r: "bs_resize al l m = (False, l')"
  shows "bs_same l l'" and "bs_wf l'"
proof -
  have n: "bs_n l \<le> m" using wf m(1) by (simp add: bs_wf_def)
  have l': "l' = l \<or> l' = l\<lparr>bs_data := realloc_cells (bs_data l) (bs_element_size l * m) (fresh_byte al)\<rparr>"
    using r m(2) by (auto simp: bs_resize_def Let_def split: if_splits)
  then show s: "bs_same l l'"
    using bs_elem_realloc [OF wf _ n] by (auto simp: bs_same_def bs_elem_def)
  show "bs_wf l'" using l' wf m(1) bs_same_keys [OF s] by (auto simp: bs_wf_def)
qed

section \<open>Inserting and deleting\<close>

lemma bs_data_range: "bs_wf l \<Longrightarrow> m \<le> bs_capacity l \<Longrightarrow> m * bs_element_size l \<le> length (bs_data l)"
  by (metis (no_types, lifting) bs_wf_def le_trans mult.commute mult_le_mono1)

lemma mult_Suc_le: "j < i \<Longrightarrow> e * j + e \<le> i * (e::nat)"
  using mult_le_mono [of "Suc j" i e e] by (simp add: mult.commute)

lemma bs_insert_at_elem:
  assumes wf: "bs_wf l" and room: "bs_n l < bs_capacity l" and i: "i \<le> bs_n l"
    and key: "length key = bs_element_size l" and j: "j \<le> bs_n l"
  shows "bs_elem (bs_insert_at l i key v) j =
    (if j < i then bs_elem l j else if j = i then key else bs_elem l (j - 1))"
proof -
  let ?e = "bs_element_size l" and ?n = "bs_n l"
  define mv where "mv = read_at (bs_data l) (i * ?e) ((?n - i) * ?e)"
  have n1: "Suc ?n * ?e \<le> length (bs_data l)"
    using bs_data_range [OF wf, of "Suc ?n"] room by simp
  have ni: "i * ?e + (?n - i) * ?e = ?n * ?e"
    using i by (metis add_mult_distrib le_add_diff_inverse)
  then have lmv: "length mv = (?n - i) * ?e" using n1 by (simp add: mv_def)
  define d1 where "d1 = memcpy_at (bs_data l) (Suc i * ?e) mv"
  have fits: "Suc i * ?e + length mv \<le> length (bs_data l)" using lmv ni n1 by simp
  then have d1: "length d1 = length (bs_data l)" by (simp add: d1_def)
  have el: "bs_elem (bs_insert_at l i key v) j = read_at (memcpy_at d1 (i * ?e) key) (?e * j) ?e"
    by (simp add: bs_insert_at_def bs_elem_def Let_def d1_def mv_def)
  consider "j < i" | "j = i" | "i < j" by linarith
  then show ?thesis
  proof cases
    case 1
    then show ?thesis
      using el mult_Suc_le [OF 1, of ?e] fits d1
      by (simp add: read_at_memcpy_before bs_elem_def) (simp add: d1_def read_at_memcpy_before)
  next
    case 2
    have "read_at (memcpy_at d1 (i * ?e) key) (i * ?e) (length key) = key"
      using key d1 fits by (intro read_at_memcpy_at_same) simp
    then show ?thesis using 2 el key by (simp add: mult.commute)
  next
    case 3
    have le: "Suc i * ?e \<le> ?e * j" using 3 mult_le_mono [of "Suc i" j ?e ?e] by (simp add: mult.commute)
    have up: "?e * j + ?e \<le> Suc ?n * ?e" using j mult_Suc_le [of j "Suc ?n" ?e] by simp
    have "read_at (memcpy_at d1 (i * ?e) key) (?e * j) ?e = read_at d1 (?e * j) ?e"
      using le key d1 fits by (intro read_at_memcpy_after) auto
    also have "\<dots> = read_at mv (?e * j - Suc i * ?e) ?e"
      unfolding d1_def using le up lmv ni fits by (intro read_at_memcpy_inside) auto
    also have "\<dots> = read_at (bs_data l) (i * ?e + (?e * j - Suc i * ?e)) ?e"
      unfolding mv_def using le up ni by (intro read_at_read_at, unfold mult_Suc) linarith
    also have "i * ?e + (?e * j - Suc i * ?e) = ?e * (j - 1)"
      using le 3 by (simp add: diff_mult_distrib2)
    finally show ?thesis using 3 el by (simp add: bs_elem_def)
  qed
qed

lemma bs_delete_at_elem:
  assumes wf: "bs_wf l" and i: "i < bs_n l" and j: "j < bs_n l - 1"
  shows "bs_elem (bs_delete_at l i) j = (if j < i then bs_elem l j else bs_elem l (Suc j))"
proof -
  let ?e = "bs_element_size l" and ?n = "bs_n l - 1"
  define mv where "mv = read_at (bs_data l) (Suc i * ?e) ((?n - i) * ?e)"
  have n1: "Suc ?n * ?e \<le> length (bs_data l)"
    using bs_data_range [OF wf, of "Suc ?n"] wf i by (simp add: bs_wf_def)
  have ni: "i * ?e + (?n - i) * ?e = ?n * ?e"
    using i add_mult_distrib [of i "?n - i" ?e] by simp
  then have lmv: "length mv = (?n - i) * ?e" using n1 by (simp add: mv_def)
  have el: "bs_elem (bs_delete_at l i) j = read_at (memcpy_at (bs_data l) (i * ?e) mv) (?e * j) ?e"
    by (simp add: bs_delete_at_def bs_elem_def Let_def mv_def)
  show ?thesis
  proof (cases "j < i")
    case True
    then show ?thesis
      using el mult_Suc_le [OF True, of ?e] ni n1 by (simp add: read_at_memcpy_before bs_elem_def)
  next
    case False
    then have le: "i * ?e \<le> ?e * j" using mult_le_mono [of i j ?e ?e] by (simp add: mult.commute)
    have up: "?e * j + ?e \<le> ?n * ?e" using j mult_Suc_le [of j ?n ?e] by simp
    have "read_at (memcpy_at (bs_data l) (i * ?e) mv) (?e * j) ?e = read_at mv (?e * j - i * ?e) ?e"
      using le up lmv ni n1 by (intro read_at_memcpy_inside) auto
    also have "\<dots> = read_at (bs_data l) (Suc i * ?e + (?e * j - i * ?e)) ?e"
      unfolding mv_def using le up ni by (intro read_at_read_at) linarith
    also have "Suc i * ?e + (?e * j - i * ?e) = ?e * Suc j" using le by simp
    finally show ?thesis using False el by (simp add: bs_elem_def)
  qed
qed

lemma bs_insert_at_ids:
  assumes "bs_wf l" and "bs_n l < bs_capacity l" and "i \<le> bs_n l"
  shows "take (Suc (bs_n l)) (bs_ids (bs_insert_at l i key v)) =
    take i (bs_ids l) @ v # drop i (take (bs_n l) (bs_ids l))"
proof -
  have n: "bs_n l < length (bs_ids l)" using assms by (simp add: bs_wf_def)
  define ids1 where "ids1 = memcpy_at (bs_ids l) (Suc i) (read_at (bs_ids l) i (bs_n l - i))"
  have e: "bs_ids (bs_insert_at l i key v) = ids1[i := v]"
    by (simp add: bs_insert_at_def Let_def ids1_def)
  have l1: "length ids1 = length (bs_ids l)" using assms(3) n by (simp add: ids1_def)
  have nth: "ids1 ! j = (if j \<le> i then bs_ids l ! j else bs_ids l ! (j - 1))" if "j \<le> bs_n l" for j
    using that assms(3) n by (auto simp: ids1_def nth_memcpy_at nth_read_at)
  show ?thesis
  proof (rule nth_equalityI)
    fix j assume "j < length (take (Suc (bs_n l)) (bs_ids (bs_insert_at l i key v)))"
    then have j: "j \<le> bs_n l" by simp
    then have "(take i (bs_ids l) @ v # drop i (take (bs_n l) (bs_ids l))) ! j =
        (if j < i then bs_ids l ! j else if j = i then v else bs_ids l ! (j - 1))"
      using assms(3) n by (auto simp: nth_append nth_Cons')
    then show "take (Suc (bs_n l)) (bs_ids (bs_insert_at l i key v)) ! j =
        (take i (bs_ids l) @ v # drop i (take (bs_n l) (bs_ids l))) ! j"
      using j nth [OF j] l1 n by (auto simp: e nth_list_update)
  qed (use assms(3) n l1 e in auto)
qed

lemma bs_insert_at_keys:
  assumes "bs_wf l" and "bs_n l < bs_capacity l" and "i \<le> bs_n l"
    and "length key = bs_element_size l"
  shows "bs_keys (bs_insert_at l i key v) = take i (bs_keys l) @ key # drop i (bs_keys l)"
proof (rule nth_equalityI)
  have n: "bs_n (bs_insert_at l i key v) = Suc (bs_n l)" by (simp add: bs_insert_at_def Let_def)
  then show "length (bs_keys (bs_insert_at l i key v)) = length (take i (bs_keys l) @ key # drop i (bs_keys l))"
    using assms(3) by simp
  fix j assume "j < length (bs_keys (bs_insert_at l i key v))"
  with n have j: "j \<le> bs_n l" by simp
  then have "(take i (bs_keys l) @ key # drop i (bs_keys l)) ! j =
      (if j < i then bs_elem l j else if j = i then key else bs_elem l (j - 1))"
    using assms(3) by (auto simp: nth_append nth_Cons' nth_bs_keys)
  then show "bs_keys (bs_insert_at l i key v) ! j = (take i (bs_keys l) @ key # drop i (bs_keys l)) ! j"
    using j n bs_insert_at_elem [OF assms j, of v] by (simp add: nth_bs_keys)
qed

lemma bs_insert_at_wf:
  assumes wf: "bs_wf l" and room: "bs_n l < bs_capacity l"
    and ip: "bs_insertion_point l key i" and key: "length key = bs_element_size l"
  shows "bs_wf (bs_insert_at l i key v)"
proof -
  let ?l = "bs_insert_at l i key v" and ?e = "bs_element_size l"
  have i: "i \<le> bs_n l" using ip by (simp add: bs_insertion_point_def)
  have "Suc (bs_n l) * ?e \<le> length (bs_data l)" "i * ?e + (bs_n l - i) * ?e = bs_n l * ?e"
    using bs_data_range [OF wf, of "Suc (bs_n l)"] room i add_mult_distrib [of i "bs_n l - i" ?e]
    by auto
  then have "length (bs_data ?l) = length (bs_data l)" "length (bs_ids ?l) = length (bs_ids l)"
    using wf room i key by (auto simp: bs_insert_at_def Let_def bs_wf_def)
  moreover have "sorted_wrt bytes_less (bs_keys ?l)"
  proof -
    have "x \<in> set (take i (bs_keys l)) \<Longrightarrow> bytes_less x key"
      and "x \<in> set (drop i (bs_keys l)) \<Longrightarrow> bytes_less key x" for x
      using ip i by (auto simp: in_set_conv_nth nth_bs_keys bs_insertion_point_def)
    moreover have "sorted_wrt bytes_less (take i (bs_keys l) @ drop i (bs_keys l))"
      using wf by (simp add: bs_wf_def)
    ultimately show ?thesis
      unfolding bs_insert_at_keys [OF wf room i key]
      by (auto simp: sorted_wrt_append simp del: append_take_drop_id)
  qed
  ultimately show ?thesis
    using wf room by (simp add: bs_wf_def bs_insert_at_def Let_def)
qed

lemma bs_insert_at_map:
  assumes wf: "bs_wf l" and room: "bs_n l < bs_capacity l"
    and ip: "bs_insertion_point l key i" and key: "length key = bs_element_size l"
  shows "bs_map (bs_insert_at l i key v) = (bs_map l)(key \<mapsto> v)"
proof -
  have i: "i \<le> bs_n l" using ip by (simp add: bs_insertion_point_def)
  define ids where "ids = take (bs_n l) (bs_ids l)"
  have len: "length ids = bs_n l" using bs_wf_ids_length [OF wf] by (simp add: ids_def)
  have n: "bs_n (bs_insert_at l i key v) = Suc (bs_n l)" by (simp add: bs_insert_at_def Let_def)
  have ids: "take (Suc (bs_n l)) (bs_ids (bs_insert_at l i key v)) = take i ids @ v # drop i ids"
    using bs_insert_at_ids [OF wf room i, of key v] i by (simp add: ids_def min_def)
  have "length (take i (bs_keys l)) = length (take i ids)" using len by simp
  then have "bs_assoc (bs_insert_at l i key v) =
      zip (take i (bs_keys l)) (take i ids) @ (key, v) # zip (drop i (bs_keys l)) (drop i ids)"
    unfolding bs_assoc_def n ids bs_insert_at_keys [OF wf room i key] by (subst zip_append) simp_all
  also have "\<dots> = take i (bs_assoc l) @ (key, v) # drop i (bs_assoc l)"
    by (simp add: bs_assoc_def ids_def take_zip drop_zip)
  finally have a: "bs_assoc (bs_insert_at l i key v) = \<dots>" .
  have "key \<notin> fst ` set (take i (bs_assoc l))"
    using bs_map_None [OF wf ip] set_take_subset [of i "bs_assoc l"]
    by (auto simp: bs_map_def map_of_eq_None_iff)
  then have none: "map_of (take i (bs_assoc l)) key = None" by (simp add: map_of_eq_None_iff)
  have "bs_map l = map_of (take i (bs_assoc l) @ drop i (bs_assoc l))" by (simp add: bs_map_def)
  then show ?thesis
    using none unfolding bs_map_def a map_of_append by (auto simp: fun_eq_iff map_add_def split: option.splits)
qed

lemma bs_delete_at_ids:
  assumes "bs_wf l" and "i < bs_n l"
  shows "take (bs_n l - 1) (bs_ids (bs_delete_at l i)) =
    take i (bs_ids l) @ drop (Suc i) (take (bs_n l) (bs_ids l))"
proof (rule nth_equalityI)
  have n: "bs_n l \<le> length (bs_ids l)" using assms by (simp add: bs_wf_ids_length)
  have e: "bs_ids (bs_delete_at l i) =
      memcpy_at (bs_ids l) i (read_at (bs_ids l) (Suc i) (bs_n l - 1 - i))"
    by (simp add: bs_delete_at_def Let_def)
  have len: "length (bs_ids (bs_delete_at l i)) = length (bs_ids l)" using assms n by (simp add: e)
  then show "length (take (bs_n l - 1) (bs_ids (bs_delete_at l i))) =
      length (take i (bs_ids l) @ drop (Suc i) (take (bs_n l) (bs_ids l)))"
    using assms n by auto
  fix j assume "j < length (take (bs_n l - 1) (bs_ids (bs_delete_at l i)))"
  then have j: "j < bs_n l - 1" by simp
  then have "bs_ids (bs_delete_at l i) ! j = bs_ids l ! (if j < i then j else Suc j)"
    using assms n by (auto simp: e nth_memcpy_at nth_read_at)
  then show "take (bs_n l - 1) (bs_ids (bs_delete_at l i)) ! j =
      (take i (bs_ids l) @ drop (Suc i) (take (bs_n l) (bs_ids l))) ! j"
    using j assms n by (auto simp: nth_append)
qed

lemma bs_delete_at_keys:
  assumes "bs_wf l" and "i < bs_n l"
  shows "bs_keys (bs_delete_at l i) = take i (bs_keys l) @ drop (Suc i) (bs_keys l)"
proof (rule nth_equalityI)
  have n: "bs_n (bs_delete_at l i) = bs_n l - 1" by (simp add: bs_delete_at_def Let_def)
  then show "length (bs_keys (bs_delete_at l i)) = length (take i (bs_keys l) @ drop (Suc i) (bs_keys l))"
    using assms by simp
  fix j assume "j < length (bs_keys (bs_delete_at l i))"
  with n have j: "j < bs_n l - 1" by simp
  then show "bs_keys (bs_delete_at l i) ! j = (take i (bs_keys l) @ drop (Suc i) (bs_keys l)) ! j"
    using n assms bs_delete_at_elem [OF assms j] by (auto simp: nth_bs_keys nth_append)
qed

lemma sorted_wrt_remove_nth:
  "sorted_wrt P xs \<Longrightarrow> sorted_wrt P (take i xs @ drop (Suc i) xs)"
  using sorted_wrt_append [of P "take i xs" "drop i xs"]
  by (auto simp: sorted_wrt_append sorted_wrt_drop sorted_wrt_take
      dest: in_set_dropD [of _ 1 "drop i xs", simplified] split: if_splits)

lemma length_bs_data_delete:
  assumes i: "i < bs_n l" and room: "bs_n l * bs_element_size l \<le> length (bs_data l)"
  shows "length (bs_data (bs_delete_at l i)) = length (bs_data l)"
proof -
  let ?e = "bs_element_size l" and ?n = "bs_n l - 1"
  have "?e + ?n * ?e \<le> length (bs_data l)"
    using room i mult_Suc [of ?n ?e] by simp
  moreover have "i * ?e + (?n - i) * ?e = ?n * ?e"
    using i add_mult_distrib [of i "?n - i" ?e] by simp
  ultimately have fits: "Suc i * ?e + (?n - i) * ?e \<le> length (bs_data l)"
    "i * ?e + (?n - i) * ?e \<le> length (bs_data l)" by (simp_all only: mult_Suc)
  then show ?thesis by (simp add: bs_delete_at_def Let_def)
qed

lemma bs_delete_at_wf:
  assumes wf: "bs_wf l" and i: "i < bs_n l"
  shows "bs_wf (bs_delete_at l i)"
proof -
  have "length (bs_data (bs_delete_at l i)) = length (bs_data l)"
    using length_bs_data_delete [OF i] bs_data_range [OF wf, of "bs_n l"] wf by (simp add: bs_wf_def)
  moreover have "length (bs_ids (bs_delete_at l i)) = length (bs_ids l)"
    using i bs_wf_ids_length [OF wf] by (simp add: bs_delete_at_def Let_def)
  moreover have "sorted_wrt bytes_less (bs_keys (bs_delete_at l i))"
    using wf by (simp add: bs_delete_at_keys [OF wf i] bs_wf_def sorted_wrt_remove_nth)
  ultimately show ?thesis
    using wf i by (auto simp: bs_wf_def bs_delete_at_def Let_def)
qed

lemma bs_delete_at_map:
  assumes wf: "bs_wf l" and i: "i < bs_n l"
  shows "bs_map (bs_delete_at l i) = (bs_map l)(bs_elem l i := None)"
proof -
  define ids where "ids = take (bs_n l) (bs_ids l)"
  have len: "length ids = bs_n l" using bs_wf_ids_length [OF wf] by (simp add: ids_def)
  have n: "bs_n (bs_delete_at l i) = bs_n l - 1" by (simp add: bs_delete_at_def Let_def)
  have ids: "take (bs_n l - 1) (bs_ids (bs_delete_at l i)) = take i ids @ drop (Suc i) ids"
    using bs_delete_at_ids [OF wf i] i by (simp add: ids_def min_def)
  have "length (take i (bs_keys l)) = length (take i ids)" using len by simp
  then have "bs_assoc (bs_delete_at l i) =
      zip (take i (bs_keys l)) (take i ids) @ zip (drop (Suc i) (bs_keys l)) (drop (Suc i) ids)"
    unfolding bs_assoc_def n ids bs_delete_at_keys [OF wf i] by (rule zip_append)
  then have a: "bs_assoc (bs_delete_at l i) = take i (bs_assoc l) @ drop (Suc i) (bs_assoc l)"
    by (simp add: bs_assoc_def ids_def take_zip drop_zip)
  have li: "i < length (bs_assoc l)" using i len by (simp add: bs_assoc_def ids_def)
  have ki: "fst (bs_assoc l ! i) = bs_elem l i"
    using i len by (simp add: bs_assoc_def nth_bs_keys ids_def)
  have split: "bs_assoc l = take i (bs_assoc l) @ bs_assoc l ! i # drop (Suc i) (bs_assoc l)"
    using li by (simp add: id_take_nth_drop)
  have "distinct (map fst (bs_assoc l))"
    using distinct_bs_keys [OF wf] len by (simp add: bs_assoc_def ids_def)
  then have "bs_elem l i \<notin> fst ` set (take i (bs_assoc l))" "bs_elem l i \<notin> fst ` set (drop (Suc i) (bs_assoc l))"
    using ki by (subst (asm) split, simp)+
  then have none: "map_of (take i (bs_assoc l)) (bs_elem l i) = None"
    "map_of (drop (Suc i) (bs_assoc l)) (bs_elem l i) = None"
    by (simp_all add: map_of_eq_None_iff)
  have m: "bs_map l = map_of (take i (bs_assoc l) @ (bs_elem l i, snd (bs_assoc l ! i)) # drop (Suc i) (bs_assoc l))"
    unfolding bs_map_def using split ki by (metis prod.collapse)
  show ?thesis
    unfolding m bs_map_def [of "bs_delete_at l i"] a
    using none by (auto simp: fun_eq_iff map_add_def split: option.splits)
qed

section \<open>The operations refine the map\<close>

lemma bs_same_insertion_point:
  "bs_same l l' \<Longrightarrow> bs_insertion_point l' key i = bs_insertion_point l key i"
  by (auto simp: bs_same_def bs_insertion_point_def)

lemma bs_same_map:
  assumes "bs_same l l'" and "bs_wf l" and "bs_wf l'"
  shows "bs_map l' = bs_map l"
proof -
  have "take (bs_n l') (bs_ids l') = take (bs_n l) (bs_ids l)"
    using assms(1) bs_wf_ids_length [OF assms(2)] bs_wf_ids_length [OF assms(3)]
    by (intro nth_equalityI) (auto simp: bs_same_def)
  then show ?thesis
    using bs_same_keys [OF assms(1)] by (simp add: bs_map_def bs_assoc_def)
qed

text \<open>The byte count of the allocation fits its 32-bit computation.\<close>

definition bs_inv :: "bs_list \<Rightarrow> bool" where
  "bs_inv l \<longleftrightarrow> bs_wf l \<and> bs_element_size l * bs_capacity l < 2 ^ 32"

text \<open>The array can still grow by one step without overflowing the 32-bit byte count.\<close>

definition bs_room :: "bs_list \<Rightarrow> bool" where
  "bs_room l \<longleftrightarrow> bs_element_size l * (bs_n l + bs_n l div 2 + 1) < 2 ^ 32"

lemma bs_size_simps [simp]:
  "bs_element_size (bs_insert_at l i key v) = bs_element_size l"
  "bs_capacity (bs_insert_at l i key v) = bs_capacity l"
  "bs_element_size (bs_delete_at l i) = bs_element_size l"
  "bs_capacity (bs_delete_at l i) = bs_capacity l"
  "bs_element_size (snd (bs_resize al l m)) = bs_element_size l"
  "bs_capacity (snd (bs_resize al l m)) = bs_capacity l"
  by (simp_all add: bs_insert_at_def bs_delete_at_def bs_resize_def Let_def)

lemma bs_list_add_cases:
  assumes inv: "bs_inv l" and key: "length key = bs_element_size l" and room: "bs_room l"
  obtains (present) "bs_map l key \<noteq> None" "bs_list_add al l key v = Some (False, l)"
    | (no_memory) l' where "bs_map l key = None" "bs_list_add al l key v = Some (False, l')"
        "bs_inv l'" "bs_map l' = bs_map l" "\<not> (data_ok al \<and> ids_ok al)"
    | (added) l' where "bs_map l key = None" "bs_list_add al l key v = Some (True, l')"
        "bs_inv l'" "bs_map l' = (bs_map l)(key \<mapsto> v)"
proof -
  have wf: "bs_wf l" and sz: "bs_element_size l * bs_capacity l < 2 ^ 32"
    using inv by (simp_all add: bs_inv_def)
  let ?m = "bs_n l + bs_n l div 2 + 1"
  have m: "bs_element_size l * ?m < 2 ^ 32" using room by (simp add: bs_room_def)
  from wf key show ?thesis
  proof (cases rule: bs_find_cases)
    case (found i)
    then show ?thesis by (intro present) (simp_all add: bs_list_add_def)
  next
    case (missing i)
    have add: "bs_list_add al l key v =
        (if bs_n l = bs_capacity l
         then (case bs_resize al l ?m of (ok, l1) \<Rightarrow>
            if \<not> ok then Some (False, l1)
            else Some (True, bs_insert_at (l1\<lparr>bs_capacity := ?m\<rparr>) i key v))
         else Some (True, bs_insert_at l i key v))"
      using missing by (simp add: bs_list_add_def bs_INDEX_def Let_def split: prod.split)
    obtain ok l1 where r: "bs_resize al l ?m = (ok, l1)" by fastforce
    have es: "bs_element_size l1 = bs_element_size l" "bs_capacity l1 = bs_capacity l"
      using bs_size_simps(5,6) [of al l ?m] unfolding r by simp_all
    consider "bs_n l < bs_capacity l" | "bs_n l = bs_capacity l" "\<not> ok" | "bs_n l = bs_capacity l" ok
      using wf by (fastforce simp: bs_wf_def)
    then show ?thesis
    proof cases
      case 1
      with add missing wf key sz show ?thesis
        by (intro added [of "bs_insert_at l i key v"])
          (simp_all add: bs_inv_def bs_insert_at_wf bs_insert_at_map)
    next
      case 2
      with r bs_resize_failure [OF wf _ m] have s: "bs_same l l1" "bs_wf l1" by auto
      moreover have "\<not> (data_ok al \<and> ids_ok al)" using r 2 by (auto simp: bs_resize_def Let_def)
      ultimately show ?thesis
        using add 2 r missing wf bs_same_map sz es
        by (intro no_memory [of l1]) (auto simp: bs_inv_def)
    next
      case 3
      let ?l = "l1\<lparr>bs_capacity := ?m\<rparr>"
      have s: "bs_same l ?l" "bs_wf ?l" using r 3 bs_resize_success [OF wf _ m] by auto
      then have "bs_insertion_point ?l key i" "length key = bs_element_size ?l" "bs_n ?l < bs_capacity ?l"
        using missing bs_same_insertion_point [OF s(1)] key by (auto simp: bs_same_def)
      with s bs_same_map [OF s(1) wf s(2)] add 3 r missing m es show ?thesis
        by (intro added [of "bs_insert_at ?l i key v"])
          (simp_all add: bs_inv_def bs_insert_at_wf bs_insert_at_map)
    qed
  qed
qed

text \<open>
  When shrinking, a failing second \<open>realloc\<close> after a successful first one would leave the
  recorded capacity above the size of the byte array (see \<open>bs_list_remove_shrink_fails\<close>
  below); the allocator is assumed not to do that here.
\<close>

lemma bs_list_remove_cases:
  assumes inv: "bs_inv l" and key: "length key = bs_element_size l"
    and al: "data_ok al \<longrightarrow> ids_ok al"
  obtains (kept) "bs_map l key \<noteq> Some v" "bs_list_remove al l key v = Some (False, l)"
    | (removed) l' where "bs_map l key = Some v" "bs_list_remove al l key v = Some (True, l')"
        "bs_inv l'" "bs_map l' = (bs_map l)(key := None)"
proof -
  have wf: "bs_wf l" and sz: "bs_element_size l * bs_capacity l < 2 ^ 32"
    using inv by (simp_all add: bs_inv_def)
  let ?m = "bs_capacity l div 2"
  have m: "bs_element_size l * ?m < 2 ^ 32"
    using sz le_less_trans [OF mult_le_mono2 [of ?m "bs_capacity l"]] by simp
  define l1 where "l1 = (if bs_n l < ?m then
      case bs_resize al l ?m of (ok, l1) \<Rightarrow> if ok then l1\<lparr>bs_capacity := ?m\<rparr> else l1 else l)"
  have "l1 = l \<or> (bs_n l < ?m \<and> (\<exists>l2. bs_resize al l ?m = (True, l2) \<and> l1 = l2\<lparr>bs_capacity := ?m\<rparr>))"
    using al by (cases "data_ok al") (auto simp: l1_def bs_resize_def Let_def)
  then have same: "bs_same l l1" "bs_inv l1"
    using bs_resize_success [OF wf _ m] inv m by (auto simp: bs_inv_def bs_same_def)
  then have wf1: "bs_wf l1" by (simp add: bs_inv_def)
  from wf key show ?thesis
  proof (cases rule: bs_find_cases)
    case (missing i)
    then show ?thesis by (intro kept) (simp_all add: bs_list_remove_def bs_INDEX_def)
  next
    case (found i)
    then have i: "i < bs_n l1" "bs_elem l1 i = key" using same(1) by (auto simp: bs_same_def)
    have "bs_list_remove al l key v =
        (if bs_ids l ! i = v then Some (True, bs_delete_at l1 i) else Some (False, l))"
      using found by (simp add: bs_list_remove_def Let_def l1_def)
    moreover have "bs_map (bs_delete_at l1 i) = (bs_map l)(key := None)"
      using bs_delete_at_map [OF wf1 i(1)] i(2) bs_same_map [OF same(1) wf wf1] by simp
    moreover have "bs_inv (bs_delete_at l1 i)"
      using same(2) bs_delete_at_wf [OF wf1 i(1)] by (simp add: bs_inv_def)
    ultimately show ?thesis
      using found by (cases "bs_ids l ! i = v") (auto intro: removed kept)
  qed
qed

definition bs_add_op :: "bs_alloc \<Rightarrow> bs_list \<Rightarrow> bytes \<Rightarrow> int \<Rightarrow> bool \<times> bs_list" where
  "bs_add_op al l key v = (case bs_list_add al l key v of None \<Rightarrow> (False, l) | Some r \<Rightarrow> r)"

definition bs_remove_op :: "bs_alloc \<Rightarrow> bs_list \<Rightarrow> bytes \<Rightarrow> int \<Rightarrow> bool \<times> bs_list" where
  "bs_remove_op al l key v = (case bs_list_remove al l key v of None \<Rightarrow> (False, l) | Some r \<Rightarrow> r)"

definition bs_key_ok :: "bs_list \<Rightarrow> bytes \<Rightarrow> bool" where
  "bs_key_ok l key \<longleftrightarrow> length key = bs_element_size l"

lemma bs_add_op_element_size: "bs_element_size (snd (bs_add_op al l key v)) = bs_element_size l"
  by (simp add: bs_add_op_def bs_list_add_def Let_def split_def split: option.split)

lemma bs_remove_op_element_size: "bs_element_size (snd (bs_remove_op al l key v)) = bs_element_size l"
  by (auto simp: bs_remove_op_def bs_list_remove_def bs_resize_def Let_def split: option.split)

interpretation bsi: key_index bs_map bs_inv bs_key_ok bs_room "bs_add_op al"
  "bs_remove_op (al\<lparr>ids_ok := True\<rparr>)"
proof unfold_locales
  fix l k v
  show "bs_key_ok (snd (bs_add_op al l k v)) = bs_key_ok l"
    by (auto simp: bs_key_ok_def fun_eq_iff bs_add_op_element_size)
  show "bs_key_ok (snd (bs_remove_op (al\<lparr>ids_ok := True\<rparr>) l k v)) = bs_key_ok l"
    by (auto simp: bs_key_ok_def fun_eq_iff bs_remove_op_element_size)
next
  fix l k v assume l: "bs_inv l" "bs_key_ok l k"
  then have k: "length k = bs_element_size l" by (simp add: bs_key_ok_def)
  show "bs_map l k \<noteq> None \<Longrightarrow> bs_add_op al l k v = (False, l)"
    using l(1) by (cases rule: bs_find_cases [OF _ k])
      (auto simp: bs_inv_def bs_add_op_def bs_list_add_def)
  have al: "data_ok (al\<lparr>ids_ok := True\<rparr>) \<longrightarrow> ids_ok (al\<lparr>ids_ok := True\<rparr>)" by simp
  note rm = bs_list_remove_cases [OF l(1) k al, of v]
  show "bs_inv (snd (bs_remove_op (al\<lparr>ids_ok := True\<rparr>) l k v))"
    using l by (cases rule: rm) (auto simp: bs_remove_op_def)
  show "fst (bs_remove_op (al\<lparr>ids_ok := True\<rparr>) l k v) \<longleftrightarrow> bs_map l k = Some v"
    by (cases rule: rm) (auto simp: bs_remove_op_def)
  show "fst (bs_remove_op (al\<lparr>ids_ok := True\<rparr>) l k v) \<Longrightarrow>
      bs_map (snd (bs_remove_op (al\<lparr>ids_ok := True\<rparr>) l k v)) = (bs_map l)(k := None)"
    by (cases rule: rm) (auto simp: bs_remove_op_def)
  show "\<not> fst (bs_remove_op (al\<lparr>ids_ok := True\<rparr>) l k v) \<Longrightarrow>
      snd (bs_remove_op (al\<lparr>ids_ok := True\<rparr>) l k v) = l"
    by (cases rule: rm) (auto simp: bs_remove_op_def)
  assume room: "bs_room l"
  note ad = bs_list_add_cases [OF l(1) k room, of al v]
  show "bs_inv (snd (bs_add_op al l k v))"
    using l by (cases rule: ad) (auto simp: bs_add_op_def)
  show "fst (bs_add_op al l k v) \<Longrightarrow> bs_map (snd (bs_add_op al l k v)) = (bs_map l)(k \<mapsto> v)"
    by (cases rule: ad) (auto simp: bs_add_op_def)
  show "\<not> fst (bs_add_op al l k v) \<Longrightarrow> bs_map (snd (bs_add_op al l k v)) = bs_map l"
    by (cases rule: ad) (auto simp: bs_add_op_def)
qed

lemma bs_list_init_inv:
  assumes "0 < es" and "es * cap < 2 ^ 32" and "bs_list_init al es cap = (True, l)"
  shows "bs_inv l" and "bs_map l = Map.empty" and "bs_element_size l = es"
proof -
  have n: "bs_n l = 0" "bs_element_size l = es"
    using assms(3) by (auto simp: bs_list_init_def bs_resize_def Let_def split: if_splits)
  then show "bs_element_size l = es" by simp
  have "bs_capacity l = cap" "length (bs_data l) = es * cap" "length (bs_ids l) = cap"
    using assms(2,3) by (auto simp: bs_list_init_def bs_resize_def Let_def split: if_splits)
  then show "bs_inv l" using n assms(1,2) by (simp add: bs_inv_def bs_wf_def bs_keys_def)
  show "bs_map l = Map.empty" using n by (simp add: bs_map_def bs_assoc_def bs_keys_def)
qed

text \<open>
  The shrinking step when the second \<open>realloc\<close> fails: the byte array has been cut to half
  the capacity while the recorded capacity keeps its old value.
\<close>

lemma bs_list_remove_shrink_fails:
  assumes inv: "bs_inv l" and key: "length key = bs_element_size l"
    and present: "bs_map l key = Some v" and shrink: "bs_n l < bs_capacity l div 2"
    and al: "data_ok al" "\<not> ids_ok al"
  shows "\<exists>l'. bs_list_remove al l key v = Some (True, l') \<and> bs_capacity l' = bs_capacity l \<and>
    length (bs_data l') < bs_element_size l' * bs_capacity l'"
proof -
  have wf: "bs_wf l" and sz: "bs_element_size l * bs_capacity l < 2 ^ 32"
    using inv by (simp_all add: bs_inv_def)
  let ?m = "bs_capacity l div 2" and ?e = "bs_element_size l"
  have m: "?e * ?m < 2 ^ 32"
    using sz le_less_trans [OF mult_le_mono2 [of ?m "bs_capacity l"]] by simp
  define l1 where "l1 = l\<lparr>bs_data := realloc_cells (bs_data l) (?e * ?m) (fresh_byte al)\<rparr>"
  have r: "bs_resize al l ?m = (False, l1)" using al m by (simp add: bs_resize_def l1_def Let_def)
  from wf key obtain i where i: "bs_find l key = Some (int i)" "i < bs_n l" "bs_ids l ! i = v"
    using present by (cases rule: bs_find_cases) auto
  have rm: "bs_list_remove al l key v = Some (True, bs_delete_at l1 i)"
    using i shrink r by (simp add: bs_list_remove_def Let_def)
  have "bs_n l * ?e \<le> ?e * ?m" using shrink mult_le_mono1 [of "bs_n l" ?m ?e] by (simp add: mult.commute)
  then have "length (bs_data (bs_delete_at l1 i)) = ?e * ?m"
    using length_bs_data_delete [of i l1] i(2) by (simp add: l1_def)
  moreover have "?e * ?m < ?e * bs_capacity l" using wf shrink by (simp add: bs_wf_def)
  ultimately show ?thesis using rm by (simp add: l1_def)
qed

section \<open>Properties\<close>

text \<open>
  C26. \<open>bs_list_find\<close> on a well-formed list ends, never reads outside the list, and
  returns the number stored with the key, or \<open>-1\<close> when the key is not there.
\<close>

theorem bs_list_find_refines:
  assumes "bs_inv l" and "length key = bs_element_size l"
  shows "bs_list_find l key = Some (case bs_map l key of None \<Rightarrow> - 1 | Some v \<Rightarrow> v)"
  using assms bs_list_find_map by (simp add: bs_inv_def)

definition sample_bs :: bs_list where
  "sample_bs = \<lparr>bs_n = 2, bs_capacity = 3, bs_element_size = 1, bs_data = [4, 9, 0], bs_ids = [70, 80, 0]\<rparr>"

lemma sample_bs_inv: "bs_inv sample_bs"
  by (simp add: bs_inv_def bs_wf_def sample_bs_def bs_keys_def bs_elem_def read_at_def upt_rec)

lemma sample_bs_map: "bs_map sample_bs = [[9] \<mapsto> 80, [4] \<mapsto> 70]"
  by (simp add: bs_map_def bs_assoc_def sample_bs_def bs_keys_def bs_elem_def read_at_def upt_rec)

theorem bs_list_find_refines_witness:
  "bs_list_find sample_bs [9] = Some 80 \<and> bs_list_find sample_bs [5] = Some (- 1)"
  using bs_list_find_refines [OF sample_bs_inv, of "[9]"] bs_list_find_refines [OF sample_bs_inv, of "[5]"]
  by (simp add: sample_bs_map) (simp add: sample_bs_def)

text \<open>
  C27. \<open>bs_list_add\<close> inserts or refuses: a key already present is refused and the list is
  untouched; if the insertion succeeds the map gains exactly the new association; if the
  allocation fails the map is unchanged. The order of the keys is kept in all cases.
\<close>

theorem bs_list_add_refines:
  assumes "bs_inv l" and "length key = bs_element_size l" and "bs_room l"
  shows "\<exists>ok l'. bs_list_add al l key v = Some (ok, l') \<and> bs_inv l' \<and>
    (bs_map l key \<noteq> None \<longrightarrow> \<not> ok \<and> l' = l) \<and>
    (bs_map l key = None \<and> data_ok al \<and> ids_ok al \<longrightarrow> ok) \<and>
    bs_map l' = (if ok then (bs_map l)(key \<mapsto> v) else bs_map l)"
  using assms
proof (cases rule: bs_list_add_cases [where al = al and v = v])
  case present
  then show ?thesis using assms(1) by (intro exI [of _ False] exI [of _ l]) simp
next
  case (no_memory l')
  then show ?thesis by (intro exI [of _ False] exI [of _ l']) simp
next
  case (added l')
  then show ?thesis by (intro exI [of _ True] exI [of _ l']) simp
qed

theorem bs_list_add_refines_witness:
  "\<exists>ok l'. bs_list_add \<lparr>data_ok = True, ids_ok = True, fresh_byte = (\<lambda>_. 0), fresh_id = (\<lambda>_. 0)\<rparr> sample_bs [5] 99 =
     Some (ok, l') \<and> ok \<and> bs_map l' [5] = Some 99"
proof -
  let ?al = "\<lparr>data_ok = True, ids_ok = True, fresh_byte = (\<lambda>_. 0), fresh_id = (\<lambda>_. 0)\<rparr>"
  have "length [5::u8] = bs_element_size sample_bs" and "bs_room sample_bs"
    by (simp_all add: sample_bs_def bs_room_def)
  then obtain ok l' where "bs_list_add ?al sample_bs [5] 99 = Some (ok, l')"
    "bs_map sample_bs [5] = None \<and> data_ok ?al \<and> ids_ok ?al \<longrightarrow> ok"
    "bs_map l' = (if ok then (bs_map sample_bs)([5] \<mapsto> 99) else bs_map sample_bs)"
    using bs_list_add_refines [OF sample_bs_inv, of "[5]" ?al 99] by blast
  then show ?thesis by (intro exI [of _ ok] exI [of _ l']) (simp add: sample_bs_map)
qed

text \<open>
  Adding a key and removing it with the same number restores the map, on the code's own
  operations: the laws come from the interpretation of the interface \<open>key_index\<close>.
\<close>

theorem bs_list_add_remove:
  assumes "bs_inv l" and "length key = bs_element_size l" and "bs_room l"
    and "bs_list_add al l key v = Some (True, l1)" and "ids_ok al'"
  shows "\<exists>l2. bs_list_remove al' l1 key v = Some (True, l2) \<and> bs_inv l2 \<and> bs_map l2 = bs_map l"
proof -
  have al': "al'\<lparr>ids_ok := True\<rparr> = al'" using assms(5) by simp
  have add: "bs_add_op al l key v = (True, l1)" using assms(4) by (simp add: bs_add_op_def)
  have k: "bs_key_ok l key" using assms(2) by (simp add: bs_key_ok_def)
  have inv: "bs_inv l1" "length key = bs_element_size l1"
    using bsi.add_invar [OF assms(1) k assms(3), of al v] bs_add_op_element_size [of al l key v] add assms(2) by auto
  have m: "bs_map l1 = (bs_map l)(key \<mapsto> v)"
    using bsi.add_result [OF assms(1) k assms(3), of al v] add by simp
  have "bs_map l key = None"
    using bsi.add_present [OF assms(1) k, of al v] add by fastforce
  then have "(bs_map l1)(key := None) = bs_map l" using m by (simp add: fun_upd_idem)
  then show ?thesis
    using bs_list_remove_cases [OF inv, of al' v] assms(5) m by (metis fun_upd_same)
qed

theorem bs_list_add_remove_witness:
  "\<exists>l1 l2. bs_list_add \<lparr>data_ok = True, ids_ok = True, fresh_byte = (\<lambda>_. 0), fresh_id = (\<lambda>_. 0)\<rparr> sample_bs [5] 99 = Some (True, l1) \<and>
     bs_list_remove \<lparr>data_ok = True, ids_ok = True, fresh_byte = (\<lambda>_. 0), fresh_id = (\<lambda>_. 0)\<rparr> l1 [5] 99 = Some (True, l2) \<and>
     bs_map l2 = bs_map sample_bs"
proof -
  let ?al = "\<lparr>data_ok = True, ids_ok = True, fresh_byte = (\<lambda>_. 0), fresh_id = (\<lambda>_. 0)\<rparr>"
  have len: "length [5::u8] = bs_element_size sample_bs" and room: "bs_room sample_bs"
    by (simp_all add: sample_bs_def bs_room_def)
  obtain l1 where l1: "bs_list_add ?al sample_bs [5] 99 = Some (True, l1)"
    using bs_list_add_cases [OF sample_bs_inv len room, of ?al 99] by (force simp: sample_bs_map)
  from bs_list_add_remove [OF sample_bs_inv len room l1, of ?al] l1 show ?thesis by auto
qed

text \<open>
  C36. A flaw of the shrinking step of \<open>bs_list_remove\<close>: when the first \<open>realloc\<close> succeeds and
  the second fails, the function reports success and keeps the recorded capacity although
  the byte array has been cut to half of it.
\<close>

theorem bs_list_remove_loses_capacity:
  assumes "bs_inv l" and "length key = bs_element_size l" and "bs_map l key = Some v"
    and "bs_n l < bs_capacity l div 2" and "data_ok al" and "\<not> ids_ok al"
  shows "\<exists>l'. bs_list_remove al l key v = Some (True, l') \<and> bs_capacity l' = bs_capacity l \<and>
    length (bs_data l') < bs_element_size l' * bs_capacity l'"
  using assms by (rule bs_list_remove_shrink_fails)

definition sample_bs_wide :: bs_list where
  "sample_bs_wide = \<lparr>bs_n = 1, bs_capacity = 4, bs_element_size = 1, bs_data = [4, 0, 0, 0], bs_ids = [70, 0, 0, 0]\<rparr>"

theorem bs_list_remove_loses_capacity_witness:
  "\<exists>l'. bs_list_remove \<lparr>data_ok = True, ids_ok = False, fresh_byte = (\<lambda>_. 0), fresh_id = (\<lambda>_. 0)\<rparr> sample_bs_wide [4] 70 =
     Some (True, l') \<and> length (bs_data l') < bs_element_size l' * bs_capacity l'"
proof -
  have "bs_inv sample_bs_wide"
    by (simp add: bs_inv_def bs_wf_def sample_bs_wide_def bs_keys_def bs_elem_def read_at_def)
  moreover have "bs_map sample_bs_wide [4] = Some 70"
    by (simp add: bs_map_def bs_assoc_def sample_bs_wide_def bs_keys_def bs_elem_def read_at_def)
  ultimately show ?thesis
    using bs_list_remove_loses_capacity [of sample_bs_wide "[4]" 70
        "\<lparr>data_ok = True, ids_ok = False, fresh_byte = (\<lambda>_. 0), fresh_id = (\<lambda>_. 0)\<rparr>"]
    by (simp add: sample_bs_wide_def) blast
qed

end
