(* ===== verification/Ping_Array.thy ===== *)
theory Ping_Array
  imports Util
begin

text \<open>
  Model of \<open>toxcore/ping_array.c\<close>: the circular store of outstanding requests. A stored
  request is named by a 64-bit \<open>ping_id\<close> whose remainder modulo the array size is the
  entry's index; the quotient is random, so that replies cannot be guessed.

  The main results: a fresh id is answered exactly once with the stored data, an id
  survives until the array has wrapped around once or the entry timed out, the clearing
  loop ends, and \<open>ping_array_free_all\<close> releases every allocation. The size is assumed to
  be a power of two, as the comment of \<open>ping_array_init\<close> asks: only then do the 32-bit
  counters and the 64-bit id stay aligned with the indices when they wrap around.
\<close>

section \<open>The code\<close>

record ping_entry =
  pe_data :: "bytes option"
  pe_length :: nat
  pe_time :: u64
  pe_ping_id :: u64

record ping_array =
  pa_entries :: "ping_entry list"
  pa_last_deleted :: u32
  pa_last_added :: u32
  pa_total_size :: nat
  pa_timeout :: nat

definition empty_entry :: ping_entry where
  "empty_entry = \<lparr>pe_data = None, pe_length = 0, pe_time = 0, pe_ping_id = 0\<rparr>"

definition clear_entry :: "ping_array \<Rightarrow> nat \<Rightarrow> ping_array" where
  "clear_entry a index = a\<lparr>pa_entries := (pa_entries a)[index := empty_entry]\<rparr>"

definition entry_timedout :: "u64 \<Rightarrow> ping_array \<Rightarrow> nat \<Rightarrow> bool" where
  "entry_timedout now a index \<longleftrightarrow>
     is_timeout now (pe_time (pa_entries a ! index)) (word_of_nat (pa_timeout a))"

lemma pending_decreases:
  assumes "(d :: u32) \<noteq> l"
  shows "unat (l - (d + 1)) < unat (l - d)"
proof -
  have "l - d \<noteq> 0" using assms by simp
  then have "unat ((l - d) - 1) < unat (l - d)" by (rule measure_unat)
  then show ?thesis by (simp add: algebra_simps)
qed

function ping_array_clear_timedout :: "u64 \<Rightarrow> ping_array \<Rightarrow> ping_array" where
  "ping_array_clear_timedout now a =
     (if pa_last_deleted a = pa_last_added a then a
      else
        let index = unat (pa_last_deleted a) mod pa_total_size a
        in if \<not> entry_timedout now a index then a
           else ping_array_clear_timedout now
             ((clear_entry a index)\<lparr>pa_last_deleted := pa_last_deleted a + 1\<rparr>))"
  by pat_completeness auto
termination
  by (relation "measure (\<lambda>(now, a). unat (pa_last_added a - pa_last_deleted a))")
    (auto simp: clear_entry_def pending_decreases)

declare ping_array_clear_timedout.simps [simp del]

text \<open>
  \<open>ping_array_add\<close>: \<open>rnd\<close> is the value of \<open>random_64b()\<close> and \<open>alloc\<close> says whether \<open>malloc\<close>
  succeeds.
\<close>

definition make_ping_id :: "u64 \<Rightarrow> nat \<Rightarrow> nat \<Rightarrow> u64" where
  "make_ping_id rnd total_size index =
     (let ping_id = (rnd div word_of_nat total_size) * word_of_nat total_size + word_of_nat index
      in if ping_id = 0 then ping_id + word_of_nat total_size else ping_id)"

definition ping_array_add :: "u64 \<Rightarrow> u64 \<Rightarrow> bool \<Rightarrow> ping_array \<Rightarrow> bytes \<Rightarrow> u64 \<times> ping_array" where
  "ping_array_add now rnd alloc arr data =
     (let a = ping_array_clear_timedout now arr;
          index = unat (pa_last_added a) mod pa_total_size a;
          a1 = (if pe_data (pa_entries a ! index) \<noteq> None
                then clear_entry
                  (a\<lparr>pa_last_deleted := pa_last_added a - word_of_nat (pa_total_size a)\<rparr>) index
                else a)
      in if \<not> alloc then (0, a1)
         else
           let ping_id = make_ping_id rnd (pa_total_size a1) index;
               e = \<lparr>pe_data = Some data, pe_length = length data, pe_time = now,
                    pe_ping_id = ping_id\<rparr>
           in (ping_id, a1\<lparr>pa_entries := (pa_entries a1)[index := e],
                           pa_last_added := pa_last_added a1 + 1\<rparr>))"

text \<open>\<open>ping_array_check\<close> returns the result code, the bytes copied out and the new array.\<close>

definition ping_array_check :: "u64 \<Rightarrow> nat \<Rightarrow> ping_array \<Rightarrow> u64 \<Rightarrow> int \<times> bytes \<times> ping_array" where
  "ping_array_check now len a ping_id =
     (if ping_id = 0 then (- 1, [], a)
      else
        let index = unat ping_id mod pa_total_size a;
            e = pa_entries a ! index
        in if pe_ping_id e \<noteq> ping_id then (- 1, [], a)
           else if entry_timedout now a index then (- 1, [], a)
           else if pe_length e > len then (- 1, [], a)
           else (case pe_data e of
                   None \<Rightarrow> (- 1, [], a)
                 | Some d \<Rightarrow> (int (pe_length e), take (pe_length e) d, clear_entry a index)))"

definition ping_array_init :: "bool \<Rightarrow> nat \<Rightarrow> nat \<Rightarrow> ping_array option" where
  "ping_array_init alloc sz timeout =
     (if sz = 0 \<or> timeout = 0 then None
      else if \<not> alloc then None
      else Some \<lparr>pa_entries = replicate sz empty_entry, pa_last_deleted = 0, pa_last_added = 0,
                 pa_total_size = sz, pa_timeout = timeout\<rparr>)"

text \<open>The entries left when \<open>ping_array_free_all\<close> reaches \<open>free(array->entries)\<close>.\<close>

function ping_array_free_all :: "ping_array \<Rightarrow> ping_array" where
  "ping_array_free_all a =
     (if pa_last_deleted a = pa_last_added a then a
      else ping_array_free_all
        ((clear_entry a (unat (pa_last_deleted a) mod pa_total_size a))
           \<lparr>pa_last_deleted := pa_last_deleted a + 1\<rparr>))"
  by pat_completeness auto
termination
  by (relation "measure (\<lambda>a. unat (pa_last_added a - pa_last_deleted a))")
    (auto simp: clear_entry_def pending_decreases)

declare ping_array_free_all.simps [simp del]

section \<open>Indices and ids\<close>

text \<open>A size that divides the range of the counters, such as a power of two.\<close>

definition size_ok :: "nat \<Rightarrow> bool" where
  "size_ok n \<longleftrightarrow> 0 < n \<and> n dvd 2 ^ 32 \<and> 2 * n < 2 ^ 32"

lemma unat_plus_mod:
  fixes c :: u32
  assumes "n dvd 2 ^ 32"
  shows "unat (c + word_of_nat k) mod n = (unat c + k) mod n"
proof -
  have "unat (c + word_of_nat k) = (unat c + k) mod 2 ^ 32"
    by (simp add: unat_word_ariths unsigned_of_nat take_bit_eq_mod mod_simps)
  then show ?thesis using assms by (simp add: mod_mod_cancel)
qed

lemma unat_minus_mod:
  fixes c :: u32
  assumes "n dvd 2 ^ 32"
  shows "unat (c - word_of_nat n) mod n = unat c mod n"
  using unat_plus_mod [OF assms, of "c - word_of_nat n" n] by simp

lemma make_ping_id_props:
  assumes "size_ok n" and "index < n"
  shows "unat (make_ping_id rnd n index) mod n = index" and "make_ping_id rnd n index \<noteq> 0"
proof -
  have n: "0 < n" "n dvd 2 ^ 64" "n < 2 ^ 64"
    using assms(1) dvd_trans [of n "2 ^ 32" "2 ^ 64"] by (auto simp: size_ok_def le_imp_power_dvd)
  define q where "q = unat rnd div n"
  have un: "unat (word_of_nat n :: u64) = n" "unat (word_of_nat index :: u64) = index"
    using n assms(2) by (simp_all add: unat_word_of_nat_id)
  obtain m where m: "(2::nat) ^ 64 = n * m" using n(2) by (elim dvdE)
  have "unat rnd < n * m" using unsigned_less [of rnd] m by simp
  then have "q < m" by (simp add: q_def less_mult_imp_div_less mult.commute)
  then have "n * q + n \<le> n * m" using mult_le_mono2 [of "Suc q" m n] by simp
  then have fit: "n * q + index < 2 ^ 64" using assms(2) m by linarith
  then have fit': "n * q < 2 ^ 64" by linarith
  define w where "w = (rnd div word_of_nat n) * word_of_nat n + (word_of_nat index :: u64)"
  have "unat (rnd div word_of_nat n * word_of_nat n) = n * q"
    using fit' un by (simp add: unat_word_ariths unat_div q_def mult.commute mod_simps)
  then have w: "unat w = n * q + index"
    using fit un by (simp add: w_def unat_word_ariths)
  have id: "make_ping_id rnd n index = (if w = 0 then word_of_nat n else w)"
    by (simp add: make_ping_id_def w_def Let_def)
  have "index = 0" if "w = 0" using w that by simp
  then show "unat (make_ping_id rnd n index) mod n = index"
    using w un assms(2) by (auto simp: id)
  show "make_ping_id rnd n index \<noteq> 0"
    using un n by (auto simp: id)
qed

section \<open>Invariant\<close>

text \<open>
  Positions \<open>last_deleted, \<dots>, last_added - 1\<close> (32-bit arithmetic) are the entries not yet
  cleared. The window may be up to twice the array size, because an overwriting add
  restarts it at \<open>last_added - total_size\<close>; every allocated entry has a position in it.
\<close>

definition pa_window :: "ping_array \<Rightarrow> nat" where
  "pa_window a = unat (pa_last_added a - pa_last_deleted a)"

definition pa_covered :: "ping_array \<Rightarrow> nat \<Rightarrow> bool" where
  "pa_covered a i \<longleftrightarrow>
     (\<exists>k < pa_window a. (unat (pa_last_deleted a) + k) mod pa_total_size a = i)"

definition pa_wf :: "ping_array \<Rightarrow> bool" where
  "pa_wf a \<longleftrightarrow> size_ok (pa_total_size a) \<and> length (pa_entries a) = pa_total_size a \<and>
     pa_window a \<le> 2 * pa_total_size a \<and>
     (\<forall>e \<in> set (pa_entries a). (pe_data e = None \<longrightarrow> e = empty_entry) \<and>
        (\<forall>d. pe_data e = Some d \<longrightarrow> pe_length e = length d)) \<and>
     (\<forall>i < pa_total_size a. pe_data (pa_entries a ! i) \<noteq> None \<longrightarrow> pa_covered a i)"

text \<open>The clock has run for at least one timeout since the epoch.\<close>

definition clock_ok :: "u64 \<Rightarrow> ping_array \<Rightarrow> bool" where
  "clock_ok now a \<longleftrightarrow> is_timeout now 0 (word_of_nat (pa_timeout a))"

lemma pa_wfD:
  assumes "pa_wf a"
  shows "size_ok (pa_total_size a)" "length (pa_entries a) = pa_total_size a" "0 < pa_total_size a"
    "pa_total_size a dvd 2 ^ 32" "pa_window a \<le> 2 * pa_total_size a"
    "i < pa_total_size a \<Longrightarrow> pe_data (pa_entries a ! i) = None \<Longrightarrow> pa_entries a ! i = empty_entry"
    "i < pa_total_size a \<Longrightarrow> pe_data (pa_entries a ! i) = Some d \<Longrightarrow>
      pe_length (pa_entries a ! i) = length d"
    "i < pa_total_size a \<Longrightarrow> pe_data (pa_entries a ! i) \<noteq> None \<Longrightarrow> pa_covered a i"
  using assms by (auto simp: pa_wf_def size_ok_def)

lemma pa_covered_drop_first:
  assumes "pa_covered a i" and "pa_last_deleted a \<noteq> pa_last_added a"
    and "pa_total_size a dvd 2 ^ 32" and "unat (pa_last_deleted a) mod pa_total_size a \<noteq> i"
    and "pa_window b = pa_window a - 1" and "pa_total_size b = pa_total_size a"
    and "pa_last_deleted b = pa_last_deleted a + 1"
  shows "pa_covered b i"
proof -
  obtain k where k: "k < pa_window a" "(unat (pa_last_deleted a) + k) mod pa_total_size a = i"
    using assms(1) by (auto simp: pa_covered_def)
  with assms(4) obtain k' where k': "k = Suc k'" by (cases k) auto
  have "unat (pa_last_deleted b) mod pa_total_size a = (unat (pa_last_deleted a) + 1) mod pa_total_size a"
    using unat_plus_mod [OF assms(3), of "pa_last_deleted a" 1] assms(7) by simp
  then have "(unat (pa_last_deleted b) + k') mod pa_total_size a =
      (unat (pa_last_deleted a) + 1 + k') mod pa_total_size a"
    by (rule mod_add_cong) simp
  then have "(unat (pa_last_deleted b) + k') mod pa_total_size a = i"
    using k(2) k' by simp
  with k(1) k' assms(5,6) show ?thesis by (auto simp: pa_covered_def intro!: exI [of _ k'])
qed

text \<open>Clearing the oldest position and moving on keeps the invariant.\<close>

definition drop_oldest :: "ping_array \<Rightarrow> ping_array" where
  "drop_oldest a = (clear_entry a (unat (pa_last_deleted a) mod pa_total_size a))
     \<lparr>pa_last_deleted := pa_last_deleted a + 1\<rparr>"

lemma drop_oldest_window:
  assumes "pa_last_deleted a \<noteq> pa_last_added a"
  shows "pa_window (drop_oldest a) = pa_window a - 1"
proof -
  have "pa_last_added a - pa_last_deleted a \<noteq> 0" using assms by simp
  then have "unat (pa_last_added a - pa_last_deleted a - 1) = unat (pa_last_added a - pa_last_deleted a) - 1"
    by (rule unat_minus_one)
  then show ?thesis by (simp add: pa_window_def drop_oldest_def clear_entry_def algebra_simps)
qed

lemma drop_oldest_wf:
  assumes wf: "pa_wf a" and ne: "pa_last_deleted a \<noteq> pa_last_added a"
  shows "pa_wf (drop_oldest a)"
proof -
  let ?i = "unat (pa_last_deleted a) mod pa_total_size a" and ?b = "drop_oldest a"
  have es: "pa_entries ?b = (pa_entries a)[?i := empty_entry]" "pa_total_size ?b = pa_total_size a"
    by (simp_all add: drop_oldest_def clear_entry_def)
  have cov: "pa_covered ?b j" if "j < pa_total_size a" "pe_data (pa_entries ?b ! j) \<noteq> None" for j
  proof (rule pa_covered_drop_first [OF _ ne pa_wfD(4) [OF wf] _ drop_oldest_window [OF ne]])
    have j: "j \<noteq> ?i"
      using that pa_wfD(2) [OF wf] by (auto simp: es empty_entry_def)
    then show "unat (pa_last_deleted a) mod pa_total_size a \<noteq> j" by simp
    show "pa_covered a j" using j that pa_wfD(8) [OF wf] by (simp add: es)
  qed (simp_all add: drop_oldest_def clear_entry_def)
  moreover have "set (pa_entries ?b) \<subseteq> insert empty_entry (set (pa_entries a))"
    unfolding es by (rule set_update_subset_insert)
  ultimately show ?thesis
    using wf drop_oldest_window [OF ne]
    by (auto simp: pa_wf_def es(2)) (auto simp: es(1) empty_entry_def)
qed

lemma clear_timedout_unfold:
  "ping_array_clear_timedout now a =
     (if pa_last_deleted a = pa_last_added a \<or>
         \<not> entry_timedout now a (unat (pa_last_deleted a) mod pa_total_size a)
      then a else ping_array_clear_timedout now (drop_oldest a))"
  by (subst ping_array_clear_timedout.simps) (simp add: Let_def drop_oldest_def)

lemma free_all_unfold:
  "ping_array_free_all a =
     (if pa_last_deleted a = pa_last_added a then a else ping_array_free_all (drop_oldest a))"
  by (subst ping_array_free_all.simps) (simp add: drop_oldest_def)

text \<open>Induction along the clearing loop, with the loop's two exits as the base case.\<close>

lemma clear_timedout_induct [case_names stop step]:
  assumes stop: "\<And>a. pa_last_deleted a = pa_last_added a \<or>
      \<not> entry_timedout now a (unat (pa_last_deleted a) mod pa_total_size a) \<Longrightarrow> P a a"
    and step: "\<And>a r. pa_last_deleted a \<noteq> pa_last_added a \<Longrightarrow>
      entry_timedout now a (unat (pa_last_deleted a) mod pa_total_size a) \<Longrightarrow>
      P (drop_oldest a) r \<Longrightarrow> P a r"
  shows "P a (ping_array_clear_timedout now a)"
proof (induction "pa_window a" arbitrary: a rule: less_induct)
  case less
  show ?case
  proof (cases "pa_last_deleted a = pa_last_added a \<or>
      \<not> entry_timedout now a (unat (pa_last_deleted a) mod pa_total_size a)")
    case True
    then show ?thesis using stop by (simp add: clear_timedout_unfold [of now a])
  next
    case False
    then have ne: "pa_last_deleted a \<noteq> pa_last_added a" by simp
    then have "0 < pa_window a" by (simp add: pa_window_def unat_gt_0)
    then have "P (drop_oldest a) (ping_array_clear_timedout now (drop_oldest a))"
      using less drop_oldest_window [OF ne] by simp
    with False step show ?thesis by (simp add: clear_timedout_unfold [of now a])
  qed
qed

lemma clear_timedout_wf: "pa_wf a \<Longrightarrow> pa_wf (ping_array_clear_timedout now a)"
  by (rule clear_timedout_induct [where P = "\<lambda>a r. pa_wf a \<longrightarrow> pa_wf r", rule_format])
    (auto intro: drop_oldest_wf)

lemma drop_oldest_simps [simp]:
  "pa_total_size (drop_oldest a) = pa_total_size a"
  "pa_timeout (drop_oldest a) = pa_timeout a"
  "pa_last_added (drop_oldest a) = pa_last_added a"
  by (simp_all add: drop_oldest_def clear_entry_def)

lemma clear_timedout_frame [simp]:
  "pa_total_size (ping_array_clear_timedout now a) = pa_total_size a"
  "pa_timeout (ping_array_clear_timedout now a) = pa_timeout a"
  "pa_last_added (ping_array_clear_timedout now a) = pa_last_added a"
proof -
  have "pa_total_size (ping_array_clear_timedout now a) = pa_total_size a \<and>
    pa_timeout (ping_array_clear_timedout now a) = pa_timeout a \<and>
    pa_last_added (ping_array_clear_timedout now a) = pa_last_added a"
    by (rule clear_timedout_induct) auto
  then show "pa_total_size (ping_array_clear_timedout now a) = pa_total_size a"
    "pa_timeout (ping_array_clear_timedout now a) = pa_timeout a"
    "pa_last_added (ping_array_clear_timedout now a) = pa_last_added a" by simp_all
qed

text \<open>The loop stops at the end of the window or at an entry that has not timed out.\<close>

lemma clear_timedout_stops:
  "let r = ping_array_clear_timedout now a in
     pa_last_deleted r = pa_last_added r \<or>
     \<not> entry_timedout now r (unat (pa_last_deleted r) mod pa_total_size r)"
  unfolding Let_def by (rule clear_timedout_induct) auto

text \<open>An entry is either untouched, or cleared although it had timed out.\<close>

lemma clear_timedout_entry:
  assumes "i < length (pa_entries a)" and "clock_ok now a"
  shows "pa_entries (ping_array_clear_timedout now a) ! i = pa_entries a ! i \<or>
    (pa_entries (ping_array_clear_timedout now a) ! i = empty_entry \<and> entry_timedout now a i)"
proof -
  define P :: "ping_array \<Rightarrow> ping_array \<Rightarrow> bool" where "P = (\<lambda>a r. i < length (pa_entries a) \<longrightarrow> clock_ok now a \<longrightarrow>
    pa_entries r ! i = pa_entries a ! i \<or> (pa_entries r ! i = empty_entry \<and> entry_timedout now a i))"
  have "P a (ping_array_clear_timedout now a)"
  proof (rule clear_timedout_induct)
    fix a r :: ping_array
    let ?j = "unat (pa_last_deleted a) mod pa_total_size a"
    assume "entry_timedout now a ?j" and "P (drop_oldest a) r"
    moreover have "pa_entries (drop_oldest a) = (pa_entries a)[?j := empty_entry]"
      by (simp add: drop_oldest_def clear_entry_def)
    ultimately show "P a r"
      by (cases "i = ?j") (auto simp: P_def entry_timedout_def clock_ok_def empty_entry_def)
  qed (auto simp: P_def)
  with assms show ?thesis by (simp add: P_def)
qed

section \<open>Requests pending\<close>

text \<open>The abstract content: which ids are pending, with their data and the time stored.\<close>

definition pa_pending :: "ping_array \<Rightarrow> u64 \<Rightarrow> (bytes \<times> u64) option" where
  "pa_pending a pid =
     (let e = pa_entries a ! (unat pid mod pa_total_size a)
      in if pid = 0 \<or> pe_ping_id e \<noteq> pid then None
         else map_option (\<lambda>d. (d, pe_time e)) (pe_data e))"

lemma clear_timedout_pending:
  assumes "pa_wf a" and "clock_ok now a" and "pa_pending a pid = Some (d, t)"
    and "\<not> is_timeout now t (word_of_nat (pa_timeout a))"
  shows "pa_pending (ping_array_clear_timedout now a) pid = Some (d, t)"
proof -
  let ?i = "unat pid mod pa_total_size a"
  have i: "?i < length (pa_entries a)" using pa_wfD [OF assms(1)] by simp
  have "pe_time (pa_entries a ! ?i) = t"
    using assms(3) by (auto simp: pa_pending_def Let_def split: if_splits)
  then have "\<not> entry_timedout now a ?i" using assms(4) by (simp add: entry_timedout_def)
  then show ?thesis
    using clear_timedout_entry [OF i assms(2)] assms(3) by (simp add: pa_pending_def)
qed

lemma clock_ok_clear [simp]: "clock_ok now (ping_array_clear_timedout now' a) = clock_ok now a"
  by (simp add: clock_ok_def)

text \<open>The array just before \<open>malloc\<close> in \<open>ping_array_add\<close>.\<close>

definition pa_make_room :: "ping_array \<Rightarrow> ping_array" where
  "pa_make_room a =
     (let index = unat (pa_last_added a) mod pa_total_size a
      in if pe_data (pa_entries a ! index) \<noteq> None
         then clear_entry
           (a\<lparr>pa_last_deleted := pa_last_added a - word_of_nat (pa_total_size a)\<rparr>) index
         else a)"

lemma pa_make_room_simps [simp]:
  "pa_total_size (pa_make_room a) = pa_total_size a"
  "pa_timeout (pa_make_room a) = pa_timeout a"
  "pa_last_added (pa_make_room a) = pa_last_added a"
  "length (pa_entries (pa_make_room a)) = length (pa_entries a)"
  by (simp_all add: pa_make_room_def clear_entry_def Let_def)

lemma ping_array_add_alt:
  "ping_array_add now rnd alloc arr data =
     (let a1 = pa_make_room (ping_array_clear_timedout now arr);
          index = unat (pa_last_added arr) mod pa_total_size arr;
          ping_id = make_ping_id rnd (pa_total_size arr) index
      in if \<not> alloc then (0, a1)
         else (ping_id, a1\<lparr>pa_entries := (pa_entries a1)[index :=
                 \<lparr>pe_data = Some data, pe_length = length data, pe_time = now, pe_ping_id = ping_id\<rparr>],
               pa_last_added := pa_last_added arr + 1\<rparr>))"
proof -
  define a where "a = ping_array_clear_timedout now arr"
  have s: "pa_total_size a = pa_total_size arr" "pa_last_added a = pa_last_added arr"
    by (simp_all add: a_def)
  show ?thesis
    unfolding ping_array_add_def pa_make_room_def a_def [symmetric] Let_def s
    by (simp add: clear_entry_def s)
qed

lemma residue_hit:
  assumes "i < (n::nat)"
  shows "\<exists>k < n. (c + k) mod n = i"
proof (intro exI conjI)
  let ?k = "(i + (n - c mod n)) mod n"
  show "?k < n" using assms by simp
  have "(c + ?k) mod n = (c mod n + (i + (n - c mod n))) mod n"
    by (simp add: mod_simps)
  also have "c mod n + (i + (n - c mod n)) = i + n"
    using assms mod_less_divisor [of n c] by linarith
  finally show "(c + ?k) mod n = i" using assms by simp
qed

lemma window_end:
  assumes "pa_total_size a dvd 2 ^ 32"
  shows "(unat (pa_last_deleted a) + pa_window a) mod pa_total_size a =
    unat (pa_last_added a) mod pa_total_size a"
  using unat_plus_mod [OF assms, of "pa_last_deleted a" "pa_window a"]
  by (simp add: pa_window_def)

lemma window_restart:
  assumes "size_ok n"
  shows "unat (c - (c - word_of_nat n :: u32)) = n"
  using assms by (simp add: size_ok_def unat_word_of_nat_id)

lemma pa_make_room_wf:
  assumes wf: "pa_wf a" and clk: "clock_ok now a"
    and stop: "pa_last_deleted a = pa_last_added a \<or>
      \<not> entry_timedout now a (unat (pa_last_deleted a) mod pa_total_size a)"
  shows "pa_wf (pa_make_room a)" and "pa_window (pa_make_room a) < 2 * pa_total_size a"
    and "pe_data (pa_entries (pa_make_room a) ! (unat (pa_last_added a) mod pa_total_size a)) = None"
proof -
  let ?n = "pa_total_size a" and ?i = "unat (pa_last_added a) mod pa_total_size a"
  let ?b = "pa_make_room a"
  note [simp] = pa_wfD(3) [OF wf] pa_wfD(2) [OF wf]
  have "pa_wf ?b \<and> pa_window ?b < 2 * ?n \<and> pe_data (pa_entries ?b ! ?i) = None"
  proof (cases "pe_data (pa_entries a ! ?i) = None")
    case True
    then have b: "?b = a" by (simp add: pa_make_room_def Let_def)
    have "pa_window a \<noteq> 2 * ?n"
    proof
      assume w: "pa_window a = 2 * ?n"
      then have "?i = unat (pa_last_deleted a) mod ?n"
        using window_end [OF pa_wfD(4) [OF wf]] by simp
      with True pa_wfD(6) [OF wf, of ?i] clk
      have "entry_timedout now a (unat (pa_last_deleted a) mod ?n)"
        by (simp add: entry_timedout_def clock_ok_def empty_entry_def)
      with stop have "pa_window a = 0" by (simp add: pa_window_def)
      with w pa_wfD(3) [OF wf] show False by linarith
    qed
    with b wf True pa_wfD(5) [OF wf] show ?thesis by simp
  next
    case False
    then have b: "?b = a\<lparr>pa_last_deleted := pa_last_added a - word_of_nat ?n,
        pa_entries := (pa_entries a)[?i := empty_entry]\<rparr>"
      by (simp add: pa_make_room_def clear_entry_def Let_def)
    have w: "pa_window ?b = ?n"
      using window_restart [OF pa_wfD(1) [OF wf]] by (simp add: b pa_window_def)
    have "pa_covered ?b i" if "i < ?n" for i
      using residue_hit [OF that, of "unat (pa_last_deleted ?b)"] w by (simp add: pa_covered_def)
    moreover have "set ((pa_entries a)[?i := empty_entry]) \<subseteq> insert empty_entry (set (pa_entries a))"
      by (rule set_update_subset_insert)
    ultimately show ?thesis
      using wf w by (auto simp: pa_wf_def b) (auto simp: empty_entry_def)
  qed
  then show "pa_wf ?b" "pa_window ?b < 2 * ?n" "pe_data (pa_entries ?b ! ?i) = None" by auto
qed

lemma ping_array_add_wf:
  assumes wf: "pa_wf a" and clk: "clock_ok now a"
  shows "pa_wf (snd (ping_array_add now rnd alloc a data))"
proof -
  define r where "r = ping_array_clear_timedout now a"
  have r: "pa_wf r" "clock_ok now r" "pa_last_deleted r = pa_last_added r \<or>
      \<not> entry_timedout now r (unat (pa_last_deleted r) mod pa_total_size r)"
    using clear_timedout_wf [OF wf] clk clear_timedout_stops [of now a]
    by (simp_all add: r_def Let_def)
  note room = pa_make_room_wf [OF r]
  define b where "b = pa_make_room r"
  have bs: "pa_total_size b = pa_total_size a" "pa_last_added b = pa_last_added a"
    by (simp_all add: b_def r_def)
  have wfb: "pa_wf b" and wb: "pa_window b < 2 * pa_total_size a"
    using room by (simp_all add: b_def r_def)
  show ?thesis
  proof (cases alloc)
    case False
    then show ?thesis using wfb by (simp add: ping_array_add_alt b_def r_def)
  next
    case True
    define index where "index = unat (pa_last_added a) mod pa_total_size a"
    define e where "e = \<lparr>pe_data = Some data, pe_length = length data, pe_time = now,
      pe_ping_id = make_ping_id rnd (pa_total_size a) index\<rparr>"
    define c where "c = b\<lparr>pa_entries := (pa_entries b)[index := e], pa_last_added := pa_last_added a + 1\<rparr>"
    have c: "snd (ping_array_add now rnd alloc a data) = c"
      using True by (simp add: ping_array_add_alt c_def b_def r_def index_def e_def Let_def)
    have "pa_window b + 1 < 2 ^ 32" using wb pa_wfD(1) [OF wf] by (simp add: size_ok_def)
    then have "unat (pa_last_added b - pa_last_deleted b + 1) = unat (pa_last_added b - pa_last_deleted b) + 1"
      unfolding pa_window_def by (simp add: unat_word_ariths(1))
    then have wc: "pa_window c = Suc (pa_window b)"
      by (simp add: pa_window_def c_def bs algebra_simps)
    have cov: "pa_covered c i" if "pa_covered b i \<or> i = index" for i
      using that wc window_end [OF pa_wfD(4) [OF wfb]] bs
      by (fastforce simp: pa_covered_def c_def index_def less_Suc_eq)
    have "set (pa_entries c) \<subseteq> insert e (set (pa_entries b))"
      by (simp add: c_def set_update_subset_insert)
    then have "\<forall>x \<in> set (pa_entries c). (pe_data x = None \<longrightarrow> x = empty_entry) \<and>
        (\<forall>d. pe_data x = Some d \<longrightarrow> pe_length x = length d)"
      using wfb by (auto simp: pa_wf_def e_def)
    moreover have "pa_covered c i" if "i < pa_total_size a" "pe_data (pa_entries c ! i) \<noteq> None" for i
      using that cov [of i] pa_wfD(8) [OF wfb, of i] bs by (cases "i = index") (auto simp: c_def)
    ultimately show ?thesis
      unfolding c using pa_wfD(1,2) [OF wfb] wc wb bs by (simp add: pa_wf_def c_def)
  qed
qed

section \<open>The operations on the pending requests\<close>

lemma pa_make_room_entry:
  assumes "i \<noteq> unat (pa_last_added a) mod pa_total_size a"
  shows "pa_entries (pa_make_room a) ! i = pa_entries a ! i"
  using assms by (simp add: pa_make_room_def clear_entry_def Let_def)

text \<open>A successful add makes the returned id pending with the data and the current time.\<close>

lemma ping_array_add_new:
  assumes wf: "pa_wf a" and add: "ping_array_add now rnd True a data = (pid, a')"
  shows "pa_pending a' pid = Some (data, now)" and "pid \<noteq> 0"
    and "unat pid mod pa_total_size a = unat (pa_last_added a) mod pa_total_size a"
    and "pa_last_added a' = pa_last_added a + 1" and "pa_total_size a' = pa_total_size a"
    and "pa_timeout a' = pa_timeout a"
proof -
  let ?i = "unat (pa_last_added a) mod pa_total_size a"
  have i: "?i < pa_total_size a" using pa_wfD(3) [OF wf] by simp
  have len: "length (pa_entries (ping_array_clear_timedout now a)) = pa_total_size a"
    using pa_wfD(2) [OF clear_timedout_wf [OF wf, of now]] by simp
  have pid: "pid = make_ping_id rnd (pa_total_size a) ?i"
    using add by (simp add: ping_array_add_alt Let_def)
  note id = make_ping_id_props [OF pa_wfD(1) [OF wf] i, of rnd, folded pid]
  then show "pid \<noteq> 0" "unat pid mod pa_total_size a = ?i" by simp_all
  show "pa_pending a' pid = Some (data, now)"
    using add id i len by (auto simp: ping_array_add_alt Let_def pa_pending_def)
  show "pa_last_added a' = pa_last_added a + 1" "pa_total_size a' = pa_total_size a"
    "pa_timeout a' = pa_timeout a"
    using add by (auto simp: ping_array_add_alt Let_def)
qed

text \<open>Any add keeps the other pending requests, apart from the one in the slot it takes.\<close>

lemma ping_array_add_other:
  assumes wf: "pa_wf a" and clk: "clock_ok now a" and pend: "pa_pending a pid = Some (d, t)"
    and fresh: "\<not> is_timeout now t (word_of_nat (pa_timeout a))"
    and slot: "unat pid mod pa_total_size a \<noteq> unat (pa_last_added a) mod pa_total_size a"
  shows "pa_pending (snd (ping_array_add now rnd alloc a data)) pid = Some (d, t)"
  using clear_timedout_pending [OF wf clk pend fresh] slot
  by (auto simp: ping_array_add_alt Let_def pa_pending_def pa_make_room_entry split: if_splits)

lemma ping_array_add_frame [simp]:
  "pa_total_size (snd (ping_array_add now rnd alloc a data)) = pa_total_size a"
  "pa_timeout (snd (ping_array_add now rnd alloc a data)) = pa_timeout a"
  "pa_last_added (snd (ping_array_add now rnd alloc a data)) =
     (if alloc then pa_last_added a + 1 else pa_last_added a)"
  by (simp_all add: ping_array_add_alt Let_def)

text \<open>A run of adds, each at its own time.\<close>

fun ping_array_adds :: "ping_array \<Rightarrow> (u64 \<times> u64 \<times> bool \<times> bytes) list \<Rightarrow> ping_array" where
  "ping_array_adds a [] = a"
| "ping_array_adds a ((now, rnd, alloc, data) # ops) =
     ping_array_adds (snd (ping_array_add now rnd alloc a data)) ops"

lemma ping_array_adds_keep:
  assumes "pa_wf a" and "pa_pending a pid = Some (d, t)"
    and "\<forall>(now, op) \<in> set ops. clock_ok now a \<and> \<not> is_timeout now t (word_of_nat (pa_timeout a))"
    and "\<forall>j < length ops. (unat (pa_last_added a) + j) mod pa_total_size a \<noteq> unat pid mod pa_total_size a"
  shows "pa_pending (ping_array_adds a ops) pid = Some (d, t)"
  using assms
proof (induction ops arbitrary: a)
  case (Cons op ops)
  obtain now rnd alloc data where op: "op = (now, rnd, alloc, data)" by (cases op)
  let ?b = "snd (ping_array_add now rnd alloc a data)"
  have clk: "clock_ok now a" "\<not> is_timeout now t (word_of_nat (pa_timeout a))"
    using Cons.prems(3) by (auto simp: op)
  have "pa_pending ?b pid = Some (d, t)"
    using Cons.prems(1,2,4) clk by (intro ping_array_add_other) (auto simp: op)
  moreover have "pa_wf ?b" using Cons.prems(1) clk by (intro ping_array_add_wf)
  moreover have "(unat (pa_last_added ?b) + j) mod pa_total_size a \<noteq> unat pid mod pa_total_size a"
    if "j < length ops" for j
  proof -
    have "(unat (pa_last_added a + 1) + j) mod pa_total_size a =
        (unat (pa_last_added a) + Suc j) mod pa_total_size a"
      using unat_plus_mod [OF pa_wfD(4) [OF Cons.prems(1)], of "pa_last_added a" 1]
        mod_add_cong [of "unat (pa_last_added a + 1)" "pa_total_size a" "unat (pa_last_added a) + 1" j j]
      by simp
    then show ?thesis using that Cons.prems(4) by (auto simp: op)
  qed
  ultimately show ?case
    using Cons.IH [of ?b] Cons.prems(3) by (auto simp: op clock_ok_def)
qed simp

text \<open>What \<open>ping_array_check\<close> does, in terms of the pending requests.\<close>

lemma ping_array_check_result:
  assumes "pa_wf a"
  shows "ping_array_check now len a pid =
    (case pa_pending a pid of
       Some (d, t) \<Rightarrow>
         if \<not> is_timeout now t (word_of_nat (pa_timeout a)) \<and> length d \<le> len
         then (int (length d), d, clear_entry a (unat pid mod pa_total_size a))
         else (- 1, [], a)
     | None \<Rightarrow> (- 1, [], a))"
proof -
  let ?i = "unat pid mod pa_total_size a"
  have i: "?i < pa_total_size a" using pa_wfD(3) [OF assms] by simp
  show ?thesis
    using pa_wfD(7) [OF assms i]
    by (cases "pe_data (pa_entries a ! ?i)")
      (auto simp: ping_array_check_def pa_pending_def entry_timedout_def Let_def)
qed

lemma clear_entry_pending:
  assumes wf: "pa_wf a" and i: "i < pa_total_size a"
  shows "pa_pending (clear_entry a i) pid =
    (if unat pid mod pa_total_size a = i then None else pa_pending a pid)"
  using pa_wfD(2) [OF wf] i by (auto simp: pa_pending_def clear_entry_def empty_entry_def Let_def)

lemma clear_entry_wf:
  assumes wf: "pa_wf a" and i: "i < pa_total_size a"
  shows "pa_wf (clear_entry a i)"
proof -
  have "set ((pa_entries a)[i := empty_entry]) \<subseteq> insert empty_entry (set (pa_entries a))"
    by (rule set_update_subset_insert)
  then show ?thesis
    using wf i by (auto simp: pa_wf_def clear_entry_def pa_window_def pa_covered_def nth_list_update)
      (auto simp: empty_entry_def)
qed

lemma ping_array_check_wf:
  assumes "pa_wf a"
  shows "pa_wf (snd (snd (ping_array_check now len a pid)))"
  using assms clear_entry_wf [OF assms, of "unat pid mod pa_total_size a"] pa_wfD(3) [OF assms]
  by (auto simp: ping_array_check_result split: option.split)

lemma ping_array_init_wf:
  assumes "size_ok n" and "0 < t"
  obtains a where "ping_array_init True n t = Some a" "pa_wf a" "pa_total_size a = n" "pa_timeout a = t"
    "\<forall>pid. pa_pending a pid = None"
proof -
  define a where "a = \<lparr>pa_entries = replicate n empty_entry, pa_last_deleted = 0, pa_last_added = 0,
    pa_total_size = n, pa_timeout = t\<rparr>"
  have "ping_array_init True n t = Some a" using assms by (simp add: ping_array_init_def size_ok_def a_def)
  moreover have "pa_wf a" using assms by (auto simp: pa_wf_def a_def pa_window_def empty_entry_def)
  moreover have "\<forall>pid. pa_pending a pid = None"
    using assms by (auto simp: pa_pending_def a_def empty_entry_def size_ok_def Let_def)
  ultimately show ?thesis by (intro that) (auto simp: a_def)
qed

lemma free_all_empty:
  assumes "pa_wf a"
  shows "\<forall>e \<in> set (pa_entries (ping_array_free_all a)). pe_data e = None"
  using assms
proof (induction "pa_window a" arbitrary: a rule: less_induct)
  case less
  show ?case
  proof (cases "pa_last_deleted a = pa_last_added a")
    case True
    then have "\<not> pa_covered a i" for i by (simp add: pa_covered_def pa_window_def)
    then have "pe_data (pa_entries a ! i) = None" if "i < pa_total_size a" for i
      using pa_wfD(8) [OF less.prems that] by blast
    then show ?thesis
      using True pa_wfD(2) [OF less.prems] by (auto simp: free_all_unfold [of a] in_set_conv_nth)
  next
    case False
    then have "0 < pa_window a" by (simp add: pa_window_def unat_gt_0)
    with False less.hyps [of "drop_oldest a"] drop_oldest_window [OF False]
      drop_oldest_wf [OF less.prems False] show ?thesis
      by (simp add: free_all_unfold [of a])
  qed
qed

section \<open>The interface of a request store\<close>

text \<open>
  What the packet handlers rely on: a store of outstanding requests, in which only what was added
  is pending, and an answer takes the request out. A predicate that holds of every request added
  then holds of every request answered.
\<close>

locale request_store =
  fixes inv :: "'s \<Rightarrow> bool" and pending :: "'s \<Rightarrow> 'i \<Rightarrow> 'd option"
    and add :: "'s \<Rightarrow> 'd \<Rightarrow> 'i \<times> 's" and answer :: "'s \<Rightarrow> 'i \<Rightarrow> 'd option \<times> 's"
  assumes add_inv: "inv s \<Longrightarrow> inv (snd (add s x))"
    and answer_inv: "inv s \<Longrightarrow> inv (snd (answer s i))"
    and add_pending: "inv s \<Longrightarrow> pending (snd (add s x)) j = Some y \<Longrightarrow>
      pending s j = Some y \<or> (j = fst (add s x) \<and> y = x)"
    and answer_sound: "inv s \<Longrightarrow> fst (answer s i) = Some y \<Longrightarrow> pending s i = Some y \<and> pending (snd (answer s i)) i = None"
    and answer_pending: "inv s \<Longrightarrow> pending (snd (answer s i)) j = Some y \<Longrightarrow> pending s j = Some y"
begin

lemma justified_add:
  "inv s \<Longrightarrow> \<forall>i y. pending s i = Some y \<longrightarrow> P i y \<Longrightarrow> P (fst (add s x)) x \<Longrightarrow>
   \<forall>i y. pending (snd (add s x)) i = Some y \<longrightarrow> P i y"
  using add_pending by blast

lemma justified_answer:
  "inv s \<Longrightarrow> \<forall>i y. pending s i = Some y \<longrightarrow> P i y \<Longrightarrow> \<forall>j y. pending (snd (answer s i)) j = Some y \<longrightarrow> P j y"
  using answer_pending by blast

lemma answer_justified: "inv s \<Longrightarrow> \<forall>i y. pending s i = Some y \<longrightarrow> P i y \<Longrightarrow> fst (answer s i) = Some y \<Longrightarrow> P i y"
  using answer_sound by blast

end

definition pa_data :: "ping_array \<Rightarrow> u64 \<Rightarrow> bytes option" where
  "pa_data a pid = map_option fst (pa_pending a pid)"

definition pa_answer :: "u64 \<Rightarrow> nat \<Rightarrow> ping_array \<Rightarrow> u64 \<Rightarrow> bytes option \<times> ping_array" where
  "pa_answer now len a pid = (let (n, d, a') = ping_array_check now len a pid in (if n < 0 then None else Some d, a'))"

lemma pa_data_entry:
  "pa_data a pid = (let e = pa_entries a ! (unat pid mod pa_total_size a) in if pid = 0 \<or> pe_ping_id e \<noteq> pid then None else pe_data e)"
  by (simp add: pa_data_def pa_pending_def Let_def option.map_comp comp_def option.map_ident)

lemma pa_data_clear_timedout:
  assumes "pa_wf a" and "clock_ok now a" and "pa_data (ping_array_clear_timedout now a) pid = Some y"
  shows "pa_data a pid = Some y"
proof -
  have "unat pid mod pa_total_size a < length (pa_entries a)" using pa_wfD [OF assms(1)] by simp
  from clear_timedout_entry [OF this assms(2)] assms(3) show ?thesis
    by (auto simp: pa_data_entry empty_entry_def Let_def split: if_splits)
qed

lemma pa_data_make_room:
  assumes "pa_wf a" and "pa_data (pa_make_room a) pid = Some y"
  shows "pa_data a pid = Some y"
proof -
  have "unat pid mod pa_total_size a < length (pa_entries a)" using pa_wfD [OF assms(1)] by simp
  with assms(2) show ?thesis
    by (cases "unat pid mod pa_total_size a = unat (pa_last_added a) mod pa_total_size a")
      (auto simp: pa_data_entry pa_make_room_def clear_entry_def empty_entry_def Let_def split: if_splits)
qed

lemma pa_data_add:
  assumes wf: "pa_wf a" and clk: "clock_ok now a" and p: "pa_data (snd (ping_array_add now rnd alloc a x)) j = Some y"
  shows "pa_data a j = Some y \<or> (j = fst (ping_array_add now rnd alloc a x) \<and> y = x)"
proof -
  let ?b = "pa_make_room (ping_array_clear_timedout now a)"
  have old: "pa_data a j = Some y" if "pa_data ?b j = Some y"
    using pa_data_clear_timedout [OF wf clk] pa_data_make_room [OF clear_timedout_wf [OF wf]] that by blast
  have len: "unat (pa_last_added a) mod pa_total_size a < length (pa_entries ?b)"
    using pa_wfD(2,3) [OF clear_timedout_wf [OF wf, of now]] by simp
  show ?thesis
  proof (cases alloc)
    case True
    with p old len show ?thesis
      by (cases "unat j mod pa_total_size a = unat (pa_last_added a) mod pa_total_size a")
        (auto simp: ping_array_add_alt pa_data_entry Let_def split: if_splits)
  qed (use p old in \<open>simp add: ping_array_add_alt Let_def\<close>)
qed

interpretation pas: request_store "\<lambda>a. pa_wf a \<and> clock_ok now a" pa_data "ping_array_add now rnd alloc" "pa_answer now len"
  for now rnd alloc len
proof unfold_locales
  fix a x i j y
  assume a: "pa_wf a \<and> clock_ok now a"
  show "pa_wf (snd (ping_array_add now rnd alloc a x)) \<and> clock_ok now (snd (ping_array_add now rnd alloc a x))"
    using a by (simp add: ping_array_add_wf clock_ok_def)
  have r: "pa_answer now len a i = (case pa_pending a i of
      Some (d, t) \<Rightarrow> if \<not> is_timeout now t (word_of_nat (pa_timeout a)) \<and> length d \<le> len
        then (Some d, clear_entry a (unat i mod pa_total_size a)) else (None, a) | None \<Rightarrow> (None, a))"
    using ping_array_check_result [of a now len i] a by (auto simp: pa_answer_def split: option.split)
  have m: "unat i mod pa_total_size a < pa_total_size a" using pa_wfD(3) a by simp
  note c = clear_entry_wf [OF conjunct1 [OF a] m] clear_entry_pending [OF conjunct1 [OF a] m]
  show "pa_wf (snd (pa_answer now len a i)) \<and> clock_ok now (snd (pa_answer now len a i))"
    using a c(1) by (auto simp: r clock_ok_def clear_entry_def split: option.split)
  show "pa_data a i = Some y \<and> pa_data (snd (pa_answer now len a i)) i = None" if "fst (pa_answer now len a i) = Some y"
    using that c(2) by (auto simp: r pa_data_def split: option.splits if_splits)
  show "pa_data a j = Some y" if "pa_data (snd (pa_answer now len a i)) j = Some y"
    using that c(2) by (auto simp: r pa_data_def split: option.splits if_splits)
  show "pa_data a j = Some y \<or> (j = fst (ping_array_add now rnd alloc a x) \<and> y = x)"
    if "pa_data (snd (ping_array_add now rnd alloc a x)) j = Some y"
    using pa_data_add a that by blast
qed

section \<open>Properties\<close>

text \<open>
  C25. A request is answered at most once and only with its own data: after a successful
  \<open>ping_array_add\<close> and further adds that do not reach its slot again, all before the timeout,
  \<open>ping_array_check\<close> on the returned id copies out exactly the data stored and frees the
  entry, and a second check of the same id fails.
\<close>

theorem ping_array_answered_once:
  assumes "pa_wf a" and "clock_ok now a" and "ping_array_add now rnd True a data = (pid, a1)"
    and "\<forall>(now', op) \<in> set ops. clock_ok now' a \<and> \<not> is_timeout now' now (word_of_nat (pa_timeout a))"
    and "length ops < pa_total_size a" and "length data \<le> len"
    and "\<not> is_timeout later now (word_of_nat (pa_timeout a))"
    and "a2 = ping_array_adds a1 ops"
  shows "\<exists>a3. ping_array_check later len a2 pid = (int (length data), data, a3) \<and>
    fst (ping_array_check later' len' a3 pid) = - 1"
proof -
  note new = ping_array_add_new [OF assms(1,3)]
  have wf1: "pa_wf a1" using ping_array_add_wf [OF assms(1,2), of rnd True data] assms(3) by simp
  let ?n = "pa_total_size a"
  have n: "0 < ?n" "?n dvd 2 ^ 32" using pa_wfD [OF assms(1)] by simp_all
  have free: "(unat (pa_last_added a1) + j) mod pa_total_size a1 \<noteq> unat pid mod pa_total_size a1"
    if "j < length ops" for j
  proof
    assume "(unat (pa_last_added a1) + j) mod pa_total_size a1 = unat pid mod pa_total_size a1"
    then have "(unat (pa_last_added a) + Suc j) mod ?n = (unat (pa_last_added a) + 0) mod ?n"
      using new(3-5) unat_plus_mod [OF n(2), of "pa_last_added a" 1]
        mod_add_cong [of "unat (pa_last_added a + 1)" ?n "unat (pa_last_added a) + 1" j j] by simp
    then have "Suc j = 0"
      using that assms(5) n by (intro mod_add_cancel_left_less [of "unat (pa_last_added a)" "Suc j" ?n 0]) auto
    then show False by simp
  qed
  have pend: "pa_pending a2 pid = Some (data, now)"
    using ping_array_adds_keep [OF wf1 new(1), of ops] assms(4) new(6) free by (auto simp: assms(8) clock_ok_def)
  have frame: "pa_wf (ping_array_adds b ops) \<and> pa_timeout (ping_array_adds b ops) = pa_timeout b"
    if "pa_wf b" "\<forall>(now', op) \<in> set ops. clock_ok now' b" for b ops
    using that
    by (induction b ops rule: ping_array_adds.induct) (auto simp: ping_array_add_wf clock_ok_def)
  have "\<forall>(now', op) \<in> set ops. clock_ok now' a1" using assms(4) new(6) by (auto simp: clock_ok_def)
  then have wf2: "pa_wf a2" "pa_timeout a2 = pa_timeout a" using frame [OF wf1] new(6) assms(8) by auto
  define i where "i = unat pid mod pa_total_size a2"
  have i: "i < pa_total_size a2" using pa_wfD(3) [OF wf2(1)] by (simp add: i_def)
  have "ping_array_check later len a2 pid = (int (length data), data, clear_entry a2 i)"
    using ping_array_check_result [OF wf2(1)] pend assms(6,7) wf2(2) by (simp add: i_def)
  moreover have "pa_pending (clear_entry a2 i) pid = None"
    using clear_entry_pending [OF wf2(1) i, of pid] by (simp add: i_def)
  then have "fst (ping_array_check later' len' (clear_entry a2 i) pid) = - 1"
    using ping_array_check_result [OF clear_entry_wf [OF wf2(1) i]] by simp
  ultimately show ?thesis by blast
qed

definition sample_ping_array :: ping_array where
  "sample_ping_array = \<lparr>pa_entries = replicate 4 empty_entry, pa_last_deleted = 0, pa_last_added = 0,
     pa_total_size = 4, pa_timeout = 5\<rparr>"

lemma sample_ping_array_wf: "pa_wf sample_ping_array"
  by (auto simp: pa_wf_def sample_ping_array_def pa_window_def size_ok_def empty_entry_def)

theorem ping_array_answered_once_witness:
  "\<exists>a3. ping_array_check 103 16 (snd (ping_array_add 100 77 True sample_ping_array [1, 2])) 
     (fst (ping_array_add 100 77 True sample_ping_array [1, 2])) = (int (length [1::u8, 2]), [1, 2], a3) \<and>
     fst (ping_array_check 103 16 a3 (fst (ping_array_add 100 77 True sample_ping_array [1, 2]))) = - 1"
  by (rule ping_array_answered_once [OF sample_ping_array_wf, where ops = "[]" and now = 100])
    (simp_all add: clock_ok_def is_timeout_def sample_ping_array_def word_le_nat_alt)

text \<open>
  The invariant of the array is kept by every operation, and \<open>ping_array_free_all\<close> leaves
  no allocated entry behind: nothing leaks when the array is destroyed.
\<close>

theorem ping_array_no_leak:
  assumes "pa_wf a" and "\<forall>(now, op) \<in> set ops. clock_ok now a"
  shows "pa_wf (ping_array_adds a ops) \<and> pa_wf (snd (snd (ping_array_check now len (ping_array_adds a ops) pid))) \<and>
    (\<forall>e \<in> set (pa_entries (ping_array_free_all (snd (snd (ping_array_check now len (ping_array_adds a ops) pid))))).
       pe_data e = None)"
proof -
  have "pa_wf (ping_array_adds a ops)"
    using assms by (induction a ops rule: ping_array_adds.induct) (auto simp: ping_array_add_wf clock_ok_def)
  then show ?thesis using ping_array_check_wf free_all_empty by blast
qed

theorem ping_array_no_leak_witness:
  "list_all (\<lambda>e. pe_data e = None) (pa_entries (ping_array_free_all (snd (snd (ping_array_check 101 9
      (ping_array_adds sample_ping_array [(100, 7, True, [1])]) 3)))))"
  using ping_array_no_leak [OF sample_ping_array_wf, of "[(100, 7, True, [1])]" 101 9 3]
  by (simp add: list_all_iff clock_ok_def is_timeout_def sample_ping_array_def word_le_nat_alt)

end
