(* ===== verification/Crypto_Core.thy ===== *)
theory Crypto_Core
  imports Util
begin

text \<open>
  Model of \<open>toxcore/crypto_core.c\<close>. The NaCl primitives (\<open>crypto_box_beforenm\<close>,
  \<open>crypto_box_afternm\<close>, \<open>crypto_box_open_afternm\<close>) are not part of the repository: they are
  the fields of the record \<open>nacl\<close>, an argument of every function that calls them, and
  \<open>nacl_ok\<close> is their documented interface: a zero-padded message is boxed into a text of
  the same length that starts with sixteen zero bytes, and opening it gives the message
  back. Nonces are 24-byte big endian numbers; the results show that the two increment
  routines add modulo \<open>2^192\<close> and agree with each other, and that a request packet made
  by \<open>create_request\<close> is read back by \<open>handle_request\<close> at the receiver.
\<close>

section \<open>Constants and the NaCl interface\<close>

abbreviation "crypto_box_PUBLICKEYBYTES \<equiv> (32::nat)"
abbreviation "crypto_box_NONCEBYTES \<equiv> (24::nat)"
abbreviation "crypto_box_ZEROBYTES \<equiv> (32::nat)"
abbreviation "crypto_box_BOXZEROBYTES \<equiv> (16::nat)"
abbreviation "crypto_box_MACBYTES \<equiv> (16::nat)"
abbreviation "MAX_CRYPTO_REQUEST_SIZE \<equiv> (1024::nat)"
abbreviation "NET_PACKET_CRYPTO \<equiv> (32::u8)"

record nacl =
  box_beforenm :: "bytes \<Rightarrow> bytes \<Rightarrow> bytes"
  box_afternm :: "bytes \<Rightarrow> bytes \<Rightarrow> bytes \<Rightarrow> bytes option"
  box_open_afternm :: "bytes \<Rightarrow> bytes \<Rightarrow> bytes \<Rightarrow> bytes option"

definition nacl_ok :: "nacl \<Rightarrow> bool" where
  "nacl_ok N \<longleftrightarrow>
     (\<forall>m nonce k. take 32 m = replicate 32 0 \<longrightarrow>
        (\<exists>c. box_afternm N m nonce k = Some c \<and> length c = length m \<and>
             take 16 c = replicate 16 0 \<and> box_open_afternm N c nonce k = Some m)) \<and>
     (\<forall>c nonce k m. box_open_afternm N c nonce k = Some m \<longrightarrow> length m = length c)"

text \<open>Two key pairs agree on a shared key, whichever side computes it.\<close>

definition keys_agree :: "nacl \<Rightarrow> bytes \<Rightarrow> bytes \<Rightarrow> bytes \<Rightarrow> bytes \<Rightarrow> bool" where
  "keys_agree N pkA skA pkB skB \<longleftrightarrow> box_beforenm N pkB skA = box_beforenm N pkA skB"

section \<open>Encryption wrappers\<close>

definition public_key_valid :: "bytes \<Rightarrow> bool" where
  "public_key_valid public_key \<longleftrightarrow> \<not> public_key ! 31 \<ge> 128"

definition encrypt_precompute :: "nacl \<Rightarrow> bytes \<Rightarrow> bytes \<Rightarrow> bytes" where
  "encrypt_precompute N public_key secret_key = box_beforenm N public_key secret_key"

text \<open>\<open>None\<close> is the return value \<open>-1\<close>; otherwise the return value is the length of the result.\<close>

definition encrypt_data_symmetric :: "nacl \<Rightarrow> bytes \<Rightarrow> bytes \<Rightarrow> bytes \<Rightarrow> bytes option" where
  "encrypt_data_symmetric N secret_key nonce plain =
     (if length plain = 0 then None
      else
        let temp_plain = replicate crypto_box_ZEROBYTES 0 @ plain
        in case box_afternm N temp_plain nonce secret_key of
             None \<Rightarrow> None
           | Some temp_encrypted \<Rightarrow>
               Some (read_at temp_encrypted crypto_box_BOXZEROBYTES (length plain + crypto_box_MACBYTES)))"

definition decrypt_data_symmetric :: "nacl \<Rightarrow> bytes \<Rightarrow> bytes \<Rightarrow> bytes \<Rightarrow> bytes option" where
  "decrypt_data_symmetric N secret_key nonce encrypted =
     (if length encrypted \<le> crypto_box_BOXZEROBYTES then None
      else
        let temp_encrypted = replicate crypto_box_BOXZEROBYTES 0 @ encrypted
        in case box_open_afternm N temp_encrypted nonce secret_key of
             None \<Rightarrow> None
           | Some temp_plain \<Rightarrow>
               Some (read_at temp_plain crypto_box_ZEROBYTES (length encrypted - crypto_box_MACBYTES)))"

definition encrypt_data :: "nacl \<Rightarrow> bytes \<Rightarrow> bytes \<Rightarrow> bytes \<Rightarrow> bytes \<Rightarrow> bytes option" where
  "encrypt_data N public_key secret_key nonce plain =
     encrypt_data_symmetric N (encrypt_precompute N public_key secret_key) nonce plain"

definition decrypt_data :: "nacl \<Rightarrow> bytes \<Rightarrow> bytes \<Rightarrow> bytes \<Rightarrow> bytes \<Rightarrow> bytes option" where
  "decrypt_data N public_key secret_key nonce encrypted =
     decrypt_data_symmetric N (encrypt_precompute N public_key secret_key) nonce encrypted"

lemma encrypt_symmetric_Some:
  assumes N: "nacl_ok N" and "plain \<noteq> []"
  obtains e where "encrypt_data_symmetric N k nonce plain = Some e"
    and "length e = length plain + crypto_box_MACBYTES"
    and "decrypt_data_symmetric N k nonce e = Some plain"
proof -
  let ?m = "replicate 32 0 @ plain"
  have "take 32 ?m = replicate 32 0" by simp
  with N obtain c where c: "box_afternm N ?m nonce k = Some c" "length c = length ?m"
    "take 16 c = replicate 16 0" "box_open_afternm N c nonce k = Some ?m"
    unfolding nacl_ok_def by meson
  define e where "e = drop 16 c"
  have e: "length e = length plain + 16" using c(2) by (simp add: e_def)
  have enc: "encrypt_data_symmetric N k nonce plain = Some e"
    using assms(2) c by (simp add: encrypt_data_symmetric_def e_def read_at_def)
  have "replicate 16 0 @ e = c" using c(3) append_take_drop_id [of 16 c] by (simp add: e_def)
  then have "decrypt_data_symmetric N k nonce e = Some plain"
    using e c(4) assms(2) by (simp add: decrypt_data_symmetric_def read_at_def)
  with enc e show ?thesis by (intro that)
qed

lemma decrypt_symmetric_length:
  assumes "nacl_ok N" and "decrypt_data_symmetric N k nonce e = Some p"
  shows "length e = length p + crypto_box_MACBYTES"
  using assms by (auto simp: decrypt_data_symmetric_def nacl_ok_def read_at_def Let_def
      split: if_splits option.splits)

section \<open>Nonces\<close>

text \<open>
  The loops run from the last byte to the first, with the carry in a wider integer.
\<close>

primrec increment_nonce_loop :: "nat \<Rightarrow> nat \<Rightarrow> bytes \<Rightarrow> bytes" where
  "increment_nonce_loop 0 carry nonce = nonce"
| "increment_nonce_loop (Suc i) carry nonce =
     (let carry1 = carry + unat (nonce ! i)
      in increment_nonce_loop i (carry1 div 256) (nonce[i := word_of_nat (carry1 mod 256)]))"

definition increment_nonce :: "bytes \<Rightarrow> bytes" where
  "increment_nonce nonce = increment_nonce_loop crypto_box_NONCEBYTES 1 nonce"

primrec increment_nonce_number_loop :: "nat \<Rightarrow> nat \<Rightarrow> bytes \<Rightarrow> bytes \<Rightarrow> bytes" where
  "increment_nonce_number_loop 0 carry num_as_nonce nonce = nonce"
| "increment_nonce_number_loop (Suc i) carry num_as_nonce nonce =
     (let carry1 = carry + unat (nonce ! i) + unat (num_as_nonce ! i)
      in increment_nonce_number_loop i (carry1 div 256) num_as_nonce
           (nonce[i := word_of_nat (carry1 mod 256)]))"

definition increment_nonce_number :: "bytes \<Rightarrow> u32 \<Rightarrow> bytes" where
  "increment_nonce_number nonce host_order_num =
     (let num_vec = bytes_be 4 (unat host_order_num);
          num_as_nonce = (replicate crypto_box_NONCEBYTES 0)
            [crypto_box_NONCEBYTES - 4 := num_vec ! 0, crypto_box_NONCEBYTES - 3 := num_vec ! 1,
             crypto_box_NONCEBYTES - 2 := num_vec ! 2, crypto_box_NONCEBYTES - 1 := num_vec ! 3]
      in increment_nonce_number_loop crypto_box_NONCEBYTES 0 num_as_nonce nonce)"

lemma be_val_Nil [simp]: "be_val [] = 0"
  by (simp add: be_val_def)

lemma be_val_snoc [simp]: "be_val (xs @ [b]) = 256 * be_val xs + unat b"
  by (simp add: be_val_def)

lemma be_val_take_Suc: "i < length xs \<Longrightarrow> be_val (take (Suc i) xs) = 256 * be_val (take i xs) + unat (xs ! i)"
  by (simp add: take_Suc_conv_app_nth)

lemma shift_mod: "r < 256 \<Longrightarrow> 256 * (s mod m) + r = (256 * s + r) mod (256 * m)" for r s m :: nat
  by (simp add: mod_mult2_eq)

text \<open>Both loops are the addition of big endian numbers, modulo the size of the array.\<close>

lemma increment_nonce_number_loop_val:
  assumes "i \<le> length nonce" and "i \<le> length num"
  shows "length (increment_nonce_number_loop i carry num nonce) = length nonce \<and>
    drop i (increment_nonce_number_loop i carry num nonce) = drop i nonce \<and>
    be_val (take i (increment_nonce_number_loop i carry num nonce)) =
      (be_val (take i nonce) + be_val (take i num) + carry) mod 256 ^ i"
  using assms
proof (induction i arbitrary: carry nonce)
  case (Suc i)
  define c where "c = carry + unat (nonce ! i) + unat (num ! i)"
  define n where "n = nonce[i := word_of_nat (c mod 256)]"
  define r where "r = increment_nonce_number_loop i (c div 256) num n"
  have r: "increment_nonce_number_loop (Suc i) carry num nonce = r"
    by (simp add: r_def n_def c_def Let_def)
  have IH: "length r = length nonce" "drop i r = drop i n"
    "be_val (take i r) = (be_val (take i nonce) + be_val (take i num) + c div 256) mod 256 ^ i"
    using Suc.IH [of n "c div 256"] Suc.prems by (simp_all add: r_def n_def)
  have i: "i < length r" "i < length nonce" "i < length num" using IH(1) Suc.prems by auto
  have ri: "r ! i = word_of_nat (c mod 256)"
  proof -
    have "r ! i = drop i r ! 0" using i by simp
    also have "\<dots> = n ! i" using IH(2) i by (simp add: n_def)
    finally show ?thesis using i by (simp add: n_def)
  qed
  have "drop 1 (drop i r) = drop 1 (drop i n)" using IH(2) by simp
  then have "drop (Suc i) r = drop (Suc i) nonce" by (simp add: n_def)
  moreover have "be_val (take (Suc i) r) =
      (be_val (take (Suc i) nonce) + be_val (take (Suc i) num) + carry) mod 256 ^ Suc i"
  proof -
    let ?s = "be_val (take i nonce) + be_val (take i num)"
    have "be_val (take (Suc i) r) = 256 * ((?s + c div 256) mod 256 ^ i) + c mod 256"
      using i by (simp add: be_val_take_Suc ri IH(3))
    also have "\<dots> = (256 * (?s + c div 256) + c mod 256) mod (256 * 256 ^ i)"
      by (rule shift_mod) simp
    also have "256 * (?s + c div 256) + c mod 256 = 256 * ?s + c"
      by (simp add: distrib_left)
    finally show ?thesis using i by (simp add: be_val_take_Suc c_def algebra_simps)
  qed
  ultimately show ?case using r IH(1) by simp
qed simp

lemma increment_nonce_number_loop_all:
  assumes "length nonce = n" and "length num = n"
  shows "length (increment_nonce_number_loop n carry num nonce) = n"
    and "be_val (increment_nonce_number_loop n carry num nonce) =
      (be_val nonce + be_val num + carry) mod 256 ^ n"
  using increment_nonce_number_loop_val [of n nonce num carry] assms by auto

lemma increment_nonce_loop_number:
  "i \<le> length num \<Longrightarrow> \<forall>j < i. num ! j = 0 \<Longrightarrow>
   increment_nonce_loop i carry nonce = increment_nonce_number_loop i carry num nonce"
  by (induction i arbitrary: carry nonce) (simp_all add: Let_def)

lemma be_val_zeros_append: "be_val (replicate k 0 @ bs) = be_val bs"
proof -
  have "le_val (bs @ replicate k 0) = le_val bs" for bs
    by (induction bs) (simp, induction k, simp_all)
  then show ?thesis by (simp add: be_val_def)
qed

lemma length_increment_nonce [simp]:
  "length nonce = 24 \<Longrightarrow> length (increment_nonce nonce) = 24"
  "length nonce = 24 \<Longrightarrow> length (increment_nonce_number nonce num) = 24"
  unfolding increment_nonce_def increment_nonce_number_def Let_def
  by (simp_all add: increment_nonce_loop_number [of 24 "replicate 24 0"] increment_nonce_number_loop_all)

lemma increment_nonce_val:
  assumes "length nonce = 24"
  shows "be_val (increment_nonce nonce) = (be_val nonce + 1) mod 2 ^ 192"
proof -
  have "be_val (replicate 24 0) = 0" using be_val_zeros_append [of 24 "[]"] by simp
  moreover have "increment_nonce nonce = increment_nonce_number_loop 24 1 (replicate 24 0) nonce"
    unfolding increment_nonce_def by (rule increment_nonce_loop_number) auto
  ultimately show ?thesis
    using increment_nonce_number_loop_all(2) [of nonce 24 "replicate 24 0" 1] assms by simp
qed

lemma list4_cases: "length xs = 4 \<Longrightarrow> \<exists>a b c d. xs = [a, b, c, d]"
  by (auto simp: numeral_eq_Suc length_Suc_conv)

lemma bytes_be_4_nth:
  "(replicate 24 (0::u8))[20 := bytes_be 4 v ! 0, 21 := bytes_be 4 v ! 1,
      22 := bytes_be 4 v ! 2, 23 := bytes_be 4 v ! 3] = replicate 20 0 @ bytes_be 4 v"
proof -
  obtain a b c d where "bytes_be 4 v = [a, b, c, d]"
    using list4_cases [of "bytes_be 4 v"] by auto
  moreover have "replicate 24 (0::u8) = replicate 20 0 @ [0, 0, 0, 0]"
    by (simp add: numeral_eq_Suc)
  ultimately show ?thesis by (simp add: list_update_append)
qed

lemma increment_nonce_number_val:
  assumes "length nonce = 24"
  shows "be_val (increment_nonce_number nonce num) = (be_val nonce + unat num) mod 2 ^ 192"
proof -
  have "unat num < 256 ^ 4" using unsigned_less [of num] by simp
  then have "be_val (replicate 20 0 @ bytes_be 4 (unat num)) = unat num"
    by (simp add: be_val_zeros_append)
  then show ?thesis
    using increment_nonce_number_loop_all(2) [of nonce 24 "replicate 20 0 @ bytes_be 4 (unat num)" 0] assms
    unfolding increment_nonce_number_def Let_def by (simp add: bytes_be_4_nth [simplified])
qed

lemma nonce_eqI:
  "length m = 24 \<Longrightarrow> length n = 24 \<Longrightarrow> be_val m = be_val n \<Longrightarrow> m = n"
  by (metis bytes_be_be_val)

lemma increment_nonce_funpow:
  assumes "length nonce = 24"
  shows "length ((increment_nonce ^^ k) nonce) = 24 \<and>
    be_val ((increment_nonce ^^ k) nonce) = (be_val nonce + k) mod 2 ^ 192"
proof (induction k)
  case 0
  then show ?case using assms be_val_bound [of nonce] by simp
next
  case (Suc k)
  then show ?case using assms by (simp add: increment_nonce_val mod_Suc_eq)
qed

text \<open>Adding a number to a nonce is the same as incrementing it that many times.\<close>

lemma increment_nonce_number_funpow:
  assumes "length nonce = 24"
  shows "increment_nonce_number nonce num = (increment_nonce ^^ unat num) nonce"
  using assms increment_nonce_funpow [OF assms, of "unat num"]
  by (intro nonce_eqI) (simp_all add: increment_nonce_number_val)

text \<open>Incrementing never repeats a nonce before \<open>2^192\<close> steps.\<close>

lemma increment_nonce_no_repeat:
  assumes "length nonce = 24" and "i < j" and "j < 2 ^ 192"
  shows "(increment_nonce ^^ i) nonce \<noteq> (increment_nonce ^^ j) nonce"
proof
  assume "(increment_nonce ^^ i) nonce = (increment_nonce ^^ j) nonce"
  then have "(be_val nonce + i) mod 2 ^ 192 = (be_val nonce + j) mod 2 ^ 192"
    using increment_nonce_funpow [OF assms(1)] by metis
  then have "i = j"
    using assms(2,3) by (intro mod_add_cancel_left_less [of "be_val nonce" i "2 ^ 192" j]) auto
  with assms(2) show False by simp
qed

section \<open>Request packets\<close>

text \<open>
  \<open>nonce\<close> is the random nonce that \<open>new_nonce\<close> writes into the packet. The sum of the length check is
  taken without the wrap of \<open>uint32_t\<close>: a length of \<open>2^32 - 106\<close> or more, which no caller passes, would
  pass the check and be copied past the array \<open>temp\<close>.
\<close>

definition create_request ::
  "nacl \<Rightarrow> bytes \<Rightarrow> bytes \<Rightarrow> bytes \<Rightarrow> bytes \<Rightarrow> bytes \<Rightarrow> u8 \<Rightarrow> bytes option" where
  "create_request N nonce send_public_key send_secret_key recv_public_key data request_id =
     (if MAX_CRYPTO_REQUEST_SIZE < length data + 1 + crypto_box_PUBLICKEYBYTES * 2 +
           crypto_box_NONCEBYTES + 1 + crypto_box_MACBYTES then None
      else
        let temp = request_id # data
        in case encrypt_data N recv_public_key send_secret_key nonce temp of
             None \<Rightarrow> None
           | Some enc \<Rightarrow> Some ([NET_PACKET_CRYPTO] @ recv_public_key @ send_public_key @ nonce @ enc))"

text \<open>On success: the sender's key, the request id and the data.\<close>

definition handle_request ::
  "nacl \<Rightarrow> bytes \<Rightarrow> bytes \<Rightarrow> bytes \<Rightarrow> (bytes \<times> u8 \<times> bytes) option" where
  "handle_request N self_public_key self_secret_key packet =
     (if length packet \<le> crypto_box_PUBLICKEYBYTES * 2 + crypto_box_NONCEBYTES + 1 + crypto_box_MACBYTES
         \<or> length packet > MAX_CRYPTO_REQUEST_SIZE then None
      else if memcmp (read_at packet 1 crypto_box_PUBLICKEYBYTES) self_public_key \<noteq> 0 then None
      else
        let public_key = read_at packet (1 + crypto_box_PUBLICKEYBYTES) crypto_box_PUBLICKEYBYTES;
            nonce = read_at packet (1 + crypto_box_PUBLICKEYBYTES * 2) crypto_box_NONCEBYTES
        in case decrypt_data N public_key self_secret_key nonce
                  (drop (1 + crypto_box_PUBLICKEYBYTES * 2 + crypto_box_NONCEBYTES) packet) of
             None \<Rightarrow> None
           | Some temp \<Rightarrow>
               if length temp = 0 then None else Some (public_key, hd temp, tl temp))"

lemma create_request_Some:
  assumes "nacl_ok N" and "length data \<le> 918"
  obtains enc where "create_request N nonce spk ssk rpk data rid =
      Some ([NET_PACKET_CRYPTO] @ rpk @ spk @ nonce @ enc)"
    and "length enc = length data + 17"
    and "decrypt_data_symmetric N (box_beforenm N rpk ssk) nonce enc = Some (rid # data)"
proof (rule encrypt_symmetric_Some [OF assms(1), of "rid # data" "box_beforenm N rpk ssk" nonce])
  fix e
  assume "encrypt_data_symmetric N (box_beforenm N rpk ssk) nonce (rid # data) = Some e"
    and "length e = length (rid # data) + crypto_box_MACBYTES"
    and "decrypt_data_symmetric N (box_beforenm N rpk ssk) nonce e = Some (rid # data)"
  then show thesis
    using assms(2) by (intro that [of e])
      (simp_all add: create_request_def encrypt_data_def encrypt_precompute_def)
qed simp

lemma handle_create_request:
  assumes N: "nacl_ok N" and keys: "keys_agree N spk ssk rpk rsk"
    and len: "length spk = 32" "length rpk = 32" "length nonce = 24" "length data \<le> 918"
    and req: "create_request N nonce spk ssk rpk data rid = Some packet"
  shows "handle_request N rpk rsk packet = Some (spk, rid, data)"
    and "length packet = length data + 106"
proof -
  obtain enc where enc: "packet = [NET_PACKET_CRYPTO] @ rpk @ spk @ nonce @ enc"
    "length enc = length data + 17"
    "decrypt_data_symmetric N (box_beforenm N rpk ssk) nonce enc = Some (rid # data)"
    using create_request_Some [OF N len(4), of nonce spk ssk rpk rid] req by auto
  then show l: "length packet = length data + 106" using len by simp
  have "read_at packet 1 32 = rpk" "read_at packet 33 32 = spk" "read_at packet 65 24 = nonce"
    "drop 89 packet = enc"
    using enc(1) len by (simp_all add: read_at_def)
  then show "handle_request N rpk rsk packet = Some (spk, rid, data)"
    using l len keys enc(3)
    by (simp add: handle_request_def decrypt_data_def encrypt_precompute_def keys_agree_def)
qed

text \<open>A packet addressed to another key is refused.\<close>

lemma handle_request_not_for_us:
  assumes "length pk = 32" and "read_at packet 1 32 \<noteq> pk"
  shows "handle_request N pk sk packet = None"
proof -
  have "memcmp (read_at packet 1 32) pk \<noteq> 0" if "33 \<le> length packet"
    using assms that memcmp_eq_0_iff [of "read_at packet 1 32" pk] by simp
  then show ?thesis by (auto simp: handle_request_def)
qed

section \<open>Properties\<close>

text \<open>
  C35. \<open>increment_nonce_number\<close> with \<open>k\<close> gives the same nonce as \<open>k\<close> calls of \<open>increment_nonce\<close>: the
  two carry loops implement the same addition on the 24-byte big endian number.
\<close>

theorem increment_nonce_number_iterates:
  assumes "length nonce = 24"
  shows "increment_nonce_number nonce k = (increment_nonce ^^ unat k) nonce"
  using assms by (rule increment_nonce_number_funpow)

theorem increment_nonce_number_iterates_witness:
  "increment_nonce_number (replicate 24 255) 2 = (increment_nonce ^^ unat (2::u32)) (replicate 24 255)"
  by (rule increment_nonce_number_iterates) simp

text \<open>
  A nonce is never used twice: fewer than \<open>2^192\<close> increments of one nonce are pairwise
  different.
\<close>

theorem increment_nonce_fresh:
  assumes "length nonce = 24" and "i < j" and "j < 2 ^ 192"
  shows "(increment_nonce ^^ i) nonce \<noteq> (increment_nonce ^^ j) nonce"
  using assms by (rule increment_nonce_no_repeat)

theorem increment_nonce_fresh_witness:
  "(increment_nonce ^^ 1) (replicate 24 255) \<noteq> (increment_nonce ^^ 300) (replicate 24 255)"
  by (rule increment_nonce_fresh) simp_all

text \<open>
  C34. Request packets: what \<open>create_request\<close> makes for a receiver, \<open>handle_request\<close> opens there,
  with the sender's key, the request number and the data; the packet fits
  \<open>MAX_CRYPTO_REQUEST_SIZE\<close>, and a node with any other key refuses it.
\<close>

theorem request_round_trip:
  assumes "nacl_ok N" and "keys_agree N spk ssk rpk rsk"
    and "length spk = 32" and "length rpk = 32" and "length nonce = 24" and "length data \<le> 918"
    and "length other = 32" and "other \<noteq> rpk"
  shows "\<exists>packet. create_request N nonce spk ssk rpk data request_id = Some packet \<and>
    length packet \<le> MAX_CRYPTO_REQUEST_SIZE \<and>
    handle_request N rpk rsk packet = Some (spk, request_id, data) \<and>
    handle_request N other osk packet = None"
proof -
  obtain enc where c: "create_request N nonce spk ssk rpk data request_id =
      Some ([NET_PACKET_CRYPTO] @ rpk @ spk @ nonce @ enc)"
    using create_request_Some [OF assms(1,6), of nonce spk ssk rpk request_id] by metis
  have "read_at ([NET_PACKET_CRYPTO] @ rpk @ spk @ nonce @ enc) 1 32 \<noteq> other"
    using assms(4,8) by (simp add: read_at_def)
  then show ?thesis
    using c handle_create_request [OF assms(1-6) c] assms(6) handle_request_not_for_us [OF assms(7)] by simp
qed

text \<open>A cipher that meets the interface: the identity on padded messages.\<close>

definition nacl_plain :: nacl where
  "nacl_plain = \<lparr>box_beforenm = (\<lambda>pk sk. pk), box_afternm = (\<lambda>m n k. Some m), box_open_afternm = (\<lambda>c n k. Some c)\<rparr>"

lemma nacl_plain_ok: "nacl_ok nacl_plain"
proof -
  have "take 16 m = replicate 16 0" if "take 32 m = replicate 32 (0::u8)" for m
    using arg_cong [OF that, of "take 16"] by simp
  then show ?thesis by (simp add: nacl_ok_def nacl_plain_def)
qed

theorem request_round_trip_witness:
  "\<exists>packet. create_request nacl_plain (replicate 24 3) (replicate 32 1) (replicate 32 9) (replicate 32 1) [5, 6] 32 = Some packet \<and>
     length packet \<le> MAX_CRYPTO_REQUEST_SIZE \<and>
     handle_request nacl_plain (replicate 32 1) (replicate 32 8) packet = Some (replicate 32 1, 32, [5, 6]) \<and>
     handle_request nacl_plain (replicate 32 2) (replicate 32 7) packet = None"
  by (rule request_round_trip [OF nacl_plain_ok]) (simp_all add: keys_agree_def nacl_plain_def)

end
