(* ===== verification/Network.thy ===== *)
theory Network
  imports Util
begin

text \<open>
  Addresses: the types \<open>IP\<close> and \<open>IP_Port\<close> of \<open>toxcore/network.h\<close>, the comparisons of
  \<open>network.c\<close> and the address classes of \<open>LAN_discovery.c\<close>.

  The union of an IPv4 and an IPv6 address is its 16 bytes of storage; the IPv4 view is
  the first four of them. A port is stored in network order by the code and is modelled
  by the number it stands for. The address family constants are those of Linux.
\<close>

unbundle bit_operations_syntax

abbreviation "AF_INET \<equiv> (2::u8)"
abbreviation "AF_INET6 \<equiv> (10::u8)"
abbreviation "TCP_ONION_FAMILY \<equiv> (11::u8)"
abbreviation "TCP_INET \<equiv> (12::u8)"
abbreviation "TCP_INET6 \<equiv> (13::u8)"
abbreviation "TCP_FAMILY \<equiv> (14::u8)"
abbreviation "SIZE_IP4 \<equiv> (4::nat)"
abbreviation "SIZE_IP6 \<equiv> (16::nat)"

record IP =
  ip_family :: u8
  ip_addr :: bytes

record IP_Port =
  ipp_ip :: IP
  ipp_port :: u16

definition ip_ok :: "IP \<Rightarrow> bool" where
  "ip_ok ip \<longleftrightarrow> length (ip_addr ip) = 16"

definition ip4_of :: "IP \<Rightarrow> bytes" where
  "ip4_of ip = take 4 (ip_addr ip)"

definition ip_zero :: IP where
  "ip_zero = \<lparr>ip_family = 0, ip_addr = replicate 16 0\<rparr>"

definition ipport_zero :: IP_Port where
  "ipport_zero = \<lparr>ipp_ip = ip_zero, ipp_port = 0\<rparr>"

text \<open>\<open>a.uint64[0] == 0\<close> and \<open>a.uint32[2] == htonl(0xffff)\<close>.\<close>

definition IPV6_IPV4_IN_V6 :: "bytes \<Rightarrow> bool" where
  "IPV6_IPV4_IN_V6 a \<longleftrightarrow> read_at a 0 8 = replicate 8 0 \<and> read_at a 8 4 = [0, 0, 0xff, 0xff]"

section \<open>Comparing addresses\<close>

definition ip_equal :: "IP \<Rightarrow> IP \<Rightarrow> bool" where
  "ip_equal a b =
     (if ip_family a = ip_family b then
        (if ip_family a = AF_INET then ip4_of a = ip4_of b
         else if ip_family a = AF_INET6 then
           read_at (ip_addr a) 0 8 = read_at (ip_addr b) 0 8 \<and>
           read_at (ip_addr a) 8 8 = read_at (ip_addr b) 8 8
         else False)
      else if ip_family a = AF_INET \<and> ip_family b = AF_INET6 then
        (if IPV6_IPV4_IN_V6 (ip_addr b) then ip4_of a = read_at (ip_addr b) 12 4 else False)
      else if ip_family a = AF_INET6 \<and> ip_family b = AF_INET then
        (if IPV6_IPV4_IN_V6 (ip_addr a) then read_at (ip_addr a) 12 4 = ip4_of b else False)
      else False)"

definition ipport_equal :: "IP_Port \<Rightarrow> IP_Port \<Rightarrow> bool" where
  "ipport_equal a b =
     (if ipp_port a = 0 \<or> ipp_port a \<noteq> ipp_port b then False else ip_equal (ipp_ip a) (ipp_ip b))"

definition ip_reset :: "IP \<Rightarrow> IP" where
  "ip_reset ip = ip_zero"

definition ip_init :: "IP \<Rightarrow> bool \<Rightarrow> IP" where
  "ip_init ip ipv6enabled = ip_zero\<lparr>ip_family := (if ipv6enabled then AF_INET6 else AF_INET)\<rparr>"

definition ip_isset :: "IP \<Rightarrow> bool" where
  "ip_isset ip \<longleftrightarrow> ip_family ip \<noteq> 0"

definition ipport_isset :: "IP_Port \<Rightarrow> bool" where
  "ipport_isset p = (if ipp_port p = 0 then False else ip_isset (ipp_ip p))"

text \<open>
  The meaning of the comparison: both addresses are brought to a canonical form in which
  an IPv4 address embedded in IPv6 is the IPv4 address.
\<close>

definition ip_canon :: "IP \<Rightarrow> (u8 \<times> bytes) option" where
  "ip_canon ip =
     (if ip_family ip = AF_INET then Some (AF_INET, ip4_of ip)
      else if ip_family ip = AF_INET6 then
        (if IPV6_IPV4_IN_V6 (ip_addr ip) then Some (AF_INET, read_at (ip_addr ip) 12 4)
         else Some (AF_INET6, ip_addr ip))
      else None)"

lemma split_16_8:
  "length xs = 16 \<Longrightarrow> length ys = 16 \<Longrightarrow>
   (read_at xs 0 8 = read_at ys 0 8 \<and> read_at xs 8 8 = read_at ys 8 8) \<longleftrightarrow> xs = ys"
proof
  assume l: "length xs = 16" "length ys = 16"
    and "read_at xs 0 8 = read_at ys 0 8 \<and> read_at xs 8 8 = read_at ys 8 8"
  then have "take 8 xs = take 8 ys" "drop 8 xs = drop 8 ys" by (simp_all add: read_at_def)
  then show "xs = ys" by (metis append_take_drop_id)
qed simp

lemma v4_in_v6_unique:
  assumes "length a = 16" "length b = 16" "IPV6_IPV4_IN_V6 a" "IPV6_IPV4_IN_V6 b"
  shows "read_at a 12 4 = read_at b 12 4 \<longleftrightarrow> a = b"
proof -
  have split: "xs = read_at xs 0 8 @ read_at xs 8 4 @ read_at xs 12 4" if "length xs = 16" for xs :: bytes
  proof -
    have "drop 8 xs = take 4 (drop 8 xs) @ drop 12 xs"
      using append_take_drop_id [of 4 "drop 8 xs"] by simp
    moreover have "take 4 (drop 12 xs) = drop 12 xs" using that by simp
    ultimately show ?thesis using append_take_drop_id [of 8 xs] by (simp add: read_at_def)
  qed
  show ?thesis
    using split [OF assms(1)] split [OF assms(2)] assms(3,4) by (metis IPV6_IPV4_IN_V6_def)
qed

lemma ip_equal_iff:
  assumes "ip_ok a" and "ip_ok b"
  shows "ip_equal a b \<longleftrightarrow> ip_canon a \<noteq> None \<and> ip_canon a = ip_canon b"
  using assms split_16_8 [of "ip_addr a" "ip_addr b"] v4_in_v6_unique [of "ip_addr a" "ip_addr b"]
  by (auto simp: ip_equal_def ip_canon_def ip_ok_def split: if_splits)

lemma ipport_equal_iff:
  assumes "ip_ok (ipp_ip a)" and "ip_ok (ipp_ip b)"
  shows "ipport_equal a b \<longleftrightarrow> ipp_port a \<noteq> 0 \<and> ipp_port a = ipp_port b \<and>
    ip_canon (ipp_ip a) \<noteq> None \<and> ip_canon (ipp_ip a) = ip_canon (ipp_ip b)"
  using ip_equal_iff [OF assms] by (auto simp: ipport_equal_def)

section \<open>Local and LAN addresses\<close>

text \<open>The IPv4 address that an IPv6 address embeds, as the code copies it out.\<close>

definition embedded_ip4 :: "IP \<Rightarrow> IP" where
  "embedded_ip4 ip = \<lparr>ip_family = AF_INET, ip_addr = memcpy_at (ip_addr ip) 0 (read_at (ip_addr ip) 12 4)\<rparr>"

definition Local_ip4 :: "bytes \<Rightarrow> bool" where
  "Local_ip4 ip4 \<longleftrightarrow> ip4 ! 0 = 127"

definition Local_ip :: "IP \<Rightarrow> bool" where
  "Local_ip ip =
     (if ip_family ip = AF_INET then Local_ip4 (ip4_of ip)
      else if IPV6_IPV4_IN_V6 (ip_addr ip) then Local_ip4 (ip4_of (embedded_ip4 ip))
      else read_at (ip_addr ip) 0 8 = replicate 8 0 \<and> read_at (ip_addr ip) 8 4 = replicate 4 0 \<and>
           read_at (ip_addr ip) 12 4 = [0, 0, 0, 1])"

definition LAN_ip4 :: "bytes \<Rightarrow> bool" where
  "LAN_ip4 ip4 \<longleftrightarrow>
     ip4 ! 0 = 10 \<or>
     (ip4 ! 0 = 172 \<and> ip4 ! 1 \<ge> 16 \<and> ip4 ! 1 \<le> 31) \<or>
     (ip4 ! 0 = 192 \<and> ip4 ! 1 = 168) \<or>
     (ip4 ! 0 = 169 \<and> ip4 ! 1 = 254 \<and> ip4 ! 2 \<noteq> 0 \<and> ip4 ! 2 \<noteq> 255) \<or>
     (ip4 ! 0 = 100 \<and> (ip4 ! 1 AND 0xC0) = 0x40)"

text \<open>\<open>LAN_ip\<close>: \<open>True\<close> is the return value \<open>0\<close> (a LAN address), \<open>False\<close> is \<open>-1\<close>.\<close>

definition LAN_ip :: "IP \<Rightarrow> bool" where
  "LAN_ip ip =
     (if Local_ip ip then True
      else if ip_family ip = AF_INET then LAN_ip4 (ip4_of ip)
      else if ip_family ip = AF_INET6 then
        (let a = ip_addr ip
         in if (a ! 0 = 0xFF \<and> a ! 1 < 3 \<and> a ! 15 = 1) \<or> (a ! 0 = 0xFE \<and> (a ! 1 AND 0xC0) = 0x80) then True
            else if IPV6_IPV4_IN_V6 a then
              Local_ip4 (ip4_of (embedded_ip4 ip)) \<or> LAN_ip4 (ip4_of (embedded_ip4 ip))
            else False)
      else False)"

text \<open>
  The code converts an embedded IPv4 address before it stores it
  (\<open>addto_lists\<close>, \<open>returnedip_ports\<close>).
\<close>

definition unembed_ip_port :: "IP_Port \<Rightarrow> IP_Port" where
  "unembed_ip_port p =
     (if ip_family (ipp_ip p) = AF_INET6 \<and> IPV6_IPV4_IN_V6 (ip_addr (ipp_ip p))
      then p\<lparr>ipp_ip := embedded_ip4 (ipp_ip p)\<rparr> else p)"

lemma ip4_of_embedded:
  "length (ip_addr ip) = 16 \<Longrightarrow> ip4_of (embedded_ip4 ip) = read_at (ip_addr ip) 12 4"
  by (simp add: ip4_of_def embedded_ip4_def memcpy_at_def)

lemma ip_ok_embedded: "ip_ok ip \<Longrightarrow> ip_ok (embedded_ip4 ip)"
  by (simp add: ip_ok_def embedded_ip4_def)

text \<open>Conversion does not change which address is meant, nor its class.\<close>

lemma unembed_canon:
  assumes "ip_ok (ipp_ip p)"
  shows "ip_canon (ipp_ip (unembed_ip_port p)) = ip_canon (ipp_ip p)"
  using assms ip4_of_embedded [of "ipp_ip p"]
  by (auto simp: unembed_ip_port_def ip_canon_def ip_ok_def) (simp_all add: embedded_ip4_def)

lemma v4_in_v6_first_byte:
  assumes "IPV6_IPV4_IN_V6 a" and "length a = 16"
  shows "a ! 0 = 0"
proof -
  have "take 8 a = replicate 8 0" using assms(1) by (simp add: IPV6_IPV4_IN_V6_def read_at_def)
  then have "take 8 a ! 0 = 0" by simp
  then show ?thesis by simp
qed

lemma LAN_ip_unembed:
  assumes "ip_ok (ipp_ip p)"
  shows "LAN_ip (ipp_ip (unembed_ip_port p)) = LAN_ip (ipp_ip p)"
proof (cases "ip_family (ipp_ip p) = AF_INET6 \<and> IPV6_IPV4_IN_V6 (ip_addr (ipp_ip p))")
  case True
  then have "ip_addr (ipp_ip p) ! 0 = 0"
    using assms v4_in_v6_first_byte by (simp add: ip_ok_def)
  moreover have "ip_family (embedded_ip4 (ipp_ip p)) = AF_INET" by (simp add: embedded_ip4_def)
  ultimately show ?thesis
    using True by (auto simp: unembed_ip_port_def LAN_ip_def Local_ip_def Let_def)
qed (auto simp: unembed_ip_port_def)

section \<open>Properties\<close>

text \<open>
  \<open>ipport_equal\<close> compares addresses by what they mean: two address and port pairs are
  equal exactly when the ports are the same and not zero and the addresses are the same
  after an IPv4 address embedded in IPv6 is taken as the IPv4 address.
\<close>

theorem ipport_equal_meaning:
  assumes "ip_ok (ipp_ip a)" and "ip_ok (ipp_ip b)"
  shows "ipport_equal a b \<longleftrightarrow> ipp_port a \<noteq> 0 \<and> ipp_port a = ipp_port b \<and>
    ip_canon (ipp_ip a) \<noteq> None \<and> ip_canon (ipp_ip a) = ip_canon (ipp_ip b)"
  using assms by (rule ipport_equal_iff)

theorem ipport_equal_meaning_witness:
  "ipport_equal \<lparr>ipp_ip = \<lparr>ip_family = 2, ip_addr = [10, 0, 0, 1] @ replicate 12 0\<rparr>, ipp_port = 5\<rparr>
     \<lparr>ipp_ip = \<lparr>ip_family = 10, ip_addr = replicate 10 0 @ [255, 255, 10, 0, 0, 1]\<rparr>, ipp_port = 5\<rparr>"
proof -
  have "ip_canon \<lparr>ip_family = 10, ip_addr = replicate 10 0 @ [255, 255, 10, 0, 0, 1]\<rparr> = Some (2, [10, 0, 0, 1])"
    by code_simp
  moreover have "ip_canon \<lparr>ip_family = 2, ip_addr = [10, 0, 0, 1] @ replicate 12 0\<rparr> = Some (2, [10, 0, 0, 1])"
    by (simp add: ip_canon_def ip4_of_def)
  ultimately show ?thesis by (subst ipport_equal_meaning) (simp_all add: ip_ok_def)
qed

end
