(* ===== verification/Node_Format.thy ===== *)
theory Node_Format
  imports Network
begin

text \<open>
  The wire format of DHT nodes (\<open>toxcore/DHT.c\<close>): conversion of address families,
  \<open>packed_node_size\<close>, \<open>pack_nodes\<close> and \<open>unpack_nodes\<close>. Both loops are modelled on the
  caller's buffers: packing writes into an existing byte buffer, unpacking overwrites an
  existing array of nodes and, as the code does, leaves the bytes of the address union
  that an IPv4 node does not carry unchanged.
\<close>

abbreviation "TOX_AF_INET \<equiv> (2::u8)"
abbreviation "TOX_AF_INET6 \<equiv> (10::u8)"
abbreviation "TOX_TCP_INET \<equiv> (130::u8)"
abbreviation "TOX_TCP_INET6 \<equiv> (138::u8)"
abbreviation "PACKED_NODE_SIZE_IP4 \<equiv> (39::nat)"
abbreviation "PACKED_NODE_SIZE_IP6 \<equiv> (51::nat)"

record Node_format =
  nf_public_key :: bytes
  nf_ip_port :: IP_Port

definition node_zero :: Node_format where
  "node_zero = \<lparr>nf_public_key = replicate 32 0, nf_ip_port = ipport_zero\<rparr>"

definition node_ok :: "Node_format \<Rightarrow> bool" where
  "node_ok n \<longleftrightarrow> length (nf_public_key n) = 32 \<and> ip_ok (ipp_ip (nf_ip_port n))"

definition to_net_family :: "IP \<Rightarrow> IP" where
  "to_net_family ip =
     (if ip_family ip = AF_INET then ip\<lparr>ip_family := TOX_AF_INET\<rparr>
      else if ip_family ip = AF_INET6 then ip\<lparr>ip_family := TOX_AF_INET6\<rparr> else ip)"

definition to_host_family :: "IP \<Rightarrow> IP option" where
  "to_host_family ip =
     (if ip_family ip = TOX_AF_INET then Some (ip\<lparr>ip_family := AF_INET\<rparr>)
      else if ip_family ip = TOX_AF_INET6 then Some (ip\<lparr>ip_family := AF_INET6\<rparr>) else None)"

definition packed_node_size :: "u8 \<Rightarrow> nat option" where
  "packed_node_size fam =
     (if fam = AF_INET then Some PACKED_NODE_SIZE_IP4
      else if fam = TCP_INET then Some PACKED_NODE_SIZE_IP4
      else if fam = AF_INET6 then Some PACKED_NODE_SIZE_IP6
      else if fam = TCP_INET6 then Some PACKED_NODE_SIZE_IP6
      else None)"

section \<open>Packing\<close>

text \<open>The first half of the loop body: whether the node is IPv6, and its family on the wire.\<close>

definition pack_family :: "u8 \<Rightarrow> (bool \<times> u8) option" where
  "pack_family fam =
     (if fam = AF_INET then Some (False, TOX_AF_INET)
      else if fam = TCP_INET then Some (False, TOX_TCP_INET)
      else if fam = AF_INET6 then Some (True, TOX_AF_INET6)
      else if fam = TCP_INET6 then Some (True, TOX_TCP_INET6)
      else None)"

text \<open>The four writes of one node with an address of \<open>alen\<close> bytes.\<close>

definition pack_write :: "bytes \<Rightarrow> nat \<Rightarrow> u8 \<Rightarrow> nat \<Rightarrow> Node_format \<Rightarrow> bytes" where
  "pack_write data pl net_family alen n =
     (let d1 = memcpy_at data pl [net_family];
          d2 = memcpy_at d1 (pl + 1) (take alen (ip_addr (ipp_ip (nf_ip_port n))));
          d3 = memcpy_at d2 (pl + 1 + alen) (bytes_be 2 (unat (ipp_port (nf_ip_port n))))
      in memcpy_at d3 (pl + 1 + alen + 2) (nf_public_key n))"

fun pack_loop :: "bytes \<Rightarrow> nat \<Rightarrow> nat \<Rightarrow> Node_format list \<Rightarrow> bytes \<times> nat option" where
  "pack_loop data len pl [] = (data, Some pl)"
| "pack_loop data len pl (n # ns) =
     (case pack_family (ip_family (ipp_ip (nf_ip_port n))) of
        None \<Rightarrow> (data, None)
      | Some (ipv6, net_family) \<Rightarrow>
          if \<not> ipv6 then
            (if pl + PACKED_NODE_SIZE_IP4 > len then (data, None)
             else pack_loop (pack_write data pl net_family SIZE_IP4 n) len (pl + PACKED_NODE_SIZE_IP4) ns)
          else
            (if pl + PACKED_NODE_SIZE_IP6 > len then (data, None)
             else pack_loop (pack_write data pl net_family SIZE_IP6 n) len (pl + PACKED_NODE_SIZE_IP6) ns))"

definition pack_nodes :: "bytes \<Rightarrow> nat \<Rightarrow> Node_format list \<Rightarrow> bytes \<times> nat option" where
  "pack_nodes data len nodes = pack_loop data len 0 nodes"

section \<open>Unpacking\<close>

definition unpack_family :: "bool \<Rightarrow> u8 \<Rightarrow> (bool \<times> u8) option" where
  "unpack_family tcp_enabled b =
     (if b = TOX_AF_INET then Some (False, AF_INET)
      else if b = TOX_TCP_INET then (if \<not> tcp_enabled then None else Some (False, TCP_INET))
      else if b = TOX_AF_INET6 then Some (True, AF_INET6)
      else if b = TOX_TCP_INET6 then (if \<not> tcp_enabled then None else Some (True, TCP_INET6))
      else None)"

text \<open>The node \<open>n\<close> of the caller's array after the four assignments of the loop body.\<close>

definition unpack_read :: "bytes \<Rightarrow> nat \<Rightarrow> u8 \<Rightarrow> nat \<Rightarrow> Node_format \<Rightarrow> Node_format" where
  "unpack_read data lp host_family alen n =
     \<lparr>nf_public_key = read_at data (lp + 1 + alen + 2) 32,
      nf_ip_port = \<lparr>ipp_ip = \<lparr>ip_family = host_family,
                              ip_addr = memcpy_at (ip_addr (ipp_ip (nf_ip_port n))) 0 (read_at data (lp + 1) alen)\<rparr>,
                    ipp_port = word_of_nat (be_val (read_at data (lp + 1 + alen) 2))\<rparr>\<rparr>"

text \<open>
  The loop of \<open>unpack_nodes\<close>; \<open>data\<close> is the \<open>length\<close> bytes of input. The second component
  is the number of nodes and the length processed, or \<open>None\<close> for the return value \<open>-1\<close>.
\<close>

function unpack_loop :: "Node_format list \<Rightarrow> nat \<Rightarrow> bytes \<Rightarrow> bool \<Rightarrow> nat \<Rightarrow> nat \<Rightarrow>
    Node_format list \<times> (nat \<times> nat) option" where
  "unpack_loop nodes max_num data tcp num lp =
     (if num < max_num \<and> lp < length data then
        (case unpack_family tcp (data ! lp) of
           None \<Rightarrow> (nodes, None)
         | Some (ipv6, host_family) \<Rightarrow>
             if \<not> ipv6 then
               (if lp + PACKED_NODE_SIZE_IP4 > length data then (nodes, None)
                else unpack_loop (nodes[num := unpack_read data lp host_family SIZE_IP4 (nodes ! num)])
                       max_num data tcp (Suc num) (lp + PACKED_NODE_SIZE_IP4))
             else
               (if lp + PACKED_NODE_SIZE_IP6 > length data then (nodes, None)
                else unpack_loop (nodes[num := unpack_read data lp host_family SIZE_IP6 (nodes ! num)])
                       max_num data tcp (Suc num) (lp + PACKED_NODE_SIZE_IP6)))
      else (nodes, Some (num, lp)))"
  by pat_completeness auto
termination by (relation "measure (\<lambda>(nodes, max_num, data, tcp, num, lp). max_num - num)") auto

declare unpack_loop.simps [simp del]

definition unpack_nodes :: "Node_format list \<Rightarrow> nat \<Rightarrow> bytes \<Rightarrow> bool \<Rightarrow>
    Node_format list \<times> (nat \<times> nat) option" where
  "unpack_nodes nodes max_num data tcp = unpack_loop nodes max_num data tcp 0 0"

section \<open>The format\<close>

text \<open>The encoding of one node, as a function: what both loops are compared with.\<close>

definition addr_len :: "u8 \<Rightarrow> nat" where
  "addr_len fam = (if fam = AF_INET6 \<or> fam = TCP_INET6 then 16 else 4)"

definition wire_family :: "u8 \<Rightarrow> u8" where
  "wire_family fam = (if fam = TCP_INET then 130 else if fam = TCP_INET6 then 138 else fam)"

definition packable :: "u8 \<Rightarrow> bool" where
  "packable fam \<longleftrightarrow> fam \<in> {AF_INET, AF_INET6, TCP_INET, TCP_INET6}"

abbreviation node_family :: "Node_format \<Rightarrow> u8" where
  "node_family n \<equiv> ip_family (ipp_ip (nf_ip_port n))"

definition node_bytes :: "Node_format \<Rightarrow> bytes" where
  "node_bytes n =
     [wire_family (node_family n)] @ take (addr_len (node_family n)) (ip_addr (ipp_ip (nf_ip_port n))) @
     bytes_be 2 (unat (ipp_port (nf_ip_port n))) @ nf_public_key n"

text \<open>What a node carries: its key, its port, its family and the address bytes of that family.\<close>

definition same_node :: "Node_format \<Rightarrow> Node_format \<Rightarrow> bool" where
  "same_node n m \<longleftrightarrow> nf_public_key n = nf_public_key m \<and>
     ipp_port (nf_ip_port n) = ipp_port (nf_ip_port m) \<and> node_family n = node_family m \<and>
     take (addr_len (node_family n)) (ip_addr (ipp_ip (nf_ip_port n))) =
     take (addr_len (node_family n)) (ip_addr (ipp_ip (nf_ip_port m)))"

lemma pack_family_eq:
  "pack_family fam = (if packable fam then Some (addr_len fam = 16, wire_family fam) else None)"
  by (auto simp: pack_family_def packable_def addr_len_def wire_family_def)

lemma addr_len_cases: "addr_len fam = 4 \<or> addr_len fam = 16"
  by (simp add: addr_len_def)

lemma node_bytes_length:
  "node_ok n \<Longrightarrow> length (node_bytes n) = 35 + addr_len (node_family n)"
  using addr_len_cases [of "node_family n"] by (auto simp: node_bytes_def node_ok_def ip_ok_def)

lemma packed_node_size_bytes:
  "node_ok n \<Longrightarrow> packed_node_size (node_family n) =
     (if packable (node_family n) then Some (length (node_bytes n)) else None)"
  by (auto simp: packed_node_size_def packable_def node_bytes_length addr_len_def)

lemma memcpy_at_seq:
  "off + length xs + length ys \<le> length dst \<Longrightarrow>
   memcpy_at (memcpy_at dst off xs) (off + length xs) ys = memcpy_at dst off (xs @ ys)"
  by (cases xs) (auto simp: memcpy_at_def min_def ac_simps)

lemma memcpy_at_seq':
  "off' = off + length xs \<Longrightarrow> off + length xs + length ys \<le> length dst \<Longrightarrow>
   memcpy_at (memcpy_at dst off xs) off' ys = memcpy_at dst off (xs @ ys)"
  by (simp add: memcpy_at_seq)

lemma pack_write_bytes:
  assumes "node_ok n" and "pl + 35 + addr_len (node_family n) \<le> length data"
  shows "pack_write data pl (wire_family (node_family n)) (addr_len (node_family n)) n =
    memcpy_at data pl (node_bytes n)"
  using assms addr_len_cases [of "node_family n"]
  by (auto simp: pack_write_def node_bytes_def node_ok_def ip_ok_def memcpy_at_seq')

lemma pack_loop_step:
  assumes "node_ok n" and "len \<le> length data"
  shows "pack_loop data len pl (n # ns) =
    (if packable (node_family n) \<and> pl + length (node_bytes n) \<le> len
     then pack_loop (memcpy_at data pl (node_bytes n)) len (pl + length (node_bytes n)) ns
     else (data, None))"
  using assms addr_len_cases [of "node_family n"] pack_write_bytes [of n pl data] node_bytes_length [of n]
  by (auto simp: pack_family_eq add.assoc)

abbreviation nodes_bytes :: "Node_format list \<Rightarrow> bytes" where
  "nodes_bytes ns \<equiv> concat (map node_bytes ns)"

lemma pack_loop_ok:
  assumes "\<forall>n\<in>set ns. node_ok n \<and> packable (node_family n)"
    and "pl + length (nodes_bytes ns) \<le> len" and "len \<le> length data"
  shows "pack_loop data len pl ns =
    (memcpy_at data pl (nodes_bytes ns), Some (pl + length (nodes_bytes ns)))"
  using assms
proof (induction ns arbitrary: data pl)
  case Nil
  then show ?case by (simp add: memcpy_at_def)
next
  case (Cons n ns)
  have "pack_loop data len pl (n # ns) =
      pack_loop (memcpy_at data pl (node_bytes n)) len (pl + length (node_bytes n)) ns"
    using Cons.prems pack_loop_step [of n len data pl ns] by simp
  also have "\<dots> = (memcpy_at (memcpy_at data pl (node_bytes n)) (pl + length (node_bytes n)) (nodes_bytes ns),
      Some (pl + length (node_bytes n) + length (nodes_bytes ns)))"
    using Cons.prems by (intro Cons.IH) auto
  finally show ?case using Cons.prems by (simp add: memcpy_at_seq add.assoc)
qed

lemma pack_loop_fail:
  assumes "\<forall>n\<in>set ns. node_ok n" and "len \<le> length data"
    and "\<not> ((\<forall>n\<in>set ns. packable (node_family n)) \<and> pl + length (nodes_bytes ns) \<le> len)"
    and "pl \<le> len"
  shows "snd (pack_loop data len pl ns) = None"
  using assms
proof (induction ns arbitrary: data pl)
  case (Cons n ns)
  then show ?case using pack_loop_step [of n len data pl ns] by (auto simp: add.assoc)
qed simp

lemma pack_loop_length:
  assumes "\<forall>n\<in>set ns. node_ok n" and "len \<le> length data"
  shows "length (fst (pack_loop data len pl ns)) = length data"
  using assms
proof (induction ns arbitrary: data pl)
  case (Cons n ns)
  then show ?case using pack_loop_step [of n len data pl ns] by auto
qed simp

section \<open>Unpacking inverts packing\<close>

lemma unpack_family_eq:
  "unpack_family tcp (wire_family fam) =
     (if packable fam \<and> (tcp \<or> fam = AF_INET \<or> fam = AF_INET6) then Some (addr_len fam = 16, fam) else None)"
  if "packable fam"
  using that by (auto simp: unpack_family_def packable_def addr_len_def wire_family_def)

lemma unpack_family_inv:
  "unpack_family tcp b = Some (v6, fam) \<Longrightarrow>
   packable fam \<and> wire_family fam = b \<and> v6 = (addr_len fam = 16) \<and> (tcp \<or> fam = AF_INET \<or> fam = AF_INET6)"
  by (auto simp: unpack_family_def packable_def addr_len_def wire_family_def split: if_splits)

definition node_at :: "bytes \<Rightarrow> nat \<Rightarrow> Node_format \<Rightarrow> bool" where
  "node_at data lp n \<longleftrightarrow> lp + length (node_bytes n) \<le> length data \<and>
     read_at data lp (length (node_bytes n)) = node_bytes n"

lemma read_at_join: "read_at xs a (m + n) = read_at xs a m @ read_at xs (a + m) n"
  by (simp add: read_at_def take_add drop_drop add.commute)

lemma be_val_2_bound: "length bs = 2 \<Longrightarrow> be_val bs < 65536"
  using be_val_bound [of bs] by simp

lemma unat_u16_bound: "unat (w :: u16) < 65536"
  using unsigned_less [of w] by simp

lemma unpack_read_ok:
  assumes "node_ok m" and "lp + 35 + addr_len fam \<le> length data"
  shows "node_ok (unpack_read data lp fam (addr_len fam) m)"
  using assms addr_len_cases [of fam] by (auto simp: node_ok_def ip_ok_def unpack_read_def)

lemma unpack_read_bytes:
  assumes m: "node_ok m" and fits: "lp + 35 + addr_len fam \<le> length data"
    and fam: "data ! lp = wire_family fam"
  shows "node_bytes (unpack_read data lp fam (addr_len fam) m) = read_at data lp (35 + addr_len fam)"
proof -
  let ?k = "addr_len fam"
  have port: "bytes_be 2 (unat (word_of_nat (be_val (read_at data (lp + 1 + ?k) 2)) :: u16))
      = read_at data (lp + 1 + ?k) 2"
    using bytes_be_be_val [of "read_at data (lp + 1 + ?k) 2"] be_val_2_bound [of "read_at data (lp + 1 + ?k) 2"] fits
    by (simp add: unat_word_of_nat_id)
  have one: "read_at data lp 1 = [wire_family fam]"
    using fam fits by (simp add: read_at_def take_Suc_conv_app_nth)
  have "35 + ?k = 1 + (?k + (2 + 32))" by simp
  then have "read_at data lp (35 + ?k) = [wire_family fam] @ read_at data (lp + 1) ?k @
      read_at data (lp + 1 + ?k) 2 @ read_at data (lp + 1 + ?k + 2) 32"
    by (simp only: read_at_join one add.assoc)
  moreover have "take ?k (memcpy_at (ip_addr (ipp_ip (nf_ip_port m))) 0 (read_at data (lp + 1) ?k)) =
      read_at data (lp + 1) ?k"
    using fits by (simp add: memcpy_at_def)
  ultimately show ?thesis using port by (simp add: node_bytes_def unpack_read_def)
qed

text \<open>Two well-formed nodes of packable families with the same encoding carry the same data.\<close>

lemma wire_family_inj: "packable a \<Longrightarrow> packable b \<Longrightarrow> wire_family a = wire_family b \<Longrightarrow> a = b"
  by (auto simp: packable_def wire_family_def)

lemma node_bytes_inj:
  assumes "node_ok n" "node_ok m" "packable (node_family n)" "packable (node_family m)"
    and eq: "node_bytes n = node_bytes m"
  shows "same_node n m"
proof -
  have fam: "node_family n = node_family m"
  proof (rule wire_family_inj [OF assms(3,4)])
    show "wire_family (node_family n) = wire_family (node_family m)"
      using arg_cong [OF eq, of hd] by (simp add: node_bytes_def)
  qed
  let ?k = "addr_len (node_family n)"
  have "length (take ?k (ip_addr (ipp_ip (nf_ip_port n)))) = length (take ?k (ip_addr (ipp_ip (nf_ip_port m))))"
    using assms(1,2) by (simp add: node_ok_def ip_ok_def)
  with eq fam have a: "take ?k (ip_addr (ipp_ip (nf_ip_port n))) = take ?k (ip_addr (ipp_ip (nf_ip_port m)))"
    and p: "bytes_be 2 (unat (ipp_port (nf_ip_port n))) = bytes_be 2 (unat (ipp_port (nf_ip_port m)))"
    and k: "nf_public_key n = nf_public_key m"
    by (auto simp: node_bytes_def)
  have "unat (ipp_port (nf_ip_port n)) = unat (ipp_port (nf_ip_port m))"
    using arg_cong [OF p, of be_val] unat_u16_bound [of "ipp_port (nf_ip_port n)"]
      unat_u16_bound [of "ipp_port (nf_ip_port m)"] by simp
  then have "ipp_port (nf_ip_port n) = ipp_port (nf_ip_port m)" by (rule word_unat_eq_iff [THEN iffD2])
  with a k fam show ?thesis by (simp add: same_node_def)
qed

lemma unpack_loop_step:
  assumes "num < max_num" "lp < length data"
  shows "unpack_loop nodes max_num data tcp num lp =
    (case unpack_family tcp (data ! lp) of
       None \<Rightarrow> (nodes, None)
     | Some (v6, fam) \<Rightarrow>
         if lp + 35 + addr_len fam > length data then (nodes, None)
         else unpack_loop (nodes[num := unpack_read data lp fam (addr_len fam) (nodes ! num)]) max_num data tcp
                (Suc num) (lp + 35 + addr_len fam))"
proof (cases "unpack_family tcp (data ! lp)")
  case None
  then show ?thesis using assms by (simp add: unpack_loop.simps [of nodes])
next
  case (Some r)
  obtain v6 fam where r: "r = (v6, fam)" by fastforce
  have "v6 = (addr_len fam = 16)" using Some r unpack_family_inv by blast
  then show ?thesis
    using assms Some r addr_len_cases [of fam]
    by (subst unpack_loop.simps) (auto simp: add.assoc)
qed

lemma unpack_loop_done:
  "\<not> (num < max_num \<and> lp < length data) \<Longrightarrow> unpack_loop nodes max_num data tcp num lp = (nodes, Some (num, lp))"
  by (subst unpack_loop.simps) auto

text \<open>
  Whatever the input, the caller's array keeps its length, cells below the start index are
  kept and all nodes stay well formed; on success the nodes read are exactly those whose
  encoding is the processed part of the input.
\<close>

definition unpack_spec :: "bytes \<Rightarrow> bool \<Rightarrow> nat \<Rightarrow> nat \<Rightarrow> Node_format list \<Rightarrow> nat \<Rightarrow> nat \<Rightarrow> bool" where
  "unpack_spec data tcp num lp nodes' num' lp' \<longleftrightarrow>
     lp \<le> lp' \<and> lp' \<le> length data \<and> num \<le> num' \<and> num' \<le> length nodes' \<and>
     nodes_bytes (read_at nodes' num (num' - num)) = read_at data lp (lp' - lp) \<and>
     (\<forall>n\<in>set (read_at nodes' num (num' - num)). packable (node_family n) \<and>
        (tcp \<or> node_family n = AF_INET \<or> node_family n = AF_INET6))"

lemma read_at_Cons:
  "num < length xs \<Longrightarrow> read_at xs num (Suc k) = xs ! num # read_at xs (Suc num) k"
  by (simp add: read_at_def Cons_nth_drop_Suc [symmetric])

lemma unpack_loop_cases:
  obtains (finish) "\<not> (num < max_num \<and> lp < length data)"
      "unpack_loop nodes max_num data tcp num lp = (nodes, Some (num, lp))"
  | (fail) "num < max_num" "lp < length data" "unpack_loop nodes max_num data tcp num lp = (nodes, None)"
  | (step) fam where "num < max_num" "lp < length data" "data ! lp = wire_family fam" "packable fam"
      "tcp \<or> fam = AF_INET \<or> fam = AF_INET6" "lp + 35 + addr_len fam \<le> length data"
      "unpack_loop nodes max_num data tcp num lp =
         unpack_loop (nodes[num := unpack_read data lp fam (addr_len fam) (nodes ! num)]) max_num data tcp
           (Suc num) (lp + 35 + addr_len fam)"
proof (cases "num < max_num \<and> lp < length data")
  case False
  then show ?thesis using finish unpack_loop_done by blast
next
  case True
  show ?thesis
  proof (cases "unpack_family tcp (data ! lp)")
    case None
    then show ?thesis using True fail unpack_loop_step [of num max_num lp data nodes tcp] by simp
  next
    case (Some r)
    obtain v6 fam where r: "r = (v6, fam)" by fastforce
    from Some r have inv: "packable fam" "data ! lp = wire_family fam" "tcp \<or> fam = AF_INET \<or> fam = AF_INET6"
      using unpack_family_inv [of tcp "data ! lp" v6 fam] by simp_all
    show ?thesis
    proof (cases "lp + 35 + addr_len fam \<le> length data")
      case fits: True
      have "unpack_loop nodes max_num data tcp num lp =
         unpack_loop (nodes[num := unpack_read data lp fam (addr_len fam) (nodes ! num)]) max_num data tcp
           (Suc num) (lp + 35 + addr_len fam)"
        using Some r fits unpack_loop_step [OF conjunct1 [OF True] conjunct2 [OF True], of nodes tcp]
        by simp
      then show ?thesis using step [of fam] True inv fits by blast
    next
      case False
      then have "unpack_loop nodes max_num data tcp num lp = (nodes, None)"
        using True Some r unpack_loop_step [of num max_num lp data nodes tcp] by simp
      then show ?thesis using fail True by blast
    qed
  qed
qed

lemma update_node_ok:
  assumes "\<forall>n\<in>set nodes. node_ok n" and "num < length nodes" and "lp + 35 + addr_len fam \<le> length data"
  shows "\<forall>n\<in>set (nodes[num := unpack_read data lp fam (addr_len fam) (nodes ! num)]). node_ok n"
proof -
  have "node_ok (unpack_read data lp fam (addr_len fam) (nodes ! num))"
    using assms by (intro unpack_read_ok) auto
  with assms(1) show ?thesis using set_update_subset_insert by (metis insert_iff subsetD)
qed

lemma unpack_loop_frame:
  assumes "\<forall>n\<in>set nodes. node_ok n" and "max_num \<le> length nodes"
    and "nodes' = fst (unpack_loop nodes max_num data tcp num lp)"
  shows "length nodes' = length nodes \<and> (\<forall>n\<in>set nodes'. node_ok n) \<and>
    (\<forall>i<length nodes. i < num \<or> max_num \<le> i \<longrightarrow> nodes' ! i = nodes ! i)"
  using assms
proof (induction "max_num - num" arbitrary: nodes num lp rule: less_induct)
  case less
  show ?case
  proof (rule unpack_loop_cases [of num max_num lp data nodes tcp])
    fix fam
    let ?ns = "nodes[num := unpack_read data lp fam (addr_len fam) (nodes ! num)]"
    assume c: "num < max_num" "lp < length data" "lp + 35 + addr_len fam \<le> length data"
      and eq: "unpack_loop nodes max_num data tcp num lp = unpack_loop ?ns max_num data tcp (Suc num) (lp + 35 + addr_len fam)"
    have ok: "\<forall>n\<in>set ?ns. node_ok n" using less.prems c by (intro update_node_ok) auto
    have "length nodes' = length ?ns \<and> (\<forall>n\<in>set nodes'. node_ok n) \<and>
        (\<forall>i<length ?ns. i < Suc num \<or> max_num \<le> i \<longrightarrow> nodes' ! i = ?ns ! i)"
    proof (rule less.hyps)
      show "max_num - Suc num < max_num - num" using c by simp
      show "\<forall>n\<in>set ?ns. node_ok n" by (rule ok)
      show "max_num \<le> length ?ns" using less.prems by simp
      show "nodes' = fst (unpack_loop ?ns max_num data tcp (Suc num) (lp + 35 + addr_len fam))"
        using less.prems eq by simp
    qed
    then show ?thesis using c by auto
  qed (use less.prems in auto)
qed

lemma unpack_loop_sound:
  assumes "\<forall>n\<in>set nodes. node_ok n" and "max_num \<le> length nodes" and "lp \<le> length data" and "num \<le> max_num"
    and "unpack_loop nodes max_num data tcp num lp = (nodes', Some (num', lp'))"
  shows "num' \<le> max_num \<and> unpack_spec data tcp num lp nodes' num' lp'"
  using assms
proof (induction "max_num - num" arbitrary: nodes num lp rule: less_induct)
  case less
  show ?case
  proof (rule unpack_loop_cases [of num max_num lp data nodes tcp])
    fix fam
    let ?n = "unpack_read data lp fam (addr_len fam) (nodes ! num)"
    let ?ns = "nodes[num := ?n]" and ?lp = "lp + 35 + addr_len fam"
    assume c: "num < max_num" "lp < length data" "?lp \<le> length data" and fam: "data ! lp = wire_family fam"
      "packable fam" "tcp \<or> fam = AF_INET \<or> fam = AF_INET6"
      and eq: "unpack_loop nodes max_num data tcp num lp = unpack_loop ?ns max_num data tcp (Suc num) ?lp"
    have ok: "\<forall>n\<in>set ?ns. node_ok n" using less.prems c by (intro update_node_ok) auto
    have IH: "num' \<le> max_num \<and> unpack_spec data tcp (Suc num) ?lp nodes' num' lp'"
      using less.hyps [of "Suc num" ?ns ?lp] ok less.prems c eq by auto
    have fr: "length nodes' = length nodes" "nodes' ! num = ?n"
      using unpack_loop_frame [OF ok, of max_num nodes' data tcp "Suc num" ?lp] less.prems c eq by auto
    have num': "num' - num = Suc (num' - Suc num)" using IH by (auto simp: unpack_spec_def)
    have lp': "lp' - lp = (35 + addr_len fam) + (lp' - ?lp)" using IH by (auto simp: unpack_spec_def)
    have split: "read_at nodes' num (num' - num) = ?n # read_at nodes' (Suc num) (num' - Suc num)"
      using fr less.prems(2) c read_at_Cons [of num nodes'] unfolding num' by simp
    have n: "node_bytes ?n = read_at data lp (35 + addr_len fam)"
      using less.prems c fam by (intro unpack_read_bytes) auto
    have "read_at data lp (lp' - lp) = node_bytes ?n @ read_at data ?lp (lp' - ?lp)"
      unfolding lp' read_at_join n by (simp add: add.assoc)
    moreover have "node_family ?n = fam" by (simp add: unpack_read_def)
    ultimately show ?thesis using IH split fam by (auto simp: unpack_spec_def)
  qed (use less.prems in \<open>auto simp: unpack_spec_def read_at_def\<close>)
qed

text \<open>The loop accepts every encoding of nodes that fit the caller's array.\<close>

lemma unpack_loop_complete:
  assumes "\<forall>n\<in>set ns. node_ok n \<and> packable (node_family n) \<and> (tcp \<or> node_family n = AF_INET \<or> node_family n = AF_INET6)"
    and "num + length ns \<le> max_num" and "drop lp data = nodes_bytes ns" and "lp \<le> length data"
  shows "\<exists>nodes'. unpack_loop nodes max_num data tcp num lp = (nodes', Some (num + length ns, length data))"
  using assms
proof (induction ns arbitrary: nodes num lp)
  case Nil
  then show ?case by (simp add: unpack_loop_done)
next
  case (Cons n ns)
  have nb: "length (node_bytes n) = 35 + addr_len (node_family n)" using Cons.prems by (simp add: node_bytes_length)
  have len: "length data - lp = length (node_bytes n) + length (nodes_bytes ns)"
    using arg_cong [OF Cons.prems(3), of length] by simp
  then have lp: "lp < length data" using nb by simp
  have hd: "data ! lp = wire_family (node_family n)"
    using arg_cong [OF Cons.prems(3), of hd] lp by (simp add: hd_drop_conv_nth node_bytes_def)
  have u: "unpack_family tcp (data ! lp) = Some (addr_len (node_family n) = 16, node_family n)"
    using Cons.prems(1) hd unpack_family_eq [of "node_family n"] by auto
  have "drop (lp + 35 + addr_len (node_family n)) data = drop (length (node_bytes n)) (drop lp data)"
    using nb by (simp add: add.commute add.left_commute)
  then have rest: "drop (lp + 35 + addr_len (node_family n)) data = nodes_bytes ns" using Cons.prems(3) by simp
  have "lp + 35 + addr_len (node_family n) \<le> length data" using len nb lp by linarith
  then show ?case
    using Cons.IH [of "Suc num" "lp + 35 + addr_len (node_family n)"] Cons.prems rest lp u
      unpack_loop_step [of num max_num lp data nodes tcp] by simp
qed

lemma node_bytes_append_inj:
  assumes "node_ok n" "node_ok m" "packable (node_family n)" "packable (node_family m)"
    and eq: "node_bytes n @ xs = node_bytes m @ ys"
  shows "same_node n m \<and> xs = ys"
proof -
  have "wire_family (node_family n) = wire_family (node_family m)"
    using arg_cong [OF eq, of hd] by (simp add: node_bytes_def)
  then have "node_family n = node_family m" using assms(3,4) wire_family_inj by blast
  then have "length (node_bytes n) = length (node_bytes m)" using assms(1,2) by (simp add: node_bytes_length)
  with eq have "node_bytes n = node_bytes m" "xs = ys" by simp_all
  then show ?thesis using assms node_bytes_inj by blast
qed

lemma nodes_bytes_inj:
  assumes "\<forall>n\<in>set ns. node_ok n \<and> packable (node_family n)" and "\<forall>n\<in>set ms. node_ok n \<and> packable (node_family n)"
    and "nodes_bytes ns = nodes_bytes ms"
  shows "list_all2 same_node ns ms"
  using assms
proof (induction ns arbitrary: ms)
  case Nil
  then show ?case by (cases ms) (auto simp: node_bytes_def)
next
  case (Cons n ns)
  then obtain m ms' where ms: "ms = m # ms'" by (cases ms) (auto simp: node_bytes_def)
  with Cons.prems have "same_node n m \<and> nodes_bytes ns = nodes_bytes ms'"
    by (intro node_bytes_append_inj) auto
  then show ?case using Cons.IH [of ms'] Cons.prems ms by auto
qed

text \<open>Unpacking the encodings of nodes gives the nodes back, into any large enough array.\<close>

lemma unpack_nodes_bytes:
  assumes ns: "\<forall>n\<in>set ns. node_ok n \<and> packable (node_family n) \<and> (tcp \<or> node_family n = AF_INET \<or> node_family n = AF_INET6)"
    and out: "\<forall>n\<in>set out. node_ok n" "length ns \<le> max_num" "max_num \<le> length out"
  obtains out' where "unpack_nodes out max_num (nodes_bytes ns) tcp = (out', Some (length ns, length (nodes_bytes ns)))"
    "list_all2 same_node (take (length ns) out') ns" "\<forall>n\<in>set out'. node_ok n" "length out' = length out"
proof -
  have "\<exists>out'. unpack_nodes out max_num (nodes_bytes ns) tcp = (out', Some (0 + length ns, length (nodes_bytes ns)))"
    unfolding unpack_nodes_def using ns out(2) by (intro unpack_loop_complete) auto
  then obtain out' where u: "unpack_nodes out max_num (nodes_bytes ns) tcp = (out', Some (length ns, length (nodes_bytes ns)))" by auto
  have "unpack_spec (nodes_bytes ns) tcp 0 0 out' (length ns) (length (nodes_bytes ns))"
    using u unpack_loop_sound [of out max_num 0 "nodes_bytes ns" 0 tcp out' "length ns" "length (nodes_bytes ns)"] out(1,3)
    by (simp add: unpack_nodes_def)
  then have bytes: "nodes_bytes (take (length ns) out') = nodes_bytes ns"
    and fam: "\<forall>n\<in>set (take (length ns) out'). packable (node_family n)"
    by (auto simp: unpack_spec_def read_at_def)
  have fr: "\<forall>n\<in>set out'. node_ok n" "length out' = length out"
    using unpack_loop_frame [OF out(1,3), of out' "nodes_bytes ns" tcp 0 0] u by (simp_all add: unpack_nodes_def)
  then have "list_all2 same_node (take (length ns) out') ns"
    using fam bytes ns by (intro nodes_bytes_inj) (auto dest: in_set_takeD)
  with u fr that show ?thesis by blast
qed

section \<open>Properties\<close>

text \<open>
  \<open>pack_nodes\<close> succeeds exactly when every node has one of the four families and the
  encodings fit the length given; it then writes the encodings one after the other, from
  the start of the buffer, returns their total length and leaves the rest of the buffer alone.
\<close>

theorem pack_nodes_writes:
  assumes "\<forall>n\<in>set ns. node_ok n" and "len \<le> length data"
  shows "pack_nodes data len ns =
    (if (\<forall>n\<in>set ns. packable (node_family n)) \<and> length (nodes_bytes ns) \<le> len
     then (memcpy_at data 0 (nodes_bytes ns), Some (length (nodes_bytes ns)))
     else (fst (pack_nodes data len ns), None))"
  using assms pack_loop_ok [of ns 0 len data] pack_loop_fail [of ns len data 0]
  by (auto simp: pack_nodes_def prod_eq_iff)

definition sample_node :: Node_format where
  "sample_node = \<lparr>nf_public_key = replicate 32 1,
     nf_ip_port = \<lparr>ipp_ip = \<lparr>ip_family = 2, ip_addr = [127, 0, 0, 1] @ replicate 12 0\<rparr>, ipp_port = 33445\<rparr>\<rparr>"

definition sample_tcp_node :: Node_format where
  "sample_tcp_node = \<lparr>nf_public_key = replicate 32 7,
     nf_ip_port = \<lparr>ipp_ip = \<lparr>ip_family = 13, ip_addr = 32 # replicate 14 0 @ [1]\<rparr>, ipp_port = 443\<rparr>\<rparr>"

lemma sample_ok: "node_ok sample_node" "node_ok sample_tcp_node" "node_ok node_zero"
  by (simp_all add: sample_node_def sample_tcp_node_def node_zero_def ipport_zero_def ip_zero_def node_ok_def ip_ok_def)

theorem pack_nodes_writes_witness:
  "snd (pack_nodes (replicate 100 0) 90 [sample_node, sample_tcp_node]) = Some 90 \<and>
   snd (pack_nodes (replicate 100 0) 89 [sample_node, sample_tcp_node]) = None"
  using pack_nodes_writes [of "[sample_node, sample_tcp_node]" 90 "replicate 100 0"]
    pack_nodes_writes [of "[sample_node, sample_tcp_node]" 89 "replicate 100 0"]
  by (simp add: sample_node_def sample_tcp_node_def node_ok_def ip_ok_def packable_def node_bytes_length node_bytes_def
      addr_len_def wire_family_def prod_eq_iff)

text \<open>
  C28. Round trip: what \<open>pack_nodes\<close> wrote, \<open>unpack_nodes\<close> reads back, node by node, into any
  large enough array, with TCP nodes enabled; it processes the whole packed length.
\<close>

theorem unpack_pack_nodes:
  assumes "\<forall>n\<in>set ns. node_ok n" and "len \<le> length data"
    and "pack_nodes data len ns = (data', Some k)"
    and "\<forall>n\<in>set out. node_ok n" and "length ns \<le> max_num" and "max_num \<le> length out"
  shows "\<exists>out'. unpack_nodes out max_num (take k data') True = (out', Some (length ns, k)) \<and>
    list_all2 same_node (take (length ns) out') ns"
proof -
  have ok: "\<forall>n\<in>set ns. packable (node_family n)" and fits: "length (nodes_bytes ns) \<le> len"
    using assms(1-3) pack_loop_fail [of ns len data 0] by (force simp: pack_nodes_def)+
  then have d: "data' = memcpy_at data 0 (nodes_bytes ns)" and k: "k = length (nodes_bytes ns)"
    using assms(1-3) pack_loop_ok [of ns 0 len data] by (auto simp: pack_nodes_def)
  have input: "take k data' = nodes_bytes ns" by (simp add: d k memcpy_at_def)
  have pre: "\<forall>n\<in>set ns. node_ok n \<and> packable (node_family n) \<and> (True \<or> node_family n = AF_INET \<or> node_family n = AF_INET6)"
    using assms(1) ok by simp
  obtain out' where "unpack_nodes out max_num (nodes_bytes ns) True = (out', Some (length ns, length (nodes_bytes ns)))"
      "list_all2 same_node (take (length ns) out') ns"
    by (rule unpack_nodes_bytes [OF pre assms(4-6)])
  then show ?thesis using input k by metis
qed

theorem unpack_pack_nodes_witness:
  "\<exists>out'. unpack_nodes (replicate 4 node_zero) 4 (take 90 (fst (pack_nodes (replicate 100 0) 95 [sample_node, sample_tcp_node])))
     True = (out', Some (2, 90)) \<and> list_all2 same_node (take 2 out') [sample_node, sample_tcp_node]"
proof -
  have "pack_nodes (replicate 100 0) 95 [sample_node, sample_tcp_node] =
      (fst (pack_nodes (replicate 100 0) 95 [sample_node, sample_tcp_node]), Some 90)"
    by (simp add: pack_nodes_def sample_node_def sample_tcp_node_def pack_family_def)
  then show ?thesis
    using unpack_pack_nodes [of "[sample_node, sample_tcp_node]" 95 "replicate 100 0"
        "fst (pack_nodes (replicate 100 0) 95 [sample_node, sample_tcp_node])" 90 "replicate 4 node_zero" 4]
    by (simp add: sample_ok numeral_2_eq_2)
qed

text \<open>
  C31. \<open>unpack_nodes\<close> on arbitrary input: it never yields more nodes than the array was given
  for nor reads past the input, cells beyond the limit are untouched, and on success packing the
  nodes again gives exactly the processed bytes; without \<open>tcp_enabled\<close> no TCP node appears.
\<close>

theorem unpack_nodes_sound:
  assumes "\<forall>n\<in>set out. node_ok n" and "max_num \<le> length out"
    and "unpack_nodes out max_num data tcp = (out', Some (num, processed))"
  shows "num \<le> max_num \<and> processed \<le> length data \<and> length out' = length out \<and>
    drop max_num out' = drop max_num out \<and>
    pack_nodes (replicate processed 0) processed (take num out') = (take processed data, Some processed) \<and>
    (\<not> tcp \<longrightarrow> (\<forall>n\<in>set (take num out'). node_family n = AF_INET \<or> node_family n = AF_INET6))"
proof -
  have frame: "length out' = length out" "\<forall>n\<in>set out'. node_ok n" "\<forall>i<length out. max_num \<le> i \<longrightarrow> out' ! i = out ! i"
    using unpack_loop_frame [OF assms(1,2), of out' data tcp 0 0] assms(3) by (auto simp: unpack_nodes_def)
  have s: "num \<le> max_num" "unpack_spec data tcp 0 0 out' num processed"
    using unpack_loop_sound [OF assms(1,2), of 0 data 0 tcp out' num processed] assms(3)
    by (auto simp: unpack_nodes_def)
  then have b: "nodes_bytes (take num out') = take processed data" "processed \<le> length data"
    and f: "\<forall>n\<in>set (take num out'). packable (node_family n) \<and> (tcp \<or> node_family n = AF_INET \<or> node_family n = AF_INET6)"
    by (auto simp: unpack_spec_def read_at_def)
  have "pack_nodes (replicate processed 0) processed (take num out') =
      (memcpy_at (replicate processed 0) 0 (take processed data), Some processed)"
    using pack_loop_ok [of "take num out'" 0 processed "replicate processed 0"] b f frame(2)
    by (auto simp: pack_nodes_def dest: in_set_takeD)
  moreover have "drop max_num out' = drop max_num out"
    using frame by (intro nth_equalityI) auto
  ultimately show ?thesis using s b f frame(1) by (auto simp: memcpy_at_def)
qed

theorem unpack_nodes_sound_witness:
  "pack_nodes (replicate 39 0) 39 (take 1 (fst (unpack_nodes [node_zero] 1 (node_bytes sample_node @ [9, 9]) False))) =
     (take 39 (node_bytes sample_node @ [9, 9]), Some 39)"
proof -
  have "length (node_bytes sample_node) = 39" by (simp add: sample_node_def node_bytes_def addr_len_def)
  moreover have "(node_bytes sample_node @ [9, 9]) ! 0 = TOX_AF_INET"
    by (simp add: sample_node_def node_bytes_def addr_len_def wire_family_def)
  ultimately have "snd (unpack_nodes [node_zero] 1 (node_bytes sample_node @ [9, 9]) False) = Some (1, 39)"
    by (simp add: unpack_nodes_def unpack_loop_step unpack_loop_done unpack_family_def addr_len_def)
  then have u: "unpack_nodes [node_zero] 1 (node_bytes sample_node @ [9, 9]) False =
      (fst (unpack_nodes [node_zero] 1 (node_bytes sample_node @ [9, 9]) False), Some (1, 39))"
    by (metis prod.collapse)
  have "\<forall>n\<in>set [node_zero]. node_ok n" "(1::nat) \<le> length [node_zero]" by (simp_all add: sample_ok)
  from unpack_nodes_sound [OF this u] show ?thesis by blast
qed

end
