(* ===== verification/DHT_Distance.thy ===== *)
theory DHT_Distance
  imports Node_Format "HOL-Library.Multiset"
begin

text \<open>
  The XOR metric of the DHT and the list that keeps the closest nodes
  (\<open>toxcore/DHT.c\<close>: \<open>id_closest\<close>, \<open>bit_by_bit_cmp\<close>, \<open>add_to_list\<close>,
  \<open>client_in_nodelist\<close>). The byte loops are compared with the metric as a number, and the
  recursive \<open>add_to_list\<close> is shown to terminate and to keep exactly the closest entries.
\<close>

abbreviation "CRYPTO_PUBLICKEYBYTES \<equiv> (32::nat)"

section \<open>The loops of the source\<close>

text \<open>The loop over the bytes of three keys; the return value \<open>0\<close>, \<open>1\<close> or \<open>2\<close>.\<close>

fun id_closest :: "bytes \<Rightarrow> bytes \<Rightarrow> bytes \<Rightarrow> nat" where
  "id_closest (p # pk) (a # pk1) (b # pk2) =
     (let distance1 = p XOR a; distance2 = p XOR b
      in if distance1 < distance2 then 1
         else if distance1 > distance2 then 2
         else id_closest pk pk1 pk2)"
| "id_closest _ _ _ = 0"

text \<open>The inner loop over \<open>j\<close>, counting down \<open>k = 8 - j\<close>.\<close>

fun first_unequal_bit :: "u8 \<Rightarrow> u8 \<Rightarrow> nat \<Rightarrow> nat" where
  "first_unequal_bit a b 0 = 8"
| "first_unequal_bit a b (Suc k) =
     (if (a AND push_bit k 1) \<noteq> (b AND push_bit k 1) then 8 - Suc k else first_unequal_bit a b k)"

fun bit_by_bit_loop :: "nat \<Rightarrow> bytes \<Rightarrow> bytes \<Rightarrow> nat" where
  "bit_by_bit_loop i (a # pk1) (b # pk2) =
     (if a = b then bit_by_bit_loop (Suc i) pk1 pk2 else i * 8 + first_unequal_bit a b 8)"
| "bit_by_bit_loop i _ _ = i * 8"

definition bit_by_bit_cmp :: "bytes \<Rightarrow> bytes \<Rightarrow> nat" where
  "bit_by_bit_cmp pk1 pk2 = bit_by_bit_loop 0 pk1 pk2"

section \<open>The metric\<close>

definition key_dist :: "bytes \<Rightarrow> bytes \<Rightarrow> nat" where
  "key_dist c x = be_val (map2 (XOR) c x)"

lemma be_val_Cons: "be_val (b # bs) = unat b * 256 ^ length bs + be_val bs"
proof -
  have app: "le_val (xs @ [b]) = le_val xs + 256 ^ length xs * unat b" for xs
    by (induction xs) (auto simp: algebra_simps)
  show ?thesis by (simp add: be_val_def app)
qed

lemma be_val_Cons_less:
  assumes "a < b" and "length as = length bs"
  shows "be_val (a # as) < be_val (b # bs)"
proof -
  have "unat a + 1 \<le> unat b" using assms(1) by (simp add: word_less_nat_alt)
  then have "(unat a + 1) * 256 ^ length as \<le> unat b * 256 ^ length bs"
    using assms(2) mult_le_mono1 [of "unat a + 1" "unat b" "256 ^ length bs"] by simp
  with be_val_bound [of as] show ?thesis by (simp add: be_val_Cons)
qed

lemma key_dist_Cons:
  "key_dist (p # c) (a # x) = be_val ((p XOR a) # map2 (XOR) c x)"
  by (simp add: key_dist_def)

lemma id_closest_cases:
  assumes "length x = length c" and "length y = length c"
  shows "id_closest c x y =
    (if key_dist c x < key_dist c y then 1 else if key_dist c y < key_dist c x then 2 else 0)"
  using assms
proof (induction c x y rule: id_closest.induct)
  case (1 p pk a pk1 b pk2)
  have l: "length (map2 (XOR) pk pk1) = length (map2 (XOR) pk pk2)" using "1.prems" by simp
  consider "p XOR a < p XOR b" | "p XOR b < p XOR a" | "p XOR a = p XOR b" by fastforce
  then show ?case
  proof cases
    case 1
    then show ?thesis using be_val_Cons_less [OF 1 l] by (auto simp: key_dist_Cons Let_def)
  next
    case 2
    then show ?thesis using be_val_Cons_less [OF 2 l [symmetric]] by (auto simp: key_dist_Cons Let_def)
  next
    case 3
    then show ?thesis using "1.IH" "1.prems" l by (auto simp: key_dist_Cons be_val_Cons key_dist_def)
  qed
qed (auto simp: key_dist_def)

lemma be_val_inj: "length xs = length ys \<Longrightarrow> be_val xs = be_val ys \<Longrightarrow> xs = ys"
  by (metis bytes_be_be_val)

lemma xor_left_cancel: "(p XOR a = p XOR b) = (a = b)" for p a b :: u8
proof
  assume "p XOR a = p XOR b"
  then have "p XOR (p XOR a) = p XOR (p XOR b)" by simp
  then show "a = b" by (simp add: xor.assoc [symmetric])
qed simp

lemma map2_xor_inj:
  "length x = length c \<Longrightarrow> length y = length c \<Longrightarrow> map2 (XOR) c x = map2 (XOR) c y \<Longrightarrow> x = (y :: bytes)"
proof (induction c arbitrary: x y)
  case (Cons p c)
  from Cons.prems obtain a x' where x: "x = a # x'" "length x' = length c" by (cases x) auto
  from Cons.prems obtain b y' where y: "y = b # y'" "length y' = length c" by (cases y) auto
  have "a = b" using Cons.prems(3) by (simp add: x y xor_left_cancel)
  moreover have "map2 (XOR) c x' = map2 (XOR) c y'" using Cons.prems(3) by (simp add: x y)
  ultimately show ?case using Cons.IH [of x' y'] x y by simp
qed simp

lemma key_dist_inj:
  assumes "length x = length c" "length y = length c" and "key_dist c x = key_dist c y"
  shows "x = y"
proof -
  have "map2 (XOR) c x = map2 (XOR) c y" using assms by (intro be_val_inj) (simp_all add: key_dist_def)
  then show ?thesis using assms(1,2) map2_xor_inj by blast
qed

lemma key_dist_self: "key_dist c c = 0"
proof -
  have "map2 (XOR) c c = replicate (length c) 0" by (induction c) auto
  moreover have "be_val (replicate n 0) = 0" for n by (induction n) (simp_all add: be_val_Cons, simp add: be_val_def)
  ultimately show ?thesis by (simp add: key_dist_def)
qed

lemma key_dist_sym: "key_dist c x = key_dist x c"
proof -
  have "map2 (XOR) c x = map2 (XOR) x c"
    by (induction c x rule: list_induct2') (auto simp: xor.commute)
  then show ?thesis by (simp add: key_dist_def)
qed

section \<open>The bucket index\<close>

text \<open>
  \<open>bit_by_bit_cmp\<close> is the number of leading bits two keys share: the distance lies between
  the powers of two that this number names.
\<close>

lemma and_push_bit_eq:
  "k < 8 \<Longrightarrow> (a AND push_bit k 1 = b AND push_bit k 1) \<longleftrightarrow> (bit a k = bit b k)" for a b :: u8
proof
  assume k: "k < 8" and "a AND push_bit k 1 = b AND push_bit k 1"
  then have "bit (a AND push_bit k 1) k = bit (b AND push_bit k 1) k" by simp
  then show "bit a k = bit b k" using k by (simp add: bit_simps)
next
  assume "k < 8" and "bit a k = bit b k"
  then show "a AND push_bit k 1 = b AND push_bit k 1"
    by (intro bit_word_eqI) (auto simp: bit_simps)
qed

lemma first_unequal_bit_bounds:
  assumes "k \<le> 8" and "a \<noteq> b" and "\<forall>i<8. k \<le> i \<longrightarrow> bit a i = bit b i"
  shows "8 - k \<le> first_unequal_bit a b k \<and> first_unequal_bit a b k < 8 \<and>
    (\<forall>i<8. 8 - first_unequal_bit a b k \<le> i \<longrightarrow> bit a i = bit b i) \<and>
    bit a (7 - first_unequal_bit a b k) \<noteq> bit b (7 - first_unequal_bit a b k)"
  using assms
proof (induction k)
  case 0
  then have "a = b" by (intro bit_word_eqI) simp
  with 0 show ?case by simp
next
  case (Suc k)
  show ?case
  proof (cases "bit a k = bit b k")
    case True
    then have "\<forall>i<8. k \<le> i \<longrightarrow> bit a i = bit b i"
      using Suc.prems(3) by (metis le_neq_implies_less Suc_leI)
    then show ?thesis using Suc True and_push_bit_eq [of k a b] by auto
  next
    case False
    then have "first_unequal_bit a b (Suc k) = 7 - k" using Suc.prems and_push_bit_eq [of k a b] by simp
    then show ?thesis using Suc.prems False by auto
  qed
qed

lemma unat_xor_bounds:
  fixes a b :: u8
  assumes "j < 8" and "\<forall>i<8. 8 - j \<le> i \<longrightarrow> bit a i = bit b i" and "bit a (7 - j) \<noteq> bit b (7 - j)"
  shows "2 ^ (7 - j) \<le> unat (a XOR b) \<and> unat (a XOR b) < 2 ^ (8 - j)"
proof
  let ?d = "unat (a XOR b)"
  have bits: "bit ?d i = (i < 8 \<and> bit a i \<noteq> bit b i)" for i
    by (auto simp: bit_unsigned_iff bit_simps dest: bit_imp_le_length)
  have "take_bit (8 - j) ?d = ?d"
    by (rule bit_eqI) (use assms(2) in \<open>auto simp: bit_take_bit_iff bits not_less [symmetric]\<close>)
  then show "?d < 2 ^ (8 - j)" by (metis take_bit_nat_less_exp)
  have "bit ?d (7 - j)" using assms(1,3) by (simp add: bits)
  then have "?d div 2 ^ (7 - j) \<noteq> 0" by (metis bit_iff_odd even_zero)
  then show "2 ^ (7 - j) \<le> ?d" by (metis div_less linorder_not_less)
qed

lemma pow_256: "(256::nat) ^ n = 2 ^ (8 * n)"
  by (simp add: power_mult)

lemma bit_by_bit_loop_dist:
  assumes "length x = length y"
  shows "let r = bit_by_bit_loop i x y - 8 * i
    in 8 * i \<le> bit_by_bit_loop i x y \<and> r \<le> 8 * length x \<and> key_dist x y < 2 ^ (8 * length x - r) \<and>
       (x \<noteq> y \<longrightarrow> r < 8 * length x \<and> 2 ^ (8 * length x - r - 1) \<le> key_dist x y)"
  using assms
proof (induction x y arbitrary: i rule: list_induct2)
  case Nil
  then show ?case by (simp add: key_dist_def be_val_def)
next
  case (Cons a x b y)
  show ?case
  proof (cases "a = b")
    case True
    then have "key_dist (a # x) (b # y) = key_dist x y"
      by (simp add: key_dist_Cons be_val_Cons) (simp add: key_dist_def)
    moreover define r where "r = bit_by_bit_loop (Suc i) x y - 8 * Suc i"
    moreover have "8 * Suc i \<le> bit_by_bit_loop (Suc i) x y" using Cons.IH [of "Suc i"] by (simp add: Let_def)
    ultimately show ?thesis using Cons.IH [of "Suc i"] True by (auto simp: Let_def algebra_simps)
  next
    case False
    define j where "j = first_unequal_bit a b 8"
    define n where "n = length x"
    have j: "j < 8" "\<forall>i<8. 8 - j \<le> i \<longrightarrow> bit a i = bit b i" "bit a (7 - j) \<noteq> bit b (7 - j)"
      using first_unequal_bit_bounds [of 8 a b] False by (auto simp: j_def)
    let ?d = "unat (a XOR b)"
    have d: "2 ^ (7 - j) \<le> ?d" "?d < 2 ^ (8 - j)" using unat_xor_bounds [OF j] by auto
    have n: "key_dist (a # x) (b # y) = ?d * 256 ^ n + be_val (map2 (XOR) x y)"
      using Cons.hyps by (simp add: key_dist_Cons be_val_Cons n_def)
    have b: "be_val (map2 (XOR) x y) < 256 ^ n"
      using be_val_bound [of "map2 (XOR) x y"] Cons.hyps by (simp add: n_def)
    have "(?d + 1) * 256 ^ n \<le> 2 ^ (8 - j) * 256 ^ n" using d(2) by (intro mult_le_mono1) simp
    then have up: "key_dist (a # x) (b # y) < 2 ^ (8 * Suc n - j)"
      using b n j(1) by (simp add: pow_256 power_add [symmetric] algebra_simps)
    have "2 ^ (7 - j) * 256 ^ n \<le> ?d * 256 ^ n" using d(1) by (intro mult_le_mono1)
    then have lo: "2 ^ (8 * Suc n - j - 1) \<le> key_dist (a # x) (b # y)"
      using n j(1) by (simp add: pow_256 power_add [symmetric] algebra_simps)
    have "bit_by_bit_loop i (a # x) (b # y) - 8 * i = j" using False by (simp add: j_def)
    then show ?thesis using up lo False j(1) by (auto simp: Let_def n_def)
  qed
qed

section \<open>Keeping the closest nodes\<close>

text \<open>\<open>client_in_nodelist\<close>: the loop over the whole array.\<close>

fun client_in_nodelist :: "Node_format list \<Rightarrow> bytes \<Rightarrow> bool" where
  "client_in_nodelist [] pk = False"
| "client_in_nodelist (n # ns) pk = (if id_equal (nf_public_key n) pk then True else client_in_nodelist ns pk)"

text \<open>The loop of \<open>add_to_list\<close> up to the first node that \<open>pk\<close> is closer than.\<close>

fun first_further :: "bytes \<Rightarrow> Node_format list \<Rightarrow> bytes \<Rightarrow> nat option" where
  "first_further cmp_pk [] pk = None"
| "first_further cmp_pk (n # ns) pk =
     (if id_closest cmp_pk (nf_public_key n) pk = 2 then Some 0 else map_option Suc (first_further cmp_pk ns pk))"

lemma first_further_Some:
  "first_further c ns pk = Some i \<Longrightarrow>
   i < length ns \<and> id_closest c (nf_public_key (ns ! i)) pk = 2 \<and> (\<forall>j<i. id_closest c (nf_public_key (ns ! j)) pk \<noteq> 2)"
proof (induction ns arbitrary: i)
  case (Cons n ns)
  then show ?case by (cases i) (auto simp: nth_Cons split: if_splits nat.splits)
qed simp

lemma first_further_None:
  "first_further c ns pk = None \<longleftrightarrow> (\<forall>n\<in>set ns. id_closest c (nf_public_key n) pk \<noteq> 2)"
  by (induction ns) auto

text \<open>
  A distance for keys of any length, used only for the termination of \<open>add_to_list\<close>:
  each recursive call moves a strictly further node.
\<close>

fun dist_pad :: "bytes \<Rightarrow> bytes \<Rightarrow> nat" where
  "dist_pad (p # c) (a # x) = unat (p XOR a) * 256 ^ length c + dist_pad c x"
| "dist_pad _ _ = 0"

lemma dist_pad_bound: "dist_pad c x < 256 ^ length c"
proof (induction c x rule: dist_pad.induct)
  case (1 p c a x)
  have "unat (p XOR a) + 1 \<le> 256" using unat_u8_bound [of "p XOR a"] by simp
  then have "(unat (p XOR a) + 1) * 256 ^ length c \<le> 256 * 256 ^ length c" by (rule mult_le_mono1)
  then have "unat (p XOR a) * 256 ^ length c + 256 ^ length c \<le> 256 ^ length (p # c)"
    by (simp only: distrib_right mult_1 list.size power_add power_one_right mult.commute) simp
  moreover have "dist_pad (p # c) (a # x) < unat (p XOR a) * 256 ^ length c + 256 ^ length c" using 1 by simp
  ultimately show ?case by (rule less_le_trans [rotated])
qed auto

lemma id_closest_2_dist_pad: "id_closest c x y = 2 \<Longrightarrow> dist_pad c y < dist_pad c x"
proof (induction c x y rule: id_closest.induct)
  case (1 p c a x b y)
  show ?case
  proof (cases "p XOR b < p XOR a")
    case True
    then have "unat (p XOR b) + 1 \<le> unat (p XOR a)" by (simp add: word_less_nat_alt)
    then have "(unat (p XOR b) + 1) * 256 ^ length c \<le> unat (p XOR a) * 256 ^ length c" by (rule mult_le_mono1)
    then show ?thesis using dist_pad_bound [of c y] by simp
  next
    case False
    with 1(2) have "p XOR a = p XOR b" by (auto simp: Let_def split: if_splits)
    with 1 show ?thesis by (simp add: Let_def)
  qed
qed auto

function add_to_list :: "Node_format list \<Rightarrow> bytes \<Rightarrow> IP_Port \<Rightarrow> bytes \<Rightarrow> Node_format list \<times> bool" where
  "add_to_list nodes_list pk ip_port cmp_pk =
     (case first_further cmp_pk nodes_list pk of
        None \<Rightarrow> (nodes_list, False)
      | Some i \<Rightarrow>
          let bak = nodes_list ! i;
              nodes_list' = nodes_list[i := \<lparr>nf_public_key = pk, nf_ip_port = ip_port\<rparr>]
          in if i \<noteq> length nodes_list - 1
             then (fst (add_to_list nodes_list' (nf_public_key bak) (nf_ip_port bak) cmp_pk), True)
             else (nodes_list', True))"
  by pat_completeness auto
termination
proof (relation "measure (\<lambda>(ns, pk, ip, c). sum_list (map (\<lambda>n. dist_pad c (nf_public_key n)) ns))")
  fix ns pk ip c i bak ns'
  assume "first_further c ns pk = Some i" "bak = ns ! i" and ns': "ns' = ns[i := \<lparr>nf_public_key = pk, nf_ip_port = ip\<rparr>]"
  then have i: "i < length ns" and d: "dist_pad c pk < dist_pad c (nf_public_key (ns ! i))"
    using first_further_Some id_closest_2_dist_pad by blast+
  let ?f = "\<lambda>n. dist_pad c (nf_public_key n)"
  have "sum_list (map ?f ns') + ?f (ns ! i) = sum_list (map ?f ns) + dist_pad c pk"
    using i member_le_sum_list [of "?f (ns ! i)" "map ?f ns"] by (simp add: ns' map_update sum_list_update)
  with d show "((ns', nf_public_key bak, nf_ip_port bak, c), (ns, pk, ip, c)) \<in>
      measure (\<lambda>(ns, pk, ip, c). sum_list (map (\<lambda>n. dist_pad c (nf_public_key n)) ns))" by simp
qed simp

declare add_to_list.simps [simp del]

text \<open>
  What the recursion computes: one pass over the list that carries a node along and swaps
  it with each further one; the node carried at the end is the one dropped.
\<close>

abbreviation node_dist :: "bytes \<Rightarrow> Node_format \<Rightarrow> nat" where
  "node_dist c n \<equiv> key_dist c (nf_public_key n)"

fun carry :: "bytes \<Rightarrow> Node_format list \<Rightarrow> Node_format \<Rightarrow> Node_format list \<times> Node_format" where
  "carry c [] n = ([], n)"
| "carry c (m # ms) n =
     (if node_dist c n < node_dist c m then (n # fst (carry c ms m), snd (carry c ms m))
      else (m # fst (carry c ms n), snd (carry c ms n)))"

lemma carry_mset: "add_mset (snd (carry c ms n)) (mset (fst (carry c ms n))) = add_mset n (mset ms)"
proof (induction ms arbitrary: n)
  case (Cons m ms)
  then show ?case using Cons.IH [of m] Cons.IH [of n]
    by (simp add: add_mset_commute [of "snd _"])
qed simp

lemma carry_max:
  "node_dist c n \<le> node_dist c (snd (carry c ms n)) \<and>
   (\<forall>m\<in>set (fst (carry c ms n)). node_dist c m \<le> node_dist c (snd (carry c ms n)))"
proof (induction ms arbitrary: n)
  case (Cons m ms)
  show ?case using Cons.IH [of m] Cons.IH [of n] by (cases "node_dist c n < node_dist c m") auto
qed simp

lemma carry_append:
  "\<forall>m\<in>set pre. node_dist c m \<le> node_dist c n \<Longrightarrow>
   carry c (pre @ ms) n = (pre @ fst (carry c ms n), snd (carry c ms n))"
  by (induction pre) auto

definition key_len :: "bytes \<Rightarrow> Node_format list \<Rightarrow> bool" where
  "key_len c ns \<longleftrightarrow> (\<forall>n\<in>set ns. length (nf_public_key n) = length c)"

lemma node_eta: "\<lparr>nf_public_key = nf_public_key n, nf_ip_port = nf_ip_port n\<rparr> = (n :: Node_format)"
  by simp

lemma add_to_list_carry:
  assumes "key_len c ns" and "length pk = length c"
  shows "add_to_list ns pk ip c =
    (fst (carry c ns \<lparr>nf_public_key = pk, nf_ip_port = ip\<rparr>), \<exists>m\<in>set ns. key_dist c pk < node_dist c m)"
  using assms
proof (induction ns pk ip c rule: add_to_list.induct)
  case (1 ns pk ip c)
  let ?n = "\<lparr>nf_public_key = pk, nf_ip_port = ip\<rparr>"
  have closer: "id_closest c (nf_public_key m) pk = 2 \<longleftrightarrow> key_dist c pk < node_dist c m" if "m \<in> set ns" for m
    using that "1.prems" id_closest_cases [of "nf_public_key m" c pk] by (auto simp: key_len_def)
  show ?case
  proof (cases "first_further c ns pk")
    case None
    then have "\<forall>m\<in>set ns. node_dist c m \<le> node_dist c ?n" using closer by (auto simp: first_further_None not_less)
    then show ?thesis using None carry_append [of ns c ?n "[]"]
      by (subst add_to_list.simps) (auto simp: not_less)
  next
    case (Some i)
    then have i: "i < length ns" and far: "key_dist c pk < node_dist c (ns ! i)"
      and before: "\<forall>j<i. id_closest c (nf_public_key (ns ! j)) pk \<noteq> 2"
      using first_further_Some [OF Some] closer by auto
    have pre: "\<forall>m\<in>set (take i ns). node_dist c m \<le> node_dist c ?n"
    proof
      fix m assume "m \<in> set (take i ns)"
      then obtain j where "j < i" "j < length ns" "m = ns ! j" by (auto simp: in_set_conv_nth)
      then show "node_dist c m \<le> node_dist c ?n" using before closer [of m] by auto
    qed
    let ?suf = "drop (Suc i) ns"
    have ns: "ns = take i ns @ ns ! i # ?suf" using i by (rule id_take_nth_drop)
    have ns': "ns[i := ?n] = take i ns @ ?n # ?suf" using i by (rule upd_conv_take_nth_drop)
    have c1: "fst (carry c ns ?n) = take i ns @ ?n # fst (carry c ?suf (ns ! i))"
      using far by (subst ns, subst carry_append [OF pre]) simp
    have "\<forall>m\<in>set (take i ns @ [?n]). node_dist c m \<le> node_dist c (ns ! i)" using pre far by auto
    then have c2: "fst (carry c (ns[i := ?n]) (ns ! i)) = take i ns @ ?n # fst (carry c ?suf (ns ! i))"
      using carry_append [of "take i ns @ [?n]" c "ns ! i" ?suf] by (simp add: ns')
    have ex: "\<exists>m\<in>set ns. key_dist c pk < node_dist c m" using i far by auto
    have "key_len c (ns[i := ?n])" using "1.prems" set_update_subset_insert [of ns i ?n]
      by (auto simp: key_len_def)
    moreover have "length (nf_public_key (ns ! i)) = length c" using "1.prems" i by (simp add: key_len_def)
    ultimately have "i \<noteq> length ns - 1 \<Longrightarrow>
        fst (add_to_list (ns[i := ?n]) (nf_public_key (ns ! i)) (nf_ip_port (ns ! i)) c) = fst (carry c ns ?n)"
      using "1.IH" [OF Some refl refl] c1 c2 by (simp only: node_eta) simp
    moreover have "i = length ns - 1 \<Longrightarrow> ns[i := ?n] = fst (carry c ns ?n)"
      using i c1 ns' by simp
    ultimately show ?thesis using Some ex by (subst add_to_list.simps) (simp add: Let_def)
  qed
qed

lemma client_in_nodelist_iff:
  assumes "\<forall>n\<in>set ns. length (nf_public_key n) = length pk"
  shows "client_in_nodelist ns pk \<longleftrightarrow> pk \<in> nf_public_key ` set ns"
  using assms by (induction ns) (auto simp: id_equal_iff)

section \<open>Properties\<close>

text \<open>
  \<open>id_closest\<close> decides the XOR metric: it returns 1 or 2 for the key at the smaller
  distance (as 256-bit numbers) and 0 exactly when the two keys are the same key.
\<close>

theorem id_closest_metric:
  assumes "length pk = 32" and "length pk1 = 32" and "length pk2 = 32"
  shows "(id_closest pk pk1 pk2 = 1 \<longleftrightarrow> key_dist pk pk1 < key_dist pk pk2) \<and>
    (id_closest pk pk1 pk2 = 2 \<longleftrightarrow> key_dist pk pk2 < key_dist pk pk1) \<and>
    (id_closest pk pk1 pk2 = 0 \<longleftrightarrow> pk1 = pk2)"
  using assms id_closest_cases [of pk1 pk pk2] key_dist_inj [of pk1 pk pk2] by auto

theorem id_closest_metric_witness:
  "id_closest (replicate 32 5) (replicate 32 4) (replicate 32 4) = 0 \<and>
   (id_closest (replicate 32 5) (replicate 32 4) (replicate 32 2) = 1 \<longleftrightarrow>
      key_dist (replicate 32 5) (replicate 32 4) < key_dist (replicate 32 5) (replicate 32 2))"
  using id_closest_metric [of "replicate 32 5" "replicate 32 4" "replicate 32 4"]
    id_closest_metric [of "replicate 32 5" "replicate 32 4" "replicate 32 2"] by simp

text \<open>
  \<open>bit_by_bit_cmp\<close>, the index of a node's bucket, is the number of leading bits that two
  keys share: for index \<open>r\<close> the distance is below \<open>2^(256 - r)\<close>, and for different keys \<open>r\<close> is at
  most 255 and the distance at least \<open>2^(255 - r)\<close>; equal keys give 256.
\<close>

theorem bit_by_bit_cmp_bucket:
  assumes "length pk1 = 32" and "length pk2 = 32"
  shows "key_dist pk1 pk2 < 2 ^ (256 - bit_by_bit_cmp pk1 pk2) \<and>
    (if pk1 = pk2 then bit_by_bit_cmp pk1 pk2 = 256
     else bit_by_bit_cmp pk1 pk2 < 256 \<and> 2 ^ (255 - bit_by_bit_cmp pk1 pk2) \<le> key_dist pk1 pk2)"
proof -
  have "bit_by_bit_loop i x x = (i + length x) * 8" for i and x :: bytes
    by (induction x arbitrary: i) auto
  moreover have "256 - r - 1 = 255 - r" for r :: nat by simp
  ultimately show ?thesis
    using assms bit_by_bit_loop_dist [of pk1 pk2 0] by (auto simp: bit_by_bit_cmp_def Let_def)
qed

theorem bit_by_bit_cmp_bucket_witness:
  "bit_by_bit_cmp (replicate 32 1) (replicate 32 1) = 256 \<and>
   bit_by_bit_cmp (replicate 32 1) (replicate 31 1 @ [0]) < 256"
proof -
  have "replicate 32 (1::u8) \<noteq> replicate 31 1 @ [0]" by code_simp
  then show ?thesis
    using bit_by_bit_cmp_bucket [of "replicate 32 1" "replicate 32 1"]
      bit_by_bit_cmp_bucket [of "replicate 32 1" "replicate 31 1 @ [0]"] by simp
qed

text \<open>
  \<open>add_to_list\<close> ends and keeps the closest entries: of the old entries and the new node
  together exactly one is dropped, none of those kept is further from \<open>cmp_pk\<close> than it, and the
  function reports success exactly when some old entry was further than the new node. The
  list need not be sorted.
\<close>

theorem add_to_list_keeps_closest:
  assumes "length cmp_pk = 32" and "length pk = 32" and "\<forall>n\<in>set nodes. length (nf_public_key n) = 32"
    and "add_to_list nodes pk ipp cmp_pk = (nodes', added)"
  shows "(\<exists>dropped. add_mset dropped (mset nodes') =
            add_mset \<lparr>nf_public_key = pk, nf_ip_port = ipp\<rparr> (mset nodes) \<and>
            (\<forall>n\<in>set nodes'. key_dist cmp_pk (nf_public_key n) \<le> key_dist cmp_pk (nf_public_key dropped))) \<and>
    length nodes' = length nodes \<and>
    (added \<longleftrightarrow> (\<exists>n\<in>set nodes. key_dist cmp_pk pk < key_dist cmp_pk (nf_public_key n)))"
proof -
  let ?n = "\<lparr>nf_public_key = pk, nf_ip_port = ipp\<rparr>"
  have "key_len cmp_pk nodes" using assms by (simp add: key_len_def)
  then have "nodes' = fst (carry cmp_pk nodes ?n)" "added \<longleftrightarrow> (\<exists>n\<in>set nodes. key_dist cmp_pk pk < node_dist cmp_pk n)"
    using add_to_list_carry [of cmp_pk nodes pk ipp] assms by auto
  moreover have "length (fst (carry cmp_pk nodes ?n)) = length nodes"
    using arg_cong [OF carry_mset [of cmp_pk nodes ?n], of size] by simp
  ultimately show ?thesis
    using carry_mset [of cmp_pk nodes ?n] carry_max [of cmp_pk ?n nodes] by blast
qed

theorem add_to_list_keeps_closest_witness:
  "length (fst (add_to_list [sample_node, sample_tcp_node] (replicate 32 3) ipport_zero (replicate 32 0))) = 2"
  using add_to_list_keeps_closest [of "replicate 32 0" "replicate 32 3" "[sample_node, sample_tcp_node]" ipport_zero
      "fst (add_to_list [sample_node, sample_tcp_node] (replicate 32 3) ipport_zero (replicate 32 0))"
      "snd (add_to_list [sample_node, sample_tcp_node] (replicate 32 3) ipport_zero (replicate 32 0))"]
  by (simp add: sample_node_def sample_tcp_node_def)

end
