(* ===== verification/Shared_Keys.thy ===== *)
theory Shared_Keys
  imports Crypto_Core
begin

text \<open>
  The cache of shared keys (\<open>get_shared_key\<close> of \<open>toxcore/DHT.c\<close>): 256 rows of four slots,
  the row chosen by byte 30 of the public key. The invariant says that a stored slot holds
  the key that \<open>encrypt_precompute\<close> would compute; the cache is then invisible to callers.
\<close>

abbreviation "MAX_KEYS_PER_SLOT \<equiv> (4::nat)"
abbreviation "KEYS_TIMEOUT \<equiv> (600::u64)"

record shared_key_slot =
  sk_public_key :: bytes
  sk_shared_key :: bytes
  sk_times_requested :: u32
  sk_stored :: bool
  sk_time_last_requested :: u64

type_synonym shared_keys = "shared_key_slot list"

datatype scan_result = Hit nat | Miss u32 nat

text \<open>
  The loop over the row, from slot \<open>i\<close> on; \<open>num\<close> is the smallest number of requests seen
  and \<open>cur\<close> the slot to replace.
\<close>

function shared_scan :: "u64 \<Rightarrow> shared_keys \<Rightarrow> bytes \<Rightarrow> nat \<Rightarrow> u32 \<Rightarrow> nat \<Rightarrow> scan_result" where
  "shared_scan now keys public_key i num cur =
     (if i < MAX_KEYS_PER_SLOT then
        let index = unat (public_key ! 30) * MAX_KEYS_PER_SLOT + i; slot = keys ! index
        in if sk_stored slot then
             if memcmp public_key (sk_public_key slot) = 0 then Hit index
             else if num \<noteq> 0 then
               if is_timeout now (sk_time_last_requested slot) KEYS_TIMEOUT
               then shared_scan now keys public_key (Suc i) 0 index
               else if num > sk_times_requested slot
               then shared_scan now keys public_key (Suc i) (sk_times_requested slot) index
               else shared_scan now keys public_key (Suc i) num cur
             else shared_scan now keys public_key (Suc i) num cur
           else if num \<noteq> 0 then shared_scan now keys public_key (Suc i) 0 index
           else shared_scan now keys public_key (Suc i) num cur
      else Miss num cur)"
  by pat_completeness auto
termination by (relation "measure (\<lambda>(now, keys, pk, i, num, cur). 4 - i)") auto

declare shared_scan.simps [simp del]

definition get_shared_key :: "nacl \<Rightarrow> u64 \<Rightarrow> shared_keys \<Rightarrow> bytes \<Rightarrow> bytes \<Rightarrow> shared_keys \<times> bytes" where
  "get_shared_key N now keys secret_key public_key =
     (case shared_scan now keys public_key 0 (- 1) 0 of
        Hit index \<Rightarrow>
          let slot = keys ! index
          in (keys[index := slot\<lparr>sk_times_requested := sk_times_requested slot + 1,
                                 sk_time_last_requested := now\<rparr>], sk_shared_key slot)
      | Miss num cur \<Rightarrow>
          let shared_key = encrypt_precompute N public_key secret_key
          in (if num \<noteq> - 1 then
                keys[cur := \<lparr>sk_public_key = public_key, sk_shared_key = shared_key,
                              sk_times_requested = 1, sk_stored = True, sk_time_last_requested = now\<rparr>]
              else keys, shared_key))"

definition slot_ok :: "nacl \<Rightarrow> bytes \<Rightarrow> nat \<Rightarrow> shared_key_slot \<Rightarrow> bool" where
  "slot_ok N secret_key index slot \<longleftrightarrow> sk_stored slot \<longrightarrow>
     length (sk_public_key slot) = 32 \<and>
     sk_shared_key slot = encrypt_precompute N (sk_public_key slot) secret_key \<and>
     unat (sk_public_key slot ! 30) = index div MAX_KEYS_PER_SLOT"

definition shared_keys_ok :: "nacl \<Rightarrow> bytes \<Rightarrow> shared_keys \<Rightarrow> bool" where
  "shared_keys_ok N secret_key keys \<longleftrightarrow>
     length keys = 256 * MAX_KEYS_PER_SLOT \<and> (\<forall>i<length keys. slot_ok N secret_key i (keys ! i))"

text \<open>The slots of a key's row.\<close>

definition row_index :: "bytes \<Rightarrow> nat \<Rightarrow> bool" where
  "row_index public_key i \<longleftrightarrow> i div MAX_KEYS_PER_SLOT = unat (public_key ! 30)"

definition cached :: "shared_keys \<Rightarrow> bytes \<Rightarrow> bool" where
  "cached keys public_key \<longleftrightarrow>
     (\<exists>i<length keys. row_index public_key i \<and> sk_stored (keys ! i) \<and> sk_public_key (keys ! i) = public_key)"

text \<open>A slot that the loop never replaces: in use, requested recently, with a full counter.\<close>

definition slot_pinned :: "u64 \<Rightarrow> shared_key_slot \<Rightarrow> bool" where
  "slot_pinned now slot \<longleftrightarrow> sk_stored slot \<and> \<not> is_timeout now (sk_time_last_requested slot) KEYS_TIMEOUT \<and>
     sk_times_requested slot = - 1"

lemma row_index_bound: "row_index pk i \<Longrightarrow> i < 1024"
  using unat_u8_bound [of "pk ! 30"] by (auto simp: row_index_def)

lemma row_index_slot: "i < 4 \<Longrightarrow> row_index pk (unat (pk ! 30) * 4 + i)"
  by (simp add: row_index_def)

lemma less_max_u32: "num \<noteq> - 1 \<Longrightarrow> num < (- 1 :: u32)"
  using word_order.not_eq_extremum by auto

text \<open>What the loop finds, whatever it has seen before slot \<open>i\<close>.\<close>

lemma shared_scan_result:
  assumes "i \<le> 4" and "num \<noteq> - 1 \<longrightarrow> row_index pk cur"
    and "\<forall>j<i. num = - 1 \<longrightarrow> slot_pinned now (keys ! (unat (pk ! 30) * 4 + j))"
  shows "(\<exists>index. shared_scan now keys pk i num cur = Hit index \<and> row_index pk index \<and>
            sk_stored (keys ! index) \<and> memcmp pk (sk_public_key (keys ! index)) = 0) \<or>
         (\<exists>num' cur'. shared_scan now keys pk i num cur = Miss num' cur' \<and>
            (num' \<noteq> - 1 \<longrightarrow> row_index pk cur') \<and>
            (num' = - 1 \<longrightarrow> (\<forall>j<4. slot_pinned now (keys ! (unat (pk ! 30) * 4 + j)))))"
  using assms
proof (induction "4 - i" arbitrary: i num cur)
  case 0
  then show ?case by (subst (1 2) shared_scan.simps) auto
next
  case (Suc k)
  let ?index = "unat (pk ! 30) * 4 + i"
  let ?slot = "keys ! ?index"
  have i: "i < 4" and k: "k = 4 - Suc i" using Suc.hyps(2) by auto
  note IH = Suc.hyps(1) [OF k]
  have row: "row_index pk ?index" using i by (rule row_index_slot)
  consider (hit) "sk_stored ?slot" "memcmp pk (sk_public_key ?slot) = 0"
    | (reset) "\<not> (sk_stored ?slot \<and> memcmp pk (sk_public_key ?slot) = 0)" "num \<noteq> 0"
        "\<not> sk_stored ?slot \<or> is_timeout now (sk_time_last_requested ?slot) KEYS_TIMEOUT"
    | (less) "sk_stored ?slot" "memcmp pk (sk_public_key ?slot) \<noteq> 0" "num \<noteq> 0"
        "\<not> is_timeout now (sk_time_last_requested ?slot) KEYS_TIMEOUT" "num > sk_times_requested ?slot"
    | (skip) "\<not> (sk_stored ?slot \<and> memcmp pk (sk_public_key ?slot) = 0)" "num = 0 \<or>
        sk_stored ?slot \<and> \<not> is_timeout now (sk_time_last_requested ?slot) KEYS_TIMEOUT \<and> \<not> num > sk_times_requested ?slot"
    by blast
  then show ?case
  proof cases
    case hit
    then show ?thesis using i row by (subst (1 2) shared_scan.simps) (auto simp: Let_def)
  next
    case reset
    then have "shared_scan now keys pk i num cur = shared_scan now keys pk (Suc i) 0 ?index"
      using i by (subst shared_scan.simps) (auto simp: Let_def)
    then show ?thesis using IH [of 0 ?index] row i by simp
  next
    case less
    then have "shared_scan now keys pk i num cur = shared_scan now keys pk (Suc i) (sk_times_requested ?slot) ?index"
      using i by (subst shared_scan.simps) (auto simp: Let_def)
    moreover have "sk_times_requested ?slot \<noteq> - 1" using less(5) by (metis word_order.extremum not_less)
    ultimately show ?thesis using IH [of "sk_times_requested ?slot" ?index] row i by simp
  next
    case skip
    then have eq: "shared_scan now keys pk i num cur = shared_scan now keys pk (Suc i) num cur"
      using i by (subst shared_scan.simps) (auto simp: Let_def)
    have "num = - 1 \<longrightarrow> slot_pinned now ?slot"
      using skip(2) less_max_u32 [of "sk_times_requested ?slot"] by (auto simp: slot_pinned_def)
    then have "\<forall>j<Suc i. num = - 1 \<longrightarrow> slot_pinned now (keys ! (unat (pk ! 30) * 4 + j))"
      using Suc.prems(3) less_Suc_eq by auto
    then show ?thesis using IH [of num cur] Suc.prems(2) i eq by simp
  qed
qed

lemma memcmp_0_eq: "length xs = 32 \<Longrightarrow> length ys = 32 \<Longrightarrow> memcmp xs ys = 0 \<Longrightarrow> xs = ys"
  by (simp add: memcmp_eq_0_iff)

lemma shared_keys_ok_update:
  assumes "shared_keys_ok N sk keys" and "slot_ok N sk i slot"
  shows "shared_keys_ok N sk (keys[i := slot])"
  using assms unfolding shared_keys_ok_def by (metis length_list_update nth_list_update_eq nth_list_update_neq)

lemma get_shared_key_cases:
  assumes ok: "shared_keys_ok N sk keys" and len: "length pk = 32"
  obtains (hit) index where "row_index pk index" "index < length keys" "sk_stored (keys ! index)"
      "sk_public_key (keys ! index) = pk" "sk_shared_key (keys ! index) = encrypt_precompute N pk sk"
      "get_shared_key N now keys sk pk =
        (keys[index := (keys ! index)\<lparr>sk_times_requested := sk_times_requested (keys ! index) + 1,
               sk_time_last_requested := now\<rparr>], encrypt_precompute N pk sk)"
  | (miss) index where "row_index pk index" "index < length keys"
      "get_shared_key N now keys sk pk =
        (keys[index := \<lparr>sk_public_key = pk, sk_shared_key = encrypt_precompute N pk sk, sk_times_requested = 1,
               sk_stored = True, sk_time_last_requested = now\<rparr>], encrypt_precompute N pk sk)"
  | (full) "\<forall>i<length keys. row_index pk i \<longrightarrow> slot_pinned now (keys ! i)"
      "get_shared_key N now keys sk pk = (keys, encrypt_precompute N pk sk)"
proof -
  have lk: "length keys = 1024" using ok by (simp add: shared_keys_ok_def)
  from shared_scan_result [of 0 "- 1" pk 0 now keys]
  consider (h) index where "shared_scan now keys pk 0 (- 1) 0 = Hit index" "row_index pk index"
      "sk_stored (keys ! index)" "memcmp pk (sk_public_key (keys ! index)) = 0"
    | (m) num cur where "shared_scan now keys pk 0 (- 1) 0 = Miss num cur" "num \<noteq> - 1" "row_index pk cur"
    | (f) cur where "shared_scan now keys pk 0 (- 1) 0 = Miss (- 1) cur"
        "\<forall>j<4. slot_pinned now (keys ! (unat (pk ! 30) * 4 + j))"
    by force
  then show ?thesis
  proof cases
    case h
    then have i: "index < length keys" using row_index_bound lk by simp
    then have s: "slot_ok N sk index (keys ! index)" using ok by (simp add: shared_keys_ok_def)
    then have "sk_public_key (keys ! index) = pk" 
      using h len memcmp_0_eq [of pk "sk_public_key (keys ! index)"] by (simp add: slot_ok_def)
    then show ?thesis using hit [of index] h i s by (simp add: slot_ok_def get_shared_key_def Let_def)
  next
    case m
    then show ?thesis using miss [of cur] row_index_bound lk by (simp add: get_shared_key_def Let_def)
  next
    case f
    have "slot_pinned now (keys ! i)" if "row_index pk i" for i
    proof -
      have "i = unat (pk ! 30) * 4 + i mod 4" using that by (simp add: row_index_def) presburger
      then show ?thesis using f(2) by (metis mod_less_divisor zero_less_numeral)
    qed
    then show ?thesis using full f(1) by (simp add: get_shared_key_def Let_def)
  qed
qed

lemma get_shared_key_correct:
  assumes "shared_keys_ok N secret_key keys" and "length public_key = 32"
    and "get_shared_key N now keys secret_key public_key = (keys', shared_key)"
  shows "shared_key = encrypt_precompute N public_key secret_key \<and> shared_keys_ok N secret_key keys' \<and>
    (cached keys' public_key \<or> (\<forall>i<length keys. row_index public_key i \<longrightarrow> slot_pinned now (keys ! i)))"
  using assms(1,2)
proof (cases rule: get_shared_key_cases [where now = now])
  case (hit index)
  let ?s = "(keys ! index)\<lparr>sk_times_requested := sk_times_requested (keys ! index) + 1, sk_time_last_requested := now\<rparr>"
  have "slot_ok N secret_key index ?s" using hit assms(1) by (auto simp: slot_ok_def shared_keys_ok_def)
  then have "shared_keys_ok N secret_key (keys[index := ?s])" using assms(1) shared_keys_ok_update by blast
  moreover have "cached (keys[index := ?s]) public_key"
    using hit by (auto simp: cached_def intro!: exI [of _ index])
  ultimately show ?thesis using hit assms(3) by simp
next
  case (miss index)
  let ?s = "\<lparr>sk_public_key = public_key, sk_shared_key = encrypt_precompute N public_key secret_key,
    sk_times_requested = 1, sk_stored = True, sk_time_last_requested = now\<rparr>"
  have "slot_ok N secret_key index ?s" using miss(1) assms(2) by (simp add: slot_ok_def row_index_def)
  then have "shared_keys_ok N secret_key (keys[index := ?s])" using assms(1) shared_keys_ok_update by blast
  moreover have "cached (keys[index := ?s]) public_key"
    using miss by (auto simp: cached_def intro!: exI [of _ index])
  ultimately show ?thesis using miss assms(3) by simp
next
  case full
  then show ?thesis using assms by simp
qed

lemma get_shared_key_value:
  assumes "shared_keys_ok N sk keys" and "length pk = 32"
  obtains keys' where "get_shared_key N now keys sk pk = (keys', encrypt_precompute N pk sk)" "shared_keys_ok N sk keys'"
  using get_shared_key_correct [OF assms, of now] by (metis surj_pair)

section \<open>Properties\<close>

text \<open>
  C32. The cache is transparent: \<open>get_shared_key\<close> returns the key that \<open>encrypt_precompute\<close>
  computes, keeps the cache invariant, and afterwards the key is cached unless all four
  slots of its row are in recent use with a saturated request counter.
\<close>

theorem get_shared_key_transparent:
  assumes "shared_keys_ok N secret_key keys" and "length public_key = 32"
    and "get_shared_key N now keys secret_key public_key = (keys', shared_key)"
  shows "shared_key = encrypt_precompute N public_key secret_key \<and> shared_keys_ok N secret_key keys' \<and>
    (cached keys' public_key \<or> (\<forall>i<length keys. row_index public_key i \<longrightarrow> slot_pinned now (keys ! i)))"
  using assms by (rule get_shared_key_correct)

definition shared_keys_zero :: shared_keys where
  "shared_keys_zero = replicate 1024
     \<lparr>sk_public_key = replicate 32 0, sk_shared_key = replicate 32 0, sk_times_requested = 0,
      sk_stored = False, sk_time_last_requested = 0\<rparr>"

lemma shared_keys_zero_ok: "shared_keys_ok N sk shared_keys_zero"
  by (simp add: shared_keys_ok_def shared_keys_zero_def slot_ok_def)

definition nacl_identity :: nacl where
  "nacl_identity = \<lparr>box_beforenm = (\<lambda>pk sk. map2 (XOR) pk sk), box_afternm = (\<lambda>m n k. Some m),
     box_open_afternm = (\<lambda>c n k. Some c)\<rparr>"

lemma nacl_identity_ok: "nacl_ok nacl_identity"
proof -
  have "take 16 m = replicate 16 0" if "take 32 m = replicate 32 (0::u8)" for m
    using arg_cong [OF that, of "take 16"] by simp
  then show ?thesis by (simp add: nacl_ok_def nacl_identity_def)
qed

theorem get_shared_key_transparent_witness:
  "snd (get_shared_key nacl_identity 5 shared_keys_zero (replicate 32 7) (replicate 32 9)) =
     encrypt_precompute nacl_identity (replicate 32 9) (replicate 32 7) \<and>
   shared_keys_ok nacl_identity (replicate 32 7)
     (fst (get_shared_key nacl_identity 5 shared_keys_zero (replicate 32 7) (replicate 32 9)))"
  using get_shared_key_transparent [OF shared_keys_zero_ok, of "replicate 32 9" nacl_identity 5 "replicate 32 7"
      "fst (get_shared_key nacl_identity 5 shared_keys_zero (replicate 32 7) (replicate 32 9))"
      "snd (get_shared_key nacl_identity 5 shared_keys_zero (replicate 32 7) (replicate 32 9))"]
  by simp

end
