(* ===== verification/DHT_Nodes.thy ===== *)
theory DHT_Nodes
  imports DHT_Distance
begin

text \<open>
  The client lists of the DHT (\<open>toxcore/DHT.c\<close>): the entries \<open>Client_data\<close>, the refresh of
  an entry already known, the search for the nodes closest to a key and the ordering that
  decides which entry of a friend's list is replaced. The current time \<open>now\<close> is what
  \<open>unix_time()\<close> returns.

  The main result is that \<open>get_close_nodes\<close> finds exactly the (at most four) eligible
  clients closest to the wanted key, however the lists are ordered.
\<close>

abbreviation "BAD_NODE_TIMEOUT \<equiv> (122::u64)"
abbreviation "MAX_SENT_NODES \<equiv> (4::nat)"
abbreviation "MAX_FRIEND_CLIENTS \<equiv> (8::nat)"
abbreviation "LCLIENT_NODES \<equiv> (8::nat)"
abbreviation "LCLIENT_LENGTH \<equiv> (128::nat)"
abbreviation "LCLIENT_LIST \<equiv> (1024::nat)"
abbreviation "HARDENING_ALL_OK \<equiv> (2::u8)"

section \<open>Data\<close>

record Hardening =
  routes_requests_ok :: u8
  routes_requests_timestamp :: u64
  routes_requests_pingedid :: bytes
  send_nodes_ok :: u8
  send_nodes_timestamp :: u64
  send_nodes_pingedid :: bytes
  testing_requests :: u8
  testing_timestamp :: u64
  testing_pingedid :: bytes

record IPPTsPng =
  ip_port :: IP_Port
  timestamp :: u64
  last_pinged :: u64
  hardening :: Hardening
  ret_ip_port :: IP_Port
  ret_timestamp :: u64

record Client_data =
  cd_public_key :: bytes
  assoc4 :: IPPTsPng
  assoc6 :: IPPTsPng

definition hardening_zero :: Hardening where
  "hardening_zero =
     \<lparr>routes_requests_ok = 0, routes_requests_timestamp = 0, routes_requests_pingedid = replicate 32 0,
      send_nodes_ok = 0, send_nodes_timestamp = 0, send_nodes_pingedid = replicate 32 0,
      testing_requests = 0, testing_timestamp = 0, testing_pingedid = replicate 32 0\<rparr>"

definition assoc_zero :: IPPTsPng where
  "assoc_zero = \<lparr>ip_port = ipport_zero, timestamp = 0, last_pinged = 0, hardening = hardening_zero,
     ret_ip_port = ipport_zero, ret_timestamp = 0\<rparr>"

definition client_zero :: Client_data where
  "client_zero = \<lparr>cd_public_key = replicate 32 0, assoc4 = assoc_zero, assoc6 = assoc_zero\<rparr>"

abbreviation assoc_bad :: "u64 \<Rightarrow> IPPTsPng \<Rightarrow> bool" where
  "assoc_bad now a \<equiv> is_timeout now (timestamp a) BAD_NODE_TIMEOUT"

definition both_bad :: "u64 \<Rightarrow> Client_data \<Rightarrow> bool" where
  "both_bad now c \<longleftrightarrow> assoc_bad now (assoc4 c) \<and> assoc_bad now (assoc6 c)"

section \<open>Refreshing a known client\<close>

text \<open>The body of the first loop of \<open>client_or_ip_port_in_list\<close>, on the entry found.\<close>

definition refresh_client :: "u64 \<Rightarrow> IP_Port \<Rightarrow> Client_data \<Rightarrow> Client_data" where
  "refresh_client now ipp c =
     (if ip_family (ipp_ip ipp) = AF_INET then
        if \<not> LAN_ip (ipp_ip (ip_port (assoc4 c))) \<and> LAN_ip (ipp_ip ipp) then c
        else c\<lparr>assoc4 := (assoc4 c)\<lparr>ip_port := ipp, timestamp := now\<rparr>\<rparr>
      else if ip_family (ipp_ip ipp) = AF_INET6 then
        if \<not> LAN_ip (ipp_ip (ip_port (assoc6 c))) \<and> LAN_ip (ipp_ip ipp) then c
        else c\<lparr>assoc6 := (assoc6 c)\<lparr>ip_port := ipp, timestamp := now\<rparr>\<rparr>
      else c)"

fun coipil_key_loop :: "u64 \<Rightarrow> bytes \<Rightarrow> IP_Port \<Rightarrow> Client_data list \<Rightarrow> Client_data list option" where
  "coipil_key_loop now pk ipp [] = None"
| "coipil_key_loop now pk ipp (c # cs) =
     (if id_equal (cd_public_key c) pk then Some (refresh_client now ipp c # cs)
      else map_option ((#) c) (coipil_key_loop now pk ipp cs))"

fun coipil_addr_loop :: "u64 \<Rightarrow> bytes \<Rightarrow> IP_Port \<Rightarrow> Client_data list \<Rightarrow> Client_data list option" where
  "coipil_addr_loop now pk ipp [] = None"
| "coipil_addr_loop now pk ipp (c # cs) =
     (if ip_family (ipp_ip ipp) = AF_INET \<and> ipport_equal (ip_port (assoc4 c)) ipp then
        Some (c\<lparr>cd_public_key := pk, assoc4 := (assoc4 c)\<lparr>timestamp := now\<rparr>, assoc6 := assoc_zero\<rparr> # cs)
      else if ip_family (ipp_ip ipp) = AF_INET6 \<and> ipport_equal (ip_port (assoc6 c)) ipp then
        Some (c\<lparr>cd_public_key := pk, assoc6 := (assoc6 c)\<lparr>timestamp := now\<rparr>, assoc4 := assoc_zero\<rparr> # cs)
      else map_option ((#) c) (coipil_addr_loop now pk ipp cs))"

definition client_or_ip_port_in_list ::
  "u64 \<Rightarrow> Client_data list \<Rightarrow> bytes \<Rightarrow> IP_Port \<Rightarrow> Client_data list \<times> bool" where
  "client_or_ip_port_in_list now list public_key ipp =
     (case coipil_key_loop now public_key ipp list of
        Some list' \<Rightarrow> (list', True)
      | None \<Rightarrow> (case coipil_addr_loop now public_key ipp list of
                   Some list' \<Rightarrow> (list', True)
                 | None \<Rightarrow> (list, False)))"

definition client_ok :: "Client_data \<Rightarrow> bool" where
  "client_ok c \<longleftrightarrow> length (cd_public_key c) = 32 \<and> ip_ok (ipp_ip (ip_port (assoc4 c))) \<and>
     ip_ok (ipp_ip (ip_port (assoc6 c))) \<and> ip_ok (ipp_ip (ret_ip_port (assoc4 c))) \<and> ip_ok (ipp_ip (ret_ip_port (assoc6 c)))"

lemma client_zero_ok [simp]: "client_ok client_zero"
  by (simp add: client_ok_def client_zero_def assoc_zero_def ipport_zero_def ip_zero_def ip_ok_def)

text \<open>Live keys of a list: the zero key marks an entry never used.\<close>

abbreviation zero_key :: bytes where
  "zero_key \<equiv> replicate 32 0"

definition unique_keys :: "Client_data list \<Rightarrow> bool" where
  "unique_keys cs \<longleftrightarrow> distinct (filter (\<lambda>k. k \<noteq> zero_key) (map cd_public_key cs))"

definition clients_ok :: "Client_data list \<Rightarrow> bool" where
  "clients_ok cs \<longleftrightarrow> (\<forall>c\<in>set cs. client_ok c) \<and> unique_keys cs"

lemma refresh_client_key [simp]: "cd_public_key (refresh_client now ipp c) = cd_public_key c"
  by (simp add: refresh_client_def)

lemma refresh_client_ok: "client_ok c \<Longrightarrow> ip_ok (ipp_ip ipp) \<Longrightarrow> client_ok (refresh_client now ipp c)"
  by (simp add: refresh_client_def client_ok_def)

lemma coipil_key_loop_Some:
  "coipil_key_loop now pk ipp cs = Some cs' \<Longrightarrow>
   \<exists>pre c suf. cs = pre @ c # suf \<and> cs' = pre @ refresh_client now ipp c # suf \<and> id_equal (cd_public_key c) pk"
proof (induction cs arbitrary: cs')
  case (Cons c cs)
  show ?case
  proof (cases "id_equal (cd_public_key c) pk")
    case True
    then show ?thesis using Cons.prems by (intro exI [of _ "[]"] exI [of _ c] exI [of _ cs]) simp
  next
    case False
    then obtain cs'' where "coipil_key_loop now pk ipp cs = Some cs''" "cs' = c # cs''" using Cons.prems by auto
    then show ?thesis using Cons.IH by (metis append_Cons)
  qed
qed simp

lemma coipil_key_loop_None:
  "coipil_key_loop now pk ipp cs = None \<longleftrightarrow> (\<forall>c\<in>set cs. \<not> id_equal (cd_public_key c) pk)"
  by (induction cs) auto

text \<open>The entry that the second loop leaves: the new key, the address it had, the other one cleared.\<close>

definition takes_over :: "u64 \<Rightarrow> bytes \<Rightarrow> IP_Port \<Rightarrow> Client_data \<Rightarrow> Client_data \<Rightarrow> bool" where
  "takes_over now pk ipp c c' \<longleftrightarrow>
     (ipport_equal (ip_port (assoc4 c)) ipp \<and> ip_family (ipp_ip ipp) = AF_INET \<and>
      c' = c\<lparr>cd_public_key := pk, assoc4 := (assoc4 c)\<lparr>timestamp := now\<rparr>, assoc6 := assoc_zero\<rparr>) \<or>
     (ipport_equal (ip_port (assoc6 c)) ipp \<and> ip_family (ipp_ip ipp) = AF_INET6 \<and>
      c' = c\<lparr>cd_public_key := pk, assoc6 := (assoc6 c)\<lparr>timestamp := now\<rparr>, assoc4 := assoc_zero\<rparr>)"

lemma coipil_addr_loop_Some:
  "coipil_addr_loop now pk ipp cs = Some cs' \<Longrightarrow>
   \<exists>pre c c' suf. cs = pre @ c # suf \<and> cs' = pre @ c' # suf \<and> takes_over now pk ipp c c'"
proof (induction cs arbitrary: cs')
  case (Cons c cs)
  show ?case
  proof (cases "\<exists>c'. cs' = c' # cs \<and> takes_over now pk ipp c c'")
    case True
    then show ?thesis by (metis append_Nil)
  next
    case False
    then obtain cs'' where "coipil_addr_loop now pk ipp cs = Some cs''" "cs' = c # cs''"
      using Cons.prems by (auto simp: takes_over_def split: if_splits)
    then show ?thesis using Cons.IH by (metis append_Cons)
  qed
qed simp

lemma takes_over_ok:
  "takes_over now pk ipp c c' \<Longrightarrow> client_ok c \<Longrightarrow> length pk = 32 \<Longrightarrow> client_ok c' \<and> cd_public_key c' = pk"
  by (auto simp: takes_over_def client_ok_def assoc_zero_def ipport_zero_def ip_zero_def ip_ok_def)

lemma clients_ok_replace:
  assumes "clients_ok (pre @ c # suf)" and "client_ok c'"
    and "cd_public_key c' = cd_public_key c \<or> cd_public_key c' \<notin> cd_public_key ` set (pre @ suf)"
  shows "clients_ok (pre @ c' # suf)"
  using assms
  by (cases "cd_public_key c = zero_key"; cases "cd_public_key c' = zero_key")
    (auto simp: clients_ok_def unique_keys_def, (metis imageI)+)

lemma coipil_keeps:
  assumes ok: "clients_ok cs" and pk: "length pk = 32" and ipp: "ip_ok (ipp_ip ipp)"
    and step: "client_or_ip_port_in_list now cs pk ipp = (cs', found)"
  shows "clients_ok cs' \<and> length cs' = length cs \<and> (if found then pk \<in> cd_public_key ` set cs'
    else cs' = cs \<and> pk \<notin> cd_public_key ` set cs)"
proof -
  have eq: "id_equal (cd_public_key c) pk \<longleftrightarrow> cd_public_key c = pk" if "c \<in> set cs" for c
    using that ok pk by (auto simp: clients_ok_def client_ok_def id_equal_iff)
  show ?thesis
  proof (cases "coipil_key_loop now pk ipp cs")
    case (Some cs1)
    then obtain pre c suf where *: "cs = pre @ c # suf" "cs1 = pre @ refresh_client now ipp c # suf"
      "id_equal (cd_public_key c) pk" using coipil_key_loop_Some by blast
    then have "clients_ok cs1"
      using ok clients_ok_replace [of pre c suf] refresh_client_ok [OF _ ipp] by (simp add: clients_ok_def)
    then show ?thesis using Some * eq [of c] step by (auto simp: client_or_ip_port_in_list_def)
  next
    case None
    then have new: "pk \<notin> cd_public_key ` set cs" using eq by (auto simp: coipil_key_loop_None)
    show ?thesis
    proof (cases "coipil_addr_loop now pk ipp cs")
      case addr: (Some cs1)
      then obtain pre c c' suf where *: "cs = pre @ c # suf" "cs1 = pre @ c' # suf" "takes_over now pk ipp c c'"
        using coipil_addr_loop_Some by blast
      moreover have "client_ok c' \<and> cd_public_key c' = pk"
        using * ok pk takes_over_ok by (simp add: clients_ok_def)
      ultimately have "clients_ok cs1" using ok new clients_ok_replace [of pre c suf c'] by auto
      then show ?thesis using None addr * step \<open>client_ok c' \<and> cd_public_key c' = pk\<close>
        by (auto simp: client_or_ip_port_in_list_def)
    next
      case addr: None
      then show ?thesis using None step new ok by (auto simp: client_or_ip_port_in_list_def)
    qed
  qed
qed

section \<open>The closest nodes\<close>

definition hardening_correct :: "Hardening \<Rightarrow> u8" where
  "hardening_correct h = routes_requests_ok h + push_bit 1 (send_nodes_ok h) + push_bit 2 (testing_requests h)"

definition pick_assoc :: "u8 \<Rightarrow> Client_data \<Rightarrow> IPPTsPng" where
  "pick_assoc sa_family c =
     (if sa_family = AF_INET then assoc4 c
      else if sa_family = AF_INET6 then assoc6 c
      else if timestamp (assoc4 c) \<ge> timestamp (assoc6 c) then assoc4 c else assoc6 c)"

text \<open>The three tests of the loop body that skip a client, after the one for duplicates.\<close>

definition sendable :: "u64 \<Rightarrow> bytes \<Rightarrow> u8 \<Rightarrow> bool \<Rightarrow> bool \<Rightarrow> Client_data \<Rightarrow> bool" where
  "sendable now public_key sa_family is_LAN want_good c =
     (let ipptp = pick_assoc sa_family c
      in \<not> assoc_bad now ipptp \<and>
         \<not> (LAN_ip (ipp_ip (ip_port ipptp)) \<and> \<not> is_LAN) \<and>
         \<not> (\<not> LAN_ip (ipp_ip (ip_port ipptp)) \<and> want_good \<and>
            hardening_correct (hardening ipptp) \<noteq> HARDENING_ALL_OK \<and>
            \<not> id_equal public_key (cd_public_key c)))"

fun close_loop :: "u64 \<Rightarrow> bytes \<Rightarrow> u8 \<Rightarrow> bool \<Rightarrow> bool \<Rightarrow> Client_data list \<Rightarrow>
    Node_format list \<times> nat \<Rightarrow> Node_format list \<times> nat" where
  "close_loop now public_key fam is_LAN want_good [] (nodes_list, num_nodes) = (nodes_list, num_nodes)"
| "close_loop now public_key fam is_LAN want_good (client # rest) (nodes_list, num_nodes) =
     close_loop now public_key fam is_LAN want_good rest
       (if client_in_nodelist nodes_list (cd_public_key client) then (nodes_list, num_nodes)
        else if \<not> sendable now public_key fam is_LAN want_good client then (nodes_list, num_nodes)
        else if num_nodes < MAX_SENT_NODES then
          (nodes_list[num_nodes := \<lparr>nf_public_key = cd_public_key client,
                                    nf_ip_port = ip_port (pick_assoc fam client)\<rparr>], num_nodes + 1)
        else (fst (add_to_list nodes_list (cd_public_key client) (ip_port (pick_assoc fam client)) public_key),
              num_nodes))"

definition get_close_nodes_inner :: "u64 \<Rightarrow> bytes \<Rightarrow> Node_format list \<times> nat \<Rightarrow> u8 \<Rightarrow> Client_data list \<Rightarrow>
    bool \<Rightarrow> bool \<Rightarrow> Node_format list \<times> nat" where
  "get_close_nodes_inner now public_key st sa_family client_list is_LAN want_good =
     (if sa_family \<noteq> AF_INET \<and> sa_family \<noteq> AF_INET6 \<and> sa_family \<noteq> 0 then st
      else close_loop now public_key sa_family is_LAN want_good client_list st)"

text \<open>
  \<open>get_somewhat_close_nodes\<close> takes the close list and the client lists of the friends, and
  passes \<open>0\<close> for \<open>want_good\<close>.
\<close>

definition get_somewhat_close_nodes :: "u64 \<Rightarrow> Client_data list \<Rightarrow> Client_data list list \<Rightarrow> bytes \<Rightarrow>
    Node_format list \<Rightarrow> u8 \<Rightarrow> bool \<Rightarrow> Node_format list \<times> nat" where
  "get_somewhat_close_nodes now close_list friend_lists public_key nodes_list sa_family is_LAN =
     fold (\<lambda>client_list st. get_close_nodes_inner now public_key st sa_family client_list is_LAN False)
       friend_lists
       (get_close_nodes_inner now public_key (nodes_list, 0) sa_family close_list is_LAN False)"

definition get_close_nodes :: "u64 \<Rightarrow> Client_data list \<Rightarrow> Client_data list list \<Rightarrow> bytes \<Rightarrow> u8 \<Rightarrow> bool \<Rightarrow>
    Node_format list \<times> nat" where
  "get_close_nodes now close_list friend_lists public_key sa_family is_LAN =
     get_somewhat_close_nodes now close_list friend_lists public_key (replicate MAX_SENT_NODES node_zero) sa_family is_LAN"

text \<open>
  The state of the search after the clients \<open>cs\<close> (those that may be sent): while there is
  room the list has all of them, then the closest four.
\<close>

definition found_keys :: "Node_format list \<Rightarrow> nat \<Rightarrow> bytes set" where
  "found_keys ns num = nf_public_key ` set (take num ns)"

definition close_inv :: "bytes \<Rightarrow> u8 \<Rightarrow> Client_data set \<Rightarrow> Node_format list \<times> nat \<Rightarrow> bool" where
  "close_inv pk fam C st \<longleftrightarrow> (case st of (ns, num) \<Rightarrow>
     length ns = MAX_SENT_NODES \<and> num \<le> MAX_SENT_NODES \<and> (\<forall>n\<in>set ns. node_ok n) \<and>
     distinct (map nf_public_key (take num ns)) \<and>
     (\<forall>n\<in>set (take num ns). \<exists>c\<in>C. nf_public_key n = cd_public_key c \<and> nf_ip_port n = ip_port (pick_assoc fam c)) \<and>
     (num < MAX_SENT_NODES \<longrightarrow> found_keys ns num = cd_public_key ` C \<and> (\<forall>n\<in>set (drop num ns). nf_public_key n = zero_key)) \<and>
     (\<forall>x\<in>found_keys ns num. \<forall>y\<in>cd_public_key ` C - found_keys ns num. key_dist pk x < key_dist pk y))"

lemma found_in_nodelist:
  assumes "close_inv pk fam C (ns, num)" and "k \<noteq> zero_key" and "length k = 32"
  shows "client_in_nodelist ns k \<longleftrightarrow> k \<in> found_keys ns num"
proof -
  have ok: "\<forall>n\<in>set ns. length (nf_public_key n) = length k"
    using assms by (simp add: close_inv_def node_ok_def)
  have "set ns = set (take num ns) \<union> set (drop num ns)" by (metis append_take_drop_id set_append)
  moreover have "\<forall>n\<in>set (drop num ns). nf_public_key n = zero_key"
    using assms(1) by (cases "num < 4") (auto simp: close_inv_def)
  ultimately show ?thesis using client_in_nodelist_iff [OF ok] assms(2) by (auto simp: found_keys_def)
qed

lemma close_inv_dup:
  assumes "close_inv pk fam C (ns, num)" and "cd_public_key c \<in> found_keys ns num"
  shows "close_inv pk fam (insert c C) (ns, num)"
  using assms by (auto simp: close_inv_def)

lemma close_inv_append:
  assumes inv: "close_inv pk fam C (ns, num)" and new: "cd_public_key c \<notin> found_keys ns num" and num: "num < 4"
    and n: "n = \<lparr>nf_public_key = cd_public_key c, nf_ip_port = ip_port (pick_assoc fam c)\<rparr>" and ok: "node_ok n"
  shows "close_inv pk fam (insert c C) (ns[num := n], num + 1)"
proof -
  have len: "length ns = 4" using inv by (simp add: close_inv_def)
  have tk: "take (num + 1) (ns[num := n]) = take num ns @ [n]"
    using num len by (simp add: take_Suc_conv_app_nth)
  have dr: "set (drop (num + 1) (ns[num := n])) \<subseteq> set (drop num ns)"
    by (simp add: set_drop_subset_set_drop)
  have found: "found_keys (ns[num := n]) (num + 1) = insert (cd_public_key c) (found_keys ns num)"
    unfolding found_keys_def tk by (simp add: n)
  have "\<forall>m\<in>set (ns[num := n]). node_ok m"
    using inv ok set_update_subset_insert [of ns num n] by (auto simp: close_inv_def)
  moreover have "distinct (map nf_public_key (take (num + 1) (ns[num := n])))"
    using inv new unfolding tk by (auto simp: close_inv_def found_keys_def n)
  moreover have "\<forall>m\<in>set (take (num + 1) (ns[num := n])). \<exists>c'\<in>insert c C.
      nf_public_key m = cd_public_key c' \<and> nf_ip_port m = ip_port (pick_assoc fam c')"
    using inv unfolding tk by (auto simp: close_inv_def n)
  moreover have "\<forall>m\<in>set (drop (num + 1) (ns[num := n])). nf_public_key m = zero_key"
    using inv num dr by (auto simp: close_inv_def)
  moreover have "found_keys (ns[num := n]) (num + 1) = cd_public_key ` insert c C"
    using inv num found by (simp add: close_inv_def)
  ultimately show ?thesis using len num unfolding close_inv_def by auto
qed

lemma set_carry: "insert (snd (carry c ms n)) (set (fst (carry c ms n))) = insert n (set ms)"
  using arg_cong [OF carry_mset [of c ms n], of set_mset] by simp

lemma distinct_carry:
  assumes "distinct (nf_public_key n # map nf_public_key ns)"
  shows "distinct (nf_public_key (snd (carry c ns n)) # map nf_public_key (fst (carry c ns n)))"
proof -
  have "image_mset nf_public_key (add_mset (snd (carry c ns n)) (mset (fst (carry c ns n)))) =
      image_mset nf_public_key (add_mset n (mset ns))"
    by (simp only: carry_mset)
  then have "mset (nf_public_key (snd (carry c ns n)) # map nf_public_key (fst (carry c ns n))) =
      mset (nf_public_key n # map nf_public_key ns)" by simp
  then show ?thesis using assms mset_eq_imp_distinct_iff by blast
qed

lemma length_carry [simp]: "length (fst (carry c ms n)) = length ms"
  by (induction ms arbitrary: n) auto

lemma close_inv_full:
  assumes inv: "close_inv pk fam C (ns, num)" and new: "cd_public_key c \<notin> found_keys ns num" and num: "\<not> num < 4"
    and n: "n = \<lparr>nf_public_key = cd_public_key c, nf_ip_port = ip_port (pick_assoc fam c)\<rparr>" and ok: "node_ok n"
    and pk: "length pk = 32"
  shows "close_inv pk fam (insert c C) (fst (carry pk ns n), num)"
proof -
  let ?K = "fst (carry pk ns n)" and ?d = "snd (carry pk ns n)"
  have len: "length ns = 4" "num = 4" using inv num by (auto simp: close_inv_def)
  have set: "insert ?d (set ?K) = insert n (set ns)" by (rule set_carry)
  have found: "found_keys ns num = nf_public_key ` set ns" "found_keys ?K num = nf_public_key ` set ?K"
    using len by (simp_all add: found_keys_def)
  have "\<forall>x\<in>found_keys ns num. \<forall>y\<in>cd_public_key ` C - found_keys ns num. key_dist pk x < key_dist pk y"
    using inv by (simp add: close_inv_def)
  then have near: "\<forall>x\<in>nf_public_key ` set ns. \<forall>y\<in>cd_public_key ` C - nf_public_key ` set ns. key_dist pk x < key_dist pk y"
    by (simp only: found)
  have wf: "\<forall>m\<in>set ns. node_ok m" "distinct (map nf_public_key ns)"
    and src: "\<forall>m\<in>set ns. \<exists>c\<in>C. nf_public_key m = cd_public_key c \<and> nf_ip_port m = ip_port (pick_assoc fam c)"
    using inv len by (auto simp: close_inv_def)
  have sub: "set ?K \<subseteq> insert n (set ns)" "?d \<in> insert n (set ns)" using set by auto
  have wfK: "\<forall>m\<in>insert ?d (set ?K). node_ok m" using wf(1) ok set by auto
  have dist: "distinct (nf_public_key ?d # map nf_public_key ?K)"
    using distinct_carry [of n ns pk] new wf(2) by (simp add: found n)
  have keys: "insert (nf_public_key ?d) (nf_public_key ` set ?K) = insert (cd_public_key c) (nf_public_key ` set ns)"
    using arg_cong [OF set, of "image nf_public_key"] by (simp add: n)
  have lt_d: "key_dist pk x < node_dist pk ?d" if "x \<in> nf_public_key ` set ?K" for x
  proof -
    from that obtain m where m: "m \<in> set ?K" "x = nf_public_key m" by blast
    have "x \<noteq> nf_public_key ?d" using dist that by (metis distinct.simps(2) list.set_map)
    moreover have "length x = 32" "length (nf_public_key ?d) = 32" using wfK m by (auto simp: node_ok_def)
    ultimately have "key_dist pk x \<noteq> node_dist pk ?d" using key_dist_inj [of x pk "nf_public_key ?d"] pk by auto
    moreover have "key_dist pk x \<le> node_dist pk ?d" using carry_max [of pk n ns] m by simp
    ultimately show ?thesis by simp
  qed
  have "key_dist pk x < key_dist pk y"
    if x: "x \<in> nf_public_key ` set ?K" and y: "y \<in> cd_public_key ` insert c C - nf_public_key ` set ?K" for x y
  proof (cases "y = nf_public_key ?d")
    case False
    then have y': "y \<in> cd_public_key ` C - nf_public_key ` set ns" "y \<noteq> cd_public_key c" using y keys by auto
    show ?thesis
    proof (cases "x \<in> nf_public_key ` set ns")
      case True
      then show ?thesis using near y' by blast
    next
      case False
      then have "x = cd_public_key c" using x keys by auto
      then have "nf_public_key ?d \<noteq> cd_public_key c" using x dist by (metis distinct.simps(2) list.set_map)
      then have "nf_public_key ?d \<in> nf_public_key ` set ns" using keys by (metis insertI1 insertE)
      then show ?thesis using near y' lt_d [OF x] by (meson less_trans)
    qed
  qed (use lt_d x in simp)
  then have "\<forall>x\<in>found_keys ?K num. \<forall>y\<in>cd_public_key ` insert c C - found_keys ?K num. key_dist pk x < key_dist pk y"
    unfolding found by blast
  moreover have "\<forall>m\<in>set ?K. \<exists>c'\<in>insert c C. nf_public_key m = cd_public_key c' \<and> nf_ip_port m = ip_port (pick_assoc fam c')"
    using src sub(1) by (auto simp: n)
  ultimately show ?thesis using len wfK dist by (simp add: close_inv_def)
qed

definition usable :: "Client_data \<Rightarrow> bool" where
  "usable c \<longleftrightarrow> client_ok c \<and> cd_public_key c \<noteq> zero_key"

lemma pick_assoc_node_ok:
  "client_ok c \<Longrightarrow> node_ok \<lparr>nf_public_key = cd_public_key c, nf_ip_port = ip_port (pick_assoc fam c)\<rparr>"
  by (simp add: client_ok_def node_ok_def pick_assoc_def)

lemma close_loop_inv:
  assumes "close_inv pk fam C st" and "length pk = 32"
    and "\<forall>c\<in>set cs. sendable now pk fam is_LAN want_good c \<longrightarrow> usable c" and "\<forall>c\<in>set cs. client_ok c"
  shows "close_inv pk fam (C \<union> {c \<in> set cs. sendable now pk fam is_LAN want_good c})
    (close_loop now pk fam is_LAN want_good cs st)"
  using assms
proof (induction cs arbitrary: C st)
  case Nil
  then show ?case by (cases st) simp
next
  case (Cons c cs)
  obtain ns num where st: "st = (ns, num)" by fastforce
  let ?s = "sendable now pk fam is_LAN want_good"
  let ?n = "\<lparr>nf_public_key = cd_public_key c, nf_ip_port = ip_port (pick_assoc fam c)\<rparr>"
  let ?st' = "if client_in_nodelist ns (cd_public_key c) then (ns, num) else if \<not> ?s c then (ns, num)
    else if num < 4 then (ns[num := ?n], num + 1)
    else (fst (add_to_list ns (cd_public_key c) (ip_port (pick_assoc fam c)) pk), num)"
  have inv: "close_inv pk fam C (ns, num)" using Cons.prems(1) st by simp
  have n: "node_ok ?n" using Cons.prems(4) by (simp add: pick_assoc_node_ok)
  have len: "length (cd_public_key c) = 32" using Cons.prems(4) by (simp add: client_ok_def)
  have "close_inv pk fam (C \<union> (if ?s c then {c} else {})) ?st'"
  proof (cases "?s c")
    case False
    then show ?thesis using inv by simp
  next
    case True
    then have nz: "cd_public_key c \<noteq> zero_key" using Cons.prems(3) by (simp add: usable_def)
    note mem = found_in_nodelist [OF inv nz len]
    have kl: "key_len pk ns" using inv Cons.prems(2) by (simp add: key_len_def close_inv_def node_ok_def)
    show ?thesis
      using True mem inv close_inv_dup [OF inv] close_inv_append [OF inv _ _ refl n]
        close_inv_full [OF inv _ _ refl n Cons.prems(2)]
        add_to_list_carry [OF kl, of "cd_public_key c"] len Cons.prems(2)
      by auto
  qed
  then have "close_inv pk fam ((C \<union> (if ?s c then {c} else {})) \<union> {c \<in> set cs. ?s c})
      (close_loop now pk fam is_LAN want_good cs ?st')"
    using Cons.prems by (intro Cons.IH) auto
  moreover have "(C \<union> (if ?s c then {c} else {})) \<union> {c \<in> set cs. ?s c} = C \<union> {c' \<in> set (c # cs). ?s c'}" by auto
  ultimately show ?case by (simp only: st close_loop.simps)
qed

lemma close_inv_init: "close_inv pk fam {} (replicate 4 node_zero, 0)"
  by (simp add: close_inv_def found_keys_def sample_ok) (simp add: node_zero_def)

lemma close_fold_inv:
  assumes "close_inv pk fam C st" and "length pk = 32"
    and "\<forall>c\<in>\<Union>(set ` set css). client_ok c \<and> (sendable now pk fam is_LAN False c \<longrightarrow> usable c)"
    and "fam = AF_INET \<or> fam = AF_INET6 \<or> fam = 0"
  shows "close_inv pk fam (C \<union> {c \<in> \<Union>(set ` set css). sendable now pk fam is_LAN False c})
    (fold (\<lambda>cs st. get_close_nodes_inner now pk st fam cs is_LAN False) css st)"
  using assms
proof (induction css arbitrary: C st)
  case (Cons cs css)
  let ?s = "sendable now pk fam is_LAN False"
  have "close_inv pk fam (C \<union> {c \<in> set cs. ?s c}) (get_close_nodes_inner now pk st fam cs is_LAN False)"
    using Cons.prems close_loop_inv [of pk fam C st cs now is_LAN False] by (auto simp: get_close_nodes_inner_def)
  then have "close_inv pk fam ((C \<union> {c \<in> set cs. ?s c}) \<union> {c \<in> \<Union>(set ` set css). ?s c})
    (fold (\<lambda>cs st. get_close_nodes_inner now pk st fam cs is_LAN False) css
      (get_close_nodes_inner now pk st fam cs is_LAN False))"
    using Cons.prems by (intro Cons.IH) auto
  moreover have "(C \<union> {c \<in> set cs. ?s c}) \<union> {c \<in> \<Union>(set ` set css). ?s c} =
      C \<union> {c \<in> \<Union>(set ` set (cs # css)). ?s c}" by auto
  ultimately show ?case by (simp only: fold_Cons o_apply)
qed simp

section \<open>Properties\<close>

text \<open>
  C7. \<open>get_close_nodes\<close> returns the closest nodes: with \<open>E\<close> the clients of all lists that may be
  sent (not timed out, LAN addresses only to LAN peers), it returns the minimum of four and
  the number of distinct keys in \<open>E\<close>; the nodes returned have different keys, each with an
  address of a client in \<open>E\<close> with that key, and every key of \<open>E\<close> left out is further from the
  wanted key than every key returned.
\<close>

theorem get_close_nodes_closest:
  assumes "length pk = 32" and "fam = AF_INET \<or> fam = AF_INET6 \<or> fam = 0"
    and "\<forall>c\<in>set close_list \<union> \<Union>(set ` set friend_lists). client_ok c \<and>
           (sendable now pk fam is_LAN False c \<longrightarrow> cd_public_key c \<noteq> zero_key)"
    and "get_close_nodes now close_list friend_lists pk fam is_LAN = (nodes, num)"
    and "E = {c \<in> set close_list \<union> \<Union>(set ` set friend_lists). sendable now pk fam is_LAN False c}"
  shows "num = min 4 (card (cd_public_key ` E)) \<and> length nodes = 4 \<and>
    distinct (map nf_public_key (take num nodes)) \<and>
    (\<forall>n\<in>set (take num nodes). \<exists>c\<in>E. nf_public_key n = cd_public_key c \<and> nf_ip_port n = ip_port (pick_assoc fam c)) \<and>
    (\<forall>n\<in>set (take num nodes). \<forall>c\<in>E. cd_public_key c \<notin> nf_public_key ` set (take num nodes) \<longrightarrow>
       key_dist pk (nf_public_key n) < key_dist pk (cd_public_key c))"
proof -
  have "close_inv pk fam E (nodes, num)"
    using close_fold_inv [OF close_inv_init assms(1), of "close_list # friend_lists" now fam is_LAN] assms(2-5)
    by (simp add: get_close_nodes_def get_somewhat_close_nodes_def usable_def)
  then have inv: "length nodes = 4" "num \<le> 4" "distinct (map nf_public_key (take num nodes))"
    "\<forall>n\<in>set (take num nodes). \<exists>c\<in>E. nf_public_key n = cd_public_key c \<and> nf_ip_port n = ip_port (pick_assoc fam c)"
    "num < 4 \<longrightarrow> found_keys nodes num = cd_public_key ` E"
    "\<forall>x\<in>found_keys nodes num. \<forall>y\<in>cd_public_key ` E - found_keys nodes num. key_dist pk x < key_dist pk y"
    by (auto simp: close_inv_def)
  have card: "card (found_keys nodes num) = num"
    using inv(1-3) distinct_card [of "map nf_public_key (take num nodes)"] by (simp add: found_keys_def)
  have "found_keys nodes num \<subseteq> cd_public_key ` E" using inv(4) by (auto simp: found_keys_def)
  moreover have "finite E" by (simp add: assms(5))
  ultimately have "num \<le> card (cd_public_key ` E)" using card card_mono finite_imageI by metis
  then have "num = min 4 (card (cd_public_key ` E))" using inv(2,5) card by (cases "num < 4") auto
  then show ?thesis using inv(1,3,4,6) by (auto simp: found_keys_def)
qed

definition sample_client :: "u8 \<Rightarrow> Client_data" where
  "sample_client b = client_zero\<lparr>cd_public_key := replicate 32 b,
     assoc4 := assoc_zero\<lparr>ip_port := \<lparr>ipp_ip = \<lparr>ip_family = 2, ip_addr = [8, 8, 8, 8] @ replicate 12 0\<rparr>, ipp_port = 33445\<rparr>,
       timestamp := 1000\<rparr>\<rparr>"

lemma sample_client_ok: "client_ok (sample_client b)"
  by (simp add: sample_client_def client_ok_def client_zero_def assoc_zero_def ipport_zero_def ip_zero_def ip_ok_def)

lemma sample_client_sendable:
  "cd_public_key (sample_client b) = replicate 32 b" "sendable 1010 pk 0 False False (sample_client b)"
  by (simp_all add: sample_client_def sendable_def pick_assoc_def is_timeout_def client_zero_def assoc_zero_def Let_def LAN_ip_def
      Local_ip_def Local_ip4_def LAN_ip4_def ip4_of_def ipport_zero_def ip_zero_def word_le_nat_alt)

theorem get_close_nodes_closest_witness:
  "snd (get_close_nodes 1010 [sample_client 1] [[sample_client 2, sample_client 3]] (replicate 32 7) 0 False) =
     min 4 (card (cd_public_key ` {c \<in> set [sample_client 1] \<union> \<Union>(set ` set [[sample_client 2, sample_client 3]]).
       sendable 1010 (replicate 32 7) 0 False False c}))"
  using get_close_nodes_closest [of "replicate 32 7" 0 "[sample_client 1]" "[[sample_client 2, sample_client 3]]" 1010 False
      "fst (get_close_nodes 1010 [sample_client 1] [[sample_client 2, sample_client 3]] (replicate 32 7) 0 False)"
      "snd (get_close_nodes 1010 [sample_client 1] [[sample_client 2, sample_client 3]] (replicate 32 7) 0 False)", OF _ _ _ _ refl]
  by (simp add: sample_client_ok sample_client_sendable)

end
