(* ===== verification/DHT_State.thy ===== *)
theory DHT_State
  imports DHT_Nodes Shared_Keys Ping_Array
begin

text \<open>
  The state of the DHT and the operations on its lists (\<open>toxcore/DHT.c\<close>, \<open>toxcore/DHT.h\<close>):
  buckets of the close list, the eviction order of a friend's list, \<open>addto_lists\<close>,
  \<open>ping_node_from_getnodes_ok\<close>, \<open>returnedip_ports\<close> and the friend list.

  An access outside \<open>close_clientlist\<close> is the value \<open>None\<close>. The C library's \<open>qsort\<close> is the
  argument \<open>qs\<close> of the functions that sort; \<open>qsort_ok\<close> is its contract. Callbacks are
  events with the pointers they are given as numbers.
\<close>

abbreviation "MAX_CLOSE_TO_BOOTSTRAP_NODES \<equiv> (8::nat)"
abbreviation "DHT_FRIEND_MAX_LOCKS \<equiv> (32::nat)"
abbreviation "MAX_TO_PING \<equiv> (32::nat)"

section \<open>Data\<close>

record NAT =
  hole_punching :: bool
  punching_index :: u32
  tries :: u32
  punching_index2 :: u32
  punching_timestamp :: u64
  recvNATping_timestamp :: u64
  NATping_id :: u64
  NATping_timestamp :: u64

record lock_callback =
  ip_callback :: "nat option"
  cb_data :: nat
  cb_number :: int

record DHT_Friend =
  df_public_key :: bytes
  client_list :: "Client_data list"
  lastgetnode :: u64
  bootstrap_times :: u32
  nat_state :: NAT
  lock_count :: u16
  callbacks :: "lock_callback list"
  df_to_bootstrap :: "Node_format list"
  df_num_to_bootstrap :: nat

text \<open>The DHT with the \<open>PING\<close> object it owns (\<open>ping.c\<close>).\<close>

record DHT =
  close_clientlist :: "Client_data list"
  close_lastgetnodes :: u64
  close_bootstrap_times :: u32
  self_public_key :: bytes
  self_secret_key :: bytes
  friends_list :: "DHT_Friend list"
  shared_keys_recv :: shared_keys
  shared_keys_sent :: shared_keys
  dht_ping_array :: ping_array
  dht_harden_ping_array :: ping_array
  to_bootstrap :: "Node_format list"
  num_to_bootstrap :: nat
  ping_ping_array :: ping_array
  to_ping :: "Node_format list"
  last_to_ping :: u64

datatype dht_event = SendPacket IP_Port bytes | IpCallback nat nat int IP_Port

section \<open>Eviction order\<close>

definition cmp_dht_entry :: "u64 \<Rightarrow> bytes \<Rightarrow> Client_data \<Rightarrow> Client_data \<Rightarrow> int" where
  "cmp_dht_entry now cmp_public_key entry1 entry2 =
     (let t1 = both_bad now entry1; t2 = both_bad now entry2
      in if t1 \<and> t2 then 0 else if t1 then - 1 else if t2 then 1
         else
           let t1 = hardening_correct (hardening (assoc4 entry1)) \<noteq> HARDENING_ALL_OK \<and>
                    hardening_correct (hardening (assoc6 entry1)) \<noteq> HARDENING_ALL_OK;
               t2 = hardening_correct (hardening (assoc4 entry2)) \<noteq> HARDENING_ALL_OK \<and>
                    hardening_correct (hardening (assoc6 entry2)) \<noteq> HARDENING_ALL_OK
           in if t1 \<noteq> t2 \<and> t1 then - 1
              else if t1 \<noteq> t2 \<and> t2 then 1
              else
                let close = id_closest cmp_public_key (cd_public_key entry1) (cd_public_key entry2)
                in if close = 1 then 1 else if close = 2 then - 1 else 0)"

definition store_node_ok :: "u64 \<Rightarrow> Client_data \<Rightarrow> bytes \<Rightarrow> bytes \<Rightarrow> bool" where
  "store_node_ok now client public_key comp_public_key \<longleftrightarrow>
     both_bad now client \<or> id_closest comp_public_key (cd_public_key client) public_key = 2"

type_synonym qsort_fun = "(Client_data \<Rightarrow> Client_data \<Rightarrow> int) \<Rightarrow> Client_data list \<Rightarrow> Client_data list"

text \<open>
  The contract of \<open>qsort\<close>: a permutation, sorted whenever the comparison function is that of
  a total preorder on the elements.
\<close>

definition cmp_preorder :: "('a \<Rightarrow> 'a \<Rightarrow> int) \<Rightarrow> 'a set \<Rightarrow> bool" where
  "cmp_preorder cmp A \<longleftrightarrow>
     (\<forall>x\<in>A. \<forall>y\<in>A. (cmp x y < 0 \<longleftrightarrow> cmp y x > 0)) \<and>
     (\<forall>x\<in>A. \<forall>y\<in>A. \<forall>z\<in>A. cmp x y \<le> 0 \<longrightarrow> cmp y z \<le> 0 \<longrightarrow> cmp x z \<le> 0)"

definition qsort_ok :: "(('a \<Rightarrow> 'a \<Rightarrow> int) \<Rightarrow> 'a list \<Rightarrow> 'a list) \<Rightarrow> bool" where
  "qsort_ok qs \<longleftrightarrow> (\<forall>cmp xs. mset (qs cmp xs) = mset xs \<and>
     (cmp_preorder cmp (set xs) \<longrightarrow> sorted_wrt (\<lambda>x y. cmp x y \<le> 0) (qs cmp xs)))"

definition sort_client_list :: "qsort_fun \<Rightarrow> u64 \<Rightarrow> Client_data list \<Rightarrow> bytes \<Rightarrow> Client_data list" where
  "sort_client_list qs now list comp_public_key = qs (cmp_dht_entry now comp_public_key) list"

text \<open>
  The assignments shared by \<open>replace_all\<close> and \<open>add_to_close\<close>: the address goes to the
  association of its family, the other association is cleared.
\<close>

definition store_client :: "u64 \<Rightarrow> bytes \<Rightarrow> IP_Port \<Rightarrow> Client_data \<Rightarrow> Client_data" where
  "store_client now public_key ipp client =
     (if ip_family (ipp_ip ipp) = AF_INET then
        client\<lparr>cd_public_key := public_key,
               assoc4 := (assoc4 client)\<lparr>ip_port := ipp, timestamp := now,
                 ret_ip_port := ipport_zero, ret_timestamp := 0\<rparr>,
               assoc6 := assoc_zero\<rparr>
      else
        client\<lparr>cd_public_key := public_key,
               assoc6 := (assoc6 client)\<lparr>ip_port := ipp, timestamp := now,
                 ret_ip_port := ipport_zero, ret_timestamp := 0\<rparr>,
               assoc4 := assoc_zero\<rparr>)"

definition replace_all :: "qsort_fun \<Rightarrow> u64 \<Rightarrow> Client_data list \<Rightarrow> bytes \<Rightarrow> IP_Port \<Rightarrow> bytes \<Rightarrow>
    Client_data list \<times> bool" where
  "replace_all qs now list public_key ipp comp_public_key =
     (if ip_family (ipp_ip ipp) \<noteq> AF_INET \<and> ip_family (ipp_ip ipp) \<noteq> AF_INET6 then (list, False)
      else if store_node_ok now (list ! 1) public_key comp_public_key \<or>
              store_node_ok now (list ! 0) public_key comp_public_key then
        let list' = sort_client_list qs now list comp_public_key
        in (list'[0 := store_client now public_key ipp (list' ! 0)], True)
      else (list, False))"

section \<open>The close list\<close>

text \<open>
  The loop over the \<open>LCLIENT_NODES\<close> entries of a bucket, from entry \<open>i\<close> on: the index of the
  first entry whose two addresses timed out. Outer \<open>None\<close>: an access out of range.
\<close>

function bucket_loop :: "u64 \<Rightarrow> Client_data list \<Rightarrow> nat \<Rightarrow> nat \<Rightarrow> nat option option" where
  "bucket_loop now list index i =
     (if i < LCLIENT_NODES then
        if index * LCLIENT_NODES + i < length list then
          if both_bad now (list ! (index * LCLIENT_NODES + i)) then Some (Some (index * LCLIENT_NODES + i))
          else bucket_loop now list index (Suc i)
        else None
      else Some None)"
  by pat_completeness auto
termination by (relation "measure (\<lambda>(now, list, index, i). 8 - i)") auto

declare bucket_loop.simps [simp del]

definition close_index :: "bytes \<Rightarrow> bytes \<Rightarrow> nat" where
  "close_index public_key self_pk =
     (let index = bit_by_bit_cmp public_key self_pk
      in if index > LCLIENT_LENGTH then LCLIENT_LENGTH - 1 else index)"

text \<open>The result is \<open>True\<close> for the return value \<open>0\<close> and \<open>False\<close> for \<open>-1\<close>.\<close>

definition add_to_close :: "u64 \<Rightarrow> DHT \<Rightarrow> bytes \<Rightarrow> IP_Port \<Rightarrow> bool \<Rightarrow> (DHT \<times> bool) option" where
  "add_to_close now dht public_key ipp simulate =
     (case bucket_loop now (close_clientlist dht) (close_index public_key (self_public_key dht)) 0 of
        None \<Rightarrow> None
      | Some None \<Rightarrow> Some (dht, False)
      | Some (Some k) \<Rightarrow>
          Some (if \<not> simulate
                then dht\<lparr>close_clientlist := (close_clientlist dht)
                       [k := store_client now public_key ipp (close_clientlist dht ! k)]\<rparr>
                else dht, True))"

definition node_addable_to_close_list :: "u64 \<Rightarrow> DHT \<Rightarrow> bytes \<Rightarrow> IP_Port \<Rightarrow> bool option" where
  "node_addable_to_close_list now dht public_key ipp =
     map_option snd (add_to_close now dht public_key ipp True)"

fun is_pk_in_client_list :: "u64 \<Rightarrow> Client_data list \<Rightarrow> bytes \<Rightarrow> IP_Port \<Rightarrow> bool" where
  "is_pk_in_client_list now [] public_key ipp = False"
| "is_pk_in_client_list now (c # cs) public_key ipp =
     (if ((ip_family (ipp_ip ipp) = AF_INET \<and> \<not> assoc_bad now (assoc4 c)) \<or>
          (ip_family (ipp_ip ipp) = AF_INET6 \<and> \<not> assoc_bad now (assoc6 c))) \<and>
         memcmp (cd_public_key c) public_key = 0
      then True else is_pk_in_client_list now cs public_key ipp)"

section \<open>Nodes to ask next\<close>

definition bootstrap_friend :: "u64 \<Rightarrow> bytes \<Rightarrow> IP_Port \<Rightarrow> DHT_Friend \<Rightarrow> DHT_Friend \<times> bool" where
  "bootstrap_friend now public_key ipp f =
     (let store_ok = store_node_ok now (client_list f ! 1) public_key (df_public_key f) \<or>
                     store_node_ok now (client_list f ! 0) public_key (df_public_key f)
      in if store_ok \<and> \<not> client_in_nodelist (take (df_num_to_bootstrap f) (df_to_bootstrap f)) public_key \<and>
            \<not> is_pk_in_client_list now (client_list f) public_key ipp then
           (if df_num_to_bootstrap f < MAX_SENT_NODES then
              f\<lparr>df_to_bootstrap := (df_to_bootstrap f)[df_num_to_bootstrap f :=
                    \<lparr>nf_public_key = public_key, nf_ip_port = ipp\<rparr>],
                df_num_to_bootstrap := df_num_to_bootstrap f + 1\<rparr>
            else f\<lparr>df_to_bootstrap := fst (add_to_list (df_to_bootstrap f) public_key ipp (df_public_key f))\<rparr>, True)
         else (f, False))"

fun bootstrap_friends :: "u64 \<Rightarrow> bytes \<Rightarrow> IP_Port \<Rightarrow> DHT_Friend list \<Rightarrow> DHT_Friend list \<times> bool" where
  "bootstrap_friends now public_key ipp [] = ([], False)"
| "bootstrap_friends now public_key ipp (f # fs) =
     (let (f', r) = bootstrap_friend now public_key ipp f; (fs', r') = bootstrap_friends now public_key ipp fs
      in (f' # fs', r \<or> r'))"

definition ping_node_from_getnodes_ok :: "u64 \<Rightarrow> DHT \<Rightarrow> bytes \<Rightarrow> IP_Port \<Rightarrow> (DHT \<times> bool) option" where
  "ping_node_from_getnodes_ok now dht public_key ipp =
     (case add_to_close now dht public_key ipp True of
        None \<Rightarrow> None
      | Some (_, ret) \<Rightarrow>
          let dht1 = (if ret \<and> \<not> client_in_nodelist (take (num_to_bootstrap dht) (to_bootstrap dht)) public_key then
                        if num_to_bootstrap dht < MAX_CLOSE_TO_BOOTSTRAP_NODES then
                          dht\<lparr>to_bootstrap := (to_bootstrap dht)[num_to_bootstrap dht :=
                                \<lparr>nf_public_key = public_key, nf_ip_port = ipp\<rparr>],
                              num_to_bootstrap := num_to_bootstrap dht + 1\<rparr>
                        else dht\<lparr>to_bootstrap :=
                               fst (add_to_list (to_bootstrap dht) public_key ipp (self_public_key dht))\<rparr>
                      else dht);
              (fs, r) = bootstrap_friends now public_key ipp (friends_list dht1)
          in Some (dht1\<lparr>friends_list := fs\<rparr>, ret \<or> r))"

section \<open>Adding a node to all lists\<close>

text \<open>One turn of the loop over the friends: whether the node is used in the friend's list.\<close>

definition addto_friend :: "qsort_fun \<Rightarrow> u64 \<Rightarrow> IP_Port \<Rightarrow> bytes \<Rightarrow> DHT_Friend \<Rightarrow> DHT_Friend \<times> bool" where
  "addto_friend qs now ipp public_key f =
     (let (cl, found) = client_or_ip_port_in_list now (client_list f) public_key ipp
      in if \<not> found then
           let (cl', stored) = replace_all qs now (client_list f) public_key ipp (df_public_key f)
           in (f\<lparr>client_list := cl'\<rparr>, stored)
         else (f\<lparr>client_list := cl\<rparr>, True))"

text \<open>
  The loop: the updated friends, how many use the node, and the number of the last friend
  whose own key it is.
\<close>

fun addto_friends :: "qsort_fun \<Rightarrow> u64 \<Rightarrow> IP_Port \<Rightarrow> bytes \<Rightarrow> nat \<Rightarrow> DHT_Friend list \<Rightarrow>
    DHT_Friend list \<times> nat \<times> nat option" where
  "addto_friends qs now ipp public_key i [] = ([], 0, None)"
| "addto_friends qs now ipp public_key i (f # fs) =
     (let (f', used) = addto_friend qs now ipp public_key f;
          (fs', n, foundip) = addto_friends qs now ipp public_key (Suc i) fs
      in (f' # fs', (if used then 1 else 0) + n,
          (if foundip \<noteq> None then foundip
           else if used \<and> memcmp public_key (df_public_key f) = 0 then Some i else None)))"

definition run_callbacks :: "DHT_Friend \<Rightarrow> IP_Port \<Rightarrow> dht_event list" where
  "run_callbacks f ipp =
     concat (map (\<lambda>j. case ip_callback (callbacks f ! j) of
         None \<Rightarrow> []
       | Some g \<Rightarrow> [IpCallback g (cb_data (callbacks f ! j)) (cb_number (callbacks f ! j)) ipp])
       [0..<unat (lock_count f)])"

definition addto_lists :: "qsort_fun \<Rightarrow> u64 \<Rightarrow> DHT \<Rightarrow> IP_Port \<Rightarrow> bytes \<Rightarrow> (DHT \<times> nat \<times> dht_event list) option" where
  "addto_lists qs now dht ipp0 public_key =
     (let ipp = unembed_ip_port ipp0;
          (cl, found) = client_or_ip_port_in_list now (close_clientlist dht) public_key ipp;
          close = (if \<not> found then
                     map_option (\<lambda>(dht1, ok). (dht1, if \<not> ok then 1 else 0)) (add_to_close now dht public_key ipp False)
                   else Some (dht\<lparr>close_clientlist := cl\<rparr>, 1))
      in case close of
           None \<Rightarrow> None
         | Some (dht1, used) \<Rightarrow>
             let (fs, n, foundip) = addto_friends qs now ipp public_key 0 (friends_list dht1);
                 events = (case foundip of None \<Rightarrow> [] | Some i \<Rightarrow> run_callbacks (fs ! i) ipp)
             in Some (dht1\<lparr>friends_list := fs\<rparr>, used + n, events))"

section \<open>Addresses told by other nodes\<close>

definition set_returned :: "u64 \<Rightarrow> IP_Port \<Rightarrow> Client_data \<Rightarrow> Client_data" where
  "set_returned now ipp c =
     (if ip_family (ipp_ip ipp) = AF_INET then
        c\<lparr>assoc4 := (assoc4 c)\<lparr>ret_ip_port := ipp, ret_timestamp := now\<rparr>\<rparr>
      else if ip_family (ipp_ip ipp) = AF_INET6 then
        c\<lparr>assoc6 := (assoc6 c)\<lparr>ret_ip_port := ipp, ret_timestamp := now\<rparr>\<rparr>
      else c)"

fun returned_clients :: "u64 \<Rightarrow> IP_Port \<Rightarrow> bytes \<Rightarrow> Client_data list \<Rightarrow> Client_data list option" where
  "returned_clients now ipp nodepk [] = None"
| "returned_clients now ipp nodepk (c # cs) =
     (if id_equal nodepk (cd_public_key c) then Some (set_returned now ipp c # cs)
      else map_option ((#) c) (returned_clients now ipp nodepk cs))"

fun returned_friends :: "u64 \<Rightarrow> IP_Port \<Rightarrow> bytes \<Rightarrow> bytes \<Rightarrow> DHT_Friend list \<Rightarrow> DHT_Friend list" where
  "returned_friends now ipp public_key nodepk [] = []"
| "returned_friends now ipp public_key nodepk (f # fs) =
     (if id_equal public_key (df_public_key f) then
        (case returned_clients now ipp nodepk (client_list f) of
           Some cl \<Rightarrow> f\<lparr>client_list := cl\<rparr> # fs
         | None \<Rightarrow> f # returned_friends now ipp public_key nodepk fs)
      else f # returned_friends now ipp public_key nodepk fs)"

definition returnedip_ports :: "u64 \<Rightarrow> DHT \<Rightarrow> IP_Port \<Rightarrow> bytes \<Rightarrow> bytes \<Rightarrow> DHT" where
  "returnedip_ports now dht ipp0 public_key nodepublic_key =
     (let ipp = unembed_ip_port ipp0
      in if id_equal public_key (self_public_key dht) then
           (case returned_clients now ipp nodepublic_key (close_clientlist dht) of
              Some cl \<Rightarrow> dht\<lparr>close_clientlist := cl\<rparr>
            | None \<Rightarrow> dht)
         else dht\<lparr>friends_list := returned_friends now ipp public_key nodepublic_key (friends_list dht)\<rparr>)"

section \<open>Friends\<close>

fun friend_number_loop :: "nat \<Rightarrow> DHT_Friend list \<Rightarrow> bytes \<Rightarrow> nat option" where
  "friend_number_loop i [] public_key = None"
| "friend_number_loop i (f # fs) public_key =
     (if id_equal (df_public_key f) public_key then Some i else friend_number_loop (Suc i) fs public_key)"

definition friend_number :: "DHT \<Rightarrow> bytes \<Rightarrow> nat option" where
  "friend_number dht public_key = friend_number_loop 0 (friends_list dht) public_key"

definition nat_zero :: NAT where
  "nat_zero = \<lparr>hole_punching = False, punching_index = 0, tries = 0, punching_index2 = 0, punching_timestamp = 0,
     recvNATping_timestamp = 0, NATping_id = 0, NATping_timestamp = 0\<rparr>"

definition callback_zero :: lock_callback where
  "callback_zero = \<lparr>ip_callback = None, cb_data = 0, cb_number = 0\<rparr>"

definition friend_zero :: DHT_Friend where
  "friend_zero = \<lparr>df_public_key = replicate 32 0, client_list = replicate MAX_FRIEND_CLIENTS client_zero,
     lastgetnode = 0, bootstrap_times = 0, nat_state = nat_zero, lock_count = 0,
     callbacks = replicate DHT_FRIEND_MAX_LOCKS callback_zero,
     df_to_bootstrap = replicate MAX_SENT_NODES node_zero, df_num_to_bootstrap = 0\<rparr>"

text \<open>The assignments that take the next lock of a friend; the lock's number is its new count.\<close>

definition take_lock :: "lock_callback \<Rightarrow> DHT_Friend \<Rightarrow> DHT_Friend" where
  "take_lock cb f =
     f\<lparr>lock_count := lock_count f + 1, callbacks := (callbacks f)[unat (lock_count f) := cb]\<rparr>"

text \<open>
  \<open>DHT_addfriend\<close>: \<open>None\<close> is the return value \<open>-1\<close>; otherwise the new state and the number
  written to \<open>*lock_count\<close>. \<open>rnd\<close> is the value of \<open>random_64b()\<close>. The list holds the first
  \<open>num_friends\<close> friends, and \<open>num_friends\<close> is a 16-bit number.
\<close>

definition DHT_addfriend :: "u64 \<Rightarrow> bool \<Rightarrow> u64 \<Rightarrow> DHT \<Rightarrow> bytes \<Rightarrow> lock_callback \<Rightarrow> (DHT \<times> u16) option" where
  "DHT_addfriend now alloc rnd dht public_key cb =
     (case friend_number dht public_key of
        Some i \<Rightarrow>
          let f = friends_list dht ! i
          in if lock_count f = word_of_nat DHT_FRIEND_MAX_LOCKS then None
             else Some (dht\<lparr>friends_list := (friends_list dht)[i := take_lock cb f]\<rparr>, lock_count f + 1)
      | None \<Rightarrow>
          if \<not> alloc then None
          else
            let f1 = friend_zero\<lparr>df_public_key := public_key, nat_state := nat_zero\<lparr>NATping_id := rnd\<rparr>\<rparr>;
                f2 = take_lock cb f1;
                num_friends = unat (word_of_nat (length (friends_list dht)) + 1 :: u16);
                (nodes, num) = get_close_nodes now (close_clientlist dht)
                  (map client_list (take num_friends (friends_list dht @ [f2]))) public_key 0 True;
                f3 = f2\<lparr>df_to_bootstrap := nodes, df_num_to_bootstrap := num\<rparr>
            in Some (dht\<lparr>friends_list := take num_friends (friends_list dht @ [f3])\<rparr>, lock_count f1 + 1))"

text \<open>
  \<open>DHT_delfriend\<close>: the result and the new state; \<open>alloc\<close> is whether the last \<open>realloc\<close> succeeds.
  \<open>None\<close> is the write outside the array \<open>callbacks\<close>: the lock number is not checked.
\<close>

definition DHT_delfriend :: "bool \<Rightarrow> DHT \<Rightarrow> bytes \<Rightarrow> u16 \<Rightarrow> (int \<times> DHT) option" where
  "DHT_delfriend alloc dht public_key lock =
     (case friend_number dht public_key of
        None \<Rightarrow> Some (- 1, dht)
      | Some i \<Rightarrow>
          let f = (friends_list dht ! i)\<lparr>lock_count := lock_count (friends_list dht ! i) - 1\<rparr>;
              fs = (friends_list dht)[i := f]
          in if lock_count f \<noteq> 0 \<and> lock \<noteq> 0 then
               if DHT_FRIEND_MAX_LOCKS \<le> unat (lock - 1) then None
               else Some (0, dht\<lparr>friends_list := fs[i := f\<lparr>callbacks := (callbacks f)[unat (lock - 1) := callback_zero]\<rparr>]\<rparr>)
             else
               let num = length fs - 1;
                   fs1 = (if num \<noteq> i then fs[i := fs ! num] else fs)
               in Some (if num = 0 then 0 else if \<not> alloc then - 1 else 0,
                        dht\<lparr>friends_list := take num fs1\<rparr>))"

text \<open>\<open>DHT_getfriendip\<close>: the return value and the address written.\<close>

fun friendip_clients :: "u64 \<Rightarrow> Client_data list \<Rightarrow> bytes \<Rightarrow> IP_Port option" where
  "friendip_clients now [] public_key = None"
| "friendip_clients now (c # cs) public_key =
     (if id_equal (cd_public_key c) public_key then
        if \<not> assoc_bad now (assoc6 c) then Some (ip_port (assoc6 c))
        else if \<not> assoc_bad now (assoc4 c) then Some (ip_port (assoc4 c))
        else friendip_clients now cs public_key
      else friendip_clients now cs public_key)"

definition DHT_getfriendip :: "u64 \<Rightarrow> DHT \<Rightarrow> bytes \<Rightarrow> int \<times> IP_Port" where
  "DHT_getfriendip now dht public_key =
     (case friend_number dht public_key of
        None \<Rightarrow> (- 1, ipport_zero)
      | Some i \<Rightarrow> (case friendip_clients now (client_list (friends_list dht ! i)) public_key of
                     Some ipp \<Rightarrow> (1, ipp)
                   | None \<Rightarrow> (0, ipport_zero)))"

section \<open>Shared keys of the DHT\<close>

definition DHT_get_shared_key_recv :: "nacl \<Rightarrow> u64 \<Rightarrow> DHT \<Rightarrow> bytes \<Rightarrow> DHT \<times> bytes" where
  "DHT_get_shared_key_recv N now d public_key =
     (let (keys, shared_key) = get_shared_key N now (shared_keys_recv d) (self_secret_key d) public_key
      in (d\<lparr>shared_keys_recv := keys\<rparr>, shared_key))"

definition DHT_get_shared_key_sent :: "nacl \<Rightarrow> u64 \<Rightarrow> DHT \<Rightarrow> bytes \<Rightarrow> DHT \<times> bytes" where
  "DHT_get_shared_key_sent N now d public_key =
     (let (keys, shared_key) = get_shared_key N now (shared_keys_sent d) (self_secret_key d) public_key
      in (d\<lparr>shared_keys_sent := keys\<rparr>, shared_key))"

section \<open>The eviction order as a rank\<close>

definition untested :: "Client_data \<Rightarrow> bool" where
  "untested c \<longleftrightarrow> hardening_correct (hardening (assoc4 c)) \<noteq> HARDENING_ALL_OK \<and>
     hardening_correct (hardening (assoc6 c)) \<noteq> HARDENING_ALL_OK"

text \<open>Timed out entries first, then the untested ones, then the others; the furthest first in both.\<close>

definition evict_rank :: "u64 \<Rightarrow> bytes \<Rightarrow> Client_data \<Rightarrow> nat" where
  "evict_rank now pk c =
     (if both_bad now c then 0
      else (if untested c then 1 else 1 + 256 ^ 32) + (256 ^ 32 - 1 - key_dist pk (cd_public_key c)))"

lemma key_dist_bound: "length pk = 32 \<Longrightarrow> length x = 32 \<Longrightarrow> key_dist pk x < 256 ^ 32"
  using be_val_bound [of "map2 (XOR) pk x"] by (simp add: key_dist_def)

lemma cmp_dht_entry_rank:
  assumes "length pk = 32" and "client_ok x" and "client_ok y"
  shows "cmp_dht_entry now pk x y =
    (if evict_rank now pk x < evict_rank now pk y then - 1
     else if evict_rank now pk y < evict_rank now pk x then 1 else 0)"
proof -
  define M :: nat where "M = 256 ^ 32"
  have l: "length (cd_public_key x) = 32" "length (cd_public_key y) = 32" using assms by (simp_all add: client_ok_def)
  have d: "key_dist pk (cd_public_key x) < M" "key_dist pk (cd_public_key y) < M"
    using key_dist_bound [OF assms(1)] l by (simp_all add: M_def)
  have c: "id_closest pk (cd_public_key x) (cd_public_key y) =
      (if key_dist pk (cd_public_key x) < key_dist pk (cd_public_key y) then 1
       else if key_dist pk (cd_public_key y) < key_dist pk (cd_public_key x) then 2 else 0)"
    using l assms(1) by (intro id_closest_cases) simp_all
  show ?thesis
    unfolding cmp_dht_entry_def evict_rank_def untested_def [symmetric] Let_def c M_def [symmetric]
    using d by (cases "both_bad now x"; cases "both_bad now y"; cases "untested x"; cases "untested y") auto
qed

lemma cmp_dht_entry_preorder:
  assumes "length pk = 32" and "\<forall>c\<in>A. client_ok c"
  shows "cmp_preorder (cmp_dht_entry now pk) A"
  using assms by (auto simp: cmp_preorder_def cmp_dht_entry_rank)

lemma store_client_key [simp]: "cd_public_key (store_client now pk ipp c) = pk"
  by (simp add: store_client_def)

lemma store_client_ok:
  "client_ok c \<Longrightarrow> length pk = 32 \<Longrightarrow> ip_ok (ipp_ip ipp) \<Longrightarrow> client_ok (store_client now pk ipp c)"
  by (auto simp: store_client_def client_ok_def assoc_zero_def ipport_zero_def ip_zero_def ip_ok_def)

lemma clients_ok_mset: "mset xs = mset ys \<Longrightarrow> clients_ok xs = clients_ok ys"
proof -
  assume m: "mset xs = mset ys"
  have "mset (filter (\<lambda>k. k \<noteq> zero_key) (map cd_public_key xs)) = mset (filter (\<lambda>k. k \<noteq> zero_key) (map cd_public_key ys))"
    using m by (simp add: mset_filter)
  then have "unique_keys xs = unique_keys ys"
    unfolding unique_keys_def by (rule mset_eq_imp_distinct_iff)
  moreover have "set xs = set ys" using m by (rule mset_eq_setD)
  ultimately show ?thesis by (simp add: clients_ok_def)
qed

lemma sort_client_list_mset: "qsort_ok qs \<Longrightarrow> mset (sort_client_list qs now list pk) = mset list"
  by (simp add: qsort_ok_def sort_client_list_def)

lemma sort_client_list_head:
  assumes "qsort_ok qs" and "length pk = 32" and "\<forall>c\<in>set list. client_ok c" and "c \<in> set list"
    and "list' = sort_client_list qs now list pk"
  shows "evict_rank now pk (list' ! 0) \<le> evict_rank now pk c"
proof -
  have s: "sorted_wrt (\<lambda>x y. cmp_dht_entry now pk x y \<le> 0) list'"
    using assms cmp_dht_entry_preorder [of pk "set list" now] by (simp add: qsort_ok_def sort_client_list_def)
  have m: "mset list' = mset list" using assms sort_client_list_mset by simp
  then have set: "set list' = set list" by (rule mset_eq_setD)
  then obtain j where j: "j < length list'" "list' ! j = c" using assms(4) by (metis in_set_conv_nth)
  then have ok: "client_ok (list' ! 0)" "client_ok c"
    using set assms(3,4) by (metis length_greater_0_conv list.size(3) not_less0 nth_mem, blast)
  show ?thesis
  proof (cases "j = 0")
    case False
    then have "cmp_dht_entry now pk (list' ! 0) c \<le> 0" using s j by (auto simp: sorted_wrt_iff_nth_less)
    then show ?thesis using cmp_dht_entry_rank [OF assms(2) ok] by (auto split: if_splits)
  qed (use j in simp)
qed

section \<open>Invariant\<close>

definition friend_ok :: "DHT_Friend \<Rightarrow> bool" where
  "friend_ok f \<longleftrightarrow> length (df_public_key f) = 32 \<and> length (client_list f) = MAX_FRIEND_CLIENTS \<and>
     clients_ok (client_list f) \<and> length (callbacks f) = DHT_FRIEND_MAX_LOCKS \<and>
     0 < unat (lock_count f) \<and> unat (lock_count f) \<le> DHT_FRIEND_MAX_LOCKS \<and>
     length (df_to_bootstrap f) = MAX_SENT_NODES \<and> df_num_to_bootstrap f \<le> MAX_SENT_NODES \<and>
     (\<forall>n\<in>set (df_to_bootstrap f). node_ok n)"

definition dht_ok :: "DHT \<Rightarrow> bool" where
  "dht_ok d \<longleftrightarrow> length (close_clientlist d) = LCLIENT_LIST \<and> clients_ok (close_clientlist d) \<and>
     length (self_public_key d) = 32 \<and> (\<forall>f\<in>set (friends_list d). friend_ok f) \<and>
     distinct (map df_public_key (friends_list d)) \<and> length (to_bootstrap d) = MAX_CLOSE_TO_BOOTSTRAP_NODES \<and> num_to_bootstrap d \<le> MAX_CLOSE_TO_BOOTSTRAP_NODES \<and>
     (\<forall>n\<in>set (to_bootstrap d). node_ok n) \<and>
     length (to_ping d) = MAX_TO_PING \<and> (\<forall>n\<in>set (to_ping d). node_ok n)"

lemma replace_all_keeps:
  assumes qs: "qsort_ok qs" and ok: "clients_ok cs" "cs \<noteq> []" and pk: "length pk = 32" "length cpk = 32" "ip_ok (ipp_ip ipp)"
    and new: "pk \<notin> cd_public_key ` set cs" and step: "replace_all qs now cs pk ipp cpk = (cs', True)"
  obtains victim where "victim \<in> set cs" "\<forall>c\<in>set cs. evict_rank now cpk victim \<le> evict_rank now cpk c"
    "add_mset victim (mset cs') = add_mset (store_client now pk ipp victim) (mset cs)" "clients_ok cs'" "length cs' = length cs"
proof -
  define s where "s = sort_client_list qs now cs cpk"
  have m: "mset s = mset cs" using qs sort_client_list_mset by (simp add: s_def)
  then have len: "length s = length cs" and set: "set s = set cs"
    using mset_eq_length mset_eq_setD by blast+
  then obtain v rest where s: "s = v # rest" using ok(2) by (cases s) auto
  have cs': "cs' = store_client now pk ipp v # rest"
    using step s by (auto simp: replace_all_def s_def [symmetric] Let_def split: if_splits)
  have v: "v \<in> set cs" using set by (auto simp: s)
  have "clients_ok (v # rest)" using ok(1) clients_ok_mset [OF m] by (simp add: s)
  moreover have "client_ok (store_client now pk ipp v)"
    using v ok(1) pk by (intro store_client_ok) (auto simp: clients_ok_def)
  moreover have "set rest \<subseteq> set cs" using set by (auto simp: s)
  then have "pk \<notin> cd_public_key ` set rest" using new by blast
  ultimately have "clients_ok (store_client now pk ipp v # rest)"
    using clients_ok_replace [of "[]" v rest "store_client now pk ipp v"] by simp
  moreover have "evict_rank now cpk v \<le> evict_rank now cpk c" if "c \<in> set cs" for c
    using sort_client_list_head [OF qs pk(2) _ that s_def] ok(1) by (simp add: s clients_ok_def)
  moreover have "add_mset v (mset cs') = add_mset (store_client now pk ipp v) (mset cs)"
    unfolding m [symmetric] by (simp add: s cs' add_mset_commute)
  ultimately show ?thesis using v cs' len s by (intro that [of v]) auto
qed

lemma replace_all_False: "replace_all qs now cs pk ipp cpk = (cs', False) \<Longrightarrow> cs' = cs"
  by (auto simp: replace_all_def Let_def split: if_splits)

lemma bucket_loop_in_range:
  assumes "length list = 1024" and "index < 128" and "i \<le> 8"
  shows "case bucket_loop now list index i of
      None \<Rightarrow> False
    | Some None \<Rightarrow> \<forall>j. i \<le> j \<and> j < 8 \<longrightarrow> \<not> both_bad now (list ! (index * 8 + j))
    | Some (Some k) \<Rightarrow> index * 8 + i \<le> k \<and> k < index * 8 + 8 \<and> both_bad now (list ! k)"
  using assms(3)
proof (induction "8 - i" arbitrary: i)
  case 0
  then have "bucket_loop now list index i = Some None" by (subst bucket_loop.simps) simp
  then show ?case using 0 by auto
next
  case (Suc n)
  then have i: "i < 8" "index * 8 + i < length list" "n = 8 - Suc i" using assms(1,2) by auto
  show ?case
  proof (cases "both_bad now (list ! (index * 8 + i))")
    case True
    then show ?thesis using i by (simp add: bucket_loop.simps [of now list index i])
  next
    case False
    then have "bucket_loop now list index i = bucket_loop now list index (Suc i)"
      using i by (subst bucket_loop.simps) simp
    moreover have "Suc i \<le> 8" using i by simp
    moreover have "i \<le> j \<longleftrightarrow> j = i \<or> Suc i \<le> j" for j by auto
    ultimately show ?thesis
      using Suc.hyps(1) [OF i(3)] False by (auto split: option.splits)
  qed
qed

lemma bucket_loop_past_end: "length list = 1024 \<Longrightarrow> bucket_loop now list 128 0 = None"
  by (subst bucket_loop.simps) simp

lemma close_index_range:
  "close_index pk self \<le> 128 \<and> (close_index pk self = 128 \<longleftrightarrow> bit_by_bit_cmp pk self = 128)"
  by (auto simp: close_index_def Let_def)

lemma add_to_close_past_end:
  assumes "length (close_clientlist d) = LCLIENT_LIST" and "add_to_close now d pk ipp sim \<noteq> None"
  shows "bit_by_bit_cmp pk (self_public_key d) \<noteq> 128"
  using assms bucket_loop_past_end [OF assms(1)] by (auto simp: add_to_close_def close_index_def)

lemma add_to_close_cases:
  assumes ok: "length (close_clientlist d) = LCLIENT_LIST" and idx: "bit_by_bit_cmp pk (self_public_key d) \<noteq> 128"
  obtains (full) "add_to_close now d pk ipp sim = Some (d, False)"
      "\<forall>j<8. \<not> both_bad now (close_clientlist d ! (close_index pk (self_public_key d) * 8 + j))"
  | (stored) k where "k < 1024" "both_bad now (close_clientlist d ! k)" "k div 8 = close_index pk (self_public_key d)"
      "add_to_close now d pk ipp sim = Some (if sim then d else d\<lparr>close_clientlist := (close_clientlist d)
         [k := store_client now pk ipp (close_clientlist d ! k)]\<rparr>, True)"
proof -
  let ?i = "close_index pk (self_public_key d)"
  have i: "?i < 128" using close_index_range idx by (metis le_neq_implies_less)
  note b = bucket_loop_in_range [OF ok i, of 0 now]
  show ?thesis
  proof (cases "bucket_loop now (close_clientlist d) ?i 0")
    case None
    then show ?thesis using b by simp
  next
    case (Some r)
    show ?thesis
    proof (cases r)
      case None
      then show ?thesis using full b Some by (simp add: add_to_close_def)
    next
      case (Some k)
      then have k: "?i * 8 \<le> k" "k < ?i * 8 + 8" "both_bad now (close_clientlist d ! k)"
        using b \<open>bucket_loop now (close_clientlist d) ?i 0 = Some r\<close> by auto
      then have "k div 8 = ?i" by (simp add: div_nat_eqI)
      then show ?thesis
        using stored [of k] k i \<open>bucket_loop now (close_clientlist d) ?i 0 = Some r\<close> Some
        by (simp add: add_to_close_def)
    qed
  qed
qed

lemma clients_ok_update:
  assumes "clients_ok cs" and "k < length cs" and "client_ok c'" and "cd_public_key c' \<notin> cd_public_key ` set cs"
  shows "clients_ok (cs[k := c'])"
proof -
  have "clients_ok (take k cs @ cs ! k # drop (Suc k) cs)" using assms(1,2) by (simp add: id_take_nth_drop [symmetric])
  moreover have "cd_public_key c' \<notin> cd_public_key ` set (take k cs @ drop (Suc k) cs)"
    using assms(4) by (auto dest: in_set_takeD in_set_dropD)
  ultimately show ?thesis
    using clients_ok_replace [of "take k cs" "cs ! k" "drop (Suc k) cs" c'] assms(2,3)
    by (simp add: upd_conv_take_nth_drop)
qed

lemma add_to_close_keeps:
  assumes ok: "dht_ok d" and pk: "length pk = 32" "ip_ok (ipp_ip ipp)" and new: "pk \<notin> cd_public_key ` set (close_clientlist d)"
    and idx: "bit_by_bit_cmp pk (self_public_key d) \<noteq> 128"
  shows "\<exists>d' r. add_to_close now d pk ipp sim = Some (d', r) \<and> dht_ok d' \<and> friends_list d' = friends_list d \<and>
    (r \<and> \<not> sim \<longrightarrow> pk \<in> cd_public_key ` set (close_clientlist d')) \<and> (sim \<or> \<not> r \<longrightarrow> d' = d)"
proof -
  have len: "length (close_clientlist d) = 1024" and cl: "clients_ok (close_clientlist d)"
    using ok by (simp_all add: dht_ok_def)
  from len idx show ?thesis
  proof (cases rule: add_to_close_cases [where now = now and ipp = ipp and sim = sim])
    case full
    then show ?thesis using ok by (intro exI [of _ d] exI [of _ False]) simp
  next
    case (stored k)
    let ?c = "store_client now pk ipp (close_clientlist d ! k)"
    have "client_ok ?c" using cl stored(1) len pk by (intro store_client_ok) (auto simp: clients_ok_def)
    then have "clients_ok ((close_clientlist d)[k := ?c])"
      using cl stored(1) len new by (intro clients_ok_update) auto
    moreover have "?c \<in> set ((close_clientlist d)[k := ?c])" using stored(1) len by (simp add: set_update_memI)
    then have "pk \<in> cd_public_key ` set ((close_clientlist d)[k := ?c])" by (rule rev_image_eqI) simp
    ultimately show ?thesis using stored(4) ok by (cases sim) (auto simp: dht_ok_def)
  qed
qed

lemma addto_friend_keeps:
  assumes "qsort_ok qs" and f: "friend_ok f" and pk: "length pk = 32" "ip_ok (ipp_ip ipp)"
    and step: "addto_friend qs now ipp pk f = (f', used)"
  shows "friend_ok f' \<and> df_public_key f' = df_public_key f \<and> callbacks f' = callbacks f \<and> lock_count f' = lock_count f \<and>
    (used \<longrightarrow> pk \<in> cd_public_key ` set (client_list f')) \<and> (\<not> used \<longrightarrow> f' = f)"
proof -
  obtain cl found where c: "client_or_ip_port_in_list now (client_list f) pk ipp = (cl, found)" by fastforce
  have cs: "clients_ok (client_list f)" "client_list f \<noteq> []" "length (df_public_key f) = 32"
    using f by (auto simp: friend_ok_def)
  note k = coipil_keeps [OF cs(1) pk c]
  show ?thesis
  proof (cases found)
    case True
    then have "f' = f\<lparr>client_list := cl\<rparr>" "used" using step c by (auto simp: addto_friend_def)
    then show ?thesis using k f True by (auto simp: friend_ok_def)
  next
    case False
    obtain cl' stored where r: "replace_all qs now (client_list f) pk ipp (df_public_key f) = (cl', stored)" by fastforce
    have f': "f' = f\<lparr>client_list := cl'\<rparr>" "used = stored" using step c r False by (auto simp: addto_friend_def)
    show ?thesis
    proof (cases stored)
      case True
      have r': "replace_all qs now (client_list f) pk ipp (df_public_key f) = (cl', True)" using r True by simp
      obtain v where v: "add_mset v (mset cl') = add_mset (store_client now pk ipp v) (mset (client_list f))"
        "clients_ok cl'" "length cl' = length (client_list f)" "v \<in> set (client_list f)"
        using replace_all_keeps [OF assms(1) cs(1,2) pk(1) cs(3) pk(2) _ r'] k False by metis
      have "pk \<notin> cd_public_key ` set (client_list f)" using k False by simp
      then have "cd_public_key v \<noteq> pk" using v(4) by auto
      then have "store_client now pk ipp v \<in> set cl'"
        using arg_cong [OF v(1), of set_mset] by (metis insertI1 insertE set_mset_add_mset_insert set_mset_mset store_client_key)
      then have "pk \<in> cd_public_key ` set cl'" by (rule rev_image_eqI) simp
      then show ?thesis using f' v f True by (simp add: friend_ok_def)
    next
      case False
      then have "cl' = client_list f" using r replace_all_False by auto
      then show ?thesis using f f' False by simp
    qed
  qed
qed

lemma addto_friends_keeps:
  assumes "qsort_ok qs" and "\<forall>f\<in>set fs. friend_ok f" and "length pk = 32" "ip_ok (ipp_ip ipp)"
    and "addto_friends qs now ipp pk i fs = (fs', n, foundip)"
  shows "length fs' = length fs \<and> (\<forall>f\<in>set fs'. friend_ok f) \<and> map df_public_key fs' = map df_public_key fs \<and>
    n \<le> card {j. j < length fs \<and> pk \<in> cd_public_key ` set (client_list (fs' ! j))} \<and>
    (\<forall>k. foundip = Some k \<longrightarrow> i \<le> k \<and> k < i + length fs \<and> df_public_key (fs ! (k - i)) = pk)"
  using assms(2,5)
proof (induction fs arbitrary: fs' n foundip i)
  case (Cons f fs)
  obtain f' used where f': "addto_friend qs now ipp pk f = (f', used)" by fastforce
  obtain fs1 n1 fo1 where r: "addto_friends qs now ipp pk (Suc i) fs = (fs1, n1, fo1)" using prod_cases3 by blast
  have ok: "friend_ok f" using Cons.prems(1) by simp
  note kf = addto_friend_keeps [OF assms(1) ok assms(3,4) f']
  have IH: "length fs1 = length fs \<and> (\<forall>f\<in>set fs1. friend_ok f) \<and> map df_public_key fs1 = map df_public_key fs \<and>
    n1 \<le> card {j. j < length fs \<and> pk \<in> cd_public_key ` set (client_list (fs1 ! j))} \<and>
    (\<forall>k. fo1 = Some k \<longrightarrow> Suc i \<le> k \<and> k < Suc i + length fs \<and> df_public_key (fs ! (k - Suc i)) = pk)"
    using Cons.IH [OF _ r] Cons.prems(1) by simp
  have res: "fs' = f' # fs1" "n = (if used then 1 else 0) + n1"
    "foundip = (if fo1 \<noteq> None then fo1 else if used \<and> memcmp pk (df_public_key f) = 0 then Some i else None)"
    using Cons.prems(2) f' r by (auto simp: Let_def)
  let ?P = "\<lambda>gs j. pk \<in> cd_public_key ` set (client_list (gs ! j))"
  have split: "{j. j < length (f # fs) \<and> ?P fs' j} =
      (if ?P fs' 0 then {0} else {}) \<union> Suc ` {j. j < length fs \<and> ?P fs1 j}" (is "?A = ?B")
  proof (rule set_eqI)
    fix j show "j \<in> ?A \<longleftrightarrow> j \<in> ?B" by (cases j) (auto simp: res)
  qed
  have "card ?A = (if ?P fs' 0 then 1 else 0) + card {j. j < length fs \<and> ?P fs1 j}"
    unfolding split by (subst card_Un_disjoint) (auto simp: card_image)
  then have "n \<le> card ?A" using IH kf res by auto
  moreover have "i \<le> k \<and> k < i + length (f # fs) \<and> df_public_key ((f # fs) ! (k - i)) = pk" if "foundip = Some k" for k
  proof (cases fo1)
    case None
    then have "k = i" "memcmp pk (df_public_key f) = 0" using that res by (auto split: if_splits)
    then show ?thesis using ok assms(3) memcmp_eq_0_iff [of pk "df_public_key f"] by (simp add: friend_ok_def)
  next
    case (Some k')
    then have "Suc i \<le> k \<and> k < Suc i + length fs \<and> df_public_key (fs ! (k - Suc i)) = pk" using IH that res by auto
    then show ?thesis by (auto simp: nth_Cons split: nat.split) (metis Suc_diff_Suc Suc_le_lessD diff_Suc_Suc nat.inject)
  qed
  ultimately show ?case using IH kf res by simp
qed simp

lemma ip_ok_unembed: "ip_ok (ipp_ip p) \<Longrightarrow> ip_ok (ipp_ip (unembed_ip_port p))"
  by (simp add: unembed_ip_port_def ip_ok_embedded)

lemma addto_lists_keeps:
  assumes qs: "qsort_ok qs" and ok: "dht_ok d" and pk: "length pk = 32" "ip_ok (ipp_ip ipp)"
    and idx: "bit_by_bit_cmp pk (self_public_key d) \<noteq> 128 \<or> addto_lists qs now d ipp pk \<noteq> None"
  shows "\<exists>d' used ev. addto_lists qs now d ipp pk = Some (d', used, ev) \<and> dht_ok d' \<and>
    map df_public_key (friends_list d') = map df_public_key (friends_list d) \<and> self_public_key d' = self_public_key d"
proof -
  define p where "p = unembed_ip_port ipp"
  have p: "ip_ok (ipp_ip p)" using pk by (simp add: p_def ip_ok_unembed)
  obtain cl found where c: "client_or_ip_port_in_list now (close_clientlist d) pk p = (cl, found)" by fastforce
  have cl: "clients_ok (close_clientlist d)" "\<forall>f\<in>set (friends_list d). friend_ok f" using ok by (simp_all add: dht_ok_def)
  note k = coipil_keeps [OF cl(1) pk(1) p c]
  obtain d1 u where d1: "(if \<not> found then map_option (\<lambda>(dht1, ok). (dht1, if \<not> ok then 1 else 0)) (add_to_close now d pk p False)
        else Some (d\<lparr>close_clientlist := cl\<rparr>, 1)) = Some (d1, u :: nat)" "dht_ok d1" "friends_list d1 = friends_list d"
      "self_public_key d1 = self_public_key d"
  proof (cases found)
    case True
    then show ?thesis using that [of "d\<lparr>close_clientlist := cl\<rparr>" 1] k ok by (simp add: dht_ok_def)
  next
    case False
    then have new: "pk \<notin> cd_public_key ` set (close_clientlist d)" using k by simp
    have len: "length (close_clientlist d) = LCLIENT_LIST" using ok by (simp add: dht_ok_def)
    have "add_to_close now d pk p False \<noteq> None" if "addto_lists qs now d ipp pk \<noteq> None"
      using that c False by (auto simp: addto_lists_def p_def [symmetric] Let_def split: option.splits)
    then have "bit_by_bit_cmp pk (self_public_key d) \<noteq> 128" using idx add_to_close_past_end [OF len] by blast
    then obtain d' r where a: "add_to_close now d pk p False = Some (d', r)" "dht_ok d'" "friends_list d' = friends_list d"
      using add_to_close_keeps [OF ok pk(1) p new] by blast
    have "self_public_key d' = self_public_key d"
      using a(1) by (auto simp: add_to_close_def split: option.splits)
    then show ?thesis using that [of d' "if \<not> r then 1 else 0"] a False by simp
  qed
  obtain fs n fo where f: "addto_friends qs now p pk 0 (friends_list d) = (fs, n, fo)" using prod_cases3 by blast
  note kf = addto_friends_keeps [OF qs cl(2) pk(1) p f]
  have "addto_lists qs now d ipp pk =
      Some (d1\<lparr>friends_list := fs\<rparr>, u + n, case fo of None \<Rightarrow> [] | Some i \<Rightarrow> run_callbacks (fs ! i) p)"
    using c d1(1,3) f by (simp add: addto_lists_def p_def [symmetric] Let_def)
  moreover have "dht_ok (d1\<lparr>friends_list := fs\<rparr>)" using d1(2,3) kf by (simp add: dht_ok_def)
  ultimately show ?thesis using kf d1(4) by simp
qed

section \<open>The other operations keep the invariant\<close>

lemma add_to_list_node_ok:
  assumes "\<forall>n\<in>set ns. node_ok n" and "length pk = 32" "ip_ok (ipp_ip ipp)" "length c = 32"
  shows "length (fst (add_to_list ns pk ipp c)) = length ns \<and> (\<forall>n\<in>set (fst (add_to_list ns pk ipp c)). node_ok n)"
proof -
  let ?n = "\<lparr>nf_public_key = pk, nf_ip_port = ipp\<rparr>"
  have "key_len c ns" using assms by (simp add: key_len_def node_ok_def)
  then have "fst (add_to_list ns pk ipp c) = fst (carry c ns ?n)" using assms add_to_list_carry by simp
  moreover have "set (fst (carry c ns ?n)) \<subseteq> insert ?n (set ns)" using set_carry [of c ns ?n] by blast
  moreover have "node_ok ?n" using assms by (simp add: node_ok_def)
  ultimately show ?thesis using assms(1) by auto
qed

lemma update_all: "\<forall>x\<in>set xs. P x \<Longrightarrow> P y \<Longrightarrow> \<forall>x\<in>set (xs[i := y]). P x"
  using set_update_subset_insert by (metis insertE subsetD)

lemma bootstrap_friend_keeps:
  assumes "friend_ok f" and "length pk = 32" "ip_ok (ipp_ip ipp)"
  shows "friend_ok (fst (bootstrap_friend now pk ipp f)) \<and> df_public_key (fst (bootstrap_friend now pk ipp f)) = df_public_key f"
proof -
  have n: "node_ok \<lparr>nf_public_key = pk, nf_ip_port = ipp\<rparr>" using assms by (simp add: node_ok_def)
  have b: "\<forall>n\<in>set (df_to_bootstrap f). node_ok n" "length (df_public_key f) = 32" using assms by (auto simp: friend_ok_def)
  have "\<forall>n\<in>set ((df_to_bootstrap f)[df_num_to_bootstrap f := \<lparr>nf_public_key = pk, nf_ip_port = ipp\<rparr>]). node_ok n"
    using b(1) n by (rule update_all)
  moreover note add_to_list_node_ok [OF b(1) assms(2,3) b(2)]
  ultimately show ?thesis using assms(1) by (simp add: bootstrap_friend_def friend_ok_def Let_def)
qed

lemma bootstrap_friends_keeps:
  assumes "\<forall>f\<in>set fs. friend_ok f" and "length pk = 32" "ip_ok (ipp_ip ipp)"
  shows "(\<forall>f\<in>set (fst (bootstrap_friends now pk ipp fs)). friend_ok f) \<and>
    map df_public_key (fst (bootstrap_friends now pk ipp fs)) = map df_public_key fs"
  using assms(1)
proof (induction fs)
  case (Cons f fs)
  then show ?case
    using bootstrap_friend_keeps [of f, OF _ assms(2,3), of now]
    by (cases "bootstrap_friend now pk ipp f"; cases "bootstrap_friends now pk ipp fs") (auto simp: Let_def)
qed simp

lemma ping_node_from_getnodes_keeps:
  assumes ok: "dht_ok d" and pk: "length pk = 32" "ip_ok (ipp_ip ipp)"
    and idx': "bit_by_bit_cmp pk (self_public_key d) \<noteq> 128 \<or> ping_node_from_getnodes_ok now d pk ipp \<noteq> None"
  shows "\<exists>d' r. ping_node_from_getnodes_ok now d pk ipp = Some (d', r) \<and> dht_ok d' \<and> self_public_key d' = self_public_key d"
proof -
  have len: "length (close_clientlist d) = LCLIENT_LIST" using ok by (simp add: dht_ok_def)
  have "add_to_close now d pk ipp True \<noteq> None" if "ping_node_from_getnodes_ok now d pk ipp \<noteq> None"
    using that by (auto simp: ping_node_from_getnodes_ok_def split: option.splits)
  then have idx: "bit_by_bit_cmp pk (self_public_key d) \<noteq> 128" using idx' add_to_close_past_end [OF len] by blast
  obtain r where a: "add_to_close now d pk ipp True = Some (d, r)"
    using len idx by (cases rule: add_to_close_cases [where now = now and ipp = ipp and sim = True]) auto
  have n: "node_ok \<lparr>nf_public_key = pk, nf_ip_port = ipp\<rparr>" using pk by (simp add: node_ok_def)
  define d1 where "d1 = (if r \<and> \<not> client_in_nodelist (take (num_to_bootstrap d) (to_bootstrap d)) pk then
      if num_to_bootstrap d < 8 then d\<lparr>to_bootstrap := (to_bootstrap d)[num_to_bootstrap d :=
        \<lparr>nf_public_key = pk, nf_ip_port = ipp\<rparr>], num_to_bootstrap := num_to_bootstrap d + 1\<rparr>
      else d\<lparr>to_bootstrap := fst (add_to_list (to_bootstrap d) pk ipp (self_public_key d))\<rparr> else d)"
  have bs: "\<forall>n\<in>set (to_bootstrap d). node_ok n" "length (self_public_key d) = 32" using ok by (simp_all add: dht_ok_def)
  have "\<forall>n\<in>set ((to_bootstrap d)[num_to_bootstrap d := \<lparr>nf_public_key = pk, nf_ip_port = ipp\<rparr>]). node_ok n"
    using bs(1) n by (rule update_all)
  then have "dht_ok d1"
    using ok add_to_list_node_ok [OF bs(1) pk bs(2)] by (simp add: d1_def dht_ok_def)
  moreover have "self_public_key d1 = self_public_key d" by (simp add: d1_def)
  moreover obtain fs r' where f: "bootstrap_friends now pk ipp (friends_list d1) = (fs, r')" by fastforce
  ultimately have "dht_ok (d1\<lparr>friends_list := fs\<rparr>)"
    using bootstrap_friends_keeps [of "friends_list d1" pk ipp now] pk by (simp add: dht_ok_def)
  moreover have "ping_node_from_getnodes_ok now d pk ipp = Some (d1\<lparr>friends_list := fs\<rparr>, r \<or> r')"
    using a f by (simp add: ping_node_from_getnodes_ok_def d1_def [symmetric] Let_def)
  ultimately show ?thesis using \<open>self_public_key d1 = self_public_key d\<close> by simp
qed

lemma set_returned_ok: "client_ok c \<Longrightarrow> ip_ok (ipp_ip ipp) \<Longrightarrow> client_ok (set_returned now ipp c) \<and> cd_public_key (set_returned now ipp c) = cd_public_key c"
  by (simp add: set_returned_def client_ok_def)

lemma returned_clients_Some:
  "returned_clients now ipp nodepk cs = Some cs' \<Longrightarrow> \<exists>pre c suf. cs = pre @ c # suf \<and> cs' = pre @ set_returned now ipp c # suf"
proof (induction cs arbitrary: cs')
  case (Cons c cs)
  show ?case
  proof (cases "id_equal nodepk (cd_public_key c)")
    case True
    then show ?thesis using Cons.prems by (metis append_Nil option.inject returned_clients.simps(2))
  next
    case False
    then obtain cs1 where "returned_clients now ipp nodepk cs = Some cs1" "cs' = c # cs1" using Cons.prems by auto
    then show ?thesis using Cons.IH by (metis append_Cons)
  qed
qed simp

lemma returned_clients_keeps:
  assumes "clients_ok cs" and "returned_clients now ipp nodepk cs = Some cs'" and "ip_ok (ipp_ip ipp)"
  shows "clients_ok cs' \<and> length cs' = length cs"
proof -
  obtain pre c suf where cs: "cs = pre @ c # suf" "cs' = pre @ set_returned now ipp c # suf"
    using returned_clients_Some [OF assms(2)] by blast
  then have "client_ok (set_returned now ipp c) \<and> cd_public_key (set_returned now ipp c) = cd_public_key c"
    using assms(1,3) set_returned_ok by (simp add: clients_ok_def)
  then show ?thesis using cs assms(1) clients_ok_replace [of pre c suf] by simp
qed

lemma returned_friends_keeps:
  assumes "\<forall>f\<in>set fs. friend_ok f" and "ip_ok (ipp_ip ipp)"
  shows "(\<forall>f\<in>set (returned_friends now ipp pk nodepk fs). friend_ok f) \<and>
    map df_public_key (returned_friends now ipp pk nodepk fs) = map df_public_key fs"
  using assms(1)
proof (induction fs)
  case (Cons f fs)
  then have ok: "friend_ok f" by simp
  have "friend_ok (f\<lparr>client_list := cl\<rparr>)" if "returned_clients now ipp nodepk (client_list f) = Some cl" for cl
    using returned_clients_keeps [OF _ that assms(2)] ok by (simp add: friend_ok_def)
  then show ?case using Cons by (auto split: option.split)
qed simp

lemma returnedip_ports_keeps:
  assumes "dht_ok d" and "ip_ok (ipp_ip ipp)"
  shows "dht_ok (returnedip_ports now d ipp pk nodepk) \<and> self_public_key (returnedip_ports now d ipp pk nodepk) = self_public_key d"
proof -
  let ?p = "unembed_ip_port ipp"
  have p: "ip_ok (ipp_ip ?p)" using assms(2) by (rule ip_ok_unembed)
  have "dht_ok (d\<lparr>close_clientlist := cl\<rparr>)" if "returned_clients now ?p nodepk (close_clientlist d) = Some cl" for cl
    using returned_clients_keeps [OF _ that p] assms by (simp add: dht_ok_def)
  moreover have "dht_ok (d\<lparr>friends_list := returned_friends now ?p pk nodepk (friends_list d)\<rparr>)"
    using returned_friends_keeps [of "friends_list d" ?p now pk nodepk] p assms by (simp add: dht_ok_def)
  ultimately show ?thesis using assms by (simp add: returnedip_ports_def Let_def split: option.split)
qed

lemma friend_number_loop_Some:
  "friend_number_loop i fs pk = Some k \<Longrightarrow> i \<le> k \<and> k < i + length fs \<and> id_equal (df_public_key (fs ! (k - i))) pk"
proof (induction i fs pk rule: friend_number_loop.induct)
  case (2 i f fs pk)
  show ?case
  proof (cases "id_equal (df_public_key f) pk")
    case False
    then have "Suc i \<le> k \<and> k < Suc i + length fs \<and> id_equal (df_public_key (fs ! (k - Suc i))) pk" using 2 by simp
    moreover from this have "k - i = Suc (k - Suc i)" by linarith
    ultimately show ?thesis by simp
  qed (use 2 in simp)
qed simp

lemma friend_number_loop_None:
  "friend_number_loop i fs pk = None \<longleftrightarrow> (\<forall>f\<in>set fs. \<not> id_equal (df_public_key f) pk)"
  by (induction i fs pk rule: friend_number_loop.induct) auto

lemma friend_number_cases:
  assumes "dht_ok d" and "length pk = 32"
  obtains (found) i where "friend_number d pk = Some i" "i < length (friends_list d)" "df_public_key (friends_list d ! i) = pk"
    "friend_ok (friends_list d ! i)"
  | (new) "friend_number d pk = None" "pk \<notin> df_public_key ` set (friends_list d)"
proof (cases "friend_number d pk")
  case None
  then have "\<forall>f\<in>set (friends_list d). \<not> id_equal (df_public_key f) pk" by (simp add: friend_number_def friend_number_loop_None)
  then have "pk \<notin> df_public_key ` set (friends_list d)" by (auto simp: id_equal_def)
  then show ?thesis using new None by blast
next
  case (Some i)
  then have i: "i < length (friends_list d)" "id_equal (df_public_key (friends_list d ! i)) pk"
    using friend_number_loop_Some [of 0 "friends_list d" pk i] by (simp_all add: friend_number_def)
  then have "friend_ok (friends_list d ! i)" using assms(1) by (simp add: dht_ok_def)
  then show ?thesis using found [OF Some] i assms(2) id_equal_iff [of "df_public_key (friends_list d ! i)" pk]
    by (simp add: friend_ok_def)
qed

lemma close_loop_bounds:
  assumes "length ns = 4" and "num \<le> 4" and "\<forall>n\<in>set ns. node_ok n" and "\<forall>c\<in>set cs. client_ok c" and "length pk = 32"
    and "close_loop now pk fam lan good cs (ns, num) = (ns', num')"
  shows "length ns' = 4 \<and> num' \<le> 4 \<and> (\<forall>n\<in>set ns'. node_ok n)"
  using assms
proof (induction cs arbitrary: ns num)
  case (Cons c cs)
  let ?n = "\<lparr>nf_public_key = cd_public_key c, nf_ip_port = ip_port (pick_assoc fam c)\<rparr>"
  have ok: "client_ok c" using Cons.prems by simp
  have n: "node_ok ?n" using pick_assoc_node_ok [OF ok] .
  have c: "length (cd_public_key c) = 32" "ip_ok (ipp_ip (ip_port (pick_assoc fam c)))"
    using n by (simp_all add: node_ok_def)
  obtain ns1 num1 where s: "(if client_in_nodelist ns (cd_public_key c) then (ns, num)
        else if \<not> sendable now pk fam lan good c then (ns, num)
        else if num < 4 then (ns[num := ?n], num + 1)
        else (fst (add_to_list ns (cd_public_key c) (ip_port (pick_assoc fam c)) pk), num)) = (ns1, num1)" by fastforce
  have "length ns1 = 4 \<and> num1 \<le> 4 \<and> (\<forall>n\<in>set ns1. node_ok n)"
    using s Cons.prems(1-3) update_all [OF Cons.prems(3) n, of num] add_to_list_node_ok [OF Cons.prems(3) c Cons.prems(5)]
    by (auto split: if_splits)
  then show ?case using Cons.IH [of ns1 num1] Cons.prems s by (simp del: add_to_list.simps)
qed simp

lemma get_close_nodes_bounds:
  assumes "length pk = 32" and "\<forall>cs\<in>set (close_list # friend_lists). \<forall>c\<in>set cs. client_ok c"
    and "get_close_nodes now close_list friend_lists pk fam lan = (ns, num)"
  shows "length ns = 4 \<and> num \<le> 4 \<and> (\<forall>n\<in>set ns. node_ok n)"
proof -
  let ?P = "\<lambda>(ns, num). length ns = 4 \<and> num \<le> (4::nat) \<and> (\<forall>n\<in>set ns. node_ok n)"
  have "?P (fold (\<lambda>cs st. get_close_nodes_inner now pk st fam cs lan False) css st)"
    if "?P st" "\<forall>cs\<in>set css. \<forall>c\<in>set cs. client_ok c" for st css
    using that
  proof (induction css arbitrary: st)
    case (Cons cs css)
    have "?P (get_close_nodes_inner now pk st fam cs lan False)"
      using Cons.prems close_loop_bounds [of "fst st" "snd st" cs pk now fam lan False] assms(1)
      by (auto simp: get_close_nodes_inner_def split: prod.splits)
    then show ?case using Cons by simp
  qed simp
  from this [of "(replicate 4 node_zero, 0)" "close_list # friend_lists"] show ?thesis
    using assms(2,3) sample_ok(3) by (simp add: get_close_nodes_def get_somewhat_close_nodes_def)
qed

lemma take_lock_ok:
  assumes "length (callbacks f) = 32" and "unat (lock_count f) < 32"
  shows "unat (lock_count (take_lock cb f)) = unat (lock_count f) + 1" "length (callbacks (take_lock cb f)) = 32"
    "callbacks (take_lock cb f) ! unat (lock_count f) = cb" "df_public_key (take_lock cb f) = df_public_key f"
    "client_list (take_lock cb f) = client_list f" "df_to_bootstrap (take_lock cb f) = df_to_bootstrap f"
    "df_num_to_bootstrap (take_lock cb f) = df_num_to_bootstrap f"
proof -
  have "unat (lock_count f) + unat (1::u16) < 2 ^ LENGTH(16)" using assms(2) by simp
  then show "unat (lock_count (take_lock cb f)) = unat (lock_count f) + 1"
    using unat_word_ariths(1) [of "lock_count f" 1] by (simp add: take_lock_def)
qed (use assms in \<open>simp_all add: take_lock_def\<close>)

lemma lock_count_32: "unat (l :: u16) \<le> 32 \<Longrightarrow> l \<noteq> word_of_nat 32 \<Longrightarrow> unat l < 32"
proof (rule ccontr)
  assume "unat l \<le> 32" "l \<noteq> word_of_nat 32" "\<not> unat l < 32"
  then have "unat l = unat (word_of_nat 32 :: u16)" by simp
  then have "l = word_of_nat 32" by (rule word_unat_eq_iff [THEN iffD2])
  then show False using \<open>l \<noteq> word_of_nat 32\<close> by simp
qed

lemma swap_remove:
  assumes dist: "distinct (map key xs)" and i: "i < length xs"
  defines "n \<equiv> length xs - 1"
  shows "set (take n (if n \<noteq> i then xs[i := xs ! n] else xs)) = set xs - {xs ! i} \<and>
    distinct (map key (take n (if n \<noteq> i then xs[i := xs ! n] else xs)))"
proof -
  have xs: "xs = butlast xs @ [xs ! n]" using i by (metis append_butlast_last_id last_conv_nth length_greater_0_conv n_def not_less_zero linorder_neqE_nat)
  obtain as x where split: "xs = as @ [x]" "length as = n" "xs ! n = x" using xs i by (metis length_butlast n_def nth_append_length)
  show ?thesis
  proof (cases "n = i")
    case True
    then show ?thesis using split dist by (auto simp: list_update_append)
  next
    case False
    then have less: "i < length as" using i split by simp
    then obtain bs b cs where as: "as = bs @ b # cs" "length bs = i" by (metis id_take_nth_drop length_take min.absorb4)
    have d: "distinct (map key (bs @ b # cs @ [x]))" using dist split(1) as(1) by simp
    then have "set (bs @ x # cs) = set (bs @ b # cs @ [x]) - {b}" "distinct (map key (bs @ x # cs))"
      by (force simp: image_iff disjoint_iff)+
    moreover have "take n (if n \<noteq> i then xs[i := xs ! n] else xs) = bs @ x # cs" "xs ! i = b" "xs = bs @ b # cs @ [x]"
      using split as False by (auto simp: list_update_append nth_append)
    ultimately show ?thesis by argo
  qed
qed

definition other_friends :: "bytes \<Rightarrow> DHT \<Rightarrow> DHT_Friend set" where
  "other_friends pk d = {f \<in> set (friends_list d). df_public_key f \<noteq> pk}"

lemma other_friends_update:
  assumes "i < length (friends_list d)" and "df_public_key (friends_list d ! i) = pk" and "df_public_key g = pk"
  shows "other_friends pk (d\<lparr>friends_list := (friends_list d)[i := g]\<rparr>) = other_friends pk d"
proof -
  let ?fs = "friends_list d"
  have "?fs = take i ?fs @ ?fs ! i # drop (Suc i) ?fs" using assms(1) by (rule id_take_nth_drop)
  then obtain as b cs where fs: "?fs = as @ b # cs" "length as = i" "df_public_key b = pk"
    using assms(1,2) by (metis length_take min.absorb4)
  then have "?fs[i := g] = as @ g # cs" by (simp add: list_update_append)
  then show ?thesis using fs(1,3) assms(3) by (auto simp: other_friends_def)
qed

lemma friend_count: "length (fs :: DHT_Friend list) < 65535 \<Longrightarrow> unat (word_of_nat (length fs) + 1 :: u16) = length fs + 1"
  by (simp add: unat_word_ariths unat_of_nat)

lemma DHT_addfriend_keeps:
  assumes ok: "dht_ok d" and pk: "length pk = 32" and room: "length (friends_list d) < 65535"
    and step: "DHT_addfriend now alloc rnd d pk cb = Some (d', lock)"
  shows "dht_ok d' \<and> other_friends pk d' = other_friends pk d \<and>
    (\<exists>i<length (friends_list d'). df_public_key (friends_list d' ! i) = pk \<and>
    unat lock = unat (lock_count (friends_list d' ! i)) \<and> callbacks (friends_list d' ! i) ! (unat lock - 1) = cb)"
  using ok pk
proof (cases rule: friend_number_cases)
  case (found i)
  let ?f = "friends_list d ! i"
  have lc: "lock_count ?f \<noteq> word_of_nat 32" "d' = d\<lparr>friends_list := (friends_list d)[i := take_lock cb ?f]\<rparr>" "lock = lock_count ?f + 1"
    using step found(1) by (auto simp: DHT_addfriend_def Let_def split: if_splits)
  then have less: "unat (lock_count ?f) < 32" "length (callbacks ?f) = 32"
    using found(4) lock_count_32 by (auto simp: friend_ok_def)
  note tl = take_lock_ok [OF less(2,1), of cb]
  have "friend_ok (take_lock cb ?f)" using found(4) tl less by (simp add: friend_ok_def)
  then have "\<forall>f\<in>set ((friends_list d)[i := take_lock cb ?f]). friend_ok f"
    using ok by (intro update_all) (auto simp: dht_ok_def)
  moreover have "map df_public_key ((friends_list d)[i := take_lock cb ?f]) = map df_public_key (friends_list d)"
    using found(2) tl(4) by (metis map_update list_update_id nth_map)
  ultimately have "dht_ok d'" using ok lc(2) by (simp add: dht_ok_def)
  moreover have "unat lock = unat (lock_count (take_lock cb ?f))" using lc(3) by (simp add: take_lock_def)
  ultimately show ?thesis using lc(2) found(2,3) tl other_friends_update [OF found(2,3)]
    by (intro conjI exI [of _ i]) simp_all
next
  case new
  let ?f = "take_lock cb (friend_zero\<lparr>df_public_key := pk, nat_state := nat_zero\<lparr>NATping_id := rnd\<rparr>\<rparr>)"
  obtain ns num where g: "get_close_nodes now (close_clientlist d) (map client_list (friends_list d @ [?f])) pk 0 True = (ns, num)"
    by fastforce
  define f3 where "f3 = ?f\<lparr>df_to_bootstrap := ns, df_num_to_bootstrap := num\<rparr>"
  have d': "d' = d\<lparr>friends_list := friends_list d @ [f3]\<rparr>" "lock = 1"
    using step new(1) g by (auto simp: DHT_addfriend_def Let_def f3_def friend_zero_def friend_count [OF room] split: if_splits)
  have f: "client_list ?f = replicate 8 client_zero" "lock_count ?f = 1" "callbacks ?f = (replicate 32 callback_zero)[0 := cb]"
    "df_public_key ?f = pk" by (simp_all add: take_lock_def friend_zero_def)
  have "\<forall>cs\<in>set (close_clientlist d # map client_list (friends_list d @ [?f])). \<forall>c\<in>set cs. client_ok c"
    using ok f(1) by (auto simp: dht_ok_def friend_ok_def clients_ok_def)
  then have b: "length ns = 4 \<and> num \<le> 4 \<and> (\<forall>n\<in>set ns. node_ok n)" using pk g by (intro get_close_nodes_bounds)
  have "clients_ok (replicate 8 client_zero)" 
    by (simp add: clients_ok_def unique_keys_def) (simp add: client_zero_def)
  then have "friend_ok f3" using b f pk by (simp add: friend_ok_def f3_def)
  then have "dht_ok d'" using ok d'(1) new(2) f by (auto simp: dht_ok_def f3_def)
  moreover have "other_friends pk d' = other_friends pk d" using d'(1) f by (auto simp: other_friends_def f3_def)
  ultimately show ?thesis using d' f by (intro conjI exI [of _ "length (friends_list d)"]) (simp_all add: f3_def)
qed

lemma DHT_addfriend_fails:
  assumes ok: "dht_ok d" and pk: "length pk = 32" and step: "DHT_addfriend now alloc rnd d pk cb = None"
  shows "\<not> alloc \<and> pk \<notin> df_public_key ` set (friends_list d) \<or>
    (\<exists>f\<in>set (friends_list d). df_public_key f = pk \<and> unat (lock_count f) = 32)"
  using ok pk
proof (cases rule: friend_number_cases)
  case (found i)
  then have "lock_count (friends_list d ! i) = word_of_nat 32" using step by (simp add: DHT_addfriend_def Let_def split: if_splits)
  then show ?thesis using found(2,3) by (intro disjI2 bexI [of _ "friends_list d ! i"]) simp_all
next
  case new
  then show ?thesis using step by (auto simp: DHT_addfriend_def Let_def split: if_splits prod.splits)
qed

lemma release_lock_index:
  assumes "unat (lock :: u16) \<le> 32" and "lock \<noteq> 0"
  shows "unat (lock - 1) < 32"
  using assms unat_minus_one [OF assms(2)] unat_gt_0 [of lock] by linarith

lemma DHT_delfriend_keeps:
  assumes ok: "dht_ok d" and pk: "length pk = 32" and lock: "unat lock \<le> 32"
  shows "\<exists>r d'. DHT_delfriend alloc d pk lock = Some (r, d') \<and> dht_ok d' \<and> other_friends pk d' = other_friends pk d \<and>
    (pk \<in> df_public_key ` set (friends_list d') \<longleftrightarrow>
       lock \<noteq> 0 \<and> (\<exists>f\<in>set (friends_list d). df_public_key f = pk \<and> 1 < unat (lock_count f)))"
  using ok pk
proof (cases rule: friend_number_cases)
  case new
  then show ?thesis using ok by (auto simp: DHT_delfriend_def)
next
  case (found i)
  define f where "f = (friends_list d ! i)\<lparr>lock_count := lock_count (friends_list d ! i) - 1\<rparr>"
  define fs where "fs = (friends_list d)[i := f]"
  have fs: "length fs = length (friends_list d)" "map df_public_key fs = map df_public_key (friends_list d)"
    using found(2) by (auto simp: fs_def f_def map_update list_update_same_conv)
  have dist: "distinct (map df_public_key (friends_list d))" using ok by (simp add: dht_ok_def)
  have only: "h = friends_list d ! i" if "h \<in> set (friends_list d)" "df_public_key h = pk" for h
    using that found(2,3) dist by (metis (no_types, lifting) distinct_conv_nth in_set_conv_nth length_map nth_map)
  have "unat (lock_count (friends_list d ! i)) \<noteq> 0" using found(4) by (simp add: friend_ok_def)
  then have count: "unat (lock_count f) = unat (lock_count (friends_list d ! i)) - 1" by (simp add: f_def unat_minus_one unat_eq_zero)
  have in_use: "(\<exists>h\<in>set (friends_list d). df_public_key h = pk \<and> 1 < unat (lock_count h)) \<longleftrightarrow> lock_count f \<noteq> 0"
    using only found(2,3) count by (metis diff_is_0_eq not_le nth_mem unat_eq_zero)
  show ?thesis
  proof (cases "lock_count f \<noteq> 0 \<and> lock \<noteq> 0")
    case True
    let ?g = "f\<lparr>callbacks := (callbacks f)[unat (lock - 1) := callback_zero]\<rparr>"
    let ?d = "d\<lparr>friends_list := (friends_list d)[i := ?g]\<rparr>"
    have d': "DHT_delfriend alloc d pk lock = Some (0, ?d)"
      using release_lock_index [OF lock] found(1) True by (simp add: DHT_delfriend_def Let_def f_def [symmetric])
    have "0 < unat (lock_count f)" using True by (simp add: unat_gt_0)
    moreover have "unat (lock_count f) \<le> 32" unfolding count using found(4) by (intro le_trans [OF diff_le_self]) (simp add: friend_ok_def)
    ultimately have "friend_ok ?g" using found(4) by (simp add: friend_ok_def f_def)
    then have "\<forall>f\<in>set ((friends_list d)[i := ?g]). friend_ok f" using ok by (intro update_all) (auto simp: dht_ok_def)
    moreover have m: "map df_public_key ((friends_list d)[i := ?g]) = map df_public_key (friends_list d)"
      using found(2) by (simp add: map_update f_def list_update_same_conv)
    ultimately have "dht_ok ?d" using ok by (simp add: dht_ok_def)
    moreover have "pk \<in> df_public_key ` set (friends_list ?d)"
      using m found(2,3) by (metis DHT.select_convs(6) DHT.surjective DHT.update_convs(6) image_eqI list.set_map nth_mem)
    moreover have "other_friends pk ?d = other_friends pk d"
      using found(3) by (intro other_friends_update [OF found(2,3)]) (simp add: f_def)
    ultimately show ?thesis using d' in_use True by blast
  next
    case False
    define n where "n = length fs - 1"
    define fs1 where "fs1 = take n (if n \<noteq> i then fs[i := fs ! n] else fs)"
    have d': "\<exists>r. DHT_delfriend alloc d pk lock = Some (r, d\<lparr>friends_list := fs1\<rparr>)"
      using found(1) False by (auto simp: DHT_delfriend_def Let_def f_def [symmetric] n_def fs1_def fs_def)
    have n: "n < length fs" "i \<le> n" using found(2) fs(1) by (auto simp: n_def)
    have "fs1 = take n (if n \<noteq> i then (friends_list d)[i := friends_list d ! n] else friends_list d)"
      using n by (simp add: fs1_def fs_def)
    then have perm: "set fs1 = set (friends_list d) - {friends_list d ! i} \<and> distinct (map df_public_key fs1)"
      using swap_remove [OF dist found(2), folded fs(1), folded n_def] by (simp only:)
    then have "dht_ok (d\<lparr>friends_list := fs1\<rparr>)" using ok by (auto simp: dht_ok_def)
    moreover have "pk \<notin> df_public_key ` set fs1" using perm only by auto
    moreover have "other_friends pk (d\<lparr>friends_list := fs1\<rparr>) = other_friends pk d"
      using perm found(3) by (auto simp: other_friends_def)
    ultimately show ?thesis using d' in_use False by auto
  qed
qed

section \<open>Properties\<close>

text \<open>
  \<open>addto_lists\<close> keeps the DHT well formed: for every node key that does not share exactly
  128 leading bits with our own it completes without touching memory outside the close list,
  and afterwards all lists have their fixed lengths, no list holds a live key twice, and the
  friends are the same.
\<close>

theorem addto_lists_invariant:
  assumes "qsort_ok qs" and "dht_ok d" and "length pk = 32" and "ip_ok (ipp_ip ipp)"
    and "bit_by_bit_cmp pk (self_public_key d) \<noteq> 128"
  shows "\<exists>d' used ev. addto_lists qs now d ipp pk = Some (d', used, ev) \<and> dht_ok d' \<and>
    map df_public_key (friends_list d') = map df_public_key (friends_list d)"
  using addto_lists_keeps [OF assms(1-4)] assms(5) by blast

text \<open>A sorting function that meets the contract: insertion by the comparison function.\<close>

fun cmp_insert :: "('a \<Rightarrow> 'a \<Rightarrow> int) \<Rightarrow> 'a \<Rightarrow> 'a list \<Rightarrow> 'a list" where
  "cmp_insert cmp x [] = [x]"
| "cmp_insert cmp x (y # ys) = (if cmp x y \<le> 0 then x # y # ys else y # cmp_insert cmp x ys)"

definition insertion_sort :: "('a \<Rightarrow> 'a \<Rightarrow> int) \<Rightarrow> 'a list \<Rightarrow> 'a list" where
  "insertion_sort cmp xs = foldr (cmp_insert cmp) xs []"

lemma cmp_insert_mset: "mset (cmp_insert cmp x xs) = add_mset x (mset xs)"
  by (induction xs) auto

lemma cmp_preorder_subset: "cmp_preorder cmp A \<Longrightarrow> B \<subseteq> A \<Longrightarrow> cmp_preorder cmp B"
  unfolding cmp_preorder_def by (meson subsetD)

lemma cmp_insert_sorted:
  assumes "cmp_preorder cmp (insert x (set xs))" and "sorted_wrt (\<lambda>x y. cmp x y \<le> 0) xs"
  shows "sorted_wrt (\<lambda>x y. cmp x y \<le> 0) (cmp_insert cmp x xs)"
  using assms
proof (induction xs)
  case (Cons y ys)
  have pre: "cmp_preorder cmp (insert x (set ys))" using Cons.prems(1) by (rule cmp_preorder_subset) auto
  have set: "set (cmp_insert cmp x ys) = insert x (set ys)"
    using arg_cong [OF cmp_insert_mset [of cmp x ys], of set_mset] by simp
  show ?case
  proof (cases "cmp x y \<le> 0")
    case True
    have "cmp x z \<le> 0" if "z \<in> set ys" for z
    proof -
      have "cmp y z \<le> 0" using Cons.prems(2) that by simp
      then show ?thesis using Cons.prems(1) True that unfolding cmp_preorder_def
        by (meson insertCI list.set_intros)
    qed
    then show ?thesis using True Cons.prems by simp
  next
    case False
    then have "cmp y x < 0" using Cons.prems(1) unfolding cmp_preorder_def
      by (meson insertCI list.set_intros not_le)
    then show ?thesis using False Cons.IH [OF pre] Cons.prems set by auto
  qed
qed simp

lemma insertion_sort_ok: "qsort_ok (insertion_sort :: ('a \<Rightarrow> 'a \<Rightarrow> int) \<Rightarrow> 'a list \<Rightarrow> 'a list)"
proof -
  have m: "mset (insertion_sort cmp xs) = mset xs" for cmp :: "'a \<Rightarrow> 'a \<Rightarrow> int" and xs
    by (induction xs) (auto simp: insertion_sort_def cmp_insert_mset)
  have "sorted_wrt (\<lambda>x y. cmp x y \<le> 0) (insertion_sort cmp xs)" if "cmp_preorder cmp (set xs)" for cmp :: "'a \<Rightarrow> 'a \<Rightarrow> int" and xs
    using that
  proof (induction xs)
    case (Cons x xs)
    have "set (insertion_sort cmp xs) = set xs" using m by (rule mset_eq_setD)
    moreover have "cmp_preorder cmp (set xs)" using Cons.prems by (rule cmp_preorder_subset) auto
    ultimately show ?case
      using Cons cmp_insert_sorted [of cmp x "insertion_sort cmp xs"] by (simp add: insertion_sort_def)
  qed (simp add: insertion_sort_def)
  then show ?thesis using m by (simp add: qsort_ok_def)
qed

definition sample_dht :: DHT where
  "sample_dht = \<lparr>close_clientlist = replicate LCLIENT_LIST client_zero, close_lastgetnodes = 0, close_bootstrap_times = 0,
     self_public_key = replicate 32 1, self_secret_key = replicate 32 2, friends_list = [],
     shared_keys_recv = shared_keys_zero, shared_keys_sent = shared_keys_zero,
     dht_ping_array = sample_ping_array, dht_harden_ping_array = sample_ping_array,
     to_bootstrap = replicate MAX_CLOSE_TO_BOOTSTRAP_NODES node_zero, num_to_bootstrap = 0,
     ping_ping_array = sample_ping_array, to_ping = replicate MAX_TO_PING node_zero, last_to_ping = 0\<rparr>"

lemma clients_zero_ok: "clients_ok (replicate n client_zero)"
  by (simp add: clients_ok_def unique_keys_def) (simp add: client_zero_def)

lemma sample_dht_ok: "dht_ok sample_dht"
  using clients_zero_ok [of LCLIENT_LIST] by (simp add: dht_ok_def sample_dht_def sample_ok)

lemma sample_bucket: "bit_by_bit_cmp (replicate 32 3) (replicate 32 1) = 6"
  by code_simp

theorem addto_lists_invariant_witness:
  "\<exists>d' used ev. addto_lists insertion_sort 1000 sample_dht (nf_ip_port sample_node) (replicate 32 3) = Some (d', used, ev) \<and>
     dht_ok d' \<and> map df_public_key (friends_list d') = map df_public_key (friends_list sample_dht)"
  by (rule addto_lists_invariant [OF insertion_sort_ok sample_dht_ok])
    (simp_all add: sample_bucket sample_node_def ip_ok_def sample_dht_def)

text \<open>
  C39. The bucket index of \<open>add_to_close\<close> is one too large at the end: a key that shares exactly
  128 leading bits with our own passes the test \<open>index > LCLIENT_LENGTH\<close> and the loop then
  accesses entries past the end of the close list.
\<close>

theorem add_to_close_out_of_range:
  assumes "length (close_clientlist d) = LCLIENT_LIST" and "bit_by_bit_cmp pk (self_public_key d) = 128"
  shows "add_to_close now d pk ipp simulate = None"
  using assms bucket_loop_past_end [OF assms(1)] by (simp add: add_to_close_def close_index_def)

theorem add_to_close_out_of_range_witness:
  "add_to_close 1000 sample_dht (replicate 16 1 @ replicate 16 129) ipport_zero True = None"
proof (rule add_to_close_out_of_range)
  have "bit_by_bit_cmp (replicate 16 1 @ replicate 16 129) (replicate 32 1) = 128" by code_simp
  then show "bit_by_bit_cmp (replicate 16 1 @ replicate 16 129) (self_public_key sample_dht) = 128"
    by (simp add: sample_dht_def)
qed (simp add: sample_dht_def)

text \<open>
  C23. \<open>replace_all\<close> evicts the entry the comment promises: when it stores a new node, the entry
  it overwrites is a timed out one if there is any, otherwise an untested one that is furthest
  among the untested if there is any, otherwise the furthest of all; every other entry is kept
  and no key becomes double.
\<close>

theorem replace_all_evicts:
  assumes "qsort_ok qs" and "clients_ok cs" and "cs \<noteq> []" and "length pk = 32" and "length friend_pk = 32"
    and "ip_ok (ipp_ip ipp)" and "pk \<notin> cd_public_key ` set cs"
    and "replace_all qs now cs pk ipp friend_pk = (cs', True)"
  shows "\<exists>victim\<in>set cs. add_mset victim (mset cs') = add_mset (store_client now pk ipp victim) (mset cs) \<and> clients_ok cs' \<and>
    ((\<exists>c\<in>set cs. both_bad now c) \<longrightarrow> both_bad now victim) \<and>
    (\<not> both_bad now victim \<longrightarrow>
       ((\<exists>c\<in>set cs. untested c) \<longrightarrow> untested victim) \<and>
       (\<forall>c\<in>set cs. untested c = untested victim \<longrightarrow>
          key_dist friend_pk (cd_public_key c) \<le> key_dist friend_pk (cd_public_key victim)))"
proof -
  obtain v where v: "v \<in> set cs" "\<forall>c\<in>set cs. evict_rank now friend_pk v \<le> evict_rank now friend_pk c"
    "add_mset v (mset cs') = add_mset (store_client now pk ipp v) (mset cs)" "clients_ok cs'"
    using replace_all_keeps [OF assms(1-6,7,8)] by metis
  define M :: nat where "M = 256 ^ 32"
  have bound: "key_dist friend_pk (cd_public_key c) < M" if "c \<in> set cs" for c
    using that assms(2,5) key_dist_bound by (auto simp: M_def clients_ok_def client_ok_def)
  have rank: "evict_rank now friend_pk v \<le> evict_rank now friend_pk c" if "c \<in> set cs" for c using v(2) that by blast
  have "both_bad now v" if "c \<in> set cs" "both_bad now c" for c
    using rank [OF that(1)] that(2) by (simp add: evict_rank_def split: if_splits)
  moreover have "untested v \<and> key_dist friend_pk (cd_public_key c) \<le> key_dist friend_pk (cd_public_key v)"
    if "c \<in> set cs" "\<not> both_bad now v" "untested c" for c
    using rank [OF that(1)] that(2,3) bound [OF that(1)] bound [OF v(1)] calculation [OF that(1)]
    unfolding evict_rank_def M_def [symmetric] by (auto split: if_splits)
  moreover have "key_dist friend_pk (cd_public_key c) \<le> key_dist friend_pk (cd_public_key v)"
    if "c \<in> set cs" "\<not> both_bad now v" "\<not> untested c" "\<not> untested v" for c
    using rank [OF that(1)] that(2-4) bound [OF that(1)] bound [OF v(1)] calculation(1) [OF that(1)]
    unfolding evict_rank_def M_def [symmetric] by (auto split: if_splits)
  ultimately have "((\<exists>c\<in>set cs. both_bad now c) \<longrightarrow> both_bad now v) \<and> (\<not> both_bad now v \<longrightarrow>
       ((\<exists>c\<in>set cs. untested c) \<longrightarrow> untested v) \<and> (\<forall>c\<in>set cs. untested c = untested v \<longrightarrow>
          key_dist friend_pk (cd_public_key c) \<le> key_dist friend_pk (cd_public_key v)))" by blast
  then show ?thesis using v(1,3,4) by blast
qed

definition sample_clients :: "Client_data list" where
  "sample_clients = [sample_client 1, sample_client 2, client_zero]"

lemma sample_clients_ok: "clients_ok sample_clients"
  using sample_client_ok client_zero_ok
  by (simp add: clients_ok_def unique_keys_def sample_clients_def sample_client_sendable) (simp add: client_zero_def)

theorem replace_all_evicts_witness:
  "\<exists>victim. victim \<in> set sample_clients \<and> add_mset victim (mset (fst (replace_all insertion_sort 1010 sample_clients (replicate 32 5)
      (nf_ip_port sample_node) (replicate 32 4)))) =
     add_mset (store_client 1010 (replicate 32 5) (nf_ip_port sample_node) victim) (mset sample_clients)"
proof -
  have "store_node_ok 1010 (sample_clients ! 1) (replicate 32 5) (replicate 32 4)"
    by (simp add: store_node_ok_def sample_clients_def sample_client_sendable) code_simp
  then have r: "snd (replace_all insertion_sort 1010 sample_clients (replicate 32 5) (nf_ip_port sample_node) (replicate 32 4))"
    by (simp add: replace_all_def Let_def sample_node_def)
  have new: "replicate 32 5 \<notin> cd_public_key ` set sample_clients"
    by (simp add: sample_clients_def sample_client_sendable) (simp add: client_zero_def)
  have "replace_all insertion_sort 1010 sample_clients (replicate 32 5) (nf_ip_port sample_node) (replicate 32 4) =
      (fst (replace_all insertion_sort 1010 sample_clients (replicate 32 5) (nf_ip_port sample_node) (replicate 32 4)), True)"
    using r by (simp add: prod_eq_iff)
  moreover have "sample_clients \<noteq> []" "length (replicate 32 (5::u8)) = 32" "length (replicate 32 (4::u8)) = 32"
    "ip_ok (ipp_ip (nf_ip_port sample_node))" by (simp_all add: sample_clients_def sample_node_def ip_ok_def)
  ultimately show ?thesis using replace_all_evicts [OF insertion_sort_ok sample_clients_ok] new by blast
qed

text \<open>
  C24. The friend list, for a DHT with fewer than 65535 friends and a lock number of at most 32.
  \<open>DHT_delfriend\<close> stays inside the array of callbacks, keeps the DHT well formed (friends pairwise
  different, lock counts between 1 and 32), leaves the other friends as they are, and the friend
  remains exactly when a lock was given and another is still held. \<open>DHT_addfriend\<close> fails only for
  a new friend without memory or for a friend with all 32 locks taken; otherwise it keeps the DHT
  well formed, leaves the other friends as they are, and the lock it returns is the new lock
  count of the friend and the slot that holds the caller's callback.
\<close>

theorem DHT_friends_invariant:
  assumes "dht_ok d" and "length pk = 32" and "length (friends_list d) < 65535" and "unat lock \<le> DHT_FRIEND_MAX_LOCKS"
  shows "(\<exists>r d'. DHT_delfriend alloc d pk lock = Some (r, d') \<and> dht_ok d' \<and> other_friends pk d' = other_friends pk d \<and>
       (pk \<in> df_public_key ` set (friends_list d') \<longleftrightarrow>
          lock \<noteq> 0 \<and> (\<exists>f\<in>set (friends_list d). df_public_key f = pk \<and> 1 < unat (lock_count f)))) \<and>
    (case DHT_addfriend now alloc rnd d pk cb of
       None \<Rightarrow> \<not> alloc \<and> pk \<notin> df_public_key ` set (friends_list d) \<or>
         (\<exists>f\<in>set (friends_list d). df_public_key f = pk \<and> unat (lock_count f) = DHT_FRIEND_MAX_LOCKS)
     | Some (d', n) \<Rightarrow> dht_ok d' \<and> other_friends pk d' = other_friends pk d \<and>
         (\<exists>f\<in>set (friends_list d'). df_public_key f = pk \<and> lock_count f = n \<and>
            0 < unat n \<and> callbacks f ! (unat n - 1) = cb))"
proof -
  have "dht_ok d' \<and> other_friends pk d' = other_friends pk d \<and>
      (\<exists>f\<in>set (friends_list d'). df_public_key f = pk \<and> lock_count f = n \<and>
         0 < unat n \<and> callbacks f ! (unat n - 1) = cb)"
    if a: "DHT_addfriend now alloc rnd d pk cb = Some (d', n)" for d' n
  proof -
    from DHT_addfriend_keeps [OF assms(1-3) a] obtain i where i: "dht_ok d'" "i < length (friends_list d')"
      "df_public_key (friends_list d' ! i) = pk" "unat n = unat (lock_count (friends_list d' ! i))"
      "callbacks (friends_list d' ! i) ! (unat n - 1) = cb" "other_friends pk d' = other_friends pk d" by blast
    have "friend_ok (friends_list d' ! i)" using i(1,2) by (simp add: dht_ok_def)
    then have "0 < unat n" using i(4) by (simp add: friend_ok_def)
    moreover have "lock_count (friends_list d' ! i) = n" using i(4) by (intro word_unat_eq_iff [THEN iffD2]) simp
    moreover have "friends_list d' ! i \<in> set (friends_list d')" using i(2) by simp
    ultimately show ?thesis using i(1,3,5,6) by blast
  qed
  moreover have "unat lock \<le> 32" using assms(4) by simp
  ultimately show ?thesis
    using DHT_delfriend_keeps [OF assms(1,2)] DHT_addfriend_fails [OF assms(1,2)] by (simp split: option.split)
qed

lemma sample_addfriend:
  "\<exists>d1. DHT_addfriend 5 True 7 sample_dht (replicate 32 9) callback_zero = Some (d1, 1) \<and>
     length (friends_list d1) = 1 \<and> df_public_key (hd (friends_list d1)) = replicate 32 9 \<and> lock_count (hd (friends_list d1)) = 1"
  by (simp add: DHT_addfriend_def Let_def friend_number_def sample_dht_def take_lock_def friend_zero_def split: prod.split)

theorem DHT_friends_invariant_witness:
  "\<exists>d1 r d2. DHT_addfriend 5 True 7 sample_dht (replicate 32 9) callback_zero = Some (d1, 1) \<and> dht_ok d1 \<and>
     replicate 32 9 \<in> df_public_key ` set (friends_list d1) \<and>
     DHT_delfriend True d1 (replicate 32 9) 1 = Some (r, d2) \<and> dht_ok d2 \<and>
     replicate 32 9 \<notin> df_public_key ` set (friends_list d2)"
proof -
  obtain d1 where d1: "DHT_addfriend 5 True 7 sample_dht (replicate 32 9) callback_zero = Some (d1, 1)"
      "length (friends_list d1) = 1" "lock_count (hd (friends_list d1)) = 1" using sample_addfriend by blast
  have "length (friends_list sample_dht) < 65535" by (simp add: sample_dht_def)
  then have ok: "dht_ok d1 \<and> (\<exists>f\<in>set (friends_list d1). df_public_key f = replicate 32 9)"
    using DHT_friends_invariant [where d = sample_dht and pk = "replicate 32 9" and lock = 1 and alloc = True and now = 5
        and rnd = 7 and cb = callback_zero] sample_dht_ok d1(1) by auto
  obtain f where f: "friends_list d1 = [f]" "lock_count f = 1" using d1(2,3) by (auto simp: length_Suc_conv)
  then obtain r d2 where "DHT_delfriend True d1 (replicate 32 9) 1 = Some (r, d2)" "dht_ok d2"
      "replicate 32 9 \<notin> df_public_key ` set (friends_list d2)"
    using DHT_friends_invariant [where d = d1 and pk = "replicate 32 9" and lock = 1 and alloc = True, THEN conjunct1] ok by auto
  moreover have "replicate 32 9 \<in> df_public_key ` set (friends_list d1)" using ok by (metis imageI)
  ultimately show ?thesis using d1(1) ok by blast
qed

text \<open>
  Outside these bounds the friend list is not safe: a lock number above 32 makes \<open>DHT_delfriend\<close>
  write past the array of callbacks, and with 65535 friends the next \<open>DHT_addfriend\<close> wraps the
  count and loses every friend.
\<close>

theorem DHT_delfriend_out_of_range:
  assumes "dht_ok d" and "length pk = 32" and "f \<in> set (friends_list d)" and "df_public_key f = pk"
    and "1 < unat (lock_count f)" and "DHT_FRIEND_MAX_LOCKS < unat lock"
  shows "DHT_delfriend alloc d pk lock = None"
  using assms(1,2)
proof (cases rule: friend_number_cases)
  case (found i)
  have "distinct (map df_public_key (friends_list d))" using assms(1) by (simp add: dht_ok_def)
  then have f: "friends_list d ! i = f"
    using assms(3,4) found(2,3) by (metis (no_types, lifting) distinct_conv_nth in_set_conv_nth length_map nth_map)
  have "lock_count f \<noteq> 0" "lock \<noteq> 0" using assms(5,6) by auto
  then have "unat (lock_count f - 1) = unat (lock_count f) - 1" "unat (lock - 1) = unat lock - 1"
    by (simp_all add: unat_minus_one)
  then have "lock_count f - 1 \<noteq> 0" "DHT_FRIEND_MAX_LOCKS \<le> unat (lock - 1)" using assms(5,6) by auto
  then show ?thesis using found(1) f \<open>lock \<noteq> 0\<close> by (simp add: DHT_delfriend_def Let_def)
qed (use assms in auto)

theorem DHT_addfriend_count_wraps:
  assumes "friend_number d pk = None" and "length (friends_list d) = 65535"
  shows "\<exists>d'. DHT_addfriend now True rnd d pk cb = Some (d', 1) \<and> friends_list d' = []"
  using assms by (simp add: DHT_addfriend_def Let_def friend_zero_def split: prod.split)

text \<open>
  Releasing a lock that is not the newest loses a callback: \<open>DHT_delfriend\<close> lowers the lock
  count but does not move the callbacks after the released one, so the next \<open>DHT_addfriend\<close>
  hands out a lock number that is still held and overwrites its callback.
\<close>

theorem DHT_delfriend_lock_reused:
  assumes "dht_ok d" and "length pk = 32" and "friend_number d pk = Some i" and "f = friends_list d ! i"
    and "0 < unat lock" and "unat lock < unat (lock_count f)"
  shows "\<exists>d1. DHT_delfriend alloc d pk lock = Some (0, d1) \<and>
    callbacks (friends_list d1 ! i) ! (unat (lock_count f) - 1) = callbacks f ! (unat (lock_count f) - 1) \<and>
    (\<exists>d2. DHT_addfriend now alloc rnd d1 pk cb = Some (d2, lock_count f) \<and>
       callbacks (friends_list d2 ! i) ! (unat (lock_count f) - 1) = cb)"
proof -
  have i: "i < length (friends_list d)" "df_public_key f = pk" "friend_ok f"
    using friend_number_cases [OF assms(1,2)] assms(3,4) by (metis option.distinct(1) option.inject)+
  let ?n = "unat (lock_count f)"
  have n: "2 \<le> ?n" "?n \<le> 32" "length (callbacks f) = 32" using assms(5,6) i(3) by (auto simp: friend_ok_def)
  have dec: "unat (lock_count f - 1) = ?n - 1"
    using n(1) by (intro unat_minus_one) auto
  then have nz: "lock_count f - 1 \<noteq> 0" using n(1) by auto
  have lk: "lock \<noteq> 0" using assms(5) by auto
  then have lk1: "unat (lock - 1) = unat lock - 1" by (rule unat_minus_one)
  define g where "g = f\<lparr>lock_count := lock_count f - 1, callbacks := (callbacks f)[unat (lock - 1) := callback_zero]\<rparr>"
  define d1 where "d1 = d\<lparr>friends_list := (friends_list d)[i := g]\<rparr>"
  have le: "unat lock \<le> 32" using assms(6) n(2) by simp
  have del: "DHT_delfriend alloc d pk lock = Some (0, d1)"
    using assms(3,4) nz lk release_lock_index [OF le] by (simp add: DHT_delfriend_def Let_def d1_def g_def)
  then have ok1: "dht_ok d1" using DHT_delfriend_keeps [OF assms(1,2) le, of alloc] by simp
  have keep: "callbacks (friends_list d1 ! i) ! (?n - 1) = callbacks f ! (?n - 1)"
    using i(1) assms(5,6) lk1 by (simp add: d1_def g_def)
  have key: "friends_list d1 ! i = g" "df_public_key g = pk" "i < length (friends_list d1)"
    using i by (simp_all add: d1_def g_def)
  have "friend_number d1 pk = Some i"
    using ok1 assms(2)
  proof (cases rule: friend_number_cases)
    case (found j)
    have "distinct (map df_public_key (friends_list d1))" using ok1 by (simp add: dht_ok_def)
    then have "j = i" using found key nth_eq_iff_index_eq [of "map df_public_key (friends_list d1)" j i] by simp
    then show ?thesis using found by simp
  next
    case new
    then show ?thesis using key nth_mem by fastforce
  qed
  moreover have "lock_count g \<noteq> word_of_nat 32"
  proof
    assume "lock_count g = word_of_nat 32"
    then have "unat (lock_count f - 1) = unat (word_of_nat 32 :: u16)" by (simp add: g_def)
    then show False using dec n by simp
  qed
  ultimately have "DHT_addfriend now alloc rnd d1 pk cb =
      Some (d1\<lparr>friends_list := (friends_list d1)[i := take_lock cb g]\<rparr>, lock_count f)"
    using key(1) by (simp add: DHT_addfriend_def Let_def g_def)
  moreover have "callbacks (take_lock cb g) ! (?n - 1) = cb"
    using n dec by (simp add: take_lock_def g_def)
  ultimately show ?thesis using del keep key(3) by auto
qed

definition sample_friend :: DHT_Friend where
  "sample_friend = friend_zero\<lparr>df_public_key := replicate 32 9, lock_count := 2\<rparr>"

lemma sample_friend_ok: "friend_ok sample_friend"
  using clients_zero_ok [of 8] sample_ok by (simp add: friend_ok_def sample_friend_def friend_zero_def)

definition sample_dht_friend :: DHT where
  "sample_dht_friend = sample_dht\<lparr>friends_list := [sample_friend]\<rparr>"

lemma sample_dht_friend_ok: "dht_ok sample_dht_friend"
  using sample_dht_ok sample_friend_ok by (simp add: dht_ok_def sample_dht_friend_def sample_dht_def)

theorem DHT_delfriend_lock_reused_witness:
  "\<exists>d1. DHT_delfriend True sample_dht_friend (replicate 32 9) 1 = Some (0, d1) \<and>
     (\<exists>d2. DHT_addfriend 5 True 7 d1 (replicate 32 9) callback_zero = Some (d2, lock_count sample_friend))"
proof -
  have "friend_number sample_dht_friend (replicate 32 9) = Some 0"
    by (simp add: friend_number_def sample_dht_friend_def sample_friend_def id_equal_def)
  moreover have "sample_friend = friends_list sample_dht_friend ! 0" by (simp add: sample_dht_friend_def)
  moreover have "unat (1::u16) < unat (lock_count sample_friend)" by (simp add: sample_friend_def)
  ultimately show ?thesis
    using DHT_delfriend_lock_reused [OF sample_dht_friend_ok, of "replicate 32 9" 0 sample_friend 1 True 5 7 callback_zero] by auto
qed

text \<open>
  The result of \<open>addto_lists\<close> counts the close list the wrong way round: for a node that was
  in no list, with no friends to consider, the function returns 0 exactly when it has stored
  the node in the close list and 1 when it has not.
\<close>

theorem addto_lists_used_inverted:
  assumes "dht_ok d" and "length pk = 32" and "ip_ok (ipp_ip ipp)" and "bit_by_bit_cmp pk (self_public_key d) \<noteq> 128"
    and "friends_list d = []" and "client_or_ip_port_in_list now (close_clientlist d) pk (unembed_ip_port ipp) = (cl, False)"
  shows "\<exists>d' used. addto_lists qs now d ipp pk = Some (d', used, []) \<and>
    (used = 0 \<longleftrightarrow> pk \<in> cd_public_key ` set (close_clientlist d')) \<and> used \<le> 1"
proof -
  have p: "ip_ok (ipp_ip (unembed_ip_port ipp))" using assms(3) by (rule ip_ok_unembed)
  have cl: "clients_ok (close_clientlist d)" using assms(1) by (simp add: dht_ok_def)
  have new: "pk \<notin> cd_public_key ` set (close_clientlist d)" using coipil_keeps [OF cl assms(2) p assms(6)] by simp
  obtain d' r where a: "add_to_close now d pk (unembed_ip_port ipp) False = Some (d', r)" "friends_list d' = []"
    "r \<longrightarrow> pk \<in> cd_public_key ` set (close_clientlist d')" "\<not> r \<longrightarrow> d' = d"
    using add_to_close_keeps [OF assms(1,2) p new assms(4), of now False] assms(5) by auto
  then have "addto_lists qs now d ipp pk = Some (d', (if r then 0 else 1), [])"
    using assms(6) by (simp add: addto_lists_def Let_def)
  then show ?thesis using a new by (cases r) auto
qed

theorem addto_lists_used_inverted_witness:
  "\<exists>d' used. addto_lists insertion_sort 1000 sample_dht (nf_ip_port sample_node) (replicate 32 3) = Some (d', used, []) \<and> used \<le> 1"
proof -
  have "\<forall>c\<in>set (replicate 1024 client_zero). \<not> id_equal (cd_public_key c) (replicate 32 3)"
    by (simp add: client_zero_def id_equal_iff)
  moreover have "coipil_addr_loop 1000 (replicate 32 3) q (replicate n client_zero) = None" for q n
    by (induction n) (auto simp: client_zero_def assoc_zero_def ipport_zero_def ipport_equal_def)
  ultimately have "client_or_ip_port_in_list 1000 (close_clientlist sample_dht) (replicate 32 3) (unembed_ip_port (nf_ip_port sample_node)) =
      (close_clientlist sample_dht, False)"
    using coipil_key_loop_None [of 1000 "replicate 32 3" _ "replicate 1024 client_zero"]
    by (simp add: client_or_ip_port_in_list_def sample_dht_def)
  moreover have "length (replicate 32 (3::u8)) = 32" "ip_ok (ipp_ip (nf_ip_port sample_node))"
    "bit_by_bit_cmp (replicate 32 3) (self_public_key sample_dht) \<noteq> 128" "friends_list sample_dht = []"
    by (simp_all add: sample_bucket sample_node_def ip_ok_def sample_dht_def)
  ultimately show ?thesis using addto_lists_used_inverted [OF sample_dht_ok] by blast
qed

end
