(* ===== verification/Packets_Array.thy ===== *)
theory Packets_Array
  imports Ping_Array
begin

text \<open>
  The packet buffers of an encrypted connection (\<open>toxcore/net_crypto.c\<close>, "Array Related
  functions"): a circular array of 32768 slots addressed by 32-bit packet numbers that wrap
  around, with the window \<open>[buffer_start, buffer_end)\<close>. A slot is a pointer, \<open>None\<close> when it
  is \<open>NULL\<close>; the array of slots is a function of the index, which is always below the size.

  The window is given its meaning by \<open>packet_at\<close>, the packet stored under a number. The
  results say what each operation does to it, show that a request packet makes the sender
  keep exactly the packets that are missing at the receiver, and record two flaws: the
  bound of \<open>add_data_to_buffer\<close> lets a packet in that lands in the slot of another number, and
  \<open>handle_request_packet\<close> reports a send time that no packet has.
\<close>

abbreviation "CRYPTO_PACKET_BUFFER_SIZE \<equiv> (32768::nat)"
abbreviation "PACKET_ID_PADDING \<equiv> (0::u8)"
abbreviation "PACKET_ID_REQUEST \<equiv> (1::u8)"
abbreviation "PACKET_ID_KILL \<equiv> (2::u8)"

section \<open>The code\<close>

record Packet_Data =
  sent_time :: u64
  pd_data :: bytes

record Packets_Array =
  buffer :: "nat \<Rightarrow> Packet_Data option"
  buffer_start :: u32
  buffer_end :: u32

definition num_packets_array :: "Packets_Array \<Rightarrow> u32" where
  "num_packets_array arr = buffer_end arr - buffer_start arr"

definition slot :: "u32 \<Rightarrow> nat" where
  "slot number = unat number mod CRYPTO_PACKET_BUFFER_SIZE"

text \<open>\<open>alloc\<close> is whether \<open>malloc\<close> succeeds; \<open>False\<close> is the return value \<open>-1\<close>.\<close>

definition add_data_to_buffer :: "bool \<Rightarrow> Packets_Array \<Rightarrow> u32 \<Rightarrow> Packet_Data \<Rightarrow> bool \<times> Packets_Array" where
  "add_data_to_buffer alloc arr number data =
     (if unat (number - buffer_start arr) > CRYPTO_PACKET_BUFFER_SIZE then (False, arr)
      else if buffer arr (slot number) \<noteq> None then (False, arr)
      else if \<not> alloc then (False, arr)
      else
        let arr1 = arr\<lparr>buffer := (buffer arr)(slot number := Some data)\<rparr>
        in (True, if number - buffer_start arr \<ge> buffer_end arr - buffer_start arr
                  then arr1\<lparr>buffer_end := number + 1\<rparr> else arr1))"

datatype data_pointer = PtrError | PtrEmpty | PtrData Packet_Data

definition get_data_pointer :: "Packets_Array \<Rightarrow> u32 \<Rightarrow> data_pointer" where
  "get_data_pointer arr number =
     (let num_spots = buffer_end arr - buffer_start arr
      in if buffer_end arr - number > num_spots \<or> number - buffer_start arr \<ge> num_spots then PtrError
         else case buffer arr (slot number) of None \<Rightarrow> PtrEmpty | Some d \<Rightarrow> PtrData d)"

definition add_data_end_of_buffer :: "bool \<Rightarrow> Packets_Array \<Rightarrow> Packet_Data \<Rightarrow> u32 option \<times> Packets_Array" where
  "add_data_end_of_buffer alloc arr data =
     (if unat (num_packets_array arr) \<ge> CRYPTO_PACKET_BUFFER_SIZE then (None, arr)
      else if \<not> alloc then (None, arr)
      else
        let ident = buffer_end arr
        in (Some ident, arr\<lparr>buffer := (buffer arr)(slot ident := Some data), buffer_end := buffer_end arr + 1\<rparr>))"

definition read_data_beg_buffer :: "Packets_Array \<Rightarrow> (u32 \<times> Packet_Data) option \<times> Packets_Array" where
  "read_data_beg_buffer arr =
     (if buffer_end arr = buffer_start arr then (None, arr)
      else case buffer arr (slot (buffer_start arr)) of
             None \<Rightarrow> (None, arr)
           | Some d \<Rightarrow> (Some (buffer_start arr, d),
               arr\<lparr>buffer_start := buffer_start arr + 1, buffer := (buffer arr)(slot (buffer_start arr) := None)\<rparr>))"

text \<open>The loop that frees the slots from \<open>i\<close> up to \<open>number\<close>.\<close>

function free_slots :: "(nat \<Rightarrow> Packet_Data option) \<Rightarrow> u32 \<Rightarrow> u32 \<Rightarrow> (nat \<Rightarrow> Packet_Data option)" where
  "free_slots buf i number = (if i = number then buf else free_slots (buf(slot i := None)) (i + 1) number)"
  by pat_completeness auto
termination
  by (relation "measure (\<lambda>(buf, i, number). unat (number - i))") (auto simp: pending_decreases)

declare free_slots.simps [simp del]

definition clear_buffer_until :: "Packets_Array \<Rightarrow> u32 \<Rightarrow> bool \<times> Packets_Array" where
  "clear_buffer_until arr number =
     (let num_spots = buffer_end arr - buffer_start arr
      in if buffer_end arr - number \<ge> num_spots \<or> number - buffer_start arr > num_spots then (False, arr)
         else (True, arr\<lparr>buffer := free_slots (buffer arr) (buffer_start arr) number, buffer_start := number\<rparr>))"

definition clear_buffer :: "Packets_Array \<Rightarrow> Packets_Array" where
  "clear_buffer arr =
     arr\<lparr>buffer := free_slots (buffer arr) (buffer_start arr) (buffer_end arr), buffer_start := buffer_end arr\<rparr>"

definition set_buffer_end :: "Packets_Array \<Rightarrow> u32 \<Rightarrow> bool \<times> Packets_Array" where
  "set_buffer_end arr number =
     (if unat (number - buffer_start arr) > CRYPTO_PACKET_BUFFER_SIZE then (False, arr)
      else if unat (number - buffer_end arr) > CRYPTO_PACKET_BUFFER_SIZE then (False, arr)
      else (True, arr\<lparr>buffer_end := number\<rparr>))"

text \<open>
  The loop of \<open>generate_request_packet\<close>: \<open>out\<close> is what has been written so far, \<open>cur_len\<close> its
  length, and writing stops when \<open>length\<close> bytes are there.
\<close>

function generate_loop :: "Packets_Array \<Rightarrow> nat \<Rightarrow> bytes \<Rightarrow> u32 \<Rightarrow> nat \<Rightarrow> bytes" where
  "generate_loop recv_array len out i n =
     (if i = buffer_end recv_array then out
      else if buffer recv_array (slot i) = None then
        if len \<le> length out + 1 then out @ [word_of_nat n]
        else generate_loop recv_array len (out @ [word_of_nat n]) (i + 1) 1
      else if n = 255 then
        if len \<le> length out + 1 then out @ [0]
        else generate_loop recv_array len (out @ [0]) (i + 1) 1
      else generate_loop recv_array len out (i + 1) (n + 1))"
  by pat_completeness auto
termination
  by (relation "measure (\<lambda>(arr, len, out, i, n). unat (buffer_end arr - i))") (auto simp: pending_decreases)

declare generate_loop.simps [simp del]

definition generate_request_packet :: "nat \<Rightarrow> Packets_Array \<Rightarrow> bytes option" where
  "generate_request_packet len recv_array =
     (if len = 0 then None
      else if buffer_start recv_array = buffer_end recv_array then Some [PACKET_ID_REQUEST]
      else if len \<le> 1 then Some [PACKET_ID_REQUEST]
      else Some (generate_loop recv_array len [PACKET_ID_REQUEST] (buffer_start recv_array) 1))"

text \<open>
  The loop of \<open>handle_request_packet\<close>: the remaining request bytes, the packet number, the
  counter \<open>n\<close>, the packets requested so far and the variable \<open>l_sent_time\<close>.
\<close>

datatype request_result = RequestError | Requested nat u64

function request_loop :: "u64 \<Rightarrow> u64 \<Rightarrow> u32 \<Rightarrow> bytes \<Rightarrow> (nat \<Rightarrow> Packet_Data option) \<Rightarrow> u32 \<Rightarrow> nat \<Rightarrow> nat \<Rightarrow> u64 \<Rightarrow>
    request_result \<times> (nat \<Rightarrow> Packet_Data option)" where
  "request_loop temp_time rtt_time send_end data buf i n requested l_sent_time =
     (if i = send_end then (Requested requested l_sent_time, buf)
      else case data of
        [] \<Rightarrow> (Requested requested l_sent_time, buf)
      | b # rest \<Rightarrow>
          if n = unat b then
            let buf' = (case buf (slot i) of
                          None \<Rightarrow> buf
                        | Some d \<Rightarrow> if sent_time d + rtt_time < temp_time
                                    then buf(slot i := Some (d\<lparr>sent_time := 0\<rparr>)) else buf)
            in request_loop temp_time rtt_time send_end rest buf' (i + 1) 1 (requested + 1) l_sent_time
          else
            let (l', buf') = (case buf (slot i) of
                                None \<Rightarrow> (l_sent_time, buf)
                              | Some d \<Rightarrow> (if l_sent_time < sent_time d then sent_time d else l_sent_time,
                                           buf(slot i := None)))
            in if n = 255 then
                 (if b \<noteq> 0 then (RequestError, buf')
                  else request_loop temp_time rtt_time send_end rest buf' (i + 1) 1 requested l')
               else request_loop temp_time rtt_time send_end data buf' (i + 1) (n + 1) requested l')"
  by pat_completeness auto
termination
  by (relation "measure (\<lambda>(t, r, e, data, buf, i, n, q, l). unat (e - i))") (auto simp: pending_decreases)

declare request_loop.simps [simp del]

text \<open>\<open>None\<close> is the return value \<open>-1\<close>; otherwise the count returned and the new \<open>*latest_send_time\<close>.\<close>

definition handle_request_packet :: "u64 \<Rightarrow> Packets_Array \<Rightarrow> bytes \<Rightarrow> u64 \<Rightarrow> u64 \<Rightarrow> (nat \<times> u64) option \<times> Packets_Array" where
  "handle_request_packet temp_time send_array data latest_send_time rtt_time =
     (case data of
        [] \<Rightarrow> (None, send_array)
      | b # rest \<Rightarrow>
          if b \<noteq> PACKET_ID_REQUEST then (None, send_array)
          else if rest = [] then (Some (0, latest_send_time), send_array)
          else
            let (r, buf) = request_loop temp_time rtt_time (buffer_end send_array) rest (buffer send_array)
                             (buffer_start send_array) 1 0 (- 1);
                arr = send_array\<lparr>buffer := buf\<rparr>
            in case r of
                 RequestError \<Rightarrow> (None, arr)
               | Requested requested l_sent_time \<Rightarrow>
                   (Some (requested, if latest_send_time < l_sent_time then l_sent_time else latest_send_time), arr))"

section \<open>Invariant and meaning\<close>

definition window :: "Packets_Array \<Rightarrow> nat" where
  "window arr = unat (buffer_end arr - buffer_start arr)"

text \<open>At most one full turn of the array, and nothing allocated outside the window.\<close>

definition array_ok :: "Packets_Array \<Rightarrow> bool" where
  "array_ok arr \<longleftrightarrow> window arr \<le> CRYPTO_PACKET_BUFFER_SIZE \<and>
     (\<forall>j. buffer arr j \<noteq> None \<longrightarrow> (\<exists>k<window arr. slot (buffer_start arr + word_of_nat k) = j))"

text \<open>The packet stored under a number.\<close>

definition in_window :: "Packets_Array \<Rightarrow> u32 \<Rightarrow> bool" where
  "in_window arr number \<longleftrightarrow> unat (number - buffer_start arr) < window arr"

definition packet_at :: "Packets_Array \<Rightarrow> u32 \<Rightarrow> Packet_Data option" where
  "packet_at arr number = (if in_window arr number then buffer arr (slot number) else None)"

lemma slot_add: "slot (c + word_of_nat k) = (unat c + k) mod 32768"
  unfolding slot_def by (rule unat_plus_mod) simp

lemma slot_less: "slot c < 32768"
  by (simp add: slot_def)

lemma number_split: "number = start + word_of_nat (unat (number - start))" for number start :: u32
  by simp

lemma mod_eq_close:
  fixes x y m :: nat
  assumes "x mod m = y mod m" and "x < y + m" and "y < x + m"
  shows "x = y"
proof (rule ccontr)
  assume "x \<noteq> y"
  then consider "x < y" | "y < x" by linarith
  then show False
  proof cases
    case 1
    then have "m dvd y - x" using assms(1) mod_eq_dvd_iff_nat [of x y m] by simp
    then show False using 1 assms(3) by (auto dest: dvd_imp_le)
  next
    case 2
    then have "m dvd x - y" using assms(1) mod_eq_dvd_iff_nat [of y x m] by simp
    then show False using 2 assms(2) by (auto dest: dvd_imp_le)
  qed
qed

lemma slot_inj:
  assumes "slot a = slot b" and "unat (a - c) < unat (b - c) + 32768" and "unat (b - c) < unat (a - c) + 32768"
  shows "a = b"
proof -
  have "(unat c + unat (a - c)) mod 32768 = (unat c + unat (b - c)) mod 32768"
    unfolding slot_add [symmetric] using assms(1) by simp
  then have "unat c + unat (a - c) = unat c + unat (b - c)" by (rule mod_eq_close) (use assms(2,3) in auto)
  then have "unat (a - c) = unat (b - c)" by simp
  then have "a - c = b - c" by (rule word_unat_eq_iff [THEN iffD2])
  then show ?thesis by simp
qed

text \<open>Numbers of one window in different positions have different slots.\<close>

lemma slot_eq_window:
  "unat (a - c) < 32768 \<Longrightarrow> unat (b - c) < 32768 \<Longrightarrow> slot a = slot b \<longleftrightarrow> a = b"
  using slot_inj [of a b c] by auto

lemma array_ok_outside:
  assumes "array_ok arr" and "unat (number - buffer_start arr) < 32768" and "\<not> in_window arr number"
  shows "buffer arr (slot number) = None"
proof (rule ccontr)
  assume "buffer arr (slot number) \<noteq> None"
  then obtain k where k: "k < window arr" "slot (buffer_start arr + word_of_nat k) = slot number"
    using assms(1) unfolding array_ok_def by blast
  have w: "window arr \<le> 32768" using assms(1) by (simp add: array_ok_def)
  have u: "unat (buffer_start arr + word_of_nat k - buffer_start arr) = k"
    using k w by (simp add: unat_word_of_nat_id)
  then have "buffer_start arr + word_of_nat k = number"
    using slot_inj [OF k(2), of "buffer_start arr"] assms(2) k(1) w by simp
  then have "in_window arr number" using u k(1) by (auto simp: in_window_def)
  then show False using assms(3) by simp
qed

lemma array_okI:
  assumes "window arr \<le> 32768" and "\<And>j. buffer arr j \<noteq> None \<Longrightarrow> \<exists>n. in_window arr n \<and> slot n = j"
  shows "array_ok arr"
  unfolding array_ok_def
proof (intro conjI allI impI)
  fix j assume "buffer arr j \<noteq> None"
  then obtain n where n: "in_window arr n" "slot n = j" using assms(2) by blast
  then show "\<exists>k<window arr. slot (buffer_start arr + word_of_nat k) = j"
    by (intro exI [of _ "unat (n - buffer_start arr)"]) (simp add: in_window_def)
qed (rule assms(1))

lemma array_okD:
  assumes "array_ok arr" and "buffer arr j \<noteq> None"
  obtains n where "in_window arr n" "slot n = j"
proof -
  obtain k where k: "k < window arr" "slot (buffer_start arr + word_of_nat k) = j"
    using assms unfolding array_ok_def by blast
  moreover have "window arr \<le> 32768" using assms(1) by (simp add: array_ok_def)
  ultimately have "in_window arr (buffer_start arr + word_of_nat k)"
    by (simp add: in_window_def unat_word_of_nat_id)
  then show ?thesis using that k(2) by blast
qed

lemma window_slot_eq:
  assumes "array_ok arr" "in_window arr a" "in_window arr b"
  shows "slot a = slot b \<longleftrightarrow> a = b"
  using assms slot_eq_window [of a "buffer_start arr" b] by (auto simp: array_ok_def in_window_def)

section \<open>What the operations do\<close>

lemma get_data_pointer_at:
  assumes "array_ok arr"
  shows "get_data_pointer arr number =
    (if in_window arr number then (case packet_at arr number of None \<Rightarrow> PtrEmpty | Some d \<Rightarrow> PtrData d) else PtrError)"
proof -
  have "\<not> buffer_end arr - number > buffer_end arr - buffer_start arr" if "in_window arr number"
  proof -
    have le: "number - buffer_start arr \<le> buffer_end arr - buffer_start arr"
      using that by (simp add: in_window_def window_def word_le_nat_alt)
    have "unat ((buffer_end arr - buffer_start arr) - (number - buffer_start arr)) =
        unat (buffer_end arr - buffer_start arr) - unat (number - buffer_start arr)"
      using le by (rule unat_sub)
    then have "unat (buffer_end arr - number) \<le> unat (buffer_end arr - buffer_start arr)" by simp
    then show ?thesis by (simp add: word_less_nat_alt)
  qed
  then show ?thesis
    by (auto simp: get_data_pointer_def Let_def packet_at_def in_window_def window_def word_le_nat_alt split: option.split)
qed

lemma add_data_end_spec:
  assumes ok: "array_ok arr" and room: "window arr < 32768" and alloc: alloc
  shows "\<exists>arr'. add_data_end_of_buffer alloc arr d = (Some (buffer_end arr), arr') \<and> array_ok arr' \<and>
    buffer_start arr' = buffer_start arr \<and> window arr' = window arr + 1 \<and> packet_at arr' = (packet_at arr)(buffer_end arr := Some d)"
proof -
  let ?e = "buffer_end arr" and ?s = "buffer_start arr"
  define arr' where "arr' = arr\<lparr>buffer := (buffer arr)(slot ?e := Some d), buffer_end := ?e + 1\<rparr>"
  have w: "window arr = unat (?e - ?s)" by (simp add: window_def)
  have "unat (?e - ?s + 1) = unat (?e - ?s) + 1" using room w unat_word_ariths(1) [of "?e - ?s" 1] by simp
  then have w': "window arr' = window arr + 1" by (simp add: arr'_def window_def algebra_simps)
  have in': "in_window arr' n \<longleftrightarrow> in_window arr n \<or> n = ?e" for n
  proof -
    have "n = ?e" if "unat (n - ?s) = unat (?e - ?s)"
    proof -
      have "n - ?s = ?e - ?s" using that by (rule word_unat_eq_iff [THEN iffD2])
      then show ?thesis by simp
    qed
    then show ?thesis using w' w by (auto simp: in_window_def arr'_def less_Suc_eq)
  qed
  have e_out: "\<not> in_window arr ?e" by (simp add: in_window_def window_def)
  have slot_e: "slot n \<noteq> slot ?e" if "in_window arr n" for n
  proof
    assume "slot n = slot ?e"
    then have "n = ?e" using slot_eq_window [of n ?s ?e] that room w by (auto simp: in_window_def)
    then show False using that e_out by simp
  qed
  have "packet_at arr' n = ((packet_at arr)(?e := Some d)) n" for n
    using in' [of n] slot_e [of n] e_out by (auto simp: packet_at_def arr'_def)
  moreover have "array_ok arr'"
  proof (rule array_okI)
    show "window arr' \<le> 32768" using w' room by simp
    fix j assume j: "buffer arr' j \<noteq> None"
    show "\<exists>n. in_window arr' n \<and> slot n = j"
    proof (cases "j = slot ?e")
      case False
      then have "buffer arr j \<noteq> None" using j by (simp add: arr'_def)
      then obtain n where "in_window arr n" "slot n = j" by (rule array_okD [OF ok])
      then show ?thesis using in' by blast
    qed (use in' in blast)
  qed
  moreover have "add_data_end_of_buffer alloc arr d = (Some ?e, arr')"
    using room alloc w by (simp add: add_data_end_of_buffer_def num_packets_array_def arr'_def Let_def)
  ultimately show ?thesis using w' by (intro exI [of _ arr']) (auto simp: arr'_def)
qed

lemma add_data_spec:
  assumes ok: "array_ok arr" and range: "unat (number - buffer_start arr) < 32768" and alloc: alloc
  shows "\<exists>arr'. add_data_to_buffer alloc arr number d = (packet_at arr number = None, arr') \<and> array_ok arr' \<and>
    buffer_start arr' = buffer_start arr \<and>
    packet_at arr' = (if packet_at arr number = None then (packet_at arr)(number := Some d) else packet_at arr)"
proof (cases "packet_at arr number = None")
  case False
  then have "buffer arr (slot number) \<noteq> None" by (auto simp: packet_at_def split: if_splits)
  then show ?thesis using False ok by (intro exI [of _ arr]) (auto simp: add_data_to_buffer_def)
next
  case True
  let ?s = "buffer_start arr" and ?e = "buffer_end arr"
  have empty: "buffer arr (slot number) = None"
    using True array_ok_outside [OF ok range] by (auto simp: packet_at_def split: if_splits)
  define arr' where "arr' = (if number - ?s \<ge> ?e - ?s
      then arr\<lparr>buffer := (buffer arr)(slot number := Some d), buffer_end := number + 1\<rparr>
      else arr\<lparr>buffer := (buffer arr)(slot number := Some d)\<rparr>)"
  have add: "add_data_to_buffer alloc arr number d = (True, arr')"
    using range empty alloc by (simp add: add_data_to_buffer_def arr'_def)
  have grow: "unat (number + 1 - ?s) = unat (number - ?s) + 1"
  proof -
    have e: "number + 1 - ?s = (number - ?s) + 1" by simp
    show ?thesis unfolding e using range unat_word_ariths(1) [of "number - ?s" 1] by simp
  qed
  have w': "window arr' = max (window arr) (unat (number - ?s) + 1)"
    using grow by (auto simp: arr'_def window_def word_le_nat_alt max_def)
  have s': "buffer_start arr' = ?s" "buffer arr' = (buffer arr)(slot number := Some d)" by (auto simp: arr'_def)
  have sub: "in_window arr' n" if "in_window arr n" for n using that w' s' by (simp add: in_window_def)
  have num': "in_window arr' number" using w' s' by (simp add: in_window_def)
  have W: "window arr' \<le> 32768" using w' range ok by (simp add: array_ok_def)
  have outs: "buffer arr (slot n) = None" if "in_window arr' n" "\<not> in_window arr n" for n
    using that W s' by (intro array_ok_outside [OF ok]) (auto simp: in_window_def)
  have "packet_at arr' n = ((packet_at arr)(number := Some d)) n" for n
  proof (cases "in_window arr' n")
    case True
    then have "slot n = slot number \<longleftrightarrow> n = number"
      using num' W s' slot_eq_window [of n ?s number] by (auto simp: in_window_def)
    then show ?thesis using True outs [of n] by (auto simp: packet_at_def s')
  next
    case False
    then show ?thesis using sub [of n] num' by (auto simp: packet_at_def)
  qed
  moreover have "array_ok arr'"
  proof (rule array_okI [OF W])
    fix j assume j: "buffer arr' j \<noteq> None"
    show "\<exists>n. in_window arr' n \<and> slot n = j"
    proof (cases "j = slot number")
      case False
      then have "buffer arr j \<noteq> None" using j by (simp add: s')
      then obtain n where "in_window arr n" "slot n = j" by (rule array_okD [OF ok])
      then show ?thesis using sub by blast
    qed (use num' in blast)
  qed
  ultimately show ?thesis using add True s' by (intro exI [of _ arr']) auto
qed

lemma unat_diff_Suc: "(i :: u32) \<noteq> e \<Longrightarrow> unat (e - i) = Suc (unat (e - (i + 1)))"
proof -
  assume "i \<noteq> e"
  then have "e - i \<noteq> 0" by simp
  then have "unat (e - i - 1) = unat (e - i) - 1" "0 < unat (e - i)" by (auto simp: unat_minus_one unat_gt_0)
  then show ?thesis by (simp add: algebra_simps)
qed

lemma in_window_step:
  assumes "buffer_start arr \<noteq> buffer_end arr"
  shows "unat (n - (buffer_start arr + 1)) < window arr - 1 \<longleftrightarrow> in_window arr n \<and> n \<noteq> buffer_start arr"
proof (cases "n = buffer_start arr")
  case True
  have "unat (n - (buffer_start arr + 1)) = 2 ^ 32 - 1"
    using True by (simp add: unsigned_minus_1_eq_mask mask_eq_exp_minus_1)
  moreover have "unat (buffer_end arr - buffer_start arr) < 2 ^ 32" using unsigned_less [of "buffer_end arr - buffer_start arr"] by simp
  ultimately show ?thesis using True by (simp add: window_def)
next
  case False
  then show ?thesis using unat_diff_Suc [of "buffer_start arr" n] by (auto simp: in_window_def)
qed

lemma read_data_beg_spec:
  assumes ok: "array_ok arr"
  shows "case packet_at arr (buffer_start arr) of
      None \<Rightarrow> read_data_beg_buffer arr = (None, arr)
    | Some d \<Rightarrow> (\<exists>arr'. read_data_beg_buffer arr = (Some (buffer_start arr, d), arr') \<and> array_ok arr' \<and>
        buffer_start arr' = buffer_start arr + 1 \<and> buffer_end arr' = buffer_end arr \<and>
        packet_at arr' = (packet_at arr)(buffer_start arr := None))"
proof (cases "buffer_end arr = buffer_start arr")
  case True
  then show ?thesis by (simp add: packet_at_def in_window_def window_def read_data_beg_buffer_def)
next
  case False
  let ?s = "buffer_start arr"
  have s: "in_window arr ?s" using False by (simp add: in_window_def window_def unat_gt_0)
  show ?thesis
  proof (cases "buffer arr (slot ?s)")
    case None
    then show ?thesis using s by (simp add: packet_at_def read_data_beg_buffer_def)
  next
    case (Some d)
    define arr' where "arr' = arr\<lparr>buffer_start := ?s + 1, buffer := (buffer arr)(slot ?s := None)\<rparr>"
    have w: "window arr' = window arr - 1"
      using unat_diff_Suc [of ?s "buffer_end arr"] False by (simp add: window_def arr'_def)
    have in': "in_window arr' n \<longleftrightarrow> in_window arr n \<and> n \<noteq> ?s" for n
      using in_window_step [of arr n] False w by (simp add: in_window_def arr'_def)
    have "packet_at arr' n = ((packet_at arr)(?s := None)) n" for n
      using in' [of n] window_slot_eq [OF ok s, of n] by (auto simp: packet_at_def arr'_def)
    moreover have "array_ok arr'"
    proof (rule array_okI)
      have "window arr \<le> 32768" using ok by (simp add: array_ok_def)
      then show "window arr' \<le> 32768" using w by linarith
      fix j assume j: "buffer arr' j \<noteq> None"
      then have "j \<noteq> slot ?s" "buffer arr j \<noteq> None" by (auto simp: arr'_def split: if_splits)
      then obtain n where "in_window arr n" "slot n = j" using array_okD [OF ok] by blast
      then show "\<exists>n. in_window arr' n \<and> slot n = j" using in' \<open>j \<noteq> slot ?s\<close> by blast
    qed
    moreover have "read_data_beg_buffer arr = (Some (?s, d), arr')"
      using False Some by (simp add: read_data_beg_buffer_def arr'_def)
    ultimately show ?thesis using s Some by (auto simp: packet_at_def arr'_def)
  qed
qed

lemma free_slots_eq:
  "free_slots buf i number = (\<lambda>j. if \<exists>k<unat (number - i). slot (i + word_of_nat k) = j then None else buf j)"
proof (induction "unat (number - i)" arbitrary: buf i)
  case 0
  then have "number - i = 0" by (metis unat_0_iff)
  then have "i = number" by simp
  then show ?case by (subst free_slots.simps) simp
next
  case (Suc m)
  then have ne: "i \<noteq> number" by auto
  then have m: "m = unat (number - (i + 1))" using Suc.hyps(2) unat_diff_Suc by simp
  have "free_slots buf i number = free_slots (buf(slot i := None)) (i + 1) number"
    using ne by (subst free_slots.simps) simp
  also have "\<dots> = (\<lambda>j. if \<exists>k<m. slot (i + 1 + word_of_nat k) = j then None else (buf(slot i := None)) j)"
    using Suc.hyps(1) [OF m] m by simp
  also have "\<dots> = (\<lambda>j. if \<exists>k<Suc m. slot (i + word_of_nat k) = j then None else buf j)"
  proof (rule ext)
    fix j
    have "(\<exists>k<Suc m. slot (i + word_of_nat k) = j) \<longleftrightarrow> slot i = j \<or> (\<exists>k<m. slot (i + 1 + word_of_nat k) = j)"
      by (auto simp: less_Suc_eq_0_disj add.assoc)
    then show "(if \<exists>k<m. slot (i + 1 + word_of_nat k) = j then None else (buf(slot i := None)) j) =
        (if \<exists>k<Suc m. slot (i + word_of_nat k) = j then None else buf j)" by auto
  qed
  finally show ?case using Suc.hyps(2) by simp
qed

lemma clear_buffer_until_spec:
  assumes ok: "array_ok arr" and range: "0 < unat (number - buffer_start arr)" "unat (number - buffer_start arr) \<le> window arr"
  shows "\<exists>arr'. clear_buffer_until arr number = (True, arr') \<and> array_ok arr' \<and> buffer_start arr' = number \<and>
    buffer_end arr' = buffer_end arr \<and>
    (\<forall>n. packet_at arr' n =
       (if unat (n - buffer_start arr) < unat (number - buffer_start arr) then None else packet_at arr n))"
proof -
  let ?s = "buffer_start arr" and ?e = "buffer_end arr" and ?k = "unat (number - buffer_start arr)"
  define arr' where "arr' = arr\<lparr>buffer := free_slots (buffer arr) ?s number, buffer_start := number\<rparr>"
  have W: "window arr \<le> 32768" using ok by (simp add: array_ok_def)
  have le: "number - ?s \<le> ?e - ?s" using range by (simp add: word_le_nat_alt window_def)
  have we: "unat (?e - number) = window arr - ?k"
    using unat_sub [OF le] by (simp add: window_def)
  then have "\<not> ?e - number \<ge> ?e - ?s" using range by (simp add: word_le_nat_alt window_def)
  moreover have "\<not> number - ?s > ?e - ?s" using le by simp
  ultimately have step: "clear_buffer_until arr number = (True, arr')"
    by (simp add: clear_buffer_until_def arr'_def Let_def)
  have w': "window arr' = window arr - ?k" using we by (simp add: window_def arr'_def)
  have in': "in_window arr' n \<longleftrightarrow> in_window arr n \<and> \<not> unat (n - ?s) < ?k" for n
  proof (cases "unat (n - ?s) < ?k")
    case True
    have "n - number = (n - ?s) - (number - ?s)" by simp
    then have "unat (n - number) = unat (n - ?s) + 2 ^ 32 - ?k"
      using True by (simp only: unat_sub_if_size) (simp add: word_size)
    moreover have "?k \<le> 32768" using range W by simp
    ultimately have "32768 \<le> unat (n - number)" by simp
    then show ?thesis using True w' W range by (simp add: in_window_def arr'_def)
  next
    case False
    then have "number - ?s \<le> n - ?s" by (simp add: word_le_nat_alt)
    then have "unat (n - number) = unat (n - ?s) - ?k" using unat_sub [of "number - ?s" "n - ?s"] by simp
    then show ?thesis using False w' range by (auto simp: in_window_def arr'_def)
  qed
  have keep: "buffer arr' (slot n) = buffer arr (slot n)" if "in_window arr' n" for n
  proof -
    have n: "in_window arr n" "\<not> unat (n - ?s) < ?k" using that in' by auto
    have "slot (?s + word_of_nat k) \<noteq> slot n" if "k < ?k" for k
    proof
      assume eq: "slot (?s + word_of_nat k) = slot n"
      have u: "unat (?s + word_of_nat k - ?s) = k" using that range W by (simp add: unat_word_of_nat_id)
      then have "?s + word_of_nat k = n"
        using eq slot_eq_window [of "?s + word_of_nat k" ?s n] n(1) W that range by (simp add: in_window_def)
      then show False using u that n(2) by auto
    qed
    then show ?thesis by (auto simp: arr'_def free_slots_eq)
  qed
  have "packet_at arr' n = (if unat (n - ?s) < ?k then None else packet_at arr n)" for n
    using in' [of n] keep [of n] by (auto simp: packet_at_def)
  moreover have "array_ok arr'"
  proof (rule array_okI)
    show "window arr' \<le> 32768" using w' W by simp
    fix j assume "buffer arr' j \<noteq> None"
    then have j: "buffer arr j \<noteq> None" "\<forall>k<?k. slot (?s + word_of_nat k) \<noteq> j"
      by (auto simp: arr'_def free_slots_eq split: if_splits)
    then obtain n where n: "in_window arr n" "slot n = j" using array_okD [OF ok] by blast
    then have "\<not> unat (n - ?s) < ?k" using j(2) by (metis number_split)
    then show "\<exists>n. in_window arr' n \<and> slot n = j" using n in' by blast
  qed
  ultimately show ?thesis using step by (intro exI [of _ arr']) (auto simp: arr'_def)
qed

section \<open>Requests for missing packets\<close>

text \<open>The generator only appends; what it appends first is \<open>0\<close> or at least the counter.\<close>

lemma generate_loop_tail:
  assumes "1 \<le> n" "n \<le> 255"
  shows "\<exists>tl. generate_loop R len out i n = out @ tl \<and> (tl \<noteq> [] \<longrightarrow> hd tl = 0 \<or> n \<le> unat (hd tl)) \<and>
    (tl = [] \<longrightarrow> (\<forall>k<unat (buffer_end R - i). buffer R (slot (i + word_of_nat k)) \<noteq> None))"
  using assms
proof (induction "unat (buffer_end R - i)" arbitrary: out i n)
  case 0
  then have "buffer_end R - i = 0" by (metis unat_0_iff)
  then have "i = buffer_end R" by simp
  then show ?case by (subst generate_loop.simps) simp
next
  case (Suc m)
  then have ne: "i \<noteq> buffer_end R" by auto
  then have m: "m = unat (buffer_end R - (i + 1))" using Suc.hyps(2) unat_diff_Suc by simp
  have un: "unat (word_of_nat n :: u8) = n" using Suc.prems by (simp add: unat_word_of_nat_id)
  show ?case
  proof (cases "buffer R (slot i) = None")
    case True
    have "\<exists>tl. generate_loop R len (out @ [word_of_nat n]) (i + 1) 1 = (out @ [word_of_nat n]) @ tl"
      using Suc.hyps(1) [OF m, of 1 "out @ [word_of_nat n]"] by auto
    then show ?thesis using True ne un by (subst generate_loop.simps) auto
  next
    case False
    show ?thesis
    proof (cases "n = 255")
      case True
      have "\<exists>tl. generate_loop R len (out @ [0]) (i + 1) 1 = (out @ [0]) @ tl"
        using Suc.hyps(1) [OF m, of 1 "out @ [0]"] by auto
      then show ?thesis using True ne False by (subst generate_loop.simps) auto
    next
      case n: False
      obtain tl where tl: "generate_loop R len out (i + 1) (n + 1) = out @ tl" "tl \<noteq> [] \<longrightarrow> hd tl = 0 \<or> n + 1 \<le> unat (hd tl)"
        "tl = [] \<longrightarrow> (\<forall>k<m. buffer R (slot (i + 1 + word_of_nat k)) \<noteq> None)"
        using Suc.hyps(1) [OF m, of "n + 1" out] Suc.prems n m by auto
      have "generate_loop R len out i n = out @ tl" using tl(1) ne False n by (subst generate_loop.simps) auto
      moreover have "\<forall>k<Suc m. buffer R (slot (i + word_of_nat k)) \<noteq> None" if "tl = []"
        using that tl(3) False by (auto simp: less_Suc_eq_0_disj add.assoc)
      ultimately show ?thesis using tl(2) Suc.hyps(2) by (intro exI [of _ tl]) auto
    qed
  qed
qed

text \<open>
  What handling a request does to the sender's slots: \<open>m\<close> packet numbers from \<open>i\<close> on, with the
  receiver's slots \<open>R\<close>. A packet missing there is kept (its send time possibly cleared), a
  packet present there is dropped if a missing one follows and the request was not cut short.
\<close>

definition request_effect :: "Packets_Array \<Rightarrow> u32 \<Rightarrow> nat \<Rightarrow> bool \<Rightarrow> (nat \<Rightarrow> Packet_Data option) \<Rightarrow> (nat \<Rightarrow> Packet_Data option) \<Rightarrow> bool" where
  "request_effect R i m complete buf buf' \<longleftrightarrow>
     (\<forall>k<m. buffer R (slot (i + word_of_nat k)) = None \<longrightarrow>
        buf' (slot (i + word_of_nat k)) = buf (slot (i + word_of_nat k)) \<or>
        buf' (slot (i + word_of_nat k)) = map_option (\<lambda>d. d\<lparr>sent_time := 0\<rparr>) (buf (slot (i + word_of_nat k)))) \<and>
     (\<forall>k<m. buffer R (slot (i + word_of_nat k)) \<noteq> None \<longrightarrow>
        buf' (slot (i + word_of_nat k)) = None \<or>
        buf' (slot (i + word_of_nat k)) = buf (slot (i + word_of_nat k)) \<and>
        (complete \<longrightarrow> (\<forall>k'<m. k < k' \<longrightarrow> buffer R (slot (i + word_of_nat k')) \<noteq> None))) \<and>
     (\<forall>j. (\<forall>k<m. slot (i + word_of_nat k) \<noteq> j) \<longrightarrow> buf' j = buf j)"

fun missing_count :: "Packets_Array \<Rightarrow> u32 \<Rightarrow> nat \<Rightarrow> nat" where
  "missing_count R i 0 = 0"
| "missing_count R i (Suc m) = (if buffer R (slot i) = None then 1 else 0) + missing_count R (i + 1) m"

lemma slot_distinct_ahead:
  assumes "m < 32768" and "k < m"
  shows "slot (i + 1 + word_of_nat k) \<noteq> slot i"
proof
  assume "slot (i + 1 + word_of_nat k) = slot i"
  moreover have "i + 1 + word_of_nat k = i + word_of_nat (Suc k)" by simp
  ultimately have "(unat i + Suc k) mod 32768 = (unat i + 0) mod 32768"
    using slot_add [of i "Suc k"] slot_add [of i 0] by simp
  then have "unat i + Suc k = unat i + 0" by (rule mod_eq_close) (use assms in auto)
  then show False by simp
qed

lemma request_effect_step:
  assumes m: "m < 32768"
    and head: "if buffer R (slot i) = None
      then buf1 (slot i) = buf (slot i) \<or> buf1 (slot i) = map_option (\<lambda>d. d\<lparr>sent_time := 0\<rparr>) (buf (slot i))
      else buf1 (slot i) = None"
    and others: "\<forall>j. j \<noteq> slot i \<longrightarrow> buf1 j = buf j"
    and rest: "request_effect R (i + 1) m complete buf1 buf'"
  shows "request_effect R i (Suc m) complete buf buf'"
proof -
  have ahead: "slot (i + 1 + word_of_nat k) \<noteq> slot i" if "k < m" for k using slot_distinct_ahead [OF m that] .
  then have here: "buf' (slot i) = buf1 (slot i)" using rest by (simp add: request_effect_def)
  have eq: "buf1 (slot (i + 1 + word_of_nat k)) = buf (slot (i + 1 + word_of_nat k))" if "k < m" for k
    using others ahead [OF that] by blast
  have S: "i + word_of_nat (Suc k) = i + 1 + word_of_nat k" for k by simp
  show ?thesis
    unfolding request_effect_def
  proof (intro conjI allI impI)
    fix k assume k: "k < Suc m" "buffer R (slot (i + word_of_nat k)) = None"
    show "buf' (slot (i + word_of_nat k)) = buf (slot (i + word_of_nat k)) \<or>
        buf' (slot (i + word_of_nat k)) = map_option (\<lambda>d. d\<lparr>sent_time := 0\<rparr>) (buf (slot (i + word_of_nat k)))"
    proof (cases k)
      case 0
      then show ?thesis using k head here by simp
    next
      case (Suc k')
      then have "k' < m" using k by simp
      moreover have "buffer R (slot (i + 1 + word_of_nat k')) = None" using k(2) unfolding Suc S .
      ultimately show ?thesis using rest eq unfolding Suc S request_effect_def by auto
    qed
  next
    fix k assume k: "k < Suc m" "buffer R (slot (i + word_of_nat k)) \<noteq> None"
    show "buf' (slot (i + word_of_nat k)) = None \<or> buf' (slot (i + word_of_nat k)) = buf (slot (i + word_of_nat k)) \<and>
        (complete \<longrightarrow> (\<forall>k'<Suc m. k < k' \<longrightarrow> buffer R (slot (i + word_of_nat k')) \<noteq> None))"
    proof (cases k)
      case 0
      then show ?thesis using k head here by simp
    next
      case (Suc k0)
      then have k0: "k0 < m" using k by simp
      have "buffer R (slot (i + 1 + word_of_nat k0)) \<noteq> None" using k(2) unfolding Suc S .
      then have "buf' (slot (i + 1 + word_of_nat k0)) = None \<or> buf' (slot (i + 1 + word_of_nat k0)) = buf1 (slot (i + 1 + word_of_nat k0)) \<and>
          (complete \<longrightarrow> (\<forall>k'<m. k0 < k' \<longrightarrow> buffer R (slot (i + 1 + word_of_nat k')) \<noteq> None))"
        using rest k0 unfolding request_effect_def by blast
      moreover have "\<forall>k'<Suc m. Suc k0 < k' \<longrightarrow> buffer R (slot (i + word_of_nat k')) \<noteq> None"
        if "\<forall>k'<m. k0 < k' \<longrightarrow> buffer R (slot (i + 1 + word_of_nat k')) \<noteq> None"
      proof (intro allI impI)
        fix k' assume "k' < Suc m" "Suc k0 < k'"
        then obtain k1 where "k' = Suc k1" "k1 < m" "k0 < k1" by (cases k') auto
        then show "buffer R (slot (i + word_of_nat k')) \<noteq> None" using that S by metis
      qed
      ultimately show ?thesis unfolding Suc S eq [OF k0, symmetric] by blast
    qed
  next
    fix j assume j: "\<forall>k<Suc m. slot (i + word_of_nat k) \<noteq> j"
    have "slot (i + word_of_nat 0) \<noteq> j" using j by blast
    then have "slot i \<noteq> j" by simp
    moreover have "\<forall>k<m. slot (i + 1 + word_of_nat k) \<noteq> j" using j S by (metis Suc_less_eq)
    then have "buf' j = buf1 j" using rest unfolding request_effect_def by blast
    ultimately show "buf' j = buf j" using others by auto
  qed
qed

lemma request_effect_refl:
  assumes "complete \<longrightarrow> (\<forall>k<m. buffer R (slot (i + word_of_nat k)) \<noteq> None)"
  shows "request_effect R i m complete buf buf"
  using assms by (auto simp: request_effect_def)

lemma request_loop_end:
  "request_loop t r e [] buf i n q l = (Requested q l, buf)" "request_loop t r e data buf e n q l = (Requested q l, buf)"
  by (subst request_loop.simps, simp)+

lemma not_max_less: "\<not> (- 1 :: u64) < x"
  by (simp add: word_less_nat_alt not_less word_le_nat_alt [symmetric])

text \<open>The two loops in step: the generator from \<open>(out, i, n)\<close>, the handler on what it appends.\<close>

lemma request_follows_generate:
  assumes "1 \<le> n" "n \<le> 255" and "length out < len" and "m = unat (buffer_end R - i)" and "m \<le> 32768"
    and "m \<le> unat (E - i)"
  shows "\<exists>q' buf'. request_loop t r E (drop (length out) (generate_loop R len out i n)) buf i n q (- 1) =
      (Requested (q + q') (- 1), buf') \<and> request_effect R i m (length out + m < len) buf buf' \<and>
    (length out + m < len \<longrightarrow> q' = missing_count R i m)"
  using assms
proof (induction m arbitrary: out i n buf q)
  case 0
  then have "buffer_end R - i = 0" by (metis unat_0_iff)
  then have i: "i = buffer_end R" by simp
  have "request_effect R i 0 c buf buf" for c by (rule request_effect_refl) simp
  then show ?case 
    by (intro exI [of _ 0] exI [of _ buf]) (simp add: i generate_loop.simps request_loop_end)
next
  case (Suc m)
  let ?e = "buffer_end R"
  have ne: "i \<noteq> ?e" using Suc.prems(4) by auto
  then have m: "m = unat (?e - (i + 1))" using Suc.prems(4) unat_diff_Suc by simp
  have neE: "i \<noteq> E" using Suc.prems(6) by auto
  then have mE: "m \<le> unat (E - (i + 1))" using Suc.prems(6) unat_diff_Suc by simp
  have m': "m < 32768" "m \<le> 32768" using Suc.prems(5) by auto
  have un: "unat (word_of_nat n :: u8) = n" using Suc.prems by (simp add: unat_word_of_nat_id)
  show ?case
  proof (cases "buffer R (slot i) = None")
    case True
    let ?b = "word_of_nat n :: u8"
    define buf1 where "buf1 = (case buf (slot i) of None \<Rightarrow> buf
        | Some d \<Rightarrow> if sent_time d + r < t then buf(slot i := Some (d\<lparr>sent_time := 0\<rparr>)) else buf)"
    have b1: "buf1 (slot i) = buf (slot i) \<or> buf1 (slot i) = map_option (\<lambda>d. d\<lparr>sent_time := 0\<rparr>) (buf (slot i))"
      "\<forall>j. j \<noteq> slot i \<longrightarrow> buf1 j = buf j" by (auto simp: buf1_def split: option.splits)
    note step = request_effect_step [OF m'(1), of R i buf1 buf]
    have loop: "request_loop t r E (?b # rest) buf i n q (- 1) = request_loop t r E rest buf1 (i + 1) 1 (q + 1) (- 1)" for rest
      using neE un by (subst request_loop.simps) (simp add: buf1_def Let_def)
    show ?thesis
    proof (cases "len \<le> length out + 1")
      case True': True
      then have "drop (length out) (generate_loop R len out i n) = [?b]"
        using ne True by (subst generate_loop.simps) simp
      moreover have "request_effect R (i + 1) m (length out + Suc m < len) buf1 buf1"
        using True' by (intro request_effect_refl) simp
      then have "request_effect R i (Suc m) (length out + Suc m < len) buf buf1"
        using step True b1 by simp
      ultimately show ?thesis using loop [of "[]"] True' by (intro exI [of _ 1] exI [of _ buf1]) (simp add: request_loop_end)
    next
      case False
      let ?out = "out @ [?b]"
      obtain tl where tl: "generate_loop R len ?out (i + 1) 1 = ?out @ tl"
        using generate_loop_tail [of 1 R len ?out "i + 1"] by auto
      have gen: "drop (length out) (generate_loop R len out i n) = ?b # tl"
        using ne True False tl by (subst generate_loop.simps) simp
      obtain q' buf' where IH: "request_loop t r E tl buf1 (i + 1) 1 (q + 1) (- 1) = (Requested (q + 1 + q') (- 1), buf')"
        "request_effect R (i + 1) m (length ?out + m < len) buf1 buf'" "length ?out + m < len \<longrightarrow> q' = missing_count R (i + 1) m"
        using Suc.IH [of 1 ?out "i + 1" buf1 "q + 1"] m mE m' False tl by auto
      have "request_effect R i (Suc m) (length out + Suc m < len) buf buf'"
        using step True b1 IH(2) by simp
      then show ?thesis using gen loop [of tl] IH True by (intro exI [of _ "q' + 1"] exI [of _ buf']) simp
    qed
  next
    case False
    define buf1 where "buf1 = buf(slot i := None)"
    have b1: "buf1 (slot i) = None" "\<forall>j. j \<noteq> slot i \<longrightarrow> buf1 j = buf j" by (auto simp: buf1_def)
    note step = request_effect_step [OF m'(1), of R i buf1 buf]
    have free: "(case buf (slot i) of None \<Rightarrow> (- 1, buf)
        | Some d \<Rightarrow> (if - 1 < sent_time d then sent_time d else - 1, buf(slot i := None))) = (- 1, buf1)"
      by (auto simp: buf1_def not_max_less fun_eq_iff split: option.split)
    show ?thesis
    proof (cases "n = 255")
      case True
      have loop: "request_loop t r E (0 # rest) buf i n q (- 1) = request_loop t r E rest buf1 (i + 1) 1 q (- 1)" for rest
        using neE True by (subst request_loop.simps) (simp add: free Let_def)
      show ?thesis
      proof (cases "len \<le> length out + 1")
        case True': True
        then have "drop (length out) (generate_loop R len out i n) = [0]"
          using ne False True by (subst generate_loop.simps) auto
        moreover have "request_effect R (i + 1) m (length out + Suc m < len) buf1 buf1"
          using True' by (intro request_effect_refl) simp
        then have "request_effect R i (Suc m) (length out + Suc m < len) buf buf1" using step False b1 by simp
        ultimately show ?thesis using loop [of "[]"] True' by (intro exI [of _ 0] exI [of _ buf1]) (simp add: request_loop_end)
      next
        case room: False
        let ?out = "out @ [0]"
        obtain tl where tl: "generate_loop R len ?out (i + 1) 1 = ?out @ tl"
          using generate_loop_tail [of 1 R len ?out "i + 1"] by auto
        have gen: "drop (length out) (generate_loop R len out i n) = 0 # tl"
          using ne True False room tl by (subst generate_loop.simps) auto
        obtain q' buf' where IH: "request_loop t r E tl buf1 (i + 1) 1 q (- 1) = (Requested (q + q') (- 1), buf')"
          "request_effect R (i + 1) m (length ?out + m < len) buf1 buf'" "length ?out + m < len \<longrightarrow> q' = missing_count R (i + 1) m"
          using Suc.IH [of 1 ?out "i + 1" buf1 q] m mE m' room tl by auto
        have "request_effect R i (Suc m) (length out + Suc m < len) buf buf'" using step False b1 IH(2) by simp
        then show ?thesis using gen loop [of tl] IH False by (intro exI [of _ q'] exI [of _ buf']) auto
      qed
    next
      case n: False
      then have n': "1 \<le> n + 1" "n + 1 \<le> 255" using Suc.prems by auto
      have gen: "generate_loop R len out i n = generate_loop R len out (i + 1) (n + 1)"
        using ne False n by (subst generate_loop.simps) auto
      obtain tl where tl: "generate_loop R len out (i + 1) (n + 1) = out @ tl" "tl \<noteq> [] \<longrightarrow> hd tl = 0 \<or> n + 1 \<le> unat (hd tl)"
        "tl = [] \<longrightarrow> (\<forall>k<m. buffer R (slot (i + 1 + word_of_nat k)) \<noteq> None)"
        using generate_loop_tail [OF n', of R len out "i + 1"] m by auto
      show ?thesis
      proof (cases "tl = []")
        case True
        have all: "\<forall>k<Suc m. buffer R (slot (i + word_of_nat k)) \<noteq> None"
          using True tl(3) False by (auto simp: less_Suc_eq_0_disj add.assoc)
        have none: "missing_count R j k = 0" if "\<forall>k'<k. buffer R (slot (j + word_of_nat k')) \<noteq> None" for j k
          using that
        proof (induction k arbitrary: j)
          case (Suc k)
          have "buffer R (slot (j + word_of_nat 0)) \<noteq> None" using Suc.prems by blast
          moreover have "\<forall>k'<k. buffer R (slot (j + 1 + word_of_nat k')) \<noteq> None"
          proof (intro allI impI)
            fix k' assume "k' < k"
            then have "buffer R (slot (j + word_of_nat (Suc k'))) \<noteq> None" using Suc.prems by blast
            then show "buffer R (slot (j + 1 + word_of_nat k')) \<noteq> None" by (simp add: add.assoc)
          qed
          ultimately show ?case using Suc.IH [of "j + 1"] by simp
        qed simp
        have "request_effect R i (Suc m) c buf buf" for c using all by (intro request_effect_refl) simp
        then show ?thesis using gen tl(1) True none [OF all]
          by (intro exI [of _ 0] exI [of _ buf]) (simp add: request_loop_end)
      next
        case nonempty: False
        then obtain b rest where br: "tl = b # rest" by (cases tl) auto
        then have "n \<noteq> unat b" using tl(2) Suc.prems(1) by auto
        then have loop: "request_loop t r E tl buf i n q (- 1) = request_loop t r E tl buf1 (i + 1) (n + 1) q (- 1)"
          using neE n br by (subst request_loop.simps) (simp add: free Let_def)
        obtain q' buf' where IH: "request_loop t r E tl buf1 (i + 1) (n + 1) q (- 1) = (Requested (q + q') (- 1), buf')"
          "request_effect R (i + 1) m (length out + m < len) buf1 buf'" "length out + m < len \<longrightarrow> q' = missing_count R (i + 1) m"
          using Suc.IH [OF n' Suc.prems(3) m m'(2) mE, of buf1 q] tl(1) by auto
        have "request_effect R (i + 1) m (length out + Suc m < len) buf1 buf'"
          using IH(2) unfolding request_effect_def by auto
        then have "request_effect R i (Suc m) (length out + Suc m < len) buf buf'" using step False b1 by simp
        then show ?thesis using gen loop IH False tl(1) by (intro exI [of _ q'] exI [of _ buf']) auto
      qed
    qed
  qed
qed

lemma missing_count_filter:
  "missing_count R i m = length (filter (\<lambda>k. buffer R (slot (i + word_of_nat k)) = None) [0..<m])"
proof (induction m arbitrary: i)
  case (Suc m)
  have "[0..<Suc m] = 0 # map Suc [0..<m]" by (simp add: upt_conv_Cons map_Suc_upt del: upt_Suc)
  then show ?case using Suc [of "i + 1"] by (simp add: filter_map o_def add.assoc del: upt_Suc)
qed simp

lemma generate_loop_length:
  "length out < len \<Longrightarrow> length (generate_loop R len out i n) \<le> len"
proof (induction "unat (buffer_end R - i)" arbitrary: out i n)
  case 0
  then have "buffer_end R - i = 0" by (metis unat_0_iff)
  then have "i = buffer_end R" by simp
  then show ?case using 0 by (subst generate_loop.simps) simp
next
  case (Suc m)
  then have ne: "i \<noteq> buffer_end R" by auto
  then have m: "m = unat (buffer_end R - (i + 1))" using Suc.hyps(2) unat_diff_Suc by simp
  note IH = Suc.hyps(1) [OF m]
  show ?case
    using ne Suc.prems IH [of "out @ [word_of_nat n]" 1] IH [of "out @ [0]" 1] IH [of out "n + 1"]
    by (subst generate_loop.simps) (cases "n = 255"; simp)
qed

lemma request_effect_window:
  assumes "array_ok S" and "array_ok R" and start: "buffer_start S = buffer_start R" and le: "window R \<le> window S"
    and eff: "request_effect R (buffer_start R) (window R) complete (buffer S) buf'"
  defines "S' \<equiv> S\<lparr>buffer := buf'\<rparr>"
  shows "array_ok S'"
    and "packet_at R n = None \<Longrightarrow> packet_at S' n = packet_at S n \<or> packet_at S' n = map_option (\<lambda>d. d\<lparr>sent_time := 0\<rparr>) (packet_at S n)"
    and "complete \<Longrightarrow> packet_at R n \<noteq> None \<Longrightarrow> in_window R n' \<Longrightarrow> packet_at R n' = None \<Longrightarrow>
      n - buffer_start R < n' - buffer_start R \<Longrightarrow> packet_at S' n = None"
proof -
  have w: "window S' = window S" "buffer_start S' = buffer_start S" and inS: "in_window S' n = in_window S n" for n
    by (auto simp: S'_def window_def in_window_def)
  have split: "n = buffer_start R + word_of_nat (unat (n - buffer_start R))" for n by (rule number_split)
  have some: "buffer S j \<noteq> None" if j: "buf' j \<noteq> None" for j
  proof (cases "\<exists>k<window R. slot (buffer_start R + word_of_nat k) = j")
    case True
    then obtain k where k: "k < window R" "slot (buffer_start R + word_of_nat k) = j" by blast
    have "buf' j = None \<or> buf' j = buffer S j \<or> buf' j = map_option (\<lambda>d. d\<lparr>sent_time := 0\<rparr>) (buffer S j)"
      using eff k(1) unfolding k(2) [symmetric] request_effect_def
      by (cases "buffer R (slot (buffer_start R + word_of_nat k)) = None") (simp, blast)
    then show ?thesis using j by auto
  next
    case False
    then have "buf' j = buffer S j" using eff unfolding request_effect_def by blast
    then show ?thesis using j by simp
  qed
  show "array_ok S'"
  proof (rule array_okI)
    show "window S' \<le> 32768" using assms(1) w by (simp add: array_ok_def)
    fix j assume "buffer S' j \<noteq> None"
    then have "buffer S j \<noteq> None" using some by (auto simp: S'_def)
    then obtain n where "in_window S n" "slot n = j" by (rule array_okD [OF assms(1)])
    then show "\<exists>n. in_window S' n \<and> slot n = j" using inS by blast
  qed
  show "packet_at S' n = packet_at S n \<or> packet_at S' n = map_option (\<lambda>d. d\<lparr>sent_time := 0\<rparr>) (packet_at S n)"
    if none: "packet_at R n = None"
  proof (cases "in_window R n")
    case True
    then have "unat (n - buffer_start R) < window R" "buffer R (slot n) = None" using none by (auto simp: in_window_def packet_at_def)
    then have "buf' (slot n) = buffer S (slot n) \<or> buf' (slot n) = map_option (\<lambda>d. d\<lparr>sent_time := 0\<rparr>) (buffer S (slot n))"
      using eff split [of n] unfolding request_effect_def by metis
    then show ?thesis by (auto simp: packet_at_def inS) (simp_all add: S'_def)
  next
    case out: False
    show ?thesis
    proof (cases "in_window S n")
      case True
      have "slot (buffer_start R + word_of_nat k) \<noteq> slot n" if k: "k < window R" for k
      proof
        assume eq: "slot (buffer_start R + word_of_nat k) = slot n"
        have "k < 32768" using k assms(2) by (simp add: array_ok_def)
        then have u: "unat (buffer_start R + word_of_nat k - buffer_start R) = k" by (simp add: unat_word_of_nat_id)
        moreover have "unat (n - buffer_start R) < 32768" using True assms(1) start by (simp add: in_window_def array_ok_def)
        ultimately have "buffer_start R + word_of_nat k = n"
          using eq slot_eq_window [of "buffer_start R + word_of_nat k" "buffer_start R" n] \<open>k < 32768\<close> by simp
        then show False using u k out by (auto simp: in_window_def)
      qed
      then have "buf' (slot n) = buffer S (slot n)" using eff unfolding request_effect_def by blast
      then show ?thesis by (simp add: packet_at_def inS) (simp add: S'_def)
    qed (simp add: packet_at_def inS)
  qed
  show "packet_at S' n = None" if c: complete and n: "packet_at R n \<noteq> None" and n': "in_window R n'" "packet_at R n' = None"
    and less: "n - buffer_start R < n' - buffer_start R"
  proof -
    have "unat (n - buffer_start R) < window R" "buffer R (slot n) \<noteq> None" "buffer R (slot n') = None" "unat (n' - buffer_start R) < window R"
      using n n' by (auto simp: in_window_def packet_at_def split: if_splits)
    moreover have "unat (n - buffer_start R) < unat (n' - buffer_start R)" using less by (simp add: word_less_nat_alt)
    ultimately have "buf' (slot n) = None"
      using eff c split [of n] split [of n'] unfolding request_effect_def by metis
    then show ?thesis by (simp add: packet_at_def S'_def)
  qed
qed

lemma request_loop_time:
  "\<exists>q buf'. request_loop t r e data buf i n q0 (- 1) = (Requested q (- 1), buf') \<or>
     request_loop t r e data buf i n q0 (- 1) = (RequestError, buf')"
proof (induction "unat (e - i)" arbitrary: data buf i n q0)
  case 0
  then have "e - i = 0" by (metis unat_0_iff)
  then show ?case by (simp add: request_loop_end)
next
  case (Suc m)
  then have ne: "i \<noteq> e" by auto
  then have m: "m = unat (e - (i + 1))" using Suc.hyps(2) unat_diff_Suc by simp
  note IH = Suc.hyps(1) [OF m]
  show ?case
  proof (cases data)
    case (Cons b rest)
    have free: "(case buf (slot i) of None \<Rightarrow> (- 1, buf)
        | Some d \<Rightarrow> (if - 1 < sent_time d then sent_time d else - 1, buf(slot i := None))) = (- 1, buf(slot i := None))"
      by (auto simp: not_max_less fun_eq_iff split: option.split)
    show ?thesis using ne Cons by (subst (1 2) request_loop.simps) (simp add: free Let_def IH)
  qed (simp add: request_loop_end)
qed

section \<open>Delivery in order\<close>

text \<open>
  What happens to a receiving array: packet \<open>k\<close> of the peer's stream arrives, under the number
  \<open>s0 + k\<close>, and \<open>malloc\<close> may fail then; or the next packet is read. \<open>in_reach\<close> bounds how far
  ahead or late an arriving packet is.
\<close>

datatype recv_event = Arrive bool nat | ReadNext

definition receive_event :: "(nat \<Rightarrow> Packet_Data) \<Rightarrow> u32 \<Rightarrow> recv_event \<Rightarrow> Packets_Array \<times> Packet_Data list \<Rightarrow> Packets_Array \<times> Packet_Data list" where
  "receive_event stream s0 ev st =
     (case ev of
        Arrive alloc k \<Rightarrow> (snd (add_data_to_buffer alloc (fst st) (s0 + word_of_nat k) (stream k)), snd st)
      | ReadNext \<Rightarrow> (case read_data_beg_buffer (fst st) of
                       (None, arr) \<Rightarrow> (arr, snd st)
                     | (Some (number, d), arr) \<Rightarrow> (arr, snd st @ [d])))"

fun in_reach :: "nat \<Rightarrow> recv_event \<Rightarrow> bool" where
  "in_reach got (Arrive alloc k) \<longleftrightarrow> k < got + CRYPTO_PACKET_BUFFER_SIZE \<and> got \<le> k + 2 ^ 31"
| "in_reach got ReadNext \<longleftrightarrow> True"

fun receive :: "(nat \<Rightarrow> Packet_Data) \<Rightarrow> u32 \<Rightarrow> recv_event list \<Rightarrow> Packets_Array \<times> Packet_Data list \<Rightarrow> (Packets_Array \<times> Packet_Data list) option" where
  "receive stream s0 [] st = Some st"
| "receive stream s0 (ev # evs) st =
     (if in_reach (length (snd st)) ev then receive stream s0 evs (receive_event stream s0 ev st) else None)"

definition recv_inv :: "(nat \<Rightarrow> Packet_Data) \<Rightarrow> u32 \<Rightarrow> recv_event set \<Rightarrow> Packets_Array \<times> Packet_Data list \<Rightarrow> bool" where
  "recv_inv stream s0 past st \<longleftrightarrow>
     array_ok (fst st) \<and> buffer_start (fst st) = s0 + word_of_nat (length (snd st)) \<and>
     snd st = map stream [0..<length (snd st)] \<and>
     (\<forall>a k. Arrive a k \<in> past \<longrightarrow> k < length (snd st) + 32768) \<and>
     (\<forall>k<32768. packet_at (fst st) (s0 + word_of_nat (length (snd st)) + word_of_nat k) =
        (if Arrive True (length (snd st) + k) \<in> past then Some (stream (length (snd st) + k)) else None))"

lemma recv_inv_arrive:
  assumes inv: "recv_inv stream s0 past st" and reach: "in_reach (length (snd st)) (Arrive alloc k)"
  shows "recv_inv stream s0 (insert (Arrive alloc k) past) (receive_event stream s0 (Arrive alloc k) st)"
proof -
  obtain arr got where st: "st = (arr, got)" by (cases st)
  let ?g = "length got" and ?s = "s0 + word_of_nat (length got) :: u32"
  have ok: "array_ok arr" and start: "buffer_start arr = ?s" and got: "got = map stream [0..<?g]"
    and past: "\<forall>a k. Arrive a k \<in> past \<longrightarrow> k < ?g + 32768"
    and pk: "\<forall>k<32768. packet_at arr (?s + word_of_nat k) =
        (if Arrive True (?g + k) \<in> past then Some (stream (?g + k)) else None)"
    using inv by (auto simp: recv_inv_def st)
  have r: "k < ?g + 32768" "?g \<le> k + 2 ^ 31" using reach by (auto simp: st)
  define arr' where "arr' = snd (add_data_to_buffer alloc arr (s0 + word_of_nat k) (stream k))"
  have ev: "receive_event stream s0 (Arrive alloc k) st = (arr', got)" by (simp add: receive_event_def st arr'_def)
  consider (late) "k < ?g" | (fail) "?g \<le> k" "\<not> alloc" | (add) "?g \<le> k" alloc by linarith
  then show ?thesis
  proof cases
    case late
    have d: "unat (s0 + word_of_nat k - ?s) = 2 ^ 32 - (?g - k)"
    proof -
      have "s0 + word_of_nat k - ?s = 0 - word_of_nat (?g - k)" using late by (simp add: of_nat_diff)
      moreover have "0 < ?g - k" "?g - k < 2 ^ 32" using late r by auto
      then have "unat (word_of_nat (?g - k) :: u32) = ?g - k" "0 < ?g - k"
        by (simp_all add: unat_word_of_nat_id del: of_nat_diff)
      ultimately show ?thesis by (simp only: unat_sub_if_size) (simp add: word_size)
    qed
    then have "arr' = arr" using r start by (simp add: arr'_def add_data_to_buffer_def)
    then show ?thesis using late inv unfolding ev by (auto simp: recv_inv_def st)
  next
    case fail
    then have "arr' = arr" by (simp add: arr'_def add_data_to_buffer_def)
    then show ?thesis using r(1) inv fail unfolding ev by (auto simp: recv_inv_def st)
  next
    case add
    then obtain j where j: "k = ?g + j" "j < 32768" using r(1) by (metis nat_add_left_cancel_less le_Suc_ex)
    have num: "s0 + word_of_nat k = ?s + word_of_nat j" by (simp add: j)
    have d: "unat (?s + word_of_nat i - buffer_start arr) = i" if "i < 32768" for i
      using that by (simp add: start unat_word_of_nat_id)
    obtain arr2 where add2: "add_data_to_buffer alloc arr (?s + word_of_nat j) (stream k) = (packet_at arr (?s + word_of_nat j) = None, arr2)"
      "array_ok arr2" "buffer_start arr2 = buffer_start arr"
      "packet_at arr2 = (if packet_at arr (?s + word_of_nat j) = None then (packet_at arr)(?s + word_of_nat j := Some (stream k)) else packet_at arr)"
      using add_data_spec [OF ok, of "?s + word_of_nat j" alloc "stream k"] d [OF j(2)] j(2) add by auto
    have arr': "arr' = arr2" by (simp add: arr'_def num add2(1) del: of_nat_add)
    have inj: "?s + word_of_nat i = ?s + word_of_nat j \<longleftrightarrow> i = j" if "i < 32768" for i
      using d [OF that] d [OF j(2)] by metis
    have "packet_at arr' (?s + word_of_nat i) =
        (if Arrive True (?g + i) \<in> insert (Arrive alloc k) past then Some (stream (?g + i)) else None)" if i: "i < 32768" for i
      using pk [rule_format, OF i] pk [rule_format, OF j(2)] inj [OF i] add(2) j(1) unfolding arr' add2(4) by auto
    then show ?thesis using add2(2,3) got past r(1) start unfolding ev by (auto simp: recv_inv_def arr')
  qed
qed

lemma recv_inv_read:
  assumes inv: "recv_inv stream s0 past st"
  shows "recv_inv stream s0 past (receive_event stream s0 ReadNext st)"
proof -
  obtain arr got where st: "st = (arr, got)" by (cases st)
  let ?g = "length got" and ?s = "s0 + word_of_nat (length got) :: u32"
  have ok: "array_ok arr" and start: "buffer_start arr = ?s" and got: "got = map stream [0..<?g]"
    and past: "\<forall>a k. Arrive a k \<in> past \<longrightarrow> k < ?g + 32768"
    and pk: "\<forall>k<32768. packet_at arr (?s + word_of_nat k) =
        (if Arrive True (?g + k) \<in> past then Some (stream (?g + k)) else None)"
    using inv by (auto simp: recv_inv_def st)
  show ?thesis
  proof (cases "packet_at arr ?s")
    case None
    then have "receive_event stream s0 ReadNext st = st"
      using read_data_beg_spec [OF ok] start by (simp add: receive_event_def st)
    then show ?thesis using inv by simp
  next
    case (Some d)
    then obtain arr' where a: "read_data_beg_buffer arr = (Some (?s, d), arr')" "array_ok arr'" "buffer_start arr' = ?s + 1"
      "packet_at arr' = (packet_at arr)(?s := None)"
      using read_data_beg_spec [OF ok] start by auto
    have ev: "receive_event stream s0 ReadNext st = (arr', got @ [d])" by (simp add: receive_event_def st a)
    have d: "d = stream ?g" using Some pk [rule_format, of 0] by (simp split: if_splits)
    then have got': "got @ [d] = map stream [0..<Suc ?g]" using got by simp
    have step: "?s + 1 + word_of_nat k = ?s + word_of_nat (Suc k)" for k by simp
    have ne: "?s + word_of_nat (Suc k) \<noteq> ?s" if "k < 32768" for k
    proof
      assume "?s + word_of_nat (Suc k) = ?s"
      then have "word_of_nat (Suc k) = (0 :: u32)" by simp
      then have "unat (word_of_nat (Suc k) :: u32) = 0" by simp
      then show False using that by (simp add: unat_word_of_nat_id del: of_nat_Suc)
    qed
    have "packet_at arr' (?s + 1 + word_of_nat k) =
        (if Arrive True (Suc ?g + k) \<in> past then Some (stream (Suc ?g + k)) else None)" if k: "k < 32768" for k
    proof (cases "Suc k < 32768")
      case True
      then show ?thesis using pk [rule_format, OF True] ne [OF k] unfolding a(4) step by simp
    next
      case False
      then have "k = 32767" using k by simp
      moreover have "unat (?s + word_of_nat 32768 - buffer_start arr) = 32768" using start by simp
      then have "packet_at arr (?s + word_of_nat 32768) = None"
        using ok by (simp add: packet_at_def in_window_def array_ok_def)
      moreover have "Arrive True (Suc ?g + 32767) \<notin> past" using past by fastforce
      ultimately show ?thesis using ne [OF k] unfolding a(4) step by simp
    qed
    moreover have "\<forall>a k. Arrive a k \<in> past \<longrightarrow> k < Suc ?g + 32768" using past by fastforce
    ultimately show ?thesis using a(2,3) got' unfolding ev
      by (auto simp: recv_inv_def add.assoc [symmetric] add.commute [of _ 1] simp del: upt_Suc)
  qed
qed

lemma recv_inv_receive:
  "recv_inv stream s0 past st \<Longrightarrow> receive stream s0 evs st = Some st' \<Longrightarrow> recv_inv stream s0 (past \<union> set evs) st'"
proof (induction evs arbitrary: past st)
  case (Cons ev evs)
  from Cons.prems(2) have reach: "in_reach (length (snd st)) ev" and rest: "receive stream s0 evs (receive_event stream s0 ev st) = Some st'"
    by (auto split: if_splits)
  have "recv_inv stream s0 (insert ev past) (receive_event stream s0 ev st)"
  proof (cases ev)
    case (Arrive alloc k)
    then show ?thesis using recv_inv_arrive [OF Cons.prems(1)] reach by simp
  next
    case ReadNext
    then show ?thesis using recv_inv_read [OF Cons.prems(1)] by (simp add: recv_inv_def)
  qed
  from Cons.IH [OF this rest] show ?case by simp
qed simp

section \<open>The results\<close>

text \<open>
  C2. A receiving array delivers the peer's stream in order, without loss or repetition. Let
  packet \<open>k\<close> of the stream carry the number \<open>s0 + k\<close>, wrapping around at \<open>2^32\<close>, and let packets
  arrive in any order, any number of times, interleaved with reads, none more than 32767
  ahead of the next one to deliver or \<open>2^31\<close> behind it. Then what has been read is a prefix of
  the stream, and the next read returns the following packet exactly when it has arrived (and
  the allocation for it succeeded once).
\<close>

theorem delivery_in_order:
  assumes "array_ok arr0" and "buffer_start arr0 = s0" and "buffer_end arr0 = s0"
    and "receive stream s0 evs (arr0, []) = Some (arr, got)"
  shows "array_ok arr \<and> got = map stream [0..<length got] \<and>
    map_option snd (fst (read_data_beg_buffer arr)) =
      (if Arrive True (length got) \<in> set evs then Some (stream (length got)) else None)"
proof -
  have none: "packet_at arr0 n = None" for n using assms(2,3) by (simp add: packet_at_def in_window_def window_def)
  have "recv_inv stream s0 {} (arr0, [])" using assms(1,2) none by (simp add: recv_inv_def)
  from recv_inv_receive [OF this assms(4)] have inv: "recv_inv stream s0 (set evs) (arr, got)" by simp
  then have "packet_at arr (buffer_start arr) = (if Arrive True (length got) \<in> set evs then Some (stream (length got)) else None)"
    by (auto simp: recv_inv_def dest!: spec [of _ 0])
  then show ?thesis using inv read_data_beg_spec [of arr] by (auto simp: recv_inv_def split: if_splits)
qed

definition sample_stream :: "nat \<Rightarrow> Packet_Data" where
  "sample_stream k = \<lparr>sent_time = 0, pd_data = [word_of_nat k]\<rparr>"

definition sample_array :: "u32 \<Rightarrow> Packets_Array" where
  "sample_array s = \<lparr>buffer = (\<lambda>_. None), buffer_start = s, buffer_end = s\<rparr>"

lemma sample_array_ok: "array_ok (sample_array s)"
  by (simp add: array_ok_def window_def sample_array_def)

theorem delivery_in_order_witness:
  "receive sample_stream (- 1) [Arrive True 1, ReadNext, Arrive True 0, ReadNext, Arrive True 1] (sample_array (- 1), []) =
     Some (\<lparr>buffer = (\<lambda>_. None)(0 := Some (sample_stream 1)), buffer_start = 0, buffer_end = 1\<rparr>, [sample_stream 0]) \<and>
   map_option snd (fst (read_data_beg_buffer
     \<lparr>buffer = (\<lambda>_. None)(0 := Some (sample_stream 1)), buffer_start = 0, buffer_end = 1\<rparr>)) = Some (sample_stream 1)"
proof -
  have run: "receive sample_stream (- 1) [Arrive True 1, ReadNext, Arrive True 0, ReadNext, Arrive True 1] (sample_array (- 1), []) =
     Some (\<lparr>buffer = (\<lambda>_. None)(0 := Some (sample_stream 1)), buffer_start = 0, buffer_end = 1\<rparr>, [sample_stream 0])"
    by (simp add: receive_event_def add_data_to_buffer_def read_data_beg_buffer_def sample_array_def slot_def Let_def
        unsigned_minus_1_eq_mask mask_eq_exp_minus_1 fun_upd_twist)
  have "buffer_start (sample_array (- 1)) = - 1" "buffer_end (sample_array (- 1)) = - 1" by (simp_all add: sample_array_def)
  then show ?thesis using run delivery_in_order [OF sample_array_ok _ _ run] by simp
qed

text \<open>
  C3. A request packet asks for exactly what is missing. Let \<open>R\<close> be the receiving array, whose
  window is a prefix of the window of the sending array \<open>S\<close>, and let \<open>generate_request_packet\<close>
  write into a buffer of more than one byte. It stays inside the buffer, and
  \<open>handle_request_packet\<close> accepts what it wrote; no packet missing at the receiver is dropped
  by the sender, at most its send time is cleared. If the buffer had room for one byte per
  packet number, then moreover the count returned is the number of missing packets, and every
  packet that has been received and is followed by a missing one is dropped by the sender.
\<close>

theorem request_packet_exact:
  assumes "array_ok S" and "array_ok R" and "buffer_start S = buffer_start R" and "window R \<le> window S" and "1 < len"
  shows "\<exists>req q T S'. generate_request_packet len R = Some req \<and> length req \<le> len \<and>
    handle_request_packet t S req latest rtt = (Some (q, T), S') \<and> array_ok S' \<and>
    (\<forall>n. packet_at R n = None \<longrightarrow> packet_at S' n = packet_at S n \<or>
       packet_at S' n = map_option (\<lambda>d. d\<lparr>sent_time := 0\<rparr>) (packet_at S n)) \<and>
    (1 + window R < len \<longrightarrow>
       q = length (filter (\<lambda>k. packet_at R (buffer_start R + word_of_nat k) = None) [0..<window R]) \<and>
       (\<forall>n n'. packet_at R n \<noteq> None \<and> in_window R n' \<and> packet_at R n' = None \<and>
          n - buffer_start R < n' - buffer_start R \<longrightarrow> packet_at S' n = None))"
proof -
  let ?req = "generate_loop R len [PACKET_ID_REQUEST] (buffer_start R) 1"
  have le: "window R \<le> 32768" using assms(2) by (simp add: array_ok_def)
  have le': "window R \<le> unat (buffer_end S - buffer_start R)" using assms(3,4) by (simp add: window_def)
  have gen: "generate_request_packet len R = Some ?req"
    using assms(5) by (auto simp: generate_request_packet_def generate_loop.simps)
  obtain tl where tl: "?req = PACKET_ID_REQUEST # tl" using generate_loop_tail [of 1 R len "[PACKET_ID_REQUEST]" "buffer_start R"] by auto
  obtain q buf' where q: "request_loop t rtt (buffer_end S) tl (buffer S) (buffer_start R) 1 0 (- 1) = (Requested q (- 1), buf')"
    "request_effect R (buffer_start R) (window R) (1 + window R < len) (buffer S) buf'"
    "1 + window R < len \<longrightarrow> q = missing_count R (buffer_start R) (window R)"
    using request_follows_generate [of 1 "[PACKET_ID_REQUEST]" len "window R" R "buffer_start R" "buffer_end S" t rtt "buffer S" 0]
      assms(5) le le' tl by (auto simp: window_def)
  let ?S = "S\<lparr>buffer := buf'\<rparr>"
  note eff = request_effect_window [OF assms(1,2,3,4) q(2)]
  have "\<exists>T. handle_request_packet t S ?req latest rtt = (Some (q, T), ?S)"
    using q(1) assms(3) tl by (cases "tl = []") (auto simp: handle_request_packet_def request_loop_end)
  moreover have "buffer R (slot (buffer_start R + word_of_nat k)) = packet_at R (buffer_start R + word_of_nat k)" if "k < window R" for k
    using that le by (simp add: packet_at_def in_window_def unat_word_of_nat_id)
  then have "missing_count R (buffer_start R) (window R) = length (filter (\<lambda>k. packet_at R (buffer_start R + word_of_nat k) = None) [0..<window R])"
    unfolding missing_count_filter by (intro arg_cong [where f = length] filter_cong) auto
  moreover have "length ?req \<le> len" using assms(5) by (intro generate_loop_length) simp
  ultimately show ?thesis using gen eff q(3) by blast
qed

theorem request_packet_exact_witness:
  "\<exists>req q T S'. generate_request_packet 8 (\<lparr>buffer = (\<lambda>_. None)(1 := Some (sample_stream 1)), buffer_start = 0, buffer_end = 3\<rparr>) = Some req \<and>
    handle_request_packet 9 \<lparr>buffer = (\<lambda>_. None)(0 := Some (sample_stream 0), 1 := Some (sample_stream 1), 2 := Some (sample_stream 2)),
        buffer_start = 0, buffer_end = 3\<rparr> req 0 1 = (Some (q, T), S') \<and>
    q = 2 \<and> packet_at S' 1 = None \<and> packet_at S' 2 \<noteq> None"
proof -
  let ?R = "\<lparr>buffer = (\<lambda>_. None)(1 := Some (sample_stream 1)), buffer_start = 0, buffer_end = 3\<rparr>"
  let ?S = "\<lparr>buffer = (\<lambda>_. None)(0 := Some (sample_stream 0), 1 := Some (sample_stream 1), 2 := Some (sample_stream 2)), buffer_start = 0, buffer_end = 3\<rparr>"
  have slots: "slot (0 + word_of_nat 0) = 0" "slot (0 + word_of_nat 1) = 1" "slot (0 + word_of_nat 2) = 2" by (simp_all add: slot_def)
  have "array_ok ?S"
    unfolding array_ok_def
  proof (intro conjI allI impI)
    fix j assume "buffer ?S j \<noteq> None"
    then have "j = 0 \<or> j = 1 \<or> j = 2" by (auto split: if_splits)
    then show "\<exists>k<window ?S. slot (buffer_start ?S + word_of_nat k) = j"
      using slots by (auto simp: window_def intro: exI [of _ 0] exI [of _ 1] exI [of _ 2])
  qed (simp add: window_def)
  moreover have "array_ok ?R"
    unfolding array_ok_def
  proof (intro conjI allI impI)
    fix j assume "buffer ?R j \<noteq> None"
    then have "j = 1" by (auto split: if_splits)
    then show "\<exists>k<window ?R. slot (buffer_start ?R + word_of_nat k) = j" using slots by (auto simp: window_def intro: exI [of _ 1])
  qed (simp add: window_def)
  ultimately obtain req q T S' where r: "generate_request_packet 8 ?R = Some req" "handle_request_packet 9 ?S req 0 1 = (Some (q, T), S')"
    "\<forall>n. packet_at ?R n = None \<longrightarrow> packet_at S' n = packet_at ?S n \<or> packet_at S' n = map_option (\<lambda>d. d\<lparr>sent_time := 0\<rparr>) (packet_at ?S n)"
    "1 + window ?R < 8 \<longrightarrow> q = length (filter (\<lambda>k. packet_at ?R (buffer_start ?R + word_of_nat k) = None) [0..<window ?R]) \<and>
       (\<forall>n n'. packet_at ?R n \<noteq> None \<and> in_window ?R n' \<and> packet_at ?R n' = None \<and>
          n - buffer_start ?R < n' - buffer_start ?R \<longrightarrow> packet_at S' n = None)"
    using request_packet_exact [of ?S ?R 8 9 0 1] by (auto simp: window_def)
  have at: "packet_at ?R 0 = None" "packet_at ?R 1 = Some (sample_stream 1)" "packet_at ?R 2 = None" "packet_at ?S 2 = Some (sample_stream 2)"
    "in_window ?R 2" "window ?R = 3"
    by (simp_all add: packet_at_def in_window_def window_def slot_def)
  have "\<forall>n n'. packet_at ?R n \<noteq> None \<and> in_window ?R n' \<and> packet_at ?R n' = None \<and>
      n - buffer_start ?R < n' - buffer_start ?R \<longrightarrow> packet_at S' n = None" using r(4) at(6) by simp
  from this [rule_format, of 1 2] have "packet_at S' 1 = None" using at by simp
  moreover have "packet_at S' 2 \<noteq> None" using r(3) at by (auto dest!: spec [of _ 2])
  moreover have "q = 2" using r(4) at by (simp add: upt_conv_Cons numeral_3_eq_3)
  ultimately show ?thesis using r(1,2) by blast
qed

text \<open>
  C37. A packet that is one turn of the array ahead is taken for the next one: the bound of
  \<open>add_data_to_buffer\<close> lets the number \<open>buffer_start + 32768\<close> in. When the next packet is still
  missing, such a packet is stored in its slot and \<open>read_data_beg_buffer\<close> delivers it under
  the number \<open>buffer_start\<close>.
\<close>

theorem add_data_wrong_slot:
  assumes "buffer arr (slot (buffer_start arr)) = None"
  shows "\<exists>arr1 arr2. add_data_to_buffer True arr (buffer_start arr + 32768) d = (True, arr1) \<and>
    read_data_beg_buffer arr1 = (Some (buffer_start arr, d), arr2)"
proof -
  have s: "slot (buffer_start arr + 32768) = slot (buffer_start arr)"
    using slot_add [of "buffer_start arr" 32768] by (simp add: slot_def)
  have ne: "buffer_start arr + 32768 + 1 \<noteq> buffer_start arr" by (simp add: add.assoc)
  show ?thesis
    using assms s ne by (auto simp: add_data_to_buffer_def read_data_beg_buffer_def Let_def)
qed

theorem add_data_wrong_slot_witness:
  "\<exists>arr1 arr2. add_data_to_buffer True (sample_array 0) 32768 (sample_stream 9) = (True, arr1) \<and>
    read_data_beg_buffer arr1 = (Some (0, sample_stream 9), arr2)"
  using add_data_wrong_slot [of "sample_array 0" "sample_stream 9"] by (simp add: sample_array_def)

text \<open>
  \<open>handle_request_packet\<close> never reports when a packet was sent: its running maximum starts
  at \<open>~0\<close>, so whenever it succeeds on a request with a body it sets \<open>*latest_send_time\<close> to
  \<open>2^64 - 1\<close>, whatever the send times of the packets it drops are.
\<close>

theorem handle_request_packet_time:
  assumes "handle_request_packet t S (b # c # rest) latest rtt = (Some (q, T), S')"
  shows "T = 2 ^ 64 - 1"
proof -
  have max: "(if latest < - 1 then - 1 else latest) = (- 1 :: u64)"
    by (metis not_max_less word_order.not_eq_extremum)
  show ?thesis
    using assms max request_loop_time [of t rtt "buffer_end S" "c # rest" "buffer S" "buffer_start S" 1 0]
    by (auto simp: handle_request_packet_def split: if_splits)
qed

theorem handle_request_packet_time_witness:
  "\<exists>S'. handle_request_packet 9 \<lparr>buffer = (\<lambda>_. None)(0 := Some (sample_stream 0)), buffer_start = 0, buffer_end = 2\<rparr> [1, 2] 0 1 =
     (Some (1, 2 ^ 64 - 1), S')"
proof -
  let ?S = "\<lparr>buffer = (\<lambda>_. None)(0 := Some (sample_stream 0)), buffer_start = 0, buffer_end = 2\<rparr>"
  obtain T S' where r: "handle_request_packet 9 ?S [1, 2] 0 1 = (Some (1, T), S')"
    by (auto simp: handle_request_packet_def request_loop.simps slot_def sample_stream_def not_max_less)
  then show ?thesis using handle_request_packet_time [OF r] by blast
qed

end
