(* ===== verification/Handshake.thy ===== *)
theory Handshake
  imports DHT_State Packets_Array BS_List
begin

text \<open>
  The cookie and handshake packets of \<open>toxcore/net_crypto.c\<close> with the structures of
  \<open>toxcore/net_crypto.h\<close>. Random nonces, the time and the outcome of a send are arguments;
  \<open>crypto_hash_sha512\<close> is the parameter \<open>H\<close>. Integers copied with \<open>memcpy\<close> without conversion
  have the little endian layout. Out-parameters are results, \<open>None\<close> is the return value \<open>-1\<close>.
  The fields that only the congestion control of \<open>send_crypto_packets\<close> uses, the mutexes and the
  TCP object are left out of the records.

  The results: a cookie opens for fifteen seconds and no longer, and an undisturbed exchange of
  cookie request, cookie response and two handshakes gives both peers each other's keys and
  nonces.
\<close>

abbreviation "COOKIE_TIMEOUT \<equiv> (15::u64)"
abbreviation "COOKIE_DATA_LENGTH \<equiv> (64::nat)"
abbreviation "COOKIE_CONTENTS_LENGTH \<equiv> (72::nat)"
abbreviation "COOKIE_LENGTH \<equiv> (112::nat)"
abbreviation "COOKIE_REQUEST_PLAIN_LENGTH \<equiv> (72::nat)"
abbreviation "COOKIE_REQUEST_LENGTH \<equiv> (145::nat)"
abbreviation "COOKIE_RESPONSE_LENGTH \<equiv> (161::nat)"
abbreviation "HANDSHAKE_PACKET_LENGTH \<equiv> (385::nat)"
abbreviation "crypto_hash_sha512_BYTES \<equiv> (64::nat)"
abbreviation "NET_PACKET_COOKIE_REQUEST \<equiv> (24::u8)"
abbreviation "NET_PACKET_COOKIE_RESPONSE \<equiv> (25::u8)"
abbreviation "NET_PACKET_CRYPTO_HS \<equiv> (26::u8)"
abbreviation "NET_PACKET_CRYPTO_DATA \<equiv> (27::u8)"

section \<open>Data\<close>

datatype conn_status = CRYPTO_CONN_NO_CONNECTION | CRYPTO_CONN_COOKIE_REQUESTING | CRYPTO_CONN_HANDSHAKE_SENT
  | CRYPTO_CONN_NOT_CONFIRMED | CRYPTO_CONN_ESTABLISHED

text \<open>A callback is the pair of object and identifier it is given, \<open>None\<close> when it is not set.\<close>

record Crypto_Connection =
  cc_public_key :: bytes
  recv_nonce :: bytes
  sent_nonce :: bytes
  sessionpublic_key :: bytes
  sessionsecret_key :: bytes
  peersessionpublic_key :: bytes
  cc_shared_key :: bytes
  conn_stat :: conn_status
  cookie_request_number :: u64
  cc_dht_public_key :: bytes
  temp_packet :: "bytes option"
  temp_packet_sent_time :: u64
  temp_packet_num_sent :: u32
  ip_portv4 :: IP_Port
  ip_portv6 :: IP_Port
  direct_lastrecv_timev4 :: u64
  direct_lastrecv_timev6 :: u64
  last_tcp_sent :: u64
  send_array :: Packets_Array
  recv_array :: Packets_Array
  connection_status_callback :: "(nat \<times> int) option"
  connection_data_callback :: "(nat \<times> int) option"
  connection_lossy_data_callback :: "(nat \<times> int) option"
  direct_send_attempt_time :: u64
  packet_counter :: u32
  packets_left :: u32
  packets_left_requested :: u32
  packets_sent :: u32
  rtt_time :: u64
  connection_number_tcp :: nat
  maximum_speed_reached :: bool
  dht_pk_callback :: "(nat \<times> int) option"

record New_Connection =
  nw_source :: IP_Port
  nw_public_key :: bytes
  nw_dht_public_key :: bytes
  nw_recv_nonce :: bytes
  nw_peersessionpublic_key :: bytes
  nw_cookie :: bytes

text \<open>What the code sends and which callbacks it runs, in order.\<close>

datatype nc_event = SendUdp IP_Port bytes | SendTcp nat bytes | SendTcpOob nat bytes bytes
  | StatusCallback nat int bool | DataCallback nat int bytes | LossyCallback nat int bytes | DhtPkCallback nat int bytes
  | NewTcp bytes nat | KillTcp nat | TcpRelay nat bytes | TcpStatus nat bool

text \<open>
  The array \<open>crypto_connections\<close> has \<open>crypto_connections_length\<close> entries, the length of the list.
  \<open>nc_log\<close> is not in the code: it records the events of the functions that act on connections.
\<close>

record Net_Crypto =
  nc_dht :: DHT
  crypto_connections :: "Crypto_Connection list"
  nc_self_public_key :: bytes
  nc_self_secret_key :: bytes
  secret_symmetric_key :: bytes
  ip_port_list :: bs_list
  nc_log :: "nc_event list"

section \<open>Cookies\<close>

definition create_cookie_request ::
    "nacl \<Rightarrow> u64 \<Rightarrow> bytes \<Rightarrow> Net_Crypto \<Rightarrow> bytes \<Rightarrow> u64 \<Rightarrow> Net_Crypto \<times> bytes \<times> bytes option" where
  "create_cookie_request N now nonce c dht_public_key number =
     (let plain = nc_self_public_key c @ replicate crypto_box_PUBLICKEYBYTES 0 @ bytes_le 8 (unat number);
          (d, shared_key) = DHT_get_shared_key_sent N now (nc_dht c) dht_public_key
      in (c\<lparr>nc_dht := d\<rparr>, shared_key,
          case encrypt_data_symmetric N shared_key nonce plain of
            None \<Rightarrow> None
          | Some enc \<Rightarrow>
              if length enc \<noteq> COOKIE_REQUEST_PLAIN_LENGTH + crypto_box_MACBYTES then None
              else Some ([NET_PACKET_COOKIE_REQUEST] @ self_public_key d @ nonce @ enc)))"

definition create_cookie :: "nacl \<Rightarrow> u64 \<Rightarrow> bytes \<Rightarrow> bytes \<Rightarrow> bytes \<Rightarrow> bytes option" where
  "create_cookie N temp_time nonce data encryption_key =
     (let contents = bytes_le 8 (unat temp_time) @ take COOKIE_DATA_LENGTH data
      in case encrypt_data_symmetric N encryption_key nonce contents of
           None \<Rightarrow> None
         | Some enc \<Rightarrow> if length enc \<noteq> COOKIE_LENGTH - crypto_box_NONCEBYTES then None else Some (nonce @ enc))"

definition open_cookie :: "nacl \<Rightarrow> u64 \<Rightarrow> bytes \<Rightarrow> bytes \<Rightarrow> bytes option" where
  "open_cookie N temp_time cookie encryption_key =
     (case decrypt_data_symmetric N encryption_key (read_at cookie 0 crypto_box_NONCEBYTES)
             (read_at cookie crypto_box_NONCEBYTES (COOKIE_LENGTH - crypto_box_NONCEBYTES)) of
        None \<Rightarrow> None
      | Some contents \<Rightarrow>
          if length contents \<noteq> COOKIE_CONTENTS_LENGTH then None
          else
            let cookie_time = word_of_nat (le_val (read_at contents 0 8)) :: u64
            in if cookie_time + COOKIE_TIMEOUT < temp_time \<or> temp_time < cookie_time then None
               else Some (read_at contents 8 COOKIE_DATA_LENGTH))"

definition create_cookie_response ::
    "nacl \<Rightarrow> u64 \<Rightarrow> bytes \<Rightarrow> bytes \<Rightarrow> Net_Crypto \<Rightarrow> bytes \<Rightarrow> bytes \<Rightarrow> bytes \<Rightarrow> bytes option" where
  "create_cookie_response N now cookie_nonce nonce c request_plain shared_key dht_public_key =
     (let cookie_plain = take crypto_box_PUBLICKEYBYTES request_plain @ dht_public_key
      in case create_cookie N now cookie_nonce cookie_plain (secret_symmetric_key c) of
           None \<Rightarrow> None
         | Some cookie \<Rightarrow>
             let plain = cookie @ read_at request_plain COOKIE_DATA_LENGTH 8
             in case encrypt_data_symmetric N shared_key nonce plain of
                  None \<Rightarrow> None
                | Some enc \<Rightarrow>
                    if length enc \<noteq> COOKIE_RESPONSE_LENGTH - (1 + crypto_box_NONCEBYTES) then None
                    else Some ([NET_PACKET_COOKIE_RESPONSE] @ nonce @ enc))"

text \<open>The result holds \<open>request_plain\<close>, \<open>shared_key\<close> and \<open>dht_public_key\<close>.\<close>

definition handle_cookie_request ::
    "nacl \<Rightarrow> u64 \<Rightarrow> Net_Crypto \<Rightarrow> bytes \<Rightarrow> Net_Crypto \<times> (bytes \<times> bytes \<times> bytes) option" where
  "handle_cookie_request N now c packet =
     (if length packet \<noteq> COOKIE_REQUEST_LENGTH then (c, None)
      else
        let dht_public_key = read_at packet 1 crypto_box_PUBLICKEYBYTES;
            (d, shared_key) = DHT_get_shared_key_sent N now (nc_dht c) dht_public_key
        in (c\<lparr>nc_dht := d\<rparr>,
            case decrypt_data_symmetric N shared_key (read_at packet (1 + crypto_box_PUBLICKEYBYTES) crypto_box_NONCEBYTES)
                   (read_at packet (1 + crypto_box_PUBLICKEYBYTES + crypto_box_NONCEBYTES)
                      (COOKIE_REQUEST_PLAIN_LENGTH + crypto_box_MACBYTES)) of
              None \<Rightarrow> None
            | Some request_plain \<Rightarrow>
                if length request_plain \<noteq> COOKIE_REQUEST_PLAIN_LENGTH then None
                else Some (request_plain, shared_key, dht_public_key)))"

text \<open>\<open>sent\<close> is whether \<open>sendpacket\<close> wrote the whole packet; the first component is the return value.\<close>

definition udp_handle_cookie_request ::
    "nacl \<Rightarrow> u64 \<Rightarrow> bytes \<Rightarrow> bytes \<Rightarrow> bool \<Rightarrow> Net_Crypto \<Rightarrow> IP_Port \<Rightarrow> bytes \<Rightarrow> int \<times> Net_Crypto \<times> nc_event list" where
  "udp_handle_cookie_request N now cookie_nonce nonce sent c source packet =
     (let (c1, r) = handle_cookie_request N now c packet
      in case r of
           None \<Rightarrow> (1, c1, [])
         | Some (request_plain, shared_key, dht_public_key) \<Rightarrow>
             (case create_cookie_response N now cookie_nonce nonce c1 request_plain shared_key dht_public_key of
                None \<Rightarrow> (1, c1, [])
              | Some data \<Rightarrow> (if sent then 0 else 1, c1, [SendUdp source data])))"

definition tcp_handle_cookie_request ::
    "nacl \<Rightarrow> u64 \<Rightarrow> bytes \<Rightarrow> bytes \<Rightarrow> int \<Rightarrow> Net_Crypto \<Rightarrow> nat \<Rightarrow> bytes \<Rightarrow> int \<times> Net_Crypto \<times> nc_event list" where
  "tcp_handle_cookie_request N now cookie_nonce nonce ret c connections_number packet =
     (let (c1, r) = handle_cookie_request N now c packet
      in case r of
           None \<Rightarrow> (- 1, c1, [])
         | Some (request_plain, shared_key, dht_public_key) \<Rightarrow>
             (case create_cookie_response N now cookie_nonce nonce c1 request_plain shared_key dht_public_key of
                None \<Rightarrow> (- 1, c1, [])
              | Some data \<Rightarrow> (ret, c1, [SendTcp connections_number data])))"

definition tcp_oob_handle_cookie_request ::
    "nacl \<Rightarrow> u64 \<Rightarrow> bytes \<Rightarrow> bytes \<Rightarrow> int \<Rightarrow> Net_Crypto \<Rightarrow> nat \<Rightarrow> bytes \<Rightarrow> bytes \<Rightarrow> int \<times> Net_Crypto \<times> nc_event list" where
  "tcp_oob_handle_cookie_request N now cookie_nonce nonce ret c tcp_connections_number dht_public_key packet =
     (let (c1, r) = handle_cookie_request N now c packet
      in case r of
           None \<Rightarrow> (- 1, c1, [])
         | Some (request_plain, shared_key, dht_public_key_temp) \<Rightarrow>
             if memcmp dht_public_key dht_public_key_temp \<noteq> 0 then (- 1, c1, [])
             else case create_cookie_response N now cookie_nonce nonce c1 request_plain shared_key dht_public_key of
                    None \<Rightarrow> (- 1, c1, [])
                  | Some data \<Rightarrow> (ret, c1, [SendTcpOob tcp_connections_number dht_public_key data]))"

definition handle_cookie_response :: "nacl \<Rightarrow> bytes \<Rightarrow> bytes \<Rightarrow> (bytes \<times> u64) option" where
  "handle_cookie_response N packet shared_key =
     (if length packet \<noteq> COOKIE_RESPONSE_LENGTH then None
      else case decrypt_data_symmetric N shared_key (read_at packet 1 crypto_box_NONCEBYTES)
                  (read_at packet (1 + crypto_box_NONCEBYTES) (length packet - (1 + crypto_box_NONCEBYTES))) of
             None \<Rightarrow> None
           | Some plain \<Rightarrow>
               if length plain \<noteq> COOKIE_LENGTH + 8 then None
               else Some (read_at plain 0 COOKIE_LENGTH, word_of_nat (le_val (read_at plain COOKIE_LENGTH 8))))"

section \<open>Handshakes\<close>

definition create_crypto_handshake ::
    "nacl \<Rightarrow> (bytes \<Rightarrow> bytes) \<Rightarrow> u64 \<Rightarrow> bytes \<Rightarrow> bytes \<Rightarrow> Net_Crypto \<Rightarrow> bytes \<Rightarrow> bytes \<Rightarrow> bytes \<Rightarrow> bytes \<Rightarrow> bytes \<Rightarrow> bytes option" where
  "create_crypto_handshake N H now cookie_nonce hs_nonce c cookie nonce session_pk peer_real_pk peer_dht_pubkey =
     (case create_cookie N now cookie_nonce (peer_real_pk @ peer_dht_pubkey) (secret_symmetric_key c) of
        None \<Rightarrow> None
      | Some own_cookie \<Rightarrow>
          let plain = nonce @ session_pk @ H (take COOKIE_LENGTH cookie) @ own_cookie
          in case encrypt_data N peer_real_pk (nc_self_secret_key c) hs_nonce plain of
               None \<Rightarrow> None
             | Some enc \<Rightarrow>
                 if length enc \<noteq> HANDSHAKE_PACKET_LENGTH - (1 + COOKIE_LENGTH + crypto_box_NONCEBYTES) then None
                 else Some ([NET_PACKET_CRYPTO_HS] @ take COOKIE_LENGTH cookie @ hs_nonce @ enc))"

text \<open>What a handshake carries: the nonce, the session key, the peer's real and DHT keys, the cookie.\<close>

record handshake_data =
  hs_nonce :: bytes
  hs_session_pk :: bytes
  hs_peer_real_pk :: bytes
  hs_dht_public_key :: bytes
  hs_cookie :: bytes

definition handle_crypto_handshake ::
    "nacl \<Rightarrow> (bytes \<Rightarrow> bytes) \<Rightarrow> u64 \<Rightarrow> Net_Crypto \<Rightarrow> bytes \<Rightarrow> bytes option \<Rightarrow> handshake_data option" where
  "handle_crypto_handshake N H now c packet expected_real_pk =
     (if length packet \<noteq> HANDSHAKE_PACKET_LENGTH then None
      else case open_cookie N now (read_at packet 1 COOKIE_LENGTH) (secret_symmetric_key c) of
        None \<Rightarrow> None
      | Some cookie_plain \<Rightarrow>
          if (case expected_real_pk of None \<Rightarrow> False
              | Some pk \<Rightarrow> memcmp (take crypto_box_PUBLICKEYBYTES cookie_plain) pk \<noteq> 0) then None
          else
            let cookie_hash = H (read_at packet 1 COOKIE_LENGTH)
            in case decrypt_data N (take crypto_box_PUBLICKEYBYTES cookie_plain) (nc_self_secret_key c)
                      (read_at packet (1 + COOKIE_LENGTH) crypto_box_NONCEBYTES)
                      (read_at packet (1 + COOKIE_LENGTH + crypto_box_NONCEBYTES)
                         (HANDSHAKE_PACKET_LENGTH - (1 + COOKIE_LENGTH + crypto_box_NONCEBYTES))) of
                 None \<Rightarrow> None
               | Some plain \<Rightarrow>
                   if length plain \<noteq> crypto_box_NONCEBYTES + crypto_box_PUBLICKEYBYTES + crypto_hash_sha512_BYTES + COOKIE_LENGTH
                   then None
                   else if cookie_hash \<noteq> read_at plain (crypto_box_NONCEBYTES + crypto_box_PUBLICKEYBYTES) crypto_hash_sha512_BYTES
                   then None
                   else Some \<lparr>hs_nonce = read_at plain 0 crypto_box_NONCEBYTES,
                              hs_session_pk = read_at plain crypto_box_NONCEBYTES crypto_box_PUBLICKEYBYTES,
                              hs_peer_real_pk = read_at cookie_plain 0 crypto_box_PUBLICKEYBYTES,
                              hs_dht_public_key = read_at cookie_plain crypto_box_PUBLICKEYBYTES crypto_box_PUBLICKEYBYTES,
                              hs_cookie = read_at plain (crypto_box_NONCEBYTES + crypto_box_PUBLICKEYBYTES + crypto_hash_sha512_BYTES) COOKIE_LENGTH\<rparr>)"

section \<open>What the packets carry\<close>

definition peer_ok :: "nacl \<Rightarrow> Net_Crypto \<Rightarrow> bool" where
  "peer_ok N c \<longleftrightarrow> length (nc_self_public_key c) = 32 \<and> length (self_public_key (nc_dht c)) = 32 \<and>
     shared_keys_ok N (self_secret_key (nc_dht c)) (shared_keys_sent (nc_dht c))"

abbreviation dht_pk :: "Net_Crypto \<Rightarrow> bytes" where
  "dht_pk c \<equiv> self_public_key (nc_dht c)"

text \<open>Two peers whose DHT key pairs and real key pairs agree on shared keys.\<close>

definition peers_agree :: "nacl \<Rightarrow> Net_Crypto \<Rightarrow> Net_Crypto \<Rightarrow> bool" where
  "peers_agree N a b \<longleftrightarrow>
     keys_agree N (dht_pk a) (self_secret_key (nc_dht a)) (dht_pk b) (self_secret_key (nc_dht b)) \<and>
     keys_agree N (nc_self_public_key a) (nc_self_secret_key a) (nc_self_public_key b) (nc_self_secret_key b)"

text \<open>The fields that handling packets does not change.\<close>

definition same_keys :: "Net_Crypto \<Rightarrow> Net_Crypto \<Rightarrow> bool" where
  "same_keys a b \<longleftrightarrow> nc_self_public_key a = nc_self_public_key b \<and> nc_self_secret_key a = nc_self_secret_key b \<and>
     secret_symmetric_key a = secret_symmetric_key b \<and> dht_pk a = dht_pk b \<and>
     self_secret_key (nc_dht a) = self_secret_key (nc_dht b) \<and> crypto_connections a = crypto_connections b \<and> ip_port_list a = ip_port_list b \<and> nc_log a = nc_log b"

lemma shared_key_sent:
  assumes "peer_ok N c" and "length pk = 32"
  obtains d where "DHT_get_shared_key_sent N now (nc_dht c) pk = (d, encrypt_precompute N pk (self_secret_key (nc_dht c)))"
    and "peer_ok N (c\<lparr>nc_dht := d\<rparr>)" and "same_keys (c\<lparr>nc_dht := d\<rparr>) c"
proof -
  let ?sk = "self_secret_key (nc_dht c)"
  have ok: "shared_keys_ok N ?sk (shared_keys_sent (nc_dht c))" using assms(1) by (simp add: peer_ok_def)
  obtain keys where k: "get_shared_key N now (shared_keys_sent (nc_dht c)) ?sk pk = (keys, encrypt_precompute N pk ?sk)"
    "shared_keys_ok N ?sk keys" by (rule get_shared_key_value [OF ok assms(2)])
  let ?d = "(nc_dht c)\<lparr>shared_keys_sent := keys\<rparr>"
  have "DHT_get_shared_key_sent N now (nc_dht c) pk = (?d, encrypt_precompute N pk ?sk)"
    by (simp add: DHT_get_shared_key_sent_def k(1))
  moreover have "peer_ok N (c\<lparr>nc_dht := ?d\<rparr>)" using assms(1) k(2) by (simp add: peer_ok_def)
  moreover have "same_keys (c\<lparr>nc_dht := ?d\<rparr>) c" by (simp add: same_keys_def)
  ultimately show ?thesis by (rule that)
qed

lemma u64_bytes: "(word_of_nat (le_val (bytes_le 8 (unat w))) :: u64) = w"
proof -
  have "unat w < 256 ^ 8" using unsigned_less [of w] by simp
  then show ?thesis by simp
qed

lemma create_cookie_opens:
  assumes N: "nacl_ok N" and len: "length nonce = 24" "length data = 64"
  obtains cookie where "create_cookie N t nonce data key = Some cookie" and "length cookie = COOKIE_LENGTH"
    and "\<And>now. open_cookie N now cookie key = (if t + 15 < now \<or> now < t then None else Some data)"
proof -
  let ?p = "bytes_le 8 (unat t) @ data"
  have ne: "?p \<noteq> []" using len by auto
  obtain e where e: "encrypt_data_symmetric N key nonce ?p = Some e" "length e = length ?p + 16"
    "decrypt_data_symmetric N key nonce e = Some ?p" by (rule encrypt_symmetric_Some [OF N ne])
  have c: "create_cookie N t nonce data key = Some (nonce @ e)"
    using e len by (simp add: create_cookie_def Let_def)
  have l: "length (nonce @ e) = COOKIE_LENGTH" using e len by simp
  have "read_at (nonce @ e) 0 24 = nonce" "read_at (nonce @ e) 24 88 = e" using len e(2) by (simp_all add: read_at_def)
  then have "open_cookie N now (nonce @ e) key = (if t + 15 < now \<or> now < t then None else Some data)" for now
    using e(3) len by (simp add: open_cookie_def Let_def u64_bytes del: le_val_bytes_le)
  with c l show ?thesis by (rule that)
qed

lemma cookie_request_received:
  assumes N: "nacl_ok N" and a: "peer_ok N a" and b: "peer_ok N b" and agree: "peers_agree N a b" and len: "length nonce = 24"
  obtains a' b' packet k where "create_cookie_request N ta nonce a (dht_pk b) number = (a', k, Some packet)"
    and "handle_cookie_request N tb b packet =
      (b', Some (nc_self_public_key a @ replicate 32 0 @ bytes_le 8 (unat number), k, dht_pk a))"
    and "peer_ok N a'" "same_keys a' a" "peer_ok N b'" "same_keys b' b"
proof -
  have l: "length (dht_pk a) = 32" "length (dht_pk b) = 32" "length (nc_self_public_key a) = 32"
    using a b by (auto simp: peer_ok_def)
  obtain da where da: "DHT_get_shared_key_sent N ta (nc_dht a) (dht_pk b) = (da, encrypt_precompute N (dht_pk b) (self_secret_key (nc_dht a)))"
    "peer_ok N (a\<lparr>nc_dht := da\<rparr>)" "same_keys (a\<lparr>nc_dht := da\<rparr>) a" by (rule shared_key_sent [OF a l(2)])
  obtain db where db: "DHT_get_shared_key_sent N tb (nc_dht b) (dht_pk a) = (db, encrypt_precompute N (dht_pk a) (self_secret_key (nc_dht b)))"
    "peer_ok N (b\<lparr>nc_dht := db\<rparr>)" "same_keys (b\<lparr>nc_dht := db\<rparr>) b" by (rule shared_key_sent [OF b l(1)])
  let ?k = "encrypt_precompute N (dht_pk b) (self_secret_key (nc_dht a))"
  have k: "encrypt_precompute N (dht_pk a) (self_secret_key (nc_dht b)) = ?k"
    using agree by (simp add: peers_agree_def keys_agree_def encrypt_precompute_def)
  let ?p = "nc_self_public_key a @ replicate 32 0 @ bytes_le 8 (unat number)"
  have ne: "?p \<noteq> []" by simp
  obtain e where e: "encrypt_data_symmetric N ?k nonce ?p = Some e" "length e = length ?p + 16"
    "decrypt_data_symmetric N ?k nonce e = Some ?p" by (rule encrypt_symmetric_Some [OF N ne])
  have pk: "self_public_key da = dht_pk a" using da(3) by (simp add: same_keys_def)
  let ?packet = "[NET_PACKET_COOKIE_REQUEST] @ dht_pk a @ nonce @ e"
  have "create_cookie_request N ta nonce a (dht_pk b) number = (a\<lparr>nc_dht := da\<rparr>, ?k, Some ?packet)"
    using e l by (simp add: create_cookie_request_def da(1) pk)
  moreover have "read_at ?packet 1 32 = dht_pk a" "read_at ?packet 33 24 = nonce" "read_at ?packet 57 88 = e" "length ?packet = 145"
    using l len e(2) by (simp_all add: read_at_def)
  then have "handle_cookie_request N tb b ?packet = (b\<lparr>nc_dht := db\<rparr>, Some (?p, ?k, dht_pk a))"
    using e(3) l by (simp add: handle_cookie_request_def db(1) k)
  ultimately show ?thesis using da(2,3) db(2,3) by (rule that)
qed

lemma cookie_response_received:
  assumes N: "nacl_ok N" and len: "length cn = 24" "length nonce = 24" "length pk = 32" "length dpk = 32"
  obtains packet cookie where
    "create_cookie_response N now cn nonce c (pk @ replicate 32 0 @ bytes_le 8 (unat number)) key dpk = Some packet"
    and "handle_cookie_response N packet key = Some (cookie, number)"
    and "create_cookie N now cn (pk @ dpk) (secret_symmetric_key c) = Some cookie"
proof -
  have l: "length (pk @ dpk) = 64" using len by simp
  obtain cookie where ck: "create_cookie N now cn (pk @ dpk) (secret_symmetric_key c) = Some cookie" "length cookie = COOKIE_LENGTH"
    by (rule create_cookie_opens [OF N len(1) l])
  let ?p = "cookie @ bytes_le 8 (unat number)"
  have ne: "?p \<noteq> []" using ck(2) by auto
  obtain e where e: "encrypt_data_symmetric N key nonce ?p = Some e" "length e = length ?p + 16"
    "decrypt_data_symmetric N key nonce e = Some ?p" by (rule encrypt_symmetric_Some [OF N ne])
  let ?packet = "[NET_PACKET_COOKIE_RESPONSE] @ nonce @ e"
  have "read_at (pk @ replicate 32 0 @ bytes_le 8 (unat number)) 64 8 = bytes_le 8 (unat number)" using len by simp
  then have "create_cookie_response N now cn nonce c (pk @ replicate 32 0 @ bytes_le 8 (unat number)) key dpk = Some ?packet"
    using ck e len by (simp add: create_cookie_response_def)
  moreover have "read_at ?packet 1 24 = nonce" "read_at ?packet 25 136 = e" "length ?packet = 161"
    using len e(2) ck(2) by (simp_all add: read_at_def)
  then have "handle_cookie_response N ?packet key = Some (cookie, number)"
    using e(3) ck(2) by (simp add: handle_cookie_response_def u64_bytes del: le_val_bytes_le)
  ultimately show ?thesis using ck(1) by (rule that)
qed

lemma handshake_received:
  assumes N: "nacl_ok N" and H: "\<And>m. length (H m) = 64"
    and keys: "keys_agree N (nc_self_public_key a) (nc_self_secret_key a) pk (nc_self_secret_key b)"
    and len: "length cn = 24" "length hn = 24" "length nonce = 24" "length spk = 32" "length pk = 32" "length dpk = 32"
      "length (nc_self_public_key a) = 32" "length adpk = 32" "length bcn = 24"
    and cookie: "create_cookie N tc bcn (nc_self_public_key a @ adpk) (secret_symmetric_key b) = Some cookie"
    and fresh: "\<not> tc + 15 < now" "\<not> now < tc" and exp: "expected = None \<or> expected = Some (nc_self_public_key a)"
  obtains packet own where "create_crypto_handshake N H t cn hn a cookie nonce spk pk dpk = Some packet"
    and "create_cookie N t cn (pk @ dpk) (secret_symmetric_key a) = Some own"
    and "handle_crypto_handshake N H now b packet expected =
      Some \<lparr>hs_nonce = nonce, hs_session_pk = spk, hs_peer_real_pk = nc_self_public_key a, hs_dht_public_key = adpk, hs_cookie = own\<rparr>"
proof -
  have l: "length (pk @ dpk) = 64" "length (nc_self_public_key a @ adpk) = 64" using len by auto
  obtain own where own: "create_cookie N t cn (pk @ dpk) (secret_symmetric_key a) = Some own" "length own = COOKIE_LENGTH"
    by (rule create_cookie_opens [OF N len(1) l(1)])
  obtain ck where ck: "create_cookie N tc bcn (nc_self_public_key a @ adpk) (secret_symmetric_key b) = Some ck"
    "length ck = COOKIE_LENGTH"
    "\<And>now. open_cookie N now ck (secret_symmetric_key b) = (if tc + 15 < now \<or> now < tc then None else Some (nc_self_public_key a @ adpk))"
    using create_cookie_opens [OF N len(9) l(2), of tc "secret_symmetric_key b"] by blast
  have eq: "ck = cookie" using ck(1) cookie by simp
  let ?k = "encrypt_precompute N pk (nc_self_secret_key a)"
  have k: "encrypt_precompute N (nc_self_public_key a) (nc_self_secret_key b) = ?k"
    using keys by (simp add: keys_agree_def encrypt_precompute_def)
  let ?p = "nonce @ spk @ H cookie @ own"
  have ne: "?p \<noteq> []" using own(2) by auto
  obtain e where e: "encrypt_data_symmetric N ?k hn ?p = Some e" "length e = length ?p + 16"
    "decrypt_data_symmetric N ?k hn e = Some ?p" by (rule encrypt_symmetric_Some [OF N ne])
  let ?packet = "[NET_PACKET_CRYPTO_HS] @ cookie @ hn @ e"
  have le: "length e = 248" using e(2) len own(2) H by simp
  have "create_crypto_handshake N H t cn hn a cookie nonce spk pk dpk = Some ?packet"
    using own ck(2) eq e(1) le by (simp add: create_crypto_handshake_def encrypt_data_def)
  moreover have "read_at ?packet 1 112 = cookie" "read_at ?packet 113 24 = hn" "read_at ?packet 137 248 = e" "length ?packet = 385"
    using len le ck(2) eq by (simp_all add: read_at_def)
  moreover have "read_at ?p 56 64 = H cookie" "read_at ?p 0 24 = nonce" "read_at ?p 24 32 = spk" "read_at ?p 120 112 = own" "length ?p = 232"
    using len H own(2) by (simp_all add: read_at_def)
  ultimately have "handle_crypto_handshake N H now b ?packet expected =
      Some \<lparr>hs_nonce = nonce, hs_session_pk = spk, hs_peer_real_pk = nc_self_public_key a, hs_dht_public_key = adpk, hs_cookie = own\<rparr>"
    using ck(3) eq fresh exp e(3) len k
    by (auto simp: handle_crypto_handshake_def decrypt_data_def)
  with \<open>create_crypto_handshake N H t cn hn a cookie nonce spk pk dpk = Some ?packet\<close> own(1) show ?thesis by (intro that)
qed

section \<open>The results\<close>

text \<open>
  C33. A cookie is valid for fifteen seconds: the cookie made at time \<open>t\<close> opens to the keys it was
  made for at every time from \<open>t\<close> to \<open>t + 15\<close>, and at no other time.
\<close>

theorem cookie_lifetime:
  assumes "nacl_ok N" and "length nonce = 24" and "length data = COOKIE_DATA_LENGTH" and "unat t + 15 < 2 ^ 64"
  shows "\<exists>cookie. create_cookie N t nonce data key = Some cookie \<and> length cookie = COOKIE_LENGTH \<and>
    (\<forall>now. open_cookie N now cookie key = (if unat t \<le> unat now \<and> unat now \<le> unat t + 15 then Some data else None))"
proof -
  obtain cookie where c: "create_cookie N t nonce data key = Some cookie" "length cookie = COOKIE_LENGTH"
    "\<And>now. open_cookie N now cookie key = (if t + 15 < now \<or> now < t then None else Some data)"
    using create_cookie_opens [OF assms(1,2,3), of t key] by blast
  have "unat (t + 15) = unat t + 15" using assms(4) by (simp add: unat_word_ariths)
  then show ?thesis using c by (auto simp: word_less_nat_alt)
qed

theorem cookie_lifetime_witness:
  "\<exists>cookie. create_cookie nacl_plain 1000 (replicate 24 3) (replicate 64 9) (replicate 32 1) = Some cookie \<and>
     open_cookie nacl_plain 1015 cookie (replicate 32 1) = Some (replicate 64 9) \<and>
     open_cookie nacl_plain 1016 cookie (replicate 32 1) = None \<and> open_cookie nacl_plain 999 cookie (replicate 32 1) = None"
proof -
  obtain cookie where c: "create_cookie nacl_plain 1000 (replicate 24 3) (replicate 64 9) (replicate 32 1) = Some cookie"
    "\<forall>now. open_cookie nacl_plain now cookie (replicate 32 1) =
       (if unat (1000::u64) \<le> unat now \<and> unat now \<le> unat (1000::u64) + 15 then Some (replicate 64 9) else None)"
    using cookie_lifetime [OF nacl_plain_ok, of "replicate 24 3" "replicate 64 9" 1000 "replicate 32 1"] by auto
  show ?thesis using c(1) c(2) [rule_format, of 1015] c(2) [rule_format, of 1016] c(2) [rule_format, of 999] by auto
qed

text \<open>
  C4. The handshake completes. Let \<open>a\<close> send a cookie request to \<open>b\<close>, which answers over UDP at time
  \<open>t1\<close>; let \<open>a\<close> make a handshake from the cookie in the answer at \<open>t2\<close>, which \<open>b\<close> handles at \<open>t3\<close>,
  and let \<open>b\<close> make its handshake at \<open>t4\<close> from the cookie that it found there, which \<open>a\<close> handles at
  \<open>t5\<close>, each within the life of the cookie used. If their key pairs agree on shared keys, every
  step succeeds, the number of the request comes back, and both end with the other's nonce,
  session key, real public key and DHT public key, whatever they have cached before.
\<close>

theorem handshake_completes:
  assumes "nacl_ok N" and "\<forall>m. length (H m) = crypto_hash_sha512_BYTES"
    and "peer_ok N a" and "peer_ok N b" and "peers_agree N a b"
    and "list_all (\<lambda>n. length n = crypto_box_NONCEBYTES) [n1, n2, n3, n4, n5, n6, n7, na, nb]"
    and "length sa = 32" and "length sb = 32"
    and "\<not> t1 + COOKIE_TIMEOUT < t3" "\<not> t3 < t1" and "\<not> t2 + COOKIE_TIMEOUT < t5" "\<not> t5 < t2"
  shows "\<exists>a' b' k p1 p2 p3 p4 cookie cookie_a cookie_b.
    create_cookie_request N t0 n1 a (dht_pk b) number = (a', k, Some p1) \<and>
    udp_handle_cookie_request N t1 n2 n3 True b source p1 = (0, b', [SendUdp source p2]) \<and>
    handle_cookie_response N p2 k = Some (cookie, number) \<and>
    create_crypto_handshake N H t2 n4 n5 a' cookie na sa (nc_self_public_key b) (dht_pk b) = Some p3 \<and>
    handle_crypto_handshake N H t3 b' p3 None =
      Some \<lparr>hs_nonce = na, hs_session_pk = sa, hs_peer_real_pk = nc_self_public_key a, hs_dht_public_key = dht_pk a, hs_cookie = cookie_a\<rparr> \<and>
    create_crypto_handshake N H t4 n6 n7 b' cookie_a nb sb (nc_self_public_key a) (dht_pk a) = Some p4 \<and>
    handle_crypto_handshake N H t5 a' p4 (Some (nc_self_public_key b)) =
      Some \<lparr>hs_nonce = nb, hs_session_pk = sb, hs_peer_real_pk = nc_self_public_key b, hs_dht_public_key = dht_pk b, hs_cookie = cookie_b\<rparr>"
proof -
  have l: "length n1 = 24" "length n2 = 24" "length n3 = 24" "length n4 = 24" "length n5 = 24" "length n6 = 24" "length n7 = 24"
    "length na = 24" "length nb = 24" using assms(6) by simp_all
  have pk: "length (nc_self_public_key a) = 32" "length (nc_self_public_key b) = 32" "length (dht_pk a) = 32" "length (dht_pk b) = 32"
    using assms(3,4) by (simp_all add: peer_ok_def)
  obtain a' b' p1 k where r: "create_cookie_request N t0 n1 a (dht_pk b) number = (a', k, Some p1)"
    "handle_cookie_request N t1 b p1 = (b', Some (nc_self_public_key a @ replicate 32 0 @ bytes_le 8 (unat number), k, dht_pk a))"
    "peer_ok N a'" "same_keys a' a" "peer_ok N b'" "same_keys b' b"
    by (rule cookie_request_received [OF assms(1,3,4,5) l(1)])
  obtain p2 cookie where s: "create_cookie_response N t1 n2 n3 b' (nc_self_public_key a @ replicate 32 0 @ bytes_le 8 (unat number)) k (dht_pk a) = Some p2"
    "handle_cookie_response N p2 k = Some (cookie, number)"
    "create_cookie N t1 n2 (nc_self_public_key a @ dht_pk a) (secret_symmetric_key b') = Some cookie"
    by (rule cookie_response_received [OF assms(1) l(2,3) pk(1,3)])
  have ka: "keys_agree N (nc_self_public_key a') (nc_self_secret_key a') (nc_self_public_key b) (nc_self_secret_key b')"
    and kb: "keys_agree N (nc_self_public_key b') (nc_self_secret_key b') (nc_self_public_key a) (nc_self_secret_key a')"
    using assms(5) r(4,6) by (simp_all add: peers_agree_def same_keys_def keys_agree_def)
  have eqs: "nc_self_public_key a' = nc_self_public_key a" "nc_self_public_key b' = nc_self_public_key b" using r(4,6) by (simp_all add: same_keys_def)
  obtain p3 cookie_a where h: "create_crypto_handshake N H t2 n4 n5 a' cookie na sa (nc_self_public_key b) (dht_pk b) = Some p3"
    "create_cookie N t2 n4 (nc_self_public_key b @ dht_pk b) (secret_symmetric_key a') = Some cookie_a"
    "handle_crypto_handshake N H t3 b' p3 None = Some \<lparr>hs_nonce = na, hs_session_pk = sa, hs_peer_real_pk = nc_self_public_key a',
       hs_dht_public_key = dht_pk a, hs_cookie = cookie_a\<rparr>"
    by (rule handshake_received [OF assms(1) _ ka l(4,5,8) assms(7) pk(2,4) _ pk(3) l(2) _ assms(9,10), of H cookie None t2])
      (use assms(2) eqs pk s(3) in simp_all)
  obtain p4 cookie_b where g: "create_crypto_handshake N H t4 n6 n7 b' cookie_a nb sb (nc_self_public_key a) (dht_pk a) = Some p4"
    "handle_crypto_handshake N H t5 a' p4 (Some (nc_self_public_key b)) = Some \<lparr>hs_nonce = nb, hs_session_pk = sb, hs_peer_real_pk = nc_self_public_key b',
       hs_dht_public_key = dht_pk b, hs_cookie = cookie_b\<rparr>"
    by (rule handshake_received [OF assms(1) _ kb l(6,7,9) assms(8) pk(1,3) _ pk(4) l(4) _ assms(11,12), of H cookie_a "Some (nc_self_public_key b)" t4])
      (use assms(2) eqs pk h(2) in simp_all)
  have "udp_handle_cookie_request N t1 n2 n3 True b source p1 = (0, b', [SendUdp source p2])"
    using r(2) s(1) by (simp add: udp_handle_cookie_request_def)
  then show ?thesis using r(1) s(2) h(1,3) g eqs by metis
qed

definition sample_net_crypto :: "u8 \<Rightarrow> Net_Crypto" where
  "sample_net_crypto x = \<lparr>nc_dht = sample_dht\<lparr>self_public_key := replicate 32 x, self_secret_key := replicate 32 x\<rparr>,
     crypto_connections = [], nc_self_public_key = replicate 32 x, nc_self_secret_key = replicate 32 x,
     secret_symmetric_key = replicate 32 (x + 1), ip_port_list = sample_bs, nc_log = []\<rparr>"

lemma sample_net_crypto_ok: "peer_ok nacl_identity (sample_net_crypto x)"
  by (simp add: peer_ok_def sample_net_crypto_def sample_dht_def shared_keys_zero_ok)

lemma sample_net_crypto_agree: "peers_agree nacl_identity (sample_net_crypto x) (sample_net_crypto y)"
  by (simp add: peers_agree_def keys_agree_def sample_net_crypto_def nacl_identity_def xor.commute)

theorem handshake_completes_witness:
  "\<exists>a' k p1 b' p2 cookie p3 hs. create_cookie_request nacl_identity 5 (replicate 24 1) (sample_net_crypto 3) (replicate 32 7) 99 = (a', k, Some p1) \<and>
     udp_handle_cookie_request nacl_identity 50 (replicate 24 2) (replicate 24 3) True (sample_net_crypto 7) (nf_ip_port sample_node) p1 =
       (0, b', [SendUdp (nf_ip_port sample_node) p2]) \<and>
     handle_cookie_response nacl_identity p2 k = Some (cookie, 99) \<and>
     create_crypto_handshake nacl_identity (\<lambda>_. replicate 64 0) 10 (replicate 24 4) (replicate 24 5) a' cookie
       (replicate 24 6) (replicate 32 11) (replicate 32 7) (replicate 32 7) = Some p3 \<and>
     handle_crypto_handshake nacl_identity (\<lambda>_. replicate 64 0) 65 b' p3 None = Some hs \<and>
     hs_nonce hs = replicate 24 6 \<and> hs_session_pk hs = replicate 32 11 \<and> hs_peer_real_pk hs = replicate 32 3"
proof -
  have "nc_self_public_key (sample_net_crypto x) = replicate 32 x" "dht_pk (sample_net_crypto x) = replicate 32 x" for x
    by (simp_all add: sample_net_crypto_def)
  then show ?thesis
    using handshake_completes [OF nacl_identity_ok _ sample_net_crypto_ok sample_net_crypto_ok sample_net_crypto_agree,
      of "\<lambda>_. replicate 64 0" "replicate 24 1" "replicate 24 2" "replicate 24 3" "replicate 24 4" "replicate 24 5" "replicate 24 8"
        "replicate 24 9" "replicate 24 6" "replicate 24 6" "replicate 32 11" "replicate 32 12" 50 65 10 20 5 3 7 99 "nf_ip_port sample_node" 60]
    by fastforce
qed

end
