(* ===== verification/Crypto_Conn.thy ===== *)
theory Crypto_Conn
  imports Handshake
begin

text \<open>
  The connections of \<open>toxcore/net_crypto.c\<close>: addresses, temporary packets, data packets, the
  packet handlers and the life of a connection. A function that changes the state returns the
  new \<open>Net_Crypto\<close>, with what it sent and called appended to \<open>nc_log\<close>; \<open>False\<close> and \<open>None\<close> are the
  return value \<open>-1\<close>.

  What the code gets from elsewhere is the record \<open>nc_env\<close>: the two clocks, the outcome of sending a
  given packet over UDP or TCP, of \<open>malloc\<close>, the random values a handler draws, the layout of an
  \<open>IP_Port\<close> in memory, the cryptographic primitives, whether the data callback kills the
  connection, and the callback for new connections. Locks are left out: each function is one
  atomic step.
\<close>

abbreviation "MAX_CRYPTO_PACKET_SIZE \<equiv> (1400::nat)"
abbreviation "CRYPTO_DATA_PACKET_MIN_SIZE \<equiv> (27::nat)"
abbreviation "MAX_CRYPTO_DATA_SIZE \<equiv> (1373::nat)"
abbreviation "CRYPTO_MAX_PADDING \<equiv> (8::nat)"
abbreviation "UDP_DIRECT_TIMEOUT \<equiv> (8::u64)"
abbreviation "MAX_NUM_SENDPACKET_TRIES \<equiv> (8::u32)"
abbreviation "CRYPTO_RESERVED_PACKETS \<equiv> (16::u8)"
abbreviation "PACKET_ID_LOSSY_RANGE_START \<equiv> (192::u8)"
abbreviation "PACKET_ID_LOSSY_RANGE_END \<equiv> (255::u8)"
abbreviation "DATA_NUM_THRESHOLD \<equiv> (21845::nat)"
abbreviation "DEFAULT_PING_CONNECTION \<equiv> (1000::u64)"
abbreviation "DEFAULT_TCP_PING_CONNECTION \<equiv> (500::u64)"
abbreviation "CRYPTO_MIN_QUEUE_LENGTH \<equiv> (64::u32)"
abbreviation "CRYPTO_MIN_PACKET_SIZE \<equiv> (19::nat)"

record nc_env =
  ev_unix :: u64
  ev_mono :: u64
  ev_udp :: "IP_Port \<Rightarrow> bytes \<Rightarrow> bool"
  ev_tcp :: "nat \<Rightarrow> bytes \<Rightarrow> bool"
  ev_alloc :: bool
  ev_bs :: bs_alloc
  ev_image :: "IP_Port \<Rightarrow> bytes"
  ev_nacl :: nacl
  ev_sha512 :: "bytes \<Rightarrow> bytes"
  ev_nonce1 :: bytes
  ev_nonce2 :: bytes
  ev_random_nonce :: bytes
  ev_keypair :: "bytes \<times> bytes"
  ev_random64 :: u64
  ev_new_tcp :: "nat option"
  ev_tcp_relay :: bool
  ev_tcp_ret :: int
  ev_data_kills :: "bytes \<Rightarrow> bool"
  ev_new_connection :: "New_Connection \<Rightarrow> Net_Crypto \<Rightarrow> int \<times> Net_Crypto"

section \<open>Access to connections\<close>

definition crypt_connection_id_not_valid :: "Net_Crypto \<Rightarrow> nat \<Rightarrow> bool" where
  "crypt_connection_id_not_valid c i =
     (if i \<ge> length (crypto_connections c) then True
      else conn_stat (crypto_connections c ! i) = CRYPTO_CONN_NO_CONNECTION)"

definition get_crypto_connection :: "Net_Crypto \<Rightarrow> nat \<Rightarrow> Crypto_Connection option" where
  "get_crypto_connection c i =
     (if crypt_connection_id_not_valid c i then None else Some (crypto_connections c ! i))"

text \<open>Writing through the pointer to a connection, and recording events.\<close>

definition upd_conn :: "(Crypto_Connection \<Rightarrow> Crypto_Connection) \<Rightarrow> Net_Crypto \<Rightarrow> nat \<Rightarrow> Net_Crypto" where
  "upd_conn f c i = c\<lparr>crypto_connections := (crypto_connections c)[i := f (crypto_connections c ! i)]\<rparr>"

definition log_event :: "nc_event \<Rightarrow> Net_Crypto \<Rightarrow> Net_Crypto" where
  "log_event e c = c\<lparr>nc_log := nc_log c @ [e]\<rparr>"

definition add_ip_port_connection :: "nc_env \<Rightarrow> Net_Crypto \<Rightarrow> nat \<Rightarrow> IP_Port \<Rightarrow> bool \<times> Net_Crypto" where
  "add_ip_port_connection E c i ipp =
     (case get_crypto_connection c i of
        None \<Rightarrow> (False, c)
      | Some conn \<Rightarrow>
          if ip_family (ipp_ip ipp) = AF_INET then
            if \<not> ipport_equal ipp (ip_portv4 conn) \<and> \<not> LAN_ip (ipp_ip (ip_portv4 conn)) then
              let (ok, l) = bs_add_op (ev_bs E) (ip_port_list c) (ev_image E ipp) (int i)
              in if \<not> ok then (False, c\<lparr>ip_port_list := l\<rparr>)
                 else
                   let l1 = snd (bs_remove_op (ev_bs E) l (ev_image E (ip_portv4 conn)) (int i))
                   in (True, upd_conn (ip_portv4_update (\<lambda>_. ipp)) (c\<lparr>ip_port_list := l1\<rparr>) i)
            else (False, c)
          else if ip_family (ipp_ip ipp) = AF_INET6 then
            if \<not> ipport_equal ipp (ip_portv6 conn) then
              let (ok, l) = bs_add_op (ev_bs E) (ip_port_list c) (ev_image E ipp) (int i)
              in if \<not> ok then (False, c\<lparr>ip_port_list := l\<rparr>)
                 else
                   let l1 = snd (bs_remove_op (ev_bs E) l (ev_image E (ip_portv6 conn)) (int i))
                   in (True, upd_conn (ip_portv6_update (\<lambda>_. ipp)) (c\<lparr>ip_port_list := l1\<rparr>) i)
            else (False, c)
          else (False, c))"

text \<open>The structure \<open>empty\<close>, of which the code sets the family only, is \<open>ipport_zero\<close>.\<close>

definition return_ip_port_connection :: "nc_env \<Rightarrow> Net_Crypto \<Rightarrow> nat \<Rightarrow> IP_Port" where
  "return_ip_port_connection E c i =
     (case get_crypto_connection c i of
        None \<Rightarrow> ipport_zero
      | Some conn \<Rightarrow>
          let v4 = UDP_DIRECT_TIMEOUT + direct_lastrecv_timev4 conn > ev_unix E;
              v6 = UDP_DIRECT_TIMEOUT + direct_lastrecv_timev6 conn > ev_unix E
          in if v4 \<and> LAN_ip (ipp_ip (ip_portv4 conn)) then ip_portv4 conn
             else if v6 \<and> ip_family (ipp_ip (ip_portv6 conn)) = AF_INET6 then ip_portv6 conn
             else if ip_family (ipp_ip (ip_portv4 conn)) = AF_INET then ip_portv4 conn
             else ipport_zero)"

text \<open>The status and \<open>*direct_connected\<close>; the number of relays is a query to the TCP object.\<close>

definition crypto_connection_status :: "nc_env \<Rightarrow> Net_Crypto \<Rightarrow> nat \<Rightarrow> conn_status \<times> bool" where
  "crypto_connection_status E c i =
     (case get_crypto_connection c i of
        None \<Rightarrow> (CRYPTO_CONN_NO_CONNECTION, False)
      | Some conn \<Rightarrow>
          (conn_stat conn, UDP_DIRECT_TIMEOUT + direct_lastrecv_timev4 conn > ev_unix E \<or>
                           UDP_DIRECT_TIMEOUT + direct_lastrecv_timev6 conn > ev_unix E))"

definition send_packet_to :: "nc_env \<Rightarrow> Net_Crypto \<Rightarrow> nat \<Rightarrow> bytes \<Rightarrow> bool \<times> Net_Crypto" where
  "send_packet_to E c i data =
     (case get_crypto_connection c i of
        None \<Rightarrow> (False, c)
      | Some conn \<Rightarrow>
          let ipp = return_ip_port_connection E c i;
              known = ip_family (ipp_ip ipp) \<noteq> 0
          in if known \<and> snd (crypto_connection_status E c i)
             then (ev_udp E ipp data, log_event (SendUdp ipp data) c)
             else
               let try = known \<and> ((UDP_DIRECT_TIMEOUT div 2 + direct_send_attempt_time conn > ev_unix E \<and> length data < 96) \<or>
                           data ! 0 = NET_PACKET_COOKIE_REQUEST \<or> data ! 0 = NET_PACKET_CRYPTO_HS);
                   c1 = (if try then log_event (SendUdp ipp data) c else c);
                   direct_send_attempt = (try \<and> ev_udp E ipp data);
                   c2 = (if direct_send_attempt then upd_conn (direct_send_attempt_time_update (\<lambda>_. ev_unix E)) c1 i else c1);
                   c3 = log_event (SendTcp (connection_number_tcp conn) data) c2;
                   ret = ev_tcp E (connection_number_tcp conn) data;
                   c4 = (if ret then upd_conn (last_tcp_sent_update (\<lambda>_. ev_mono E)) c3 i else c3)
               in (ret \<or> direct_send_attempt, c4))"

section \<open>Data packets\<close>

definition send_data_packet :: "nc_env \<Rightarrow> Net_Crypto \<Rightarrow> nat \<Rightarrow> bytes \<Rightarrow> bool \<times> Net_Crypto" where
  "send_data_packet E c i data =
     (if length data = 0 \<or> length data + (1 + 2 + crypto_box_MACBYTES) > MAX_CRYPTO_PACKET_SIZE then (False, c)
      else case get_crypto_connection c i of
        None \<Rightarrow> (False, c)
      | Some conn \<Rightarrow>
          (case encrypt_data_symmetric (ev_nacl E) (cc_shared_key conn) (sent_nonce conn) data of
             None \<Rightarrow> (False, c)
           | Some enc \<Rightarrow>
               if length enc \<noteq> length data + crypto_box_MACBYTES then (False, c)
               else
                 let packet = [NET_PACKET_CRYPTO_DATA] @ read_at (sent_nonce conn) (crypto_box_NONCEBYTES - 2) 2 @ enc
                 in send_packet_to E (upd_conn (sent_nonce_update increment_nonce) c i) i packet))"

definition send_data_packet_helper :: "nc_env \<Rightarrow> Net_Crypto \<Rightarrow> nat \<Rightarrow> u32 \<Rightarrow> u32 \<Rightarrow> bytes \<Rightarrow> bool \<times> Net_Crypto" where
  "send_data_packet_helper E c i start num data =
     (if length data = 0 \<or> length data > MAX_CRYPTO_DATA_SIZE then (False, c)
      else
        let padding_length = (MAX_CRYPTO_DATA_SIZE - length data) mod CRYPTO_MAX_PADDING;
            packet = bytes_be 4 (unat start) @ bytes_be 4 (unat num) @ replicate padding_length PACKET_ID_PADDING @ data
        in send_data_packet E c i packet)"

definition set_sent_time :: "u32 \<Rightarrow> u64 \<Rightarrow> Packets_Array \<Rightarrow> Packets_Array" where
  "set_sent_time number time arr =
     arr\<lparr>buffer := (buffer arr)(slot number := map_option (sent_time_update (\<lambda>_. time)) (buffer arr (slot number)))\<rparr>"

definition reset_max_speed_reached :: "nc_env \<Rightarrow> Net_Crypto \<Rightarrow> nat \<Rightarrow> bool \<times> Net_Crypto" where
  "reset_max_speed_reached E c i =
     (case get_crypto_connection c i of
        None \<Rightarrow> (False, c)
      | Some conn \<Rightarrow>
          if maximum_speed_reached conn then
            let packet_num = buffer_end (send_array conn) - 1;
                (send_ok, c1) =
                  (case get_data_pointer (send_array conn) packet_num of
                     PtrData dt \<Rightarrow>
                       if sent_time dt = 0 then
                         let (ok, c1) = send_data_packet_helper E c i (buffer_start (recv_array conn)) packet_num (pd_data dt)
                         in (ok, if ok then upd_conn (send_array_update (set_sent_time packet_num (ev_mono E))) c1 i else c1)
                       else (True, c)
                   | _ \<Rightarrow> (True, c))
            in if send_ok then (True, upd_conn (maximum_speed_reached_update (\<lambda>_. False)) c1 i) else (False, c1)
          else (True, c))"

definition send_lossless_packet :: "nc_env \<Rightarrow> Net_Crypto \<Rightarrow> nat \<Rightarrow> bytes \<Rightarrow> bool \<Rightarrow> u32 option \<times> Net_Crypto" where
  "send_lossless_packet E c i data congestion_control =
     (if length data = 0 \<or> length data > MAX_CRYPTO_DATA_SIZE then (None, c)
      else case get_crypto_connection c i of
        None \<Rightarrow> (None, c)
      | Some _ \<Rightarrow>
          let c1 = snd (reset_max_speed_reached E c i); conn = crypto_connections c1 ! i
          in if maximum_speed_reached conn \<and> congestion_control then (None, c1)
             else
               let (r, arr) = add_data_end_of_buffer (ev_alloc E) (send_array conn) \<lparr>sent_time = 0, pd_data = data\<rparr>;
                   c2 = upd_conn (send_array_update (\<lambda>_. arr)) c1 i
               in case r of
                    None \<Rightarrow> (None, c2)
                  | Some packet_num \<Rightarrow>
                      if \<not> congestion_control \<and> maximum_speed_reached conn then (Some packet_num, c2)
                      else
                        let (ok, c3) = send_data_packet_helper E c2 i (buffer_start (recv_array conn)) packet_num data
                        in (Some packet_num,
                            if ok then
                              (case get_data_pointer (send_array (crypto_connections c3 ! i)) packet_num of
                                 PtrData _ \<Rightarrow> upd_conn (send_array_update (set_sent_time packet_num (ev_mono E))) c3 i
                               | _ \<Rightarrow> c3)
                            else upd_conn (maximum_speed_reached_update (\<lambda>_. True)) c3 i))"

definition get_nonce_uint16 :: "bytes \<Rightarrow> u16" where
  "get_nonce_uint16 nonce = word_of_nat (be_val (read_at nonce (crypto_box_NONCEBYTES - 2) 2))"

definition handle_data_packet :: "nc_env \<Rightarrow> Net_Crypto \<Rightarrow> nat \<Rightarrow> bytes \<Rightarrow> bytes option \<times> Net_Crypto" where
  "handle_data_packet E c i packet =
     (if length packet \<le> 1 + 2 + crypto_box_MACBYTES \<or> length packet > MAX_CRYPTO_PACKET_SIZE then (None, c)
      else case get_crypto_connection c i of
        None \<Rightarrow> (None, c)
      | Some conn \<Rightarrow>
          let num_cur_nonce = get_nonce_uint16 (recv_nonce conn);
              num = word_of_nat (be_val (read_at packet 1 2)) :: u16;
              diff = num - num_cur_nonce;
              nonce = increment_nonce_number (recv_nonce conn) (word_of_nat (unat diff))
          in case decrypt_data_symmetric (ev_nacl E) (cc_shared_key conn) nonce (drop (1 + 2) packet) of
               None \<Rightarrow> (None, c)
             | Some data \<Rightarrow>
                 if length data \<noteq> length packet - (1 + 2 + crypto_box_MACBYTES) then (None, c)
                 else (Some data,
                       if unat diff > DATA_NUM_THRESHOLD * 2
                       then upd_conn (recv_nonce_update (\<lambda>n. increment_nonce_number n (word_of_nat DATA_NUM_THRESHOLD))) c i
                       else c))"

definition send_request_packet :: "nc_env \<Rightarrow> Net_Crypto \<Rightarrow> nat \<Rightarrow> bool \<times> Net_Crypto" where
  "send_request_packet E c i =
     (case get_crypto_connection c i of
        None \<Rightarrow> (False, c)
      | Some conn \<Rightarrow>
          (case generate_request_packet MAX_CRYPTO_DATA_SIZE (recv_array conn) of
             None \<Rightarrow> (False, c)
           | Some data \<Rightarrow>
               send_data_packet_helper E c i (buffer_start (recv_array conn)) (buffer_end (send_array conn)) data))"

text \<open>The loop of \<open>send_requested_packets\<close>, with \<open>left\<close> packet numbers from \<open>packet_num\<close> on.\<close>

fun requested_loop :: "nc_env \<Rightarrow> nat \<Rightarrow> nat \<Rightarrow> u32 \<Rightarrow> nat \<Rightarrow> nat \<Rightarrow> Net_Crypto \<Rightarrow> nat option \<times> Net_Crypto" where
  "requested_loop E i max_num packet_num 0 num_sent c = (Some num_sent, c)"
| "requested_loop E i max_num packet_num (Suc left) num_sent c =
     (let conn = crypto_connections c ! i
      in case get_data_pointer (send_array conn) packet_num of
           PtrError \<Rightarrow> (None, c)
         | PtrEmpty \<Rightarrow> requested_loop E i max_num (packet_num + 1) left num_sent c
         | PtrData dt \<Rightarrow>
             if sent_time dt \<noteq> 0 then requested_loop E i max_num (packet_num + 1) left num_sent c
             else
               let (ok, c1) = send_data_packet_helper E c i (buffer_start (recv_array conn)) packet_num (pd_data dt);
                   c2 = (if ok then upd_conn (send_array_update (set_sent_time packet_num (ev_mono E))) c1 i else c1);
                   num_sent1 = (if ok then num_sent + 1 else num_sent)
               in if num_sent1 \<ge> max_num then (Some num_sent1, c2)
                  else requested_loop E i max_num (packet_num + 1) left num_sent1 c2)"

definition send_requested_packets :: "nc_env \<Rightarrow> Net_Crypto \<Rightarrow> nat \<Rightarrow> u32 \<Rightarrow> nat option \<times> Net_Crypto" where
  "send_requested_packets E c i max_num =
     (if max_num = 0 then (None, c)
      else case get_crypto_connection c i of
        None \<Rightarrow> (None, c)
      | Some conn \<Rightarrow>
          requested_loop E i (unat max_num) (buffer_start (send_array conn)) (unat (num_packets_array (send_array conn))) 0 c)"

section \<open>Temporary packets\<close>

definition new_temp_packet :: "nc_env \<Rightarrow> Net_Crypto \<Rightarrow> nat \<Rightarrow> bytes \<Rightarrow> bool \<times> Net_Crypto" where
  "new_temp_packet E c i packet =
     (if length packet = 0 \<or> length packet > MAX_CRYPTO_PACKET_SIZE then (False, c)
      else case get_crypto_connection c i of
        None \<Rightarrow> (False, c)
      | Some conn \<Rightarrow>
          if \<not> ev_alloc E then (False, c)
          else (True, upd_conn (\<lambda>k. k\<lparr>temp_packet := Some packet, temp_packet_sent_time := 0, temp_packet_num_sent := 0\<rparr>) c i))"

definition clear_temp_packet :: "Net_Crypto \<Rightarrow> nat \<Rightarrow> bool \<times> Net_Crypto" where
  "clear_temp_packet c i =
     (case get_crypto_connection c i of
        None \<Rightarrow> (False, c)
      | Some conn \<Rightarrow>
          (True, upd_conn (\<lambda>k. k\<lparr>temp_packet := None, temp_packet_sent_time := 0, temp_packet_num_sent := 0\<rparr>) c i))"

definition send_temp_packet :: "nc_env \<Rightarrow> Net_Crypto \<Rightarrow> nat \<Rightarrow> bool \<times> Net_Crypto" where
  "send_temp_packet E c i =
     (case get_crypto_connection c i of
        None \<Rightarrow> (False, c)
      | Some conn \<Rightarrow>
          (case temp_packet conn of
             None \<Rightarrow> (False, c)
           | Some packet \<Rightarrow>
               let (ok, c1) = send_packet_to E c i packet
               in if \<not> ok then (False, c1)
                  else (True, upd_conn (\<lambda>k. k\<lparr>temp_packet_sent_time := ev_mono E, temp_packet_num_sent := temp_packet_num_sent k + 1\<rparr>) c1 i)))"

definition create_send_handshake :: "nc_env \<Rightarrow> Net_Crypto \<Rightarrow> nat \<Rightarrow> bytes \<Rightarrow> bytes \<Rightarrow> bool \<times> Net_Crypto" where
  "create_send_handshake E c i cookie dht_public_key =
     (case get_crypto_connection c i of
        None \<Rightarrow> (False, c)
      | Some conn \<Rightarrow>
          (case create_crypto_handshake (ev_nacl E) (ev_sha512 E) (ev_unix E) (ev_nonce1 E) (ev_nonce2 E) c cookie
                  (sent_nonce conn) (sessionpublic_key conn) (cc_public_key conn) dht_public_key of
             None \<Rightarrow> (False, c)
           | Some handshake_packet \<Rightarrow>
               let (ok, c1) = new_temp_packet E c i handshake_packet
               in if \<not> ok then (False, c1) else (True, snd (send_temp_packet E c1 i))))"

section \<open>The end of a connection\<close>

definition send_kill_packet :: "nc_env \<Rightarrow> Net_Crypto \<Rightarrow> nat \<Rightarrow> bool \<times> Net_Crypto" where
  "send_kill_packet E c i =
     (case get_crypto_connection c i of
        None \<Rightarrow> (False, c)
      | Some conn \<Rightarrow>
          send_data_packet_helper E c i (buffer_start (recv_array conn)) (buffer_end (send_array conn)) [PACKET_ID_KILL])"

definition array_zero :: Packets_Array where
  "array_zero = \<lparr>buffer = (\<lambda>_. None), buffer_start = 0, buffer_end = 0\<rparr>"

definition conn_zero :: Crypto_Connection where
  "conn_zero = \<lparr>cc_public_key = replicate 32 0, recv_nonce = replicate 24 0, sent_nonce = replicate 24 0,
     sessionpublic_key = replicate 32 0, sessionsecret_key = replicate 32 0, peersessionpublic_key = replicate 32 0,
     cc_shared_key = replicate 32 0, conn_stat = CRYPTO_CONN_NO_CONNECTION, cookie_request_number = 0,
     cc_dht_public_key = replicate 32 0, temp_packet = None, temp_packet_sent_time = 0, temp_packet_num_sent = 0,
     ip_portv4 = ipport_zero, ip_portv6 = ipport_zero, direct_lastrecv_timev4 = 0, direct_lastrecv_timev6 = 0,
     last_tcp_sent = 0, send_array = array_zero, recv_array = array_zero, connection_status_callback = None,
     connection_data_callback = None, connection_lossy_data_callback = None, direct_send_attempt_time = 0,
     packet_counter = 0, packets_left = 0, packets_left_requested = 0, packets_sent = 0, rtt_time = 0,
     connection_number_tcp = 0, maximum_speed_reached = False, dht_pk_callback = None\<rparr>"

text \<open>The connections without a status at the end of the array are dropped; the \<open>realloc\<close> only shrinks.\<close>

definition wipe_crypto_connection :: "Net_Crypto \<Rightarrow> nat \<Rightarrow> bool \<times> Net_Crypto" where
  "wipe_crypto_connection c i =
     (if crypt_connection_id_not_valid c i then (False, c)
      else
        let conns = (crypto_connections c)[i := conn_zero]
        in (True, c\<lparr>crypto_connections := rev (dropWhile (\<lambda>k. conn_stat k = CRYPTO_CONN_NO_CONNECTION) (rev conns))\<rparr>))"

definition crypto_kill :: "nc_env \<Rightarrow> Net_Crypto \<Rightarrow> nat \<Rightarrow> bool \<times> Net_Crypto" where
  "crypto_kill E c i =
     (case get_crypto_connection c i of
        None \<Rightarrow> (False, c)
      | Some conn \<Rightarrow>
          let c1 = (if conn_stat conn = CRYPTO_CONN_ESTABLISHED then snd (send_kill_packet E c i) else c);
              c2 = log_event (KillTcp (connection_number_tcp conn)) c1;
              l1 = snd (bs_remove_op (ev_bs E) (ip_port_list c2) (ev_image E (ip_portv4 conn)) (int i));
              l2 = snd (bs_remove_op (ev_bs E) l1 (ev_image E (ip_portv6 conn)) (int i));
              c3 = snd (clear_temp_packet (c2\<lparr>ip_port_list := l2\<rparr>) i);
              c4 = upd_conn (send_array_update clear_buffer) c3 i;
              c5 = upd_conn (recv_array_update clear_buffer) c4 i
          in wipe_crypto_connection c5 i)"

definition connection_kill :: "nc_env \<Rightarrow> Net_Crypto \<Rightarrow> nat \<Rightarrow> Net_Crypto" where
  "connection_kill E c i =
     (case get_crypto_connection c i of
        None \<Rightarrow> c
      | Some conn \<Rightarrow>
          let c1 = (case connection_status_callback conn of
                      None \<Rightarrow> c | Some (object, ident) \<Rightarrow> log_event (StatusCallback object ident False) c)
          in snd (crypto_kill E c1 i))"

section \<open>Received packets\<close>

text \<open>
  The loop that hands the packets in order to the data callback. The packet number is an \<open>int64_t\<close>
  that the code stores in an \<open>int\<close>: the number \<open>2^32 - 1\<close> becomes \<open>-1\<close>, the failure value.
\<close>

function deliver_loop :: "nc_env \<Rightarrow> nat \<Rightarrow> Net_Crypto \<Rightarrow> bool \<times> Net_Crypto" where
  "deliver_loop E i c =
     (case get_crypto_connection c i of
        None \<Rightarrow> (False, c)
      | Some conn \<Rightarrow>
          (case read_data_beg_buffer (recv_array conn) of
             (None, arr) \<Rightarrow> (True, c)
           | (Some (number, dt), arr) \<Rightarrow>
               let c1 = upd_conn (recv_array_update (\<lambda>_. arr)) c i
               in if number = - 1 then (True, c1)
                  else
                    let c2 = (case connection_data_callback conn of
                                None \<Rightarrow> c1 | Some (object, ident) \<Rightarrow> log_event (DataCallback object ident (pd_data dt)) c1)
                    in if connection_data_callback conn \<noteq> None \<and> ev_data_kills E (pd_data dt)
                       then (False, snd (crypto_kill E c2 i))
                       else deliver_loop E i c2))"
  by pat_completeness auto

lemma read_data_beg_shrinks:
  assumes "read_data_beg_buffer arr = (Some r, arr')"
  shows "unat (buffer_end arr' - buffer_start arr') < unat (buffer_end arr - buffer_start arr)"
  using assms pending_decreases [of "buffer_start arr" "buffer_end arr"]
  by (auto simp: read_data_beg_buffer_def split: if_splits option.splits)

lemma upd_conn_nth [simp]: "i < length (crypto_connections c) \<Longrightarrow> crypto_connections (upd_conn f c i) ! i = f (crypto_connections c ! i)"
  by (simp add: upd_conn_def)

lemma length_upd_conn [simp]: "length (crypto_connections (upd_conn f c i)) = length (crypto_connections c)"
  by (simp add: upd_conn_def)

lemma log_event_conns [simp]: "crypto_connections (log_event e c) = crypto_connections c"
  by (simp add: log_event_def)

lemma get_crypto_connectionD:
  "get_crypto_connection c i = Some conn \<Longrightarrow>
     i < length (crypto_connections c) \<and> conn = crypto_connections c ! i \<and> conn_stat conn \<noteq> CRYPTO_CONN_NO_CONNECTION"
  by (auto simp: get_crypto_connection_def crypt_connection_id_not_valid_def split: if_splits)

termination deliver_loop
proof (relation "measure (\<lambda>(E, i, c). unat (buffer_end (recv_array (crypto_connections c ! i)) - buffer_start (recv_array (crypto_connections c ! i))))", simp)
qed (auto dest!: get_crypto_connectionD read_data_beg_shrinks [OF sym] split: option.splits)

declare deliver_loop.simps [simp del]

text \<open>
  \<open>handle_data_packet_helper\<close> after decryption, from the removal of the padding on:
  \<open>rtt_calc_time\<close> is the send time of the oldest packet that the peer acknowledges.
\<close>

definition update_rtt :: "nc_env \<Rightarrow> u64 \<Rightarrow> Net_Crypto \<Rightarrow> nat \<Rightarrow> Net_Crypto" where
  "update_rtt E rtt_calc_time c i =
     (if rtt_calc_time \<noteq> 0 then
        let time = ev_mono E - rtt_calc_time
        in if time < rtt_time (crypto_connections c ! i) then upd_conn (rtt_time_update (\<lambda>_. time)) c i else c
      else c)"

definition confirm_connection :: "Net_Crypto \<Rightarrow> nat \<Rightarrow> Net_Crypto" where
  "confirm_connection c i =
     (if conn_stat (crypto_connections c ! i) = CRYPTO_CONN_NOT_CONFIRMED then
        let c1 = snd (clear_temp_packet c i);
            c2 = upd_conn (conn_stat_update (\<lambda>_. CRYPTO_CONN_ESTABLISHED)) c1 i
        in (case connection_status_callback (crypto_connections c2 ! i) of
              None \<Rightarrow> c2 | Some (object, ident) \<Rightarrow> log_event (StatusCallback object ident True) c2)
      else c)"

definition handle_real_data :: "nc_env \<Rightarrow> Net_Crypto \<Rightarrow> nat \<Rightarrow> bool \<Rightarrow> u32 \<Rightarrow> u64 \<Rightarrow> bytes \<Rightarrow> bool \<times> Net_Crypto" where
  "handle_real_data E c i udp num rtt_calc_time real_data =
     (case real_data of
        [] \<Rightarrow> (False, c)
      | pid # _ \<Rightarrow>
          if pid = PACKET_ID_KILL then (True, connection_kill E c i)
          else
            let c1 = confirm_connection c i; conn = crypto_connections c1 ! i
            in if pid = PACKET_ID_REQUEST then
                 let time = (if udp then rtt_time conn else DEFAULT_TCP_PING_CONNECTION);
                     (requested, arr) = handle_request_packet (ev_mono E) (send_array conn) real_data rtt_calc_time time;
                     c2 = upd_conn (send_array_update (\<lambda>_. arr)) c1 i
                 in case requested of
                      None \<Rightarrow> (False, c2)
                    | Some (_, rtt_calc_time1) \<Rightarrow>
                        let c3 = upd_conn (recv_array_update (\<lambda>a. snd (set_buffer_end a num))) c2 i
                        in (True, update_rtt E rtt_calc_time1 c3 i)
               else if pid \<ge> CRYPTO_RESERVED_PACKETS \<and> pid < PACKET_ID_LOSSY_RANGE_START then
                 let (ok, arr) = add_data_to_buffer (ev_alloc E) (recv_array conn) num \<lparr>sent_time = 0, pd_data = real_data\<rparr>
                 in if \<not> ok then (False, c1)
                    else
                      let (alive, c3) = deliver_loop E i (upd_conn (recv_array_update (\<lambda>_. arr)) c1 i)
                      in if \<not> alive then (False, c3)
                         else (True, update_rtt E rtt_calc_time (upd_conn (packet_counter_update (\<lambda>n. n + 1)) c3 i) i)
               else if pid \<ge> PACKET_ID_LOSSY_RANGE_START \<and> pid < PACKET_ID_LOSSY_RANGE_END then
                 let c2 = upd_conn (recv_array_update (\<lambda>a. snd (set_buffer_end a num))) c1 i;
                     c3 = (case connection_lossy_data_callback conn of
                             None \<Rightarrow> c2 | Some (object, ident) \<Rightarrow> log_event (LossyCallback object ident real_data) c2)
                 in (True, update_rtt E rtt_calc_time c3 i)
               else (False, c1))"

definition handle_data_packet_helper :: "nc_env \<Rightarrow> Net_Crypto \<Rightarrow> nat \<Rightarrow> bytes \<Rightarrow> bool \<Rightarrow> bool \<times> Net_Crypto" where
  "handle_data_packet_helper E c i packet udp =
     (if length packet > MAX_CRYPTO_PACKET_SIZE \<or> length packet \<le> CRYPTO_DATA_PACKET_MIN_SIZE then (False, c)
      else case get_crypto_connection c i of
        None \<Rightarrow> (False, c)
      | Some _ \<Rightarrow>
          (case handle_data_packet E c i packet of
             (None, c1) \<Rightarrow> (False, c1)
           | (Some data, c1) \<Rightarrow>
               if length data \<le> 8 then (False, c1)
               else
                 let start = word_of_nat (be_val (read_at data 0 4)) :: u32;
                     num = word_of_nat (be_val (read_at data 4 4)) :: u32;
                     conn = crypto_connections c1 ! i;
                     rtt_calc_time = (if start \<noteq> buffer_start (send_array conn) then
                                        (case get_data_pointer (send_array conn) (buffer_start (send_array conn)) of
                                           PtrData packet_time \<Rightarrow> sent_time packet_time | _ \<Rightarrow> 0)
                                      else 0);
                     (cleared, arr) = (if start \<noteq> buffer_start (send_array conn)
                                       then clear_buffer_until (send_array conn) start else (True, send_array conn))
                 in if \<not> cleared then (False, c1)
                    else handle_real_data E (upd_conn (send_array_update (\<lambda>_. arr)) c1 i) i udp num rtt_calc_time
                           (dropWhile (\<lambda>b. b = PACKET_ID_PADDING) (drop 8 data))))"

definition handle_packet_connection :: "nc_env \<Rightarrow> Net_Crypto \<Rightarrow> nat \<Rightarrow> bytes \<Rightarrow> bool \<Rightarrow> bool \<times> Net_Crypto" where
  "handle_packet_connection E c i packet udp =
     (if length packet = 0 \<or> length packet > MAX_CRYPTO_PACKET_SIZE then (False, c)
      else case get_crypto_connection c i of
        None \<Rightarrow> (False, c)
      | Some conn \<Rightarrow>
          if packet ! 0 = NET_PACKET_COOKIE_RESPONSE then
            if conn_stat conn \<noteq> CRYPTO_CONN_COOKIE_REQUESTING then (False, c)
            else (case handle_cookie_response (ev_nacl E) packet (cc_shared_key conn) of
                    None \<Rightarrow> (False, c)
                  | Some (cookie, number) \<Rightarrow>
                      if number \<noteq> cookie_request_number conn then (False, c)
                      else
                        let (ok, c1) = create_send_handshake E c i cookie (cc_dht_public_key conn)
                        in if \<not> ok then (False, c1)
                           else (True, upd_conn (conn_stat_update (\<lambda>_. CRYPTO_CONN_HANDSHAKE_SENT)) c1 i))
          else if packet ! 0 = NET_PACKET_CRYPTO_HS then
            if conn_stat conn = CRYPTO_CONN_COOKIE_REQUESTING \<or> conn_stat conn = CRYPTO_CONN_HANDSHAKE_SENT \<or>
               conn_stat conn = CRYPTO_CONN_NOT_CONFIRMED
            then (case handle_crypto_handshake (ev_nacl E) (ev_sha512 E) (ev_unix E) c packet (Some (cc_public_key conn)) of
                    None \<Rightarrow> (False, c)
                  | Some hs \<Rightarrow>
                      let c1 = upd_conn (\<lambda>k. k\<lparr>recv_nonce := hs_nonce hs, peersessionpublic_key := hs_session_pk hs\<rparr>) c i
                      in if memcmp (hs_dht_public_key hs) (cc_dht_public_key conn) = 0 then
                           let c2 = upd_conn (\<lambda>k. k\<lparr>cc_shared_key := encrypt_precompute (ev_nacl E) (peersessionpublic_key k) (sessionsecret_key k)\<rparr>) c1 i;
                               (ok, c3) = (if conn_stat conn = CRYPTO_CONN_COOKIE_REQUESTING
                                           then create_send_handshake E c2 i (hs_cookie hs) (hs_dht_public_key hs) else (True, c2))
                           in if \<not> ok then (False, c3)
                              else (True, upd_conn (conn_stat_update (\<lambda>_. CRYPTO_CONN_NOT_CONFIRMED)) c3 i)
                         else (True, case dht_pk_callback conn of
                                       None \<Rightarrow> c1
                                     | Some (object, number) \<Rightarrow> log_event (DhtPkCallback object number (hs_dht_public_key hs)) c1))
            else (False, c)
          else if packet ! 0 = NET_PACKET_CRYPTO_DATA then
            if conn_stat conn = CRYPTO_CONN_NOT_CONFIRMED \<or> conn_stat conn = CRYPTO_CONN_ESTABLISHED
            then handle_data_packet_helper E c i packet udp
            else (False, c)
          else (False, c))"

section \<open>New connections\<close>

fun free_index :: "Crypto_Connection list \<Rightarrow> nat \<Rightarrow> nat option" where
  "free_index [] i = None"
| "free_index (k # ks) i = (if conn_stat k = CRYPTO_CONN_NO_CONNECTION then Some i else free_index ks (Suc i))"

definition create_crypto_connection :: "nc_env \<Rightarrow> Net_Crypto \<Rightarrow> nat option \<times> Net_Crypto" where
  "create_crypto_connection E c =
     (case free_index (crypto_connections c) 0 of
        Some i \<Rightarrow> (Some i, c)
      | None \<Rightarrow>
          if ev_alloc E then (Some (length (crypto_connections c)), c\<lparr>crypto_connections := crypto_connections c @ [conn_zero]\<rparr>)
          else (None, c))"

fun key_index_of :: "Crypto_Connection list \<Rightarrow> bytes \<Rightarrow> nat \<Rightarrow> nat option" where
  "key_index_of [] public_key i = None"
| "key_index_of (k # ks) public_key i =
     (if conn_stat k \<noteq> CRYPTO_CONN_NO_CONNECTION \<and> memcmp public_key (cc_public_key k) = 0 then Some i
      else key_index_of ks public_key (Suc i))"

definition getcryptconnection_id :: "Net_Crypto \<Rightarrow> bytes \<Rightarrow> nat option" where
  "getcryptconnection_id c public_key = key_index_of (crypto_connections c) public_key 0"

text \<open>\<open>-1\<close>, \<open>0\<close> for a direct source, \<open>1\<close> for a TCP relay.\<close>

definition crypto_connection_add_source :: "nc_env \<Rightarrow> Net_Crypto \<Rightarrow> nat \<Rightarrow> IP_Port \<Rightarrow> int \<times> Net_Crypto" where
  "crypto_connection_add_source E c i source =
     (case get_crypto_connection c i of
        None \<Rightarrow> (- 1, c)
      | Some conn \<Rightarrow>
          if ip_family (ipp_ip source) = AF_INET \<or> ip_family (ipp_ip source) = AF_INET6 then
            let (ok, c1) = add_ip_port_connection E c i source
            in if \<not> ok then (- 1, c1)
               else if ip_family (ipp_ip source) = AF_INET
               then (0, upd_conn (direct_lastrecv_timev4_update (\<lambda>_. ev_unix E)) c1 i)
               else (0, upd_conn (direct_lastrecv_timev6_update (\<lambda>_. ev_unix E)) c1 i)
          else if ip_family (ipp_ip source) = TCP_FAMILY then
            (if ev_tcp_relay E then 1 else - 1,
             log_event (TcpRelay (connection_number_tcp conn) (read_at (ip_addr (ipp_ip source)) 0 4)) c)
          else (- 1, c))"

definition handle_new_connection_handshake :: "nc_env \<Rightarrow> Net_Crypto \<Rightarrow> IP_Port \<Rightarrow> bytes \<Rightarrow> int \<times> Net_Crypto" where
  "handle_new_connection_handshake E c source data =
     (if \<not> ev_alloc E then (- 1, c)
      else case handle_crypto_handshake (ev_nacl E) (ev_sha512 E) (ev_unix E) c data None of
        None \<Rightarrow> (- 1, c)
      | Some hs \<Rightarrow>
          let n_c = \<lparr>nw_source = source, nw_public_key = hs_peer_real_pk hs, nw_dht_public_key = hs_dht_public_key hs,
                     nw_recv_nonce = hs_nonce hs, nw_peersessionpublic_key = hs_session_pk hs, nw_cookie = hs_cookie hs\<rparr>
          in case getcryptconnection_id c (nw_public_key n_c) of
               None \<Rightarrow> ev_new_connection E n_c c
             | Some i \<Rightarrow>
                 let conn = crypto_connections c ! i
                 in if memcmp (nw_dht_public_key n_c) (cc_dht_public_key conn) \<noteq> 0
                    then ev_new_connection E n_c (connection_kill E c i)
                    else if conn_stat conn = CRYPTO_CONN_COOKIE_REQUESTING \<or> conn_stat conn = CRYPTO_CONN_HANDSHAKE_SENT then
                      let c1 = upd_conn (\<lambda>k. k\<lparr>recv_nonce := nw_recv_nonce n_c, peersessionpublic_key := nw_peersessionpublic_key n_c,
                                   cc_shared_key := encrypt_precompute (ev_nacl E) (nw_peersessionpublic_key n_c) (sessionsecret_key k)\<rparr>) c i;
                          c2 = snd (crypto_connection_add_source E c1 i source);
                          (ok, c3) = create_send_handshake E c2 i (nw_cookie n_c) (nw_dht_public_key n_c)
                      in if ok then (0, upd_conn (conn_stat_update (\<lambda>_. CRYPTO_CONN_NOT_CONFIRMED)) c3 i) else (- 1, c3)
                    else (- 1, c))"

text \<open>The fields both ways of opening a connection set to the same values.\<close>

definition start_rates :: "Crypto_Connection \<Rightarrow> Crypto_Connection" where
  "start_rates k = k\<lparr>packets_left := CRYPTO_MIN_QUEUE_LENGTH, rtt_time := DEFAULT_PING_CONNECTION\<rparr>"

definition accept_crypto_connection :: "nc_env \<Rightarrow> Net_Crypto \<Rightarrow> New_Connection \<Rightarrow> nat option \<times> Net_Crypto" where
  "accept_crypto_connection E c n_c =
     (if getcryptconnection_id c (nw_public_key n_c) \<noteq> None then (None, c)
      else case create_crypto_connection E c of
        (None, c1) \<Rightarrow> (None, c1)
      | (Some i, c1) \<Rightarrow>
          if length (nw_cookie n_c) \<noteq> COOKIE_LENGTH then (None, c1)
          else
            let c2 = log_event (NewTcp (nw_dht_public_key n_c) i) c1
            in case ev_new_tcp E of
                 None \<Rightarrow> (None, c2)
               | Some tcp \<Rightarrow>
                   let (pk, sk) = ev_keypair E;
                       c3 = upd_conn (\<lambda>k. k\<lparr>connection_number_tcp := tcp, cc_public_key := nw_public_key n_c,
                              recv_nonce := nw_recv_nonce n_c, peersessionpublic_key := nw_peersessionpublic_key n_c,
                              sent_nonce := ev_random_nonce E, sessionpublic_key := pk, sessionsecret_key := sk,
                              cc_shared_key := encrypt_precompute (ev_nacl E) (nw_peersessionpublic_key n_c) sk,
                              conn_stat := CRYPTO_CONN_NOT_CONFIRMED\<rparr>) c2 i;
                       (ok, c4) = create_send_handshake E c3 i (nw_cookie n_c) (nw_dht_public_key n_c)
                   in if \<not> ok
                      then (None, upd_conn (conn_stat_update (\<lambda>_. CRYPTO_CONN_NO_CONNECTION)) (log_event (KillTcp tcp) c4) i)
                      else
                        let c5 = upd_conn (\<lambda>k. start_rates (k\<lparr>cc_dht_public_key := nw_dht_public_key n_c\<rparr>)) c4 i
                        in (Some i, snd (crypto_connection_add_source E c5 i (nw_source n_c))))"

definition new_crypto_connection :: "nc_env \<Rightarrow> Net_Crypto \<Rightarrow> bytes \<Rightarrow> bytes \<Rightarrow> nat option \<times> Net_Crypto" where
  "new_crypto_connection E c real_public_key dht_public_key =
     (case getcryptconnection_id c real_public_key of
        Some i \<Rightarrow> (Some i, c)
      | None \<Rightarrow>
          (case create_crypto_connection E c of
             (None, c1) \<Rightarrow> (None, c1)
           | (Some i, c1) \<Rightarrow>
               let c2 = log_event (NewTcp dht_public_key i) c1
               in case ev_new_tcp E of
                    None \<Rightarrow> (None, c2)
                  | Some tcp \<Rightarrow>
                      let (pk, sk) = ev_keypair E;
                          c3 = upd_conn (\<lambda>k. start_rates (k\<lparr>connection_number_tcp := tcp, cc_public_key := real_public_key,
                                 sent_nonce := ev_random_nonce E, sessionpublic_key := pk, sessionsecret_key := sk,
                                 conn_stat := CRYPTO_CONN_COOKIE_REQUESTING, cc_dht_public_key := dht_public_key,
                                 cookie_request_number := ev_random64 E\<rparr>)) c2 i;
                          (c4, shared_key, r) = create_cookie_request (ev_nacl E) (ev_unix E) (ev_nonce1 E) c3 dht_public_key (ev_random64 E);
                          c5 = upd_conn (cc_shared_key_update (\<lambda>_. shared_key)) c4 i;
                          (ok, c6) = (case r of None \<Rightarrow> (False, c5) | Some cookie_request \<Rightarrow> new_temp_packet E c5 i cookie_request)
                      in if ok then (Some i, c6)
                         else (None, upd_conn (conn_stat_update (\<lambda>_. CRYPTO_CONN_NO_CONNECTION)) (log_event (KillTcp tcp) c6) i)))"

definition set_direct_ip_port :: "nc_env \<Rightarrow> Net_Crypto \<Rightarrow> nat \<Rightarrow> IP_Port \<Rightarrow> bool \<Rightarrow> bool \<times> Net_Crypto" where
  "set_direct_ip_port E c i ipp connected =
     (case get_crypto_connection c i of
        None \<Rightarrow> (False, c)
      | Some _ \<Rightarrow>
          let (ok, c1) = add_ip_port_connection E c i ipp;
              time = (if connected then ev_unix E else 0)
          in if ok then
               (True, if ip_family (ipp_ip ipp) = AF_INET then upd_conn (direct_lastrecv_timev4_update (\<lambda>_. time)) c1 i
                      else upd_conn (direct_lastrecv_timev6_update (\<lambda>_. time)) c1 i)
             else (False, c1))"

section \<open>What sending leaves alone\<close>

text \<open>A connection without the fields that sending a packet changes.\<close>

definition unsent :: "Crypto_Connection \<Rightarrow> Crypto_Connection" where
  "unsent k = k\<lparr>sent_nonce := [], direct_send_attempt_time := 0, last_tcp_sent := 0\<rparr>"

definition same_but_sent :: "Net_Crypto \<Rightarrow> Net_Crypto \<Rightarrow> bool" where
  "same_but_sent c c' \<longleftrightarrow> map unsent (crypto_connections c') = map unsent (crypto_connections c) \<and>
     ip_port_list c' = ip_port_list c \<and> nc_self_public_key c' = nc_self_public_key c \<and>
     nc_self_secret_key c' = nc_self_secret_key c \<and> secret_symmetric_key c' = secret_symmetric_key c \<and> nc_dht c' = nc_dht c"

lemma same_but_sent_refl [simp, intro]: "same_but_sent c c"
  by (simp add: same_but_sent_def)

lemma same_but_sent_trans [trans]: "same_but_sent a b \<Longrightarrow> same_but_sent b c \<Longrightarrow> same_but_sent a c"
  by (simp add: same_but_sent_def)

lemma same_but_sent_log [simp]: "same_but_sent c (log_event e c') = same_but_sent c c'"
  by (simp add: same_but_sent_def log_event_def)

lemma same_but_sent_length: "same_but_sent c c' \<Longrightarrow> length (crypto_connections c') = length (crypto_connections c)"
  unfolding same_but_sent_def by (metis length_map)

lemma same_but_sent_nth:
  "same_but_sent c c' \<Longrightarrow> i < length (crypto_connections c) \<Longrightarrow> unsent (crypto_connections c' ! i) = unsent (crypto_connections c ! i)"
  using same_but_sent_length unfolding same_but_sent_def by (metis nth_map)

lemma map_list_update_same: "g y = g (xs ! i) \<Longrightarrow> map g (xs[i := y]) = map g xs"
  by (metis list_update_id map_update)

lemma same_but_sent_upd:
  assumes "\<And>k. unsent (f k) = unsent k"
  shows "same_but_sent c (upd_conn f c i)"
proof -
  have "map unsent ((crypto_connections c)[i := f (crypto_connections c ! i)]) = map unsent (crypto_connections c)"
    by (rule map_list_update_same) (rule assms)
  then show ?thesis by (simp add: same_but_sent_def upd_conn_def)
qed

lemma same_but_sent_upd_iff:
  assumes "\<And>k. unsent (f k) = unsent k"
  shows "same_but_sent c (upd_conn f c' i) = same_but_sent c c'"
  using same_but_sent_upd [OF assms, of c' i] by (simp add: same_but_sent_def)

lemma unsent_simps [simp]:
  "unsent (k\<lparr>direct_send_attempt_time := a\<rparr>) = unsent k" "unsent (k\<lparr>last_tcp_sent := a\<rparr>) = unsent k"
  "unsent (k\<lparr>sent_nonce := n\<rparr>) = unsent k" "unsent (unsent k) = unsent k"
  "unsent (sent_nonce_update f k) = unsent k"
  by (simp_all add: unsent_def)

lemma unsent_eqD:
  assumes "unsent k = unsent k'"
  shows "conn_stat k = conn_stat k'" "recv_nonce k = recv_nonce k'" "cc_shared_key k = cc_shared_key k'"
    "send_array k = send_array k'" "recv_array k = recv_array k'" "ip_portv4 k = ip_portv4 k'" "ip_portv6 k = ip_portv6 k'"
    "cc_public_key k = cc_public_key k'" "cc_dht_public_key k = cc_dht_public_key k'" "sessionsecret_key k = sessionsecret_key k'"
    "sessionpublic_key k = sessionpublic_key k'" "temp_packet k = temp_packet k'" "connection_data_callback k = connection_data_callback k'"
    "maximum_speed_reached k = maximum_speed_reached k'" "packets_left k = packets_left k'"
proof -
  have "g k = g k'" if "\<And>k. g (unsent k) = g k" for g :: "Crypto_Connection \<Rightarrow> 'a"
    using that assms by metis
  note eq = this
  show "conn_stat k = conn_stat k'" by (rule eq) (simp add: unsent_def)
  show "recv_nonce k = recv_nonce k'" by (rule eq) (simp add: unsent_def)
  show "cc_shared_key k = cc_shared_key k'" by (rule eq) (simp add: unsent_def)
  show "send_array k = send_array k'" by (rule eq) (simp add: unsent_def)
  show "recv_array k = recv_array k'" by (rule eq) (simp add: unsent_def)
  show "ip_portv4 k = ip_portv4 k'" by (rule eq) (simp add: unsent_def)
  show "ip_portv6 k = ip_portv6 k'" by (rule eq) (simp add: unsent_def)
  show "cc_public_key k = cc_public_key k'" by (rule eq) (simp add: unsent_def)
  show "cc_dht_public_key k = cc_dht_public_key k'" by (rule eq) (simp add: unsent_def)
  show "sessionsecret_key k = sessionsecret_key k'" by (rule eq) (simp add: unsent_def)
  show "sessionpublic_key k = sessionpublic_key k'" by (rule eq) (simp add: unsent_def)
  show "temp_packet k = temp_packet k'" by (rule eq) (simp add: unsent_def)
  show "connection_data_callback k = connection_data_callback k'" by (rule eq) (simp add: unsent_def)
  show "maximum_speed_reached k = maximum_speed_reached k'" by (rule eq) (simp add: unsent_def)
  show "packets_left k = packets_left k'" by (rule eq) (simp add: unsent_def)
qed

lemma send_packet_to_same: "same_but_sent c (snd (send_packet_to E c i data))"
proof (cases "get_crypto_connection c i")
  case None
  then show ?thesis by (simp add: send_packet_to_def)
next
  case (Some conn)
  have a: "same_but_sent x (upd_conn (last_tcp_sent_update f) y j) = same_but_sent x y"
    "same_but_sent x (upd_conn (direct_send_attempt_time_update f) y j) = same_but_sent x y" for x y j f
    by (rule same_but_sent_upd_iff; simp add: unsent_def)+
  show ?thesis unfolding send_packet_to_def Some Let_def by (simp add: a)
qed

lemma send_packet_to_nonces:
  "map sent_nonce (crypto_connections (snd (send_packet_to E c i data))) = map sent_nonce (crypto_connections c)"
proof -
  have "map sent_nonce (crypto_connections (upd_conn f x j)) = map sent_nonce (crypto_connections x)"
    if "\<And>k. sent_nonce (f k) = sent_nonce k" for f x j
    by (simp add: upd_conn_def) (rule map_list_update_same, rule that)
  then show ?thesis by (auto simp: send_packet_to_def Let_def split: option.split)
qed

lemma send_data_packet_same: "same_but_sent c (snd (send_data_packet E c i data))"
proof -
  have "same_but_sent c (snd (send_packet_to E (upd_conn (sent_nonce_update increment_nonce) c i) i p))" for p
    by (rule same_but_sent_trans [OF same_but_sent_upd send_packet_to_same]) simp
  then show ?thesis by (auto simp: send_data_packet_def Let_def split: option.split)
qed

lemma send_data_packet_helper_same: "same_but_sent c (snd (send_data_packet_helper E c i start num data))"
  using send_data_packet_same by (simp add: send_data_packet_helper_def Let_def)

lemma send_kill_packet_same: "same_but_sent c (snd (send_kill_packet E c i))"
  using send_data_packet_helper_same by (simp add: send_kill_packet_def split: option.split)

lemma get_crypto_connection_upd:
  "get_crypto_connection c i = Some conn \<Longrightarrow> conn_stat (f conn) \<noteq> CRYPTO_CONN_NO_CONNECTION \<Longrightarrow>
     get_crypto_connection (upd_conn f c i) i = Some (f conn)"
  by (auto simp: get_crypto_connection_def crypt_connection_id_not_valid_def split: if_splits)

lemma get_crypto_connection_log [simp]: "get_crypto_connection (log_event e c) i = get_crypto_connection c i"
  by (simp add: get_crypto_connection_def crypt_connection_id_not_valid_def)

lemma clear_temp_packet_length [simp]: "length (crypto_connections (snd (clear_temp_packet c i))) = length (crypto_connections c)"
  by (simp add: clear_temp_packet_def split: option.split)

lemma wipe_crypto_connection_length: "length (crypto_connections (snd (wipe_crypto_connection c i))) \<le> length (crypto_connections c)"
proof -
  have "length (dropWhile P (rev ks)) \<le> length ks" for P and ks :: "Crypto_Connection list"
    using length_dropWhile_le [of P "rev ks"] by simp
  then show ?thesis by (simp add: wipe_crypto_connection_def Let_def) (metis length_list_update)
qed

lemma crypto_kill_length: "length (crypto_connections (snd (crypto_kill E c i))) \<le> length (crypto_connections c)"
proof (cases "get_crypto_connection c i")
  case None
  then show ?thesis by (simp add: crypto_kill_def)
next
  case (Some conn)
  have k: "length (crypto_connections (snd (send_kill_packet E c i))) = length (crypto_connections c)"
    using send_kill_packet_same same_but_sent_length by blast
  show ?thesis
    unfolding crypto_kill_def Some Let_def option.case
    by (rule order.trans [OF wipe_crypto_connection_length]) (simp add: k)
qed

lemma connection_kill_length: "length (crypto_connections (connection_kill E c i)) \<le> length (crypto_connections c)"
proof (cases "get_crypto_connection c i")
  case None
  then show ?thesis by (simp add: connection_kill_def)
next
  case (Some conn)
  show ?thesis
    unfolding connection_kill_def Some Let_def option.case
    by (rule order.trans [OF crypto_kill_length]) (simp split: option.split prod.split)
qed

text \<open>Trimming the array keeps the connections in use where they are.\<close>

lemma trim_split: "\<exists>rest. ks = rev (dropWhile P (rev ks)) @ rest \<and> (\<forall>k\<in>set rest. P k)"
proof (intro exI conjI)
  have "rev ks = takeWhile P (rev ks) @ dropWhile P (rev ks)" by simp
  then show "ks = rev (dropWhile P (rev ks)) @ rev (takeWhile P (rev ks))" by (metis rev_append rev_rev_ident)
  show "\<forall>k\<in>set (rev (takeWhile P (rev ks))). P k" by (auto dest: set_takeWhileD)
qed

lemma trim_nth:
  assumes "i < length ks" and "\<not> P (ks ! i)"
  shows "i < length (rev (dropWhile P (rev ks))) \<and> rev (dropWhile P (rev ks)) ! i = ks ! i"
proof -
  define ks' where "ks' = rev (dropWhile P (rev ks))"
  obtain rest where r: "ks = ks' @ rest" "\<forall>k\<in>set rest. P k" using trim_split [of ks P] by (auto simp: ks'_def)
  have "i < length ks'"
  proof (rule ccontr)
    assume "\<not> i < length ks'"
    then have "ks ! i \<in> set rest" using assms(1) r(1) by (metis in_set_conv_nth length_append nat_add_left_cancel_less not_less le_Suc_ex nth_append_length_plus)
    then show False using r(2) assms(2) by blast
  qed
  moreover have "ks' ! i = ks ! i" using calculation by (subst r(1)) (simp add: nth_append)
  ultimately show ?thesis by (simp only: ks'_def)
qed

lemma wipe_crypto_connection_get:
  assumes "get_crypto_connection c i = Some conn"
  shows "get_crypto_connection (snd (wipe_crypto_connection c i)) i = None"
    and "j \<noteq> i \<Longrightarrow> get_crypto_connection (snd (wipe_crypto_connection c i)) j = get_crypto_connection c j"
proof -
  let ?P = "\<lambda>k. conn_stat k = CRYPTO_CONN_NO_CONNECTION"
  let ?ks = "(crypto_connections c)[i := conn_zero]"
  define ks where "ks = rev (dropWhile ?P (rev ?ks))"
  have i: "i < length (crypto_connections c)" "\<not> crypt_connection_id_not_valid c i"
    using assms by (auto simp: get_crypto_connection_def crypt_connection_id_not_valid_def split: if_splits)
  then have w: "snd (wipe_crypto_connection c i) = c\<lparr>crypto_connections := ks\<rparr>" by (simp add: wipe_crypto_connection_def ks_def)
  obtain rest where r: "?ks = ks @ rest" using trim_split [of ?ks ?P] by (auto simp: ks_def)
  have nth: "ks ! n = ?ks ! n" if "n < length ks" for n using that r by (simp add: nth_append)
  have le: "length ks \<le> length (crypto_connections c)" using arg_cong [OF r, of length] by simp
  show "get_crypto_connection (snd (wipe_crypto_connection c i)) i = None"
    unfolding w using nth [of i] i(1) by (simp add: get_crypto_connection_def crypt_connection_id_not_valid_def conn_zero_def)
  assume ne: "j \<noteq> i"
  show "get_crypto_connection (snd (wipe_crypto_connection c i)) j = get_crypto_connection c j"
  proof (cases "j < length (crypto_connections c) \<and> conn_stat (crypto_connections c ! j) \<noteq> CRYPTO_CONN_NO_CONNECTION")
    case True
    then have "j < length ks \<and> ks ! j = ?ks ! j" unfolding ks_def using ne by (intro trim_nth) auto
    then show ?thesis unfolding w using True ne by (simp add: get_crypto_connection_def crypt_connection_id_not_valid_def)
  next
    case False
    then have "j < length ks \<Longrightarrow> conn_stat (ks ! j) = CRYPTO_CONN_NO_CONNECTION" using nth [of j] ne le by auto
    then show ?thesis unfolding w using False by (auto simp: get_crypto_connection_def crypt_connection_id_not_valid_def)
  qed
qed

text \<open>
  The connection a number stands for, without the fields that sending changes: the view in which
  the operations on one connection do not interfere with the others.
\<close>

definition conn_view :: "Net_Crypto \<Rightarrow> nat \<Rightarrow> Crypto_Connection option" where
  "conn_view c i = map_option unsent (get_crypto_connection c i)"

lemma conn_view_same: "same_but_sent c c' \<Longrightarrow> conn_view c' i = conn_view c i"
proof -
  assume s: "same_but_sent c c'"
  have l: "length (crypto_connections c') = length (crypto_connections c)" using s by (rule same_but_sent_length)
  show ?thesis
  proof (cases "i < length (crypto_connections c)")
    case True
    then show ?thesis using same_but_sent_nth [OF s True] unsent_eqD(1) [OF same_but_sent_nth [OF s True]] l
      by (simp add: conn_view_def get_crypto_connection_def crypt_connection_id_not_valid_def)
  qed (simp add: conn_view_def get_crypto_connection_def crypt_connection_id_not_valid_def l)
qed

lemma conn_view_log [simp]: "conn_view (log_event e c) i = conn_view c i"
  by (simp add: conn_view_def)

lemma conn_view_upd_other [simp]: "j \<noteq> i \<Longrightarrow> conn_view (upd_conn f c i) j = conn_view c j"
  by (simp add: conn_view_def get_crypto_connection_def crypt_connection_id_not_valid_def upd_conn_def)

lemma conn_view_list [simp]: "conn_view (c\<lparr>ip_port_list := l\<rparr>) j = conn_view c j"
  by (simp add: conn_view_def get_crypto_connection_def crypt_connection_id_not_valid_def)

lemma get_crypto_connection_list [simp]: "get_crypto_connection (c\<lparr>ip_port_list := l\<rparr>) j = get_crypto_connection c j"
  by (simp add: get_crypto_connection_def crypt_connection_id_not_valid_def)

lemma conn_view_SomeE:
  assumes "conn_view c i = Some u"
  obtains conn where "get_crypto_connection c i = Some conn" "unsent conn = u"
  using assms by (auto simp: conn_view_def)

text \<open>Killing a connection removes it and leaves every other one.\<close>

lemma crypto_kill_view:
  assumes conn: "get_crypto_connection c i = Some conn"
  shows "conn_view (snd (crypto_kill E c i)) = (conn_view c)(i := None)"
    and "ip_port_list (snd (crypto_kill E c i)) =
      snd (bs_remove_op (ev_bs E) (snd (bs_remove_op (ev_bs E) (ip_port_list c) (ev_image E (ip_portv4 conn)) (int i)))
        (ev_image E (ip_portv6 conn)) (int i))"
proof -
  define c1 where "c1 = (if conn_stat conn = CRYPTO_CONN_ESTABLISHED then snd (send_kill_packet E c i) else c)"
  define l where "l = snd (bs_remove_op (ev_bs E) (snd (bs_remove_op (ev_bs E) (ip_port_list c) (ev_image E (ip_portv4 conn)) (int i)))
        (ev_image E (ip_portv6 conn)) (int i))"
  define c2 where "c2 = (log_event (KillTcp (connection_number_tcp conn)) c1)\<lparr>ip_port_list := l\<rparr>"
  have s: "same_but_sent c c1" by (simp add: c1_def send_kill_packet_same)
  have lst: "ip_port_list (log_event e c1) = ip_port_list c" for e using s by (simp add: same_but_sent_def log_event_def)
  have v2: "conn_view c2 j = conn_view c j" for j using conn_view_same [OF s] by (simp add: c2_def)
  then have "conn_view c2 i = Some (unsent conn)" using conn by (simp add: conn_view_def)
  then obtain k where k: "get_crypto_connection c2 i = Some k" by (rule conn_view_SomeE)
  have st: "conn_stat k \<noteq> CRYPTO_CONN_NO_CONNECTION" using get_crypto_connectionD [OF k] by blast
  define c3 where "c3 = upd_conn (\<lambda>k. k\<lparr>temp_packet := None, temp_packet_sent_time := 0, temp_packet_num_sent := 0\<rparr>) c2 i"
  define c4 where "c4 = upd_conn (send_array_update clear_buffer) c3 i"
  define c5 where "c5 = upd_conn (recv_array_update clear_buffer) c4 i"
  have c3: "snd (clear_temp_packet c2 i) = c3" using k by (simp add: clear_temp_packet_def c3_def)
  have g3: "get_crypto_connection c3 i = Some (k\<lparr>temp_packet := None, temp_packet_sent_time := 0, temp_packet_num_sent := 0\<rparr>)"
    unfolding c3_def using k st by (intro get_crypto_connection_upd) simp_all
  have g4: "get_crypto_connection c4 i = Some (send_array_update clear_buffer (k\<lparr>temp_packet := None, temp_packet_sent_time := 0, temp_packet_num_sent := 0\<rparr>))"
    unfolding c4_def using st by (intro get_crypto_connection_upd [OF g3]) simp
  have g5: "get_crypto_connection c5 i \<noteq> None"
    unfolding c5_def using st get_crypto_connection_upd [OF g4, of "recv_array_update clear_buffer"] by simp
  then obtain k5 where g5: "get_crypto_connection c5 i = Some k5" by blast
  have kill: "crypto_kill E c i = wipe_crypto_connection c5 i"
    unfolding crypto_kill_def conn Let_def option.case lst l_def [symmetric] c1_def [symmetric] c2_def [symmetric] c3
    by (simp add: c4_def c5_def)
  have "conn_view (snd (crypto_kill E c i)) j = ((conn_view c)(i := None)) j" for j
  proof (cases "j = i")
    case True
    then show ?thesis using wipe_crypto_connection_get(1) [OF g5] kill by (simp add: conn_view_def)
  next
    case False
    then have "conn_view (snd (crypto_kill E c i)) j = conn_view c5 j"
      using wipe_crypto_connection_get(2) [OF g5 False] kill by (simp add: conn_view_def)
    also have "\<dots> = conn_view c j" using False v2 by (simp add: c5_def c4_def c3_def)
    finally show ?thesis using False by simp
  qed
  then show "conn_view (snd (crypto_kill E c i)) = (conn_view c)(i := None)" by blast
  have "ip_port_list (snd (wipe_crypto_connection x i)) = ip_port_list x" for x by (simp add: wipe_crypto_connection_def Let_def)
  then show "ip_port_list (snd (crypto_kill E c i)) = l" unfolding kill by (simp add: c5_def c4_def c3_def c2_def upd_conn_def)
qed

section \<open>Entry points\<close>

definition tcp_data_callback :: "nc_env \<Rightarrow> Net_Crypto \<Rightarrow> nat \<Rightarrow> bytes \<Rightarrow> int \<times> Net_Crypto" where
  "tcp_data_callback E c i data =
     (if length data = 0 \<or> length data > MAX_CRYPTO_PACKET_SIZE then (- 1, c)
      else case get_crypto_connection c i of
        None \<Rightarrow> (- 1, c)
      | Some conn \<Rightarrow>
          if data ! 0 = NET_PACKET_COOKIE_REQUEST then
            let (ret, c1, evs) = tcp_handle_cookie_request (ev_nacl E) (ev_unix E) (ev_nonce1 E) (ev_nonce2 E) (ev_tcp_ret E) c
                                   (connection_number_tcp conn) data
            in (ret, c1\<lparr>nc_log := nc_log c1 @ evs\<rparr>)
          else
            let (ok, c1) = handle_packet_connection E c i data False
            in (if ok then 0 else - 1, c1))"

definition tcp_oob_callback :: "nc_env \<Rightarrow> Net_Crypto \<Rightarrow> bytes \<Rightarrow> nat \<Rightarrow> bytes \<Rightarrow> int \<times> Net_Crypto" where
  "tcp_oob_callback E c public_key tcp_connections_number data =
     (if length data = 0 \<or> length data > MAX_CRYPTO_PACKET_SIZE then (- 1, c)
      else if data ! 0 = NET_PACKET_COOKIE_REQUEST then
        let (ret, c1, evs) = tcp_oob_handle_cookie_request (ev_nacl E) (ev_unix E) (ev_nonce1 E) (ev_nonce2 E) (ev_tcp_ret E) c
                               tcp_connections_number public_key data
        in (ret, c1\<lparr>nc_log := nc_log c1 @ evs\<rparr>)
      else if data ! 0 = NET_PACKET_CRYPTO_HS then
        let source = \<lparr>ipp_ip = \<lparr>ip_family = TCP_FAMILY, ip_addr = bytes_le 4 tcp_connections_number @ replicate 12 0\<rparr>, ipp_port = 0\<rparr>;
            (ret, c1) = handle_new_connection_handshake E c source data
        in (if ret \<noteq> 0 then - 1 else 0, c1)
      else (- 1, c))"

text \<open>\<open>None\<close> stands for the search of \<open>bs_list_find\<close> leaving its array, which it does not do.\<close>

definition crypto_id_ip_port :: "nc_env \<Rightarrow> Net_Crypto \<Rightarrow> IP_Port \<Rightarrow> int option" where
  "crypto_id_ip_port E c ipp = bs_list_find (ip_port_list c) (ev_image E ipp)"

definition udp_handle_packet :: "nc_env \<Rightarrow> Net_Crypto \<Rightarrow> IP_Port \<Rightarrow> bytes \<Rightarrow> (int \<times> Net_Crypto) option" where
  "udp_handle_packet E c source packet =
     (if length packet \<le> CRYPTO_MIN_PACKET_SIZE \<or> length packet > MAX_CRYPTO_PACKET_SIZE then Some (1, c)
      else case crypto_id_ip_port E c source of
        None \<Rightarrow> None
      | Some ident \<Rightarrow>
          if ident = - 1 then
            if packet ! 0 \<noteq> NET_PACKET_CRYPTO_HS then Some (1, c)
            else
              let (ret, c1) = handle_new_connection_handshake E c source packet
              in Some (if ret \<noteq> 0 then 1 else 0, c1)
          else
            let (ok, c1) = handle_packet_connection E c (nat ident) packet True
            in if \<not> ok then Some (1, c1)
               else case get_crypto_connection c1 (nat ident) of
                      None \<Rightarrow> Some (- 1, c1)
                    | Some _ \<Rightarrow>
                        Some (0, if ip_family (ipp_ip source) = AF_INET
                                 then upd_conn (direct_lastrecv_timev4_update (\<lambda>_. ev_unix E)) c1 (nat ident)
                                 else upd_conn (direct_lastrecv_timev6_update (\<lambda>_. ev_unix E)) c1 (nat ident)))"

definition connection_status_handler :: "Net_Crypto \<Rightarrow> nat \<Rightarrow> (nat \<times> int) option \<Rightarrow> bool \<times> Net_Crypto" where
  "connection_status_handler c i cb =
     (case get_crypto_connection c i of
        None \<Rightarrow> (False, c) | Some _ \<Rightarrow> (True, upd_conn (connection_status_callback_update (\<lambda>_. cb)) c i))"

definition connection_data_handler :: "Net_Crypto \<Rightarrow> nat \<Rightarrow> (nat \<times> int) option \<Rightarrow> bool \<times> Net_Crypto" where
  "connection_data_handler c i cb =
     (case get_crypto_connection c i of
        None \<Rightarrow> (False, c) | Some _ \<Rightarrow> (True, upd_conn (connection_data_callback_update (\<lambda>_. cb)) c i))"

definition connection_lossy_data_handler :: "Net_Crypto \<Rightarrow> nat \<Rightarrow> (nat \<times> int) option \<Rightarrow> bool \<times> Net_Crypto" where
  "connection_lossy_data_handler c i cb =
     (case get_crypto_connection c i of
        None \<Rightarrow> (False, c) | Some _ \<Rightarrow> (True, upd_conn (connection_lossy_data_callback_update (\<lambda>_. cb)) c i))"

definition nc_dht_pk_callback :: "Net_Crypto \<Rightarrow> nat \<Rightarrow> (nat \<times> int) option \<Rightarrow> bool \<times> Net_Crypto" where
  "nc_dht_pk_callback c i cb =
     (case get_crypto_connection c i of
        None \<Rightarrow> (False, c) | Some _ \<Rightarrow> (True, upd_conn (dht_pk_callback_update (\<lambda>_. cb)) c i))"

definition max_speed_reached :: "nc_env \<Rightarrow> Net_Crypto \<Rightarrow> nat \<Rightarrow> bool \<times> Net_Crypto" where
  "max_speed_reached E c i = (let (ok, c1) = reset_max_speed_reached E c i in (\<not> ok, c1))"

definition crypto_num_free_sendqueue_slots :: "Net_Crypto \<Rightarrow> nat \<Rightarrow> u32" where
  "crypto_num_free_sendqueue_slots c i =
     (case get_crypto_connection c i of
        None \<Rightarrow> 0
      | Some conn \<Rightarrow>
          let max_packets = word_of_nat CRYPTO_PACKET_BUFFER_SIZE - num_packets_array (send_array conn)
          in if packets_left conn < max_packets then packets_left conn else max_packets)"

definition write_cryptpacket :: "nc_env \<Rightarrow> Net_Crypto \<Rightarrow> nat \<Rightarrow> bytes \<Rightarrow> bool \<Rightarrow> u32 option \<times> Net_Crypto" where
  "write_cryptpacket E c i data congestion_control =
     (if length data = 0 then (None, c)
      else if data ! 0 < CRYPTO_RESERVED_PACKETS then (None, c)
      else if data ! 0 \<ge> PACKET_ID_LOSSY_RANGE_START then (None, c)
      else case get_crypto_connection c i of
        None \<Rightarrow> (None, c)
      | Some conn \<Rightarrow>
          if conn_stat conn \<noteq> CRYPTO_CONN_ESTABLISHED then (None, c)
          else if congestion_control \<and> packets_left conn = 0 then (None, c)
          else
            let (ret, c1) = send_lossless_packet E c i data congestion_control
            in case ret of
                 None \<Rightarrow> (None, c1)
               | Some num \<Rightarrow>
                   (Some num, if congestion_control
                              then upd_conn (\<lambda>k. k\<lparr>packets_left := packets_left k - 1,
                                     packets_left_requested := packets_left_requested k - 1, packets_sent := packets_sent k + 1\<rparr>) c1 i
                              else c1))"

definition cryptpacket_received :: "Net_Crypto \<Rightarrow> nat \<Rightarrow> u32 \<Rightarrow> bool" where
  "cryptpacket_received c i packet_number =
     (case get_crypto_connection c i of
        None \<Rightarrow> False
      | Some conn \<Rightarrow>
          let num = buffer_end (send_array conn) - buffer_start (send_array conn);
              num1 = packet_number - buffer_start (send_array conn)
          in num < num1)"

definition send_lossy_cryptpacket :: "nc_env \<Rightarrow> Net_Crypto \<Rightarrow> nat \<Rightarrow> bytes \<Rightarrow> bool \<times> Net_Crypto" where
  "send_lossy_cryptpacket E c i data =
     (if length data = 0 \<or> length data > MAX_CRYPTO_DATA_SIZE then (False, c)
      else if data ! 0 < PACKET_ID_LOSSY_RANGE_START then (False, c)
      else if data ! 0 \<ge> PACKET_ID_LOSSY_RANGE_END then (False, c)
      else case get_crypto_connection c i of
        None \<Rightarrow> (False, c)
      | Some conn \<Rightarrow>
          send_data_packet_helper E c i (buffer_start (recv_array conn)) (buffer_end (send_array conn)) data)"

text \<open>
  The loops of \<open>do_tcp\<close> and \<open>kill_timedout\<close> leave at the first index without a connection. After a
  kill the array may be shorter, which the loop condition sees.
\<close>

function kill_timedout_loop :: "nc_env \<Rightarrow> nat \<Rightarrow> Net_Crypto \<Rightarrow> Net_Crypto" where
  "kill_timedout_loop E i c =
     (if i < length (crypto_connections c) then
        case get_crypto_connection c i of
          None \<Rightarrow> c
        | Some conn \<Rightarrow>
            if conn_stat conn = CRYPTO_CONN_COOKIE_REQUESTING \<or> conn_stat conn = CRYPTO_CONN_HANDSHAKE_SENT \<or>
               conn_stat conn = CRYPTO_CONN_NOT_CONFIRMED
            then if temp_packet_num_sent conn < MAX_NUM_SENDPACKET_TRIES then kill_timedout_loop E (Suc i) c
                 else kill_timedout_loop E (Suc i) (connection_kill E c i)
            else kill_timedout_loop E (Suc i) c
      else c)"
  by pat_completeness auto

termination
proof (relation "measure (\<lambda>(E, i, c). length (crypto_connections c) - i)")
  fix E :: nc_env and i :: nat and c :: Net_Crypto
  assume "i < length (crypto_connections c)"
  then show "((E, Suc i, connection_kill E c i), E, i, c) \<in> measure (\<lambda>(E, i, c). length (crypto_connections c) - i)"
    using connection_kill_length [of E c i] by simp
qed auto

declare kill_timedout_loop.simps [simp del]

definition kill_timedout :: "nc_env \<Rightarrow> Net_Crypto \<Rightarrow> Net_Crypto" where
  "kill_timedout E c = kill_timedout_loop E 0 c"

fun do_tcp_loop :: "nc_env \<Rightarrow> nat \<Rightarrow> nat \<Rightarrow> Net_Crypto \<Rightarrow> Net_Crypto" where
  "do_tcp_loop E i 0 c = c"
| "do_tcp_loop E i (Suc left) c =
     (case get_crypto_connection c i of
        None \<Rightarrow> c
      | Some conn \<Rightarrow>
          do_tcp_loop E (Suc i) left
            (if conn_stat conn = CRYPTO_CONN_ESTABLISHED
             then log_event (TcpStatus (connection_number_tcp conn) (\<not> snd (crypto_connection_status E c i))) c else c))"

text \<open>\<open>do_tcp\<close> after \<open>do_tcp_connections\<close>, which works on the TCP object.\<close>

definition do_tcp :: "nc_env \<Rightarrow> Net_Crypto \<Rightarrow> Net_Crypto" where
  "do_tcp E c = do_tcp_loop E 0 (length (crypto_connections c)) c"

definition save_keys :: "Net_Crypto \<Rightarrow> bytes" where
  "save_keys c = nc_self_public_key c @ nc_self_secret_key c"

text \<open>\<open>base\<close> is \<open>crypto_scalarmult_curve25519_base\<close>.\<close>

definition load_secret_key :: "(bytes \<Rightarrow> bytes) \<Rightarrow> Net_Crypto \<Rightarrow> bytes \<Rightarrow> Net_Crypto" where
  "load_secret_key base c sk = c\<lparr>nc_self_secret_key := sk, nc_self_public_key := base sk\<rparr>"

end
