(* ===== verification/Crypto_Data.thy ===== *)
theory Crypto_Data
  imports Crypto_Conn
begin

text \<open>
  Data packets between two ends of a connection (\<open>toxcore/net_crypto.c\<close>): the two bytes of the
  nonce that a packet carries are enough for the receiver to find the nonce it was encrypted
  with, and a message written on one side reaches the data callback of the other. Two flaws of
  the receiving side and the loops over the connections are recorded.
\<close>

section \<open>The nonce of a packet\<close>

lemma be_val_append: "be_val (xs @ ys) = be_val xs * 256 ^ length ys + be_val ys"
proof (induction ys rule: rev_induct)
  case (snoc y ys)
  have "be_val (xs @ ys @ [y]) = 256 * be_val (xs @ ys) + unat y" using be_val_snoc [of "xs @ ys" y] by simp
  then show ?case using snoc by (simp add: algebra_simps)
qed simp

lemma get_nonce_uint16_mod:
  assumes "length nonce = 24"
  shows "get_nonce_uint16 nonce = word_of_nat (be_val nonce)"
proof -
  let ?l = "read_at nonce 22 2"
  have l: "length ?l = 2" using assms by simp
  have "nonce = take 22 nonce @ ?l" using assms by (simp add: read_at_def)
  then have "be_val nonce = be_val (take 22 nonce) * 65536 + be_val ?l" using be_val_append [of "take 22 nonce" ?l] l by simp
  then have "be_val nonce mod 2 ^ 16 = be_val ?l mod 2 ^ 16" by simp
  then show ?thesis by (simp add: get_nonce_uint16_def word_of_nat_eq_iff take_bit_eq_mod)
qed

lemma word16_of_mod: "word_of_nat (n mod 2 ^ 192) = (word_of_nat n :: u16)"
proof -
  have "n mod 2 ^ 192 mod 2 ^ 16 = n mod 2 ^ 16" by (rule mod_mod_cancel) (simp add: le_imp_power_dvd)
  then show ?thesis by (simp add: word_of_nat_eq_iff take_bit_eq_mod)
qed

lemma nonce_number_steps:
  assumes "length nonce = 24"
  shows "get_nonce_uint16 ((increment_nonce ^^ j) nonce) = word_of_nat (be_val nonce + j)"
  using increment_nonce_funpow [OF assms, of j] get_nonce_uint16_mod word16_of_mod by metis

text \<open>The difference of the two-byte numbers leads from the receiver's nonce to the sender's.\<close>

lemma nonce_found:
  assumes "length n0 = 24" and "r \<le> j" and "j - r < 65536"
  defines "diff \<equiv> get_nonce_uint16 ((increment_nonce ^^ j) n0) - get_nonce_uint16 ((increment_nonce ^^ r) n0)"
  shows "unat diff = j - r"
    and "increment_nonce_number ((increment_nonce ^^ r) n0) (word_of_nat (unat diff)) = (increment_nonce ^^ j) n0"
proof -
  have "diff = word_of_nat (j - r)"
    using assms(2) by (simp add: diff_def nonce_number_steps [OF assms(1)] of_nat_diff)
  then show d: "unat diff = j - r" using assms(3) by (simp add: unat_word_of_nat_id del: of_nat_diff)
  have "unat (word_of_nat (j - r) :: u32) = j - r" using assms(3) by (intro unat_word_of_nat_id) simp
  then show "increment_nonce_number ((increment_nonce ^^ r) n0) (word_of_nat (unat diff)) = (increment_nonce ^^ j) n0"
    using increment_nonce_number_funpow [of "(increment_nonce ^^ r) n0" "word_of_nat (j - r)"] increment_nonce_funpow [OF assms(1), of r]
      assms(2) d by (simp add: funpow_add [symmetric, THEN fun_cong, unfolded o_def] del: of_nat_diff)
qed

section \<open>One data packet\<close>

text \<open>What \<open>send_data_packet\<close> hands to \<open>send_packet_to\<close> for a given key and nonce.\<close>

definition data_packet :: "nacl \<Rightarrow> bytes \<Rightarrow> bytes \<Rightarrow> bytes \<Rightarrow> bytes option" where
  "data_packet N key nonce data =
     map_option (\<lambda>enc. [NET_PACKET_CRYPTO_DATA] @ read_at nonce 22 2 @ enc) (encrypt_data_symmetric N key nonce data)"

lemma data_packet_Some:
  assumes "nacl_ok N" and "data \<noteq> []"
  obtains enc where "data_packet N key nonce data = Some ([NET_PACKET_CRYPTO_DATA] @ read_at nonce 22 2 @ enc)"
    and "length enc = length data + 16" and "encrypt_data_symmetric N key nonce data = Some enc"
    and "decrypt_data_symmetric N key nonce enc = Some data"
proof -
  obtain enc where "encrypt_data_symmetric N key nonce data = Some enc" "length enc = length data + 16"
    "decrypt_data_symmetric N key nonce enc = Some data" by (rule encrypt_symmetric_Some [OF assms])
  then show ?thesis using that by (simp add: data_packet_def)
qed

lemma send_data_packet_sends:
  assumes "nacl_ok (ev_nacl E)" and "get_crypto_connection c i = Some conn" and "data \<noteq> []" and "length data \<le> 1381"
  obtains p where "data_packet (ev_nacl E) (cc_shared_key conn) (sent_nonce conn) data = Some p"
    and "send_data_packet E c i data = send_packet_to E (upd_conn (sent_nonce_update increment_nonce) c i) i p"
proof -
  obtain enc where e: "data_packet (ev_nacl E) (cc_shared_key conn) (sent_nonce conn) data =
      Some ([NET_PACKET_CRYPTO_DATA] @ read_at (sent_nonce conn) 22 2 @ enc)"
    "length enc = length data + 16" "encrypt_data_symmetric (ev_nacl E) (cc_shared_key conn) (sent_nonce conn) data = Some enc"
    by (rule data_packet_Some [OF assms(1,3)])
  then show ?thesis using assms that by (simp add: send_data_packet_def)
qed

lemma recv_nonce_update_const: "recv_nonce_update f k = recv_nonce_update (\<lambda>_. f (recv_nonce k)) k" for k :: Crypto_Connection
  by (cases k) simp

lemma handle_data_packet_opens:
  assumes N: "nacl_ok (ev_nacl E)" and conn: "get_crypto_connection c i = Some conn" and n0: "length n0 = 24"
    and r: "recv_nonce conn = (increment_nonce ^^ r) n0" and j: "r \<le> j" "j - r < 65536"
    and data: "data \<noteq> []" "length data \<le> 1381"
    and p: "data_packet (ev_nacl E) (cc_shared_key conn) ((increment_nonce ^^ j) n0) data = Some p"
  shows "handle_data_packet E c i p = (Some data,
    if j - r > 2 * DATA_NUM_THRESHOLD then upd_conn (recv_nonce_update (\<lambda>_. (increment_nonce ^^ (r + DATA_NUM_THRESHOLD)) n0)) c i else c)"
proof -
  let ?n = "(increment_nonce ^^ j) n0"
  obtain enc where e: "p = [NET_PACKET_CRYPTO_DATA] @ read_at ?n 22 2 @ enc" "length enc = length data + 16"
    "decrypt_data_symmetric (ev_nacl E) (cc_shared_key conn) ?n enc = Some data"
    using data_packet_Some [OF N data(1), of "cc_shared_key conn" ?n] p by auto
  have ln: "length ?n = 24" "length (recv_nonce conn) = 24" using increment_nonce_funpow [OF n0] r by auto
  have l2: "length (read_at ?n 22 2) = 2" using ln by simp
  have num: "word_of_nat (be_val (read_at p 1 2)) = get_nonce_uint16 ?n"
    unfolding e(1) get_nonce_uint16_def using l2 by (simp add: read_at_def)
  have d: "drop 3 p = enc" unfolding e(1) using l2 by simp
  have lp: "length p = length data + 19" unfolding e(1) using l2 e(2) by simp
  note found = nonce_found [OF n0 j, folded r]
  have "increment_nonce_number (recv_nonce conn) (word_of_nat DATA_NUM_THRESHOLD) = (increment_nonce ^^ (r + DATA_NUM_THRESHOLD)) n0"
  proof -
    have "increment_nonce_number (recv_nonce conn) (word_of_nat DATA_NUM_THRESHOLD) = (increment_nonce ^^ DATA_NUM_THRESHOLD) (recv_nonce conn)"
      using increment_nonce_number_funpow [OF ln(2), of "word_of_nat DATA_NUM_THRESHOLD"] by simp
    also have "\<dots> = (increment_nonce ^^ (DATA_NUM_THRESHOLD + r)) n0" unfolding r funpow_add by simp
    finally show ?thesis by (simp add: add.commute)
  qed
  moreover have "crypto_connections c ! i = conn" using get_crypto_connectionD [OF conn] by simp
  ultimately show ?thesis
    using conn lp data num d [unfolded numeral_3_eq_3] e(3) found(1) found(2) [simplified]
    by (simp add: handle_data_packet_def Let_def upd_conn_def recv_nonce_update_const [of "\<lambda>n. increment_nonce_number n 21845"])
qed

section \<open>The window of nonces\<close>

fun handle_data_packets :: "nc_env \<Rightarrow> nat \<Rightarrow> bytes list \<Rightarrow> Net_Crypto \<Rightarrow> bytes option list \<times> Net_Crypto" where
  "handle_data_packets E i [] c = ([], c)"
| "handle_data_packets E i (p # ps) c =
     (let (r, c1) = handle_data_packet E c i p; (rs, c2) = handle_data_packets E i ps c1 in (r # rs, c2))"

text \<open>Every packet is at most \<open>DATA_NUM_THRESHOLD\<close> away from the newest one so far.\<close>

fun near_newest :: "nat \<Rightarrow> nat list \<Rightarrow> bool" where
  "near_newest m [] = True"
| "near_newest m (j # js) = (m \<le> j + DATA_NUM_THRESHOLD \<and> j \<le> m + DATA_NUM_THRESHOLD \<and> near_newest (max m j) js)"

lemma handle_data_packets_all:
  assumes N: "nacl_ok (ev_nacl E)" and n0: "length n0 = 24" and key: "cc_shared_key conn = key"
    and conn: "get_crypto_connection c i = Some conn" and r: "recv_nonce conn = (increment_nonce ^^ r) n0"
    and m: "r \<le> m" "m - r \<le> 43690" "r = 0 \<or> r + 21845 \<le> m"
    and near: "near_newest m (map fst jds)" and data: "list_all (\<lambda>(j, d). d \<noteq> [] \<and> length d \<le> 1381) jds"
    and ps: "map Some ps = map (\<lambda>(j, d). data_packet (ev_nacl E) key ((increment_nonce ^^ j) n0) d) jds"
  shows "fst (handle_data_packets E i ps c) = map (\<lambda>(j, d). Some d) jds"
  using key conn r m near data ps
proof (induction jds arbitrary: ps c conn r m)
  case (Cons jd jds)
  obtain j d where jd: "jd = (j, d)" by (cases jd)
  obtain p ps' where p: "ps = p # ps'" "data_packet (ev_nacl E) key ((increment_nonce ^^ j) n0) d = Some p"
    "map Some ps' = map (\<lambda>(j, d). data_packet (ev_nacl E) key ((increment_nonce ^^ j) n0) d) jds"
    using Cons.prems(9) by (cases ps) (auto simp: jd)
  have j: "m \<le> j + 21845" "j \<le> m + 21845" "near_newest (max m j) (map fst jds)" using Cons.prems(7) by (auto simp: jd)
  have rj: "r \<le> j" "j - r < 65536" using j(1,2) Cons.prems(4-6) by linarith+
  have d: "d \<noteq> []" "length d \<le> 1381" using Cons.prems(8) by (auto simp: jd)
  have step: "handle_data_packet E c i p = (Some d,
      if j - r > 2 * DATA_NUM_THRESHOLD then upd_conn (recv_nonce_update (\<lambda>_. (increment_nonce ^^ (r + DATA_NUM_THRESHOLD)) n0)) c i else c)"
    using p(2) Cons.prems(1) by (intro handle_data_packet_opens [OF N Cons.prems(2) n0 Cons.prems(3) rj d]) simp
  have "fst (handle_data_packets E i ps' (snd (handle_data_packet E c i p))) = map (\<lambda>(j, d). Some d) jds"
  proof (cases "j - r > 43690")
    case True
    let ?f = "recv_nonce_update (\<lambda>_. (increment_nonce ^^ (r + 21845)) n0)"
    have "get_crypto_connection (upd_conn ?f c i) i = Some (?f conn)"
      using Cons.prems(2) get_crypto_connectionD [OF Cons.prems(2)] by (intro get_crypto_connection_upd) auto
    then have "fst (handle_data_packets E i ps' (upd_conn ?f c i)) = map (\<lambda>(j, d). Some d) jds"
      using Cons.prems(1,4-6,8) True rj j p(3) by (intro Cons.IH [of "?f conn" _ "r + 21845" "max m j"]) (auto simp: jd)
    then show ?thesis using step True by simp
  next
    case False
    have "fst (handle_data_packets E i ps' c) = map (\<lambda>(j, d). Some d) jds"
      using Cons.prems(1-6,8) False rj j p(3) by (intro Cons.IH [of conn c r "max m j"]) (auto simp: jd)
    then show ?thesis using step False by simp
  qed
  then show ?case using step by (simp add: p(1) jd split_def Let_def)
qed simp

section \<open>A message from one end to the other\<close>

lemma log_upd_conn [simp]: "nc_log (upd_conn f c i) = nc_log c"
  by (simp add: upd_conn_def)

lemma log_log_event [simp]: "nc_log (log_event e c) = nc_log c @ [e]"
  by (simp add: log_event_def)

lemma log_update_rtt [simp]: "nc_log (update_rtt E t c i) = nc_log c"
  by (simp add: update_rtt_def Let_def)

text \<open>When no callback kills the connection, the delivery loop ends normally and only appends to the log.\<close>

lemma deliver_loop_runs:
  assumes "ev_data_kills E = (\<lambda>_. False)" and "get_crypto_connection c i = Some conn"
  shows "\<exists>c' es. deliver_loop E i c = (True, c') \<and> nc_log c' = nc_log c @ es"
  using assms
proof (induction E i c arbitrary: conn rule: deliver_loop.induct)
  case (1 E i c)
  show ?case
  proof (cases "read_data_beg_buffer (recv_array conn)")
    case (Pair r arr)
    show ?thesis
    proof (cases r)
      case None
      then show ?thesis using 1(3) Pair by (subst deliver_loop.simps) simp
    next
      case (Some nd)
      obtain number d where nd: "nd = (number, d)" by (cases nd)
      let ?c1 = "upd_conn (recv_array_update (\<lambda>_. arr)) c i"
      let ?c2 = "case connection_data_callback conn of None \<Rightarrow> ?c1 | Some (object, ident) \<Rightarrow> log_event (DataCallback object ident (pd_data d)) ?c1"
      have st: "conn_stat conn \<noteq> CRYPTO_CONN_NO_CONNECTION" using get_crypto_connectionD [OF 1(3)] by blast
      have "get_crypto_connection ?c1 i = Some (conn\<lparr>recv_array := arr\<rparr>)"
        using 1(3) st by (intro get_crypto_connection_upd) simp_all
      then have "get_crypto_connection ?c2 i = Some (conn\<lparr>recv_array := arr\<rparr>)" by (simp split: option.split prod.split)
      then have "\<exists>c' es. deliver_loop E i ?c2 = (True, c') \<and> nc_log c' = nc_log ?c2 @ es" if "number \<noteq> - 1"
        using 1(1) [OF 1(3) Pair [symmetric] Some [unfolded nd] refl refl that refl _ 1(2)] 1(2) by simp
      moreover have "\<exists>es. nc_log ?c2 = nc_log c @ es" by (simp split: option.split prod.split)
      moreover have "deliver_loop E i c = (if number = - 1 then (True, ?c1) else deliver_loop E i ?c2)"
        using 1(2,3) Pair Some nd by (subst deliver_loop.simps) (simp add: Let_def)
      ultimately show ?thesis by fastforce
    qed
  qed
qed

lemma deliver_loop_first:
  assumes kills: "ev_data_kills E = (\<lambda>_. False)" and conn: "get_crypto_connection c i = Some conn"
    and cb: "connection_data_callback conn = Some (object, ident)" and ok: "array_ok (recv_array conn)"
    and at: "packet_at (recv_array conn) (buffer_start (recv_array conn)) = Some d" and num: "buffer_start (recv_array conn) \<noteq> - 1"
  shows "\<exists>c' es. deliver_loop E i c = (True, c') \<and> nc_log c' = nc_log c @ DataCallback object ident (pd_data d) # es"
proof -
  obtain arr where rd: "read_data_beg_buffer (recv_array conn) = (Some (buffer_start (recv_array conn), d), arr)"
    using read_data_beg_spec [OF ok] at by auto
  let ?c2 = "log_event (DataCallback object ident (pd_data d)) (upd_conn (recv_array_update (\<lambda>_. arr)) c i)"
  have "conn_stat conn \<noteq> CRYPTO_CONN_NO_CONNECTION" using get_crypto_connectionD [OF conn] by blast
  then have "get_crypto_connection (upd_conn (recv_array_update (\<lambda>_. arr)) c i) i = Some (conn\<lparr>recv_array := arr\<rparr>)"
    using conn by (intro get_crypto_connection_upd) simp_all
  then have "get_crypto_connection ?c2 i = Some (conn\<lparr>recv_array := arr\<rparr>)" by simp
  from deliver_loop_runs [OF kills this] show ?thesis
    using conn rd num cb kills by (subst deliver_loop.simps) (auto simp: Let_def)
qed

lemma get_crypto_connectionI:
  "i < length (crypto_connections c) \<Longrightarrow> conn_stat (crypto_connections c ! i) \<noteq> CRYPTO_CONN_NO_CONNECTION \<Longrightarrow>
     get_crypto_connection c i = Some (crypto_connections c ! i)"
  by (simp add: get_crypto_connection_def crypt_connection_id_not_valid_def)

lemma confirm_connection_conn:
  assumes conn: "get_crypto_connection c i = Some conn"
  obtains k es where "get_crypto_connection (confirm_connection c i) i = Some k" and "crypto_connections (confirm_connection c i) ! i = k"
    and "recv_array k = recv_array conn" "send_array k = send_array conn" "connection_data_callback k = connection_data_callback conn"
    and "nc_log (confirm_connection c i) = nc_log c @ es"
proof -
  have i: "i < length (crypto_connections c)" "crypto_connections c ! i = conn" "conn_stat conn \<noteq> CRYPTO_CONN_NO_CONNECTION"
    using get_crypto_connectionD [OF conn] by auto
  show ?thesis
  proof (cases "conn_stat conn = CRYPTO_CONN_NOT_CONFIRMED")
    case False
    then show ?thesis using that [of conn "[]"] conn i by (simp add: confirm_connection_def)
  next
    case True
    let ?c1 = "snd (clear_temp_packet c i)"
    let ?c2 = "upd_conn (conn_stat_update (\<lambda>_. CRYPTO_CONN_ESTABLISHED)) ?c1 i"
    let ?k = "conn\<lparr>temp_packet := None, temp_packet_sent_time := 0, temp_packet_num_sent := 0, conn_stat := CRYPTO_CONN_ESTABLISHED\<rparr>"
    have c2: "crypto_connections ?c2 ! i = ?k" "length (crypto_connections ?c2) = length (crypto_connections c)" "nc_log ?c2 = nc_log c"
      using i conn by (simp_all add: clear_temp_packet_def)
    then have g: "get_crypto_connection ?c2 i = Some ?k" using i(1) get_crypto_connectionI [of i ?c2] by simp
    show ?thesis
    proof (cases "connection_status_callback conn")
      case None
      then show ?thesis using that [of ?k "[]"] True i(2) c2 g by (simp add: confirm_connection_def Let_def)
    next
      case (Some cb)
      then show ?thesis using that [of ?k "[StatusCallback (fst cb) (snd cb) True]"] True i(2) c2 g
        by (simp add: confirm_connection_def Let_def split_def)
    qed
  qed
qed

text \<open>A payload for the next packet number goes straight to the data callback.\<close>

lemma real_data_delivered:
  assumes kills: "ev_data_kills E = (\<lambda>_. False)" and alloc: "ev_alloc E" and conn: "get_crypto_connection c i = Some conn"
    and cb: "connection_data_callback conn = Some (object, ident)" and ok: "array_ok (recv_array conn)"
    and num: "num = buffer_start (recv_array conn)" "num \<noteq> - 1" "packet_at (recv_array conn) num = None"
    and data: "data \<noteq> []" "16 \<le> data ! 0" "data ! 0 < 192"
  shows "\<exists>c' es. handle_real_data E c i udp num t data = (True, c') \<and>
    nc_log c' = nc_log c @ es \<and> DataCallback object ident data \<in> set es"
proof -
  obtain x xs where x: "data = x # xs" "16 \<le> x" "x < 192" using data by (cases data) auto
  have nx: "x \<noteq> 2" "x \<noteq> 1" using x(2) by (auto simp: word_le_nat_alt)
  obtain k es where k: "get_crypto_connection (confirm_connection c i) i = Some k" "crypto_connections (confirm_connection c i) ! i = k"
    "recv_array k = recv_array conn" "connection_data_callback k = connection_data_callback conn"
    "nc_log (confirm_connection c i) = nc_log c @ es" by (rule confirm_connection_conn [OF conn])
  have nr: "unat (num - buffer_start (recv_array conn)) < 32768" using num(1) by simp
  obtain arr where add: "add_data_to_buffer True (recv_array conn) num \<lparr>sent_time = 0, pd_data = data\<rparr> = (True, arr)"
    "array_ok arr" "buffer_start arr = num" "packet_at arr num = Some \<lparr>sent_time = 0, pd_data = data\<rparr>"
    using add_data_spec [OF ok nr, of True "\<lparr>sent_time = 0, pd_data = data\<rparr>"] num by auto
  let ?c2 = "upd_conn (recv_array_update (\<lambda>_. arr)) (confirm_connection c i) i"
  have "conn_stat k \<noteq> CRYPTO_CONN_NO_CONNECTION" using get_crypto_connectionD [OF k(1)] by blast
  then have g: "get_crypto_connection ?c2 i = Some (k\<lparr>recv_array := arr\<rparr>)" using k(1) by (intro get_crypto_connection_upd) simp_all
  obtain c3 es2 where d: "deliver_loop E i ?c2 = (True, c3)" "nc_log c3 = nc_log ?c2 @ DataCallback object ident data # es2"
    using deliver_loop_first [OF kills g, of object ident "\<lparr>sent_time = 0, pd_data = data\<rparr>"] cb k(4) add num by auto
  have "handle_real_data E c i udp num t data = (True, update_rtt E t (upd_conn (packet_counter_update (\<lambda>n. n + 1)) c3 i) i)"
    using x nx k(2,3) alloc add(1) d(1) by (simp add: handle_real_data_def Let_def)
  then show ?thesis using d(2) k(5) by auto
qed

lemma packet_fields:
  fixes start num :: u32 and p :: nat
  assumes "data \<noteq> []" and "data ! 0 \<noteq> 0"
  defines "plain \<equiv> bytes_be 4 (unat start) @ bytes_be 4 (unat num) @ replicate p 0 @ data"
  shows "word_of_nat (be_val (read_at plain 0 4)) = start" "word_of_nat (be_val (read_at plain 4 4)) = num"
    "dropWhile (\<lambda>b. b = 0) (drop 8 plain) = data"
proof -
  have w: "word_of_nat (be_val (bytes_be 4 (unat w))) = w" for w :: u32
  proof -
    have "unat w < 256 ^ 4" using unsigned_less [of w] by simp
    then show ?thesis by simp
  qed
  show "word_of_nat (be_val (read_at plain 0 4)) = start" using w [of start] by (simp add: plain_def read_at_def)
  show "word_of_nat (be_val (read_at plain 4 4)) = num" using w [of num] by (simp add: plain_def read_at_def)
  obtain x xs where "data = x # xs" "x \<noteq> 0" using assms(1,2) by (cases data) auto
  moreover have "dropWhile (\<lambda>b. b = 0) (replicate p 0 @ data) = dropWhile (\<lambda>b. b = 0) data" by (rule dropWhile_append2) auto
  ultimately show "dropWhile (\<lambda>b. b = 0) (drop 8 plain) = data" by (simp add: plain_def)
qed

text \<open>The receiving end: the packet is opened, its header agrees with the arrays, the payload is delivered.\<close>

lemma payload_received:
  assumes N: "nacl_ok (ev_nacl E)" and kills: "ev_data_kills E = (\<lambda>_. False)" and alloc: "ev_alloc E"
    and conn: "get_crypto_connection c i = Some b" and st: "conn_stat b = CRYPTO_CONN_NOT_CONFIRMED \<or> conn_stat b = CRYPTO_CONN_ESTABLISHED"
    and cb: "connection_data_callback b = Some (object, ident)" and ok: "array_ok (recv_array b)"
    and num: "num = buffer_start (recv_array b)" "num \<noteq> - 1" "packet_at (recv_array b) num = None"
    and data: "data \<noteq> []" "16 \<le> data ! 0" "data ! 0 < 192" "length data \<le> MAX_CRYPTO_DATA_SIZE"
    and nonce: "length (recv_nonce b) = 24" "j < 65536"
    and plain: "plain = bytes_be 4 (unat (buffer_start (send_array b))) @ bytes_be 4 (unat num) @
      replicate ((MAX_CRYPTO_DATA_SIZE - length data) mod CRYPTO_MAX_PADDING) 0 @ data"
    and p: "data_packet (ev_nacl E) (cc_shared_key b) ((increment_nonce ^^ j) (recv_nonce b)) plain = Some p"
  shows "\<exists>c' es. handle_packet_connection E c i p udp = (True, c') \<and> nc_log c' = nc_log c @ es \<and> DataCallback object ident data \<in> set es"
proof -
  have pad: "(1373 - length data) mod 8 \<le> 1373 - length data" by (rule mod_less_eq_dividend)
  then have lp: "plain \<noteq> []" "length plain \<le> 1381" "8 < length plain" using data(1,4) plain by (cases data; simp)+
  obtain enc where e: "p = [NET_PACKET_CRYPTO_DATA] @ read_at ((increment_nonce ^^ j) (recv_nonce b)) 22 2 @ enc" "length enc = length plain + 16"
    using data_packet_Some [OF N lp(1), of "cc_shared_key b" "(increment_nonce ^^ j) (recv_nonce b)"] p by auto
  have l2: "length (read_at ((increment_nonce ^^ j) (recv_nonce b)) 22 2) = 2" using increment_nonce_funpow [OF nonce(1), of j] by simp
  have len: "length p = length plain + 19" "p ! 0 = NET_PACKET_CRYPTO_DATA" unfolding e(1) using l2 e(2) by simp_all
  obtain c1 where h: "handle_data_packet E c i p = (Some plain, c1)" and c1: "c1 = c \<or> (\<exists>n. c1 = upd_conn (recv_nonce_update (\<lambda>_. n)) c i)"
    using handle_data_packet_opens [OF N conn nonce(1) _ _ _ lp(1,2) p, of 0] nonce(2) by (cases "43690 < j") auto
  have i: "i < length (crypto_connections c)" "crypto_connections c ! i = b" "conn_stat b \<noteq> CRYPTO_CONN_NO_CONNECTION"
    using get_crypto_connectionD [OF conn] by auto
  define b1 where "b1 = crypto_connections c1 ! i"
  have b1: "send_array b1 = send_array b" "recv_array b1 = recv_array b" "connection_data_callback b1 = connection_data_callback b"
    "conn_stat b1 = conn_stat b" "i < length (crypto_connections c1)" "nc_log c1 = nc_log c" using c1 i by (auto simp: b1_def)
  let ?c2 = "upd_conn (send_array_update (\<lambda>_. send_array b)) c1 i"
  have g: "get_crypto_connection ?c2 i = Some (b1\<lparr>send_array := send_array b\<rparr>)"
    using b1(4,5) i(3) get_crypto_connectionI [of i ?c2] by (simp add: b1_def)
  have d0: "data ! 0 \<noteq> 0" using data(2) by (auto simp: word_le_nat_alt)
  note f = packet_fields [OF data(1) d0, of "buffer_start (send_array b)" num "(1373 - length data) mod 8", folded plain]
  obtain c' es where r: "handle_real_data E ?c2 i udp num 0 data = (True, c')" "nc_log c' = nc_log ?c2 @ es" "DataCallback object ident data \<in> set es"
    using real_data_delivered [OF kills alloc g, of object ident num data udp 0] b1 cb ok num data(1-3) by auto
  have "handle_data_packet_helper E c i p udp = handle_real_data E ?c2 i udp num 0 data"
    using len lp(2,3) conn h f b1(1) by (simp add: handle_data_packet_helper_def Let_def b1_def)
  then show ?thesis
    using r b1(6) len lp(2) conn st by (auto simp: handle_packet_connection_def)
qed

text \<open>The sending end: \<open>write_cryptpacket\<close> puts the packet on the wire.\<close>

definition on_wire :: "bytes \<Rightarrow> Net_Crypto \<Rightarrow> Net_Crypto \<Rightarrow> bool" where
  "on_wire p c c' \<longleftrightarrow> (\<exists>es. nc_log c' = nc_log c @ es \<and> ((\<exists>ipp. SendUdp ipp p \<in> set es) \<or> (\<exists>n. SendTcp n p \<in> set es)))"

lemma send_packet_to_wire: "get_crypto_connection c i \<noteq> None \<Longrightarrow> on_wire p c (snd (send_packet_to E c i p))"
  by (auto simp: send_packet_to_def Let_def on_wire_def)

lemma write_cryptpacket_sends:
  assumes N: "nacl_ok (ev_nacl E)" and alloc: "ev_alloc E" and conn: "get_crypto_connection c i = Some a"
    and st: "conn_stat a = CRYPTO_CONN_ESTABLISHED" "\<not> maximum_speed_reached a" "packets_left a \<noteq> 0"
    and ok: "array_ok (send_array a)" "window (send_array a) < 32768"
    and data: "data \<noteq> []" "16 \<le> data ! 0" "data ! 0 < 192" "length data \<le> MAX_CRYPTO_DATA_SIZE"
    and plain: "plain = bytes_be 4 (unat (buffer_start (recv_array a))) @ bytes_be 4 (unat (buffer_end (send_array a))) @
      replicate ((MAX_CRYPTO_DATA_SIZE - length data) mod CRYPTO_MAX_PADDING) 0 @ data"
  shows "\<exists>c' p. write_cryptpacket E c i data congestion_control = (Some (buffer_end (send_array a)), c') \<and>
    data_packet (ev_nacl E) (cc_shared_key a) (sent_nonce a) plain = Some p \<and> on_wire p c c'"
proof -
  have i: "i < length (crypto_connections c)" "crypto_connections c ! i = a" "conn_stat a \<noteq> CRYPTO_CONN_NO_CONNECTION"
    using get_crypto_connectionD [OF conn] by auto
  have r: "reset_max_speed_reached E c i = (True, c)" using conn st(2) by (simp add: reset_max_speed_reached_def)
  let ?num = "buffer_end (send_array a)"
  obtain arr where add: "add_data_end_of_buffer True (send_array a) \<lparr>sent_time = 0, pd_data = data\<rparr> = (Some ?num, arr)"
    using add_data_end_spec [OF ok, of True] by blast
  let ?c2 = "upd_conn (send_array_update (\<lambda>_. arr)) c i"
  have g: "get_crypto_connection ?c2 i = Some (a\<lparr>send_array := arr\<rparr>)" using conn i(3) by (intro get_crypto_connection_upd) simp_all
  have pad: "(1373 - length data) mod 8 \<le> 1373 - length data" by (rule mod_less_eq_dividend)
  then have lp: "plain \<noteq> []" "length plain \<le> 1381" using data(1,4) plain by (cases data; simp)+
  obtain p where p: "data_packet (ev_nacl E) (cc_shared_key a) (sent_nonce a) plain = Some p"
    "send_data_packet E ?c2 i plain = send_packet_to E (upd_conn (sent_nonce_update increment_nonce) ?c2 i) i p"
    using send_data_packet_sends [OF N g lp] by auto
  let ?c3 = "upd_conn (sent_nonce_update increment_nonce) ?c2 i"
  have "get_crypto_connection ?c3 i \<noteq> None" using g i(3) get_crypto_connection_upd [of ?c2 i _ "sent_nonce_update increment_nonce"] by simp
  then have w: "on_wire p c (snd (send_packet_to E ?c3 i p))" using send_packet_to_wire [of ?c3 i p E] by (simp add: on_wire_def)
  have h: "send_data_packet_helper E ?c2 i (buffer_start (recv_array a)) ?num data = send_packet_to E ?c3 i p"
    using data(1,4) p(2) plain by (simp add: send_data_packet_helper_def)
  have "\<exists>c'. send_lossless_packet E c i data congestion_control = (Some ?num, c') \<and> nc_log c' = nc_log (snd (send_packet_to E ?c3 i p))"
    using data(1,4) conn r st(2) i(2) alloc add h
    by (auto simp: send_lossless_packet_def Let_def split_def split: data_pointer.split)
  then obtain c' where c': "send_lossless_packet E c i data congestion_control = (Some ?num, c')" "nc_log c' = nc_log (snd (send_packet_to E ?c3 i p))" by blast
  have "on_wire p c c'" using w c'(2) by (simp add: on_wire_def)
  moreover have "\<not> data ! 0 < 16" "\<not> 192 \<le> data ! 0" using data(2,3) by simp_all
  ultimately show ?thesis
    using c'(1) p(1) data(1) conn st by (auto simp: write_cryptpacket_def on_wire_def)
qed

section \<open>The results\<close>

text \<open>
  C5. Two bytes of nonce are enough. Let the sender encrypt its packet \<open>j\<close> with the nonce \<open>n0 + j\<close>,
  \<open>n0\<close> being the nonce the receiver has, and let packets get lost, be repeated and reordered, as
  long as none is more than 21845 away from the newest one received. Then every packet that
  arrives is opened, to the data it was made from: the receiver moves its nonce along in time.
\<close>

theorem nonce_window_follows:
  assumes "nacl_ok (ev_nacl E)" and "get_crypto_connection c i = Some conn" and "length (recv_nonce conn) = crypto_box_NONCEBYTES"
    and "near_newest 0 (map fst jds)" and "list_all (\<lambda>(j, d). d \<noteq> [] \<and> length d \<le> 1381) jds"
    and "map Some ps = map (\<lambda>(j, d). data_packet (ev_nacl E) (cc_shared_key conn) ((increment_nonce ^^ j) (recv_nonce conn)) d) jds"
  shows "fst (handle_data_packets E i ps c) = map (\<lambda>(j, d). Some d) jds"
  using assms(4-6) by (intro handle_data_packets_all [OF assms(1,3) refl assms(2), of 0 0]) simp_all

definition sample_env :: nc_env where
  "sample_env = \<lparr>ev_unix = 1000, ev_mono = 5000, ev_udp = (\<lambda>_ _. True), ev_tcp = (\<lambda>_ _. True), ev_alloc = True,
     ev_bs = \<lparr>data_ok = True, ids_ok = True, fresh_byte = (\<lambda>_. 0), fresh_id = (\<lambda>_. 0)\<rparr>, ev_image = (\<lambda>ipp. [ip_family (ipp_ip ipp)]), ev_nacl = nacl_identity,
     ev_sha512 = (\<lambda>_. replicate 64 0), ev_nonce1 = replicate 24 1, ev_nonce2 = replicate 24 2, ev_random_nonce = replicate 24 3,
     ev_keypair = (replicate 32 4, replicate 32 4), ev_random64 = 9, ev_new_tcp = Some 0, ev_tcp_relay = True, ev_tcp_ret = 0,
     ev_data_kills = (\<lambda>_. False), ev_new_connection = (\<lambda>n c. (0, c))\<rparr>"

definition sample_conn :: Crypto_Connection where
  "sample_conn = conn_zero\<lparr>conn_stat := CRYPTO_CONN_ESTABLISHED, packets_left := 64, connection_data_callback := Some (7, 0)\<rparr>"

definition sample_pair :: Net_Crypto where
  "sample_pair = (sample_net_crypto 3)\<lparr>crypto_connections := [sample_conn, sample_conn\<lparr>conn_stat := CRYPTO_CONN_HANDSHAKE_SENT, temp_packet_num_sent := 8\<rparr>]\<rparr>"

lemma sample_pair_get:
  "get_crypto_connection sample_pair 0 = Some sample_conn"
  "get_crypto_connection sample_pair 1 = Some (sample_conn\<lparr>conn_stat := CRYPTO_CONN_HANDSHAKE_SENT, temp_packet_num_sent := 8\<rparr>)"
  by (simp_all add: sample_pair_def sample_conn_def get_crypto_connection_def crypt_connection_id_not_valid_def)

lemma sample_nacl: "nacl_ok (ev_nacl sample_env)"
  using nacl_identity_ok by (simp add: sample_env_def)

theorem nonce_window_follows_witness:
  "\<exists>p1 p2 p3. fst (handle_data_packets sample_env 0 [p1, p2, p3] sample_pair) = [Some [5], Some [6], Some [7]] \<and>
     p2 \<noteq> p1 \<and> p3 \<noteq> p1"
proof -
  let ?dp = "\<lambda>j d. data_packet (ev_nacl sample_env) (cc_shared_key sample_conn) ((increment_nonce ^^ j) (recv_nonce sample_conn)) d"
  obtain e1 where e1: "?dp 2 [5] = Some e1" "e1 \<noteq> []" by (rule data_packet_Some [OF sample_nacl, of "[5]"]) auto
  obtain e2 where e2: "?dp 21000 [6] = Some e2" by (rule data_packet_Some [OF sample_nacl, of "[6]"]) auto
  obtain e3 where e3: "?dp 7 [7] = Some e3" by (rule data_packet_Some [OF sample_nacl, of "[7]"]) auto
  have l: "length (recv_nonce sample_conn) = 24" by (simp add: sample_conn_def conn_zero_def)
  have r: "fst (handle_data_packets sample_env 0 [e1, e2, e3] sample_pair) = [Some [5], Some [6], Some [7]]"
    using nonce_window_follows [OF sample_nacl sample_pair_get(1) l, of "[(2, [5]), (21000, [6]), (7, [7])]" "[e1, e2, e3]"] e1 e2 e3 by simp
  moreover have "fst (handle_data_packets sample_env 0 [e1, e1, e3] sample_pair) = [Some [5], Some [5], Some [7]]"
    using nonce_window_follows [OF sample_nacl sample_pair_get(1) l, of "[(2, [5]), (2, [5]), (7, [7])]" "[e1, e1, e3]"] e1 e3 by simp
  moreover have "fst (handle_data_packets sample_env 0 [e1, e2, e1] sample_pair) = [Some [5], Some [6], Some [5]]"
    using nonce_window_follows [OF sample_nacl sample_pair_get(1) l, of "[(2, [5]), (21000, [6]), (2, [5])]" "[e1, e2, e1]"] e1 e2 by simp
  ultimately show ?thesis by (intro exI [of _ e1] exI [of _ e2] exI [of _ e3]) auto
qed

text \<open>
  C1. A message reaches the other end. Let \<open>a\<close> be an established connection whose peer has the
  connection \<open>b\<close>: the same shared key, nonces less than 65536 apart, and arrays that agree on the
  next packet number, which is not \<open>2^32 - 1\<close>. Then \<open>write_cryptpacket\<close> accepts a message, returns
  its number, puts one packet on the wire for it, and when the peer handles that packet the data
  callback of \<open>b\<close> gets exactly the message.
\<close>

theorem message_delivered:
  assumes "nacl_ok (ev_nacl EA)" and "ev_nacl EB = ev_nacl EA" and "ev_alloc EA" and "ev_alloc EB" and "ev_data_kills EB = (\<lambda>_. False)"
    and "get_crypto_connection A i = Some a" and "conn_stat a = CRYPTO_CONN_ESTABLISHED" and "\<not> maximum_speed_reached a"
    and "packets_left a \<noteq> 0" and "array_ok (send_array a)" and "window (send_array a) < CRYPTO_PACKET_BUFFER_SIZE"
    and "get_crypto_connection B k = Some b" and "conn_stat b = CRYPTO_CONN_NOT_CONFIRMED \<or> conn_stat b = CRYPTO_CONN_ESTABLISHED"
    and "connection_data_callback b = Some (object, ident)" and "array_ok (recv_array b)"
    and "cc_shared_key a = cc_shared_key b" and "length (recv_nonce b) = crypto_box_NONCEBYTES"
    and "sent_nonce a = (increment_nonce ^^ j) (recv_nonce b)" and "j < 65536"
    and "buffer_start (recv_array a) = buffer_start (send_array b)" and "buffer_end (send_array a) = buffer_start (recv_array b)"
    and "buffer_end (send_array a) \<noteq> - 1" and "packet_at (recv_array b) (buffer_end (send_array a)) = None"
    and "data \<noteq> []" and "16 \<le> data ! 0" and "data ! 0 < 192" and "length data \<le> MAX_CRYPTO_DATA_SIZE"
  shows "\<exists>A' p B' es. write_cryptpacket EA A i data congestion_control = (Some (buffer_end (send_array a)), A') \<and> on_wire p A A' \<and>
    handle_packet_connection EB B k p udp = (True, B') \<and> nc_log B' = nc_log B @ es \<and> DataCallback object ident data \<in> set es"
proof -
  let ?plain = "bytes_be 4 (unat (buffer_start (recv_array a))) @ bytes_be 4 (unat (buffer_end (send_array a))) @
      replicate ((MAX_CRYPTO_DATA_SIZE - length data) mod CRYPTO_MAX_PADDING) 0 @ data"
  obtain A' p where w: "write_cryptpacket EA A i data congestion_control = (Some (buffer_end (send_array a)), A')"
    "data_packet (ev_nacl EA) (cc_shared_key a) (sent_nonce a) ?plain = Some p" "on_wire p A A'"
    using write_cryptpacket_sends [OF assms(1,3,6-11,24-27) refl] by blast
  have N: "nacl_ok (ev_nacl EB)" using assms(1,2) by simp
  have num: "buffer_end (send_array a) = buffer_start (recv_array b)" by (rule assms(21))
  have pl: "?plain = bytes_be 4 (unat (buffer_start (send_array b))) @ bytes_be 4 (unat (buffer_end (send_array a))) @
      replicate ((MAX_CRYPTO_DATA_SIZE - length data) mod CRYPTO_MAX_PADDING) 0 @ data" using assms(20) by simp
  have p: "data_packet (ev_nacl EB) (cc_shared_key b) ((increment_nonce ^^ j) (recv_nonce b)) ?plain = Some p"
    using w(2) unfolding assms(2,16,18) .
  obtain B' es where "handle_packet_connection EB B k p udp = (True, B')" "nc_log B' = nc_log B @ es" "DataCallback object ident data \<in> set es"
    using payload_received [OF N assms(5,4,12-15) num assms(22,23,24-27,17,19) pl p] by blast
  then show ?thesis using w(1,3) by blast
qed

lemma array_zero_ok: "array_ok array_zero"
  by (simp add: array_ok_def window_def array_zero_def)

theorem message_delivered_witness:
  "\<exists>A' p B' es. write_cryptpacket sample_env sample_pair 0 [64, 1, 2] True = (Some 0, A') \<and> on_wire p sample_pair A' \<and>
    handle_packet_connection sample_env sample_pair 0 p True = (True, B') \<and> nc_log B' = nc_log sample_pair @ es \<and>
    DataCallback 7 0 [64, 1, 2] \<in> set es"
proof -
  have c: "conn_stat sample_conn = CRYPTO_CONN_ESTABLISHED" "\<not> maximum_speed_reached sample_conn" "packets_left sample_conn \<noteq> 0"
    "send_array sample_conn = array_zero" "recv_array sample_conn = array_zero" "connection_data_callback sample_conn = Some (7, 0)"
    "recv_nonce sample_conn = replicate 24 0" "sent_nonce sample_conn = replicate 24 0"
    by (simp_all add: sample_conn_def conn_zero_def)
  have z: "buffer_end array_zero = 0" "buffer_start array_zero = 0" "window array_zero = 0" "packet_at array_zero 0 = None"
    by (simp_all add: array_zero_def window_def packet_at_def)
  have e: "ev_alloc sample_env" "ev_data_kills sample_env = (\<lambda>_. False)" by (simp_all add: sample_env_def)
  show ?thesis
    using message_delivered [OF sample_nacl refl e(1) e(1) e(2) sample_pair_get(1) c(1-3) _ _ sample_pair_get(1) _ c(6) _ refl _ _ _ _ _,
      of 0 "[64, 1, 2]" True True] c z array_zero_ok by simp
qed

text \<open>
  C38. The packet with number \<open>2^32 - 1\<close> is lost: when it is the next one and has arrived, the delivery
  loop takes it out of the array and stops, without calling the data callback.
\<close>

theorem last_number_lost:
  assumes "get_crypto_connection c i = Some conn" and "array_ok (recv_array conn)" and "buffer_start (recv_array conn) = - 1"
    and "packet_at (recv_array conn) (- 1) = Some d"
  shows "\<exists>c'. deliver_loop E i c = (True, c') \<and> nc_log c' = nc_log c \<and> buffer_start (recv_array (crypto_connections c' ! i)) = 0"
proof -
  obtain arr where rd: "read_data_beg_buffer (recv_array conn) = (Some (- 1, d), arr)" "buffer_start arr = 0"
    using read_data_beg_spec [OF assms(2)] assms(3,4) by auto
  have "i < length (crypto_connections c)" using get_crypto_connectionD [OF assms(1)] by blast
  then show ?thesis using assms(1) rd by (subst deliver_loop.simps) simp
qed

definition sample_late :: Net_Crypto where
  "sample_late = upd_conn (recv_array_update (\<lambda>_. \<lparr>buffer = (\<lambda>_. None)(32767 := Some (sample_stream 0)), buffer_start = - 1, buffer_end = 0\<rparr>)) sample_pair 0"

theorem last_number_lost_witness:
  "\<exists>c'. deliver_loop sample_env 0 sample_late = (True, c') \<and> nc_log c' = [] \<and> buffer_start (recv_array (crypto_connections c' ! 0)) = 0"
proof -
  let ?a = "\<lparr>buffer = (\<lambda>_. None)(32767 := Some (sample_stream 0)), buffer_start = - 1, buffer_end = 0\<rparr>"
  have s: "slot (- 1) = 32767" by (simp add: slot_def unsigned_minus_1_eq_mask mask_eq_exp_minus_1)
  have ok: "array_ok ?a"
    unfolding array_ok_def
  proof (intro conjI allI impI)
    fix m assume "buffer ?a m \<noteq> None"
    then have "m = 32767" by (auto split: if_splits)
    then show "\<exists>k<window ?a. slot (buffer_start ?a + word_of_nat k) = m" using s by (intro exI [of _ 0]) (simp add: window_def)
  qed (simp add: window_def)
  have g: "get_crypto_connection sample_late 0 = Some (sample_conn\<lparr>recv_array := ?a\<rparr>)"
    unfolding sample_late_def by (intro get_crypto_connection_upd [OF sample_pair_get(1)]) (simp add: sample_conn_def)
  have at: "packet_at ?a (- 1) = Some (sample_stream 0)" by (simp add: packet_at_def in_window_def window_def s)
  have "nc_log sample_late = []" by (simp add: sample_late_def sample_pair_def sample_net_crypto_def)
  then show ?thesis using last_number_lost [OF g, of "sample_stream 0" sample_env] ok at by simp
qed

text \<open>
  A closed connection stops the work on later ones. When connection 0 is killed while connection 1
  is in use, number 0 stays in the array as a hole. \<open>kill_timedout\<close> and \<open>do_tcp\<close> then return at
  once: a connection 1 whose handshake packets have all been sent is never given up.
\<close>

theorem hole_stops_loops:
  assumes "get_crypto_connection c 0 = Some a" and "get_crypto_connection c 1 = Some b"
    and "conn_stat b = CRYPTO_CONN_HANDSHAKE_SENT" and "temp_packet_num_sent b \<ge> MAX_NUM_SENDPACKET_TRIES"
  shows "\<exists>b'. get_crypto_connection (snd (crypto_kill E c 0)) 1 = Some b' \<and> conn_stat b' = CRYPTO_CONN_HANDSHAKE_SENT \<and>
    temp_packet_num_sent b' \<ge> MAX_NUM_SENDPACKET_TRIES \<and>
    kill_timedout E (snd (crypto_kill E c 0)) = snd (crypto_kill E c 0) \<and> do_tcp E (snd (crypto_kill E c 0)) = snd (crypto_kill E c 0)"
proof -
  let ?c = "snd (crypto_kill E c 0)"
  note v = crypto_kill_view(1) [OF assms(1), of E]
  have "conn_view ?c 1 = Some (unsent b)" using v assms(2) by (simp add: conn_view_def)
  then obtain b' where b': "get_crypto_connection ?c 1 = Some b'" "unsent b' = unsent b" by (rule conn_view_SomeE)
  have n: "get_crypto_connection ?c 0 = None" using v by (simp add: conn_view_def fun_eq_iff) (metis option.map_disc_iff)
  have "temp_packet_num_sent (unsent b') = temp_packet_num_sent (unsent b)" "conn_stat (unsent b') = conn_stat (unsent b)" using b'(2) by simp_all
  then have "temp_packet_num_sent b' = temp_packet_num_sent b" "conn_stat b' = conn_stat b" by (simp_all add: unsent_def)
  moreover have "kill_timedout E ?c = ?c" using n by (simp add: kill_timedout_def kill_timedout_loop.simps)
  moreover have "do_tcp E ?c = ?c" using n by (cases "length (crypto_connections ?c)") (simp_all add: do_tcp_def)
  ultimately show ?thesis using b'(1) assms(3,4) by simp
qed

theorem hole_stops_loops_witness:
  "\<exists>b'. get_crypto_connection (snd (crypto_kill sample_env sample_pair 0)) 1 = Some b' \<and> conn_stat b' = CRYPTO_CONN_HANDSHAKE_SENT \<and>
    kill_timedout sample_env (snd (crypto_kill sample_env sample_pair 0)) = snd (crypto_kill sample_env sample_pair 0)"
  using hole_stops_loops [OF sample_pair_get, of sample_env] by auto

end
