(* ===== verification/Crypto_Index.thy ===== *)
theory Crypto_Index
  imports Crypto_Data
begin

text \<open>
  The index from addresses to connections (\<open>ip_port_list\<close> of \<open>Net_Crypto\<close>): every entry leads to a
  connection in use that has this address. The invariant is shown for all functions that open,
  change or close connections; a UDP packet is then handed to the connection whose address it
  comes from. The index itself is used only through the contract \<open>key_index\<close>.
\<close>

section \<open>The invariant\<close>

definition addr_view :: "Net_Crypto \<Rightarrow> nat \<Rightarrow> (IP_Port \<times> IP_Port) option" where
  "addr_view c i = map_option (\<lambda>k. (ip_portv4 k, ip_portv6 k)) (get_crypto_connection c i)"

definition index_ok :: "nc_env \<Rightarrow> Net_Crypto \<Rightarrow> bool" where
  "index_ok E c \<longleftrightarrow> bs_inv (ip_port_list c) \<and> (\<forall>ipp. bs_key_ok (ip_port_list c) (ev_image E ipp)) \<and>
     (\<forall>key v. bs_map (ip_port_list c) key = Some v \<longrightarrow>
        (\<exists>i a4 a6. v = int i \<and> addr_view c i = Some (a4, a6) \<and> (key = ev_image E a4 \<or> key = ev_image E a6)))"

text \<open>States in which connections at most appear, and the index is the same.\<close>

definition addr_le :: "Net_Crypto \<Rightarrow> Net_Crypto \<Rightarrow> bool" where
  "addr_le c c' \<longleftrightarrow> addr_view c \<subseteq>\<^sub>m addr_view c' \<and> ip_port_list c' = ip_port_list c"

lemma addr_le_refl [simp, intro]: "addr_le c c"
  by (simp add: addr_le_def)

lemma addr_le_trans [trans]: "addr_le a b \<Longrightarrow> addr_le b c \<Longrightarrow> addr_le a c"
  unfolding addr_le_def using map_le_trans by metis

lemma index_ok_le:
  assumes "index_ok E c" and "addr_le c c'"
  shows "index_ok E c'"
proof -
  have "addr_view c' i = Some p" if "addr_view c i = Some p" for i p
    using assms(2) that unfolding addr_le_def map_le_def by (metis domI)
  then show ?thesis using assms unfolding index_ok_def addr_le_def by metis
qed

lemma addr_le_log [simp]: "addr_le c (log_event e c') = addr_le c c'"
  by (simp add: addr_le_def addr_view_def map_le_def) (simp add: log_event_def)

lemma addr_le_same: "same_but_sent c c' \<Longrightarrow> addr_le c c'"
proof -
  assume s: "same_but_sent c c'"
  have "addr_view c' i = addr_view c i" for i
  proof -
    have "addr_view x i = map_option (\<lambda>k. (ip_portv4 k, ip_portv6 k)) (conn_view x i)" for x
      by (simp add: addr_view_def conn_view_def option.map_comp o_def unsent_def)
    then show ?thesis using conn_view_same [OF s] by simp
  qed
  then have "addr_view c' = addr_view c" by blast
  then show ?thesis using s by (simp add: addr_le_def same_but_sent_def)
qed

lemma get_crypto_connection_upd_other [simp]: "j \<noteq> i \<Longrightarrow> get_crypto_connection (upd_conn f c i) j = get_crypto_connection c j"
  by (simp add: get_crypto_connection_def crypt_connection_id_not_valid_def upd_conn_def)

text \<open>An update of a connection that keeps its addresses and does not close it.\<close>

definition keeps_addr :: "(Crypto_Connection \<Rightarrow> Crypto_Connection) \<Rightarrow> bool" where
  "keeps_addr f \<longleftrightarrow> (\<forall>k. ip_portv4 (f k) = ip_portv4 k \<and> ip_portv6 (f k) = ip_portv6 k \<and>
     (conn_stat (f k) = CRYPTO_CONN_NO_CONNECTION \<longrightarrow> conn_stat k = CRYPTO_CONN_NO_CONNECTION))"

lemma addr_le_upd: "keeps_addr f \<Longrightarrow> addr_le c (upd_conn f c i)"
proof -
  assume f: "keeps_addr f"
  have "addr_view (upd_conn f c i) j = Some p" if "addr_view c j = Some p" for j p
  proof (cases "j = i")
    case True
    then obtain k where k: "get_crypto_connection c i = Some k" "p = (ip_portv4 k, ip_portv6 k)" using \<open>addr_view c j = Some p\<close> by (auto simp: addr_view_def)
    have "conn_stat k \<noteq> CRYPTO_CONN_NO_CONNECTION" using get_crypto_connectionD [OF k(1)] by blast
    then have "get_crypto_connection (upd_conn f c i) i = Some (f k)" using f by (intro get_crypto_connection_upd [OF k(1)]) (auto simp: keeps_addr_def)
    then show ?thesis using True k(2) f by (simp add: addr_view_def keeps_addr_def)
  next
    case False
    then show ?thesis using that by (simp add: addr_view_def)
  qed
  then show ?thesis by (auto simp: addr_le_def map_le_def upd_conn_def)
qed

lemma addr_le_upd_trans: "keeps_addr f \<Longrightarrow> addr_le c c' \<Longrightarrow> addr_le c (upd_conn f c' i)"
  using addr_le_upd addr_le_trans by blast

lemma addr_view_list [simp]: "addr_view (c\<lparr>ip_port_list := l\<rparr>) = addr_view c"
  by (rule ext) (simp add: addr_view_def)

section \<open>Functions that do not touch addresses\<close>

lemma new_temp_packet_addr: "addr_le c (snd (new_temp_packet E c i p))"
  by (auto simp: new_temp_packet_def keeps_addr_def split: option.split intro: addr_le_upd)

lemma clear_temp_packet_addr: "addr_le c (snd (clear_temp_packet c i))"
  by (auto simp: clear_temp_packet_def keeps_addr_def split: option.split intro: addr_le_upd)

lemma send_temp_packet_addr: "addr_le c (snd (send_temp_packet E c i))"
proof -
  have s: "addr_le c (snd (send_packet_to E c i p))" for p using addr_le_same send_packet_to_same by blast
  then have "send_packet_to E c i p = (ok, c1) \<Longrightarrow> addr_le c c1" for p ok c1 by (metis snd_conv)
  then show ?thesis
    by (auto simp: send_temp_packet_def Let_def keeps_addr_def split: option.split prod.split intro: addr_le_upd_trans)
qed

lemma create_send_handshake_addr: "addr_le c (snd (create_send_handshake E c i cookie pk))"
proof -
  have "new_temp_packet E c i p = (ok, c1) \<Longrightarrow> addr_le c c1" for p ok c1 using new_temp_packet_addr by (metis snd_conv)
  then show ?thesis
    by (auto simp: create_send_handshake_def Let_def split: option.split prod.split intro: addr_le_trans [OF _ send_temp_packet_addr])
qed

lemma confirm_connection_addr: "addr_le c (confirm_connection c i)"
proof -
  have "keeps_addr (conn_stat_update (\<lambda>_. CRYPTO_CONN_ESTABLISHED))" by (simp add: keeps_addr_def)
  then have "addr_le c (upd_conn (conn_stat_update (\<lambda>_. CRYPTO_CONN_ESTABLISHED)) (snd (clear_temp_packet c i)) i)"
    using clear_temp_packet_addr addr_le_upd_trans by blast
  then show ?thesis by (simp add: confirm_connection_def Let_def split: option.split prod.split)
qed

lemma update_rtt_addr: "addr_le c c' \<Longrightarrow> addr_le c (update_rtt E t c' i)"
  by (auto simp: update_rtt_def Let_def keeps_addr_def intro: addr_le_upd_trans)

lemma handle_data_packet_addr: "addr_le c (snd (handle_data_packet E c i p))"
  by (auto simp: handle_data_packet_def Let_def keeps_addr_def split: option.split intro: addr_le_upd)

section \<open>Functions that change addresses\<close>

text \<open>What is asked of the allocator: shrinking the index does not fail half way, adding does not overflow.\<close>

definition index_room :: "nc_env \<Rightarrow> Net_Crypto \<Rightarrow> bool" where
  "index_room E c \<longleftrightarrow> ids_ok (ev_bs E) \<and> bs_room (ip_port_list c)"

lemma bs_alloc_ids: "ids_ok al \<Longrightarrow> al\<lparr>ids_ok := True\<rparr> = al"
  by simp

text \<open>The contract of the index for an allocator that does not fail half way.\<close>

lemma bs_index_laws:
  assumes "ids_ok al" and "bs_inv l" and "\<And>a. bs_key_ok l (im a)"
  shows "bs_inv (snd (bs_remove_op al l (im a) v))" and "bs_key_ok (snd (bs_remove_op al l (im a) v)) (im b)"
    and "bs_room l \<Longrightarrow> bs_inv (snd (bs_add_op al l (im a) v))" and "bs_key_ok (snd (bs_add_op al l (im a) v)) (im b)"
    and "bs_room l \<Longrightarrow> \<not> fst (bs_add_op al l (im a) v) \<Longrightarrow> bs_map (snd (bs_add_op al l (im a) v)) = bs_map l"
    and "bs_room l \<Longrightarrow> fst (bs_add_op al l (im a) v) \<Longrightarrow> bs_map (snd (bs_remove_op al (snd (bs_add_op al l (im a) v)) (im b) v)) x = Some w \<Longrightarrow>
      (x = im a \<and> w = v) \<or> (bs_map l x = Some w \<and> \<not> (x = im b \<and> w = v))"
    and "bs_map (snd (bs_remove_op al (snd (bs_remove_op al l (im a) v)) (im b) v)) x = Some w \<Longrightarrow>
      bs_map l x = Some w \<and> (w = v \<longrightarrow> x \<noteq> im a \<and> x \<noteq> im b)"
proof -
  note al = bs_alloc_ids [OF assms(1)]
  show "bs_inv (snd (bs_remove_op al l (im a) v))"
    using bsi.remove_invar [OF assms(2,3), where al = al] unfolding al .
  show "bs_key_ok (snd (bs_remove_op al l (im a) v)) (im b)"
    using bsi.remove_key_ok [where al = al, of l "im a" v] assms(3) unfolding al by simp
  show "bs_room l \<Longrightarrow> bs_inv (snd (bs_add_op al l (im a) v))"
    by (rule bsi.add_invar [OF assms(2,3)])
  show "bs_key_ok (snd (bs_add_op al l (im a) v)) (im b)"
    using bsi.add_key_ok assms(3) by simp
  show "bs_room l \<Longrightarrow> \<not> fst (bs_add_op al l (im a) v) \<Longrightarrow> bs_map (snd (bs_add_op al l (im a) v)) = bs_map l"
    by (rule bsi.add_failed [OF assms(2,3)])
  show "bs_room l \<Longrightarrow> fst (bs_add_op al l (im a) v) \<Longrightarrow> bs_map (snd (bs_remove_op al (snd (bs_add_op al l (im a) v)) (im b) v)) x = Some w \<Longrightarrow>
      (x = im a \<and> w = v) \<or> (bs_map l x = Some w \<and> \<not> (x = im b \<and> w = v))"
    using bsi.move_key [OF assms(2,3,3), where al = al] unfolding al by blast
  show "bs_map (snd (bs_remove_op al (snd (bs_remove_op al l (im a) v)) (im b) v)) x = Some w \<Longrightarrow>
      bs_map l x = Some w \<and> (w = v \<longrightarrow> x \<noteq> im a \<and> x \<noteq> im b)"
    using bsi.drop_keys [OF assms(2,3,3), where al = al] unfolding al by blast
qed

lemma add_ip_port_connection_index:
  assumes ok: "index_ok E c" and room: "index_room E c"
  shows "index_ok E (snd (add_ip_port_connection E c i ipp))"
proof (cases "get_crypto_connection c i")
  case None
  then show ?thesis using ok by (simp add: add_ip_port_connection_def)
next
  case (Some conn)
  let ?l = "ip_port_list c"
  have l: "ids_ok (ev_bs E)" "bs_inv ?l" "\<And>a. bs_key_ok ?l (ev_image E a)" "bs_room ?l"
    using ok room by (auto simp: index_ok_def index_room_def)
  note laws = bs_index_laws [where im = "ev_image E", OF l(1-3)]
  let ?l1 = "snd (bs_add_op (ev_bs E) ?l (ev_image E ipp) (int i))"
  have l1: "bs_inv ?l1" "\<And>a. bs_key_ok ?l1 (ev_image E a)" using laws(3,4) l(4) by auto
  have view: "addr_view c i = Some (ip_portv4 conn, ip_portv6 conn)" using Some by (simp add: addr_view_def)
  have fail: "index_ok E (c\<lparr>ip_port_list := ?l1\<rparr>)" if "\<not> fst (bs_add_op (ev_bs E) ?l (ev_image E ipp) (int i))"
    using ok l1 laws(5) [OF l(4) that] by (simp add: index_ok_def)
  have move: "index_ok E (upd_conn f (c\<lparr>ip_port_list := snd (bs_remove_op (ev_bs E) ?l1 (ev_image E old) (int i))\<rparr>) i)"
    if add: "fst (bs_add_op (ev_bs E) ?l (ev_image E ipp) (int i))"
      and f: "f conn = conn\<lparr>ip_portv4 := ipp\<rparr> \<and> old = ip_portv4 conn \<or> f conn = conn\<lparr>ip_portv6 := ipp\<rparr> \<and> old = ip_portv6 conn" for f old
  proof -
    let ?l2 = "snd (bs_remove_op (ev_bs E) ?l1 (ev_image E old) (int i))"
    let ?c' = "upd_conn f (c\<lparr>ip_port_list := ?l2\<rparr>) i"
    have l2: "bs_inv ?l2" "\<And>a. bs_key_ok ?l2 (ev_image E a)" using bs_index_laws(1,2) [where im = "ev_image E", OF l(1) l1] by auto
    have "conn_stat (f conn) \<noteq> CRYPTO_CONN_NO_CONNECTION" using f get_crypto_connectionD [OF Some] by auto
    then have gi: "get_crypto_connection ?c' i = Some (f conn)" using Some by (intro get_crypto_connection_upd) simp_all
    have go: "addr_view ?c' j = addr_view c j" if "j \<noteq> i" for j using that by (simp add: addr_view_def)
    have "\<exists>j a4 a6. v = int j \<and> addr_view ?c' j = Some (a4, a6) \<and> (key = ev_image E a4 \<or> key = ev_image E a6)"
      if m: "bs_map ?l2 key = Some v" for key v
    proof -
      consider (new) "key = ev_image E ipp" "v = int i" | (kept) "bs_map ?l key = Some v" "\<not> (key = ev_image E old \<and> v = int i)"
        using laws(6) [OF l(4) add m] by blast
      then show ?thesis
      proof cases
        case new
        then show ?thesis using gi f by (auto simp: addr_view_def)
      next
        case kept
        then obtain j a4 a6 where j: "v = int j" "addr_view c j = Some (a4, a6)" "key = ev_image E a4 \<or> key = ev_image E a6"
          using ok unfolding index_ok_def by blast
        show ?thesis
        proof (cases "j = i")
          case False
          then show ?thesis using j go by auto
        next
          case True
          then have a: "a4 = ip_portv4 conn" "a6 = ip_portv6 conn" using j(2) view by auto
          then have "key \<noteq> ev_image E old" using kept(2) j(1) True by simp
          then show ?thesis using f a j(1,3) gi True by (auto simp: addr_view_def)
        qed
      qed
    qed
    then show ?thesis using l2 by (simp add: index_ok_def upd_conn_def)
  qed
  show ?thesis
    using Some ok fail move [of "ip_portv4_update (\<lambda>_. ipp)" "ip_portv4 conn"] move [of "ip_portv6_update (\<lambda>_. ipp)" "ip_portv6 conn"]
    by (simp add: add_ip_port_connection_def Let_def split_def)
qed

lemma crypto_kill_index:
  assumes ok: "index_ok E c" and al: "ids_ok (ev_bs E)"
  shows "index_ok E (snd (crypto_kill E c i))"
proof (cases "get_crypto_connection c i")
  case None
  then show ?thesis using ok by (simp add: crypto_kill_def)
next
  case (Some conn)
  note view = crypto_kill_view [OF Some, of E]
  let ?l = "ip_port_list c" and ?c = "snd (crypto_kill E c i)"
  have l: "bs_inv ?l" "\<And>a. bs_key_ok ?l (ev_image E a)" using ok by (auto simp: index_ok_def)
  have av: "addr_view ?c j = (if j = i then None else addr_view c j)" for j
  proof -
    have "addr_view x j = map_option (\<lambda>k. (ip_portv4 k, ip_portv6 k)) (conn_view x j)" for x
      by (simp add: addr_view_def conn_view_def option.map_comp o_def unsent_def)
    then show ?thesis using view(1) by simp
  qed
  have own: "addr_view c i = Some (ip_portv4 conn, ip_portv6 conn)" using Some by (simp add: addr_view_def)
  note laws = bs_index_laws [where im = "ev_image E", OF al l]
  have l2: "bs_inv (ip_port_list ?c)" "\<And>a. bs_key_ok (ip_port_list ?c) (ev_image E a)"
    unfolding view(2) using bs_index_laws(1,2) [where im = "ev_image E", OF al laws(1,2)] by auto
  have "\<exists>j a4 a6. v = int j \<and> addr_view ?c j = Some (a4, a6) \<and> (key = ev_image E a4 \<or> key = ev_image E a6)"
    if m: "bs_map (ip_port_list ?c) key = Some v" for key v
  proof -
    have k: "bs_map ?l key = Some v" "v = int i \<longrightarrow> key \<noteq> ev_image E (ip_portv4 conn) \<and> key \<noteq> ev_image E (ip_portv6 conn)"
      using laws(7) m unfolding view(2) by blast+
    then obtain j a4 a6 where j: "v = int j" "addr_view c j = Some (a4, a6)" "key = ev_image E a4 \<or> key = ev_image E a6"
      using ok unfolding index_ok_def by blast
    then have "j \<noteq> i" using k(2) own by auto
    then show ?thesis using j av by auto
  qed
  then show ?thesis using l2 by (simp add: index_ok_def)
qed

lemma connection_kill_index: "index_ok E c \<Longrightarrow> ids_ok (ev_bs E) \<Longrightarrow> index_ok E (connection_kill E c i)"
proof -
  assume ok: "index_ok E c" and al: "ids_ok (ev_bs E)"
  have "index_ok E (log_event e c)" for e using ok by (rule index_ok_le) simp
  then show ?thesis using ok al by (simp add: connection_kill_def Let_def crypto_kill_index split: option.split prod.split)
qed

section \<open>The handlers\<close>

lemma deliver_loop_index:
  "index_ok E c \<Longrightarrow> ids_ok (ev_bs E) \<Longrightarrow> index_ok E (snd (deliver_loop E i c))"
proof (induction E i c rule: deliver_loop.induct)
  case (1 E i c)
  show ?case
  proof (cases "get_crypto_connection c i")
    case None
    then show ?thesis using 1(2) by (subst deliver_loop.simps) simp
  next
    case (Some conn)
    obtain r arr where ra: "read_data_beg_buffer (recv_array conn) = (r, arr)" by fastforce
    show ?thesis
    proof (cases r)
      case None
      then show ?thesis using 1(2) ra Some by (subst deliver_loop.simps) simp
    next
      case r: (Some nd)
      obtain number d where nd: "nd = (number, d)" by (cases nd)
      let ?c1 = "upd_conn (recv_array_update (\<lambda>_. arr)) c i"
      let ?c2 = "case connection_data_callback conn of None \<Rightarrow> ?c1 | Some (object, ident) \<Rightarrow> log_event (DataCallback object ident (pd_data d)) ?c1"
      have c1: "index_ok E ?c1" by (rule index_ok_le [OF 1(2) addr_le_upd]) (simp add: keeps_addr_def)
      then have c2: "index_ok E ?c2" by (auto split: option.split intro: index_ok_le [OF c1])
      have "index_ok E (snd (deliver_loop E i ?c2))" if "number \<noteq> - 1" "\<not> (connection_data_callback conn \<noteq> None \<and> ev_data_kills E (pd_data d))"
        by (rule 1(1) [OF Some ra [symmetric] r [unfolded nd] refl refl that(1) refl that(2) c2 1(3)])
      then show ?thesis using Some ra r nd c1 crypto_kill_index [OF c2 1(3)] by (subst deliver_loop.simps) (simp add: Let_def)
    qed
  qed
qed

lemma handle_real_data_index:
  assumes ok: "index_ok E c" and al: "ids_ok (ev_bs E)"
  shows "index_ok E (snd (handle_real_data E c i udp num t data))"
proof -
  let ?c1 = "confirm_connection c i"
  have c1: "index_ok E ?c1" using ok by (rule index_ok_le [OF _ confirm_connection_addr])
  have upd: "index_ok E (upd_conn f c' i)" if "index_ok E c'" "keeps_addr f" for c' f by (rule index_ok_le [OF that(1) addr_le_upd [OF that(2)]])
  have rtt: "index_ok E (update_rtt E t' c' i)" if "index_ok E c'" for c' t' by (rule index_ok_le [OF that update_rtt_addr]) simp
  have lg: "index_ok E (log_event e c')" if "index_ok E c'" for c' e by (rule index_ok_le [OF that]) simp
  have dl: "index_ok E c3" if "deliver_loop E i c' = (a, c3)" "index_ok E c'" for c' a c3 using deliver_loop_index [OF that(2) al] that(1) by (metis snd_conv)
  have k: "keeps_addr (send_array_update g)" "keeps_addr (recv_array_update g)" "keeps_addr (packet_counter_update h)" for g h by (simp_all add: keeps_addr_def)
  show ?thesis
  proof (cases data)
    case (Cons pid rest)
    show ?thesis
      unfolding handle_real_data_def Cons list.case Let_def
      using ok al c1 by (auto split: prod.split option.split intro!: rtt upd lg k connection_kill_index intro: dl)
  qed (use ok in \<open>simp add: handle_real_data_def\<close>)
qed

lemma handle_data_packet_helper_index:
  assumes ok: "index_ok E c" and al: "ids_ok (ev_bs E)"
  shows "index_ok E (snd (handle_data_packet_helper E c i packet udp))"
proof -
  have h: "index_ok E c1" if "handle_data_packet E c i packet = (r, c1)" for r c1
    using index_ok_le [OF ok handle_data_packet_addr] that by (metis snd_conv)
  have upd: "index_ok E (upd_conn (send_array_update (\<lambda>_. arr)) c' i)" if "index_ok E c'" for c' arr
    by (rule index_ok_le [OF that addr_le_upd]) (simp add: keeps_addr_def)
  show ?thesis
    unfolding handle_data_packet_helper_def Let_def
    using ok by (auto split: prod.split option.split intro!: handle_real_data_index al upd intro: h)
qed

lemma handle_packet_connection_index:
  assumes ok: "index_ok E c" and al: "ids_ok (ev_bs E)"
  shows "index_ok E (snd (handle_packet_connection E c i packet udp))"
proof -
  have cs: "index_ok E c1" if "create_send_handshake E c' i a b = (r, c1)" "index_ok E c'" for r c1 c' a b
    using index_ok_le [OF that(2) create_send_handshake_addr] that(1) by (metis snd_conv)
  have upd: "index_ok E (upd_conn f c' i)" if "index_ok E c'" "keeps_addr f" for c' f by (rule index_ok_le [OF that(1) addr_le_upd [OF that(2)]])
  have lg: "index_ok E (log_event e c')" if "index_ok E c'" for c' e by (rule index_ok_le [OF that]) simp
  have k: "keeps_addr (conn_stat_update (\<lambda>_. CRYPTO_CONN_HANDSHAKE_SENT))" "keeps_addr (conn_stat_update (\<lambda>_. CRYPTO_CONN_NOT_CONFIRMED))"
    "keeps_addr (\<lambda>k. k\<lparr>recv_nonce := n, peersessionpublic_key := p\<rparr>)" "keeps_addr (\<lambda>k. k\<lparr>cc_shared_key := g k\<rparr>)" for n p g
    by (simp_all add: keeps_addr_def)
  show ?thesis
    unfolding handle_packet_connection_def Let_def
    using ok al by (auto split: prod.split option.split if_splits intro!: upd lg k handle_data_packet_helper_index intro: cs)
qed

section \<open>Opening connections\<close>

lemma addr_le_open: "addr_le c c' \<Longrightarrow> get_crypto_connection c i = None \<Longrightarrow> addr_le c (upd_conn f c' i)"
  unfolding addr_le_def map_le_def
proof (intro conjI ballI)
  assume a: "(\<forall>a\<in>dom (addr_view c). addr_view c a = addr_view c' a) \<and> ip_port_list c' = ip_port_list c" and n: "get_crypto_connection c i = None"
  fix j assume "j \<in> dom (addr_view c)"
  moreover from this have "j \<noteq> i" using n by (auto simp: addr_view_def dom_def)
  then have "addr_view (upd_conn f c' i) j = addr_view c' j" by (simp add: addr_view_def)
  ultimately show "addr_view c j = addr_view (upd_conn f c' i) j" using a by simp
qed (simp add: upd_conn_def)

lemma addr_le_dht: "addr_le c c' \<Longrightarrow> addr_le c (c'\<lparr>nc_dht := d\<rparr>)"
  unfolding addr_le_def map_le_def by (simp add: addr_view_def get_crypto_connection_def crypt_connection_id_not_valid_def)

lemma free_index_status: "free_index ks i = Some j \<Longrightarrow> i \<le> j \<and> j < i + length ks \<and> conn_stat (ks ! (j - i)) = CRYPTO_CONN_NO_CONNECTION"
proof (induction ks arbitrary: i)
  case (Cons k ks)
  show ?case
  proof (cases "conn_stat k = CRYPTO_CONN_NO_CONNECTION")
    case False
    then have "Suc i \<le> j \<and> j < Suc i + length ks \<and> conn_stat (ks ! (j - Suc i)) = CRYPTO_CONN_NO_CONNECTION"
      using Cons.prems by (intro Cons.IH) simp
    moreover from this have "j - i = Suc (j - Suc i)" by linarith
    ultimately show ?thesis by simp
  qed (use Cons.prems in simp)
qed simp

lemma create_crypto_connection_addr:
  assumes "create_crypto_connection E c = (r, c1)"
  shows "addr_le c c1" and "r = Some i \<Longrightarrow> get_crypto_connection c i = None"
proof -
  have "get_crypto_connection (c\<lparr>crypto_connections := crypto_connections c @ [conn_zero]\<rparr>) j = get_crypto_connection c j" for j
    by (auto simp: get_crypto_connection_def crypt_connection_id_not_valid_def nth_append conn_zero_def)
  then have "addr_le c (c\<lparr>crypto_connections := crypto_connections c @ [conn_zero]\<rparr>)"
    unfolding addr_le_def map_le_def by (simp add: addr_view_def)
  then show "addr_le c c1" using assms by (auto simp: create_crypto_connection_def split: option.splits if_splits)
  show "r = Some i \<Longrightarrow> get_crypto_connection c i = None"
    using assms free_index_status [of "crypto_connections c" 0 i]
    by (auto simp: create_crypto_connection_def get_crypto_connection_def crypt_connection_id_not_valid_def split: option.splits if_splits)
qed

lemma crypto_connection_add_source_index:
  assumes ok: "index_ok E c" and room: "index_room E c"
  shows "index_ok E (snd (crypto_connection_add_source E c i source))"
proof -
  have ad: "index_ok E c1" if "add_ip_port_connection E c i source = (r, c1)" for r c1
    using add_ip_port_connection_index [OF ok room] that by (metis snd_conv)
  have upd: "index_ok E (upd_conn f c' i)" if "index_ok E c'" "keeps_addr f" for c' f by (rule index_ok_le [OF that(1) addr_le_upd [OF that(2)]])
  have lg: "index_ok E (log_event e c)" for e by (rule index_ok_le [OF ok]) simp
  have k: "keeps_addr (direct_lastrecv_timev4_update g)" "keeps_addr (direct_lastrecv_timev6_update g)" for g by (simp_all add: keeps_addr_def)
  show ?thesis
    unfolding crypto_connection_add_source_def Let_def
    using ok by (auto split: prod.split option.split intro!: upd lg k intro: ad)
qed

lemma index_room_le: "index_room E c \<Longrightarrow> addr_le c c' \<Longrightarrow> index_room E c'"
  by (simp add: index_room_def addr_le_def)

lemma accept_crypto_connection_index:
  assumes ok: "index_ok E c" and room: "index_room E c"
  shows "index_ok E (snd (accept_crypto_connection E c n_c))"
proof -
  obtain r c1 where c1: "create_crypto_connection E c = (r, c1)" by fastforce
  note cr = create_crypto_connection_addr [OF c1]
  have hs: "addr_le c c4" if "create_send_handshake E c' i a b = (ok', c4)" "addr_le c c'" for c' i a b ok' c4
    using addr_le_trans [OF that(2) create_send_handshake_addr] that(1) by (metis snd_conv)
  have src: "index_ok E (snd (crypto_connection_add_source E c' i s))" if "addr_le c c'" for c' i s
    using crypto_connection_add_source_index [OF index_ok_le [OF ok that] index_room_le [OF room that]] .
  have le: "index_ok E c'" if "addr_le c c'" for c' by (rule index_ok_le [OF ok that])
  show ?thesis
  proof (cases r)
    case None
    then show ?thesis using c1 ok le cr(1) by (auto simp: accept_crypto_connection_def)
  next
    case (Some i)
    note free = cr(2) [OF Some]
    have op: "addr_le c (upd_conn f c' i)" if "addr_le c c'" for f c' by (rule addr_le_open [OF that free])
    have lg: "addr_le c (log_event e c')" if "addr_le c c'" for e c' using that by simp
    show ?thesis
      unfolding accept_crypto_connection_def c1 Some Let_def
      using ok cr(1) by (auto split: prod.split option.split intro!: src op lg intro: le hs [OF _ op [OF lg]])
  qed
qed

lemma new_crypto_connection_index:
  assumes ok: "index_ok E c"
  shows "index_ok E (snd (new_crypto_connection E c real_pk dht))"
proof -
  obtain r c1 where c1: "create_crypto_connection E c = (r, c1)" by fastforce
  note cr = create_crypto_connection_addr [OF c1]
  have le: "index_ok E c'" if "addr_le c c'" for c' by (rule index_ok_le [OF ok that])
  have req: "addr_le c c4" if "create_cookie_request N t n c' pk num = (c4, k, q)" "addr_le c c'" for N t n c' pk num c4 k q
  proof -
    have "c4 = c'\<lparr>nc_dht := nc_dht c4\<rparr>" using that(1) by (auto simp: create_cookie_request_def Let_def split_def)
    then show ?thesis using addr_le_dht [OF that(2)] by metis
  qed
  have tmp: "addr_le c c6" if "new_temp_packet E c' i q = (ok', c6)" "addr_le c c'" for c' i q ok' c6
    using addr_le_trans [OF that(2) new_temp_packet_addr] that(1) by (metis snd_conv)
  show ?thesis
  proof (cases r)
    case None
    then show ?thesis using c1 ok le cr(1) by (auto simp: new_crypto_connection_def split: option.split)
  next
    case (Some i)
    note free = cr(2) [OF Some]
    have op: "addr_le c (upd_conn f c' i)" if "addr_le c c'" for f c' by (rule addr_le_open [OF that free])
    have lg: "addr_le c (log_event e c')" if "addr_le c c'" for e c' using that by simp
    show ?thesis
      unfolding new_crypto_connection_def c1 Some Let_def
      using ok cr(1) by (auto split: prod.split option.split intro!: le op lg intro: tmp [OF _ op [OF req [OF _ op [OF lg]]]] req [OF _ op [OF lg]])
  qed
qed

lemma handle_new_connection_handshake_index:
  assumes ok: "index_ok E c" and room: "index_room E c"
    and cb: "\<And>n c'. index_ok E c' \<Longrightarrow> index_ok E (snd (ev_new_connection E n c'))"
  shows "index_ok E (snd (handle_new_connection_handshake E c source data))"
proof -
  have al: "ids_ok (ev_bs E)" using room by (simp add: index_room_def)
  have upd: "addr_le c (upd_conn f c i)" if "keeps_addr f" for f i by (rule addr_le_upd [OF that])
  have src: "index_ok E (snd (crypto_connection_add_source E c' i s))" if "addr_le c c'" for c' i s
    using crypto_connection_add_source_index [OF index_ok_le [OF ok that] index_room_le [OF room that]] .
  have hs: "index_ok E c4" if "create_send_handshake E c' i a b = (ok', c4)" "index_ok E c'" for c' i a b ok' c4
    using index_ok_le [OF that(2) create_send_handshake_addr] that(1) by (metis snd_conv)
  have st: "index_ok E (upd_conn (conn_stat_update (\<lambda>_. CRYPTO_CONN_NOT_CONFIRMED)) c' i)" if "index_ok E c'" for c' i
    by (rule index_ok_le [OF that addr_le_upd]) (simp add: keeps_addr_def)
  have k: "keeps_addr (\<lambda>k. k\<lparr>recv_nonce := n, peersessionpublic_key := p, cc_shared_key := g k\<rparr>)" for n p g by (simp add: keeps_addr_def)
  show ?thesis
    unfolding handle_new_connection_handshake_def Let_def
    using ok by (auto split: prod.split option.split intro!: cb connection_kill_index al st intro: hs [OF _ src [OF upd [OF k]]])
qed

lemma kill_timedout_index: "index_ok E c \<Longrightarrow> ids_ok (ev_bs E) \<Longrightarrow> index_ok E (kill_timedout_loop E i c)"
proof (induction E i c rule: kill_timedout_loop.induct)
  case (1 E i c)
  have "index_ok E (connection_kill E c i)" using 1(4,5) by (rule connection_kill_index)
  then show ?case using 1 by (subst kill_timedout_loop.simps) (auto split: option.split)
qed

section \<open>The result\<close>

text \<open>
  C6. The address index never leads to a wrong or closed connection. If every entry of
  \<open>ip_port_list\<close> belongs to a connection in use with that address, then a lookup ends and gives
  \<open>-1\<close> or such a connection, and the property is kept by handling a packet for a connection (which
  may kill it), by a handshake for a new connection when the callback keeps it, by accepting,
  opening and killing connections, by setting a direct address and by dropping the connections
  that timed out.
\<close>

theorem ip_index_invariant:
  assumes "index_ok E c" and "index_room E c"
    and "\<forall>n c'. index_ok E c' \<longrightarrow> index_ok E (snd (ev_new_connection E n c'))"
  shows "(\<exists>v. crypto_id_ip_port E c source = Some v \<and> (v = - 1 \<or>
      (\<exists>conn. 0 \<le> v \<and> get_crypto_connection c (nat v) = Some conn \<and>
         (ev_image E source = ev_image E (ip_portv4 conn) \<or> ev_image E source = ev_image E (ip_portv6 conn))))) \<and>
    index_ok E (snd (handle_packet_connection E c i packet udp)) \<and>
    index_ok E (snd (handle_new_connection_handshake E c source packet)) \<and>
    index_ok E (snd (accept_crypto_connection E c n_c)) \<and>
    index_ok E (snd (new_crypto_connection E c real_pk dht_pub)) \<and>
    index_ok E (snd (add_ip_port_connection E c i source)) \<and>
    index_ok E (snd (crypto_kill E c i)) \<and> index_ok E (kill_timedout E c)"
proof -
  have al: "ids_ok (ev_bs E)" using assms(2) by (simp add: index_room_def)
  have l: "bs_wf (ip_port_list c)" "length (ev_image E source) = bs_element_size (ip_port_list c)"
    using assms(1) by (auto simp: index_ok_def bs_inv_def bs_key_ok_def)
  have f: "crypto_id_ip_port E c source = Some (case bs_map (ip_port_list c) (ev_image E source) of None \<Rightarrow> - 1 | Some v \<Rightarrow> v)"
    unfolding crypto_id_ip_port_def by (rule bs_list_find_map [OF l])
  have "\<exists>conn. 0 \<le> v \<and> get_crypto_connection c (nat v) = Some conn \<and>
      (ev_image E source = ev_image E (ip_portv4 conn) \<or> ev_image E source = ev_image E (ip_portv6 conn))"
    if m: "bs_map (ip_port_list c) (ev_image E source) = Some v" for v
  proof -
    obtain j a4 a6 where j: "v = int j" "addr_view c j = Some (a4, a6)" "ev_image E source = ev_image E a4 \<or> ev_image E source = ev_image E a6"
      using assms(1) m unfolding index_ok_def by blast
    then obtain conn where "get_crypto_connection c j = Some conn" "a4 = ip_portv4 conn" "a6 = ip_portv6 conn" by (auto simp: addr_view_def)
    then show ?thesis using j by simp
  qed
  then have "\<exists>v. crypto_id_ip_port E c source = Some v \<and> (v = - 1 \<or>
      (\<exists>conn. 0 \<le> v \<and> get_crypto_connection c (nat v) = Some conn \<and>
         (ev_image E source = ev_image E (ip_portv4 conn) \<or> ev_image E source = ev_image E (ip_portv6 conn))))"
    using f by (cases "bs_map (ip_port_list c) (ev_image E source)") auto
  then show ?thesis
    using handle_packet_connection_index [OF assms(1) al] handle_new_connection_handshake_index [OF assms(1,2)] assms(3)
      accept_crypto_connection_index [OF assms(1,2)] new_crypto_connection_index [OF assms(1)]
      add_ip_port_connection_index [OF assms(1,2)] crypto_kill_index [OF assms(1) al] kill_timedout_index [OF assms(1) al]
    by (simp add: kill_timedout_def)
qed

definition sample_empty_bs :: bs_list where
  "sample_empty_bs = \<lparr>bs_n = 0, bs_capacity = 8, bs_element_size = 1, bs_data = replicate 8 0, bs_ids = replicate 8 0\<rparr>"

theorem ip_index_invariant_witness:
  "index_ok sample_env (snd (add_ip_port_connection sample_env (sample_pair\<lparr>ip_port_list := sample_empty_bs\<rparr>) 0 (nf_ip_port sample_node))) \<and>
   index_ok sample_env (snd (crypto_kill sample_env (sample_pair\<lparr>ip_port_list := sample_empty_bs\<rparr>) 1))"
proof -
  let ?c = "sample_pair\<lparr>ip_port_list := sample_empty_bs\<rparr>"
  have "bs_map sample_empty_bs = Map.empty" by (simp add: bs_map_def bs_assoc_def bs_keys_def sample_empty_bs_def)
  moreover have "bs_inv sample_empty_bs"
    by (simp add: bs_inv_def bs_wf_def sample_empty_bs_def bs_keys_def)
  ultimately have ok: "index_ok sample_env ?c" by (simp add: index_ok_def bs_key_ok_def) (simp add: sample_env_def sample_empty_bs_def)
  have room: "index_room sample_env ?c" by (simp add: index_room_def sample_env_def bs_room_def sample_empty_bs_def)
  have cb: "\<forall>n c'. index_ok sample_env c' \<longrightarrow> index_ok sample_env (snd (ev_new_connection sample_env n c'))" by (simp add: sample_env_def)
  show ?thesis
    using ip_index_invariant [OF ok room cb, of "nf_ip_port sample_node" 0] ip_index_invariant [OF ok room cb, of "nf_ip_port sample_node" 1] by blast
qed

end
