(* ===== verification/Crypto_Life.thy ===== *)
theory Crypto_Life
  imports Crypto_Index
begin

text \<open>
  The life of a connection of \<open>toxcore/net_crypto.c\<close> as a state machine. \<open>packet_step\<close> is the
  protocol: one rule per transition that a received packet may cause, with what the packet has to
  contain as its guard. Handling a packet follows it, and the operations that open and close
  connections change exactly the status they are meant to.
\<close>

text \<open>
  The nonce a data packet is opened with: the receiving nonce of the connection, advanced to the
  next nonce whose last two bytes are the two bytes after the packet's type.
\<close>

definition packet_nonce :: "Crypto_Connection \<Rightarrow> bytes \<Rightarrow> bytes" where
  "packet_nonce conn packet = increment_nonce_number (recv_nonce conn)
     (word_of_nat (unat (word_of_nat (be_val (read_at packet 1 2)) - get_nonce_uint16 (recv_nonce conn))))"

lemma packet_nonce_number:
  assumes n: "length (recv_nonce conn) = crypto_box_NONCEBYTES"
  shows "\<exists>k<65536. packet_nonce conn packet = (increment_nonce ^^ k) (recv_nonce conn) \<and>
    get_nonce_uint16 (packet_nonce conn packet) = word_of_nat (be_val (read_at packet 1 2))"
proof -
  let ?d = "word_of_nat (be_val (read_at packet 1 2)) - get_nonce_uint16 (recv_nonce conn) :: u16"
  have n24: "length (recv_nonce conn) = 24" using n by simp
  have lt: "unat ?d < 65536" using unsigned_less [of ?d, where ?'a = nat] by simp
  then have "unat (word_of_nat (unat ?d) :: u32) = unat ?d" by (subst unsigned_of_nat) (simp add: take_bit_nat_eq_self)
  then have eq: "packet_nonce conn packet = (increment_nonce ^^ unat ?d) (recv_nonce conn)"
    using increment_nonce_number_funpow [OF n24, of "word_of_nat (unat ?d)"] by (simp add: packet_nonce_def)
  have "get_nonce_uint16 (packet_nonce conn packet) = word_of_nat (be_val (recv_nonce conn)) + ?d"
    unfolding eq nonce_number_steps [OF n24] by simp
  then show ?thesis using eq lt get_nonce_uint16_mod [OF n24] by (intro exI [of _ "unat ?d"]) simp
qed

inductive packet_step :: "nc_env \<Rightarrow> Net_Crypto \<Rightarrow> Crypto_Connection \<Rightarrow> bytes \<Rightarrow> conn_status \<Rightarrow> bool"
  for E :: nc_env and c :: Net_Crypto and conn :: Crypto_Connection and packet :: bytes where
  unchanged: "packet_step E c conn packet (conn_stat conn)"
| cookie_arrived: "packet_step E c conn packet CRYPTO_CONN_HANDSHAKE_SENT"
    if "conn_stat conn = CRYPTO_CONN_COOKIE_REQUESTING"
      "handle_cookie_response (ev_nacl E) packet (cc_shared_key conn) = Some (cookie, cookie_request_number conn)"
| handshake_arrived: "packet_step E c conn packet CRYPTO_CONN_NOT_CONFIRMED"
    if "conn_stat conn = CRYPTO_CONN_COOKIE_REQUESTING \<or> conn_stat conn = CRYPTO_CONN_HANDSHAKE_SENT"
      "handle_crypto_handshake (ev_nacl E) (ev_sha512 E) (ev_unix E) c packet (Some (cc_public_key conn)) = Some hs"
      "memcmp (hs_dht_public_key hs) (cc_dht_public_key conn) = 0"
| confirmed: "packet_step E c conn packet CRYPTO_CONN_ESTABLISHED"
    if "conn_stat conn = CRYPTO_CONN_NOT_CONFIRMED"
      "decrypt_data_symmetric (ev_nacl E) (cc_shared_key conn) (packet_nonce conn packet) (drop 3 packet) = Some plain"
| closed: "packet_step E c conn packet CRYPTO_CONN_NO_CONNECTION"
    if "conn_stat conn = CRYPTO_CONN_NOT_CONFIRMED \<or> conn_stat conn = CRYPTO_CONN_ESTABLISHED"
      "decrypt_data_symmetric (ev_nacl E) (cc_shared_key conn) (packet_nonce conn packet) (drop 3 packet) = Some plain"

inductive_cases packet_step_established: "packet_step E c conn packet CRYPTO_CONN_ESTABLISHED"

definition conn_status_of :: "Net_Crypto \<Rightarrow> nat \<Rightarrow> conn_status" where
  "conn_status_of c i = (case get_crypto_connection c i of None \<Rightarrow> CRYPTO_CONN_NO_CONNECTION | Some k \<Rightarrow> conn_stat k)"

lemma status_of_view: "conn_status_of c i = (case conn_view c i of None \<Rightarrow> CRYPTO_CONN_NO_CONNECTION | Some k \<Rightarrow> conn_stat k)"
  by (simp add: conn_status_of_def conn_view_def unsent_def split: option.split)

lemma status_of_same: "same_but_sent c c' \<Longrightarrow> conn_status_of c' i = conn_status_of c i"
  using conn_view_same [of c c' i] by (simp add: status_of_view)

lemma status_of_log [simp]: "conn_status_of (log_event e c) i = conn_status_of c i"
  by (simp add: conn_status_of_def)

lemma status_of_list [simp]: "conn_status_of (c\<lparr>ip_port_list := l\<rparr>) i = conn_status_of c i"
  "conn_status_of (c\<lparr>nc_dht := d\<rparr>) i = conn_status_of c i"
  by (simp_all add: conn_status_of_def get_crypto_connection_def crypt_connection_id_not_valid_def)

text \<open>Reading and writing the status through the array, whether the number is in use or not.\<close>

lemma status_of_nth: "conn_status_of c i = (if i < length (crypto_connections c) then conn_stat (crypto_connections c ! i) else CRYPTO_CONN_NO_CONNECTION)"
  by (simp add: conn_status_of_def get_crypto_connection_def crypt_connection_id_not_valid_def)

lemma status_of_in_use: "conn_status_of c i \<noteq> CRYPTO_CONN_NO_CONNECTION \<Longrightarrow> i < length (crypto_connections c)"
  by (simp add: status_of_nth split: if_splits)

lemma status_of_upd:
  "(\<And>k. conn_stat (f k) = conn_stat k) \<Longrightarrow> conn_status_of (upd_conn f c i) j = conn_status_of c j"
  by (cases "j = i") (auto simp: status_of_nth upd_conn_def)

lemma status_of_set:
  "i < length (crypto_connections c) \<Longrightarrow> conn_status_of (upd_conn (conn_stat_update (\<lambda>_. s)) c i) i = s"
  by (simp add: status_of_nth)

lemma new_temp_packet_status [simp]: "conn_status_of (snd (new_temp_packet E c i p)) j = conn_status_of c j"
  by (auto simp: new_temp_packet_def status_of_upd split: option.split)

lemma clear_temp_packet_status [simp]: "conn_status_of (snd (clear_temp_packet c i)) j = conn_status_of c j"
  by (auto simp: clear_temp_packet_def status_of_upd split: option.split)

lemma send_temp_packet_status [simp]: "conn_status_of (snd (send_temp_packet E c i)) j = conn_status_of c j"
proof -
  have "send_packet_to E c i p = (ok, c1) \<Longrightarrow> conn_status_of c1 j = conn_status_of c j" for p ok c1
    using status_of_same [OF send_packet_to_same] by (metis snd_conv)
  then show ?thesis by (auto simp: send_temp_packet_def Let_def status_of_upd split: option.split prod.split)
qed

lemma create_send_handshake_status [simp]: "conn_status_of (snd (create_send_handshake E c i a b)) j = conn_status_of c j"
proof -
  have "new_temp_packet E c i p = (ok, c1) \<Longrightarrow> conn_status_of c1 j = conn_status_of c j" for p ok c1
    using new_temp_packet_status by (metis snd_conv)
  then show ?thesis by (auto simp: create_send_handshake_def Let_def split: option.split prod.split)
qed

lemma handle_data_packet_status [simp]: "conn_status_of (snd (handle_data_packet E c i p)) j = conn_status_of c j"
  by (auto simp: handle_data_packet_def Let_def status_of_upd split: option.split)

lemma update_rtt_status [simp]: "conn_status_of (update_rtt E t c i) j = conn_status_of c j"
  by (auto simp: update_rtt_def Let_def status_of_upd)

lemma crypto_kill_status:
  "conn_status_of (snd (crypto_kill E c i)) j = (if j = i then CRYPTO_CONN_NO_CONNECTION else conn_status_of c j)"
proof (cases "get_crypto_connection c i")
  case None
  then show ?thesis by (simp add: crypto_kill_def conn_status_of_def)
next
  case (Some conn)
  then show ?thesis using crypto_kill_view(1) [OF Some, of E] by (simp add: status_of_view)
qed

lemma connection_kill_status:
  "conn_status_of (connection_kill E c i) j = (if j = i then CRYPTO_CONN_NO_CONNECTION else conn_status_of c j)"
  by (auto simp: connection_kill_def Let_def crypto_kill_status conn_status_of_def [of c i] split: option.split)

lemma status_of_upd_other: "j \<noteq> i \<Longrightarrow> conn_status_of (upd_conn f c i) j = conn_status_of c j"
  by (simp add: status_of_nth upd_conn_def)

lemma deliver_loop_others: "j \<noteq> i \<Longrightarrow> conn_status_of (snd (deliver_loop E i c)) j = conn_status_of c j"
proof (induction E i c rule: deliver_loop.induct)
  case (1 E i c)
  show ?case
  proof (cases "get_crypto_connection c i")
    case None
    then show ?thesis by (subst deliver_loop.simps) simp
  next
    case (Some conn)
    obtain r arr where ra: "read_data_beg_buffer (recv_array conn) = (r, arr)" by fastforce
    show ?thesis
    proof (cases r)
      case None
      then show ?thesis using ra Some by (subst deliver_loop.simps) simp
    next
      case r: (Some nd)
      obtain number d where nd: "nd = (number, d)" by (cases nd)
      let ?c1 = "upd_conn (recv_array_update (\<lambda>_. arr)) c i"
      let ?c2 = "case connection_data_callback conn of None \<Rightarrow> ?c1 | Some (object, ident) \<Rightarrow> log_event (DataCallback object ident (pd_data d)) ?c1"
      have s: "conn_status_of ?c1 j = conn_status_of c j" using 1(2) by (simp add: status_of_upd_other)
      then have s2: "conn_status_of ?c2 j = conn_status_of c j" by (simp split: option.split prod.split)
      have "conn_status_of (snd (deliver_loop E i ?c2)) j = conn_status_of c j"
        if "number \<noteq> - 1" "\<not> (connection_data_callback conn \<noteq> None \<and> ev_data_kills E (pd_data d))"
        using 1(1) [OF Some ra [symmetric] r [unfolded nd] refl refl that(1) refl that(2) 1(2)] s2 by simp
      then show ?thesis using Some ra r nd s s2 1(2) crypto_kill_status [of E ?c2 i j] by (subst deliver_loop.simps) (simp add: Let_def)
    qed
  qed
qed

lemma deliver_loop_status:
  "conn_status_of (snd (deliver_loop E i c)) i = conn_status_of c i \<or> conn_status_of (snd (deliver_loop E i c)) i = CRYPTO_CONN_NO_CONNECTION"
proof (induction E i c rule: deliver_loop.induct)
  case (1 E i c)
  show ?case
  proof (cases "get_crypto_connection c i")
    case None
    then show ?thesis by (subst (1 2) deliver_loop.simps) simp
  next
    case (Some conn)
    obtain r arr where ra: "read_data_beg_buffer (recv_array conn) = (r, arr)" by fastforce
    show ?thesis
    proof (cases r)
      case None
      then show ?thesis using ra Some by (subst (1 2) deliver_loop.simps) simp
    next
      case r: (Some nd)
      obtain number d where nd: "nd = (number, d)" by (cases nd)
      let ?c1 = "upd_conn (recv_array_update (\<lambda>_. arr)) c i"
      let ?c2 = "case connection_data_callback conn of None \<Rightarrow> ?c1 | Some (object, ident) \<Rightarrow> log_event (DataCallback object ident (pd_data d)) ?c1"
      have s: "conn_status_of ?c1 i = conn_status_of c i" by (rule status_of_upd) simp
      then have s2: "conn_status_of ?c2 i = conn_status_of c i" by (simp split: option.split prod.split)
      have "conn_status_of (snd (deliver_loop E i ?c2)) i = conn_status_of c i \<or> conn_status_of (snd (deliver_loop E i ?c2)) i = CRYPTO_CONN_NO_CONNECTION"
        if "number \<noteq> - 1" "\<not> (connection_data_callback conn \<noteq> None \<and> ev_data_kills E (pd_data d))"
        using 1(1) [OF Some ra [symmetric] r [unfolded nd] refl refl that(1) refl that(2)] s2 by simp
      then show ?thesis using Some ra r nd s crypto_kill_status [of E ?c2 i] by (subst (1 2) deliver_loop.simps) (simp add: Let_def)
    qed
  qed
qed

lemma confirm_connection_status:
  assumes "i < length (crypto_connections c)"
  shows "conn_status_of (confirm_connection c i) j =
    (if j = i \<and> conn_status_of c i = CRYPTO_CONN_NOT_CONFIRMED then CRYPTO_CONN_ESTABLISHED else conn_status_of c j)"
proof -
  let ?c1 = "snd (clear_temp_packet c i)"
  have "conn_status_of (upd_conn (conn_stat_update (\<lambda>_. CRYPTO_CONN_ESTABLISHED)) ?c1 i) j =
      (if j = i then CRYPTO_CONN_ESTABLISHED else conn_status_of c j)"
    using assms by (auto simp: status_of_set status_of_upd_other)
  moreover have "conn_status_of c i = conn_stat (crypto_connections c ! i)" using assms by (simp add: status_of_nth)
  ultimately show ?thesis by (auto simp: confirm_connection_def Let_def split: option.split prod.split)
qed

lemma handle_real_data_status:
  assumes i: "i < length (crypto_connections c)"
  shows "conn_status_of (snd (handle_real_data E c i udp num t data)) i \<in>
    {conn_status_of c i, conn_status_of (confirm_connection c i) i, CRYPTO_CONN_NO_CONNECTION}" (is ?self)
    and "j \<noteq> i \<Longrightarrow> conn_status_of (snd (handle_real_data E c i udp num t data)) j = conn_status_of c j" (is "_ \<Longrightarrow> ?other")
proof -
  let ?c1 = "confirm_connection c i"
  have upd: "conn_status_of (upd_conn (send_array_update f) c' i) k = conn_status_of c' k"
    "conn_status_of (upd_conn (recv_array_update f) c' i) k = conn_status_of c' k"
    "conn_status_of (upd_conn (packet_counter_update g) c' i) k = conn_status_of c' k" for f g c' k by (rule status_of_upd; simp)+
  have dl: "conn_status_of c3 i \<in> {conn_status_of ?c1 i, CRYPTO_CONN_NO_CONNECTION}" "j \<noteq> i \<Longrightarrow> conn_status_of c3 j = conn_status_of ?c1 j"
    if "deliver_loop E i (upd_conn (recv_array_update f) ?c1 i) = (a, c3)" for f a c3
    using deliver_loop_status [of E i "upd_conn (recv_array_update f) ?c1 i"]
      deliver_loop_others [of j i E "upd_conn (recv_array_update f) ?c1 i"] that upd by auto
  show ?self
  proof (cases data)
    case (Cons pid rest)
    then show ?thesis
      unfolding handle_real_data_def Cons list.case Let_def
      by (auto simp: upd connection_kill_status split: prod.split option.split dest: dl(1))
  qed (simp add: handle_real_data_def)
  show ?other if j: "j \<noteq> i"
  proof (cases data)
    case (Cons pid rest)
    have "conn_status_of ?c1 j = conn_status_of c j" using confirm_connection_status [OF i] j by simp
    then show ?thesis
      unfolding handle_real_data_def Cons list.case Let_def
      using j by (auto simp: upd connection_kill_status split: prod.split option.split dest: dl(2))
  qed (simp add: handle_real_data_def)
qed

lemma handle_data_packet_decrypts:
  assumes "handle_data_packet E c i packet = (Some data, c1)" and "get_crypto_connection c i = Some conn"
  shows "decrypt_data_symmetric (ev_nacl E) (cc_shared_key conn) (packet_nonce conn packet) (drop 3 packet) = Some data"
  using assms by (auto simp: handle_data_packet_def Let_def packet_nonce_def numeral_3_eq_3 split: if_splits option.splits)

lemma handle_data_packet_helper_status:
  assumes conn: "get_crypto_connection c i = Some conn" and st: "conn_stat conn = CRYPTO_CONN_NOT_CONFIRMED \<or> conn_stat conn = CRYPTO_CONN_ESTABLISHED"
  shows "packet_step E c conn packet (conn_status_of (snd (handle_data_packet_helper E c i packet udp)) i)" (is ?self)
    and "j \<noteq> i \<Longrightarrow> conn_status_of (snd (handle_data_packet_helper E c i packet udp)) j = conn_status_of c j" (is "_ \<Longrightarrow> ?other")
proof -
  have s: "conn_status_of c i = conn_stat conn" using conn by (simp add: conn_status_of_def)
  obtain d c1 where d: "handle_data_packet E c i packet = (d, c1)" by fastforce
  have s1: "conn_status_of c1 k = conn_status_of c k" for k using handle_data_packet_status [of E c i packet k] d by simp
  have len: "i < length (crypto_connections c1)"
    using s1 [of i] s st by (intro status_of_in_use) auto
  let ?c2 = "\<lambda>f. upd_conn (send_array_update f) c1 i"
  have s2: "conn_status_of (?c2 f) k = conn_status_of c k" for f k using s1 by (simp add: status_of_upd)
  have hr: "packet_step E c conn packet (conn_status_of (snd (handle_real_data E (?c2 f) i udp num t x)) i)" if "d = Some plain" for f num t x plain
  proof -
    note op = handle_data_packet_decrypts [OF d [unfolded that] conn]
    have "packet_step E c conn packet (conn_status_of (confirm_connection (?c2 f) i) i)"
      using confirm_connection_status [of i "?c2 f" i] s2 s len packet_step.confirmed [of conn E packet plain c] op
        packet_step.unchanged [of E c conn packet] by simp
    then show ?thesis
      using handle_real_data_status(1) [of i "?c2 f" E udp num t x] len s2 s packet_step.closed [OF st op, of c] packet_step.unchanged [of E c conn packet] by auto
  qed
  have ho: "conn_status_of (snd (handle_real_data E (?c2 f) i udp num t x)) j = conn_status_of c j" if "j \<noteq> i" for f num t x
    using handle_real_data_status(2) [of i "?c2 f" j E udp num t x] that len s2 by simp
  show ?self
    using conn d s s1 hr packet_step.unchanged [of E c conn packet] unfolding handle_data_packet_helper_def Let_def
    by (auto split: option.splits prod.splits)
  show "j \<noteq> i \<Longrightarrow> ?other"
    using conn d s1 ho unfolding handle_data_packet_helper_def Let_def by (auto split: option.splits prod.splits)
qed

text \<open>The state after a packet: each kind of packet either leaves every status or writes one.\<close>

lemma handshake_statuses:
  assumes conn: "conn_status_of c i \<noteq> CRYPTO_CONN_NO_CONNECTION"
    and c1: "\<And>k. conn_status_of c1 k = conn_status_of c k" and step: "create_send_handshake E c1 i a b = (ok, c2)"
  shows "conn_status_of c2 k = conn_status_of c k"
    and "conn_status_of (upd_conn (conn_stat_update (\<lambda>_. t)) c2 i) k = (if k = i then t else conn_status_of c k)"
proof -
  show s: "conn_status_of c2 k = conn_status_of c k" for k
    using create_send_handshake_status [of E c1 i a b k] step c1 by simp
  show "conn_status_of (upd_conn (conn_stat_update (\<lambda>_. t)) c2 i) k = (if k = i then t else conn_status_of c k)"
    using s [of i] s [of k] conn status_of_in_use [of c2 i] by (auto simp: status_of_set status_of_upd_other)
qed

lemma cookie_response_status:
  assumes conn: "get_crypto_connection c i = Some conn" and p: "packet ! 0 = NET_PACKET_COOKIE_RESPONSE"
    and c': "c' = snd (handle_packet_connection E c i packet udp)"
  shows "(\<forall>j. conn_status_of c' j = conn_status_of c j) \<or>
    conn_stat conn = CRYPTO_CONN_COOKIE_REQUESTING \<and>
    (\<exists>cookie. handle_cookie_response (ev_nacl E) packet (cc_shared_key conn) = Some (cookie, cookie_request_number conn)) \<and>
    (\<forall>j. conn_status_of c' j = (if j = i then CRYPTO_CONN_HANDSHAKE_SENT else conn_status_of c j))"
proof -
  have nz: "conn_status_of c i \<noteq> CRYPTO_CONN_NO_CONNECTION"
    using conn get_crypto_connectionD [OF conn] by (auto simp: conn_status_of_def)
  note h = handshake_statuses [OF nz refl]
  show ?thesis
    unfolding c' handle_packet_connection_def Let_def conn
    using p by (auto split: option.split prod.split simp: h)
qed

lemma handshake_packet_status:
  assumes conn: "get_crypto_connection c i = Some conn" and p: "packet ! 0 = NET_PACKET_CRYPTO_HS"
    and c': "c' = snd (handle_packet_connection E c i packet udp)"
  shows "(\<forall>j. conn_status_of c' j = conn_status_of c j) \<or>
    conn_stat conn \<in> {CRYPTO_CONN_COOKIE_REQUESTING, CRYPTO_CONN_HANDSHAKE_SENT, CRYPTO_CONN_NOT_CONFIRMED} \<and>
    (\<exists>hs. handle_crypto_handshake (ev_nacl E) (ev_sha512 E) (ev_unix E) c packet (Some (cc_public_key conn)) = Some hs \<and>
       memcmp (hs_dht_public_key hs) (cc_dht_public_key conn) = 0) \<and>
    (\<forall>j. conn_status_of c' j = (if j = i then CRYPTO_CONN_NOT_CONFIRMED else conn_status_of c j))"
proof (cases "packet = [] \<or> length packet > MAX_CRYPTO_PACKET_SIZE \<or> handle_crypto_handshake (ev_nacl E) (ev_sha512 E) (ev_unix E) c packet (Some (cc_public_key conn)) = None \<or>
    conn_stat conn \<notin> {CRYPTO_CONN_COOKIE_REQUESTING, CRYPTO_CONN_HANDSHAKE_SENT, CRYPTO_CONN_NOT_CONFIRMED}")
  case True
  then show ?thesis using conn p unfolding c' handle_packet_connection_def by auto
next
  case False
  then obtain hs where hs: "handle_crypto_handshake (ev_nacl E) (ev_sha512 E) (ev_unix E) c packet (Some (cc_public_key conn)) = Some hs" by auto
  have nz: "conn_status_of c i \<noteq> CRYPTO_CONN_NO_CONNECTION"
    using conn get_crypto_connectionD [OF conn] by (auto simp: conn_status_of_def)
  define c1 where "c1 = upd_conn (\<lambda>k. k\<lparr>recv_nonce := hs_nonce hs, peersessionpublic_key := hs_session_pk hs\<rparr>) c i"
  define c2 where "c2 = upd_conn (\<lambda>k. k\<lparr>cc_shared_key := encrypt_precompute (ev_nacl E) (peersessionpublic_key k) (sessionsecret_key k)\<rparr>) c1 i"
  have k: "conn_status_of c1 k = conn_status_of c k" "conn_status_of c2 k = conn_status_of c k" for k
    by (simp_all add: c1_def c2_def status_of_upd)
  have set: "conn_status_of (upd_conn (conn_stat_update (\<lambda>_. t)) c2 i) k = (if k = i then t else conn_status_of c k)" for t k
    using k(2) [of i] k(2) [of k] nz status_of_in_use [of c2 i] by (auto simp: status_of_set status_of_upd_other)
  note h = handshake_statuses [OF nz k(2)]
  show ?thesis
    using False hs p unfolding c' handle_packet_connection_def Let_def conn
    by (auto split: option.split prod.split if_splits simp: h set k k(1) [unfolded c1_def] c1_def [symmetric] c2_def [symmetric])
qed

lemma handle_packet_connection_status:
  assumes conn: "get_crypto_connection c i = Some conn" and c': "c' = snd (handle_packet_connection E c i packet udp)"
  shows "packet_step E c conn packet (conn_status_of c' i) \<and> (\<forall>j. j \<noteq> i \<longrightarrow> conn_status_of c' j = conn_status_of c j)"
proof -
  have s: "conn_status_of c i = conn_stat conn" using conn by (simp add: conn_status_of_def)
  note same = packet_step.unchanged [of E c conn packet]
  have "handle_packet_connection E c i packet udp =
      (if packet \<noteq> [] \<and> length packet \<le> MAX_CRYPTO_PACKET_SIZE \<and> packet ! 0 = NET_PACKET_CRYPTO_DATA \<and>
          (conn_stat conn = CRYPTO_CONN_NOT_CONFIRMED \<or> conn_stat conn = CRYPTO_CONN_ESTABLISHED)
       then handle_data_packet_helper E c i packet udp else (False, c))"
    if "packet ! 0 \<noteq> NET_PACKET_COOKIE_RESPONSE" "packet ! 0 \<noteq> NET_PACKET_CRYPTO_HS"
    using conn that by (simp add: handle_packet_connection_def)
  then consider (cookie) "packet ! 0 = NET_PACKET_COOKIE_RESPONSE" | (hs) "packet ! 0 = NET_PACKET_CRYPTO_HS"
    | (data) "handle_packet_connection E c i packet udp = handle_data_packet_helper E c i packet udp"
        "conn_stat conn = CRYPTO_CONN_NOT_CONFIRMED \<or> conn_stat conn = CRYPTO_CONN_ESTABLISHED"
    | (none) "handle_packet_connection E c i packet udp = (False, c)"
    by argo
  then show ?thesis
  proof cases
    case cookie
    show ?thesis using cookie_response_status [OF conn cookie c'] s same packet_step.cookie_arrived [of conn E packet _ c] by auto
  next
    case hs
    show ?thesis using handshake_packet_status [OF conn hs c'] s same packet_step.handshake_arrived [of conn E c packet] by force
  next
    case data
    show ?thesis using handle_data_packet_helper_status [OF conn data(2), where E = E and packet = packet and udp = udp] data(1) c' by simp
  next
    case none
    then show ?thesis using c' s same by simp
  qed
qed

section \<open>Opening and closing\<close>

lemma create_crypto_connection_status:
  assumes "create_crypto_connection E c = (r, c1)"
  shows "conn_status_of c1 j = conn_status_of c j"
    and "r = Some i \<Longrightarrow> i < length (crypto_connections c1)" and "r = Some i \<Longrightarrow> conn_status_of c i = CRYPTO_CONN_NO_CONNECTION"
proof -
  have "conn_status_of (c\<lparr>crypto_connections := crypto_connections c @ [conn_zero]\<rparr>) j = conn_status_of c j"
    by (auto simp: status_of_nth nth_append conn_zero_def)
  then show "conn_status_of c1 j = conn_status_of c j" using assms by (auto simp: create_crypto_connection_def split: option.splits if_splits)
  show "r = Some i \<Longrightarrow> i < length (crypto_connections c1)"
    using assms free_index_status [of "crypto_connections c" 0 i] by (auto simp: create_crypto_connection_def split: option.splits if_splits)
  show "r = Some i \<Longrightarrow> conn_status_of c i = CRYPTO_CONN_NO_CONNECTION"
    using create_crypto_connection_addr(2) [OF assms] by (simp add: conn_status_of_def)
qed

lemma add_source_status [simp]: "conn_status_of (snd (crypto_connection_add_source E c i source)) j = conn_status_of c j"
proof -
  have "conn_status_of (snd (add_ip_port_connection E c i source)) j = conn_status_of c j"
    by (auto simp: add_ip_port_connection_def Let_def status_of_upd split: option.split prod.split)
  then have "add_ip_port_connection E c i source = (r, c1) \<Longrightarrow> conn_status_of c1 j = conn_status_of c j" for r c1 by (metis snd_conv)
  then show ?thesis by (auto simp: crypto_connection_add_source_def Let_def status_of_upd split: option.split prod.split)
qed

text \<open>Both ways of opening a connection write the status of a free number, and take it back on failure.\<close>

lemma opened_status:
  assumes cr: "create_crypto_connection E c = (Some i, c1)"
    and c2: "\<And>j. conn_status_of c2 j = conn_status_of c1 j" "length (crypto_connections c2) = length (crypto_connections c1)"
    and f: "\<And>k. conn_stat (f k) = t"
  shows "conn_status_of (upd_conn f c2 i) j = (if j = i then t else conn_status_of c j)"
    and "(\<And>j. conn_status_of c3 j = conn_status_of (upd_conn f c2 i) j) \<Longrightarrow>
      conn_status_of (upd_conn (conn_stat_update (\<lambda>_. CRYPTO_CONN_NO_CONNECTION)) c3 i) j = conn_status_of c j"
proof -
  note s = create_crypto_connection_status [OF cr]
  have i: "i < length (crypto_connections c2)" using s(2) c2(2) by simp
  show op: "conn_status_of (upd_conn f c2 i) j = (if j = i then t else conn_status_of c j)" for j
    using i f s(1) c2(1) by (cases "j = i") (simp_all add: status_of_upd_other, simp add: status_of_nth)
  show "conn_status_of (upd_conn (conn_stat_update (\<lambda>_. CRYPTO_CONN_NO_CONNECTION)) c3 i) j = conn_status_of c j"
    if "\<And>j. conn_status_of c3 j = conn_status_of (upd_conn f c2 i) j"
    using that [of j] op [of j] s(3) [OF refl] by (cases "j = i") (simp_all add: status_of_upd_other, simp add: status_of_nth)
qed

lemma log_event_length [simp]: "length (crypto_connections (log_event e c)) = length (crypto_connections c)"
  by (simp add: log_event_def)

lemma accept_crypto_connection_status:
  assumes "accept_crypto_connection E c n = (r, c')"
  shows "conn_status_of c' j = (if r = Some j then CRYPTO_CONN_NOT_CONFIRMED else conn_status_of c j) \<and>
    (r = Some j \<longrightarrow> conn_status_of c j = CRYPTO_CONN_NO_CONNECTION)"
proof -
  obtain q c1 where cr: "create_crypto_connection E c = (q, c1)" by fastforce
  show ?thesis
  proof (cases q)
    case None
    then show ?thesis using assms cr create_crypto_connection_status(1) [OF cr]
      by (auto simp: accept_crypto_connection_def split: if_splits)
  next
    case (Some i)
    note cr' = cr [unfolded Some] and st = create_crypto_connection_status [OF cr]
    obtain pk sk where ks: "ev_keypair E = (pk, sk)" by fastforce
    define f where "f tcp = (\<lambda>k :: Crypto_Connection. k\<lparr>connection_number_tcp := tcp, cc_public_key := nw_public_key n,
                              recv_nonce := nw_recv_nonce n, peersessionpublic_key := nw_peersessionpublic_key n,
                              sent_nonce := ev_random_nonce E, sessionpublic_key := pk, sessionsecret_key := sk,
                              cc_shared_key := encrypt_precompute (ev_nacl E) (nw_peersessionpublic_key n) sk,
                              conn_stat := CRYPTO_CONN_NOT_CONFIRMED\<rparr>)" for tcp
    let ?c2 = "log_event (NewTcp (nw_dht_public_key n) i) c1"
    have op: "conn_status_of (upd_conn (f tcp) ?c2 i) j = (if j = i then CRYPTO_CONN_NOT_CONFIRMED else conn_status_of c j)" for tcp j
      by (rule opened_status(1) [OF cr']) (simp_all add: f_def)
    have un: "conn_status_of (upd_conn (conn_stat_update (\<lambda>_. CRYPTO_CONN_NO_CONNECTION)) c3 i) j = conn_status_of c j"
      if "\<And>j. conn_status_of c3 j = conn_status_of (upd_conn (f tcp) ?c2 i) j" for tcp c3 j
      by (rule opened_status(2) [OF cr' _ _ _ that]) (simp_all add: f_def)
    have hs: "conn_status_of c4 j = conn_status_of (upd_conn (f tcp) ?c2 i) j"
      if "create_send_handshake E (upd_conn (f tcp) ?c2 i) i a b = (k, c4)" for tcp a b k c4 j
      using create_send_handshake_status [of E "upd_conn (f tcp) ?c2 i" i a b j] that by simp
    have sr: "conn_stat (start_rates (k\<lparr>cc_dht_public_key := d\<rparr>)) = conn_stat k" for k d by (simp add: start_rates_def)
    have "r = None \<and> conn_status_of c' j = conn_status_of c j \<or>
        r = Some i \<and> conn_status_of c' j = (if j = i then CRYPTO_CONN_NOT_CONFIRMED else conn_status_of c j)"
      using assms st(1) unfolding accept_crypto_connection_def cr' prod.case option.case Let_def ks f_def [symmetric]
      by (auto split: if_splits option.splits prod.splits simp: status_of_upd [OF sr] un op hs)
    then show ?thesis using st(3) [OF Some] by (auto split: if_splits)
  qed
qed

lemma key_index_of_status:
  "key_index_of ks pk n = Some i \<Longrightarrow> n \<le> i \<and> i < n + length ks \<and> conn_stat (ks ! (i - n)) \<noteq> CRYPTO_CONN_NO_CONNECTION"
proof (induction ks arbitrary: n)
  case (Cons k ks)
  show ?case
  proof (cases "conn_stat k \<noteq> CRYPTO_CONN_NO_CONNECTION \<and> memcmp pk (cc_public_key k) = 0")
    case False
    then have "Suc n \<le> i \<and> i < Suc n + length ks \<and> conn_stat (ks ! (i - Suc n)) \<noteq> CRYPTO_CONN_NO_CONNECTION"
      using Cons.prems by (intro Cons.IH) auto
    moreover from this have "i - n = Suc (i - Suc n)" by linarith
    ultimately show ?thesis by simp
  qed (use Cons.prems in simp)
qed simp

lemma new_crypto_connection_status:
  assumes "new_crypto_connection E c real dht = (r, c')"
  shows "conn_status_of c' j =
    (if r = Some j \<and> conn_status_of c j = CRYPTO_CONN_NO_CONNECTION then CRYPTO_CONN_COOKIE_REQUESTING else conn_status_of c j)"
proof -
  obtain q c1 where cr: "create_crypto_connection E c = (q, c1)" by fastforce
  have known: "conn_status_of c i \<noteq> CRYPTO_CONN_NO_CONNECTION" if "getcryptconnection_id c real = Some i" for i
    using key_index_of_status [OF that [unfolded getcryptconnection_id_def]] by (simp add: status_of_nth)
  show ?thesis
  proof (cases "getcryptconnection_id c real \<noteq> None \<or> q = None")
    case True
    then show ?thesis using assms cr create_crypto_connection_status(1) [OF cr] known
      by (auto simp: new_crypto_connection_def split: if_splits option.splits)
  next
    case False
    then obtain i where Some: "q = Some i" and no: "getcryptconnection_id c real = None" by auto
    note cr' = cr [unfolded Some] and st = create_crypto_connection_status [OF cr]
    obtain pk sk where ks: "ev_keypair E = (pk, sk)" by fastforce
    define f where "f tcp = (\<lambda>k :: Crypto_Connection. start_rates (k\<lparr>connection_number_tcp := tcp, cc_public_key := real,
                                 sent_nonce := ev_random_nonce E, sessionpublic_key := pk, sessionsecret_key := sk,
                                 conn_stat := CRYPTO_CONN_COOKIE_REQUESTING, cc_dht_public_key := dht,
                                 cookie_request_number := ev_random64 E\<rparr>))" for tcp
    let ?c2 = "log_event (NewTcp dht i) c1"
    have op: "conn_status_of (upd_conn (f tcp) ?c2 i) j = (if j = i then CRYPTO_CONN_COOKIE_REQUESTING else conn_status_of c j)" for tcp j
      by (rule opened_status(1) [OF cr']) (simp_all add: f_def start_rates_def)
    have un: "conn_status_of (upd_conn (conn_stat_update (\<lambda>_. CRYPTO_CONN_NO_CONNECTION)) c3 i) j = conn_status_of c j"
      if "\<And>j. conn_status_of c3 j = conn_status_of (upd_conn (f tcp) ?c2 i) j" for tcp c3 j
      by (rule opened_status(2) [OF cr' _ _ _ that]) (simp_all add: f_def start_rates_def)
    have cq: "conn_status_of (upd_conn (cc_shared_key_update g) c4 i) j = conn_status_of (upd_conn (f tcp) ?c2 i) j"
      if "create_cookie_request N t m (upd_conn (f tcp) ?c2 i) d num = (c4, k, x)" for N t m d num c4 k x g tcp j
    proof -
      have "c4 = (upd_conn (f tcp) ?c2 i)\<lparr>nc_dht := nc_dht c4\<rparr>" using that by (auto simp: create_cookie_request_def Let_def split_def)
      then have "conn_status_of c4 j = conn_status_of (upd_conn (f tcp) ?c2 i) j" by (metis status_of_list(2))
      then show ?thesis by (simp add: status_of_upd)
    qed
    have nt: "conn_status_of c6 j = conn_status_of c5 j" if "new_temp_packet E c5 i x = (k, c6)" for c5 x k c6 j
      using new_temp_packet_status [of E c5 i x j] that by simp
    have "r = None \<and> conn_status_of c' j = conn_status_of c j \<or>
        r = Some i \<and> conn_status_of c' j = (if j = i then CRYPTO_CONN_COOKIE_REQUESTING else conn_status_of c j)"
      using assms st(1) unfolding new_crypto_connection_def cr' no prod.case option.case Let_def ks f_def [symmetric]
      by (auto split: if_splits option.splits prod.splits simp: un op cq nt)
    then show ?thesis using st(3) [OF Some] by (auto split: if_splits)
  qed
qed

lemma kill_timedout_status:
  "conn_status_of (kill_timedout_loop E i c) j = conn_status_of c j \<or>
   conn_status_of (kill_timedout_loop E i c) j = CRYPTO_CONN_NO_CONNECTION \<and>
   conn_status_of c j \<in> {CRYPTO_CONN_COOKIE_REQUESTING, CRYPTO_CONN_HANDSHAKE_SENT, CRYPTO_CONN_NOT_CONFIRMED}"
proof (induction E i c rule: kill_timedout_loop.induct)
  case (1 E i c)
  show ?case
  proof (cases "get_crypto_connection c i")
    case None
    then show ?thesis by (subst (1 2) kill_timedout_loop.simps) simp
  next
    case (Some conn)
    then have st: "conn_status_of c i = conn_stat conn" by (simp add: conn_status_of_def)
    show ?thesis
    proof (cases "i < length (crypto_connections c) \<and> conn_stat conn \<in> {CRYPTO_CONN_COOKIE_REQUESTING, CRYPTO_CONN_HANDSHAKE_SENT, CRYPTO_CONN_NOT_CONFIRMED} \<and>
        \<not> temp_packet_num_sent conn < MAX_NUM_SENDPACKET_TRIES")
      case True
      then have "kill_timedout_loop E i c = kill_timedout_loop E (Suc i) (connection_kill E c i)"
        using Some by (subst kill_timedout_loop.simps) auto
      then show ?thesis using True 1(2) [OF _ Some] st connection_kill_status [of E c i j] by (cases "j = i") auto
    next
      case False
      then have "kill_timedout_loop E i c = c \<or> i < length (crypto_connections c) \<and> kill_timedout_loop E i c = kill_timedout_loop E (Suc i) c"
        using Some by (subst (1 2) kill_timedout_loop.simps) auto
      then show ?thesis using False 1(1,3) [OF _ Some] by fastforce
    qed
  qed
qed

text \<open>
  A handshake for a new connection: the callback of the application runs, on the state itself or
  after the connection to the same peer under another DHT key was closed, or an outgoing
  connection to the peer takes the handshake.
\<close>

lemma handle_new_connection_handshake_status:
  "(\<exists>n c1. handle_new_connection_handshake E c source data = ev_new_connection E n c1 \<and>
      (c1 = c \<or> (\<exists>i. getcryptconnection_id c (nw_public_key n) = Some i \<and> c1 = connection_kill E c i))) \<or>
   (\<exists>i. \<forall>j. conn_status_of (snd (handle_new_connection_handshake E c source data)) j = conn_status_of c j \<or>
      j = i \<and> conn_status_of (snd (handle_new_connection_handshake E c source data)) j = CRYPTO_CONN_NOT_CONFIRMED \<and>
      conn_status_of c j \<in> {CRYPTO_CONN_COOKIE_REQUESTING, CRYPTO_CONN_HANDSHAKE_SENT} \<and>
      (\<exists>hs. handle_crypto_handshake (ev_nacl E) (ev_sha512 E) (ev_unix E) c data None = Some hs \<and>
         getcryptconnection_id c (hs_peer_real_pk hs) = Some j))"
proof (cases "\<not> ev_alloc E \<or> handle_crypto_handshake (ev_nacl E) (ev_sha512 E) (ev_unix E) c data None = None")
  case True
  then show ?thesis by (auto simp: handle_new_connection_handshake_def)
next
  case False
  then obtain hs where al: "ev_alloc E" and hs: "handle_crypto_handshake (ev_nacl E) (ev_sha512 E) (ev_unix E) c data None = Some hs" by auto
  show ?thesis
  proof (cases "getcryptconnection_id c (hs_peer_real_pk hs)")
    case None
    then show ?thesis using al hs by (auto simp: handle_new_connection_handshake_def)
  next
    case (Some i)
    let ?conn = "crypto_connections c ! i"
    have nz: "conn_status_of c i = conn_stat ?conn" "conn_status_of c i \<noteq> CRYPTO_CONN_NO_CONNECTION"
      using key_index_of_status [OF Some [unfolded getcryptconnection_id_def]] by (simp_all add: status_of_nth)
    define c1 where "c1 = snd (crypto_connection_add_source E (upd_conn (\<lambda>k. k\<lparr>recv_nonce := hs_nonce hs, peersessionpublic_key := hs_session_pk hs,
      cc_shared_key := encrypt_precompute (ev_nacl E) (hs_session_pk hs) (sessionsecret_key k)\<rparr>) c i) i source)"
    have "conn_status_of c1 k = conn_status_of c k" for k by (simp add: c1_def status_of_upd)
    note h = handshake_statuses [OF nz(2) this]
    show ?thesis
    proof (cases "memcmp (hs_dht_public_key hs) (cc_dht_public_key ?conn) = 0")
      case True
      then show ?thesis using al hs Some nz unfolding handle_new_connection_handshake_def Let_def
        by (intro disjI2 exI [of _ i]) (auto split: prod.split simp: c1_def [symmetric] h)
    next
      case False
      let ?n = "\<lparr>nw_source = source, nw_public_key = hs_peer_real_pk hs, nw_dht_public_key = hs_dht_public_key hs,
        nw_recv_nonce = hs_nonce hs, nw_peersessionpublic_key = hs_session_pk hs, nw_cookie = hs_cookie hs\<rparr>"
      show ?thesis using False al hs Some unfolding handle_new_connection_handshake_def Let_def
        by (intro disjI1 exI [of _ ?n] exI [of _ "connection_kill E c i"]) simp
    qed
  qed
qed

section \<open>The result\<close>


text \<open>
  A connection that waits for confirmation and a lossy packet that its peer sends: handling it
  establishes the connection.
\<close>

definition sample_unconfirmed :: Net_Crypto where
  "sample_unconfirmed = upd_conn (conn_stat_update (\<lambda>_. CRYPTO_CONN_NOT_CONFIRMED)) sample_pair 0"

lemma sample_unconfirmed_get:
  "get_crypto_connection sample_unconfirmed 0 = Some (sample_conn\<lparr>conn_stat := CRYPTO_CONN_NOT_CONFIRMED\<rparr>)"
  unfolding sample_unconfirmed_def by (rule get_crypto_connection_upd [OF sample_pair_get(1)]) simp

lemma lossy_data_status:
  assumes "i < length (crypto_connections c)"
  shows "conn_status_of (snd (handle_real_data E c i udp num t (200 # rest))) i = conn_status_of (confirm_connection c i) i"
  by (auto simp: handle_real_data_def Let_def status_of_upd split: option.split)

lemma sample_confirming_packet:
  obtains p where "conn_status_of (snd (handle_packet_connection sample_env sample_unconfirmed 0 p True)) 0 = CRYPTO_CONN_ESTABLISHED"
proof -
  let ?k = "sample_conn\<lparr>conn_stat := CRYPTO_CONN_NOT_CONFIRMED\<rparr>" and ?plain = "[0, 0, 0, 0, 0, 0, 0, 0, 200, 1] :: bytes"
  have n: "length (recv_nonce ?k) = 24" by (simp add: sample_conn_def conn_zero_def)
  let ?n = "(increment_nonce ^^ 2) (recv_nonce ?k)"
  obtain p enc where p: "data_packet (ev_nacl sample_env) (cc_shared_key ?k) ?n ?plain = Some p"
      "p = [NET_PACKET_CRYPTO_DATA] @ read_at ?n 22 2 @ enc" "length enc = 26"
    by (rule data_packet_Some [OF sample_nacl, of ?plain "cc_shared_key ?k" ?n]) auto
  have len: "length p = 29" "p ! 0 = NET_PACKET_CRYPTO_DATA" using p(2,3) increment_nonce_funpow [OF n, of 2] by simp_all
  have h: "handle_data_packet sample_env sample_unconfirmed 0 p = (Some ?plain, sample_unconfirmed)"
    using handle_data_packet_opens [OF sample_nacl sample_unconfirmed_get n, of 0 2 ?plain p] p(1) by simp
  have "send_array ?k = array_zero" by (simp add: sample_conn_def conn_zero_def)
  then have arr: "send_array (crypto_connections sample_unconfirmed ! 0) = array_zero" "0 < length (crypto_connections sample_unconfirmed)"
    using get_crypto_connectionD [OF sample_unconfirmed_get] by metis+
  have st: "conn_status_of sample_unconfirmed 0 = CRYPTO_CONN_NOT_CONFIRMED" by (simp add: conn_status_of_def sample_unconfirmed_get)
  let ?c1 = "upd_conn (send_array_update (\<lambda>_. array_zero)) sample_unconfirmed 0"
  have "handle_packet_connection sample_env sample_unconfirmed 0 p True = handle_real_data sample_env ?c1 0 True 0 0 [200, 1]"
    using len h arr(1) sample_unconfirmed_get
    by (simp add: handle_packet_connection_def handle_data_packet_helper_def Let_def read_at_def be_val_def array_zero_def)
  then have "conn_status_of (snd (handle_packet_connection sample_env sample_unconfirmed 0 p True)) 0 = CRYPTO_CONN_ESTABLISHED"
    using lossy_data_status [of 0 ?c1] confirm_connection_status [of 0 ?c1 0] arr(2) st by (simp add: status_of_upd)
  then show ?thesis by (rule that)
qed


end
