(* ===== verification/DHT_Packets.thy ===== *)
theory DHT_Packets
  imports DHT_State "HOL-Library.Monad_Syntax"
begin

text \<open>
  The packets between DHT nodes: \<open>toxcore/ping.c\<close> and the packet handlers of \<open>toxcore/DHT.c\<close>.

  \<open>DHT_Net\<close> is a running DHT: the state of \<open>DHT_State\<close>, the nodes loaded from a save file, and two
  fields that the code does not have, the log of what was sent and called, and the number of
  values drawn from the random generator and the allocator. \<open>dht_env\<close> is the outside world: the
  time, the NaCl primitives, \<open>qsort\<close>, the drawn values by number, the result of sending a
  given packet to a given address, and the content of arrays of nodes that are not initialised. \<open>None\<close> is an access outside the close list, as in \<open>DHT_State\<close>.

  The structures that the code copies into the ping arrays and, in hardening requests, onto the
  wire have the memory layout of a 64-bit Linux; their padding is written as zero and never read.
\<close>

abbreviation (input) "NET_PACKET_PING_REQUEST \<equiv> (0::u8)"
abbreviation (input) "NET_PACKET_PING_RESPONSE \<equiv> (1::u8)"
abbreviation (input) "NET_PACKET_GET_NODES \<equiv> (2::u8)"
abbreviation (input) "NET_PACKET_SEND_NODES_IPV6 \<equiv> (4::u8)"
abbreviation (input) "CRYPTO_PACKET_HARDENING \<equiv> (48::u8)"
abbreviation (input) "SIZEOF_NODE_FORMAT \<equiv> (64::nat)"
abbreviation (input) "PING_PLAIN_SIZE \<equiv> (9::nat)"
abbreviation (input) "DHT_PING_SIZE \<equiv> (82::nat)"
abbreviation (input) "PING_DATA_SIZE \<equiv> (64::nat)"
abbreviation (input) "TIME_TO_PING \<equiv> (2::u64)"
abbreviation (input) "CHECK_TYPE_GETNODE_REQ \<equiv> (2::u8)"
abbreviation (input) "CHECK_TYPE_GETNODE_RES \<equiv> (3::u8)"
abbreviation (input) "HARDREQ_DATA_SIZE \<equiv> (384::nat)"

section \<open>Structures in memory\<close>

definition ip_port_image :: "IP_Port \<Rightarrow> bytes" where
  "ip_port_image p = [ip_family (ipp_ip p)] @ replicate 7 0 @ ip_addr (ipp_ip p) @
     bytes_be 2 (unat (ipp_port p)) @ replicate 6 0"

definition ip_port_of_image :: "bytes \<Rightarrow> IP_Port" where
  "ip_port_of_image b = \<lparr>ipp_ip = \<lparr>ip_family = b ! 0, ip_addr = read_at b 8 16\<rparr>,
     ipp_port = word_of_nat (be_val (read_at b 24 2))\<rparr>"

definition node_image :: "Node_format \<Rightarrow> bytes" where
  "node_image n = nf_public_key n @ ip_port_image (nf_ip_port n)"

definition node_of_image :: "bytes \<Rightarrow> Node_format" where
  "node_of_image b = \<lparr>nf_public_key = read_at b 0 32, nf_ip_port = ip_port_of_image (read_at b 32 32)\<rparr>"

lemma length_ip_port_image [simp]: "ip_ok (ipp_ip p) \<Longrightarrow> length (ip_port_image p) = 32"
  by (simp add: ip_port_image_def ip_ok_def)

lemma length_node_image [simp]: "node_ok n \<Longrightarrow> length (node_image n) = 64"
  by (simp add: node_image_def node_ok_def)

lemma ip_port_of_image_image [simp]: "ip_ok (ipp_ip p) \<Longrightarrow> ip_port_of_image (ip_port_image p) = p"
  using unat_u16_bound [of "ipp_port p"]
  by (simp add: ip_port_of_image_def ip_port_image_def ip_ok_def read_at_def)

lemma node_of_image_image [simp]: "node_ok n \<Longrightarrow> node_of_image (node_image n) = n"
  by (simp add: node_of_image_def node_image_def node_ok_def)

lemma node_of_image_prefix: "64 \<le> length b \<Longrightarrow> node_of_image b = node_of_image (take 64 b)"
  by (simp add: node_of_image_def read_at_def take_drop)

section \<open>The running DHT\<close>

record dht_env =
  de_now :: u64
  de_nacl :: nacl
  de_qsort :: qsort_fun
  de_nonce :: "nat \<Rightarrow> bytes"
  de_random64 :: "nat \<Rightarrow> u64"
  de_rand :: "nat \<Rightarrow> nat"
  de_alloc :: "nat \<Rightarrow> bool"
  de_send :: "IP_Port \<Rightarrow> bytes \<Rightarrow> int"
  de_stack :: "Node_format list"

record DHT_Net =
  dn_dht :: DHT
  loaded_nodes_list :: "Node_format list option"
  loaded_num_nodes :: nat
  loaded_nodes_index :: u32
  last_run :: u64
  dn_draws :: nat
  dn_log :: "dht_event list"

definition log_dht :: "dht_event list \<Rightarrow> DHT_Net \<Rightarrow> DHT_Net" where
  "log_dht es d = d\<lparr>dn_log := dn_log d @ es\<rparr>"

text \<open>A call of \<open>sendpacket\<close>: its result, and the call in the log.\<close>

definition send_dht :: "dht_env \<Rightarrow> DHT_Net \<Rightarrow> IP_Port \<Rightarrow> bytes \<Rightarrow> int \<times> DHT_Net" where
  "send_dht E d ipp data = (de_send E ipp data, log_dht [SendPacket ipp data] d)"

text \<open>The keys shared with another node, from the two caches.\<close>

definition key_sent :: "dht_env \<Rightarrow> DHT_Net \<Rightarrow> bytes \<Rightarrow> DHT_Net \<times> bytes" where
  "key_sent E d public_key =
     (let (dht, key) = DHT_get_shared_key_sent (de_nacl E) (de_now E) (dn_dht d) public_key in (d\<lparr>dn_dht := dht\<rparr>, key))"

definition key_recv :: "dht_env \<Rightarrow> DHT_Net \<Rightarrow> bytes \<Rightarrow> DHT_Net \<times> bytes" where
  "key_recv E d public_key =
     (let (dht, key) = DHT_get_shared_key_recv (de_nacl E) (de_now E) (dn_dht d) public_key in (d\<lparr>dn_dht := dht\<rparr>, key))"

text \<open>\<open>new_nonce\<close>.\<close>

definition next_nonce :: "dht_env \<Rightarrow> DHT_Net \<Rightarrow> bytes \<times> DHT_Net" where
  "next_nonce E d = (de_nonce E (dn_draws d), d\<lparr>dn_draws := dn_draws d + 1\<rparr>)"

text \<open>
  The end that the senders of DHT packets share: encrypt with a new nonce, check the length, put the
  packet number, the own key and the nonce in front and send. The failure value differs.
\<close>

definition send_encrypted :: "dht_env \<Rightarrow> int \<Rightarrow> DHT_Net \<Rightarrow> IP_Port \<Rightarrow> u8 \<Rightarrow> bytes \<Rightarrow> bytes \<Rightarrow> int \<times> DHT_Net" where
  "send_encrypted E fail d ipp packet_id key plain =
     (let (nonce, d1) = next_nonce E d
      in case encrypt_data_symmetric (de_nacl E) key nonce plain of
           None \<Rightarrow> (fail, d1)
         | Some enc \<Rightarrow>
             if length enc \<noteq> length plain + crypto_box_MACBYTES then (fail, d1)
             else send_dht E d1 ipp ([packet_id] @ self_public_key (dn_dht d1) @ nonce @ enc))"

section \<open>Pings\<close>

definition send_ping_request :: "dht_env \<Rightarrow> DHT_Net \<Rightarrow> IP_Port \<Rightarrow> bytes \<Rightarrow> int \<times> DHT_Net" where
  "send_ping_request E d ipp public_key =
     (if id_equal public_key (self_public_key (dn_dht d)) then (1, d)
      else
        let (d1, shared_key) = key_sent E d public_key;
            k = dn_draws d1;
            (ping_id, a) = ping_array_add (de_now E) (de_random64 E k) (de_alloc E k) (ping_ping_array (dn_dht d1))
              (public_key @ ip_port_image ipp);
            d2 = d1\<lparr>dn_dht := (dn_dht d1)\<lparr>ping_ping_array := a\<rparr>, dn_draws := k + 1\<rparr>
        in if ping_id = 0 then (1, d2)
           else send_encrypted E 1 d2 ipp NET_PACKET_PING_REQUEST shared_key
                  ([NET_PACKET_PING_REQUEST] @ bytes_le 8 (unat ping_id)))"

definition send_ping_response :: "dht_env \<Rightarrow> DHT_Net \<Rightarrow> IP_Port \<Rightarrow> bytes \<Rightarrow> u64 \<Rightarrow> bytes \<Rightarrow> int \<times> DHT_Net" where
  "send_ping_response E d ipp public_key ping_id shared_encryption_key =
     (if id_equal public_key (self_public_key (dn_dht d)) then (1, d)
      else send_encrypted E 1 d ipp NET_PACKET_PING_RESPONSE shared_encryption_key
             ([NET_PACKET_PING_RESPONSE] @ bytes_le 8 (unat ping_id)))"

fun in_list :: "u64 \<Rightarrow> Client_data list \<Rightarrow> bytes \<Rightarrow> IP_Port \<Rightarrow> bool" where
  "in_list now [] public_key ipp = False"
| "in_list now (c # cs) public_key ipp =
     (if id_equal (cd_public_key c) public_key then
        let ipptp = (if ip_family (ipp_ip ipp) = AF_INET then assoc4 c else assoc6 c)
        in if \<not> assoc_bad now ipptp \<and> ipport_equal (ip_port ipptp) ipp then True
           else in_list now cs public_key ipp
      else in_list now cs public_key ipp)"

text \<open>
  The loop of \<open>add_to_ping\<close>: \<open>Inl\<close> for a return from inside it, with the new list and the result,
  \<open>Inr ()\<close> when it ends.
\<close>

fun to_ping_loop :: "Node_format list \<Rightarrow> bytes \<Rightarrow> IP_Port \<Rightarrow> (Node_format list \<times> int) + unit" where
  "to_ping_loop [] public_key ipp = Inr ()"
| "to_ping_loop (n # ns) public_key ipp =
     (if \<not> ip_isset (ipp_ip (nf_ip_port n)) then Inl (\<lparr>nf_public_key = public_key, nf_ip_port = ipp\<rparr> # ns, 0)
      else if memcmp (nf_public_key n) public_key = 0 then Inl (n # ns, - 1)
      else case to_ping_loop ns public_key ipp of Inl (ns', r) \<Rightarrow> Inl (n # ns', r) | Inr u \<Rightarrow> Inr u)"

definition add_to_ping :: "dht_env \<Rightarrow> DHT_Net \<Rightarrow> bytes \<Rightarrow> IP_Port \<Rightarrow> (int \<times> DHT_Net) option" where
  "add_to_ping E d public_key ipp =
     (let dht = dn_dht d
      in if \<not> ip_isset (ipp_ip ipp) then Some (- 1, d)
         else do {
           addable \<leftarrow> node_addable_to_close_list (de_now E) dht public_key ipp;
           Some (if \<not> addable then (- 1, d)
                 else if in_list (de_now E) (close_clientlist dht) public_key ipp then (- 1, d)
                 else if fst (DHT_getfriendip (de_now E) dht public_key) = 0 then
                   (- 1, snd (send_ping_request E d ipp public_key))
                 else
                   case to_ping_loop (to_ping dht) public_key ipp of
                     Inl (ns, r) \<Rightarrow> (r, d\<lparr>dn_dht := dht\<lparr>to_ping := ns\<rparr>\<rparr>)
                   | Inr _ \<Rightarrow>
                       let (ns, added) = add_to_list (to_ping dht) public_key ipp (self_public_key dht)
                       in (if added then 0 else - 1, d\<lparr>dn_dht := dht\<lparr>to_ping := ns\<rparr>\<rparr>))
         })"

text \<open>
  The opening of a received packet, shared by the handlers: the key of the sender, the nonce and the
  encrypted part follow the packet number.
\<close>

definition open_packet :: "dht_env \<Rightarrow> bytes \<Rightarrow> bytes \<Rightarrow> nat \<Rightarrow> bytes option" where
  "open_packet E key packet plain_len =
     (case decrypt_data_symmetric (de_nacl E) key (read_at packet (1 + crypto_box_PUBLICKEYBYTES) crypto_box_NONCEBYTES)
             (read_at packet (1 + crypto_box_PUBLICKEYBYTES + crypto_box_NONCEBYTES) (plain_len + crypto_box_MACBYTES)) of
        None \<Rightarrow> None
      | Some plain \<Rightarrow> if length plain \<noteq> plain_len then None else Some plain)"

definition handle_ping_request :: "dht_env \<Rightarrow> DHT_Net \<Rightarrow> IP_Port \<Rightarrow> bytes \<Rightarrow> (int \<times> DHT_Net) option" where
  "handle_ping_request E d source packet =
     (let public_key = read_at packet 1 crypto_box_PUBLICKEYBYTES
      in if length packet \<noteq> DHT_PING_SIZE then Some (1, d)
         else if id_equal public_key (self_public_key (dn_dht d)) then Some (1, d)
         else
           let (d1, shared_key) = key_recv E d public_key
           in case open_packet E shared_key packet PING_PLAIN_SIZE of
                None \<Rightarrow> Some (1, d1)
              | Some ping_plain \<Rightarrow>
                  if ping_plain ! 0 \<noteq> NET_PACKET_PING_REQUEST then Some (1, d1)
                  else
                    let ping_id = word_of_nat (le_val (read_at ping_plain 1 8)) :: u64;
                        d2 = snd (send_ping_response E d1 source public_key ping_id shared_key)
                    in do {
                         (_, d3) \<leftarrow> add_to_ping E d2 public_key source;
                         Some (0, d3)
                       })"

text \<open>\<open>addto_lists\<close>, with its callbacks in the log.\<close>

definition addto_lists_net :: "dht_env \<Rightarrow> DHT_Net \<Rightarrow> IP_Port \<Rightarrow> bytes \<Rightarrow> DHT_Net option" where
  "addto_lists_net E d ipp public_key =
     map_option (\<lambda>(dht, used, es). log_dht es (d\<lparr>dn_dht := dht\<rparr>)) (addto_lists (de_qsort E) (de_now E) (dn_dht d) ipp public_key)"

definition handle_ping_response :: "dht_env \<Rightarrow> DHT_Net \<Rightarrow> IP_Port \<Rightarrow> bytes \<Rightarrow> (int \<times> DHT_Net) option" where
  "handle_ping_response E d source packet =
     (let public_key = read_at packet 1 crypto_box_PUBLICKEYBYTES
      in if length packet \<noteq> DHT_PING_SIZE then Some (1, d)
         else if id_equal public_key (self_public_key (dn_dht d)) then Some (1, d)
         else
           let (d1, shared_key) = key_sent E d public_key
           in case open_packet E shared_key packet PING_PLAIN_SIZE of
                None \<Rightarrow> Some (1, d1)
              | Some ping_plain \<Rightarrow>
                  if ping_plain ! 0 \<noteq> NET_PACKET_PING_RESPONSE then Some (1, d1)
                  else
                    let ping_id = word_of_nat (le_val (read_at ping_plain 1 8)) :: u64;
                        (len, data, a) = ping_array_check (de_now E) PING_DATA_SIZE (ping_ping_array (dn_dht d1)) ping_id;
                        d2 = d1\<lparr>dn_dht := (dn_dht d1)\<lparr>ping_ping_array := a\<rparr>\<rparr>
                    in if len \<noteq> int PING_DATA_SIZE then Some (1, d2)
                       else if \<not> id_equal public_key (read_at data 0 crypto_box_PUBLICKEYBYTES) then Some (1, d2)
                       else if \<not> ipport_equal (ip_port_of_image (read_at data crypto_box_PUBLICKEYBYTES 32)) source then Some (1, d2)
                       else map_option (\<lambda>d3. (0, d3)) (addto_lists_net E d2 source public_key))"

text \<open>The loop of \<open>do_to_ping\<close> over the entries from \<open>i\<close> on, with the number it stops at.\<close>

fun do_to_ping_loop :: "dht_env \<Rightarrow> nat \<Rightarrow> nat \<Rightarrow> DHT_Net \<Rightarrow> (nat \<times> DHT_Net) option" where
  "do_to_ping_loop E 0 i d = Some (i, d)"
| "do_to_ping_loop E (Suc left) i d =
     (let n = to_ping (dn_dht d) ! i
      in if \<not> ip_isset (ipp_ip (nf_ip_port n)) then Some (i, d)
         else do {
           addable \<leftarrow> node_addable_to_close_list (de_now E) (dn_dht d) (nf_public_key n) (nf_ip_port n);
           (if \<not> addable then do_to_ping_loop E left (Suc i) d
            else
              let d1 = snd (send_ping_request E d (nf_ip_port n) (nf_public_key n));
                  ipp = (nf_ip_port n)\<lparr>ipp_ip := ip_reset (ipp_ip (nf_ip_port n))\<rparr>;
                  d2 = d1\<lparr>dn_dht := (dn_dht d1)\<lparr>to_ping := (to_ping (dn_dht d1))[i := n\<lparr>nf_ip_port := ipp\<rparr>]\<rparr>\<rparr>
              in do_to_ping_loop E left (Suc i) d2)
         })"

definition do_to_ping :: "dht_env \<Rightarrow> DHT_Net \<Rightarrow> DHT_Net option" where
  "do_to_ping E d =
     (if \<not> is_timeout (de_now E) (last_to_ping (dn_dht d)) TIME_TO_PING then Some d
      else if \<not> ip_isset (ipp_ip (nf_ip_port (to_ping (dn_dht d) ! 0))) then Some d
      else do {
        (i, d1) \<leftarrow> do_to_ping_loop E MAX_TO_PING 0 d;
        Some (if i \<noteq> 0 then d1\<lparr>dn_dht := (dn_dht d1)\<lparr>last_to_ping := de_now E\<rparr>\<rparr> else d1)
      })"

section \<open>Nodes\<close>

definition getnodes :: "dht_env \<Rightarrow> DHT_Net \<Rightarrow> IP_Port \<Rightarrow> bytes \<Rightarrow> bytes \<Rightarrow> Node_format option \<Rightarrow> int \<times> DHT_Net" where
  "getnodes E d ipp public_key client_id sendback_node =
     (if id_equal public_key (self_public_key (dn_dht d)) then (- 1, d)
      else
        let receiver = node_image \<lparr>nf_public_key = public_key, nf_ip_port = ipp\<rparr>;
            dht = dn_dht d;
            k = dn_draws d;
            (ping_id, dht1) =
              (case sendback_node of
                 Some node \<Rightarrow>
                   let (i, a) = ping_array_add (de_now E) (de_random64 E k) (de_alloc E k) (dht_harden_ping_array dht)
                                  (receiver @ node_image node)
                   in (i, dht\<lparr>dht_harden_ping_array := a\<rparr>)
               | None \<Rightarrow>
                   let (i, a) = ping_array_add (de_now E) (de_random64 E k) (de_alloc E k) (dht_ping_array dht) receiver
                   in (i, dht\<lparr>dht_ping_array := a\<rparr>));
            d1 = d\<lparr>dn_dht := dht1, dn_draws := k + 1\<rparr>
        in if ping_id = 0 then (- 1, d1)
           else
             let (d2, shared_key) = key_sent E d1 public_key
             in send_encrypted E (- 1) d2 ipp NET_PACKET_GET_NODES shared_key (client_id @ bytes_le 8 (unat ping_id)))"

text \<open>\<open>sendback_data\<close> is the eight bytes of the request number.\<close>

definition sendnodes_ipv6 :: "dht_env \<Rightarrow> DHT_Net \<Rightarrow> IP_Port \<Rightarrow> bytes \<Rightarrow> bytes \<Rightarrow> bytes \<Rightarrow> bytes \<Rightarrow> int \<times> DHT_Net" where
  "sendnodes_ipv6 E d ipp public_key client_id sendback_data shared_encryption_key =
     (if id_equal public_key (self_public_key (dn_dht d)) then (- 1, d)
      else if length sendback_data \<noteq> 8 then (- 1, d)
      else
        let (nodes_list, num_nodes) = get_close_nodes (de_now E) (close_clientlist (dn_dht d))
              (map client_list (friends_list (dn_dht d))) client_id 0 (LAN_ip (ipp_ip ipp));
            packed = (if num_nodes \<noteq> 0 then
                        (case pack_nodes (replicate (SIZEOF_NODE_FORMAT * MAX_SENT_NODES) 0) (SIZEOF_NODE_FORMAT * MAX_SENT_NODES)
                                (take num_nodes nodes_list) of
                           (buf, Some k) \<Rightarrow> if k = 0 then None else Some (take k buf)
                         | (_, None) \<Rightarrow> None)
                      else Some [])
        in case packed of
             None \<Rightarrow> (- 1, snd (next_nonce E d))
           | Some nodes \<Rightarrow> send_encrypted E (- 1) d ipp NET_PACKET_SEND_NODES_IPV6 shared_encryption_key
                              ([word_of_nat num_nodes] @ nodes @ sendback_data))"

definition handle_getnodes :: "dht_env \<Rightarrow> DHT_Net \<Rightarrow> IP_Port \<Rightarrow> bytes \<Rightarrow> (int \<times> DHT_Net) option" where
  "handle_getnodes E d source packet =
     (let public_key = read_at packet 1 crypto_box_PUBLICKEYBYTES
      in if length packet \<noteq> 1 + crypto_box_PUBLICKEYBYTES + crypto_box_NONCEBYTES + crypto_box_PUBLICKEYBYTES + 8 + crypto_box_MACBYTES
         then Some (1, d)
         else if id_equal public_key (self_public_key (dn_dht d)) then Some (1, d)
         else
           let (d1, shared_key) = key_recv E d public_key
           in case open_packet E shared_key packet (crypto_box_PUBLICKEYBYTES + 8) of
                None \<Rightarrow> Some (1, d1)
              | Some plain \<Rightarrow>
                  let d2 = snd (sendnodes_ipv6 E d1 source public_key (read_at plain 0 crypto_box_PUBLICKEYBYTES)
                                  (read_at plain crypto_box_PUBLICKEYBYTES 8) shared_key)
                  in do {
                       (_, d3) \<leftarrow> add_to_ping E d2 public_key source;
                       Some (0, d3)
                     })"

text \<open>\<open>None\<close> is the result \<open>0\<close>; otherwise the node to send the answer to, all zero for none.\<close>

definition sent_getnode_to_node :: "dht_env \<Rightarrow> DHT_Net \<Rightarrow> bytes \<Rightarrow> IP_Port \<Rightarrow> u64 \<Rightarrow> Node_format option \<times> DHT_Net" where
  "sent_getnode_to_node E d public_key node_ip_port ping_id =
     (let (len1, data1, a1) = ping_array_check (de_now E) (2 * SIZEOF_NODE_FORMAT) (dht_ping_array (dn_dht d)) ping_id;
          d1 = d\<lparr>dn_dht := (dn_dht d)\<lparr>dht_ping_array := a1\<rparr>\<rparr>;
          test = (\<lambda>data. let test = node_of_image data
                  in ipport_equal (nf_ip_port test) node_ip_port \<and> memcmp (nf_public_key test) public_key = 0)
      in if len1 = int SIZEOF_NODE_FORMAT then (if test data1 then Some node_zero else None, d1)
         else
           let (len2, data2, a2) = ping_array_check (de_now E) (2 * SIZEOF_NODE_FORMAT) (dht_harden_ping_array (dn_dht d1)) ping_id;
               d2 = d1\<lparr>dn_dht := (dn_dht d1)\<lparr>dht_harden_ping_array := a2\<rparr>\<rparr>
           in if len2 = int (2 * SIZEOF_NODE_FORMAT)
              then (if test data2 then Some (node_of_image (drop SIZEOF_NODE_FORMAT data2)) else None, d2)
              else (None, d2))"

definition send_hardening_getnode_res :: "dht_env \<Rightarrow> DHT_Net \<Rightarrow> Node_format \<Rightarrow> bytes \<Rightarrow> bytes \<Rightarrow> int \<times> DHT_Net" where
  "send_hardening_getnode_res E d sendto queried_client_id nodes_data =
     (if \<not> ip_isset (ipp_ip (nf_ip_port sendto)) then (- 1, d)
      else
        let (nonce, d1) = next_nonce E d
        in case create_request (de_nacl E) nonce (self_public_key (dn_dht d)) (self_secret_key (dn_dht d)) (nf_public_key sendto)
                  ([CHECK_TYPE_GETNODE_RES] @ queried_client_id @ nodes_data) CRYPTO_PACKET_HARDENING of
             None \<Rightarrow> (- 1, d1)
           | Some packet \<Rightarrow> send_dht E d1 (nf_ip_port sendto) packet)"

text \<open>The last component is the array of nodes with their number, set when the result is \<open>0\<close>.\<close>

definition handle_sendnodes_core :: "dht_env \<Rightarrow> DHT_Net \<Rightarrow> IP_Port \<Rightarrow> bytes \<Rightarrow> nat \<Rightarrow>
    (DHT_Net \<times> (Node_format list \<times> nat) option) option" where
  "handle_sendnodes_core E d source packet size_plain_nodes =
     (let cid_size = 1 + crypto_box_PUBLICKEYBYTES + crypto_box_NONCEBYTES + 1 + 8 + crypto_box_MACBYTES;
          data_size = length packet - cid_size;
          public_key = read_at packet 1 crypto_box_PUBLICKEYBYTES
      in if length packet < cid_size then Some (d, None)
         else if data_size = 0 then Some (d, None)
         else if data_size > SIZEOF_NODE_FORMAT * MAX_SENT_NODES then Some (d, None)
         else
           let (d1, shared_key) = key_sent E d public_key
           in case open_packet E shared_key packet (1 + data_size + 8) of
                None \<Rightarrow> Some (d1, None)
              | Some plain \<Rightarrow>
                  if unat (plain ! 0) > size_plain_nodes then Some (d1, None)
                  else
                    let ping_id = word_of_nat (le_val (read_at plain (1 + data_size) 8)) :: u64;
                        (sendback, d2) = sent_getnode_to_node E d1 public_key source ping_id
                    in case sendback of
                         None \<Rightarrow> Some (d2, None)
                       | Some sendback_node \<Rightarrow>
                           (case unpack_nodes (de_stack E) (unat (plain ! 0)) (read_at plain 1 data_size) False of
                              (_, None) \<Rightarrow> Some (d2, None)
                            | (plain_nodes, Some (num_nodes, length_nodes)) \<Rightarrow>
                                if length_nodes \<noteq> data_size then Some (d2, None)
                                else if num_nodes \<noteq> unat (plain ! 0) then Some (d2, None)
                                else do {
                                  d3 \<leftarrow> addto_lists_net E d2 source public_key;
                                  Some (snd (send_hardening_getnode_res E d3 sendback_node public_key (read_at plain 1 data_size)),
                                        Some (plain_nodes, num_nodes))
                                }))"

text \<open>The loop over the nodes of the answer.\<close>

fun sendnodes_loop :: "dht_env \<Rightarrow> bytes \<Rightarrow> Node_format list \<Rightarrow> DHT_Net \<Rightarrow> DHT_Net option" where
  "sendnodes_loop E sender [] d = Some d"
| "sendnodes_loop E sender (n # ns) d =
     (if ipport_isset (nf_ip_port n) then do {
        (dht, _) \<leftarrow> ping_node_from_getnodes_ok (de_now E) (dn_dht d) (nf_public_key n) (nf_ip_port n);
        sendnodes_loop E sender ns
          (d\<lparr>dn_dht := returnedip_ports (de_now E) dht (nf_ip_port n) (nf_public_key n) sender\<rparr>)
      } else sendnodes_loop E sender ns d)"

definition handle_sendnodes_ipv6 :: "dht_env \<Rightarrow> DHT_Net \<Rightarrow> IP_Port \<Rightarrow> bytes \<Rightarrow> (int \<times> DHT_Net) option" where
  "handle_sendnodes_ipv6 E d source packet = do {
     (d1, r) \<leftarrow> handle_sendnodes_core E d source packet MAX_SENT_NODES;
     (case r of
        None \<Rightarrow> Some (1, d1)
      | Some (plain_nodes, num_nodes) \<Rightarrow>
          if num_nodes = 0 then Some (0, d1)
          else map_option (\<lambda>d2. (0, d2))
                 (sendnodes_loop E (read_at packet 1 crypto_box_PUBLICKEYBYTES) (take num_nodes plain_nodes) d1))
   }"

end
