(* ===== verification/DHT_Requests.thy ===== *)
theory DHT_Requests
  imports DHT_Packets
begin

text \<open>
  The requests of the DHT and their answers: every request that waits in one of the three ping
  arrays was really sent, and a node enters the client lists only as the answer to a request that
  was sent to its key and its address.
\<close>

section \<open>Invariant\<close>

definition array_ok :: "ping_array \<Rightarrow> bool" where
  "array_ok a \<longleftrightarrow> pa_wf a \<and> pa_timeout a = 5"

definition env_ok :: "nacl \<Rightarrow> dht_env \<Rightarrow> bool" where
  "env_ok N E \<longleftrightarrow> de_nacl E = N \<and> nacl_ok N \<and> qsort_ok (de_qsort E) \<and> 5 \<le> de_now E \<and>
     (\<forall>k. length (de_nonce E k) = 24) \<and> length (de_stack E) = MAX_SENT_NODES \<and> (\<forall>n\<in>set (de_stack E). node_ok n)"

definition net_ok :: "nacl \<Rightarrow> DHT_Net \<Rightarrow> bool" where
  "net_ok N d \<longleftrightarrow> dht_ok (dn_dht d) \<and>
     shared_keys_ok N (self_secret_key (dn_dht d)) (shared_keys_sent (dn_dht d)) \<and>
     shared_keys_ok N (self_secret_key (dn_dht d)) (shared_keys_recv (dn_dht d)) \<and>
     array_ok (ping_ping_array (dn_dht d)) \<and> array_ok (dht_ping_array (dn_dht d)) \<and> array_ok (dht_harden_ping_array (dn_dht d))"

text \<open>
  \<open>p\<close> is a packet with this number and content, sealed with a shared key by the owner of the public
  key in it; such a packet was sent to the node \<open>n\<close>, at its address.
\<close>

definition sealed :: "nacl \<Rightarrow> bytes \<Rightarrow> bytes \<Rightarrow> u8 \<Rightarrow> bytes \<Rightarrow> bytes \<Rightarrow> bool" where
  "sealed N key sender packet_id plain p \<longleftrightarrow>
     (\<exists>nonce c. length nonce = 24 \<and> length c = length plain + 16 \<and> p = [packet_id] @ sender @ nonce @ c \<and>
        decrypt_data_symmetric N key nonce c = Some plain)"

lemma sealedI:
  "length nonce = 24 \<Longrightarrow> length c = length plain + 16 \<Longrightarrow> decrypt_data_symmetric N key nonce c = Some plain \<Longrightarrow>
   sealed N key sender i plain ([i] @ sender @ nonce @ c)"
  by (auto simp: sealed_def)

definition asked :: "nacl \<Rightarrow> DHT_Net \<Rightarrow> u8 \<Rightarrow> Node_format \<Rightarrow> bytes \<Rightarrow> bool" where
  "asked N d packet_id n plain \<longleftrightarrow>
     (\<exists>p. SendPacket (nf_ip_port n) p \<in> set (dn_log d) \<and>
        sealed N (encrypt_precompute N (nf_public_key n) (self_secret_key (dn_dht d))) (self_public_key (dn_dht d)) packet_id plain p)"

definition request_sent :: "nacl \<Rightarrow> DHT_Net \<Rightarrow> u8 \<Rightarrow> u64 \<Rightarrow> bytes \<Rightarrow> bool" where
  "request_sent N d packet_id pid x \<longleftrightarrow>
     (\<exists>n rest pre. node_ok n \<and> x = node_image n @ rest \<and> asked N d packet_id n (pre @ bytes_le 8 (unat pid)))"

definition requests_ok :: "nacl \<Rightarrow> DHT_Net \<Rightarrow> bool" where
  "requests_ok N d \<longleftrightarrow>
     (\<forall>pid x. pa_data (ping_ping_array (dn_dht d)) pid = Some x \<longrightarrow> request_sent N d NET_PACKET_PING_REQUEST pid x) \<and>
     (\<forall>pid x. pa_data (dht_ping_array (dn_dht d)) pid = Some x \<longrightarrow> request_sent N d NET_PACKET_GET_NODES pid x) \<and>
     (\<forall>pid x. pa_data (dht_harden_ping_array (dn_dht d)) pid = Some x \<longrightarrow> request_sent N d NET_PACKET_GET_NODES pid x)"

definition dht_inv :: "nacl \<Rightarrow> DHT_Net \<Rightarrow> bool" where
  "dht_inv N d \<longleftrightarrow> net_ok N d \<and> requests_ok N d"

text \<open>The part of the state that sending and opening packets leaves alone.\<close>

definition dht_lists :: "DHT_Net \<Rightarrow> Client_data list \<times> DHT_Friend list \<times> bytes \<times> bytes \<times> Node_format list \<times> nat \<times>
    Node_format list \<times> u64" where
  "dht_lists d = (close_clientlist (dn_dht d), friends_list (dn_dht d), self_public_key (dn_dht d), self_secret_key (dn_dht d),
     to_bootstrap (dn_dht d), num_to_bootstrap (dn_dht d), to_ping (dn_dht d), last_to_ping (dn_dht d))"

lemma dht_lists_dht_ok: "dht_lists d' = dht_lists d \<Longrightarrow> dht_ok (dn_dht d') = dht_ok (dn_dht d)"
  by (simp add: dht_lists_def dht_ok_def)

lemma dht_lists_keys:
  "dht_lists d' = dht_lists d \<Longrightarrow> self_public_key (dn_dht d') = self_public_key (dn_dht d)"
  "dht_lists d' = dht_lists d \<Longrightarrow> self_secret_key (dn_dht d') = self_secret_key (dn_dht d)"
  by (simp_all add: dht_lists_def)

section \<open>The array of requests\<close>

lemma clock_ok_5: "array_ok a \<Longrightarrow> 5 \<le> now \<Longrightarrow> clock_ok now a"
  by (simp add: array_ok_def clock_ok_def is_timeout_def)

lemma array_add:
  assumes "array_ok a" and "5 \<le> now" and "ping_array_add now rnd alloc a x = (pid, a')"
  shows "array_ok a'"
    and "\<forall>i y. pa_data a i = Some y \<longrightarrow> P i y \<Longrightarrow> (pid \<noteq> 0 \<Longrightarrow> P pid x) \<Longrightarrow> \<forall>i y. pa_data a' i = Some y \<longrightarrow> P i y"
proof -
  have a: "pa_wf a \<and> clock_ok now a" using assms clock_ok_5 by (simp add: array_ok_def)
  show "array_ok a'" using pas.add_inv [OF a, of rnd alloc x] assms(1,3) ping_array_add_frame(2) [of now rnd alloc a x]
    by (simp add: array_ok_def)
  assume old: "\<forall>i y. pa_data a i = Some y \<longrightarrow> P i y" and new: "pid \<noteq> 0 \<Longrightarrow> P pid x"
  have "\<forall>i y. pa_data (snd (ping_array_add now rnd alloc a x)) i = Some y \<longrightarrow> i \<noteq> 0 \<longrightarrow> P i y"
    using old new assms(3) by (intro pas.justified_add [OF a]) auto
  then show "\<forall>i y. pa_data a' i = Some y \<longrightarrow> P i y" using assms(3) by (auto simp: pa_data_entry Let_def split: if_splits)
qed

lemma array_check:
  assumes "array_ok a" and "5 \<le> now" and "ping_array_check now len a pid = (n, x, a')"
  shows "array_ok a'" and "pa_data a' i = Some y \<Longrightarrow> pa_data a i = Some y"
    and "0 \<le> n \<Longrightarrow> pa_data a pid = Some x \<and> n = int (length x) \<and> pa_data a' pid = None"
proof -
  have a: "pa_wf a \<and> clock_ok now a" using assms clock_ok_5 by (simp add: array_ok_def)
  have s: "pa_answer now len a pid = (if n < 0 then None else Some x, a')" using assms(3) by (simp add: pa_answer_def)
  have "n = int (length x) \<or> n = - 1" "pa_timeout a' = pa_timeout a"
    using ping_array_check_result [of a now len pid] a assms(3) by (auto simp: clear_entry_def split: option.splits if_splits)
  then show "array_ok a'" "0 \<le> n \<Longrightarrow> pa_data a pid = Some x \<and> n = int (length x) \<and> pa_data a' pid = None"
    using pas.answer_inv [OF a, of len pid] pas.answer_sound [OF a, of len pid x] s assms(1) by (auto simp: array_ok_def)
  show "pa_data a' i = Some y \<Longrightarrow> pa_data a i = Some y" using pas.answer_pending [OF a, of len pid i y] s by simp
qed

section \<open>Sending\<close>

text \<open>Later states have the same keys and a longer log.\<close>

definition later :: "DHT_Net \<Rightarrow> DHT_Net \<Rightarrow> bool" where
  "later d d' \<longleftrightarrow> self_public_key (dn_dht d') = self_public_key (dn_dht d) \<and>
     self_secret_key (dn_dht d') = self_secret_key (dn_dht d) \<and> set (dn_log d) \<subseteq> set (dn_log d')"

lemma request_sent_later: "request_sent N d i pid x \<Longrightarrow> later d d' \<Longrightarrow> request_sent N d' i pid x"
  unfolding request_sent_def asked_def later_def by (elim exE conjE, intro exI conjI) auto

lemma requests_later:
  assumes "requests_ok N d" and "later d d'" and "ping_ping_array (dn_dht d') = ping_ping_array (dn_dht d)"
    "dht_ping_array (dn_dht d') = dht_ping_array (dn_dht d)" "dht_harden_ping_array (dn_dht d') = dht_harden_ping_array (dn_dht d)"
  shows "requests_ok N d'"
  using assms(1,3-5) request_sent_later [OF _ assms(2)] by (auto simp: requests_ok_def)

lemma key_sent_value:
  assumes "net_ok N d" and "env_ok N E" and "length pk = 32"
  obtains keys where "key_sent E d pk =
      (d\<lparr>dn_dht := (dn_dht d)\<lparr>shared_keys_sent := keys\<rparr>\<rparr>, encrypt_precompute N pk (self_secret_key (dn_dht d)))"
    "shared_keys_ok N (self_secret_key (dn_dht d)) keys"
proof -
  have k: "shared_keys_ok N (self_secret_key (dn_dht d)) (shared_keys_sent (dn_dht d))" using assms by (simp add: net_ok_def)
  obtain keys where "get_shared_key N (de_now E) (shared_keys_sent (dn_dht d)) (self_secret_key (dn_dht d)) pk =
      (keys, encrypt_precompute N pk (self_secret_key (dn_dht d)))" "shared_keys_ok N (self_secret_key (dn_dht d)) keys"
    using get_shared_key_value [OF k assms(3)] by blast
  then show ?thesis using assms(2) that [of keys]
    by (simp add: key_sent_def DHT_get_shared_key_sent_def env_ok_def)
qed

lemma key_recv_value:
  assumes "net_ok N d" and "env_ok N E" and "length pk = 32"
  obtains keys where "key_recv E d pk =
      (d\<lparr>dn_dht := (dn_dht d)\<lparr>shared_keys_recv := keys\<rparr>\<rparr>, encrypt_precompute N pk (self_secret_key (dn_dht d)))"
    "shared_keys_ok N (self_secret_key (dn_dht d)) keys"
proof -
  have k: "shared_keys_ok N (self_secret_key (dn_dht d)) (shared_keys_recv (dn_dht d))" using assms by (simp add: net_ok_def)
  obtain keys where "get_shared_key N (de_now E) (shared_keys_recv (dn_dht d)) (self_secret_key (dn_dht d)) pk =
      (keys, encrypt_precompute N pk (self_secret_key (dn_dht d)))" "shared_keys_ok N (self_secret_key (dn_dht d)) keys"
    using get_shared_key_value [OF k assms(3)] by blast
  then show ?thesis using assms(2) that [of keys]
    by (simp add: key_recv_def DHT_get_shared_key_recv_def env_ok_def)
qed

text \<open>Encryption succeeds, so the packet is sent, and the same key opens it.\<close>

lemma send_encrypted_value:
  assumes "env_ok N E" and "plain \<noteq> []"
  obtains p where "sealed N key (self_public_key (dn_dht d)) i plain p"
    "send_encrypted E f d ipp i key plain =
      (de_send E ipp p, d\<lparr>dn_draws := dn_draws d + 1, dn_log := dn_log d @ [SendPacket ipp p]\<rparr>)"
proof -
  have N: "nacl_ok N" "de_nacl E = N" "length (de_nonce E (dn_draws d)) = 24" using assms(1) by (simp_all add: env_ok_def)
  obtain c where "encrypt_data_symmetric N key (de_nonce E (dn_draws d)) plain = Some c"
      "length c = length plain + 16" "decrypt_data_symmetric N key (de_nonce E (dn_draws d)) c = Some plain"
    using encrypt_symmetric_Some [OF N(1) assms(2)] by metis
  then show ?thesis using that [OF sealedI [of "de_nonce E (dn_draws d)" c]] N(2,3)
    by (simp add: send_encrypted_def next_nonce_def send_dht_def log_dht_def)
qed

lemma sealed_opens:
  assumes "sealed N key sender i plain p" and "length sender = 32" and "de_nacl E = N"
  shows "length p = 73 + length plain" "read_at p 1 32 = sender" "open_packet E key p (length plain) = Some plain"
proof -
  obtain nonce c where p: "length nonce = 24" "length c = length plain + 16" "p = [i] @ sender @ nonce @ c"
      "decrypt_data_symmetric N key nonce c = Some plain" using assms(1) by (auto simp: sealed_def)
  have "read_at p 33 24 = nonce" "read_at p 57 (length plain + 16) = c" "read_at p 1 32 = sender"
    using p(1-3) assms(2) by (simp_all add: read_at_def)
  then show "read_at p 1 32 = sender" "open_packet E key p (length plain) = Some plain" "length p = 73 + length plain"
    using p assms(2,3) by (simp_all add: open_packet_def)
qed

text \<open>A step that sends but does not touch the arrays and lists.\<close>

lemma later_refl [simp]: "later d d"
  by (simp add: later_def)

lemma later_trans: "later d d1 \<Longrightarrow> later d1 d2 \<Longrightarrow> later d d2"
  by (auto simp: later_def)

lemma send_encrypted_frame:
  "dn_dht (snd (send_encrypted E f d ipp i key plain)) = dn_dht d \<and> later d (snd (send_encrypted E f d ipp i key plain))"
  by (auto simp: send_encrypted_def next_nonce_def send_dht_def log_dht_def later_def split: option.split)

lemma same_dht_inv: "dht_inv N d \<Longrightarrow> dn_dht d' = dn_dht d \<Longrightarrow> later d d' \<Longrightarrow> dht_inv N d'"
  using requests_later [of N d d'] by (simp add: dht_inv_def net_ok_def)

lemma same_dht_lists: "dn_dht d' = dn_dht d \<Longrightarrow> dht_lists d' = dht_lists d"
  by (simp add: dht_lists_def)

text \<open>The key caches change without an effect on the invariant.\<close>

lemma caches_inv:
  assumes "dht_inv N d" and "shared_keys_ok N (self_secret_key (dn_dht d)) keys"
  shows "dht_inv N (d\<lparr>dn_dht := (dn_dht d)\<lparr>shared_keys_sent := keys\<rparr>\<rparr>)"
    and "dht_inv N (d\<lparr>dn_dht := (dn_dht d)\<lparr>shared_keys_recv := keys\<rparr>\<rparr>)"
proof -
  let ?s = "d\<lparr>dn_dht := (dn_dht d)\<lparr>shared_keys_sent := keys\<rparr>\<rparr>" and ?r = "d\<lparr>dn_dht := (dn_dht d)\<lparr>shared_keys_recv := keys\<rparr>\<rparr>"
  have l: "later d ?s" "later d ?r" by (simp_all add: later_def)
  have "requests_ok N ?s" "requests_ok N ?r"
    using assms(1) l by (auto simp: dht_inv_def intro: requests_later)
  then show "dht_inv N ?s" "dht_inv N ?r" using assms by (simp_all add: dht_inv_def net_ok_def dht_ok_def)
qed

lemma send_ping_request_sends:
  assumes inv: "dht_inv N d" and E: "env_ok N E" and n: "node_ok \<lparr>nf_public_key = pk, nf_ip_port = ipp\<rparr>"
    and other: "pk \<noteq> self_public_key (dn_dht d)" and s: "send_ping_request E d ipp pk = (r, d')"
  obtains pid a keys where
    "ping_array_add (de_now E) (de_random64 E (dn_draws d)) (de_alloc E (dn_draws d)) (ping_ping_array (dn_dht d))
       (node_image \<lparr>nf_public_key = pk, nf_ip_port = ipp\<rparr>) = (pid, a)"
    "dn_dht d' = (dn_dht d)\<lparr>shared_keys_sent := keys, ping_ping_array := a\<rparr>"
    "shared_keys_ok N (self_secret_key (dn_dht d)) keys"
    "pid = 0 \<and> r = 1 \<and> dn_log d' = dn_log d \<or>
     pid \<noteq> 0 \<and> (\<exists>p. dn_log d' = dn_log d @ [SendPacket ipp p] \<and>
       sealed N (encrypt_precompute N pk (self_secret_key (dn_dht d))) (self_public_key (dn_dht d)) NET_PACKET_PING_REQUEST
         ([NET_PACKET_PING_REQUEST] @ bytes_le 8 (unat pid)) p)"
proof -
  have len: "length pk = 32" "length (self_public_key (dn_dht d)) = 32"
    using n inv by (simp_all add: node_ok_def dht_inv_def net_ok_def dht_ok_def)
  have net: "net_ok N d" using inv by (simp add: dht_inv_def)
  let ?key = "encrypt_precompute N pk (self_secret_key (dn_dht d))"
  obtain keys where k: "key_sent E d pk = (d\<lparr>dn_dht := (dn_dht d)\<lparr>shared_keys_sent := keys\<rparr>\<rparr>, ?key)"
    "shared_keys_ok N (self_secret_key (dn_dht d)) keys" by (rule key_sent_value [OF net E len(1)])
  obtain pid a where a: "ping_array_add (de_now E) (de_random64 E (dn_draws d)) (de_alloc E (dn_draws d))
      (ping_ping_array (dn_dht d)) (pk @ ip_port_image ipp) = (pid, a)" by fastforce
  let ?plain = "[NET_PACKET_PING_REQUEST] @ bytes_le 8 (unat pid)"
  define d2 where "d2 = d\<lparr>dn_dht := (dn_dht d)\<lparr>shared_keys_sent := keys, ping_ping_array := a\<rparr>, dn_draws := dn_draws d + 1\<rparr>"
  have s': "(r, d') = (if pid = 0 then (1, d2) else send_encrypted E 1 d2 ipp NET_PACKET_PING_REQUEST ?key ?plain)"
    using s len other a k(1) by (simp add: send_ping_request_def id_equal_iff d2_def Let_def cong: if_cong)
  have img: "pk @ ip_port_image ipp = node_image \<lparr>nf_public_key = pk, nf_ip_port = ipp\<rparr>" by (simp add: node_image_def)
  obtain p where "sealed N ?key (self_public_key (dn_dht d2)) NET_PACKET_PING_REQUEST ?plain p"
      "send_encrypted E 1 d2 ipp NET_PACKET_PING_REQUEST ?key ?plain =
        (de_send E ipp p, d2\<lparr>dn_draws := dn_draws d2 + 1, dn_log := dn_log d2 @ [SendPacket ipp p]\<rparr>)"
    by (rule send_encrypted_value [OF E, of ?plain]) simp
  then show ?thesis using that [OF a [unfolded img], of keys] s' k(2) by (cases "pid = 0") (auto simp: d2_def)
qed

lemma sent_request:
  assumes "SendPacket ipp p \<in> set (dn_log d)" and "node_ok \<lparr>nf_public_key = pk, nf_ip_port = ipp\<rparr>"
    and "sealed N (encrypt_precompute N pk (self_secret_key (dn_dht d))) (self_public_key (dn_dht d)) i (pre @ bytes_le 8 (unat pid)) p"
  shows "request_sent N d i pid (node_image \<lparr>nf_public_key = pk, nf_ip_port = ipp\<rparr> @ rest)"
  unfolding request_sent_def asked_def
  using assms by (intro exI [of _ "\<lparr>nf_public_key = pk, nf_ip_port = ipp\<rparr>"] exI [of _ rest] exI [of _ pre]) auto

lemma send_ping_request_keeps:
  assumes inv: "dht_inv N d" and E: "env_ok N E" and n: "node_ok \<lparr>nf_public_key = pk, nf_ip_port = ipp\<rparr>"
    and s: "send_ping_request E d ipp pk = (r, d')"
  shows "dht_inv N d' \<and> dht_lists d' = dht_lists d \<and> later d d'"
proof (cases "pk = self_public_key (dn_dht d)")
  case True
  then have "d' = d" using s by (simp add: send_ping_request_def id_equal_def)
  then show ?thesis using inv by simp
next
  case False
  let ?n = "\<lparr>nf_public_key = pk, nf_ip_port = ipp\<rparr>"
  obtain pid a keys where a: "ping_array_add (de_now E) (de_random64 E (dn_draws d)) (de_alloc E (dn_draws d))
        (ping_ping_array (dn_dht d)) (node_image ?n) = (pid, a)"
    and d': "dn_dht d' = (dn_dht d)\<lparr>shared_keys_sent := keys, ping_ping_array := a\<rparr>"
    and keys: "shared_keys_ok N (self_secret_key (dn_dht d)) keys"
    and sent: "pid = 0 \<and> r = 1 \<and> dn_log d' = dn_log d \<or> pid \<noteq> 0 \<and> (\<exists>p. dn_log d' = dn_log d @ [SendPacket ipp p] \<and>
       sealed N (encrypt_precompute N pk (self_secret_key (dn_dht d))) (self_public_key (dn_dht d)) NET_PACKET_PING_REQUEST
         ([NET_PACKET_PING_REQUEST] @ bytes_le 8 (unat pid)) p)"
    by (rule send_ping_request_sends [OF inv E n False s])
  have later: "later d d'" using sent d' by (auto simp: later_def)
  have arr: "array_ok (ping_ping_array (dn_dht d))" "5 \<le> de_now E"
    using inv E by (simp_all add: dht_inv_def net_ok_def env_ok_def)
  have "request_sent N d' NET_PACKET_PING_REQUEST pid (node_image ?n)" if nz: "pid \<noteq> 0"
  proof -
    obtain p where "dn_log d' = dn_log d @ [SendPacket ipp p]"
      "sealed N (encrypt_precompute N pk (self_secret_key (dn_dht d'))) (self_public_key (dn_dht d')) NET_PACKET_PING_REQUEST
         ([NET_PACKET_PING_REQUEST] @ bytes_le 8 (unat pid)) p" using sent nz d' by auto
    then show ?thesis using sent_request [OF _ n, of p d' N NET_PACKET_PING_REQUEST "[NET_PACKET_PING_REQUEST]" pid "[]"] by simp
  qed
  then have "\<forall>i y. pa_data a i = Some y \<longrightarrow> request_sent N d' NET_PACKET_PING_REQUEST i y"
    using inv request_sent_later [OF _ later] by (intro array_add(2) [OF arr a]) (auto simp: dht_inv_def requests_ok_def)
  then have "requests_ok N d'"
    using inv request_sent_later [OF _ later] d' by (auto simp: dht_inv_def requests_ok_def)
  moreover have "net_ok N d'" using inv keys d' array_add(1) [OF arr a] by (simp add: dht_inv_def net_ok_def dht_ok_def)
  ultimately show ?thesis using later d' by (simp add: dht_inv_def dht_lists_def)
qed

lemma send_ping_response_keeps:
  assumes "dht_inv N d" and "send_ping_response E d ipp pk ping_id key = (r, d')"
  shows "dht_inv N d' \<and> dht_lists d' = dht_lists d \<and> later d d'"
proof -
  have "dn_dht d' = dn_dht d \<and> later d d'"
    using assms(2) send_encrypted_frame [of E 1 d ipp NET_PACKET_PING_RESPONSE key "[NET_PACKET_PING_RESPONSE] @ bytes_le 8 (unat ping_id)"]
    by (auto simp: send_ping_response_def split: if_splits)
  then show ?thesis using same_dht_inv [OF assms(1)] same_dht_lists by blast
qed

lemma getnodes_sends:
  assumes inv: "dht_inv N d" and E: "env_ok N E" and n: "node_ok \<lparr>nf_public_key = pk, nf_ip_port = ipp\<rparr>"
    and other: "pk \<noteq> self_public_key (dn_dht d)" and s: "getnodes E d ipp pk cid sb = (r, d')"
  obtains pid a keys where
    "ping_array_add (de_now E) (de_random64 E (dn_draws d)) (de_alloc E (dn_draws d))
       (if sb = None then dht_ping_array (dn_dht d) else dht_harden_ping_array (dn_dht d))
       (node_image \<lparr>nf_public_key = pk, nf_ip_port = ipp\<rparr> @ (case sb of None \<Rightarrow> [] | Some m \<Rightarrow> node_image m)) = (pid, a)"
    "dn_dht d' = (if sb = None then (dn_dht d)\<lparr>shared_keys_sent := keys, dht_ping_array := a\<rparr>
       else (dn_dht d)\<lparr>shared_keys_sent := keys, dht_harden_ping_array := a\<rparr>)"
    "shared_keys_ok N (self_secret_key (dn_dht d)) keys"
    "pid = 0 \<and> r = - 1 \<and> dn_log d' = dn_log d \<or>
     pid \<noteq> 0 \<and> (\<exists>p. dn_log d' = dn_log d @ [SendPacket ipp p] \<and>
       sealed N (encrypt_precompute N pk (self_secret_key (dn_dht d))) (self_public_key (dn_dht d)) NET_PACKET_GET_NODES
         (cid @ bytes_le 8 (unat pid)) p)"
proof -
  have len: "length pk = 32" "length (self_public_key (dn_dht d)) = 32"
    using n inv by (simp_all add: node_ok_def dht_inv_def net_ok_def dht_ok_def)
  let ?x = "node_image \<lparr>nf_public_key = pk, nf_ip_port = ipp\<rparr> @ (case sb of None \<Rightarrow> [] | Some m \<Rightarrow> node_image m)"
  let ?arr = "if sb = None then dht_ping_array (dn_dht d) else dht_harden_ping_array (dn_dht d)"
  let ?key = "encrypt_precompute N pk (self_secret_key (dn_dht d))"
  obtain pid a where a: "ping_array_add (de_now E) (de_random64 E (dn_draws d)) (de_alloc E (dn_draws d)) ?arr ?x = (pid, a)"
    by fastforce
  define d1 where "d1 = d\<lparr>dn_dht := (if sb = None then (dn_dht d)\<lparr>dht_ping_array := a\<rparr>
    else (dn_dht d)\<lparr>dht_harden_ping_array := a\<rparr>), dn_draws := dn_draws d + 1\<rparr>"
  have arr: "array_ok ?arr" "5 \<le> de_now E" using inv E by (auto simp: dht_inv_def net_ok_def env_ok_def)
  have net: "net_ok N d1" using inv array_add(1) [OF arr a] by (auto simp: d1_def dht_inv_def net_ok_def dht_ok_def)
  have key: "self_secret_key (dn_dht d1) = self_secret_key (dn_dht d)" "self_public_key (dn_dht d1) = self_public_key (dn_dht d)"
    "dn_log d1 = dn_log d" by (simp_all add: d1_def)
  obtain keys where k: "key_sent E d1 pk = (d1\<lparr>dn_dht := (dn_dht d1)\<lparr>shared_keys_sent := keys\<rparr>\<rparr>, ?key)"
    "shared_keys_ok N (self_secret_key (dn_dht d)) keys" using key_sent_value [OF net E len(1)] unfolding key by blast
  define d2 where "d2 = d1\<lparr>dn_dht := (dn_dht d1)\<lparr>shared_keys_sent := keys\<rparr>\<rparr>"
  let ?plain = "cid @ bytes_le 8 (unat pid)"
  have s': "(r, d') = (if pid = 0 then (- 1, d1) else send_encrypted E (- 1) d2 ipp NET_PACKET_GET_NODES ?key ?plain)"
    using s len other a k(1)
    by (cases sb) (simp_all add: getnodes_def id_equal_iff d1_def d2_def Let_def cong: if_cong)
  have "?plain \<noteq> []" by (metis append_is_Nil_conv length_bytes_le list.size(3) zero_neq_numeral)
  then obtain p where p: "sealed N ?key (self_public_key (dn_dht d2)) NET_PACKET_GET_NODES ?plain p"
      "send_encrypted E (- 1) d2 ipp NET_PACKET_GET_NODES ?key ?plain =
        (de_send E ipp p, d2\<lparr>dn_draws := dn_draws d2 + 1, dn_log := dn_log d2 @ [SendPacket ipp p]\<rparr>)"
    by (rule send_encrypted_value [OF E])
  show ?thesis
  proof (cases "pid = 0")
    case True
    have "dn_dht d1 = (dn_dht d1)\<lparr>shared_keys_sent := shared_keys_sent (dn_dht d)\<rparr>" by (simp add: d1_def)
    then show ?thesis using that [OF a, of "shared_keys_sent (dn_dht d)"] s' True inv
      by (simp add: d1_def dht_inv_def net_ok_def)
  next
    case False
    then show ?thesis using that [OF a _ k(2)] s' p by (cases sb) (simp_all add: d1_def d2_def)
  qed
qed

lemma getnodes_keeps:
  assumes inv: "dht_inv N d" and E: "env_ok N E" and n: "node_ok \<lparr>nf_public_key = pk, nf_ip_port = ipp\<rparr>"
    and s: "getnodes E d ipp pk cid sb = (r, d')"
  shows "dht_inv N d' \<and> dht_lists d' = dht_lists d \<and> later d d'"
proof (cases "pk = self_public_key (dn_dht d)")
  case True
  then have "d' = d" using s by (simp add: getnodes_def id_equal_def)
  then show ?thesis using inv by simp
next
  case False
  let ?n = "\<lparr>nf_public_key = pk, nf_ip_port = ipp\<rparr>" and ?rest = "case sb of None \<Rightarrow> [] | Some m \<Rightarrow> node_image m"
  let ?arr = "if sb = None then dht_ping_array (dn_dht d) else dht_harden_ping_array (dn_dht d)"
  obtain pid a keys where a: "ping_array_add (de_now E) (de_random64 E (dn_draws d)) (de_alloc E (dn_draws d)) ?arr
        (node_image ?n @ ?rest) = (pid, a)"
    and d': "dn_dht d' = (if sb = None then (dn_dht d)\<lparr>shared_keys_sent := keys, dht_ping_array := a\<rparr>
       else (dn_dht d)\<lparr>shared_keys_sent := keys, dht_harden_ping_array := a\<rparr>)"
    and keys: "shared_keys_ok N (self_secret_key (dn_dht d)) keys"
    and sent: "pid = 0 \<and> r = - 1 \<and> dn_log d' = dn_log d \<or> pid \<noteq> 0 \<and> (\<exists>p. dn_log d' = dn_log d @ [SendPacket ipp p] \<and>
       sealed N (encrypt_precompute N pk (self_secret_key (dn_dht d))) (self_public_key (dn_dht d)) NET_PACKET_GET_NODES
         (cid @ bytes_le 8 (unat pid)) p)"
    by (rule getnodes_sends [OF inv E n False s])
  have same: "self_secret_key (dn_dht d') = self_secret_key (dn_dht d)" "self_public_key (dn_dht d') = self_public_key (dn_dht d)"
    using d' by simp_all
  have later: "later d d'" using sent same by (auto simp: later_def)
  have arr: "array_ok ?arr" "5 \<le> de_now E" using inv E by (auto simp: dht_inv_def net_ok_def env_ok_def)
  have "request_sent N d' NET_PACKET_GET_NODES pid (node_image ?n @ ?rest)" if nz: "pid \<noteq> 0"
  proof -
    obtain p where "dn_log d' = dn_log d @ [SendPacket ipp p]"
      "sealed N (encrypt_precompute N pk (self_secret_key (dn_dht d'))) (self_public_key (dn_dht d')) NET_PACKET_GET_NODES
         (cid @ bytes_le 8 (unat pid)) p" using sent nz same by auto
    then show ?thesis using sent_request [OF _ n, of p d' N NET_PACKET_GET_NODES _ pid] by simp
  qed
  then have "\<forall>i y. pa_data a i = Some y \<longrightarrow> request_sent N d' NET_PACKET_GET_NODES i y"
    using inv request_sent_later [OF _ later] by (intro array_add(2) [OF arr a]) (auto simp: dht_inv_def requests_ok_def)
  then have "requests_ok N d'"
    using inv request_sent_later [OF _ later] d' by (auto simp: dht_inv_def requests_ok_def)
  moreover have "net_ok N d'" using inv keys d' array_add(1) [OF arr a] by (auto simp: dht_inv_def net_ok_def dht_ok_def)
  ultimately show ?thesis using later d' by (simp add: dht_inv_def dht_lists_def)
qed

lemma sendnodes_ipv6_keeps:
  assumes "dht_inv N d" and "sendnodes_ipv6 E d ipp pk cid sbd key = (r, d')"
  shows "dht_inv N d' \<and> dht_lists d' = dht_lists d \<and> later d d'"
proof -
  have "dn_dht d' = dn_dht d \<and> later d d'"
    using assms(2) send_encrypted_frame [of E "- 1" d ipp NET_PACKET_SEND_NODES_IPV6 key]
    by (auto simp: sendnodes_ipv6_def next_nonce_def later_def Let_def prod_eq_iff split: if_splits option.splits prod.splits)
  then show ?thesis using same_dht_inv [OF assms(1)] same_dht_lists by blast
qed

lemma send_hardening_getnode_res_keeps:
  assumes "dht_inv N d" and "send_hardening_getnode_res E d sendto q data = (r, d')"
  shows "dht_inv N d' \<and> dht_lists d' = dht_lists d \<and> later d d'"
proof -
  have "dn_dht d' = dn_dht d \<and> later d d'"
    using assms(2) by (auto simp: send_hardening_getnode_res_def next_nonce_def send_dht_def log_dht_def later_def
        split: if_splits option.splits)
  then show ?thesis using same_dht_inv [OF assms(1)] same_dht_lists by blast
qed

section \<open>The handlers\<close>

text \<open>The other half of the state, which the operations on the lists leave alone.\<close>

definition dht_core :: "DHT \<Rightarrow> bytes \<times> bytes \<times> shared_keys \<times> shared_keys \<times> ping_array \<times> ping_array \<times> ping_array" where
  "dht_core d = (self_public_key d, self_secret_key d, shared_keys_sent d, shared_keys_recv d, ping_ping_array d,
     dht_ping_array d, dht_harden_ping_array d)"

lemma core_inv:
  assumes "dht_inv N d" and "dht_core (dn_dht d') = dht_core (dn_dht d)" and "dht_ok (dn_dht d')" and "set (dn_log d) \<subseteq> set (dn_log d')"
  shows "dht_inv N d' \<and> later d d'"
proof -
  have "later d d'" using assms(2,4) by (simp add: dht_core_def later_def)
  then show ?thesis using assms requests_later [of N d d'] by (simp add: dht_inv_def net_ok_def dht_core_def)
qed

lemma addto_lists_core: "addto_lists qs now d ipp pk = Some (d', used, es) \<Longrightarrow> dht_core d' = dht_core d"
  by (auto simp: addto_lists_def dht_core_def add_to_close_def Let_def split: prod.splits if_splits option.splits)

lemma ping_node_core: "ping_node_from_getnodes_ok now d pk ipp = Some (d', r) \<Longrightarrow> dht_core d' = dht_core d"
  by (auto simp: ping_node_from_getnodes_ok_def dht_core_def Let_def split: prod.splits if_splits option.splits)

lemma returnedip_ports_core: "dht_core (returnedip_ports now d ipp pk nodepk) = dht_core d"
  by (auto simp: returnedip_ports_def dht_core_def Let_def split: option.splits)

lemma to_ping_loop_ok:
  assumes "\<forall>n\<in>set ns. node_ok n" and "node_ok \<lparr>nf_public_key = pk, nf_ip_port = ipp\<rparr>" and "to_ping_loop ns pk ipp = Inl (ns', r)"
  shows "(\<forall>n\<in>set ns'. node_ok n) \<and> length ns' = length ns"
  using assms
proof (induction ns arbitrary: ns')
  case (Cons n ns)
  show ?case
  proof (cases "to_ping_loop ns pk ipp")
    case (Inl a)
    then show ?thesis using Cons.IH [of "fst a"] Cons.prems by (cases a) (auto split: if_splits)
  next
    case (Inr b)
    then show ?thesis using Cons.prems by (auto split: if_splits)
  qed
qed simp

text \<open>Changing only the list of nodes to ping.\<close>

lemma to_ping_inv:
  assumes "dht_inv N d" and "length ns = MAX_TO_PING" and "\<forall>n\<in>set ns. node_ok n"
  shows "dht_inv N (d\<lparr>dn_dht := (dn_dht d)\<lparr>to_ping := ns\<rparr>\<rparr>) \<and> later d (d\<lparr>dn_dht := (dn_dht d)\<lparr>to_ping := ns\<rparr>\<rparr>)"
  using assms by (intro core_inv) (auto simp: dht_core_def dht_inv_def net_ok_def dht_ok_def)

text \<open>The client lists, the keys and the lists of nodes to bootstrap from.\<close>

definition client_lists :: "DHT_Net \<Rightarrow> Client_data list \<times> DHT_Friend list" where
  "client_lists d = (close_clientlist (dn_dht d), friends_list (dn_dht d))"

lemma lists_client_lists: "dht_lists d' = dht_lists d \<Longrightarrow> client_lists d' = client_lists d"
  by (simp add: dht_lists_def client_lists_def)

lemma add_to_ping_cases:
  assumes r: "add_to_ping E d pk ipp = Some (r, d')"
  obtains (same) "d' = d" | (ping) "d' = snd (send_ping_request E d ipp pk)"
    | (free) ns where "d' = d\<lparr>dn_dht := (dn_dht d)\<lparr>to_ping := ns\<rparr>\<rparr>" "to_ping_loop (to_ping (dn_dht d)) pk ipp = Inl (ns, r)"
    | (full) ns where "d' = d\<lparr>dn_dht := (dn_dht d)\<lparr>to_ping := ns\<rparr>\<rparr>"
        "ns = fst (add_to_list (to_ping (dn_dht d)) pk ipp (self_public_key (dn_dht d)))"
proof (cases "ip_isset (ipp_ip ipp)")
  case False
  then show ?thesis using r same by (simp add: add_to_ping_def)
next
  case set: True
  then obtain ad where ad: "node_addable_to_close_list (de_now E) (dn_dht d) pk ipp = Some ad"
    using r by (auto simp: add_to_ping_def Let_def bind_eq_Some_conv)
  show ?thesis
  proof (cases "ad \<and> \<not> in_list (de_now E) (close_clientlist (dn_dht d)) pk ipp")
    case False
    then show ?thesis using r set ad same by (auto simp: add_to_ping_def Let_def split: if_splits)
  next
    case new: True
    show ?thesis
    proof (cases "fst (DHT_getfriendip (de_now E) (dn_dht d) pk) = 0")
      case True
      then show ?thesis using r set ad new ping by (auto simp: add_to_ping_def Let_def)
    next
      case False
      obtain ns added where l: "add_to_list (to_ping (dn_dht d)) pk ipp (self_public_key (dn_dht d)) = (ns, added)" by fastforce
      show ?thesis
      proof (cases "to_ping_loop (to_ping (dn_dht d)) pk ipp")
        case (Inl x)
        then show ?thesis using r set ad new False free by (cases x) (auto simp: add_to_ping_def Let_def)
      next
        case (Inr x)
        then have "d' = d\<lparr>dn_dht := (dn_dht d)\<lparr>to_ping := ns\<rparr>\<rparr>"
          using r set ad new False l by (simp add: add_to_ping_def Let_def)
        then show ?thesis by (rule full) (simp add: l)
      qed
    qed
  qed
qed

lemma add_to_ping_keeps:
  assumes inv: "dht_inv N d" and E: "env_ok N E" and n: "node_ok \<lparr>nf_public_key = pk, nf_ip_port = ipp\<rparr>"
    and r: "add_to_ping E d pk ipp = Some (r, d')"
  shows "dht_inv N d' \<and> client_lists d' = client_lists d \<and> later d d'"
proof -
  have tp: "length (to_ping (dn_dht d)) = MAX_TO_PING" "\<forall>n\<in>set (to_ping (dn_dht d)). node_ok n" "length (self_public_key (dn_dht d)) = 32"
    using inv by (simp_all add: dht_inv_def net_ok_def dht_ok_def)
  have pk: "length pk = 32" "ip_ok (ipp_ip ipp)" using n by (simp_all add: node_ok_def)
  from r show ?thesis
  proof (cases rule: add_to_ping_cases)
    case ping
    then show ?thesis using send_ping_request_keeps [OF inv E n prod.collapse [symmetric]] lists_client_lists by blast
  next
    case (free ns)
    then show ?thesis using to_ping_inv [OF inv, of ns] to_ping_loop_ok [OF tp(2) n free(2)] tp(1) by (simp add: client_lists_def)
  next
    case (full ns)
    then show ?thesis using to_ping_inv [OF inv, of ns] add_to_list_node_ok [OF tp(2) pk tp(3)] tp(1) by (simp add: client_lists_def)
  qed (use inv in simp)
qed

lemma handle_ping_request_keeps:
  assumes inv: "dht_inv N d" and E: "env_ok N E" and src: "ip_ok (ipp_ip source)"
    and h: "handle_ping_request E d source packet = Some (r, d')"
  shows "dht_inv N d' \<and> client_lists d' = client_lists d \<and> later d d'"
proof (cases "length packet = DHT_PING_SIZE \<and> \<not> id_equal (read_at packet 1 32) (self_public_key (dn_dht d))")
  case False
  then show ?thesis using h inv by (auto simp: handle_ping_request_def Let_def split: if_splits)
next
  case True
  let ?pk = "read_at packet 1 32"
  have pk: "length ?pk = 32" and n: "node_ok \<lparr>nf_public_key = ?pk, nf_ip_port = source\<rparr>" using True src by (simp_all add: node_ok_def)
  obtain keys where k: "key_recv E d ?pk = (d\<lparr>dn_dht := (dn_dht d)\<lparr>shared_keys_recv := keys\<rparr>\<rparr>,
      encrypt_precompute N ?pk (self_secret_key (dn_dht d)))" "shared_keys_ok N (self_secret_key (dn_dht d)) keys"
    using key_recv_value [OF _ E pk] inv unfolding dht_inv_def by blast
  define d1 where "d1 = d\<lparr>dn_dht := (dn_dht d)\<lparr>shared_keys_recv := keys\<rparr>\<rparr>"
  have d1: "dht_inv N d1" "client_lists d1 = client_lists d" "later d d1"
    using caches_inv(2) [OF inv k(2)] by (simp_all add: d1_def client_lists_def later_def)
  show ?thesis
  proof (cases "d' = d1")
    case False
    define id where "id = (word_of_nat (le_val (read_at (the (open_packet E (snd (key_recv E d ?pk)) packet PING_PLAIN_SIZE)) 1 8)) :: u64)"
    define d2 where "d2 = snd (send_ping_response E d1 source ?pk id (snd (key_recv E d ?pk)))"
    have "dht_inv N d2 \<and> dht_lists d2 = dht_lists d1 \<and> later d1 d2" unfolding d2_def
      by (rule send_ping_response_keeps [OF d1(1) prod.collapse [symmetric]])
    moreover have "\<exists>r. add_to_ping E d2 ?pk source = Some (r, d')"
      using h True k(1) False
      by (auto simp: handle_ping_request_def Let_def d1_def [symmetric] d2_def id_def bind_eq_Some_conv split: option.splits if_splits)
    ultimately show ?thesis
      using add_to_ping_keeps [OF _ E n] lists_client_lists [of d2 d1] d1 later_trans by metis
  qed (use d1 in simp)
qed

lemma addto_lists_net_keeps:
  assumes inv: "dht_inv N d" and E: "env_ok N E" and n: "node_ok \<lparr>nf_public_key = pk, nf_ip_port = ipp\<rparr>"
    and a: "addto_lists_net E d ipp pk = Some d'"
  shows "dht_inv N d' \<and> later d d' \<and> dht_core (dn_dht d') = dht_core (dn_dht d)"
proof -
  obtain dht used es where l: "addto_lists (de_qsort E) (de_now E) (dn_dht d) ipp pk = Some (dht, used, es)"
    and d': "d' = log_dht es (d\<lparr>dn_dht := dht\<rparr>)" using a by (auto simp: addto_lists_net_def)
  have "dht_ok dht"
    using addto_lists_keeps [of "de_qsort E" "dn_dht d" pk ipp "de_now E"] l inv E n
    by (auto simp: dht_inv_def net_ok_def env_ok_def node_ok_def)
  then show ?thesis
    using core_inv [OF inv, of d'] addto_lists_core [OF l] by (auto simp: d' log_dht_def)
qed

text \<open>Taking an answered request out of one of the arrays.\<close>

lemma check_inv:
  assumes inv: "dht_inv N d" and E: "env_ok N E"
  shows "ping_array_check (de_now E) len (ping_ping_array (dn_dht d)) pid = (m, x, a) \<Longrightarrow>
      dht_inv N (d\<lparr>dn_dht := (dn_dht d)\<lparr>ping_ping_array := a\<rparr>\<rparr>)"
    and "ping_array_check (de_now E) len (dht_ping_array (dn_dht d)) pid = (m, x, a) \<Longrightarrow>
      dht_inv N (d\<lparr>dn_dht := (dn_dht d)\<lparr>dht_ping_array := a\<rparr>\<rparr>)"
    and "ping_array_check (de_now E) len (dht_harden_ping_array (dn_dht d)) pid = (m, x, a) \<Longrightarrow>
      dht_inv N (d\<lparr>dn_dht := (dn_dht d)\<lparr>dht_harden_ping_array := a\<rparr>\<rparr>)"
proof -
  have now: "5 \<le> de_now E" using E by (simp add: env_ok_def)
  have arr: "array_ok (ping_ping_array (dn_dht d))" "array_ok (dht_ping_array (dn_dht d))" "array_ok (dht_harden_ping_array (dn_dht d))"
    using inv by (simp_all add: dht_inv_def net_ok_def)
  have eq: "request_sent N (d\<lparr>dn_dht := dht\<rparr>) i p y = request_sent N d i p y"
    if "self_public_key dht = self_public_key (dn_dht d)" "self_secret_key dht = self_secret_key (dn_dht d)" for dht i p y
    using that by (simp add: request_sent_def asked_def)
  note defs = dht_inv_def net_ok_def requests_ok_def dht_ok_def eq
  show "dht_inv N (d\<lparr>dn_dht := (dn_dht d)\<lparr>ping_ping_array := a\<rparr>\<rparr>)"
    if "ping_array_check (de_now E) len (ping_ping_array (dn_dht d)) pid = (m, x, a)"
    using inv array_check(1,2) [OF arr(1) now that] by (simp add: defs)
  show "dht_inv N (d\<lparr>dn_dht := (dn_dht d)\<lparr>dht_ping_array := a\<rparr>\<rparr>)"
    if "ping_array_check (de_now E) len (dht_ping_array (dn_dht d)) pid = (m, x, a)"
    using inv array_check(1,2) [OF arr(2) now that] by (simp add: defs)
  show "dht_inv N (d\<lparr>dn_dht := (dn_dht d)\<lparr>dht_harden_ping_array := a\<rparr>\<rparr>)"
    if "ping_array_check (de_now E) len (dht_harden_ping_array (dn_dht d)) pid = (m, x, a)"
    using inv array_check(1,2) [OF arr(3) now that] by (simp add: defs)
qed

text \<open>What a request in an array says: a node whose image it starts with was asked.\<close>

lemma request_node:
  assumes "request_sent N d i pid x"
  shows "\<exists>pre. asked N d i (node_of_image x) (pre @ bytes_le 8 (unat pid)) \<and> node_ok (node_of_image x)"
proof -
  obtain n rest pre where n: "node_ok n" "x = node_image n @ rest" "asked N d i n (pre @ bytes_le 8 (unat pid))"
    using assms by (auto simp: request_sent_def)
  then have "node_of_image x = n" using node_of_image_prefix [of x] by simp
  then show ?thesis using n by auto
qed

lemma node_of_image_parts:
  "64 \<le> length x \<Longrightarrow> nf_public_key (node_of_image x) = read_at x 0 32 \<and>
     nf_ip_port (node_of_image x) = ip_port_of_image (read_at x 32 32)"
  by (simp add: node_of_image_def)

lemma handle_ping_response_result:
  assumes inv: "dht_inv N d" and E: "env_ok N E" and src: "ip_ok (ipp_ip source)"
    and h: "handle_ping_response E d source packet = Some (r, d')"
  shows "dht_inv N d' \<and> later d d' \<and>
    (r \<noteq> 0 \<longrightarrow> client_lists d' = client_lists d) \<and>
    (r = 0 \<longrightarrow> (\<exists>n pid pre. nf_public_key n = read_at packet 1 32 \<and> ipport_equal (nf_ip_port n) source \<and>
       asked N d NET_PACKET_PING_REQUEST n (pre @ bytes_le 8 (unat pid)) \<and>
       open_packet E (encrypt_precompute N (nf_public_key n) (self_secret_key (dn_dht d))) packet 9 \<noteq> None \<and>
       pa_data (ping_ping_array (dn_dht d)) pid \<noteq> None \<and> pa_data (ping_ping_array (dn_dht d')) pid = None))"
proof (cases "length packet = DHT_PING_SIZE \<and> \<not> id_equal (read_at packet 1 32) (self_public_key (dn_dht d))")
  case False
  then show ?thesis using h inv by (auto simp: handle_ping_response_def Let_def split: if_splits)
next
  case True
  let ?pk = "read_at packet 1 32" and ?key = "encrypt_precompute N (read_at packet 1 32) (self_secret_key (dn_dht d))"
  have pk: "length ?pk = 32" and nd: "node_ok \<lparr>nf_public_key = ?pk, nf_ip_port = source\<rparr>" using True src by (simp_all add: node_ok_def)
  obtain keys where k: "key_sent E d ?pk = (d\<lparr>dn_dht := (dn_dht d)\<lparr>shared_keys_sent := keys\<rparr>\<rparr>, ?key)"
      "shared_keys_ok N (self_secret_key (dn_dht d)) keys"
    using key_sent_value [OF _ E pk] inv unfolding dht_inv_def by blast
  define d1 where "d1 = d\<lparr>dn_dht := (dn_dht d)\<lparr>shared_keys_sent := keys\<rparr>\<rparr>"
  have d1: "dht_inv N d1" "client_lists d1 = client_lists d" "later d d1" "dn_log d1 = dn_log d"
    "ping_ping_array (dn_dht d1) = ping_ping_array (dn_dht d)"
    using caches_inv(1) [OF inv k(2)] by (simp_all add: d1_def client_lists_def later_def)
  show ?thesis
  proof (cases "\<exists>plain. open_packet E ?key packet PING_PLAIN_SIZE = Some plain \<and> plain ! 0 = NET_PACKET_PING_RESPONSE")
    case False
    then have "r = 1 \<and> d' = d1" using h True k(1) by (auto simp: handle_ping_response_def Let_def d1_def split: option.splits if_splits)
    then show ?thesis using d1 by simp
  next
    case op: True
    then obtain plain where plain: "open_packet E ?key packet PING_PLAIN_SIZE = Some plain" "plain ! 0 = NET_PACKET_PING_RESPONSE" by blast
    define pid where "pid = (word_of_nat (le_val (read_at plain 1 8)) :: u64)"
    obtain m x a where c: "ping_array_check (de_now E) PING_DATA_SIZE (ping_ping_array (dn_dht d1)) pid = (m, x, a)" using prod_cases3 by blast
    define d2 where "d2 = d1\<lparr>dn_dht := (dn_dht d1)\<lparr>ping_ping_array := a\<rparr>\<rparr>"
    have d2: "dht_inv N d2" "client_lists d2 = client_lists d" "later d d2"
      using check_inv(1) [OF d1(1) E c] d1(2,3) by (simp_all add: d2_def client_lists_def later_def)
    have res: "handle_ping_response E d source packet =
        (if m \<noteq> 64 \<or> \<not> id_equal ?pk (read_at x 0 32) \<or> \<not> ipport_equal (ip_port_of_image (read_at x 32 32)) source
         then Some (1, d2) else map_option (\<lambda>d3. (0, d3)) (addto_lists_net E d2 source ?pk))"
      using True k(1) plain c by (simp add: handle_ping_response_def Let_def d1_def [symmetric] d2_def pid_def)
    show ?thesis
    proof (cases "m \<noteq> 64 \<or> \<not> id_equal ?pk (read_at x 0 32) \<or> \<not> ipport_equal (ip_port_of_image (read_at x 32 32)) source")
      case True
      then show ?thesis using h res d2 by simp
    next
      case False
      have arr: "array_ok (ping_ping_array (dn_dht d1))" "5 \<le> de_now E"
        using d1(1) E by (simp_all add: dht_inv_def net_ok_def env_ok_def)
      have x: "pa_data (ping_ping_array (dn_dht d)) pid = Some x" "length x = 64" "pa_data a pid = None"
        using array_check(3) [OF arr c] False d1(5) by simp_all
      have l: "addto_lists_net E d2 source ?pk = Some d'" "r = 0" using h res False by auto
      note fin = addto_lists_net_keeps [OF d2(1) E nd l(1)]
      have gone: "pa_data (ping_ping_array (dn_dht d')) pid = None" using fin x(3) by (simp add: dht_core_def d2_def)
      have "request_sent N d NET_PACKET_PING_REQUEST pid x" using inv x(1) by (simp add: dht_inv_def requests_ok_def)
      then obtain pre where as: "asked N d NET_PACKET_PING_REQUEST (node_of_image x) (pre @ bytes_le 8 (unat pid))"
        using request_node by blast
      have "nf_public_key (node_of_image x) = ?pk" "ipport_equal (nf_ip_port (node_of_image x)) source"
        using False x(2) node_of_image_parts [of x] pk by (auto simp: id_equal_iff)
      then show ?thesis using as gone x(1) plain(1) fin l(2) d2(3) later_trans
        by (auto intro!: exI [of _ "node_of_image x"] exI [of _ pid])
    qed
  qed
qed

lemma handle_getnodes_keeps:
  assumes inv: "dht_inv N d" and E: "env_ok N E" and src: "ip_ok (ipp_ip source)"
    and h: "handle_getnodes E d source packet = Some (r, d')"
  shows "dht_inv N d' \<and> client_lists d' = client_lists d \<and> later d d'"
proof (cases "length packet = 113 \<and> \<not> id_equal (read_at packet 1 32) (self_public_key (dn_dht d))")
  case False
  then show ?thesis using h inv by (auto simp: handle_getnodes_def Let_def split: if_splits)
next
  case True
  let ?pk = "read_at packet 1 32"
  have pk: "length ?pk = 32" and n: "node_ok \<lparr>nf_public_key = ?pk, nf_ip_port = source\<rparr>" using True src by (simp_all add: node_ok_def)
  obtain keys where k: "key_recv E d ?pk = (d\<lparr>dn_dht := (dn_dht d)\<lparr>shared_keys_recv := keys\<rparr>\<rparr>,
      encrypt_precompute N ?pk (self_secret_key (dn_dht d)))" "shared_keys_ok N (self_secret_key (dn_dht d)) keys"
    using key_recv_value [OF _ E pk] inv unfolding dht_inv_def by blast
  define d1 where "d1 = d\<lparr>dn_dht := (dn_dht d)\<lparr>shared_keys_recv := keys\<rparr>\<rparr>"
  have d1: "dht_inv N d1" "client_lists d1 = client_lists d" "later d d1"
    using caches_inv(2) [OF inv k(2)] by (simp_all add: d1_def client_lists_def later_def)
  show ?thesis
  proof (cases "open_packet E (snd (key_recv E d ?pk)) packet 40")
    case None
    then have "d' = d1" using h True k(1) by (auto simp: handle_getnodes_def Let_def d1_def)
    then show ?thesis using d1 by simp
  next
    case (Some plain)
    define d2 where "d2 = snd (sendnodes_ipv6 E d1 source ?pk (read_at plain 0 32) (read_at plain 32 8) (snd (key_recv E d ?pk)))"
    have "dht_inv N d2 \<and> dht_lists d2 = dht_lists d1 \<and> later d1 d2" unfolding d2_def
      by (rule sendnodes_ipv6_keeps [OF d1(1) prod.collapse [symmetric]])
    moreover have "\<exists>r. add_to_ping E d2 ?pk source = Some (r, d')"
      using h True k(1) Some by (auto simp: handle_getnodes_def Let_def d1_def [symmetric] d2_def bind_eq_Some_conv)
    ultimately show ?thesis
      using add_to_ping_keeps [OF _ E n] lists_client_lists [of d2 d1] d1 later_trans by metis
  qed
qed

lemma sent_getnode_to_node_result:
  assumes inv: "dht_inv N d" and E: "env_ok N E" and pk: "length pk = 32"
    and s: "sent_getnode_to_node E d pk ipp pid = (sb, d')"
  shows "dht_inv N d' \<and> dht_lists d' = dht_lists d \<and> later d d' \<and>
    (sb \<noteq> None \<longrightarrow> (\<exists>n pre. nf_public_key n = pk \<and> ipport_equal (nf_ip_port n) ipp \<and>
       asked N d NET_PACKET_GET_NODES n (pre @ bytes_le 8 (unat pid))))"
proof -
  obtain m1 x1 a1 where c1: "ping_array_check (de_now E) 128 (dht_ping_array (dn_dht d)) pid = (m1, x1, a1)" using prod_cases3 by blast
  obtain m2 x2 a2 where c2: "ping_array_check (de_now E) 128 (dht_harden_ping_array (dn_dht d)) pid = (m2, x2, a2)" using prod_cases3 by blast
  define d1 where "d1 = d\<lparr>dn_dht := (dn_dht d)\<lparr>dht_ping_array := a1\<rparr>\<rparr>"
  define d2 where "d2 = d1\<lparr>dn_dht := (dn_dht d1)\<lparr>dht_harden_ping_array := a2\<rparr>\<rparr>"
  have i1: "dht_inv N d1" "dht_lists d1 = dht_lists d" "later d d1"
    using check_inv(2) [OF inv E c1] by (simp_all add: d1_def dht_lists_def later_def)
  have i2: "dht_inv N d2" "dht_lists d2 = dht_lists d" "later d d2"
    using check_inv(3) [OF i1(1) E, of 128 pid m2 x2 a2] c2 by (simp_all add: d1_def d2_def dht_lists_def later_def)
  have arr: "array_ok (dht_ping_array (dn_dht d))" "array_ok (dht_harden_ping_array (dn_dht d))" "5 \<le> de_now E"
    using inv E by (simp_all add: dht_inv_def net_ok_def env_ok_def)
  define ok where "ok = (\<lambda>x. ipport_equal (nf_ip_port (node_of_image x)) ipp \<and> memcmp (nf_public_key (node_of_image x)) pk = 0)"
  have res: "(sb, d') = (if m1 = 64 then (if ok x1 then Some node_zero else None, d1)
      else if m2 = 128 then (if ok x2 then Some (node_of_image (drop 64 x2)) else None, d2) else (None, d2))"
    using s c1 c2 by (simp add: sent_getnode_to_node_def ok_def Let_def d1_def d2_def cong: if_cong)
  have found: "\<exists>n pre. nf_public_key n = pk \<and> ipport_equal (nf_ip_port n) ipp \<and>
      asked N d NET_PACKET_GET_NODES n (pre @ bytes_le 8 (unat pid))"
    if okx: "ok x" "request_sent N d NET_PACKET_GET_NODES pid x" for x
  proof -
    obtain pre where p: "asked N d NET_PACKET_GET_NODES (node_of_image x) (pre @ bytes_le 8 (unat pid))" "node_ok (node_of_image x)"
      using request_node [OF okx(2)] by blast
    then have "nf_public_key (node_of_image x) = pk" using okx(1) pk by (simp add: ok_def node_ok_def memcmp_eq_0_iff)
    then show ?thesis using p(1) okx(1) by (auto simp: ok_def)
  qed
  have "request_sent N d NET_PACKET_GET_NODES pid x1" if "m1 = 64"
    using array_check(3) [OF arr(1,3) c1] that inv by (simp add: dht_inv_def requests_ok_def)
  moreover have "request_sent N d NET_PACKET_GET_NODES pid x2" if "m2 = 128"
    using array_check(3) [OF arr(2,3) c2] that inv by (simp add: dht_inv_def requests_ok_def)
  ultimately show ?thesis using res i1 i2 found by (auto split: if_splits)
qed

lemma handle_sendnodes_core_result:
  assumes inv: "dht_inv N d" and E: "env_ok N E" and src: "ip_ok (ipp_ip source)"
    and h: "handle_sendnodes_core E d source packet sz = Some (d', r)" and sz: "sz \<le> MAX_SENT_NODES"
  shows "dht_inv N d' \<and> later d d' \<and> (r = None \<longrightarrow> client_lists d' = client_lists d) \<and>
    (\<forall>ns num. r = Some (ns, num) \<longrightarrow> num \<le> sz \<and> (\<forall>n\<in>set ns. node_ok n) \<and> length (read_at packet 1 32) = 32 \<and>
      (\<exists>n pid pre. nf_public_key n = read_at packet 1 32 \<and> ipport_equal (nf_ip_port n) source \<and>
         asked N d NET_PACKET_GET_NODES n (pre @ bytes_le 8 (unat (pid :: u64)))))"
proof (cases "82 < length packet \<and> length packet \<le> 338")
  case False
  then have "r = None \<and> d' = d" using h by (auto simp: handle_sendnodes_core_def Let_def split: if_splits)
  then show ?thesis using inv by simp
next
  case True
  let ?pk = "read_at packet 1 32" and ?key = "encrypt_precompute N (read_at packet 1 32) (self_secret_key (dn_dht d))"
  let ?ds = "length packet - 82"
  have pk: "length ?pk = 32" and nd: "node_ok \<lparr>nf_public_key = ?pk, nf_ip_port = source\<rparr>" using True src by (simp_all add: node_ok_def)
  have ds: "\<not> length packet < 82" "?ds \<noteq> 0" "\<not> 256 < ?ds" using True by auto
  obtain keys where k: "key_sent E d ?pk = (d\<lparr>dn_dht := (dn_dht d)\<lparr>shared_keys_sent := keys\<rparr>\<rparr>, ?key)"
      "shared_keys_ok N (self_secret_key (dn_dht d)) keys"
    using key_sent_value [OF _ E pk] inv unfolding dht_inv_def by blast
  define d1 where "d1 = d\<lparr>dn_dht := (dn_dht d)\<lparr>shared_keys_sent := keys\<rparr>\<rparr>"
  have d1: "dht_inv N d1" "client_lists d1 = client_lists d" "later d d1" "dn_log d1 = dn_log d"
    using caches_inv(1) [OF inv k(2)] by (simp_all add: d1_def client_lists_def later_def)
  show ?thesis
  proof (cases "\<exists>plain. open_packet E ?key packet (1 + ?ds + 8) = Some plain \<and> unat (plain ! 0) \<le> sz")
    case False
    then have "r = None \<and> d' = d1" using h True k(1)
      by (auto simp: handle_sendnodes_core_def Let_def d1_def not_le split: option.splits if_splits)
    then show ?thesis using d1 by simp
  next
    case op: True
    then obtain plain where plain: "open_packet E ?key packet (1 + ?ds + 8) = Some plain" "unat (plain ! 0) \<le> sz" by blast
    define pid where "pid = (word_of_nat (le_val (read_at plain (1 + ?ds) 8)) :: u64)"
    obtain sb d2 where sb: "sent_getnode_to_node E d1 ?pk source pid = (sb, d2)" by fastforce
    note d2 = sent_getnode_to_node_result [OF d1(1) E pk sb]
    have asked1: "asked N d1 i n p = asked N d i n p" for i n p by (simp add: asked_def d1_def)
    obtain out u where u: "unpack_nodes (de_stack E) (unat (plain ! 0)) (read_at plain 1 ?ds) False = (out, u)" by fastforce
    have res: "handle_sendnodes_core E d source packet sz = (case sb of None \<Rightarrow> Some (d2, None) | Some sbn \<Rightarrow>
        (case u of None \<Rightarrow> Some (d2, None) | Some (num, l) \<Rightarrow>
           if l \<noteq> ?ds \<or> num \<noteq> unat (plain ! 0) then Some (d2, None)
           else Option.bind (addto_lists_net E d2 source ?pk) (\<lambda>d3. Some (snd (send_hardening_getnode_res E d3 sbn ?pk (read_at plain 1 ?ds)),
                  Some (out, num)))))"
      using ds k(1) plain sb u
      by (simp add: handle_sendnodes_core_def Let_def d1_def [symmetric] pid_def not_le split: option.split)
    consider (fail) "d' = d2" "r = None" | (ok) sbn num d3 where "sb = Some sbn" "num = unat (plain ! 0)" "u = Some (num, ?ds)"
        "addto_lists_net E d2 source ?pk = Some d3" "d' = snd (send_hardening_getnode_res E d3 sbn ?pk (read_at plain 1 ?ds))" "r = Some (out, num)"
      using h unfolding res by (auto simp: bind_eq_Some_conv split: option.splits if_splits prod.splits)
    then show ?thesis
    proof cases
      case fail
      have "later d d2" using later_trans [OF d1(3)] d2 by blast
      then show ?thesis using d2 d1(2) fail lists_client_lists [of d2 d1] by simp
    next
      case ok
      have d3: "dht_inv N d3 \<and> later d2 d3" using addto_lists_net_keeps [OF _ E nd ok(4)] d2 by blast
      have "dht_inv N d' \<and> later d3 d'"
        using send_hardening_getnode_res_keeps [OF _ prod.collapse [symmetric], of N d3 E sbn ?pk "read_at plain 1 ?ds"] d3 ok(5) by simp
      then have "dht_inv N d' \<and> later d d'" using d3 d2 d1(3) later_trans by blast
      moreover have "\<forall>n\<in>set out. node_ok n"
        using unpack_loop_frame [of "de_stack E" "unat (plain ! 0)" out "read_at plain 1 ?ds" False 0 0] u E plain(2) sz
        by (simp add: unpack_nodes_def env_ok_def)
      moreover obtain n pre where "nf_public_key n = ?pk" "ipport_equal (nf_ip_port n) source"
          "asked N d NET_PACKET_GET_NODES n (pre @ bytes_le 8 (unat pid))"
        using d2 ok(1) unfolding asked1 by blast
      ultimately show ?thesis using ok plain(2) pk by blast
    qed
  qed
qed

lemma sendnodes_loop_keeps:
  assumes "dht_inv N d" and "\<forall>n\<in>set ns. node_ok n" and "sendnodes_loop E sender ns d = Some d'"
  shows "dht_inv N d' \<and> later d d'"
  using assms
proof (induction ns arbitrary: d)
  case (Cons n ns)
  show ?case
  proof (cases "ipport_isset (nf_ip_port n)")
    case True
    then obtain dht r where p: "ping_node_from_getnodes_ok (de_now E) (dn_dht d) (nf_public_key n) (nf_ip_port n) = Some (dht, r)"
      and l: "sendnodes_loop E sender ns (d\<lparr>dn_dht := returnedip_ports (de_now E) dht (nf_ip_port n) (nf_public_key n) sender\<rparr>) = Some d'"
      using Cons.prems(3) by (auto simp: bind_eq_Some_conv)
    let ?d = "d\<lparr>dn_dht := returnedip_ports (de_now E) dht (nf_ip_port n) (nf_public_key n) sender\<rparr>"
    have "node_ok n" using Cons.prems(2) by simp
    then have "dht_ok dht"
      using ping_node_from_getnodes_keeps [of "dn_dht d" "nf_public_key n" "nf_ip_port n" "de_now E"] p Cons.prems(1)
      by (auto simp: node_ok_def dht_inv_def net_ok_def)
    then have "dht_inv N ?d \<and> later d ?d"
      using core_inv [OF Cons.prems(1), of ?d] returnedip_ports_keeps [of dht "nf_ip_port n"] returnedip_ports_core ping_node_core [OF p]
      \<open>node_ok n\<close> by (simp add: node_ok_def)
    then show ?thesis using Cons.IH [OF _ _ l] Cons.prems(2) later_trans by auto
  next
    case False
    then show ?thesis using Cons by simp
  qed
qed simp

lemma handle_sendnodes_ipv6_result:
  assumes inv: "dht_inv N d" and E: "env_ok N E" and src: "ip_ok (ipp_ip source)"
    and h: "handle_sendnodes_ipv6 E d source packet = Some (r, d')"
  shows "dht_inv N d' \<and> later d d' \<and> (r \<noteq> 0 \<longrightarrow> client_lists d' = client_lists d) \<and>
    (r = 0 \<longrightarrow> (\<exists>n pid pre. nf_public_key n = read_at packet 1 32 \<and> ipport_equal (nf_ip_port n) source \<and>
       asked N d NET_PACKET_GET_NODES n (pre @ bytes_le 8 (unat (pid :: u64)))))"
proof -
  obtain d1 c where c: "handle_sendnodes_core E d source packet MAX_SENT_NODES = Some (d1, c)"
    and r: "(case c of None \<Rightarrow> Some (1, d1) | Some (ns, num) \<Rightarrow> if num = 0 then Some (0, d1)
        else map_option (\<lambda>d2. (0, d2)) (sendnodes_loop E (read_at packet 1 32) (take num ns) d1)) = Some (r, d')"
    using h by (auto simp: handle_sendnodes_ipv6_def bind_eq_Some_conv)
  note core = handle_sendnodes_core_result [OF inv E src c order_refl]
  show ?thesis
  proof (cases c)
    case None
    then show ?thesis using r core by simp
  next
    case (Some x)
    then obtain ns num where x: "c = Some (ns, num)" by (cases x) auto
    then have ok: "\<forall>n\<in>set (take num ns). node_ok n" using core by (auto dest: in_set_takeD)
    have "dht_inv N d' \<and> later d1 d' \<and> r = 0"
      using r x core sendnodes_loop_keeps [OF _ ok, of N d1 E "read_at packet 1 32" d'] by (auto split: if_splits)
    moreover have "later d d1" using core by blast
    ultimately have "dht_inv N d' \<and> later d d' \<and> r = 0" using later_trans by blast
    then show ?thesis using core x by blast
  qed
qed

lemma do_to_ping_loop_keeps:
  assumes "dht_inv N d" and E: "env_ok N E" and "do_to_ping_loop E left i d = Some (j, d')" and "i + left \<le> MAX_TO_PING"
  shows "dht_inv N d' \<and> client_lists d' = client_lists d \<and> later d d'"
  using assms(1,3,4)
proof (induction left arbitrary: i d)
  case (Suc left)
  let ?n = "to_ping (dn_dht d) ! i"
  have tp: "length (to_ping (dn_dht d)) = MAX_TO_PING" "\<forall>n\<in>set (to_ping (dn_dht d)). node_ok n"
    using Suc.prems(1) by (simp_all add: dht_inv_def net_ok_def dht_ok_def)
  then have n: "node_ok ?n" using Suc.prems(3) by simp
  show ?case
  proof (cases "ip_isset (ipp_ip (nf_ip_port ?n))")
    case False
    then show ?thesis using Suc.prems by (auto simp: Let_def)
  next
    case set: True
    then obtain ad where ad: "node_addable_to_close_list (de_now E) (dn_dht d) (nf_public_key ?n) (nf_ip_port ?n) = Some ad"
      using Suc.prems(2) by (auto simp: Let_def bind_eq_Some_conv)
    show ?thesis
    proof (cases ad)
      case False
      then show ?thesis using Suc.IH [OF Suc.prems(1), of "Suc i"] Suc.prems ad set by (simp add: Let_def)
    next
      case True
      define d1 where "d1 = snd (send_ping_request E d (nf_ip_port ?n) (nf_public_key ?n))"
      define m where "m = ?n\<lparr>nf_ip_port := (nf_ip_port ?n)\<lparr>ipp_ip := ip_reset (ipp_ip (nf_ip_port ?n))\<rparr>\<rparr>"
      define d2 where "d2 = d1\<lparr>dn_dht := (dn_dht d1)\<lparr>to_ping := (to_ping (dn_dht d1))[i := m]\<rparr>\<rparr>"
      have n': "node_ok \<lparr>nf_public_key = nf_public_key ?n, nf_ip_port = nf_ip_port ?n\<rparr>" using n by (simp add: node_ok_def)
      have d1: "dht_inv N d1" "dht_lists d1 = dht_lists d" "later d d1"
        using send_ping_request_keeps [OF Suc.prems(1) E n' prod.collapse [symmetric]] by (simp_all add: d1_def)
      have "node_ok m" using n by (simp add: m_def node_ok_def ip_reset_def ip_zero_def ip_ok_def)
      then have "\<forall>n\<in>set ((to_ping (dn_dht d1))[i := m]). node_ok n"
        using tp(2) d1(2) by (intro update_all) (simp_all add: dht_lists_def)
      then have d2: "dht_inv N d2" "later d d2" "client_lists d2 = client_lists d"
        using to_ping_inv [OF d1(1), of "(to_ping (dn_dht d1))[i := m]"] tp(1) d1(2,3) later_trans
        by (auto simp: d2_def client_lists_def dht_lists_def)
      have "do_to_ping_loop E left (Suc i) d2 = Some (j, d')"
        using Suc.prems(2) ad set True by (simp add: Let_def d1_def d2_def m_def)
      then show ?thesis using Suc.IH [OF d2(1), of "Suc i"] Suc.prems(3) d2(2,3) later_trans by auto
    qed
  qed
qed simp

lemma do_to_ping_keeps:
  assumes "dht_inv N d" and "env_ok N E" and "do_to_ping E d = Some d'"
  shows "dht_inv N d' \<and> client_lists d' = client_lists d \<and> later d d'"
proof (cases "d' = d")
  case False
  obtain i d1 where l: "do_to_ping_loop E MAX_TO_PING 0 d = Some (i, d1)"
    and d': "d' = (if i \<noteq> 0 then d1\<lparr>dn_dht := (dn_dht d1)\<lparr>last_to_ping := de_now E\<rparr>\<rparr> else d1)"
  proof (cases "do_to_ping_loop E MAX_TO_PING 0 d")
    case None
    then show ?thesis using assms(3) False by (simp add: do_to_ping_def del: do_to_ping_loop.simps split: if_splits)
  next
    case (Some p)
    then show ?thesis
      using assms(3) False that [of "fst p" "snd p"]
      by (simp add: do_to_ping_def split_beta del: do_to_ping_loop.simps split: if_splits)
  qed
  note k = do_to_ping_loop_keeps [OF assms(1,2) l]
  have "dht_inv N d' \<and> later d1 d'"
    using k core_inv [of N d1 d'] by (auto simp: d' dht_core_def dht_inv_def net_ok_def dht_ok_def)
  then show ?thesis using k later_trans by (auto simp: d' client_lists_def)
qed (use assms in simp)

section \<open>All steps\<close>

text \<open>What a DHT node does with pings and node requests, in any order and each time in its own environment.\<close>

inductive dht_step :: "nacl \<Rightarrow> DHT_Net \<Rightarrow> DHT_Net \<Rightarrow> bool" for N where
  ping_request: "env_ok N E \<Longrightarrow> ip_ok (ipp_ip source) \<Longrightarrow> handle_ping_request E d source packet = Some (r, d') \<Longrightarrow> dht_step N d d'"
| ping_response: "env_ok N E \<Longrightarrow> ip_ok (ipp_ip source) \<Longrightarrow> handle_ping_response E d source packet = Some (r, d') \<Longrightarrow> dht_step N d d'"
| nodes_request: "env_ok N E \<Longrightarrow> ip_ok (ipp_ip source) \<Longrightarrow> handle_getnodes E d source packet = Some (r, d') \<Longrightarrow> dht_step N d d'"
| nodes_response: "env_ok N E \<Longrightarrow> ip_ok (ipp_ip source) \<Longrightarrow> handle_sendnodes_ipv6 E d source packet = Some (r, d') \<Longrightarrow> dht_step N d d'"
| ask_ping: "env_ok N E \<Longrightarrow> node_ok \<lparr>nf_public_key = pk, nf_ip_port = ipp\<rparr> \<Longrightarrow> send_ping_request E d ipp pk = (r, d') \<Longrightarrow> dht_step N d d'"
| ask_nodes: "env_ok N E \<Longrightarrow> node_ok \<lparr>nf_public_key = pk, nf_ip_port = ipp\<rparr> \<Longrightarrow> getnodes E d ipp pk cid sb = (r, d') \<Longrightarrow> dht_step N d d'"
| ping_list: "env_ok N E \<Longrightarrow> do_to_ping E d = Some d' \<Longrightarrow> dht_step N d d'"

lemma dht_step_inv:
  assumes "dht_step N d d'" and "dht_inv N d"
  shows "dht_inv N d' \<and> later d d'"
  using assms
proof cases
  case (ping_response E source packet r)
  then show ?thesis using handle_ping_response_result assms(2) by blast
next
  case (nodes_response E source packet r)
  then show ?thesis using handle_sendnodes_ipv6_result assms(2) by blast
qed (use assms(2) in \<open>blast dest: handle_ping_request_keeps handle_getnodes_keeps send_ping_request_keeps getnodes_keeps do_to_ping_keeps\<close>)+

lemma dht_steps_inv: "(dht_step N)\<^sup>*\<^sup>* d d' \<Longrightarrow> dht_inv N d \<Longrightarrow> dht_inv N d' \<and> later d d'"
proof (induction rule: rtranclp_induct)
  case (step d1 d2)
  then show ?case using dht_step_inv later_trans by blast
qed simp

text \<open>Only an accepted answer changes the client lists.\<close>

lemma lists_change_by_answer:
  assumes "dht_step N d d'" and "dht_inv N d" and "client_lists d' \<noteq> client_lists d"
  shows "\<exists>E source packet. env_ok N E \<and> ip_ok (ipp_ip source) \<and>
    (handle_ping_response E d source packet = Some (0, d') \<or> handle_sendnodes_ipv6 E d source packet = Some (0, d'))"
  using assms(1)
proof cases
  case (ping_response E source packet r)
  moreover have "r = 0" using handle_ping_response_result [OF assms(2) ping_response] assms(3) by blast
  ultimately show ?thesis by blast
next
  case (nodes_response E source packet r)
  moreover have "r = 0" using handle_sendnodes_ipv6_result [OF assms(2) nodes_response] assms(3) by blast
  ultimately show ?thesis by blast
qed (use assms(2,3) in \<open>blast dest: handle_ping_request_keeps handle_getnodes_keeps send_ping_request_keeps getnodes_keeps
      do_to_ping_keeps lists_client_lists\<close>)+

end
