(* ===== verification/DHT_Exchange.thy ===== *)
theory DHT_Exchange
  imports DHT_Requests
begin

text \<open>
  Two DHT nodes that talk to each other: a ping and a request for nodes, from the sender's call to
  the receiver's handler and back. Together with the invariant of \<open>DHT_Requests\<close> this gives both
  directions: an honest exchange leads to the client lists, and nothing else does.
\<close>

section \<open>Packets between two nodes\<close>

lemma word_le_val_bytes: "word_of_nat (le_val (bytes_le 8 (unat (w :: u64)))) = w"
proof -
  have "unat w < 256 ^ 8" using unsigned_less [of w] by simp
  then show ?thesis by simp
qed

lemma keys_agree_precompute:
  "keys_agree N pkA skA pkB skB \<Longrightarrow> encrypt_precompute N pkB skA = encrypt_precompute N pkA skB"
  by (simp add: keys_agree_def encrypt_precompute_def)

lemma node_addable_defined:
  assumes "dht_inv N d" and "bit_by_bit_cmp pk (self_public_key (dn_dht d)) \<noteq> 128"
  shows "\<exists>b. node_addable_to_close_list now (dn_dht d) pk ipp = Some b"
proof -
  have "length (close_clientlist (dn_dht d)) = LCLIENT_LIST" using assms(1) by (simp add: dht_inv_def net_ok_def dht_ok_def)
  then show ?thesis using assms(2)
    by (cases rule: add_to_close_cases [where now = now and ipp = ipp and sim = True]) (auto simp: node_addable_to_close_list_def)
qed

lemma add_to_ping_defined:
  assumes "dht_inv N d" and "bit_by_bit_cmp pk (self_public_key (dn_dht d)) \<noteq> 128"
  shows "\<exists>r d'. add_to_ping E d pk ipp = Some (r, d')"
proof -
  obtain b where "node_addable_to_close_list (de_now E) (dn_dht d) pk ipp = Some b" using node_addable_defined [OF assms] by blast
  then show ?thesis by (auto simp: add_to_ping_def Let_def split: prod.splits sum.splits)
qed

lemma addto_lists_net_defined:
  assumes inv: "dht_inv N d" and E: "env_ok N E" and "node_ok \<lparr>nf_public_key = pk, nf_ip_port = ipp\<rparr>"
    and "bit_by_bit_cmp pk (self_public_key (dn_dht d)) \<noteq> 128"
  shows "\<exists>d'. addto_lists_net E d ipp pk = Some d'"
  using addto_lists_keeps [of "de_qsort E" "dn_dht d" pk ipp "de_now E"] assms
  by (auto simp: addto_lists_net_def dht_inv_def net_ok_def env_ok_def node_ok_def)

text \<open>A node opens a packet sealed for it by another one, with the key from its cache.\<close>

lemma handle_ping_request_answers:
  assumes inv: "dht_inv N d" and E: "env_ok N E" and pk: "length pk = 32" and other: "pk \<noteq> self_public_key (dn_dht d)"
    and p: "sealed N (encrypt_precompute N pk (self_secret_key (dn_dht d))) pk NET_PACKET_PING_REQUEST
        ([NET_PACKET_PING_REQUEST] @ bytes_le 8 (unat (pid :: u64))) p"
    and idx: "bit_by_bit_cmp pk (self_public_key (dn_dht d)) \<noteq> 128" and src: "ip_ok (ipp_ip source)"
  shows "\<exists>d' q. handle_ping_request E d source p = Some (0, d') \<and> SendPacket source q \<in> set (dn_log d') \<and>
    sealed N (encrypt_precompute N pk (self_secret_key (dn_dht d))) (self_public_key (dn_dht d)) NET_PACKET_PING_RESPONSE
        ([NET_PACKET_PING_RESPONSE] @ bytes_le 8 (unat pid)) q"
proof -
  have EN: "de_nacl E = N" using E by (simp add: env_ok_def)
  have self: "length (self_public_key (dn_dht d)) = 32" using inv by (simp add: dht_inv_def net_ok_def dht_ok_def)
  let ?key = "encrypt_precompute N pk (self_secret_key (dn_dht d))"
  note op = sealed_opens [OF p pk EN]
  obtain keys where k: "key_recv E d pk = (d\<lparr>dn_dht := (dn_dht d)\<lparr>shared_keys_recv := keys\<rparr>\<rparr>, ?key)"
    "shared_keys_ok N (self_secret_key (dn_dht d)) keys"
    using key_recv_value [OF _ E pk] inv unfolding dht_inv_def by blast
  define d1 where "d1 = d\<lparr>dn_dht := (dn_dht d)\<lparr>shared_keys_recv := keys\<rparr>\<rparr>"
  have d1: "dht_inv N d1" "self_public_key (dn_dht d1) = self_public_key (dn_dht d)"
    using caches_inv(2) [OF inv k(2)] by (simp_all add: d1_def)
  define d2 where "d2 = snd (send_ping_response E d1 source pk pid ?key)"
  obtain q where q: "sealed N ?key (self_public_key (dn_dht d1)) NET_PACKET_PING_RESPONSE ([NET_PACKET_PING_RESPONSE] @ bytes_le 8 (unat pid)) q"
      "send_encrypted E 1 d1 source NET_PACKET_PING_RESPONSE ?key ([NET_PACKET_PING_RESPONSE] @ bytes_le 8 (unat pid)) =
        (de_send E source q, d1\<lparr>dn_draws := dn_draws d1 + 1, dn_log := dn_log d1 @ [SendPacket source q]\<rparr>)"
    by (rule send_encrypted_value [OF E, of "[NET_PACKET_PING_RESPONSE] @ bytes_le 8 (unat pid)"]) simp
  have d2: "d2 = d1\<lparr>dn_draws := dn_draws d1 + 1, dn_log := dn_log d1 @ [SendPacket source q]\<rparr>"
    using q(2) other pk self d1(2) by (simp add: d2_def send_ping_response_def id_equal_iff)
  have inv2: "dht_inv N d2" unfolding d2_def using send_ping_response_keeps [OF d1(1) prod.collapse [symmetric]] by blast
  obtain r d3 where a: "add_to_ping E d2 pk source = Some (r, d3)"
    using add_to_ping_defined [OF inv2, of pk E source] idx d1(2) by (auto simp: d2)
  have "handle_ping_request E d source p = Some (0, d3)"
    using op k(1) other pk self a
    by (simp add: handle_ping_request_def Let_def id_equal_iff d1_def [symmetric] word_le_val_bytes d2_def read_at_def del: le_val_bytes_le)
  moreover have "node_ok \<lparr>nf_public_key = pk, nf_ip_port = source\<rparr>" using pk src by (simp add: node_ok_def)
  then have "later d2 d3" using add_to_ping_keeps [OF inv2 E _ a] by blast
  then have "SendPacket source q \<in> set (dn_log d3)" by (auto simp: later_def d2)
  ultimately show ?thesis using q(1) d1(2) by auto
qed

lemma handle_ping_response_accepts:
  assumes inv: "dht_inv N d" and E: "env_ok N E" and n: "node_ok \<lparr>nf_public_key = pk, nf_ip_port = ipp\<rparr>"
    and other: "pk \<noteq> self_public_key (dn_dht d)"
    and q: "sealed N (encrypt_precompute N pk (self_secret_key (dn_dht d))) pk NET_PACKET_PING_RESPONSE
        ([NET_PACKET_PING_RESPONSE] @ bytes_le 8 (unat (pid :: u64))) q"
    and pend: "pa_pending (ping_ping_array (dn_dht d)) pid = Some (node_image \<lparr>nf_public_key = pk, nf_ip_port = ipp\<rparr>, t)"
    and fresh: "\<not> is_timeout (de_now E) t 5" and addr: "ipport_equal ipp source" and src: "ip_ok (ipp_ip source)"
    and idx: "bit_by_bit_cmp pk (self_public_key (dn_dht d)) \<noteq> 128"
  shows "\<exists>d2 d'. handle_ping_response E d source q = Some (0, d') \<and> client_lists d2 = client_lists d \<and>
    self_public_key (dn_dht d2) = self_public_key (dn_dht d) \<and> addto_lists_net E d2 source pk = Some d'"
proof -
  have EN: "de_nacl E = N" using E by (simp add: env_ok_def)
  have pk: "length pk = 32" "ip_ok (ipp_ip ipp)" using n by (simp_all add: node_ok_def)
  have self: "length (self_public_key (dn_dht d)) = 32" and arr: "array_ok (ping_ping_array (dn_dht d))"
    using inv by (simp_all add: dht_inv_def net_ok_def dht_ok_def)
  let ?key = "encrypt_precompute N pk (self_secret_key (dn_dht d))" and ?x = "node_image \<lparr>nf_public_key = pk, nf_ip_port = ipp\<rparr>"
  note op = sealed_opens [OF q pk(1) EN]
  obtain keys where k: "key_sent E d pk = (d\<lparr>dn_dht := (dn_dht d)\<lparr>shared_keys_sent := keys\<rparr>\<rparr>, ?key)"
    "shared_keys_ok N (self_secret_key (dn_dht d)) keys"
    using key_sent_value [OF _ E pk(1)] inv unfolding dht_inv_def by blast
  define d1 where "d1 = d\<lparr>dn_dht := (dn_dht d)\<lparr>shared_keys_sent := keys\<rparr>\<rparr>"
  have d1: "dht_inv N d1" using caches_inv(1) [OF inv k(2)] by (simp add: d1_def)
  have "length ?x = 64" using n by simp
  then obtain a where c: "ping_array_check (de_now E) 64 (ping_ping_array (dn_dht d)) pid = (64, ?x, a)"
    using ping_array_check_result [of "ping_ping_array (dn_dht d)" "de_now E" 64 pid] arr pend fresh by (simp add: array_ok_def)
  define d2 where "d2 = d1\<lparr>dn_dht := (dn_dht d1)\<lparr>ping_ping_array := a\<rparr>\<rparr>"
  have c1: "ping_array_check (de_now E) 64 (ping_ping_array (dn_dht d1)) pid = (64, ?x, a)" using c by (simp add: d1_def)
  have d2: "dht_inv N d2" "self_public_key (dn_dht d2) = self_public_key (dn_dht d)" "client_lists d2 = client_lists d"
    using check_inv(1) [OF d1 E c1] by (simp_all add: d2_def d1_def client_lists_def)
  have nd: "node_ok \<lparr>nf_public_key = pk, nf_ip_port = source\<rparr>" using pk(1) src by (simp add: node_ok_def)
  obtain d' where l: "addto_lists_net E d2 source pk = Some d'" using addto_lists_net_defined [OF d2(1) E nd] idx d2(2) by auto
  have img: "read_at ?x 0 32 = pk" "ip_port_of_image (read_at ?x 32 32) = ipp"
    using pk by (simp_all add: node_image_def)
  have "handle_ping_response E d source q = Some (0, d')"
    using op k(1) other pk(1) self c1 img addr l
    by (simp add: handle_ping_response_def Let_def id_equal_iff d1_def [symmetric] d2_def word_le_val_bytes read_at_def del: le_val_bytes_le)
  then show ?thesis using l d2(2,3) by blast
qed

lemma ipport_equal_refl:
  "ip_ok (ipp_ip p) \<Longrightarrow> ipp_port p \<noteq> 0 \<Longrightarrow> ip_family (ipp_ip p) = AF_INET \<or> ip_family (ipp_ip p) = AF_INET6 \<Longrightarrow> ipport_equal p p"
  by (auto simp: ipport_equal_def ip_equal_def)

text \<open>The whole exchange.\<close>

lemma ping_completes:
  assumes "dht_inv N A" and "dht_inv N B" and "env_ok N EA" and "env_ok N EB" and "env_ok N EA'"
    and "pkA = self_public_key (dn_dht A)" and "pkB = self_public_key (dn_dht B)" and "pkA \<noteq> pkB"
    and "keys_agree N pkA (self_secret_key (dn_dht A)) pkB (self_secret_key (dn_dht B))"
    and "bit_by_bit_cmp pkA pkB \<noteq> 128" and "bit_by_bit_cmp pkB pkA \<noteq> 128"
    and "ip_ok (ipp_ip addrA)" and "ip_ok (ipp_ip addrB)" and "ipport_equal addrB addrB"
    and "de_alloc EA (dn_draws A)" and "\<not> is_timeout (de_now EA') (de_now EA) 5"
    and "send_ping_request EA A addrB pkB = (r, A1)"
  shows "\<exists>p q B' A2 A'. dn_log A1 = dn_log A @ [SendPacket addrB p] \<and>
    handle_ping_request EB B addrA p = Some (0, B') \<and> SendPacket addrA q \<in> set (dn_log B') \<and>
    handle_ping_response EA' A1 addrB q = Some (0, A') \<and>
    client_lists A2 = client_lists A \<and> self_public_key (dn_dht A2) = pkA \<and> addto_lists_net EA' A2 addrB pkB = Some A'"
proof -
  let ?n = "\<lparr>nf_public_key = pkB, nf_ip_port = addrB\<rparr>"
  let ?key = "encrypt_precompute N pkB (self_secret_key (dn_dht A))"
  have len: "length pkA = 32" "length pkB = 32" using assms(1,2,6,7) by (simp_all add: dht_inv_def net_ok_def dht_ok_def)
  have n: "node_ok ?n" using len assms(13) by (simp add: node_ok_def)
  have ne: "pkB \<noteq> self_public_key (dn_dht A)" "pkA \<noteq> self_public_key (dn_dht B)" using assms(6-8) by auto
  obtain pid a keys where add: "ping_array_add (de_now EA) (de_random64 EA (dn_draws A)) (de_alloc EA (dn_draws A))
      (ping_ping_array (dn_dht A)) (node_image ?n) = (pid, a)"
    and A1: "dn_dht A1 = (dn_dht A)\<lparr>shared_keys_sent := keys, ping_ping_array := a\<rparr>"
    and sent: "pid = 0 \<and> r = 1 \<and> dn_log A1 = dn_log A \<or> pid \<noteq> 0 \<and> (\<exists>p. dn_log A1 = dn_log A @ [SendPacket addrB p] \<and>
       sealed N ?key (self_public_key (dn_dht A)) NET_PACKET_PING_REQUEST ([NET_PACKET_PING_REQUEST] @ bytes_le 8 (unat pid)) p)"
    by (rule send_ping_request_sends [OF assms(1,3) n ne(1) assms(17)])
  have wf: "pa_wf (ping_ping_array (dn_dht A))" using assms(1) by (simp add: dht_inv_def net_ok_def array_ok_def)
  have new: "pid \<noteq> 0" "pa_pending a pid = Some (node_image ?n, de_now EA)"
    using ping_array_add_new [OF wf, of "de_now EA" "de_random64 EA (dn_draws A)" "node_image ?n" pid a] add assms(15) by simp_all
  then obtain p where p: "dn_log A1 = dn_log A @ [SendPacket addrB p]"
      "sealed N ?key pkA NET_PACKET_PING_REQUEST ([NET_PACKET_PING_REQUEST] @ bytes_le 8 (unat pid)) p"
    using sent assms(6) by auto
  have key: "?key = encrypt_precompute N pkA (self_secret_key (dn_dht B))" using keys_agree_precompute [OF assms(9)] .
  obtain B' q where B: "handle_ping_request EB B addrA p = Some (0, B')" "SendPacket addrA q \<in> set (dn_log B')"
      "sealed N ?key pkB NET_PACKET_PING_RESPONSE ([NET_PACKET_PING_RESPONSE] @ bytes_le 8 (unat pid)) q"
    using handle_ping_request_answers [OF assms(2,4) len(1) ne(2) p(2) [unfolded key] assms(10) [unfolded assms(7)] assms(12)]
    unfolding key [symmetric] assms(7) [symmetric] by blast
  have inv1: "dht_inv N A1" using send_ping_request_keeps [OF assms(1,3) n assms(17)] by blast
  have "\<exists>A2 A'. handle_ping_response EA' A1 addrB q = Some (0, A') \<and> client_lists A2 = client_lists A1 \<and>
      self_public_key (dn_dht A2) = self_public_key (dn_dht A1) \<and> addto_lists_net EA' A2 addrB pkB = Some A'"
    using B(3) new(2) assms(11,14,16) ne(1) assms(6) A1 assms(13)
    by (intro handle_ping_response_accepts [OF inv1 assms(5) n]) auto
  moreover have "client_lists A1 = client_lists A" "self_public_key (dn_dht A1) = pkA" using A1 assms(6) by (simp_all add: client_lists_def)
  ultimately show ?thesis using p(1) B(1,2) by metis
qed

text \<open>The nodes of an answer, as the wire carries them.\<close>

definition ip_node :: "Node_format \<Rightarrow> bool" where
  "ip_node n \<longleftrightarrow> node_ok n \<and> (node_family n = AF_INET \<or> node_family n = AF_INET6)"

lemma ip_nodes_bytes:
  assumes "\<forall>n\<in>set ns. ip_node n"
  shows "length (nodes_bytes ns) \<le> 51 * length ns" and "\<forall>n\<in>set ns. node_ok n \<and> packable (node_family n)"
    and "ns \<noteq> [] \<Longrightarrow> 0 < length (nodes_bytes ns)"
proof -
  show ok: "\<forall>n\<in>set ns. node_ok n \<and> packable (node_family n)" using assms by (auto simp: ip_node_def packable_def)
  have one: "length (node_bytes n) \<le> 51 \<and> 0 < length (node_bytes n)" if "node_ok n" for n
    using node_bytes_length [OF that] addr_len_cases [of "node_family n"] by auto
  show "length (nodes_bytes ns) \<le> 51 * length ns" using ok
  proof (induction ns)
    case (Cons n ns)
    then show ?case using one [of n] by simp
  qed simp
  show "0 < length (nodes_bytes ns)" if "ns \<noteq> []" using that ok one by (cases ns) auto
qed

lemma handle_getnodes_answers:
  assumes inv: "dht_inv N d" and E: "env_ok N E" and pk: "length pk = 32" "length cid = 32" and other: "pk \<noteq> self_public_key (dn_dht d)"
    and p: "sealed N (encrypt_precompute N pk (self_secret_key (dn_dht d))) pk NET_PACKET_GET_NODES (cid @ bytes_le 8 (unat (pid :: u64))) p"
    and idx: "bit_by_bit_cmp pk (self_public_key (dn_dht d)) \<noteq> 128" and src: "ip_ok (ipp_ip source)"
    and close: "get_close_nodes (de_now E) (close_clientlist (dn_dht d)) (map client_list (friends_list (dn_dht d))) cid 0
        (LAN_ip (ipp_ip source)) = (nodes, num)"
    and ns: "ns = take num nodes" "ns \<noteq> []" "\<forall>n\<in>set ns. ip_node n"
  shows "\<exists>d' q. handle_getnodes E d source p = Some (0, d') \<and> SendPacket source q \<in> set (dn_log d') \<and> length ns \<le> 4 \<and>
    sealed N (encrypt_precompute N pk (self_secret_key (dn_dht d))) (self_public_key (dn_dht d)) NET_PACKET_SEND_NODES_IPV6
        ([word_of_nat (length ns)] @ nodes_bytes ns @ bytes_le 8 (unat pid)) q"
proof -
  have EN: "de_nacl E = N" using E by (simp add: env_ok_def)
  have ok: "dht_ok (dn_dht d)" "length (self_public_key (dn_dht d)) = 32" using inv by (simp_all add: dht_inv_def net_ok_def dht_ok_def)
  let ?key = "encrypt_precompute N pk (self_secret_key (dn_dht d))" and ?sb = "bytes_le 8 (unat pid)"
  have "\<forall>cs\<in>set (close_clientlist (dn_dht d) # map client_list (friends_list (dn_dht d))). \<forall>c\<in>set cs. client_ok c"
    using ok(1) by (auto simp: dht_ok_def friend_ok_def clients_ok_def)
  then have b: "length nodes = 4" "num \<le> 4" using get_close_nodes_bounds [OF pk(2) _ close] by simp_all
  then have num: "length ns = num" "num \<noteq> 0" using ns(1,2) by auto
  have nb: "length (nodes_bytes ns) \<le> 256" "0 < length (nodes_bytes ns)" using ip_nodes_bytes [OF ns(3)] ns(2) num b by auto
  have packed: "pack_nodes (replicate 256 0) 256 ns = (memcpy_at (replicate 256 0) 0 (nodes_bytes ns), Some (length (nodes_bytes ns)))"
    using pack_loop_ok [OF ip_nodes_bytes(2) [OF ns(3)], of 0 256 "replicate 256 0"] nb by (simp add: pack_nodes_def)
  have buf: "take (length (nodes_bytes ns)) (memcpy_at (replicate 256 0) 0 (nodes_bytes ns)) = nodes_bytes ns" by (simp add: memcpy_at_def)
  note op = sealed_opens [OF p pk(1) EN]
  obtain keys where k: "key_recv E d pk = (d\<lparr>dn_dht := (dn_dht d)\<lparr>shared_keys_recv := keys\<rparr>\<rparr>, ?key)"
    "shared_keys_ok N (self_secret_key (dn_dht d)) keys"
    using key_recv_value [OF _ E pk(1)] inv unfolding dht_inv_def by blast
  define d1 where "d1 = d\<lparr>dn_dht := (dn_dht d)\<lparr>shared_keys_recv := keys\<rparr>\<rparr>"
  have d1: "dht_inv N d1" "self_public_key (dn_dht d1) = self_public_key (dn_dht d)"
    "close_clientlist (dn_dht d1) = close_clientlist (dn_dht d)" "friends_list (dn_dht d1) = friends_list (dn_dht d)"
    using caches_inv(2) [OF inv k(2)] by (simp_all add: d1_def)
  let ?plain = "[word_of_nat num] @ nodes_bytes ns @ ?sb"
  obtain q where q: "sealed N ?key (self_public_key (dn_dht d1)) NET_PACKET_SEND_NODES_IPV6 ?plain q"
      "send_encrypted E (- 1) d1 source NET_PACKET_SEND_NODES_IPV6 ?key ?plain =
        (de_send E source q, d1\<lparr>dn_draws := dn_draws d1 + 1, dn_log := dn_log d1 @ [SendPacket source q]\<rparr>)"
    by (rule send_encrypted_value [OF E, of ?plain]) simp
  define d2 where "d2 = snd (sendnodes_ipv6 E d1 source pk cid ?sb ?key)"
  have d2: "d2 = d1\<lparr>dn_draws := dn_draws d1 + 1, dn_log := dn_log d1 @ [SendPacket source q]\<rparr>"
    using q(2) other pk ok(2) d1(2-4) close num(2) packed nb(2) buf
    by (auto simp: d2_def sendnodes_ipv6_def id_equal_iff ns(1) [symmetric])
  have inv2: "dht_inv N d2" unfolding d2_def using sendnodes_ipv6_keeps [OF d1(1) prod.collapse [symmetric]] by blast
  obtain r d3 where a: "add_to_ping E d2 pk source = Some (r, d3)"
    using add_to_ping_defined [OF inv2, of pk E source] idx d1(2) by (auto simp: d2)
  have "handle_getnodes E d source p = Some (0, d3)"
    using op k(1) other pk ok(2) a
    by (simp add: handle_getnodes_def Let_def id_equal_iff d1_def [symmetric] d2_def)
  moreover have "node_ok \<lparr>nf_public_key = pk, nf_ip_port = source\<rparr>" using pk src by (simp add: node_ok_def)
  then have "later d2 d3" using add_to_ping_keeps [OF inv2 E _ a] by blast
  then have "SendPacket source q \<in> set (dn_log d3)" by (auto simp: later_def d2)
  ultimately show ?thesis using q(1) d1(2) b(2) num(1) by auto
qed

lemma sendnodes_loop_defined:
  assumes "dht_inv N d" and "\<forall>n\<in>set ns. node_ok n \<and> bit_by_bit_cmp (nf_public_key n) (self_public_key (dn_dht d)) \<noteq> 128"
  shows "\<exists>d'. sendnodes_loop E sender ns d = Some d'"
  using assms
proof (induction ns arbitrary: d)
  case (Cons n ns)
  show ?case
  proof (cases "ipport_isset (nf_ip_port n)")
    case True
    have ok: "dht_ok (dn_dht d)" and n: "length (nf_public_key n) = 32" "ip_ok (ipp_ip (nf_ip_port n))"
      "bit_by_bit_cmp (nf_public_key n) (self_public_key (dn_dht d)) \<noteq> 128"
      using Cons.prems by (simp_all add: dht_inv_def net_ok_def node_ok_def)
    obtain dht r where p: "ping_node_from_getnodes_ok (de_now E) (dn_dht d) (nf_public_key n) (nf_ip_port n) = Some (dht, r)"
      "dht_ok dht" "self_public_key dht = self_public_key (dn_dht d)"
      using ping_node_from_getnodes_keeps [OF ok n(1,2), of "de_now E"] n(3) by blast
    let ?d = "d\<lparr>dn_dht := returnedip_ports (de_now E) dht (nf_ip_port n) (nf_public_key n) sender\<rparr>"
    have "dht_inv N ?d" "self_public_key (dn_dht ?d) = self_public_key (dn_dht d)"
      using core_inv [OF Cons.prems(1), of ?d] returnedip_ports_keeps [OF p(2) n(2)] returnedip_ports_core ping_node_core [OF p(1)] p(3) by simp_all
    then show ?thesis using Cons.IH [of ?d] Cons.prems(2) True p(1) by simp
  next
    case False
    then show ?thesis using Cons by simp
  qed
qed simp

text \<open>Our request is the one in the first array, so no hardening answer is sent.\<close>

lemma handle_sendnodes_accepts:
  assumes inv: "dht_inv N d" and E: "env_ok N E" and n: "node_ok \<lparr>nf_public_key = pk, nf_ip_port = ipp\<rparr>"
    and q: "sealed N (encrypt_precompute N pk (self_secret_key (dn_dht d))) pk NET_PACKET_SEND_NODES_IPV6
        ([word_of_nat (length ns)] @ nodes_bytes ns @ bytes_le 8 (unat (pid :: u64))) q"
    and pend: "pa_pending (dht_ping_array (dn_dht d)) pid = Some (node_image \<lparr>nf_public_key = pk, nf_ip_port = ipp\<rparr>, t)"
    and fresh: "\<not> is_timeout (de_now E) t 5" and addr: "ipport_equal ipp source" and src: "ip_ok (ipp_ip source)"
    and idx: "bit_by_bit_cmp pk (self_public_key (dn_dht d)) \<noteq> 128"
    and ns: "ns \<noteq> []" "length ns \<le> 4" "\<forall>n\<in>set ns. ip_node n \<and> bit_by_bit_cmp (nf_public_key n) (self_public_key (dn_dht d)) \<noteq> 128"
  shows "\<exists>d2 d3 d' ns'. handle_sendnodes_ipv6 E d source q = Some (0, d') \<and> client_lists d2 = client_lists d \<and>
    addto_lists_net E d2 source pk = Some d3 \<and> list_all2 same_node ns' ns \<and> sendnodes_loop E pk ns' d3 = Some d'"
proof -
  have EN: "de_nacl E = N" and stack: "\<forall>n\<in>set (de_stack E). node_ok n" "4 \<le> length (de_stack E)" using E by (simp_all add: env_ok_def)
  have pk: "length pk = 32" "ip_ok (ipp_ip ipp)" using n by (simp_all add: node_ok_def)
  have arr: "array_ok (dht_ping_array (dn_dht d))" using inv by (simp add: dht_inv_def net_ok_def)
  have ipn: "\<forall>n\<in>set ns. ip_node n" using ns(3) by blast
  let ?key = "encrypt_precompute N pk (self_secret_key (dn_dht d))" and ?x = "node_image \<lparr>nf_public_key = pk, nf_ip_port = ipp\<rparr>"
  let ?l = "length (nodes_bytes ns)" and ?plain = "[word_of_nat (length ns)] @ nodes_bytes ns @ bytes_le 8 (unat pid)"
  have l: "0 < ?l" "?l \<le> 256" using ip_nodes_bytes [OF ipn] ns(1,2) by auto
  have cnt: "unat (word_of_nat (length ns) :: u8) = length ns" using ns(2) by (intro unat_word_of_nat_id) simp
  note op = sealed_opens [OF q pk(1) EN]
  have size: "length q = 82 + ?l" using op(1) by simp
  have plain: "read_at ?plain (1 + ?l) 8 = bytes_le 8 (unat pid)" "read_at ?plain 1 ?l = nodes_bytes ns" by (simp_all add: read_at_def)
  obtain keys where k: "key_sent E d pk = (d\<lparr>dn_dht := (dn_dht d)\<lparr>shared_keys_sent := keys\<rparr>\<rparr>, ?key)"
    "shared_keys_ok N (self_secret_key (dn_dht d)) keys"
    using key_sent_value [OF _ E pk(1)] inv unfolding dht_inv_def by blast
  define d1 where "d1 = d\<lparr>dn_dht := (dn_dht d)\<lparr>shared_keys_sent := keys\<rparr>\<rparr>"
  have d1: "dht_inv N d1" using caches_inv(1) [OF inv k(2)] by (simp add: d1_def)
  have x: "length ?x = 64" using n by simp
  then obtain a where "ping_array_check (de_now E) 128 (dht_ping_array (dn_dht d)) pid = (64, ?x, a)"
    using ping_array_check_result [of "dht_ping_array (dn_dht d)" "de_now E" 128 pid] arr pend fresh by (simp add: array_ok_def)
  then have c: "ping_array_check (de_now E) 128 (dht_ping_array (dn_dht d1)) pid = (64, ?x, a)" by (simp add: d1_def)
  define d2 where "d2 = d1\<lparr>dn_dht := (dn_dht d1)\<lparr>dht_ping_array := a\<rparr>\<rparr>"
  have d2: "dht_inv N d2" "self_public_key (dn_dht d2) = self_public_key (dn_dht d)" "client_lists d2 = client_lists d"
    using check_inv(2) [OF d1 E c] by (simp_all add: d2_def d1_def client_lists_def)
  have sent: "sent_getnode_to_node E d1 pk source pid = (Some node_zero, d2)"
    using c n addr pk by (simp add: sent_getnode_to_node_def d2_def)
  have pre: "\<forall>n\<in>set ns. node_ok n \<and> packable (node_family n) \<and> (False \<or> node_family n = AF_INET \<or> node_family n = AF_INET6)"
    using ipn by (auto simp: ip_node_def packable_def)
  obtain out' where u: "unpack_nodes (de_stack E) (length ns) (nodes_bytes ns) False = (out', Some (length ns, ?l))"
      "list_all2 same_node (take (length ns) out') ns" "\<forall>n\<in>set out'. node_ok n"
    by (rule unpack_nodes_bytes [OF pre stack(1) order_refl]) (use ns(2) stack(2) in auto)
  have nd: "node_ok \<lparr>nf_public_key = pk, nf_ip_port = source\<rparr>" using pk(1) src by (simp add: node_ok_def)
  obtain d3 where a3: "addto_lists_net E d2 source pk = Some d3" using addto_lists_net_defined [OF d2(1) E nd] idx d2(2) by auto
  have d3: "dht_inv N d3" "self_public_key (dn_dht d3) = self_public_key (dn_dht d)"
    using addto_lists_net_keeps [OF d2(1) E nd a3] d2(2) by (simp_all add: dht_core_def)
  have hard: "send_hardening_getnode_res E d3 node_zero pk (nodes_bytes ns) = (- 1, d3)"
    by (simp add: send_hardening_getnode_res_def node_zero_def ipport_zero_def ip_zero_def ip_isset_def)
  have "handle_sendnodes_core E d source q 4 = Some (d3, Some (out', length ns))"
    using op(2,3) size l k(1) sent plain cnt ns(2) u(1) a3 hard
    by (simp add: handle_sendnodes_core_def Let_def d1_def [symmetric] word_le_val_bytes del: le_val_bytes_le)
  moreover have "\<forall>m\<in>set (take (length ns) out'). node_ok m \<and> bit_by_bit_cmp (nf_public_key m) (self_public_key (dn_dht d3)) \<noteq> 128"
  proof
    fix m
    assume m: "m \<in> set (take (length ns) out')"
    then obtain m' where "m' \<in> set ns" "same_node m m'" using u(2) by (metis list_all2_conv_all_nth in_set_conv_nth)
    then show "node_ok m \<and> bit_by_bit_cmp (nf_public_key m) (self_public_key (dn_dht d3)) \<noteq> 128"
      using u(3) m ns(3) d3(2) by (auto simp: same_node_def dest: in_set_takeD)
  qed
  then obtain d' where "sendnodes_loop E pk (take (length ns) out') d3 = Some d'" using sendnodes_loop_defined [OF d3(1)] by blast
  ultimately show ?thesis using u(2) a3 d2(3) ns(1) op(2) by (auto simp: handle_sendnodes_ipv6_def)
qed

lemma nodes_request_completes:
  assumes "dht_inv N A" and "dht_inv N B" and "env_ok N EA" and "env_ok N EB" and "env_ok N EA'"
    and "pkA = self_public_key (dn_dht A)" and "pkB = self_public_key (dn_dht B)" and "pkA \<noteq> pkB"
    and "keys_agree N pkA (self_secret_key (dn_dht A)) pkB (self_secret_key (dn_dht B))"
    and "bit_by_bit_cmp pkA pkB \<noteq> 128" and "bit_by_bit_cmp pkB pkA \<noteq> 128"
    and "ip_ok (ipp_ip addrA)" and "ip_ok (ipp_ip addrB)" and "ipport_equal addrB addrB" and "length cid = 32"
    and "de_alloc EA (dn_draws A)" and "\<not> is_timeout (de_now EA') (de_now EA) 5"
    and "getnodes EA A addrB pkB cid None = (r, A1)"
    and "get_close_nodes (de_now EB) (close_clientlist (dn_dht B)) (map client_list (friends_list (dn_dht B))) cid 0
        (LAN_ip (ipp_ip addrA)) = (nodes, num)"
    and "ns = take num nodes" and "ns \<noteq> []" and "\<forall>n\<in>set ns. ip_node n \<and> bit_by_bit_cmp (nf_public_key n) pkA \<noteq> 128"
  shows "\<exists>p q B' A2 A3 A' ns'. dn_log A1 = dn_log A @ [SendPacket addrB p] \<and>
    handle_getnodes EB B addrA p = Some (0, B') \<and> SendPacket addrA q \<in> set (dn_log B') \<and>
    handle_sendnodes_ipv6 EA' A1 addrB q = Some (0, A') \<and> client_lists A2 = client_lists A \<and>
    addto_lists_net EA' A2 addrB pkB = Some A3 \<and> list_all2 same_node ns' ns \<and> sendnodes_loop EA' pkB ns' A3 = Some A'"
proof -
  let ?n = "\<lparr>nf_public_key = pkB, nf_ip_port = addrB\<rparr>"
  let ?key = "encrypt_precompute N pkB (self_secret_key (dn_dht A))"
  have len: "length pkA = 32" "length pkB = 32" using assms(1,2,6,7) by (simp_all add: dht_inv_def net_ok_def dht_ok_def)
  have n: "node_ok ?n" using len assms(13) by (simp add: node_ok_def)
  have ne: "pkB \<noteq> self_public_key (dn_dht A)" "pkA \<noteq> self_public_key (dn_dht B)" using assms(6-8) by auto
  obtain pid a keys where add: "ping_array_add (de_now EA) (de_random64 EA (dn_draws A)) (de_alloc EA (dn_draws A))
      (if None = (None :: Node_format option) then dht_ping_array (dn_dht A) else dht_harden_ping_array (dn_dht A))
      (node_image ?n @ (case None of None \<Rightarrow> [] | Some m \<Rightarrow> node_image m)) = (pid, a)"
    and A1: "dn_dht A1 = (if None = (None :: Node_format option) then (dn_dht A)\<lparr>shared_keys_sent := keys, dht_ping_array := a\<rparr>
       else (dn_dht A)\<lparr>shared_keys_sent := keys, dht_harden_ping_array := a\<rparr>)"
    and sent: "pid = 0 \<and> r = - 1 \<and> dn_log A1 = dn_log A \<or> pid \<noteq> 0 \<and> (\<exists>p. dn_log A1 = dn_log A @ [SendPacket addrB p] \<and>
       sealed N ?key (self_public_key (dn_dht A)) NET_PACKET_GET_NODES (cid @ bytes_le 8 (unat pid)) p)"
    by (rule getnodes_sends [OF assms(1,3) n ne(1) assms(18)])
  have wf: "pa_wf (dht_ping_array (dn_dht A))" using assms(1) by (simp add: dht_inv_def net_ok_def array_ok_def)
  have new: "pid \<noteq> 0" "pa_pending a pid = Some (node_image ?n, de_now EA)"
    using ping_array_add_new [OF wf, of "de_now EA" "de_random64 EA (dn_draws A)" "node_image ?n" pid a] add assms(16) by simp_all
  then obtain p where p: "dn_log A1 = dn_log A @ [SendPacket addrB p]"
      "sealed N ?key pkA NET_PACKET_GET_NODES (cid @ bytes_le 8 (unat pid)) p"
    using sent assms(6) by auto
  have key: "?key = encrypt_precompute N pkA (self_secret_key (dn_dht B))" using keys_agree_precompute [OF assms(9)] .
  have ipn: "\<forall>n\<in>set ns. ip_node n" using assms(22) by blast
  obtain B' q where B: "handle_getnodes EB B addrA p = Some (0, B')" "SendPacket addrA q \<in> set (dn_log B')" "length ns \<le> 4"
      "sealed N ?key pkB NET_PACKET_SEND_NODES_IPV6 ([word_of_nat (length ns)] @ nodes_bytes ns @ bytes_le 8 (unat pid)) q"
    using handle_getnodes_answers [OF assms(2,4) len(1) assms(15) ne(2) p(2) [unfolded key] assms(10) [unfolded assms(7)] assms(12)
        assms(19-21) ipn] unfolding key [symmetric] assms(7) [symmetric] by blast
  have inv1: "dht_inv N A1" using getnodes_keeps [OF assms(1,3) n assms(18)] by blast
  have "\<exists>A2 A3 A' ns'. handle_sendnodes_ipv6 EA' A1 addrB q = Some (0, A') \<and> client_lists A2 = client_lists A1 \<and>
      addto_lists_net EA' A2 addrB pkB = Some A3 \<and> list_all2 same_node ns' ns \<and> sendnodes_loop EA' pkB ns' A3 = Some A'"
    using B(3,4) new(2) assms(6,11,13,14,17,21,22) A1
    by (intro handle_sendnodes_accepts [OF inv1 assms(5) n]) auto
  moreover have "client_lists A1 = client_lists A" using A1 by (simp add: client_lists_def)
  ultimately show ?thesis using p(1) B(1,2) by metis
qed

section \<open>Properties\<close>

text \<open>
  C11. Two nodes that can reach each other complete a ping: the packet that \<open>send_ping_request\<close> puts
  on the wire is answered by the handler of the other node, and the answer, if it arrives within
  the five seconds of the ping timeout, makes the first node pass the other's key and address on to
  its client lists.
\<close>

theorem ping_exchange:
  assumes "dht_inv N A" and "dht_inv N B" and "env_ok N EA" and "env_ok N EB" and "env_ok N EA'"
    and "pkA = self_public_key (dn_dht A)" and "pkB = self_public_key (dn_dht B)" and "pkA \<noteq> pkB"
    and "keys_agree N pkA (self_secret_key (dn_dht A)) pkB (self_secret_key (dn_dht B))"
    and "bit_by_bit_cmp pkA pkB \<noteq> 128" and "bit_by_bit_cmp pkB pkA \<noteq> 128"
    and "ip_ok (ipp_ip addrA)" and "ip_ok (ipp_ip addrB)" and "ipport_equal addrB addrB"
    and "de_alloc EA (dn_draws A)" and "\<not> is_timeout (de_now EA') (de_now EA) 5"
    and "send_ping_request EA A addrB pkB = (r, A1)"
  shows "\<exists>p q B' A2 A'. dn_log A1 = dn_log A @ [SendPacket addrB p] \<and>
    handle_ping_request EB B addrA p = Some (0, B') \<and> SendPacket addrA q \<in> set (dn_log B') \<and>
    handle_ping_response EA' A1 addrB q = Some (0, A') \<and>
    client_lists A2 = client_lists A \<and> addto_lists_net EA' A2 addrB pkB = Some A'"
  using ping_completes [OF assms] by blast

definition sample_net :: "u8 \<Rightarrow> u8 \<Rightarrow> DHT_Net" where
  "sample_net pk sk = \<lparr>dn_dht = sample_dht\<lparr>self_public_key := replicate 32 pk, self_secret_key := replicate 32 sk\<rparr>,
     loaded_nodes_list = None, loaded_num_nodes = 0, loaded_nodes_index = 0, last_run = 0, dn_draws = 0, dn_log = []\<rparr>"

definition sample_dht_env :: "u64 \<Rightarrow> dht_env" where
  "sample_dht_env now = \<lparr>de_now = now, de_nacl = nacl_identity, de_qsort = insertion_sort, de_nonce = (\<lambda>k. replicate 24 (word_of_nat k)),
     de_random64 = (\<lambda>k. 77), de_rand = (\<lambda>k. k), de_alloc = (\<lambda>k. True), de_send = (\<lambda>ipp p. int (length p)),
     de_stack = replicate MAX_SENT_NODES node_zero\<rparr>"

lemma sample_net_inv: "dht_inv nacl_identity (sample_net pk sk)"
proof -
  have "pa_data sample_ping_array pid = None" for pid
    by (simp add: pa_data_entry sample_ping_array_def empty_entry_def Let_def)
  then show ?thesis
    using sample_dht_ok sample_ping_array_wf shared_keys_zero_ok
    by (simp add: dht_inv_def net_ok_def requests_ok_def array_ok_def sample_net_def dht_ok_def sample_dht_def)
      (simp add: sample_ping_array_def)
qed

lemma sample_dht_env_ok: "5 \<le> now \<Longrightarrow> env_ok nacl_identity (sample_dht_env now)"
  by (simp add: env_ok_def sample_dht_env_def nacl_identity_ok insertion_sort_ok sample_ok)

text \<open>The keys \<open>1, 2\<close> and \<open>3, 0\<close> agree under the sample primitives.\<close>

lemma sample_keys_agree: "keys_agree nacl_identity (replicate 32 1) (replicate 32 2) (replicate 32 3) (replicate 32 0)"
  by (simp add: keys_agree_def nacl_identity_def zip_replicate)

lemma sample_buckets: "bit_by_bit_cmp (replicate 32 3) (replicate 32 1) = 6" "bit_by_bit_cmp (replicate 32 1) (replicate 32 3) = 6"
  by code_simp+

theorem ping_exchange_witness:
  "\<exists>p q B' A2 A'. dn_log (snd (send_ping_request (sample_dht_env 1000) (sample_net 1 2) (nf_ip_port sample_node) (replicate 32 3))) =
       dn_log (sample_net 1 2) @ [SendPacket (nf_ip_port sample_node) p] \<and>
     handle_ping_request (sample_dht_env 1001) (sample_net 3 0) (nf_ip_port sample_tcp_node) p = Some (0, B') \<and>
     SendPacket (nf_ip_port sample_tcp_node) q \<in> set (dn_log B') \<and>
     handle_ping_response (sample_dht_env 1002)
       (snd (send_ping_request (sample_dht_env 1000) (sample_net 1 2) (nf_ip_port sample_node) (replicate 32 3)))
       (nf_ip_port sample_node) q = Some (0, A') \<and>
     client_lists A2 = client_lists (sample_net 1 2) \<and>
     addto_lists_net (sample_dht_env 1002) A2 (nf_ip_port sample_node) (replicate 32 3) = Some A'"
proof -
  have e: "env_ok nacl_identity (sample_dht_env 1000)" "env_ok nacl_identity (sample_dht_env 1001)" "env_ok nacl_identity (sample_dht_env 1002)"
    by (simp_all add: sample_dht_env_ok)
  show ?thesis
    by (rule ping_exchange [OF sample_net_inv [of 1 2] sample_net_inv [of 3 0] e, where pkA = "replicate 32 1"
          and r = "fst (send_ping_request (sample_dht_env 1000) (sample_net 1 2) (nf_ip_port sample_node) (replicate 32 3))"])
      (simp_all add: sample_net_def sample_keys_agree sample_buckets sample_ok [unfolded node_ok_def] sample_dht_env_def is_timeout_def
        sample_node_def ipport_equal_def ip_equal_def ip_ok_def sample_tcp_node_def replicate_eq_replicate)
qed

text \<open>
  A step that changes the client lists accepts a response, and a matching request was sent before to
  the key of the responder, at the address the response came from.
\<close>

lemma client_change_by_answer:
  assumes inv: "dht_inv N d" and "dht_step N d d'" and "client_lists d' \<noteq> client_lists d"
  shows "\<exists>E source packet n i pre pid.
    (handle_ping_response E d source packet = Some (0, d') \<and> i = NET_PACKET_PING_REQUEST \<or>
     handle_sendnodes_ipv6 E d source packet = Some (0, d') \<and> i = NET_PACKET_GET_NODES) \<and>
    nf_public_key n = read_at packet 1 32 \<and> ipport_equal (nf_ip_port n) source \<and>
    asked N d i n (pre @ bytes_le 8 (unat (pid :: u64)))"
proof -
  obtain E source packet where E: "env_ok N E" "ip_ok (ipp_ip source)"
    and h: "handle_ping_response E d source packet = Some (0, d') \<or> handle_sendnodes_ipv6 E d source packet = Some (0, d')"
    using lists_change_by_answer [OF assms(2) inv assms(3)] by blast
  from h show ?thesis
  proof
    assume h: "handle_ping_response E d source packet = Some (0, d')"
    show ?thesis using handle_ping_response_result [OF inv E h] h by blast
  next
    assume h: "handle_sendnodes_ipv6 E d source packet = Some (0, d')"
    show ?thesis using handle_sendnodes_ipv6_result [OF inv E h] h by blast
  qed
qed

text \<open>An empty close list takes the first node that answers.\<close>

lemma coipil_fresh:
  assumes "pk \<noteq> zero_key" and "length pk = 32"
  shows "client_or_ip_port_in_list now (replicate n client_zero) pk ipp = (replicate n client_zero, False)"
proof -
  have "coipil_key_loop now pk ipp (replicate n client_zero) = None"
    using assms by (induction n) (auto simp: client_zero_def id_equal_iff)
  moreover have "coipil_addr_loop now pk ipp (replicate n client_zero) = None"
    by (induction n) (auto simp: client_zero_def assoc_zero_def ipport_zero_def ipport_equal_def)
  ultimately show ?thesis by (simp add: client_or_ip_port_in_list_def)
qed

lemma addto_lists_net_fresh:
  assumes a: "addto_lists_net E d ipp pk = Some d'" and l: "client_lists d = (replicate LCLIENT_LIST client_zero, [])"
    and pk: "pk \<noteq> zero_key" "length pk = 32" and bad: "both_bad (de_now E) client_zero"
    and idx: "bit_by_bit_cmp pk (self_public_key (dn_dht d)) \<noteq> 128"
  shows "pk \<in> cd_public_key ` set (close_clientlist (dn_dht d'))"
proof -
  have cl: "close_clientlist (dn_dht d) = replicate LCLIENT_LIST client_zero" "friends_list (dn_dht d) = []"
    using l by (simp_all add: client_lists_def)
  let ?p = "unembed_ip_port ipp"
  have len: "length (close_clientlist (dn_dht d)) = LCLIENT_LIST" by (simp add: cl)
  obtain dht used es where r: "addto_lists (de_qsort E) (de_now E) (dn_dht d) ipp pk = Some (dht, used, es)" "dn_dht d' = dht"
    using a by (auto simp: addto_lists_net_def log_dht_def)
  from len idx show ?thesis
  proof (cases rule: add_to_close_cases [where now = "de_now E" and ipp = ?p and sim = False])
    case full
    have i: "close_index pk (self_public_key (dn_dht d)) < 128" using close_index_range idx by (metis le_neq_implies_less)
    have "close_clientlist (dn_dht d) ! (close_index pk (self_public_key (dn_dht d)) * 8 + 0) = client_zero"
      using i by (simp add: cl)
    then show ?thesis using full(2) bad by (metis zero_less_numeral)
  next
    case (stored k)
    then have "close_clientlist dht ! k = store_client (de_now E) pk ?p (close_clientlist (dn_dht d) ! k)" "k < length (close_clientlist dht)"
      using r(1) coipil_fresh [OF pk, of "de_now E" LCLIENT_LIST ?p] cl by (auto simp: addto_lists_def Let_def)
    then show ?thesis using r(2) nth_mem store_client_key by (metis imageI)
  qed
qed

lemma sample_exchange:
  obtains d d' where "dht_step nacl_identity (sample_net 1 2) d" "dht_step nacl_identity d d'"
    "replicate 32 3 \<in> cd_public_key ` set (close_clientlist (dn_dht d'))"
    "replicate 32 3 \<notin> cd_public_key ` set (close_clientlist (dn_dht d))"
proof -
  let ?a = "nf_ip_port sample_node" and ?pk = "replicate 32 (3::u8)"
  let ?d1 = "snd (send_ping_request (sample_dht_env 1000) (sample_net 1 2) ?a ?pk)"
  have e: "env_ok nacl_identity (sample_dht_env 1000)" "env_ok nacl_identity (sample_dht_env 1001)" "env_ok nacl_identity (sample_dht_env 1002)"
    by (simp_all add: sample_dht_env_ok)
  have n: "node_ok \<lparr>nf_public_key = ?pk, nf_ip_port = ?a\<rparr>" "ip_ok (ipp_ip ?a)"
    using sample_ok(1) by (simp_all add: node_ok_def)
  have "\<exists>p q B' A2 A'. dn_log ?d1 = dn_log (sample_net 1 2) @ [SendPacket ?a p] \<and>
      handle_ping_request (sample_dht_env 1001) (sample_net 3 0) ?a p = Some (0, B') \<and> SendPacket ?a q \<in> set (dn_log B') \<and>
      handle_ping_response (sample_dht_env 1002) ?d1 ?a q = Some (0, A') \<and>
      client_lists A2 = client_lists (sample_net 1 2) \<and> self_public_key (dn_dht A2) = replicate 32 1 \<and>
      addto_lists_net (sample_dht_env 1002) A2 ?a ?pk = Some A'"
    by (rule ping_completes [OF sample_net_inv [of 1 2] sample_net_inv [of 3 0] e,
          where r = "fst (send_ping_request (sample_dht_env 1000) (sample_net 1 2) ?a ?pk)"])
      (simp_all add: sample_net_def sample_keys_agree sample_buckets sample_dht_env_def is_timeout_def
        sample_node_def ipport_equal_def ip_equal_def ip_ok_def replicate_eq_replicate)
  then obtain q A2 A' where h: "handle_ping_response (sample_dht_env 1002) ?d1 ?a q = Some (0, A')"
      "client_lists A2 = client_lists (sample_net 1 2)" "self_public_key (dn_dht A2) = replicate 32 1"
      "addto_lists_net (sample_dht_env 1002) A2 ?a ?pk = Some A'" by blast
  have "dht_lists ?d1 = dht_lists (sample_net 1 2)"
    using send_ping_request_keeps [OF sample_net_inv e(1) n(1) prod.collapse [symmetric]] by blast
  then have "client_lists ?d1 = client_lists A2" using h(2) lists_client_lists by metis
  then have "?pk \<notin> cd_public_key ` set (close_clientlist (dn_dht ?d1))"
    using h(2) by (simp add: client_lists_def sample_net_def sample_dht_def client_zero_def replicate_eq_replicate)
  moreover have "?pk \<in> cd_public_key ` set (close_clientlist (dn_dht A'))"
    using h(2,3) by (intro addto_lists_net_fresh [OF h(4)])
      (simp_all add: client_lists_def sample_net_def sample_dht_def sample_buckets both_bad_def client_zero_def assoc_zero_def
        sample_dht_env_def is_timeout_def replicate_eq_replicate)
  ultimately show ?thesis
    using that dht_step.ask_ping [OF e(1) n(1) prod.collapse [symmetric]] dht_step.ping_response [OF e(3) n(2) h(1)] by metis
qed

text \<open>
  C10. A request for nodes is answered with the closest nodes the other knows: its handler sends the
  nodes that \<open>get_close_nodes\<close> gives for the wanted key, the first node accepts the answer within the
  timeout, unpacks the same nodes in the same order, adds the responder to its client lists and
  hands every node received to the lists of nodes to contact.
\<close>

theorem nodes_exchange:
  assumes "dht_inv N A" and "dht_inv N B" and "env_ok N EA" and "env_ok N EB" and "env_ok N EA'"
    and "pkA = self_public_key (dn_dht A)" and "pkB = self_public_key (dn_dht B)" and "pkA \<noteq> pkB"
    and "keys_agree N pkA (self_secret_key (dn_dht A)) pkB (self_secret_key (dn_dht B))"
    and "bit_by_bit_cmp pkA pkB \<noteq> 128" and "bit_by_bit_cmp pkB pkA \<noteq> 128"
    and "ip_ok (ipp_ip addrA)" and "ip_ok (ipp_ip addrB)" and "ipport_equal addrB addrB" and "length cid = 32"
    and "de_alloc EA (dn_draws A)" and "\<not> is_timeout (de_now EA') (de_now EA) 5"
    and "getnodes EA A addrB pkB cid None = (r, A1)"
    and "get_close_nodes (de_now EB) (close_clientlist (dn_dht B)) (map client_list (friends_list (dn_dht B))) cid 0
        (LAN_ip (ipp_ip addrA)) = (nodes, num)"
    and "ns = take num nodes" and "ns \<noteq> []" and "\<forall>n\<in>set ns. ip_node n \<and> bit_by_bit_cmp (nf_public_key n) pkA \<noteq> 128"
  shows "\<exists>p q B' A2 A3 A' ns'. dn_log A1 = dn_log A @ [SendPacket addrB p] \<and>
    handle_getnodes EB B addrA p = Some (0, B') \<and> SendPacket addrA q \<in> set (dn_log B') \<and>
    handle_sendnodes_ipv6 EA' A1 addrB q = Some (0, A') \<and> client_lists A2 = client_lists A \<and>
    addto_lists_net EA' A2 addrB pkB = Some A3 \<and> list_all2 same_node ns' ns \<and> sendnodes_loop EA' pkB ns' A3 = Some A'"
  using nodes_request_completes [OF assms] .

text \<open>A sample node that knows one other.\<close>

definition sample_known :: DHT_Net where
  "sample_known = (sample_net 3 0)\<lparr>dn_dht := (dn_dht (sample_net 3 0))
     \<lparr>close_clientlist := sample_client 9 # replicate 1023 client_zero\<rparr>\<rparr>"

lemma sample_known_inv: "dht_inv nacl_identity sample_known"
proof -
  have "filter (\<lambda>k. k \<noteq> zero_key) (replicate 1023 zero_key) = []" by simp
  then have "unique_keys (sample_client 9 # replicate 1023 client_zero)"
    by (simp add: unique_keys_def client_zero_def map_replicate)
  then have "clients_ok (sample_client 9 # replicate 1023 client_zero)" by (auto simp: clients_ok_def sample_client_ok)
  then have "dht_ok (dn_dht sample_known)"
    using sample_net_inv [of 3 0] by (simp add: sample_known_def dht_inv_def net_ok_def dht_ok_def)
  then show ?thesis using core_inv [OF sample_net_inv [of 3 0], of sample_known] by (simp add: sample_known_def dht_core_def)
qed

lemma close_loop_unsendable:
  "\<not> sendable now pk fam lan good c \<Longrightarrow> close_loop now pk fam lan good (replicate n c) st = st"
  by (induction n arbitrary: st) (auto split: prod.splits)

lemma sample_known_nodes:
  "get_close_nodes 1001 (close_clientlist (dn_dht sample_known)) (map client_list (friends_list (dn_dht sample_known)))
     (replicate 32 7) 0 False =
   ([\<lparr>nf_public_key = replicate 32 9, nf_ip_port = ip_port (assoc4 (sample_client 9))\<rparr>, node_zero, node_zero, node_zero], 1)"
proof -
  have z: "\<not> sendable 1001 (replicate 32 7) 0 False False client_zero"
    by (simp add: sendable_def pick_assoc_def client_zero_def assoc_zero_def is_timeout_def Let_def)
  have s: "sendable 1001 (replicate 32 7) 0 False False (sample_client 9)"
    by (simp add: sample_client_def sendable_def pick_assoc_def is_timeout_def client_zero_def assoc_zero_def Let_def LAN_ip_def
      Local_ip_def Local_ip4_def LAN_ip4_def ip4_of_def ipport_zero_def ip_zero_def word_le_nat_alt)
  have k: "cd_public_key (sample_client 9) = replicate 32 9" "pick_assoc 0 (sample_client 9) = assoc4 (sample_client 9)"
    by (simp_all add: sample_client_def client_zero_def assoc_zero_def pick_assoc_def)
  have "\<not> client_in_nodelist (replicate 4 node_zero) (replicate 32 9)" by code_simp
  then show ?thesis using z s k
    by (simp add: get_close_nodes_def get_somewhat_close_nodes_def get_close_nodes_inner_def sample_known_def sample_net_def
        sample_dht_def close_loop_unsendable numeral_eq_Suc)
qed

theorem nodes_exchange_witness:
  "\<exists>p q B' A2 A3 A' ns'. dn_log (snd (getnodes (sample_dht_env 1000) (sample_net 1 2) (nf_ip_port sample_node) (replicate 32 3) (replicate 32 7) None)) =
       dn_log (sample_net 1 2) @ [SendPacket (nf_ip_port sample_node) p] \<and>
     handle_getnodes (sample_dht_env 1001) sample_known (ip_port (assoc4 (sample_client 1))) p = Some (0, B') \<and>
     SendPacket (ip_port (assoc4 (sample_client 1))) q \<in> set (dn_log B') \<and>
     handle_sendnodes_ipv6 (sample_dht_env 1002)
       (snd (getnodes (sample_dht_env 1000) (sample_net 1 2) (nf_ip_port sample_node) (replicate 32 3) (replicate 32 7) None))
       (nf_ip_port sample_node) q = Some (0, A') \<and>
     client_lists A2 = client_lists (sample_net 1 2) \<and>
     addto_lists_net (sample_dht_env 1002) A2 (nf_ip_port sample_node) (replicate 32 3) = Some A3 \<and>
     list_all2 same_node ns' [\<lparr>nf_public_key = replicate 32 9, nf_ip_port = ip_port (assoc4 (sample_client 9))\<rparr>] \<and>
     sendnodes_loop (sample_dht_env 1002) (replicate 32 3) ns' A3 = Some A'"
proof -
  have e: "env_ok nacl_identity (sample_dht_env 1000)" "env_ok nacl_identity (sample_dht_env 1001)" "env_ok nacl_identity (sample_dht_env 1002)"
    by (simp_all add: sample_dht_env_ok)
  have a: "ip_ok (ipp_ip (ip_port (assoc4 (sample_client b))))" "\<not> LAN_ip (ipp_ip (ip_port (assoc4 (sample_client b))))" for b
    by (simp_all add: sample_client_def ip_ok_def client_zero_def assoc_zero_def LAN_ip_def Local_ip_def Local_ip4_def LAN_ip4_def ip4_of_def)
  have idx: "bit_by_bit_cmp (replicate 32 9) (replicate 32 1) = 4" by code_simp
  let ?n = "\<lparr>nf_public_key = replicate 32 9, nf_ip_port = ip_port (assoc4 (sample_client 9))\<rparr>"
  have g: "get_close_nodes (de_now (sample_dht_env 1001)) (close_clientlist (dn_dht sample_known))
      (map client_list (friends_list (dn_dht sample_known))) (replicate 32 7) 0 (LAN_ip (ipp_ip (ip_port (assoc4 (sample_client 1))))) =
      ([?n, node_zero, node_zero, node_zero], 1)"
    using sample_known_nodes a(2) [of 1] by (simp add: sample_dht_env_def)
  have "ip_node ?n" using a(1) [of 9] by (simp add: ip_node_def node_ok_def sample_client_def client_zero_def assoc_zero_def)
  then show ?thesis using a(1) idx
    by (intro nodes_exchange [where nodes = "[?n, node_zero, node_zero, node_zero]" and pkA = "replicate 32 1",
            OF sample_net_inv [of 1 2] sample_known_inv e _ _ _ _ _ _ _ _ _ _ _ _ prod.collapse [symmetric] g])
      (simp_all add: sample_net_def sample_known_def sample_keys_agree sample_buckets sample_dht_env_def is_timeout_def
        sample_node_def ipport_equal_def ip_equal_def ip_ok_def replicate_eq_replicate)
qed

text \<open>The loop of \<open>do_to_ping\<close> changes only the entries from its index on.\<close>

lemma do_to_ping_loop_frame:
  assumes "dht_inv N d" and E: "env_ok N E" and "do_to_ping_loop E left i d = Some (j, d')" and "i + left \<le> MAX_TO_PING" and "k < i"
  shows "to_ping (dn_dht d') ! k = to_ping (dn_dht d) ! k \<and> i \<le> j"
  using assms(1,3-5)
proof (induction left arbitrary: i d)
  case (Suc left)
  let ?n = "to_ping (dn_dht d) ! i"
  have "length (to_ping (dn_dht d)) = MAX_TO_PING" "\<forall>n\<in>set (to_ping (dn_dht d)). node_ok n"
    using Suc.prems(1) by (simp_all add: dht_inv_def net_ok_def dht_ok_def)
  then have n: "node_ok \<lparr>nf_public_key = nf_public_key ?n, nf_ip_port = nf_ip_port ?n\<rparr>" "node_ok ?n"
    using Suc.prems(3) by (simp_all add: node_ok_def)
  show ?case
  proof (cases "ip_isset (ipp_ip (nf_ip_port ?n))")
    case False
    then show ?thesis using Suc.prems by (auto simp: Let_def)
  next
    case set: True
    then obtain ad where ad: "node_addable_to_close_list (de_now E) (dn_dht d) (nf_public_key ?n) (nf_ip_port ?n) = Some ad"
      using Suc.prems(2) by (auto simp: Let_def bind_eq_Some_conv)
    show ?thesis
    proof (cases ad)
      case False
      then show ?thesis using Suc.IH [OF Suc.prems(1), of "Suc i"] Suc.prems ad set by (simp add: Let_def)
    next
      case True
      define d1 where "d1 = snd (send_ping_request E d (nf_ip_port ?n) (nf_public_key ?n))"
      define d2 where "d2 = d1\<lparr>dn_dht := (dn_dht d1)\<lparr>to_ping := (to_ping (dn_dht d1))[i := ?n\<lparr>nf_ip_port :=
        (nf_ip_port ?n)\<lparr>ipp_ip := ip_reset (ipp_ip (nf_ip_port ?n))\<rparr>\<rparr>]\<rparr>\<rparr>"
      have d1: "dht_inv N d1" "dht_lists d1 = dht_lists d"
        using send_ping_request_keeps [OF Suc.prems(1) E n(1) prod.collapse [symmetric]] by (simp_all add: d1_def)
      have tp: "to_ping (dn_dht d1) = to_ping (dn_dht d)" using d1(2) by (simp add: dht_lists_def)
      have one: "do_to_ping_loop E 1 i d = Some (Suc i, d2)"
        using set ad True by (simp add: Let_def d1_def d2_def)
      have "dht_inv N d2" using do_to_ping_loop_keeps [OF Suc.prems(1) E one] Suc.prems(3) by simp
      moreover have "do_to_ping_loop E left (Suc i) d2 = Some (j, d')"
        using Suc.prems(2) ad set True by (simp add: Let_def d1_def d2_def)
      ultimately show ?thesis using Suc.IH [of d2 "Suc i"] Suc.prems(3,4) tp by (simp add: d2_def)
    qed
  qed
qed simp

text \<open>
  C40. A node in the list of nodes to ping can get stuck: when \<open>do_to_ping\<close> pings the first entry and
  skips the second because its bucket is full, it clears the first and leaves the second, and from then
  on \<open>do_to_ping\<close> does nothing at any time, since it gives up when the first entry is empty.
\<close>

theorem do_to_ping_stuck:
  assumes "dht_inv N d" and "env_ok N E" and "do_to_ping E d = Some d'" and "is_timeout (de_now E) (last_to_ping (dn_dht d)) TIME_TO_PING"
    and "n0 = to_ping (dn_dht d) ! 0" and "ip_isset (ipp_ip (nf_ip_port n0))"
    and "node_addable_to_close_list (de_now E) (dn_dht d) (nf_public_key n0) (nf_ip_port n0) = Some True"
    and "n1 = to_ping (dn_dht d) ! 1" and "ip_isset (ipp_ip (nf_ip_port n1))"
    and "node_addable_to_close_list (de_now E) (dn_dht d) (nf_public_key n1) (nf_ip_port n1) = Some False"
  shows "to_ping (dn_dht d') ! 1 = n1 \<and> do_to_ping E' d' = Some d'"
proof -
  have tpl: "length (to_ping (dn_dht d)) = MAX_TO_PING" and ok: "\<forall>n\<in>set (to_ping (dn_dht d)). node_ok n"
    using assms(1) by (simp_all add: dht_inv_def net_ok_def dht_ok_def)
  then have n: "node_ok \<lparr>nf_public_key = nf_public_key n0, nf_ip_port = nf_ip_port n0\<rparr>"
    using assms(5) nth_mem [of 0 "to_ping (dn_dht d)"] by (simp add: node_ok_def)
  define d1 where "d1 = snd (send_ping_request E d (nf_ip_port n0) (nf_public_key n0))"
  define m where "m = n0\<lparr>nf_ip_port := (nf_ip_port n0)\<lparr>ipp_ip := ip_reset (ipp_ip (nf_ip_port n0))\<rparr>\<rparr>"
  define d2 where "d2 = d1\<lparr>dn_dht := (dn_dht d1)\<lparr>to_ping := (to_ping (dn_dht d1))[0 := m]\<rparr>\<rparr>"
  have d1: "dht_lists d1 = dht_lists d"
    using send_ping_request_keeps [OF assms(1,2) n prod.collapse [symmetric]] by (simp add: d1_def)
  have one: "do_to_ping_loop E 1 0 d = Some (1, d2)"
    using assms(5-7) by (simp add: Let_def d1_def d2_def m_def)
  then have inv2: "dht_inv N d2" using do_to_ping_loop_keeps [OF assms(1,2) one] by simp
  have tp2: "to_ping (dn_dht d2) ! 0 = m" "to_ping (dn_dht d2) ! 1 = n1"
    using d1 tpl assms(8) by (auto simp: d2_def dht_lists_def)
  have na: "node_addable_to_close_list (de_now E) (dn_dht d2) (nf_public_key n1) (nf_ip_port n1) = Some False"
    using assms(10) d1 by (simp add: node_addable_to_close_list_def add_to_close_def d2_def dht_lists_def option.map_comp comp_def split: option.splits)
  define L :: nat where "L = 30"
  have thirty: "MAX_TO_PING = Suc (Suc L)" by (simp add: L_def)
  obtain j d3 where l: "do_to_ping_loop E (Suc (Suc L)) 0 d = Some (j, d3)"
    and d': "d' = (if j \<noteq> 0 then d3\<lparr>dn_dht := (dn_dht d3)\<lparr>last_to_ping := de_now E\<rparr>\<rparr> else d3)"
    using assms(3-6) unfolding do_to_ping_def thirty by (auto simp: bind_eq_Some_conv simp del: do_to_ping_loop.simps)
  have "do_to_ping_loop E (Suc L) 1 d2 = Some (j, d3)"
    using l assms(5-7) by (simp add: Let_def d1_def d2_def m_def)
  then have l2: "do_to_ping_loop E L 2 d2 = Some (j, d3)" using tp2(2) assms(9) na by (simp add: Let_def numeral_2_eq_2)
  then have "to_ping (dn_dht d3) ! 0 = m" "to_ping (dn_dht d3) ! 1 = n1"
    using do_to_ping_loop_frame [OF inv2 assms(2) l2, of 0] do_to_ping_loop_frame [OF inv2 assms(2) l2, of 1] tp2 by (simp_all add: L_def)
  moreover have "\<not> ip_isset (ipp_ip (nf_ip_port m))" by (simp add: m_def ip_reset_def ip_zero_def ip_isset_def)
  ultimately show ?thesis by (auto simp: d' do_to_ping_def)
qed

lemma do_to_ping_loop_defined:
  assumes "dht_inv N d" and E: "env_ok N E" and "i + left \<le> MAX_TO_PING"
    and "\<forall>n\<in>set (to_ping (dn_dht d)). bit_by_bit_cmp (nf_public_key n) (self_public_key (dn_dht d)) \<noteq> 128"
  shows "\<exists>r. do_to_ping_loop E left i d = Some r"
  using assms(1,3,4)
proof (induction left arbitrary: i d)
  case (Suc left)
  let ?n = "to_ping (dn_dht d) ! i"
  have tp: "length (to_ping (dn_dht d)) = MAX_TO_PING" "\<forall>n\<in>set (to_ping (dn_dht d)). node_ok n"
    using Suc.prems(1) by (simp_all add: dht_inv_def net_ok_def dht_ok_def)
  then have mem: "?n \<in> set (to_ping (dn_dht d))" using Suc.prems(2) by simp
  then have n: "node_ok \<lparr>nf_public_key = nf_public_key ?n, nf_ip_port = nf_ip_port ?n\<rparr>" using tp(2) by (simp add: node_ok_def)
  obtain ad where ad: "node_addable_to_close_list (de_now E) (dn_dht d) (nf_public_key ?n) (nf_ip_port ?n) = Some ad"
    using node_addable_defined [OF Suc.prems(1)] Suc.prems(3) mem by blast
  show ?case
  proof (cases "ip_isset (ipp_ip (nf_ip_port ?n)) \<and> ad")
    case False
    then show ?thesis using Suc.IH [OF Suc.prems(1), of "Suc i"] Suc.prems(2,3) ad by (auto simp: Let_def)
  next
    case True
    define d1 where "d1 = snd (send_ping_request E d (nf_ip_port ?n) (nf_public_key ?n))"
    define m where "m = ?n\<lparr>nf_ip_port := (nf_ip_port ?n)\<lparr>ipp_ip := ip_reset (ipp_ip (nf_ip_port ?n))\<rparr>\<rparr>"
    define d2 where "d2 = d1\<lparr>dn_dht := (dn_dht d1)\<lparr>to_ping := (to_ping (dn_dht d1))[i := m]\<rparr>\<rparr>"
    have "dht_lists d1 = dht_lists d"
      using send_ping_request_keeps [OF Suc.prems(1) E n prod.collapse [symmetric]] by (simp add: d1_def)
    then have tp: "to_ping (dn_dht d2) = (to_ping (dn_dht d))[i := m]" "self_public_key (dn_dht d2) = self_public_key (dn_dht d)"
      by (simp_all add: dht_lists_def d2_def)
    have one: "do_to_ping_loop E 1 i d = Some (Suc i, d2)" using ad True by (simp add: Let_def d1_def d2_def m_def)
    have inv2: "dht_inv N d2" using do_to_ping_loop_keeps [OF Suc.prems(1) E one] Suc.prems(2) by simp
    have "\<forall>n\<in>set (to_ping (dn_dht d2)). bit_by_bit_cmp (nf_public_key n) (self_public_key (dn_dht d2)) \<noteq> 128"
      unfolding tp using Suc.prems(3) mem by (intro update_all) (auto simp: m_def)
    then have "\<exists>r. do_to_ping_loop E left (Suc i) d2 = Some r" using Suc.IH [OF inv2, of "Suc i"] Suc.prems(2) by simp
    then show ?thesis using ad True by (simp add: Let_def d1_def d2_def m_def)
  qed
qed simp

lemma do_to_ping_defined:
  assumes "dht_inv N d" and "env_ok N E"
    and "\<forall>n\<in>set (to_ping (dn_dht d)). bit_by_bit_cmp (nf_public_key n) (self_public_key (dn_dht d)) \<noteq> 128"
  shows "\<exists>d'. do_to_ping E d = Some d'"
  using do_to_ping_loop_defined [OF assms(1,2) _ assms(3), of 0 MAX_TO_PING]
  by (auto simp: do_to_ping_def simp del: do_to_ping_loop.simps)

text \<open>A node whose first bucket is full of live nodes.\<close>

definition sample_stuck :: DHT_Net where
  "sample_stuck = (sample_net 1 2)\<lparr>dn_dht := (dn_dht (sample_net 1 2))
     \<lparr>close_clientlist := map sample_client [200, 201, 202, 203, 204, 205, 206, 207] @ replicate 1016 client_zero,
      to_ping := [\<lparr>nf_public_key = replicate 32 3, nf_ip_port = nf_ip_port sample_node\<rparr>,
                  \<lparr>nf_public_key = replicate 32 255, nf_ip_port = nf_ip_port sample_node\<rparr>] @ replicate 30 node_zero\<rparr>\<rparr>"

lemma sample_stuck_inv: "dht_inv nacl_identity sample_stuck"
proof -
  have "unique_keys (map sample_client [200, 201, 202, 203, 204, 205, 206, 207] @ replicate 1016 client_zero)"
    by (simp add: unique_keys_def client_zero_def map_replicate sample_client_def replicate_eq_replicate)
  then have "clients_ok (map sample_client [200, 201, 202, 203, 204, 205, 206, 207] @ replicate 1016 client_zero)"
    by (auto simp: clients_ok_def sample_client_ok)
  then have "dht_ok (dn_dht sample_stuck)"
    using sample_net_inv [of 1 2] sample_ok(1) by (auto simp: sample_stuck_def dht_inv_def net_ok_def dht_ok_def node_ok_def sample_ok(3) [unfolded node_ok_def])
  then show ?thesis using core_inv [OF sample_net_inv [of 1 2], of sample_stuck] by (simp add: sample_stuck_def dht_core_def)
qed

lemma sample_stuck_bucket: "bit_by_bit_cmp (replicate 32 255) (replicate 32 1) = 0" "bit_by_bit_cmp (replicate 32 0) (replicate 32 1) = 7"
  by code_simp+

theorem do_to_ping_stuck_witness:
  "\<exists>d'. do_to_ping (sample_dht_env 1001) sample_stuck = Some d' \<and>
     to_ping (dn_dht d') ! 1 = to_ping (dn_dht sample_stuck) ! 1 \<and> do_to_ping (sample_dht_env 99999) d' = Some d'"
proof -
  have e: "env_ok nacl_identity (sample_dht_env 1001)" by (simp add: sample_dht_env_ok)
  have "\<forall>n\<in>set (to_ping (dn_dht sample_stuck)). bit_by_bit_cmp (nf_public_key n) (self_public_key (dn_dht sample_stuck)) \<noteq> 128"
    by (auto simp: sample_stuck_def sample_net_def sample_buckets sample_stuck_bucket node_zero_def)
  then obtain d' where d': "do_to_ping (sample_dht_env 1001) sample_stuck = Some d'" using do_to_ping_defined [OF sample_stuck_inv e] by blast
  have live: "\<not> both_bad 1001 (sample_client b)" for b
    by (simp add: both_bad_def sample_client_def client_zero_def assoc_zero_def is_timeout_def word_le_nat_alt)
  have dead: "both_bad 1001 client_zero" by (simp add: both_bad_def client_zero_def assoc_zero_def is_timeout_def)
  let ?bs = "[200, 201, 202, 203, 204, 205, 206, 207] :: u8 list"
  have cl: "close_clientlist (dn_dht sample_stuck) = map sample_client ?bs @ replicate 1016 client_zero"
    "self_public_key (dn_dht sample_stuck) = replicate 32 1" by (simp_all add: sample_stuck_def sample_net_def)
  have len: "length (close_clientlist (dn_dht sample_stuck)) = LCLIENT_LIST" by (simp add: cl)
  have idx: "bit_by_bit_cmp (replicate 32 255) (self_public_key (dn_dht sample_stuck)) \<noteq> 128" by (simp add: cl sample_stuck_bucket)
  have "node_addable_to_close_list 1001 (dn_dht sample_stuck) (replicate 32 255) ipp = Some False" for ipp
    using len idx
  proof (cases rule: add_to_close_cases [where now = 1001 and ipp = ipp and sim = True])
    case (stored k)
    then have "k < length (map sample_client ?bs)" by (simp add: close_index_def cl sample_stuck_bucket)
    then have "close_clientlist (dn_dht sample_stuck) ! k = sample_client (?bs ! k)"
      unfolding cl by (simp only: nth_append if_True nth_map length_map)
    then show ?thesis using stored(2) live by simp
  qed (simp_all add: cl sample_stuck_bucket node_addable_to_close_list_def)
  moreover have "node_addable_to_close_list 1001 (dn_dht sample_stuck) (replicate 32 3) ipp = Some True" for ipp
    by (simp add: node_addable_to_close_list_def add_to_close_def close_index_def sample_stuck_def sample_net_def sample_buckets
        bucket_loop.simps dead nth_append)
  ultimately show ?thesis
    using do_to_ping_stuck [OF sample_stuck_inv e d' _ refl _ _ refl, of "sample_dht_env 99999"] d'
    by (simp add: sample_stuck_def sample_net_def sample_dht_def sample_dht_env_def is_timeout_def sample_node_def ip_isset_def)
qed

end
