(* ===== verification/Onion.thy ===== *)
theory Onion
  imports DHT_State "HOL-Library.Sublist"
begin

text \<open>
  Onion routing: \<open>toxcore/onion.c\<close>. A packet is wrapped in three layers of encryption and passed on
  by three nodes, each of which removes a layer and adds an encrypted record of where the packet
  came from; the answer travels back along these records.

  A node is the record \<open>Onion\<close>. \<open>onion_env\<close> is what a handler gets from elsewhere: the time, the NaCl
  primitives, the nonce and the symmetric key it draws, the results of \<open>sendpacket\<close> and of the
  callback for TCP clients, and the bytes of an address that is not initialised. A handler returns its
  result, the new state and what it sent. \<open>None\<close> is the return value \<open>-1\<close> of a function that makes
  packets.
\<close>

abbreviation (input) "NET_PACKET_ONION_SEND_INITIAL \<equiv> (128::u8)"
abbreviation (input) "NET_PACKET_ONION_SEND_1 \<equiv> (129::u8)"
abbreviation (input) "NET_PACKET_ONION_SEND_2 \<equiv> (130::u8)"
abbreviation (input) "NET_PACKET_ANNOUNCE_REQUEST \<equiv> (131::u8)"
abbreviation (input) "NET_PACKET_ANNOUNCE_RESPONSE \<equiv> (132::u8)"
abbreviation (input) "NET_PACKET_ONION_DATA_REQUEST \<equiv> (133::u8)"
abbreviation (input) "NET_PACKET_ONION_DATA_RESPONSE \<equiv> (134::u8)"
abbreviation (input) "NET_PACKET_ONION_RECV_3 \<equiv> (140::u8)"
abbreviation (input) "NET_PACKET_ONION_RECV_2 \<equiv> (141::u8)"
abbreviation (input) "NET_PACKET_ONION_RECV_1 \<equiv> (142::u8)"
abbreviation (input) "SIZE_IP \<equiv> (17::nat)"
abbreviation (input) "SIZE_PORT \<equiv> (2::nat)"
abbreviation (input) "SIZE_IPPORT \<equiv> (19::nat)"
abbreviation (input) "ONION_MAX_PACKET_SIZE \<equiv> (1400::nat)"
abbreviation (input) "ONION_RETURN_1 \<equiv> (59::nat)"
abbreviation (input) "ONION_RETURN_2 \<equiv> (118::nat)"
abbreviation (input) "ONION_RETURN_3 \<equiv> (177::nat)"
abbreviation (input) "ONION_SEND_BASE \<equiv> (67::nat)"
abbreviation (input) "ONION_SEND_3 \<equiv> (209::nat)"
abbreviation (input) "ONION_SEND_2 \<equiv> (217::nat)"
abbreviation (input) "ONION_SEND_1 \<equiv> (225::nat)"
abbreviation (input) "ONION_MAX_DATA_SIZE \<equiv> (1174::nat)"
abbreviation (input) "ONION_RESPONSE_MAX_DATA_SIZE \<equiv> (1222::nat)"
abbreviation (input) "KEY_REFRESH_INTERVAL \<equiv> (7200::u64)"

section \<open>Data\<close>

record Onion =
  on_secret_key :: bytes
  on_symmetric_key :: bytes
  on_timestamp :: u64
  on_shared_keys_1 :: shared_keys
  on_shared_keys_2 :: shared_keys
  on_shared_keys_3 :: shared_keys
  on_recv_1_set :: bool

record Onion_Path =
  shared_key1 :: bytes
  shared_key2 :: bytes
  shared_key3 :: bytes
  public_key1 :: bytes
  public_key2 :: bytes
  public_key3 :: bytes
  ip_port1 :: IP_Port
  node_public_key1 :: bytes
  ip_port2 :: IP_Port
  node_public_key2 :: bytes
  ip_port3 :: IP_Port
  node_public_key3 :: bytes

datatype onion_event = OnionSend IP_Port bytes | Recv1Callback IP_Port bytes

record onion_env =
  oe_now :: u64
  oe_nacl :: nacl
  oe_nonce :: bytes
  oe_key :: bytes
  oe_send :: "IP_Port \<Rightarrow> bytes \<Rightarrow> int"
  oe_recv1 :: "IP_Port \<Rightarrow> bytes \<Rightarrow> int"
  oe_stack :: bytes

definition change_symmetric_key :: "onion_env \<Rightarrow> Onion \<Rightarrow> Onion" where
  "change_symmetric_key E o1 =
     (if is_timeout (oe_now E) (on_timestamp o1) KEY_REFRESH_INTERVAL
      then o1\<lparr>on_symmetric_key := oe_key E, on_timestamp := oe_now E\<rparr> else o1)"

section \<open>Addresses in packets\<close>

definition ip_pack :: "IP \<Rightarrow> bytes" where
  "ip_pack source =
     (let s = to_net_family source
      in if ip_family s = TOX_AF_INET \<or> ip_family s = TOX_TCP_INET
         then [ip_family s] @ take SIZE_IP4 (ip_addr s) @ replicate (SIZE_IP6 - SIZE_IP4) 0
         else [ip_family s] @ ip_addr s)"

text \<open>\<open>old\<close> is the memory of the target's address before the call.\<close>

definition ip_unpack :: "bytes \<Rightarrow> bytes \<Rightarrow> bool \<Rightarrow> IP option" where
  "ip_unpack old data disable_family_check =
     (if length data < 1 + SIZE_IP6 then None
      else
        let fam = data ! 0;
            target = \<lparr>ip_family = fam,
                      ip_addr = (if fam = TOX_AF_INET \<or> fam = TOX_TCP_INET then memcpy_at old 0 (read_at data 1 SIZE_IP4)
                                 else read_at data 1 SIZE_IP6)\<rparr>
        in if \<not> disable_family_check then to_host_family target
           else Some (case to_host_family target of Some t \<Rightarrow> t | None \<Rightarrow> target))"

definition ipport_pack :: "IP_Port \<Rightarrow> bytes" where
  "ipport_pack source = ip_pack (ipp_ip source) @ bytes_be 2 (unat (ipp_port source))"

definition ipport_unpack :: "bytes \<Rightarrow> bytes \<Rightarrow> bool \<Rightarrow> IP_Port option" where
  "ipport_unpack old data disable_family_check =
     (if length data < SIZE_IP + SIZE_PORT then None
      else case ip_unpack old data disable_family_check of
             None \<Rightarrow> None
           | Some ip \<Rightarrow> Some \<lparr>ipp_ip = ip, ipp_port = word_of_nat (be_val (read_at data SIZE_IP SIZE_PORT))\<rparr>)"

section \<open>Paths and packets\<close>

text \<open>\<open>kp2\<close> and \<open>kp3\<close> are the two key pairs that \<open>crypto_box_keypair\<close> makes.\<close>

definition create_onion_path :: "nacl \<Rightarrow> bytes \<times> bytes \<Rightarrow> bytes \<times> bytes \<Rightarrow> DHT \<Rightarrow> Node_format list \<Rightarrow> Onion_Path" where
  "create_onion_path N kp2 kp3 dht nodes =
     \<lparr>shared_key1 = encrypt_precompute N (nf_public_key (nodes ! 0)) (self_secret_key dht),
      shared_key2 = encrypt_precompute N (nf_public_key (nodes ! 1)) (snd kp2),
      shared_key3 = encrypt_precompute N (nf_public_key (nodes ! 2)) (snd kp3),
      public_key1 = self_public_key dht, public_key2 = fst kp2, public_key3 = fst kp3,
      ip_port1 = nf_ip_port (nodes ! 0), node_public_key1 = nf_public_key (nodes ! 0),
      ip_port2 = nf_ip_port (nodes ! 1), node_public_key2 = nf_public_key (nodes ! 1),
      ip_port3 = nf_ip_port (nodes ! 2), node_public_key3 = nf_public_key (nodes ! 2)\<rparr>"

definition onion_path_to_nodes :: "Node_format list \<Rightarrow> Onion_Path \<Rightarrow> Node_format list option" where
  "onion_path_to_nodes nodes path =
     (if length nodes < 3 then None
      else Some (nodes[0 := \<lparr>nf_public_key = node_public_key1 path, nf_ip_port = ip_port1 path\<rparr>,
                       1 := \<lparr>nf_public_key = node_public_key2 path, nf_ip_port = ip_port2 path\<rparr>,
                       2 := \<lparr>nf_public_key = node_public_key3 path, nf_ip_port = ip_port3 path\<rparr>]))"

text \<open>\<open>nonce\<close> is the value of \<open>random_nonce\<close>.\<close>

definition create_onion_packet :: "nacl \<Rightarrow> bytes \<Rightarrow> nat \<Rightarrow> Onion_Path \<Rightarrow> IP_Port \<Rightarrow> bytes \<Rightarrow> bytes option" where
  "create_onion_packet N nonce max_packet_length path dest data =
     (if 1 + length data + ONION_SEND_1 > max_packet_length \<or> length data = 0 then None
      else
        let step1 = ipport_pack dest @ data
        in case encrypt_data_symmetric N (shared_key3 path) nonce step1 of
             None \<Rightarrow> None
           | Some enc3 \<Rightarrow>
               if length enc3 \<noteq> SIZE_IPPORT + length data + crypto_box_MACBYTES then None
               else
                 let step2 = ipport_pack (ip_port3 path) @ public_key3 path @ enc3
                 in case encrypt_data_symmetric N (shared_key2 path) nonce step2 of
                      None \<Rightarrow> None
                    | Some enc2 \<Rightarrow>
                        if length enc2 \<noteq> SIZE_IPPORT + ONION_SEND_BASE + length data + crypto_box_MACBYTES then None
                        else
                          let step3 = ipport_pack (ip_port2 path) @ public_key2 path @ enc2
                          in case encrypt_data_symmetric N (shared_key1 path) nonce step3 of
                               None \<Rightarrow> None
                             | Some enc1 \<Rightarrow>
                                 if length enc1 \<noteq> SIZE_IPPORT + ONION_SEND_BASE * 2 + length data + crypto_box_MACBYTES then None
                                 else Some ([NET_PACKET_ONION_SEND_INITIAL] @ nonce @ public_key1 path @ enc1))"

definition create_onion_packet_tcp :: "nacl \<Rightarrow> bytes \<Rightarrow> nat \<Rightarrow> Onion_Path \<Rightarrow> IP_Port \<Rightarrow> bytes \<Rightarrow> bytes option" where
  "create_onion_packet_tcp N nonce max_packet_length path dest data =
     (if crypto_box_NONCEBYTES + SIZE_IPPORT + ONION_SEND_BASE * 2 + length data > max_packet_length \<or> length data = 0 then None
      else
        let step1 = ipport_pack dest @ data
        in case encrypt_data_symmetric N (shared_key3 path) nonce step1 of
             None \<Rightarrow> None
           | Some enc3 \<Rightarrow>
               if length enc3 \<noteq> SIZE_IPPORT + length data + crypto_box_MACBYTES then None
               else
                 let step2 = ipport_pack (ip_port3 path) @ public_key3 path @ enc3
                 in case encrypt_data_symmetric N (shared_key2 path) nonce step2 of
                      None \<Rightarrow> None
                    | Some enc2 \<Rightarrow>
                        if length enc2 \<noteq> SIZE_IPPORT + ONION_SEND_BASE + length data + crypto_box_MACBYTES then None
                        else Some (nonce @ ipport_pack (ip_port2 path) @ public_key2 path @ enc2))"

text \<open>The result is whether the return value is \<open>0\<close>.\<close>

definition send_onion_packet :: "onion_env \<Rightarrow> Onion_Path \<Rightarrow> IP_Port \<Rightarrow> bytes \<Rightarrow> bool \<times> onion_event list" where
  "send_onion_packet E path dest data =
     (case create_onion_packet (oe_nacl E) (oe_nonce E) ONION_MAX_PACKET_SIZE path dest data of
        None \<Rightarrow> (False, [])
      | Some packet \<Rightarrow> (oe_send E (ip_port1 path) packet = int (length packet), [OnionSend (ip_port1 path) packet]))"

definition send_onion_response :: "onion_env \<Rightarrow> IP_Port \<Rightarrow> bytes \<Rightarrow> bytes \<Rightarrow> bool \<times> onion_event list" where
  "send_onion_response E dest data ret =
     (if length data > ONION_RESPONSE_MAX_DATA_SIZE \<or> length data = 0 then (False, [])
      else
        let packet = [NET_PACKET_ONION_RECV_3] @ take ONION_RETURN_3 ret @ data
        in (oe_send E dest packet = int (length packet), [OnionSend dest packet]))"

section \<open>Passing packets on\<close>

text \<open>The last step of the handlers: send, and return \<open>0\<close> when the whole packet was sent.\<close>

definition onion_forward :: "onion_env \<Rightarrow> IP_Port \<Rightarrow> bytes \<Rightarrow> int \<times> onion_event list" where
  "onion_forward E send_to data = (if oe_send E send_to data \<noteq> int (length data) then 1 else 0, [OnionSend send_to data])"

text \<open>The encrypted record of the way back: a new nonce and the record sealed with the node's own key.\<close>

definition return_part :: "onion_env \<Rightarrow> Onion \<Rightarrow> bytes \<Rightarrow> bytes option" where
  "return_part E o1 ret_data =
     (case encrypt_data_symmetric (oe_nacl E) (on_symmetric_key o1) (oe_nonce E) ret_data of
        None \<Rightarrow> None
      | Some enc \<Rightarrow> if length enc \<noteq> length ret_data + crypto_box_MACBYTES then None else Some (oe_nonce E @ enc))"

definition onion_send_1 :: "onion_env \<Rightarrow> Onion \<Rightarrow> bytes \<Rightarrow> IP_Port \<Rightarrow> bytes \<Rightarrow> int \<times> onion_event list" where
  "onion_send_1 E o1 plain source nonce =
     (if length plain > ONION_MAX_PACKET_SIZE + SIZE_IPPORT - (1 + crypto_box_NONCEBYTES + ONION_RETURN_1) then (1, [])
      else if length plain \<le> SIZE_IPPORT + ONION_SEND_BASE * 2 then (1, [])
      else case ipport_unpack (oe_stack E) plain False of
             None \<Rightarrow> (1, [])
           | Some send_to \<Rightarrow>
               (case return_part E o1 (ipport_pack source) of
                  None \<Rightarrow> (1, [])
                | Some ret \<Rightarrow> onion_forward E send_to
                    ([NET_PACKET_ONION_SEND_1] @ take crypto_box_NONCEBYTES nonce @ drop SIZE_IPPORT plain @ ret)))"

text \<open>The opening of a layer: the sender's key and the encrypted part follow the nonce.\<close>

definition open_layer :: "onion_env \<Rightarrow> bytes \<Rightarrow> bytes \<Rightarrow> nat \<Rightarrow> bytes option" where
  "open_layer E shared_key packet tail_len =
     (let n = length packet - (1 + crypto_box_NONCEBYTES + crypto_box_PUBLICKEYBYTES + tail_len)
      in case decrypt_data_symmetric (oe_nacl E) shared_key (read_at packet 1 crypto_box_NONCEBYTES)
                (read_at packet (1 + crypto_box_NONCEBYTES + crypto_box_PUBLICKEYBYTES) n) of
           None \<Rightarrow> None
         | Some plain \<Rightarrow> if length plain \<noteq> n - crypto_box_MACBYTES then None else Some plain)"

definition handle_send_initial :: "onion_env \<Rightarrow> Onion \<Rightarrow> IP_Port \<Rightarrow> bytes \<Rightarrow> int \<times> Onion \<times> onion_event list" where
  "handle_send_initial E o1 source packet =
     (if length packet > ONION_MAX_PACKET_SIZE then (1, o1, [])
      else if length packet \<le> 1 + ONION_SEND_1 then (1, o1, [])
      else
        let o2 = change_symmetric_key E o1;
            (keys, shared_key) = get_shared_key (oe_nacl E) (oe_now E) (on_shared_keys_1 o2) (on_secret_key o2)
              (read_at packet (1 + crypto_box_NONCEBYTES) crypto_box_PUBLICKEYBYTES);
            o3 = o2\<lparr>on_shared_keys_1 := keys\<rparr>
        in case open_layer E shared_key packet 0 of
             None \<Rightarrow> (1, o3, [])
           | Some plain \<Rightarrow>
               let (r, es) = onion_send_1 E o3 plain source (read_at packet 1 crypto_box_NONCEBYTES) in (r, o3, es))"

definition handle_send_1 :: "onion_env \<Rightarrow> Onion \<Rightarrow> IP_Port \<Rightarrow> bytes \<Rightarrow> int \<times> Onion \<times> onion_event list" where
  "handle_send_1 E o1 source packet =
     (if length packet > ONION_MAX_PACKET_SIZE then (1, o1, [])
      else if length packet \<le> 1 + ONION_SEND_2 then (1, o1, [])
      else
        let o2 = change_symmetric_key E o1;
            (keys, shared_key) = get_shared_key (oe_nacl E) (oe_now E) (on_shared_keys_2 o2) (on_secret_key o2)
              (read_at packet (1 + crypto_box_NONCEBYTES) crypto_box_PUBLICKEYBYTES);
            o3 = o2\<lparr>on_shared_keys_2 := keys\<rparr>
        in case open_layer E shared_key packet ONION_RETURN_1 of
             None \<Rightarrow> (1, o3, [])
           | Some plain \<Rightarrow>
               (case ipport_unpack (oe_stack E) plain False of
                  None \<Rightarrow> (1, o3, [])
                | Some send_to \<Rightarrow>
                    (case return_part E o3 (ipport_pack source @ drop (length packet - ONION_RETURN_1) packet) of
                       None \<Rightarrow> (1, o3, [])
                     | Some ret \<Rightarrow>
                         let (r, es) = onion_forward E send_to
                               ([NET_PACKET_ONION_SEND_2] @ read_at packet 1 crypto_box_NONCEBYTES @ drop SIZE_IPPORT plain @ ret)
                         in (r, o3, es))))"

definition handle_send_2 :: "onion_env \<Rightarrow> Onion \<Rightarrow> IP_Port \<Rightarrow> bytes \<Rightarrow> int \<times> Onion \<times> onion_event list" where
  "handle_send_2 E o1 source packet =
     (if length packet > ONION_MAX_PACKET_SIZE then (1, o1, [])
      else if length packet \<le> 1 + ONION_SEND_3 then (1, o1, [])
      else
        let o2 = change_symmetric_key E o1;
            (keys, shared_key) = get_shared_key (oe_nacl E) (oe_now E) (on_shared_keys_3 o2) (on_secret_key o2)
              (read_at packet (1 + crypto_box_NONCEBYTES) crypto_box_PUBLICKEYBYTES);
            o3 = o2\<lparr>on_shared_keys_3 := keys\<rparr>
        in case open_layer E shared_key packet ONION_RETURN_2 of
             None \<Rightarrow> (1, o3, [])
           | Some plain \<Rightarrow>
               if length plain \<le> SIZE_IPPORT then (1, o3, [])
               else if plain ! SIZE_IPPORT \<noteq> NET_PACKET_ANNOUNCE_REQUEST \<and> plain ! SIZE_IPPORT \<noteq> NET_PACKET_ONION_DATA_REQUEST
               then (1, o3, [])
               else (case ipport_unpack (oe_stack E) plain False of
                  None \<Rightarrow> (1, o3, [])
                | Some send_to \<Rightarrow>
                    (case return_part E o3 (ipport_pack source @ drop (length packet - ONION_RETURN_2) packet) of
                       None \<Rightarrow> (1, o3, [])
                     | Some ret \<Rightarrow>
                         let (r, es) = onion_forward E send_to (drop SIZE_IPPORT plain @ ret) in (r, o3, es))))"

section \<open>Passing answers back\<close>

text \<open>
  The part that the three handlers share: check the sizes and the kind of answer, and open the record of
  the way back, \<open>ret_len\<close> bytes of the packet, into an address and the rest of the record. The state is
  changed by the time the record is opened.
\<close>

definition open_return :: "onion_env \<Rightarrow> Onion \<Rightarrow> bytes \<Rightarrow> nat \<Rightarrow> bool \<Rightarrow> Onion \<times> (IP_Port \<times> bytes) option" where
  "open_return E o1 packet ret_len disable_family_check =
     (if length packet > ONION_MAX_PACKET_SIZE then (o1, None)
      else if length packet \<le> 1 + ret_len then (o1, None)
      else if packet ! (1 + ret_len) \<noteq> NET_PACKET_ANNOUNCE_RESPONSE \<and> packet ! (1 + ret_len) \<noteq> NET_PACKET_ONION_DATA_RESPONSE
      then (o1, None)
      else
        let o2 = change_symmetric_key E o1
        in (o2, case decrypt_data_symmetric (oe_nacl E) (on_symmetric_key o2) (read_at packet 1 crypto_box_NONCEBYTES)
                       (read_at packet (1 + crypto_box_NONCEBYTES) (ret_len - crypto_box_NONCEBYTES)) of
                  None \<Rightarrow> None
                | Some plain \<Rightarrow>
                    if length plain \<noteq> ret_len - crypto_box_NONCEBYTES - crypto_box_MACBYTES then None
                    else case ipport_unpack (oe_stack E) plain disable_family_check of
                           None \<Rightarrow> None
                         | Some send_to \<Rightarrow> Some (send_to, drop SIZE_IPPORT plain)))"

definition handle_recv_3 :: "onion_env \<Rightarrow> Onion \<Rightarrow> IP_Port \<Rightarrow> bytes \<Rightarrow> int \<times> Onion \<times> onion_event list" where
  "handle_recv_3 E o1 source packet =
     (case open_return E o1 packet ONION_RETURN_3 False of
        (o2, None) \<Rightarrow> (1, o2, [])
      | (o2, Some (send_to, rest)) \<Rightarrow>
          let (r, es) = onion_forward E send_to ([NET_PACKET_ONION_RECV_2] @ rest @ drop (1 + ONION_RETURN_3) packet) in (r, o2, es))"

definition handle_recv_2 :: "onion_env \<Rightarrow> Onion \<Rightarrow> IP_Port \<Rightarrow> bytes \<Rightarrow> int \<times> Onion \<times> onion_event list" where
  "handle_recv_2 E o1 source packet =
     (case open_return E o1 packet ONION_RETURN_2 False of
        (o2, None) \<Rightarrow> (1, o2, [])
      | (o2, Some (send_to, rest)) \<Rightarrow>
          let (r, es) = onion_forward E send_to ([NET_PACKET_ONION_RECV_1] @ rest @ drop (1 + ONION_RETURN_2) packet) in (r, o2, es))"

definition handle_recv_1 :: "onion_env \<Rightarrow> Onion \<Rightarrow> IP_Port \<Rightarrow> bytes \<Rightarrow> int \<times> Onion \<times> onion_event list" where
  "handle_recv_1 E o1 source packet =
     (case open_return E o1 packet ONION_RETURN_1 True of
        (o2, None) \<Rightarrow> (1, o2, [])
      | (o2, Some (send_to, rest)) \<Rightarrow>
          let data = drop (1 + ONION_RETURN_1) packet
          in if on_recv_1_set o2 \<and> ip_family (ipp_ip send_to) \<noteq> AF_INET \<and> ip_family (ipp_ip send_to) \<noteq> AF_INET6
             then (oe_recv1 E send_to data, o2, [Recv1Callback send_to data])
             else let (r, es) = onion_forward E send_to data in (r, o2, es))"

definition set_callback_handle_recv_1 :: "Onion \<Rightarrow> bool \<Rightarrow> Onion" where
  "set_callback_handle_recv_1 o1 b = o1\<lparr>on_recv_1_set := b\<rparr>"

definition new_onion :: "onion_env \<Rightarrow> DHT \<Rightarrow> Onion" where
  "new_onion E dht = \<lparr>on_secret_key = self_secret_key dht, on_symmetric_key = oe_key E, on_timestamp = oe_now E,
     on_shared_keys_1 = shared_keys_zero, on_shared_keys_2 = shared_keys_zero, on_shared_keys_3 = shared_keys_zero,
     on_recv_1_set = False\<rparr>"

section \<open>Addresses survive packing\<close>

text \<open>
  The same address for the network code: an IPv4 address is its first four bytes, whatever the rest of
  the union holds.
\<close>

definition same_address :: "IP_Port \<Rightarrow> IP_Port \<Rightarrow> bool" where
  "same_address a b \<longleftrightarrow> ip_family (ipp_ip a) = ip_family (ipp_ip b) \<and> ipp_port a = ipp_port b \<and>
     (if ip_family (ipp_ip a) = AF_INET then take SIZE_IP4 (ip_addr (ipp_ip a)) = take SIZE_IP4 (ip_addr (ipp_ip b))
      else ip_addr (ipp_ip a) = ip_addr (ipp_ip b))"

definition host_address :: "IP_Port \<Rightarrow> bool" where
  "host_address a \<longleftrightarrow> ip_ok (ipp_ip a) \<and> (ip_family (ipp_ip a) = AF_INET \<or> ip_family (ipp_ip a) = AF_INET6)"

lemma length_ipport_pack [simp]: "ip_ok (ipp_ip a) \<Longrightarrow> length (ipport_pack a) = SIZE_IPPORT"
  by (auto simp: ipport_pack_def ip_pack_def to_net_family_def ip_ok_def Let_def)

lemma host_address_ok [simp]: "host_address a \<Longrightarrow> ip_ok (ipp_ip a)"
  by (simp add: host_address_def)

lemma port_bytes: "word_of_nat (be_val (bytes_be 2 (unat p))) = (p::u16)"
proof -
  have "unat p < 256 ^ 2" using unsigned_less [of p] by simp
  then show ?thesis by simp
qed

lemma ipport_unpack_pack:
  assumes "host_address a" and "length old = 16"
  obtains b where "ipport_unpack old (ipport_pack a @ rest) disable = Some b" and "same_address b a"
proof -
  let ?ip = "ipp_ip a"
  have l: "length (ip_pack ?ip) = 17"
    using assms(1) by (auto simp: ip_pack_def to_net_family_def ip_ok_def host_address_def Let_def)
  have port: "read_at (ipport_pack a @ rest) 17 2 = bytes_be 2 (unat (ipp_port a))"
    using l by (simp add: ipport_pack_def read_at_def)
  have ip: "\<exists>b. ip_unpack old (ipport_pack a @ rest) disable = Some b \<and> ip_family b = ip_family ?ip \<and>
      (if ip_family ?ip = AF_INET then take 4 (ip_addr b) = take 4 (ip_addr ?ip) else ip_addr b = ip_addr ?ip)"
  proof (cases "ip_family ?ip = AF_INET")
    case True
    then have "ipport_pack a = [2] @ take 4 (ip_addr ?ip) @ replicate 12 0 @ bytes_be 2 (unat (ipp_port a))"
      by (simp add: ipport_pack_def ip_pack_def to_net_family_def)
    moreover have "length (take 4 (ip_addr ?ip)) = 4" using assms(1) by (simp add: host_address_def ip_ok_def)
    ultimately show ?thesis
      using True assms(2) by (simp add: ip_unpack_def to_host_family_def read_at_def memcpy_at_def Let_def)
  next
    case False
    then have "ip_family ?ip = AF_INET6" "length (ip_addr ?ip) = 16" using assms(1) by (auto simp: host_address_def ip_ok_def)
    moreover from this have "ipport_pack a = [10] @ ip_addr ?ip @ bytes_be 2 (unat (ipp_port a))"
      by (simp add: ipport_pack_def ip_pack_def to_net_family_def)
    ultimately show ?thesis by (simp add: ip_unpack_def to_host_family_def read_at_def Let_def)
  qed
  then obtain b where b: "ip_unpack old (ipport_pack a @ rest) disable = Some b" "ip_family b = ip_family ?ip"
    "if ip_family ?ip = AF_INET then take 4 (ip_addr b) = take 4 (ip_addr ?ip) else ip_addr b = ip_addr ?ip"
    by blast
  show ?thesis
  proof (rule that)
    show "ipport_unpack old (ipport_pack a @ rest) disable = Some \<lparr>ipp_ip = b, ipp_port = ipp_port a\<rparr>"
      using b(1) port assms(1) port_bytes [of "ipp_port a"] by (simp add: ipport_unpack_def del: be_val_bytes_be)
    show "same_address \<lparr>ipp_ip = b, ipp_port = ipp_port a\<rparr> a" using b(2,3) by (simp add: same_address_def)
  qed
qed

section \<open>One hop\<close>

definition onion_ok :: "nacl \<Rightarrow> Onion \<Rightarrow> bool" where
  "onion_ok N o1 \<longleftrightarrow> shared_keys_ok N (on_secret_key o1) (on_shared_keys_1 o1) \<and>
     shared_keys_ok N (on_secret_key o1) (on_shared_keys_2 o1) \<and> shared_keys_ok N (on_secret_key o1) (on_shared_keys_3 o1)"

text \<open>What a node draws has its size, and the network takes what it sends.\<close>

definition onion_env_ok :: "nacl \<Rightarrow> onion_env \<Rightarrow> bool" where
  "onion_env_ok N E \<longleftrightarrow> nacl_ok N \<and> oe_nacl E = N \<and> length (oe_nonce E) = 24 \<and> length (oe_stack E) = 16 \<and>
     (\<forall>a p. oe_send E a p = int (length p))"

text \<open>A record of the way back that opens with a key.\<close>

definition sealed_return :: "nacl \<Rightarrow> bytes \<Rightarrow> bytes \<Rightarrow> bytes \<Rightarrow> bool" where
  "sealed_return N key plain ret \<longleftrightarrow> length ret = length plain + 40 \<and>
     decrypt_data_symmetric N key (take 24 ret) (drop 24 ret) = Some plain"

lemma change_symmetric_key_simps [simp]:
  "on_secret_key (change_symmetric_key E o1) = on_secret_key o1"
  "on_shared_keys_1 (change_symmetric_key E o1) = on_shared_keys_1 o1"
  "on_shared_keys_2 (change_symmetric_key E o1) = on_shared_keys_2 o1"
  "on_shared_keys_3 (change_symmetric_key E o1) = on_shared_keys_3 o1"
  "on_recv_1_set (change_symmetric_key E o1) = on_recv_1_set o1"
  by (simp_all add: change_symmetric_key_def)

lemma onion_forward_ok: "onion_env_ok N E \<Longrightarrow> onion_forward E a p = (0, [OnionSend a p])"
  by (simp add: onion_env_ok_def onion_forward_def)

lemma return_part_Some:
  assumes "onion_env_ok N E" and "plain \<noteq> []"
  obtains ret where "return_part E o1 plain = Some ret" and "sealed_return N (on_symmetric_key o1) plain ret"
proof (rule encrypt_symmetric_Some)
  show "nacl_ok N" "plain \<noteq> []" using assms by (simp_all add: onion_env_ok_def)
  fix e assume "encrypt_data_symmetric N (on_symmetric_key o1) (oe_nonce E) plain = Some e"
    "length e = length plain + 16" "decrypt_data_symmetric N (on_symmetric_key o1) (oe_nonce E) e = Some plain"
  then show thesis
    using assms by (intro that [of "oe_nonce E @ e"]) (simp_all add: return_part_def onion_env_ok_def sealed_return_def)
qed

text \<open>A layer: the packet's nonce, a public key, what is sealed for the node, and what follows it.\<close>

lemma open_layer_Some:
  assumes E: "onion_env_ok N E" and len: "length nonce = 24" "length pk = 32"
    and dec: "decrypt_data_symmetric N k nonce enc = Some plain"
  shows "open_layer E k ([t] @ nonce @ pk @ enc @ tl1) (length tl1) = Some plain"
proof -
  let ?p = "[t] @ nonce @ pk @ enc @ tl1"
  have "length enc = length plain + 16" using decrypt_symmetric_length [OF _ dec] E by (simp add: onion_env_ok_def)
  moreover from this have "read_at ?p 1 24 = nonce" "read_at ?p 57 (16 + length plain) = enc"
    using len by (simp_all add: read_at_def)
  ultimately show ?thesis
    using dec len E by (simp add: open_layer_def onion_env_ok_def Let_def)
qed

lemma read_key: "length nonce = 24 \<Longrightarrow> length pk = 32 \<Longrightarrow> read_at ([t] @ nonce @ pk @ rest) 25 32 = pk"
  and read_nonce: "length nonce = 24 \<Longrightarrow> read_at ([t] @ nonce @ rest) 1 24 = nonce"
  by (simp_all add: read_at_def)

lemma handle_send_initial_forwards:
  assumes E: "onion_env_ok N E" and ok: "onion_ok N o1" and len: "length nonce = 24" "length pk = 32"
    and dec: "decrypt_data_symmetric N (encrypt_precompute N pk (on_secret_key o1)) nonce enc = Some (ipport_pack dest @ rest)"
    and host: "host_address dest" "host_address source" and size: "134 < length rest" "length rest \<le> 1308"
  obtains o2 a ret where
    "handle_send_initial E o1 source ([t] @ nonce @ pk @ enc) = (0, o2, [OnionSend a ([129] @ nonce @ rest @ ret)])"
    and "same_address a dest" and "length ret = ONION_RETURN_1"
proof -
  let ?p = "[t] @ nonce @ pk @ enc" and ?o2 = "change_symmetric_key E o1"
  have N: "nacl_ok N" "oe_nacl E = N" "length (oe_stack E) = 16" using E by (simp_all add: onion_env_ok_def)
  obtain keys where keys: "get_shared_key N (oe_now E) (on_shared_keys_1 o1) (on_secret_key o1) pk =
      (keys, encrypt_precompute N pk (on_secret_key o1))"
    using get_shared_key_value [of N "on_secret_key o1" "on_shared_keys_1 o1" pk] ok len by (auto simp: onion_ok_def)
  let ?o3 = "?o2\<lparr>on_shared_keys_1 := keys\<rparr>"
  obtain a where a: "ipport_unpack (oe_stack E) (ipport_pack dest @ rest) False = Some a" "same_address a dest"
    using ipport_unpack_pack [OF host(1) N(3)] by metis
  have "ipport_pack source \<noteq> []" using host(2) by (metis host_address_ok length_ipport_pack list.size(3) zero_neq_numeral)
  from return_part_Some [OF E this]
  obtain ret where ret: "return_part E ?o3 (ipport_pack source) = Some ret"
    "sealed_return N (on_symmetric_key ?o3) (ipport_pack source) ret" by metis
  have "length enc = length rest + 35" using decrypt_symmetric_length [OF N(1) dec] host by simp
  then have "handle_send_initial E o1 source ?p = (0, ?o3, [OnionSend a ([129] @ nonce @ rest @ ret)])"
    using open_layer_Some [OF E len dec, of t "[]"] keys a(1) ret(1) len N size host onion_forward_ok [OF E]
    by (simp add: handle_send_initial_def read_key [simplified] read_nonce [simplified] onion_send_1_def Let_def)
  moreover have "length ret = ONION_RETURN_1" using ret(2) host(2) by (simp add: sealed_return_def)
  ultimately show ?thesis using a(2) by (intro that)
qed

lemma drop_tail: "length t = n \<Longrightarrow> drop (length (a @ b @ c @ d @ t) - n) (a @ b @ c @ d @ t) = t"
  by simp

lemma ipport_pack_not_Nil: "host_address a \<Longrightarrow> ipport_pack a @ xs \<noteq> []"
  by (metis append_is_Nil_conv host_address_ok length_ipport_pack list.size(3) zero_neq_numeral)

lemma handle_send_1_forwards:
  assumes E: "onion_env_ok N E" and ok: "onion_ok N o1" and len: "length nonce = 24" "length pk = 32" "length tl1 = 59"
    and dec: "decrypt_data_symmetric N (encrypt_precompute N pk (on_secret_key o1)) nonce enc = Some (ipport_pack dest @ rest)"
    and host: "host_address dest" "host_address source" and size: "67 < length rest" "length rest \<le> 1241"
  obtains o2 a ret where
    "handle_send_1 E o1 source ([t] @ nonce @ pk @ enc @ tl1) = (0, o2, [OnionSend a ([130] @ nonce @ rest @ ret)])"
    and "same_address a dest" and "length ret = ONION_RETURN_2"
proof -
  let ?p = "[t] @ nonce @ pk @ enc @ tl1" and ?o2 = "change_symmetric_key E o1"
  have N: "nacl_ok N" "oe_nacl E = N" "length (oe_stack E) = 16" using E by (simp_all add: onion_env_ok_def)
  obtain keys where keys: "get_shared_key N (oe_now E) (on_shared_keys_2 o1) (on_secret_key o1) pk =
      (keys, encrypt_precompute N pk (on_secret_key o1))"
    using get_shared_key_value [of N "on_secret_key o1" "on_shared_keys_2 o1" pk] ok len by (auto simp: onion_ok_def)
  let ?o3 = "?o2\<lparr>on_shared_keys_2 := keys\<rparr>"
  obtain a where a: "ipport_unpack (oe_stack E) (ipport_pack dest @ rest) False = Some a" "same_address a dest"
    using ipport_unpack_pack [OF host(1) N(3)] by metis
  obtain ret where ret: "return_part E ?o3 (ipport_pack source @ tl1) = Some ret"
    "sealed_return N (on_symmetric_key ?o3) (ipport_pack source @ tl1) ret"
    using return_part_Some [OF E ipport_pack_not_Nil [OF host(2)]] by metis
  have l: "length enc = length rest + 35" using decrypt_symmetric_length [OF N(1) dec] host by simp
  have "drop (length ?p - 59) ?p = tl1" using len by (intro drop_tail)
  then have "handle_send_1 E o1 source ?p = (0, ?o3, [OnionSend a ([130] @ nonce @ rest @ ret)])"
    using open_layer_Some [OF E len(1,2) dec, of t tl1] keys a(1) ret(1) len N size host onion_forward_ok [OF E] l
    by (simp add: handle_send_1_def read_key [simplified] read_nonce [simplified] Let_def)
  moreover have "length ret = ONION_RETURN_2" using ret(2) host(2) len by (simp add: sealed_return_def)
  ultimately show ?thesis using a(2) by (intro that)
qed

lemma handle_send_2_forwards:
  assumes E: "onion_env_ok N E" and ok: "onion_ok N o1" and len: "length nonce = 24" "length pk = 32" "length tl1 = 118"
    and dec: "decrypt_data_symmetric N (encrypt_precompute N pk (on_secret_key o1)) nonce enc = Some (ipport_pack dest @ rest)"
    and host: "host_address dest" "host_address source" and size: "0 < length rest" "length rest \<le> 1174"
    and kind: "rest ! 0 = NET_PACKET_ANNOUNCE_REQUEST \<or> rest ! 0 = NET_PACKET_ONION_DATA_REQUEST"
  obtains o2 a ret where
    "handle_send_2 E o1 source ([t] @ nonce @ pk @ enc @ tl1) = (0, o2, [OnionSend a (rest @ ret)])"
    and "same_address a dest" and "length ret = ONION_RETURN_3"
proof -
  let ?p = "[t] @ nonce @ pk @ enc @ tl1" and ?o2 = "change_symmetric_key E o1"
  have N: "nacl_ok N" "oe_nacl E = N" "length (oe_stack E) = 16" using E by (simp_all add: onion_env_ok_def)
  obtain keys where keys: "get_shared_key N (oe_now E) (on_shared_keys_3 o1) (on_secret_key o1) pk =
      (keys, encrypt_precompute N pk (on_secret_key o1))"
    using get_shared_key_value [of N "on_secret_key o1" "on_shared_keys_3 o1" pk] ok len by (auto simp: onion_ok_def)
  let ?o3 = "?o2\<lparr>on_shared_keys_3 := keys\<rparr>"
  obtain a where a: "ipport_unpack (oe_stack E) (ipport_pack dest @ rest) False = Some a" "same_address a dest"
    using ipport_unpack_pack [OF host(1) N(3)] by metis
  obtain ret where ret: "return_part E ?o3 (ipport_pack source @ tl1) = Some ret"
    "sealed_return N (on_symmetric_key ?o3) (ipport_pack source @ tl1) ret"
    using return_part_Some [OF E ipport_pack_not_Nil [OF host(2)]] by metis
  have l: "length enc = length rest + 35" using decrypt_symmetric_length [OF N(1) dec] host by simp
  have k: "(ipport_pack dest @ rest) ! 19 = rest ! 0" using host by (simp add: nth_append)
  have "drop (length ?p - 118) ?p = tl1" using len by (intro drop_tail)
  then have "handle_send_2 E o1 source ?p = (0, ?o3, [OnionSend a (rest @ ret)])"
    using open_layer_Some [OF E len(1,2) dec, of t tl1] keys a(1) ret(1) len N size host onion_forward_ok [OF E] l k kind
    by (simp add: handle_send_2_def read_key [simplified] read_nonce [simplified] Let_def)
  moreover have "length ret = ONION_RETURN_3" using ret(2) host(2) len by (simp add: sealed_return_def)
  ultimately show ?thesis using a(2) by (intro that)
qed

section \<open>The way back\<close>

text \<open>What a node that passed a packet on put at its end.\<close>

lemma return_part_sealed:
  assumes "onion_env_ok N E" and "host_address a" and "return_part E o1 (ipport_pack a @ xs) = Some ret"
  shows "sealed_return N (on_symmetric_key o1) (ipport_pack a @ xs) ret"
  using return_part_Some [OF assms(1) ipport_pack_not_Nil [OF assms(2)]] assms(3) by (metis option.inject)

lemma handle_send_initial_return:
  assumes h: "handle_send_initial E o1 source packet = (0, o2, [OnionSend a p])"
  shows "\<exists>ret. return_part E o2 (ipport_pack source @ []) = Some ret \<and> suffix ret p"
proof -
  obtain keys plain where "o2 = (change_symmetric_key E o1)\<lparr>on_shared_keys_1 := keys\<rparr>"
    "onion_send_1 E o2 plain source (read_at packet 1 24) = (0, [OnionSend a p])"
    using h by (auto simp: handle_send_initial_def Let_def split: if_splits option.splits prod.splits)
  then show ?thesis
    by (auto simp: onion_send_1_def onion_forward_def split: if_splits option.splits intro!: suffix_ConsI suffix_appendI)
qed

lemma handle_send_1_return:
  assumes h: "handle_send_1 E o1 source packet = (0, o2, [OnionSend a p])"
  shows "\<exists>ret. return_part E o2 (ipport_pack source @ drop (length packet - 59) packet) = Some ret \<and> suffix ret p"
    and "59 \<le> length packet"
  using h by (auto simp: handle_send_1_def onion_forward_def Let_def split: if_splits option.splits prod.splits
      intro!: suffix_ConsI suffix_appendI)

lemma handle_send_2_return:
  assumes h: "handle_send_2 E o1 source packet = (0, o2, [OnionSend a p])"
  shows "\<exists>ret. return_part E o2 (ipport_pack source @ drop (length packet - 118) packet) = Some ret \<and> suffix ret p"
    and "118 \<le> length packet"
  using h by (auto simp: handle_send_2_def onion_forward_def Let_def split: if_splits option.splits prod.splits
      intro!: suffix_ConsI suffix_appendI)

lemma open_return_Some:
  assumes F: "onion_env_ok N F" and sealed: "sealed_return N (on_symmetric_key w) (ipport_pack a @ rest) ret"
    and host: "host_address a" and key: "\<not> is_timeout (oe_now F) (on_timestamp w) KEY_REFRESH_INTERVAL"
    and resp: "response ! 0 = NET_PACKET_ANNOUNCE_RESPONSE \<or> response ! 0 = NET_PACKET_ONION_DATA_RESPONSE"
      "0 < length response" "1 + length ret + length response \<le> ONION_MAX_PACKET_SIZE"
  obtains b where "open_return F w ([t] @ ret @ response) (length ret) disable = (w, Some (b, rest))"
    and "same_address b a"
proof -
  let ?p = "[t] @ ret @ response"
  have F': "oe_nacl F = N" "length (oe_stack F) = 16" using F by (simp_all add: onion_env_ok_def)
  obtain b where b: "ipport_unpack (oe_stack F) (ipport_pack a @ rest) disable = Some b" "same_address b a"
    using ipport_unpack_pack [OF host F'(2)] by metis
  have n: "length ret = 59 + length rest" using sealed host by (simp add: sealed_return_def)
  have c: "?p ! (1 + length ret) = response ! 0" by (simp add: nth_append)
  have dec: "decrypt_data_symmetric (oe_nacl F) (on_symmetric_key w) (read_at ?p 1 24) (read_at ?p 25 (length ret - 24)) =
      Some (ipport_pack a @ rest)"
    using sealed n F'(1) by (simp add: sealed_return_def read_at_def)
  have "change_symmetric_key F w = w" using key by (simp add: change_symmetric_key_def)
  then have "open_return F w ?p (length ret) disable = (w, Some (b, rest))"
    unfolding open_return_def c using b(1) resp n host dec by (simp add: Let_def)
  with b(2) show ?thesis by (intro that)
qed

lemma suffix_drop: "suffix ret p \<Longrightarrow> drop (length p - length ret) p = ret"
  by (auto simp: suffix_def)

lemma encrypt_packed:
  assumes "nacl_ok N" and "host_address a"
  obtains e where "encrypt_data_symmetric N k nonce (ipport_pack a @ xs) = Some e" and "length e = 35 + length xs"
    and "decrypt_data_symmetric N k nonce e = Some (ipport_pack a @ xs)"
proof (rule encrypt_symmetric_Some [OF assms(1) ipport_pack_not_Nil [OF assms(2)]])
  fix e assume "encrypt_data_symmetric N k nonce (ipport_pack a @ xs) = Some e"
    "length e = length (ipport_pack a @ xs) + 16" "decrypt_data_symmetric N k nonce e = Some (ipport_pack a @ xs)"
  then show thesis using assms(2) by (intro that) simp_all
qed

text \<open>The three hops together.\<close>

lemma onion_path_delivers:
  assumes env: "onion_env_ok N E1" "onion_env_ok N E2" "onion_env_ok N E3"
    and nodes: "onion_ok N o1" "onion_ok N o2" "onion_ok N o3"
    and keys: "keys_agree N (self_public_key dht) (self_secret_key dht) (nf_public_key n1) (on_secret_key o1)"
      "keys_agree N (fst kp2) (snd kp2) (nf_public_key n2) (on_secret_key o2)"
      "keys_agree N (fst kp3) (snd kp3) (nf_public_key n3) (on_secret_key o3)"
    and len: "length (self_public_key dht) = 32" "length (fst kp2) = 32" "length (fst kp3) = 32" "length nonce = 24"
    and host: "list_all host_address [source, s1, s2, nf_ip_port n2, nf_ip_port n3, dest]"
    and data: "0 < length data" "length data \<le> ONION_MAX_DATA_SIZE"
      "data ! 0 = NET_PACKET_ANNOUNCE_REQUEST \<or> data ! 0 = NET_PACKET_ONION_DATA_REQUEST"
  shows "\<exists>p0 q1 a1 p1 q2 a2 p2 q3 a3 ret.
    create_onion_packet N nonce ONION_MAX_PACKET_SIZE (create_onion_path N kp2 kp3 dht [n1, n2, n3]) dest data = Some p0 \<and>
    handle_send_initial E1 o1 source p0 = (0, q1, [OnionSend a1 p1]) \<and> same_address a1 (nf_ip_port n2) \<and>
    handle_send_1 E2 o2 s1 p1 = (0, q2, [OnionSend a2 p2]) \<and> same_address a2 (nf_ip_port n3) \<and>
    handle_send_2 E3 o3 s2 p2 = (0, q3, [OnionSend a3 (data @ ret)]) \<and> same_address a3 dest \<and>
    length ret = ONION_RETURN_3"
proof -
  let ?path = "create_onion_path N kp2 kp3 dht [n1, n2, n3]"
  let ?k1 = "encrypt_precompute N (self_public_key dht) (on_secret_key o1)"
  let ?k2 = "encrypt_precompute N (fst kp2) (on_secret_key o2)" and ?k3 = "encrypt_precompute N (fst kp3) (on_secret_key o3)"
  have N: "nacl_ok N" using env by (simp add: onion_env_ok_def)
  have h: "host_address source" "host_address s1" "host_address s2" "host_address (nf_ip_port n2)"
    "host_address (nf_ip_port n3)" "host_address dest" using host by simp_all
  have k: "shared_key1 ?path = ?k1" "shared_key2 ?path = ?k2" "shared_key3 ?path = ?k3"
    using keys by (simp_all add: create_onion_path_def encrypt_precompute_def keys_agree_def)
  obtain e3 where e3: "encrypt_data_symmetric N ?k3 nonce (ipport_pack dest @ data) = Some e3" "length e3 = 35 + length data"
    "decrypt_data_symmetric N ?k3 nonce e3 = Some (ipport_pack dest @ data)"
    using encrypt_packed [OF N h(6)] by blast
  let ?s2 = "fst kp3 @ e3"
  obtain e2 where e2: "encrypt_data_symmetric N ?k2 nonce (ipport_pack (nf_ip_port n3) @ ?s2) = Some e2"
    "length e2 = 35 + length ?s2" "decrypt_data_symmetric N ?k2 nonce e2 = Some (ipport_pack (nf_ip_port n3) @ ?s2)"
    using encrypt_packed [OF N h(5)] by blast
  let ?s1 = "fst kp2 @ e2"
  obtain e1 where e1: "encrypt_data_symmetric N ?k1 nonce (ipport_pack (nf_ip_port n2) @ ?s1) = Some e1"
    "length e1 = 35 + length ?s1" "decrypt_data_symmetric N ?k1 nonce e1 = Some (ipport_pack (nf_ip_port n2) @ ?s1)"
    using encrypt_packed [OF N h(4)] by blast
  let ?p0 = "[128] @ nonce @ self_public_key dht @ e1"
  have "create_onion_packet N nonce 1400 ?path dest data = Some ?p0"
    using e1(1,2) e2(1,2) e3(1,2) data len k
    by (simp add: create_onion_packet_def create_onion_path_def del: append_assoc)
  moreover obtain q1 a1 r1 where
    "handle_send_initial E1 o1 source ?p0 = (0, q1, [OnionSend a1 ([129] @ nonce @ ?s1 @ r1)])"
    "same_address a1 (nf_ip_port n2)" and r1: "length r1 = 59"
    using handle_send_initial_forwards [OF env(1) nodes(1) len(4,1) e1(3) h(4,1), of 128] e2(2) e3(2) len data by auto
  moreover obtain q2 a2 r2 where
    "handle_send_1 E2 o2 s1 ([129] @ nonce @ fst kp2 @ e2 @ r1) = (0, q2, [OnionSend a2 ([130] @ nonce @ ?s2 @ r2)])"
    "same_address a2 (nf_ip_port n3)" and r2: "length r2 = 118"
    using handle_send_1_forwards [OF env(2) nodes(2) len(4,2) r1 e2(3) h(5,2), of 129] e3(2) len data by auto
  moreover obtain q3 a3 r3 where
    "handle_send_2 E3 o3 s2 ([130] @ nonce @ fst kp3 @ e3 @ r2) = (0, q3, [OnionSend a3 (data @ r3)])"
    "same_address a3 dest" "length r3 = 177"
    using handle_send_2_forwards [OF env(3) nodes(3) len(4,3) r2 e3(3) h(6,3) data, of 130] by blast
  ultimately show ?thesis by (simp add: append.assoc)
qed

section \<open>Properties\<close>

text \<open>
  C18. A packet made for a path reaches its destination: the first node passes it to the second, the
  second to the third and the third hands the data to the destination, followed by 177 bytes that
  record the way back. The nodes are those whose keys the path was made with; the data is an announce
  or data request of at most \<open>ONION_MAX_DATA_SIZE\<close> bytes.
\<close>

theorem onion_packet_delivered:
  assumes "onion_env_ok N E1" "onion_env_ok N E2" "onion_env_ok N E3"
    and "onion_ok N o1" "onion_ok N o2" "onion_ok N o3"
    and "keys_agree N (self_public_key dht) (self_secret_key dht) (nf_public_key n1) (on_secret_key o1)"
      "keys_agree N (fst kp2) (snd kp2) (nf_public_key n2) (on_secret_key o2)"
      "keys_agree N (fst kp3) (snd kp3) (nf_public_key n3) (on_secret_key o3)"
    and "length (self_public_key dht) = 32" "length (fst kp2) = 32" "length (fst kp3) = 32" "length nonce = 24"
    and "list_all host_address [source, s1, s2, nf_ip_port n2, nf_ip_port n3, dest]"
    and "0 < length data" "length data \<le> ONION_MAX_DATA_SIZE"
      "data ! 0 = NET_PACKET_ANNOUNCE_REQUEST \<or> data ! 0 = NET_PACKET_ONION_DATA_REQUEST"
  shows "\<exists>p0 q1 a1 p1 q2 a2 p2 q3 a3 ret.
    create_onion_packet N nonce ONION_MAX_PACKET_SIZE (create_onion_path N kp2 kp3 dht [n1, n2, n3]) dest data = Some p0 \<and>
    handle_send_initial E1 o1 source p0 = (0, q1, [OnionSend a1 p1]) \<and> same_address a1 (nf_ip_port n2) \<and>
    handle_send_1 E2 o2 s1 p1 = (0, q2, [OnionSend a2 p2]) \<and> same_address a2 (nf_ip_port n3) \<and>
    handle_send_2 E3 o3 s2 p2 = (0, q3, [OnionSend a3 (data @ ret)]) \<and> same_address a3 dest \<and>
    length ret = ONION_RETURN_3"
  using assms by (rule onion_path_delivers)

text \<open>
  C19. An answer finds its way back: when three nodes passed a packet on, the answer that the
  destination sends with the last 177 bytes it got is passed back by the third, the second and the
  first node to where the packet came from. It holds for every answer of at most
  \<open>ONION_RESPONSE_MAX_DATA_SIZE\<close> bytes, as long as no node has changed its symmetric key.
\<close>

theorem onion_response_returns:
  assumes env: "onion_env_ok N E1" "onion_env_ok N E2" "onion_env_ok N E3" "onion_env_ok N D"
      "onion_env_ok N F1" "onion_env_ok N F2" "onion_env_ok N F3"
    and host: "list_all host_address [source, s1, s2]"
    and there: "handle_send_initial E1 o1 source p0 = (0, q1, [OnionSend a1 p1])"
      "handle_send_1 E2 o2 s1 p1 = (0, q2, [OnionSend a2 p2])"
      "handle_send_2 E3 o3 s2 p2 = (0, q3, [OnionSend a3 p3])"
    and later: "on_symmetric_key w1 = on_symmetric_key q1" "on_symmetric_key w2 = on_symmetric_key q2"
      "on_symmetric_key w3 = on_symmetric_key q3"
    and key: "\<not> is_timeout (oe_now F1) (on_timestamp w1) KEY_REFRESH_INTERVAL"
      "\<not> is_timeout (oe_now F2) (on_timestamp w2) KEY_REFRESH_INTERVAL"
      "\<not> is_timeout (oe_now F3) (on_timestamp w3) KEY_REFRESH_INTERVAL"
    and resp: "response ! 0 = NET_PACKET_ANNOUNCE_RESPONSE \<or> response ! 0 = NET_PACKET_ONION_DATA_RESPONSE"
      "0 < length response" "length response \<le> ONION_RESPONSE_MAX_DATA_SIZE"
  shows "\<exists>r3 b2 r2 b1 r1 b0.
    send_onion_response D d response (drop (length p3 - ONION_RETURN_3) p3) = (True, [OnionSend d r3]) \<and>
    handle_recv_3 F3 w3 d3 r3 = (0, w3, [OnionSend b2 r2]) \<and> same_address b2 s2 \<and>
    handle_recv_2 F2 w2 d2 r2 = (0, w2, [OnionSend b1 r1]) \<and> same_address b1 s1 \<and>
    handle_recv_1 F1 w1 d1 r1 = (0, w1, [OnionSend b0 response]) \<and> same_address b0 source"
proof -
  have h: "host_address source" "host_address s1" "host_address s2" using host by simp_all
  obtain t1 where t1: "return_part E1 q1 (ipport_pack source @ []) = Some t1" "suffix t1 p1"
    using handle_send_initial_return [OF there(1)] by blast
  note s1 = return_part_sealed [OF env(1) h(1) t1(1), folded later(1)]
  have l1: "length t1 = 59" using s1 h by (simp add: sealed_return_def)
  obtain t2 where t2: "return_part E2 q2 (ipport_pack s1 @ drop (length p1 - 59) p1) = Some t2" "suffix t2 p2"
    using handle_send_1_return [OF there(2)] by blast
  note s2 = return_part_sealed [OF env(2) h(2) t2(1), folded later(2), unfolded l1 [symmetric] suffix_drop [OF t1(2)]]
  have l2: "length t2 = 118" using s2 h l1 by (simp add: sealed_return_def)
  obtain t3 where t3: "return_part E3 q3 (ipport_pack s2 @ drop (length p2 - 118) p2) = Some t3" "suffix t3 p3"
    using handle_send_2_return [OF there(3)] by blast
  note s3 = return_part_sealed [OF env(3) h(3) t3(1), folded later(3), unfolded l2 [symmetric] suffix_drop [OF t2(2)]]
  have l3: "length t3 = 177" using s3 h l2 by (simp add: sealed_return_def)
  let ?r3 = "[140] @ t3 @ response" and ?r2 = "[141] @ t2 @ response" and ?r1 = "[142] @ t1 @ response"
  have "send_onion_response D d response (drop (length p3 - 177) p3) = (True, [OnionSend d ?r3])"
    using suffix_drop [OF t3(2)] l3 resp env(4) by (simp add: send_onion_response_def onion_env_ok_def)
  moreover obtain b2 where "open_return F3 w3 ?r3 177 False = (w3, Some (b2, t2))" "same_address b2 s2"
    using open_return_Some [OF env(7) s3 h(3) key(3) resp(1,2), of 140 False] l3 resp by auto
  moreover obtain b1 where "open_return F2 w2 ?r2 118 False = (w2, Some (b1, t1))" "same_address b1 s1"
    using open_return_Some [OF env(6) s2 h(2) key(2) resp(1,2), of 141 False] l2 resp by auto
  moreover obtain b0 where b0: "open_return F1 w1 ?r1 59 True = (w1, Some (b0, []))" "same_address b0 source"
    using open_return_Some [OF env(5) s1 h(1) key(1) resp(1,2), of 142 True] l1 resp by auto
  moreover have "ip_family (ipp_ip b0) = AF_INET \<or> ip_family (ipp_ip b0) = AF_INET6"
    using b0(2) h(1) by (auto simp: same_address_def host_address_def)
  ultimately show ?thesis
    using l1 l2 l3 onion_forward_ok [OF env(5)] onion_forward_ok [OF env(6)] onion_forward_ok [OF env(7)]
    by (auto simp: handle_recv_1_def handle_recv_2_def handle_recv_3_def)
qed

text \<open>Three nodes with the keys \<open>k\<close> and the sample primitives, under which equal keys agree.\<close>

definition sample_onion_env :: onion_env where
  "sample_onion_env = \<lparr>oe_now = 100, oe_nacl = nacl_identity, oe_nonce = replicate 24 5, oe_key = replicate 32 6,
     oe_send = (\<lambda>a p. int (length p)), oe_recv1 = (\<lambda>a p. 0), oe_stack = replicate 16 9\<rparr>"

definition sample_onion :: "u8 \<Rightarrow> Onion" where
  "sample_onion k = new_onion sample_onion_env (sample_dht\<lparr>self_public_key := replicate 32 k, self_secret_key := replicate 32 k\<rparr>)"

definition sample_address :: "u8 \<Rightarrow> IP_Port" where
  "sample_address k = \<lparr>ipp_ip = \<lparr>ip_family = AF_INET, ip_addr = [k, 0, 0, k] @ replicate 12 0\<rparr>, ipp_port = 33445\<rparr>"

definition sample_onion_node :: "u8 \<Rightarrow> Node_format" where
  "sample_onion_node k = \<lparr>nf_public_key = replicate 32 k, nf_ip_port = sample_address k\<rparr>"

lemma sample_onion_env_ok: "onion_env_ok nacl_identity sample_onion_env"
  by (simp add: onion_env_ok_def sample_onion_env_def nacl_identity_ok)

lemma sample_onion_ok: "onion_ok nacl_identity (sample_onion k)"
  by (simp add: onion_ok_def sample_onion_def new_onion_def shared_keys_zero_ok)

lemma sample_address_host: "host_address (sample_address k)"
  by (simp add: host_address_def sample_address_def ip_ok_def)

lemma equal_keys_agree: "keys_agree nacl_identity (replicate 32 j) (replicate 32 j) (replicate 32 k) (replicate 32 k)"
  by (simp add: keys_agree_def nacl_identity_def zip_replicate xor.commute)

theorem onion_packet_delivered_witness:
  "\<exists>p0 q1 a1 p1 q2 a2 p2 q3 a3 ret.
    create_onion_packet nacl_identity (replicate 24 8) 1400
      (create_onion_path nacl_identity (replicate 32 11, replicate 32 11) (replicate 32 12, replicate 32 12)
         (sample_dht\<lparr>self_public_key := replicate 32 10, self_secret_key := replicate 32 10\<rparr>)
         [sample_onion_node 1, sample_onion_node 2, sample_onion_node 3]) (sample_address 4) [131, 7] = Some p0 \<and>
    handle_send_initial sample_onion_env (sample_onion 1) (sample_address 10) p0 = (0, q1, [OnionSend a1 p1]) \<and>
    same_address a1 (nf_ip_port (sample_onion_node 2)) \<and>
    handle_send_1 sample_onion_env (sample_onion 2) (sample_address 1) p1 = (0, q2, [OnionSend a2 p2]) \<and>
    same_address a2 (nf_ip_port (sample_onion_node 3)) \<and>
    handle_send_2 sample_onion_env (sample_onion 3) (sample_address 2) p2 = (0, q3, [OnionSend a3 ([131, 7] @ ret)]) \<and>
    same_address a3 (sample_address 4) \<and> length ret = 177"
  by (rule onion_packet_delivered [OF sample_onion_env_ok sample_onion_env_ok sample_onion_env_ok
      sample_onion_ok sample_onion_ok sample_onion_ok])
    (simp_all add: sample_onion_node_def sample_address_host sample_onion_def new_onion_def equal_keys_agree)

lemma sample_chain:
  obtains p0 q1 a1 p1 q2 a2 p2 q3 a3 p3 where
    "handle_send_initial sample_onion_env (sample_onion 1) (sample_address 10) p0 = (0, q1, [OnionSend a1 p1])"
    "handle_send_1 sample_onion_env (sample_onion 2) (sample_address 1) p1 = (0, q2, [OnionSend a2 p2])"
    "handle_send_2 sample_onion_env (sample_onion 3) (sample_address 2) p2 = (0, q3, [OnionSend a3 p3])"
proof -
  let ?dht = "sample_dht\<lparr>self_public_key := replicate 32 10, self_secret_key := replicate 32 10\<rparr>"
  note e = sample_onion_env_ok
  have sk: "on_secret_key (sample_onion k) = replicate 32 k" for k by (simp add: sample_onion_def new_onion_def)
  have "\<exists>p0 q1 a1 p1 q2 a2 p2 q3 a3 ret.
    create_onion_packet nacl_identity (replicate 24 8) 1400 (create_onion_path nacl_identity (replicate 32 11, replicate 32 11)
      (replicate 32 12, replicate 32 12) ?dht [sample_onion_node 1, sample_onion_node 2, sample_onion_node 3]) (sample_address 4) [131] = Some p0 \<and>
    handle_send_initial sample_onion_env (sample_onion 1) (sample_address 10) p0 = (0, q1, [OnionSend a1 p1]) \<and>
    same_address a1 (nf_ip_port (sample_onion_node 2)) \<and>
    handle_send_1 sample_onion_env (sample_onion 2) (sample_address 1) p1 = (0, q2, [OnionSend a2 p2]) \<and>
    same_address a2 (nf_ip_port (sample_onion_node 3)) \<and>
    handle_send_2 sample_onion_env (sample_onion 3) (sample_address 2) p2 = (0, q3, [OnionSend a3 ([131] @ ret)]) \<and>
    same_address a3 (sample_address 4) \<and> length ret = 177"
    by (rule onion_path_delivers [OF e e e sample_onion_ok sample_onion_ok sample_onion_ok])
      (simp_all add: sk sample_onion_node_def sample_address_host equal_keys_agree)
  then show ?thesis by (elim exE conjE) (rule that)
qed

theorem onion_response_returns_witness:
  "\<exists>p0 q1 a1 p1 q2 a2 p2 q3 a3 p3 r3 b2 r2 b1 r1 b0.
    handle_send_initial sample_onion_env (sample_onion 1) (sample_address 10) p0 = (0, q1, [OnionSend a1 p1]) \<and>
    handle_send_1 sample_onion_env (sample_onion 2) (sample_address 1) p1 = (0, q2, [OnionSend a2 p2]) \<and>
    handle_send_2 sample_onion_env (sample_onion 3) (sample_address 2) p2 = (0, q3, [OnionSend a3 p3]) \<and>
    send_onion_response sample_onion_env (sample_address 3) [132, 1] (drop (length p3 - 177) p3) =
      (True, [OnionSend (sample_address 3) r3]) \<and>
    handle_recv_3 sample_onion_env (q3\<lparr>on_timestamp := 100\<rparr>) (sample_address 4) r3 = (0, q3\<lparr>on_timestamp := 100\<rparr>, [OnionSend b2 r2]) \<and>
    handle_recv_2 sample_onion_env (q2\<lparr>on_timestamp := 100\<rparr>) (sample_address 3) r2 = (0, q2\<lparr>on_timestamp := 100\<rparr>, [OnionSend b1 r1]) \<and>
    handle_recv_1 sample_onion_env (q1\<lparr>on_timestamp := 100\<rparr>) (sample_address 2) r1 = (0, q1\<lparr>on_timestamp := 100\<rparr>, [OnionSend b0 [132, 1]]) \<and>
    same_address b0 (sample_address 10)"
proof -
  obtain p0 q1 a1 p1 q2 a2 p2 q3 a3 p3 where there:
    "handle_send_initial sample_onion_env (sample_onion 1) (sample_address 10) p0 = (0, q1, [OnionSend a1 p1])"
    "handle_send_1 sample_onion_env (sample_onion 2) (sample_address 1) p1 = (0, q2, [OnionSend a2 p2])"
    "handle_send_2 sample_onion_env (sample_onion 3) (sample_address 2) p2 = (0, q3, [OnionSend a3 p3])"
    by (rule sample_chain)
  note e = sample_onion_env_ok
  have "list_all host_address [sample_address 10, sample_address 1, sample_address 2]"
    by (simp add: sample_address_host)
  from onion_response_returns [OF e e e e e e e this there, where ?w1.0 = "q1\<lparr>on_timestamp := 100\<rparr>"
      and ?w2.0 = "q2\<lparr>on_timestamp := 100\<rparr>" and ?w3.0 = "q3\<lparr>on_timestamp := 100\<rparr>" and response = "[132, 1]"
      and d = "sample_address 3" and ?d3.0 = "sample_address 4" and ?d2.0 = "sample_address 3" and ?d1.0 = "sample_address 2"]
  show ?thesis using there by (simp add: sample_onion_env_def is_timeout_def) blast
qed

end
