(* ===== verification/Onion_Announce.thy ===== *)
theory Onion_Announce
  imports Onion DHT_Exchange
begin

text \<open>
  Announcing oneself over the onion: \<open>toxcore/onion_announce.c\<close>. A node keeps a list of 160 entries; an
  entry says by which way back the owner of a key is reached. To be listed, the owner returns a ping
  id: a hash of a secret, the time in periods of 20 seconds, its key and the address it is seen under.

  The handlers get the DHT they look nodes up in as an argument, and \<open>announce_env\<close> is the environment
  of the onion with \<open>qsort\<close> and \<open>crypto_hash_sha256\<close>. An index of the list is \<open>None\<close> where the code
  has \<open>-1\<close>.
\<close>

abbreviation (input) "ONION_ANNOUNCE_MAX_ENTRIES \<equiv> (160::nat)"
abbreviation (input) "ONION_ANNOUNCE_TIMEOUT \<equiv> (300::u64)"
abbreviation (input) "PING_ID_TIMEOUT \<equiv> (20::u64)"
abbreviation (input) "ONION_PING_ID_SIZE \<equiv> (32::nat)"
abbreviation (input) "ONION_ANNOUNCE_SENDBACK_DATA_LENGTH \<equiv> (8::nat)"
abbreviation (input) "ONION_ANNOUNCE_REQUEST_SIZE \<equiv> (177::nat)"
abbreviation (input) "ANNOUNCE_REQUEST_SIZE_RECV \<equiv> (354::nat)"
abbreviation (input) "DATA_REQUEST_MIN_SIZE \<equiv> (105::nat)"
abbreviation (input) "DATA_REQUEST_MIN_SIZE_RECV \<equiv> (282::nat)"

section \<open>Data\<close>

record Onion_Announce_Entry =
  ae_public_key :: bytes
  ae_ret_ip_port :: IP_Port
  ae_ret :: bytes
  ae_data_public_key :: bytes
  ae_time :: u64

record Onion_Announce =
  oa_entries :: "Onion_Announce_Entry list"
  oa_secret_bytes :: bytes
  oa_shared_keys_recv :: shared_keys

record announce_env =
  ae_onion :: onion_env
  ae_qsort :: "(Onion_Announce_Entry \<Rightarrow> Onion_Announce_Entry \<Rightarrow> int) \<Rightarrow> Onion_Announce_Entry list \<Rightarrow> Onion_Announce_Entry list"
  ae_sha256 :: "bytes \<Rightarrow> bytes"

section \<open>Requests\<close>

text \<open>\<open>nonce\<close> is the value of \<open>random_nonce\<close>, \<open>kp\<close> the key pair of \<open>crypto_box_keypair\<close>.\<close>

definition create_announce_request :: "nacl \<Rightarrow> bytes \<Rightarrow> nat \<Rightarrow> bytes \<Rightarrow> bytes \<Rightarrow> bytes \<Rightarrow> bytes \<Rightarrow> bytes \<Rightarrow> bytes \<Rightarrow> u64 \<Rightarrow> bytes option" where
  "create_announce_request N nonce max_packet_length dest_client_id public_key secret_key ping_id client_id data_public_key sendback_data =
     (if max_packet_length < ONION_ANNOUNCE_REQUEST_SIZE then None
      else
        let plain = ping_id @ client_id @ data_public_key @ bytes_le 8 (unat sendback_data)
        in case encrypt_data N dest_client_id secret_key nonce plain of
             None \<Rightarrow> None
           | Some enc \<Rightarrow>
               if length enc + 1 + crypto_box_NONCEBYTES + crypto_box_PUBLICKEYBYTES \<noteq> ONION_ANNOUNCE_REQUEST_SIZE then None
               else Some ([NET_PACKET_ANNOUNCE_REQUEST] @ nonce @ public_key @ enc))"

definition create_data_request :: "nacl \<Rightarrow> bytes \<times> bytes \<Rightarrow> nat \<Rightarrow> bytes \<Rightarrow> bytes \<Rightarrow> bytes \<Rightarrow> bytes \<Rightarrow> bytes option" where
  "create_data_request N kp max_packet_length public_key encrypt_public_key nonce data =
     (if DATA_REQUEST_MIN_SIZE + length data > max_packet_length then None
      else if DATA_REQUEST_MIN_SIZE + length data > ONION_MAX_DATA_SIZE then None
      else case encrypt_data N encrypt_public_key (snd kp) nonce data of
             None \<Rightarrow> None
           | Some enc \<Rightarrow>
               if 1 + crypto_box_PUBLICKEYBYTES + crypto_box_NONCEBYTES + crypto_box_PUBLICKEYBYTES + length enc \<noteq>
                    DATA_REQUEST_MIN_SIZE + length data then None
               else Some ([NET_PACKET_ONION_DATA_REQUEST] @ public_key @ nonce @ fst kp @ enc))"

text \<open>\<open>nonce\<close> is drawn for the request, the nonce of the environment for the onion packet.\<close>

definition send_announce_request :: "onion_env \<Rightarrow> bytes \<Rightarrow> Onion_Path \<Rightarrow> Node_format \<Rightarrow> bytes \<Rightarrow> bytes \<Rightarrow> bytes \<Rightarrow> bytes \<Rightarrow> bytes \<Rightarrow> u64 \<Rightarrow>
    bool \<times> onion_event list" where
  "send_announce_request E nonce path dest public_key secret_key ping_id client_id data_public_key sendback_data =
     (case create_announce_request (oe_nacl E) nonce ONION_ANNOUNCE_REQUEST_SIZE (nf_public_key dest) public_key secret_key
             ping_id client_id data_public_key sendback_data of
        None \<Rightarrow> (False, [])
      | Some request \<Rightarrow>
          (case create_onion_packet (oe_nacl E) (oe_nonce E) ONION_MAX_PACKET_SIZE path (nf_ip_port dest) request of
             None \<Rightarrow> (False, [])
           | Some packet \<Rightarrow> (oe_send E (ip_port1 path) packet = int (length packet), [OnionSend (ip_port1 path) packet])))"

definition send_data_request :: "onion_env \<Rightarrow> bytes \<times> bytes \<Rightarrow> Onion_Path \<Rightarrow> IP_Port \<Rightarrow> bytes \<Rightarrow> bytes \<Rightarrow> bytes \<Rightarrow> bytes \<Rightarrow>
    bool \<times> onion_event list" where
  "send_data_request E kp path dest public_key encrypt_public_key nonce data =
     (case create_data_request (oe_nacl E) kp ONION_MAX_DATA_SIZE public_key encrypt_public_key nonce data of
        None \<Rightarrow> (False, [])
      | Some request \<Rightarrow>
          (case create_onion_packet (oe_nacl E) (oe_nonce E) ONION_MAX_PACKET_SIZE path dest request of
             None \<Rightarrow> (False, [])
           | Some packet \<Rightarrow> (oe_send E (ip_port1 path) packet = int (length packet), [OnionSend (ip_port1 path) packet])))"

section \<open>The list of announced keys\<close>

definition generate_ping_id :: "announce_env \<Rightarrow> Onion_Announce \<Rightarrow> u64 \<Rightarrow> bytes \<Rightarrow> IP_Port \<Rightarrow> bytes" where
  "generate_ping_id E oa time public_key ret_ipp =
     ae_sha256 E (oa_secret_bytes oa @ bytes_le 8 (unat (time div PING_ID_TIMEOUT)) @ public_key @ ip_port_image ret_ipp)"

definition in_entries :: "u64 \<Rightarrow> Onion_Announce \<Rightarrow> bytes \<Rightarrow> nat option" where
  "in_entries now oa public_key =
     find (\<lambda>i. \<not> is_timeout now (ae_time (oa_entries oa ! i)) ONION_ANNOUNCE_TIMEOUT \<and>
               memcmp (ae_public_key (oa_entries oa ! i)) public_key = 0)
       [0..<ONION_ANNOUNCE_MAX_ENTRIES]"

definition cmp_entry :: "u64 \<Rightarrow> bytes \<Rightarrow> Onion_Announce_Entry \<Rightarrow> Onion_Announce_Entry \<Rightarrow> int" where
  "cmp_entry now cmp_public_key entry1 entry2 =
     (let t1 = is_timeout now (ae_time entry1) ONION_ANNOUNCE_TIMEOUT;
          t2 = is_timeout now (ae_time entry2) ONION_ANNOUNCE_TIMEOUT
      in if t1 \<and> t2 then 0 else if t1 then - 1 else if t2 then 1
         else
           let close = id_closest cmp_public_key (ae_public_key entry1) (ae_public_key entry2)
           in if close = 1 then 1 else if close = 2 then - 1 else 0)"

text \<open>The position that \<open>add_to_entries\<close> writes to.\<close>

definition entry_position :: "u64 \<Rightarrow> bytes \<Rightarrow> Onion_Announce \<Rightarrow> bytes \<Rightarrow> nat option" where
  "entry_position now self_key oa public_key =
     (case in_entries now oa public_key of
        Some pos \<Rightarrow> Some pos
      | None \<Rightarrow>
          (case fold (\<lambda>i pos. if is_timeout now (ae_time (oa_entries oa ! i)) ONION_ANNOUNCE_TIMEOUT then Some i else pos)
                  [0..<ONION_ANNOUNCE_MAX_ENTRIES] None of
             Some pos \<Rightarrow> Some pos
           | None \<Rightarrow> if id_closest self_key public_key (ae_public_key (oa_entries oa ! 0)) = 1 then Some 0 else None))"

definition add_to_entries :: "announce_env \<Rightarrow> bytes \<Rightarrow> Onion_Announce \<Rightarrow> IP_Port \<Rightarrow> bytes \<Rightarrow> bytes \<Rightarrow> bytes \<Rightarrow>
    nat option \<times> Onion_Announce" where
  "add_to_entries E self_key oa ret_ipp public_key data_public_key ret =
     (let now = oe_now (ae_onion E)
      in case entry_position now self_key oa public_key of
           None \<Rightarrow> (None, oa)
         | Some pos \<Rightarrow>
             let e = \<lparr>ae_public_key = public_key, ae_ret_ip_port = ret_ipp, ae_ret = take ONION_RETURN_3 ret,
                      ae_data_public_key = data_public_key, ae_time = now\<rparr>;
                 oa2 = oa\<lparr>oa_entries := ae_qsort E (cmp_entry now self_key) ((oa_entries oa)[pos := e])\<rparr>
             in (in_entries now oa2 public_key, oa2))"

section \<open>Handlers\<close>

text \<open>The first 33 bytes of the answer: what the list says of the key, and the ping id or the data key.\<close>

definition announce_status :: "Onion_Announce \<Rightarrow> nat option \<Rightarrow> bytes \<Rightarrow> bytes \<Rightarrow> bytes \<Rightarrow> bytes" where
  "announce_status oa index packet_public_key data_public_key ping_id2 =
     (case index of
        None \<Rightarrow> [0] @ ping_id2
      | Some i \<Rightarrow>
          if memcmp (ae_public_key (oa_entries oa ! i)) packet_public_key = 0 then
            if memcmp (ae_data_public_key (oa_entries oa ! i)) data_public_key \<noteq> 0 then [0] @ ping_id2 else [2] @ ping_id2
          else [1] @ ae_data_public_key (oa_entries oa ! i))"

text \<open>The nodes of the answer as \<open>pack_nodes\<close> writes them behind these bytes.\<close>

definition packed_close_nodes :: "Node_format list \<Rightarrow> nat \<Rightarrow> bytes option" where
  "packed_close_nodes nodes_list num_nodes =
     (if num_nodes \<noteq> 0 then
        (case pack_nodes (replicate (SIZEOF_NODE_FORMAT * MAX_SENT_NODES) 0) (SIZEOF_NODE_FORMAT * MAX_SENT_NODES)
                (take num_nodes nodes_list) of
           (buf, Some k) \<Rightarrow> if k = 0 then None else Some (take k buf)
         | (_, None) \<Rightarrow> None)
      else Some [])"

definition handle_announce_request :: "announce_env \<Rightarrow> DHT \<Rightarrow> Onion_Announce \<Rightarrow> IP_Port \<Rightarrow> bytes \<Rightarrow>
    int \<times> Onion_Announce \<times> onion_event list" where
  "handle_announce_request E dht oa source packet =
     (if length packet \<noteq> ANNOUNCE_REQUEST_SIZE_RECV then (1, oa, [])
      else
        let N = oe_nacl (ae_onion E); now = oe_now (ae_onion E);
            packet_public_key = read_at packet (1 + crypto_box_NONCEBYTES) crypto_box_PUBLICKEYBYTES;
            (keys, shared_key) = get_shared_key N now (oa_shared_keys_recv oa) (self_secret_key dht) packet_public_key;
            oa1 = oa\<lparr>oa_shared_keys_recv := keys\<rparr>
        in case decrypt_data_symmetric N shared_key (read_at packet 1 crypto_box_NONCEBYTES)
                  (read_at packet (1 + crypto_box_NONCEBYTES + crypto_box_PUBLICKEYBYTES)
                     (ONION_PING_ID_SIZE + crypto_box_PUBLICKEYBYTES * 2 + ONION_ANNOUNCE_SENDBACK_DATA_LENGTH + crypto_box_MACBYTES)) of
             None \<Rightarrow> (1, oa1, [])
           | Some plain \<Rightarrow>
               if length plain \<noteq> ONION_PING_ID_SIZE + crypto_box_PUBLICKEYBYTES * 2 + ONION_ANNOUNCE_SENDBACK_DATA_LENGTH
               then (1, oa1, [])
               else
                 let ping_id1 = generate_ping_id E oa1 now packet_public_key source;
                     ping_id2 = generate_ping_id E oa1 (now + PING_ID_TIMEOUT) packet_public_key source;
                     client_id = read_at plain ONION_PING_ID_SIZE crypto_box_PUBLICKEYBYTES;
                     data_public_key = read_at plain (ONION_PING_ID_SIZE + crypto_box_PUBLICKEYBYTES) crypto_box_PUBLICKEYBYTES;
                     ret = drop (ANNOUNCE_REQUEST_SIZE_RECV - ONION_RETURN_3) packet;
                     (index, oa2) = (if ping_id1 = take ONION_PING_ID_SIZE plain \<or> ping_id2 = take ONION_PING_ID_SIZE plain
                                     then add_to_entries E (self_public_key dht) oa1 source packet_public_key data_public_key ret
                                     else (in_entries now oa1 client_id, oa1));
                     (nodes_list, num_nodes) = get_close_nodes now (close_clientlist dht) (map client_list (friends_list dht))
                       client_id 0 (LAN_ip (ipp_ip source));
                     status = announce_status oa2 index packet_public_key data_public_key ping_id2
                 in case packed_close_nodes nodes_list num_nodes of
                      None \<Rightarrow> (1, oa2, [])
                    | Some nodes \<Rightarrow>
                        (case encrypt_data_symmetric N shared_key (oe_nonce (ae_onion E)) (status @ nodes) of
                           None \<Rightarrow> (1, oa2, [])
                         | Some enc \<Rightarrow>
                             if length enc \<noteq> 1 + ONION_PING_ID_SIZE + length nodes + crypto_box_MACBYTES then (1, oa2, [])
                             else
                               let (sent, es) = send_onion_response (ae_onion E) source
                                     ([NET_PACKET_ANNOUNCE_RESPONSE] @
                                      read_at plain (ONION_PING_ID_SIZE + crypto_box_PUBLICKEYBYTES * 2) ONION_ANNOUNCE_SENDBACK_DATA_LENGTH @
                                      oe_nonce (ae_onion E) @ enc) ret
                               in (if sent then 0 else 1, oa2, es)))"

definition handle_data_request :: "announce_env \<Rightarrow> Onion_Announce \<Rightarrow> IP_Port \<Rightarrow> bytes \<Rightarrow> int \<times> onion_event list" where
  "handle_data_request E oa source packet =
     (if length packet \<le> DATA_REQUEST_MIN_SIZE_RECV then (1, [])
      else if length packet > ONION_MAX_PACKET_SIZE then (1, [])
      else case in_entries (oe_now (ae_onion E)) oa (read_at packet 1 crypto_box_PUBLICKEYBYTES) of
             None \<Rightarrow> (1, [])
           | Some index \<Rightarrow>
               let (sent, es) = send_onion_response (ae_onion E) (ae_ret_ip_port (oa_entries oa ! index))
                     ([NET_PACKET_ONION_DATA_RESPONSE] @
                      read_at packet (1 + crypto_box_PUBLICKEYBYTES) (length packet - (1 + crypto_box_PUBLICKEYBYTES + ONION_RETURN_3)))
                     (ae_ret (oa_entries oa ! index))
               in (if sent then 0 else 1, es))"

definition new_onion_announce :: "bytes \<Rightarrow> Onion_Announce" where
  "new_onion_announce key =
     \<lparr>oa_entries = replicate ONION_ANNOUNCE_MAX_ENTRIES
        \<lparr>ae_public_key = replicate 32 0, ae_ret_ip_port = ipport_zero, ae_ret = replicate ONION_RETURN_3 0,
         ae_data_public_key = replicate 32 0, ae_time = 0\<rparr>,
      oa_secret_bytes = key, oa_shared_keys_recv = shared_keys_zero\<rparr>"

section \<open>The list: invariant and lookups\<close>

definition live :: "u64 \<Rightarrow> Onion_Announce_Entry \<Rightarrow> bool" where
  "live now e \<longleftrightarrow> \<not> is_timeout now (ae_time e) ONION_ANNOUNCE_TIMEOUT"

definition entry_ok :: "Onion_Announce_Entry \<Rightarrow> bool" where
  "entry_ok e \<longleftrightarrow> length (ae_public_key e) = 32 \<and> length (ae_data_public_key e) = 32 \<and> length (ae_ret e) = ONION_RETURN_3"

text \<open>
  The entries have their sizes, no key has two live entries, and the list is in the order of its last
  sorting: expired entries first, then the live ones with the furthest key first.
\<close>

definition entries_ok :: "u64 \<Rightarrow> bytes \<Rightarrow> Onion_Announce_Entry list \<Rightarrow> bool" where
  "entries_ok now self_key es \<longleftrightarrow> length es = ONION_ANNOUNCE_MAX_ENTRIES \<and> (\<forall>e\<in>set es. entry_ok e) \<and>
     distinct (map ae_public_key (filter (live now) es)) \<and>
     (\<exists>t\<le>now. sorted_wrt (\<lambda>x y. cmp_entry t self_key x y \<le> 0) es)"

lemma live_mono: "live now' e \<Longrightarrow> now \<le> now' \<Longrightarrow> live now e"
  by (auto simp: live_def is_timeout_def)

lemma distinct_map_filter_weaker:
  "distinct (map f (filter P xs)) \<Longrightarrow> (\<And>x. Q x \<Longrightarrow> P x) \<Longrightarrow> distinct (map f (filter Q xs))"
  by (induction xs) (auto split: if_splits)

lemma entries_ok_later: "entries_ok now k es \<Longrightarrow> now \<le> now' \<Longrightarrow> entries_ok now' k es"
  unfolding entries_ok_def using distinct_map_filter_weaker live_mono by (metis order_trans)

text \<open>The comparison is that of numbers: an expired entry is the worst, then the furthest key.\<close>

definition entry_rank :: "u64 \<Rightarrow> bytes \<Rightarrow> Onion_Announce_Entry \<Rightarrow> nat" where
  "entry_rank now self_key e = (if live now e then 256 ^ 32 - key_dist self_key (ae_public_key e) else 0)"

lemma cmp_entry_rank:
  assumes "length self_key = 32" and "entry_ok x" and "entry_ok y"
  shows "cmp_entry now self_key x y =
    (if entry_rank now self_key x < entry_rank now self_key y then - 1
     else if entry_rank now self_key y < entry_rank now self_key x then 1 else 0)"
proof -
  define M :: nat where "M = 256 ^ 32"
  let ?d = "\<lambda>e. key_dist self_key (ae_public_key e)"
  have l: "length (ae_public_key x) = 32" "length (ae_public_key y) = 32" using assms by (simp_all add: entry_ok_def)
  have d: "?d x < M" "?d y < M" using key_dist_bound [OF assms(1)] l by (simp_all add: M_def)
  have c: "id_closest self_key (ae_public_key x) (ae_public_key y) = (if ?d x < ?d y then 1 else if ?d y < ?d x then 2 else 0)"
    using l assms(1) by (intro id_closest_cases) simp_all
  show ?thesis
    unfolding cmp_entry_def entry_rank_def live_def Let_def c M_def [symmetric] using d by auto
qed

lemma cmp_entry_preorder:
  assumes "length self_key = 32" and "\<forall>e\<in>A. entry_ok e"
  shows "cmp_preorder (cmp_entry now self_key) A"
  using assms by (auto simp: cmp_preorder_def cmp_entry_rank)

lemma in_entries_cases:
  assumes "length (oa_entries oa) = 160" and "\<forall>e\<in>set (oa_entries oa). entry_ok e" and "length pk = 32"
  shows "case in_entries now oa pk of
      None \<Rightarrow> \<forall>e\<in>set (oa_entries oa). live now e \<longrightarrow> ae_public_key e \<noteq> pk
    | Some i \<Rightarrow> i < 160 \<and> live now (oa_entries oa ! i) \<and> ae_public_key (oa_entries oa ! i) = pk"
proof -
  have eq: "memcmp (ae_public_key (oa_entries oa ! i)) pk = 0 \<longleftrightarrow> ae_public_key (oa_entries oa ! i) = pk" if "i < 160" for i
    using assms that by (intro memcmp_eq_0_iff) (simp add: entry_ok_def)
  show ?thesis
    using assms(1) eq
    by (auto simp: in_entries_def live_def [symmetric] find_None_iff find_Some_iff in_set_conv_nth split: option.splits)
qed

lemma in_entries_unique:
  assumes "entries_ok now k (oa_entries oa)" and "length pk = 32" and "in_entries now oa pk = Some i"
    and "e \<in> set (oa_entries oa)" and "live now e" and "ae_public_key e = pk"
  shows "oa_entries oa ! i = e"
proof -
  have ok: "length (oa_entries oa) = 160" "\<forall>e\<in>set (oa_entries oa). entry_ok e"
    "inj_on ae_public_key (set (filter (live now) (oa_entries oa)))"
    using assms(1) by (auto simp: entries_ok_def distinct_map)
  have "i < 160" "live now (oa_entries oa ! i)" "ae_public_key (oa_entries oa ! i) = pk"
    using in_entries_cases [OF ok(1,2) assms(2), of now] assms(3) by auto
  then show ?thesis using ok(1,3) assms(4-6) by (auto simp: inj_on_def)
qed

lemma find_entry:
  assumes "entries_ok now k (oa_entries oa)" and "e \<in> set (oa_entries oa)" and "live now e"
  obtains i where "in_entries now oa (ae_public_key e) = Some i" and "i < 160" and "oa_entries oa ! i = e"
proof -
  have ok: "length (oa_entries oa) = 160" "\<forall>e\<in>set (oa_entries oa). entry_ok e" "length (ae_public_key e) = 32"
    using assms(1,2) by (auto simp: entries_ok_def entry_ok_def)
  then obtain i where "in_entries now oa (ae_public_key e) = Some i" "i < 160"
    using in_entries_cases [OF ok, of now] assms(2,3) by (auto split: option.splits)
  then show ?thesis using in_entries_unique [OF assms(1) ok(3) _ assms(2,3) refl] by (intro that)
qed

text \<open>Where an entry goes: over its old one, over an expired one, or over the first.\<close>

lemma last_expired:
  "fold (\<lambda>i pos. if P i then Some i else pos) xs None = (case filter P xs of [] \<Rightarrow> None | ys \<Rightarrow> Some (last ys))"
proof (induction xs rule: rev_induct)
  case (snoc x xs)
  then show ?case by (auto split: list.splits)
qed simp

lemma entry_position_cases:
  assumes ok: "length (oa_entries oa) = 160" "\<forall>e\<in>set (oa_entries oa). entry_ok e" and len: "length pk = 32" "length self = 32"
  obtains (listed) i where "entry_position now self oa pk = Some i" "i < 160" "live now (oa_entries oa ! i)"
      "ae_public_key (oa_entries oa ! i) = pk"
  | (expired) i where "entry_position now self oa pk = Some i" "i < 160" "\<not> live now (oa_entries oa ! i)"
      "\<forall>e\<in>set (oa_entries oa). live now e \<longrightarrow> ae_public_key e \<noteq> pk"
  | (closer) "entry_position now self oa pk = Some 0" "\<forall>e\<in>set (oa_entries oa). live now e \<and> ae_public_key e \<noteq> pk"
      "key_dist self pk < key_dist self (ae_public_key (oa_entries oa ! 0))"
  | (refused) "entry_position now self oa pk = None" "\<forall>e\<in>set (oa_entries oa). live now e \<and> ae_public_key e \<noteq> pk"
      "key_dist self (ae_public_key (oa_entries oa ! 0)) \<le> key_dist self pk"
proof (cases "in_entries now oa pk")
  case (Some i)
  then show ?thesis using in_entries_cases [OF ok len(1), of now] listed [of i] by (simp add: entry_position_def)
next
  case None
  then have not: "\<forall>e\<in>set (oa_entries oa). live now e \<longrightarrow> ae_public_key e \<noteq> pk"
    using in_entries_cases [OF ok len(1), of now] by simp
  let ?P = "\<lambda>i. is_timeout now (ae_time (oa_entries oa ! i)) 300"
  let ?f = "filter ?P [0..<160]"
  show ?thesis
  proof (cases "?f = []")
    case True
    then have "\<forall>e\<in>set (oa_entries oa). live now e"
      using ok(1) by (auto simp: filter_empty_conv in_set_conv_nth live_def)
    with not have all: "\<forall>e\<in>set (oa_entries oa). live now e \<and> ae_public_key e \<noteq> pk" by blast
    have "length (ae_public_key (oa_entries oa ! 0)) = 32" using ok by (simp add: entry_ok_def)
    then have "id_closest self pk (ae_public_key (oa_entries oa ! 0)) = 1 \<longleftrightarrow>
        key_dist self pk < key_dist self (ae_public_key (oa_entries oa ! 0))"
      using id_closest_cases [of pk self "ae_public_key (oa_entries oa ! 0)"] len by simp
    then show ?thesis
      using closer refused all None True by (cases "key_dist self pk < key_dist self (ae_public_key (oa_entries oa ! 0))")
        (simp_all add: entry_position_def last_expired)
  next
    case False
    then have "last ?f \<in> set ?f" by (rule last_in_set)
    then have "last ?f < 160" "\<not> live now (oa_entries oa ! last ?f)" by (auto simp: live_def)
    moreover have "entry_position now self oa pk = Some (last ?f)"
      using None False by (simp add: entry_position_def last_expired split: list.splits)
    ultimately show ?thesis using expired not by blast
  qed
qed

text \<open>
  Writing an entry over one whose key is the same or dead, or of which no live entry has the new key,
  and sorting keeps the invariant.
\<close>

lemma distinct_map_filter_update:
  assumes "distinct (map f (filter P xs))" and "i < length xs"
    and "\<forall>j<length xs. j \<noteq> i \<longrightarrow> P (xs ! j) \<longrightarrow> f (xs ! j) \<noteq> f e"
  shows "distinct (map f (filter P (xs[i := e])))"
proof -
  have xs: "xs = take i xs @ xs ! i # drop (Suc i) xs" using assms(2) by (rule id_take_nth_drop)
  have "distinct (map f (filter P (take i xs)) @ map f (filter P (drop (Suc i) xs)))"
    using assms(1) by (subst (asm) xs) (auto split: if_splits)
  moreover have "f e \<notin> f ` set (filter P (take i xs))"
    using assms(2,3) by (auto simp: in_set_conv_nth) (metis less_irrefl order.strict_trans)
  moreover have "f e \<notin> f ` set (filter P (drop (Suc i) xs))"
  proof
    assume "f e \<in> f ` set (filter P (drop (Suc i) xs))"
    then obtain k where "k < length xs - Suc i" "P (xs ! (Suc i + k))" "f (xs ! (Suc i + k)) = f e"
      by (auto simp: in_set_conv_nth)
    moreover from this have "Suc i + k < length xs" by linarith
    ultimately show False using assms(3) [rule_format, of "Suc i + k"] by simp
  qed
  ultimately show ?thesis using assms(2) by (subst upd_conv_take_nth_drop) auto
qed

lemma entries_ok_sorted_update:
  assumes qs: "qsort_ok (ae_qsort E)" and ok: "entries_ok now self es" and len: "length self = 32" and e: "entry_ok e"
    and i: "i < 160" and new: "\<forall>j<160. j \<noteq> i \<longrightarrow> live now (es ! j) \<longrightarrow> ae_public_key (es ! j) \<noteq> ae_public_key e"
  shows "entries_ok now self (ae_qsort E (cmp_entry now self) (es[i := e]))"
    and "mset (ae_qsort E (cmp_entry now self) (es[i := e])) = mset (es[i := e])"
proof -
  let ?u = "es[i := e]" and ?s = "ae_qsort E (cmp_entry now self) (es[i := e])"
  have u: "length ?u = 160" "\<forall>x\<in>set ?u. entry_ok x"
    using ok e set_update_subset_insert [of es i e] by (auto simp: entries_ok_def)
  have "distinct (map ae_public_key (filter (live now) ?u))"
    using ok i new by (intro distinct_map_filter_update) (auto simp: entries_ok_def)
  moreover show m: "mset ?s = mset ?u" using qs by (simp add: qsort_ok_def)
  then have "mset (map ae_public_key (filter (live now) ?s)) = mset (map ae_public_key (filter (live now) ?u))"
    by (simp add: mset_filter)
  ultimately have "distinct (map ae_public_key (filter (live now) ?s))" using mset_eq_imp_distinct_iff by blast
  moreover have "sorted_wrt (\<lambda>x y. cmp_entry now self x y \<le> 0) ?s"
    using qs cmp_entry_preorder [OF len u(2)] by (simp add: qsort_ok_def)
  ultimately show "entries_ok now self ?s"
    using u mset_eq_setD [OF m] mset_eq_length [OF m] by (auto simp: entries_ok_def)
qed

lemma position_free:
  assumes ok: "entries_ok now self (oa_entries oa)" and len: "length pk = 32" "length self = 32"
    and pos: "entry_position now self oa pk = Some i"
  shows "i < 160 \<and> (\<forall>j<160. j \<noteq> i \<longrightarrow> live now (oa_entries oa ! j) \<longrightarrow> ae_public_key (oa_entries oa ! j) \<noteq> pk)"
proof -
  have o1: "length (oa_entries oa) = 160" "\<forall>e\<in>set (oa_entries oa). entry_ok e"
    "distinct (map ae_public_key (filter (live now) (oa_entries oa)))"
    using ok by (simp_all add: entries_ok_def)
  show ?thesis
    using o1(1,2) len
  proof (cases rule: entry_position_cases [where now = now])
    case (listed k)
    then have k: "k = i" using pos by simp
    have "j = i" if "j < 160" "live now (oa_entries oa ! j)" "ae_public_key (oa_entries oa ! j) = pk" for j
    proof (rule ccontr)
      assume "j \<noteq> i"
      let ?es = "oa_entries oa"
      have "?es = take i ?es @ ?es ! i # drop (Suc i) ?es" using listed(2) k o1(1) by (simp add: id_take_nth_drop)
      then have "distinct (map ae_public_key (filter (live now) (take i ?es @ ?es ! i # drop (Suc i) ?es)))" using o1(3) by simp
      then have d: "pk \<notin> ae_public_key ` set (filter (live now) (take i ?es))" "pk \<notin> ae_public_key ` set (filter (live now) (drop (Suc i) ?es))"
        using listed(3,4) k by auto
      show False
      proof (cases "j < i")
        case True
        then have "?es ! j \<in> set (take i ?es)" using listed(2) k o1(1) by (auto simp: in_set_conv_nth intro!: exI [of _ j])
        then show False using d(1) that by auto
      next
        case False
        then have "?es ! j \<in> set (drop (Suc i) ?es)"
          using \<open>j \<noteq> i\<close> that(1) o1(1) by (auto simp: in_set_conv_nth intro!: exI [of _ "j - Suc i"])
        then show False using d(2) that by auto
      qed
    qed
    then show ?thesis using listed(2) k by blast
  qed (use pos o1(1) in auto)
qed

lemma add_to_entries_stores:
  assumes qs: "qsort_ok (ae_qsort E)" and now: "now = oe_now (ae_onion E)" "\<not> is_timeout now now ONION_ANNOUNCE_TIMEOUT"
    and ok: "entries_ok now self (oa_entries oa)" and len: "length pk = 32" "length self = 32" "length dpk = 32" "length ret = 177"
    and pos: "entry_position now self oa pk = Some pos"
    and e: "e = \<lparr>ae_public_key = pk, ae_ret_ip_port = addr, ae_ret = ret, ae_data_public_key = dpk, ae_time = now\<rparr>"
  obtains i oa' where "add_to_entries E self oa addr pk dpk ret = (Some i, oa')"
    and "mset (oa_entries oa') = mset ((oa_entries oa)[pos := e])" and "entries_ok now self (oa_entries oa')"
    and "i < 160" and "oa_entries oa' ! i = e" and "oa_shared_keys_recv oa' = oa_shared_keys_recv oa"
    and "oa_secret_bytes oa' = oa_secret_bytes oa"
proof -
  let ?oa = "oa\<lparr>oa_entries := ae_qsort E (cmp_entry now self) ((oa_entries oa)[pos := e])\<rparr>"
  have p: "pos < 160" "\<forall>j<160. j \<noteq> pos \<longrightarrow> live now (oa_entries oa ! j) \<longrightarrow> ae_public_key (oa_entries oa ! j) \<noteq> ae_public_key e"
    using position_free [OF ok len(1,2) pos] e by simp_all
  have eok: "entry_ok e" "live now e" using e len now(2) by (simp_all add: entry_ok_def live_def)
  note s = entries_ok_sorted_update [OF qs ok len(2) eok(1) p]
  have "length (oa_entries oa) = 160" using ok by (simp add: entries_ok_def)
  then have "e \<in> set (oa_entries ?oa)" using mset_eq_setD [OF s(2)] p(1) by (simp add: set_update_memI)
  then obtain i where "in_entries now ?oa pk = Some i" "i < 160" "oa_entries ?oa ! i = e"
    using find_entry [of now self ?oa e] s(1) eok(2) e by auto
  then show ?thesis
    using that [of i ?oa] s pos e len by (simp add: add_to_entries_def now(1) [symmetric])
qed

text \<open>When every entry is live, the first is the furthest.\<close>

lemma first_is_furthest:
  assumes ok: "entries_ok now self es" and len: "length self = 32" and live: "\<forall>e\<in>set es. live now e" and e: "e \<in> set es"
  shows "key_dist self (ae_public_key e) \<le> key_dist self (ae_public_key (es ! 0))"
proof -
  obtain t where t: "t \<le> now" "sorted_wrt (\<lambda>x y. cmp_entry t self x y \<le> 0) es" and es: "length es = 160" "\<forall>e\<in>set es. entry_ok e"
    using ok by (auto simp: entries_ok_def)
  obtain j where j: "j < 160" "e = es ! j" using e es(1) by (auto simp: in_set_conv_nth)
  have s: "es ! 0 \<in> set es" using es(1) by simp
  have l: "live t e" "live t (es ! 0)" using live e s t(1) live_mono by blast+
  have k: "length (ae_public_key x) = 32" if "x \<in> set es" for x using es(2) that by (simp add: entry_ok_def)
  have d: "key_dist self (ae_public_key e) < 256 ^ 32" "key_dist self (ae_public_key (es ! 0)) < 256 ^ 32"
    using key_dist_bound [OF len] k e s by blast+
  show ?thesis
  proof (cases "j = 0")
    case False
    then have "cmp_entry t self (es ! 0) e \<le> 0" using t(2) j es(1) by (simp add: sorted_wrt_iff_nth_less)
    moreover have "entry_ok (es ! 0)" "entry_ok e" using es(2) e s by blast+
    ultimately have "entry_rank t self (es ! 0) \<le> entry_rank t self e"
      using cmp_entry_rank [OF len, of "es ! 0" e t] by (simp split: if_splits)
    then show ?thesis using l d by (simp add: entry_rank_def)
  qed (use j in simp)
qed

section \<open>Announcing and reaching an announced key\<close>

definition announce_ok :: "nacl \<Rightarrow> u64 \<Rightarrow> DHT \<Rightarrow> Onion_Announce \<Rightarrow> bool" where
  "announce_ok N now dht oa \<longleftrightarrow> length (self_public_key dht) = 32 \<and> shared_keys_ok N (self_secret_key dht) (oa_shared_keys_recv oa) \<and>
     entries_ok now (self_public_key dht) (oa_entries oa)"

definition announce_env_ok :: "nacl \<Rightarrow> announce_env \<Rightarrow> bool" where
  "announce_env_ok N E \<longleftrightarrow> onion_env_ok N (ae_onion E) \<and> qsort_ok (ae_qsort E) \<and> (\<forall>b. length (ae_sha256 E b) = 32) \<and>
     \<not> is_timeout (oe_now (ae_onion E)) (oe_now (ae_onion E)) ONION_ANNOUNCE_TIMEOUT"

lemma create_announce_request_Some:
  assumes "nacl_ok N" and "length pid = 32" "length cid = 32" "length dpk = 32"
  obtains enc where "create_announce_request N nonce ONION_ANNOUNCE_REQUEST_SIZE dest pk sk pid cid dpk sb =
      Some ([NET_PACKET_ANNOUNCE_REQUEST] @ nonce @ pk @ enc)"
    and "length enc = 120"
    and "decrypt_data_symmetric N (encrypt_precompute N dest sk) nonce enc = Some (pid @ cid @ dpk @ bytes_le 8 (unat sb))"
proof (rule encrypt_symmetric_Some [OF assms(1), of "pid @ cid @ dpk @ bytes_le 8 (unat sb)" "encrypt_precompute N dest sk" nonce])
  show "pid @ cid @ dpk @ bytes_le 8 (unat sb) \<noteq> []" using assms(2) by auto
  fix e assume "encrypt_data_symmetric N (encrypt_precompute N dest sk) nonce (pid @ cid @ dpk @ bytes_le 8 (unat sb)) = Some e"
    "length e = length (pid @ cid @ dpk @ bytes_le 8 (unat sb)) + 16"
    "decrypt_data_symmetric N (encrypt_precompute N dest sk) nonce e = Some (pid @ cid @ dpk @ bytes_le 8 (unat sb))"
  then show thesis using assms by (intro that [of e]) (simp_all add: create_announce_request_def encrypt_data_def)
qed

lemma announce_packet_parts:
  assumes "length nonce = 24" and "length pk = 32" and "length enc = 120" and "length ret = 177"
  defines "p \<equiv> [131] @ nonce @ pk @ enc @ ret"
  shows "length p = 354" "read_at p 25 32 = pk" "read_at p 1 24 = nonce" "read_at p 57 120 = enc" "drop 177 p = ret"
  using assms by (simp_all add: read_at_def)

lemma plain_parts:
  assumes "length pid = 32" and "length cid = 32" and "length dpk = 32" and "length sb = 8"
  shows "take 32 (pid @ cid @ dpk @ sb) = pid" "read_at (pid @ cid @ dpk @ sb) 32 32 = cid"
    "read_at (pid @ cid @ dpk @ sb) 64 32 = dpk" "read_at (pid @ cid @ dpk @ sb) 96 8 = sb"
  using assms by (simp_all add: read_at_def)

lemma packed_close_nodes_Some:
  assumes "num \<le> 4" and ns: "\<forall>n\<in>set (take num nodes). ip_node n" and "length nodes = 4"
  shows "packed_close_nodes nodes num = Some (nodes_bytes (take num nodes))"
proof (cases "num = 0")
  case False
  let ?ns = "take num nodes"
  have nb: "length (nodes_bytes ?ns) \<le> 51 * length ?ns" using ip_nodes_bytes(1) [OF ns] by simp
  have "?ns \<noteq> []" using assms(3) False by auto
  then have "0 < length (nodes_bytes ?ns)" by (rule ip_nodes_bytes(3) [OF ns])
  then show ?thesis
    using pack_loop_ok [OF ip_nodes_bytes(2) [OF ns], of 0 256 "replicate 256 0"] nb assms(1,3) False
    by (auto simp: packed_close_nodes_def pack_nodes_def memcpy_at_def)
qed (simp add: packed_close_nodes_def)

lemma handle_announce_request_lists:
  assumes E: "announce_env_ok N E" and now: "now = oe_now (ae_onion E)" and oa: "announce_ok N now dht oa"
    and len: "length nonce = 24" "length pk = 32" "length cid = 32" "length dpk = 32" "length ret = 177"
    and keys: "keys_agree N pk sk (self_public_key dht) (self_secret_key dht)"
    and pid: "pid = generate_ping_id E oa time pk source" "time div 20 = now div 20 \<or> time div 20 = (now + 20) div 20"
    and room: "entry_position now (self_public_key dht) oa pk \<noteq> None"
    and close: "get_close_nodes now (close_clientlist dht) (map client_list (friends_list dht)) cid 0 (LAN_ip (ipp_ip source)) = (nodes, num)"
    and ns: "num \<le> 4" "\<forall>n\<in>set (take num nodes). ip_node n" "length nodes = 4"
  obtains request oa' i enc where
    "create_announce_request N nonce ONION_ANNOUNCE_REQUEST_SIZE (self_public_key dht) pk sk pid cid dpk sb = Some request"
    and "handle_announce_request E dht oa source (request @ ret) = (0, oa', [OnionSend source
      ([NET_PACKET_ONION_RECV_3] @ ret @ [NET_PACKET_ANNOUNCE_RESPONSE] @ bytes_le 8 (unat sb) @ oe_nonce (ae_onion E) @ enc)])"
    and "decrypt_data_symmetric N (encrypt_precompute N (self_public_key dht) sk) (oe_nonce (ae_onion E)) enc =
      Some ([2] @ generate_ping_id E oa (now + 20) pk source @ nodes_bytes (take num nodes))"
    and "entries_ok now (self_public_key dht) (oa_entries oa')" and "i < 160"
    and "oa_entries oa' ! i = \<lparr>ae_public_key = pk, ae_ret_ip_port = source, ae_ret = ret, ae_data_public_key = dpk, ae_time = now\<rparr>"
proof -
  let ?self = "self_public_key dht" and ?key = "encrypt_precompute N (self_public_key dht) sk" and ?ns = "take num nodes"
  let ?sb = "bytes_le 8 (unat sb)" and ?pid2 = "generate_ping_id E oa (now + 20) pk source"
  have N: "nacl_ok N" "oe_nacl (ae_onion E) = N" and q: "qsort_ok (ae_qsort E)" "\<not> is_timeout now now 300" and nn: "length (oe_nonce (ae_onion E)) = 24"
    and sh: "\<And>b. length (ae_sha256 E b) = 32" and send: "\<And>a p. oe_send (ae_onion E) a p = int (length p)"
    using E now by (simp_all add: announce_env_ok_def onion_env_ok_def)
  have self: "length ?self = 32" "shared_keys_ok N (self_secret_key dht) (oa_shared_keys_recv oa)" "entries_ok now ?self (oa_entries oa)"
    using oa by (simp_all add: announce_ok_def)
  have key: "?key = encrypt_precompute N pk (self_secret_key dht)" using keys by (simp add: keys_agree_def encrypt_precompute_def)
  have lp: "length pid = 32" "length ?pid2 = 32" using sh pid(1) by (simp_all add: generate_ping_id_def)
  obtain enc where req: "create_announce_request N nonce 177 ?self pk sk pid cid dpk sb = Some ([131] @ nonce @ pk @ enc)"
    "length enc = 120" "decrypt_data_symmetric N ?key nonce enc = Some (pid @ cid @ dpk @ ?sb)"
    by (rule create_announce_request_Some [OF N(1) lp(1) len(3,4)])
  let ?p = "[131] @ nonce @ pk @ enc @ ret"
  note parts = announce_packet_parts [OF len(1,2) req(2) len(5)] plain_parts [OF lp(1) len(3,4) length_bytes_le [of 8 "unat sb"]]
  obtain keys' where k: "get_shared_key N now (oa_shared_keys_recv oa) (self_secret_key dht) pk = (keys', ?key)"
    using get_shared_key_value [OF self(2) len(2)] key by metis
  define oa1 where "oa1 = oa\<lparr>oa_shared_keys_recv := keys'\<rparr>"
  have gen: "generate_ping_id E oa1 t pk source = generate_ping_id E oa t pk source" for t by (simp add: generate_ping_id_def oa1_def)
  have ids: "generate_ping_id E oa1 now pk source = pid \<or> generate_ping_id E oa1 (now + 20) pk source = pid"
    using pid by (auto simp: generate_ping_id_def oa1_def)
  have "oa_entries oa1 = oa_entries oa" by (simp add: oa1_def)
  then have "entry_position now ?self oa1 pk = entry_position now ?self oa pk" by (simp only: entry_position_def in_entries_def)
  then obtain pos where pos: "entry_position now ?self oa1 pk = Some pos" using room by auto
  have ok1: "entries_ok now ?self (oa_entries oa1)" using self(3) by (simp add: oa1_def)
  let ?e = "\<lparr>ae_public_key = pk, ae_ret_ip_port = source, ae_ret = ret, ae_data_public_key = dpk, ae_time = now\<rparr>"
  obtain i oa' where add: "add_to_entries E ?self oa1 source pk dpk ret = (Some i, oa')"
    and ok': "entries_ok now ?self (oa_entries oa')" "i < 160" "oa_entries oa' ! i = ?e"
    using add_to_entries_stores [OF q(1) now q(2) ok1 len(2) self(1) len(4,5) pos refl] by metis
  have st: "announce_status oa' (Some i) pk dpk ?pid2 = [2] @ ?pid2" using ok'(3) by (simp add: announce_status_def)
  have nb: "length (nodes_bytes ?ns) \<le> 51 * length ?ns" "length ?ns = num" using ip_nodes_bytes(1) [OF ns(2)] ns by simp_all
  have packed: "packed_close_nodes nodes num = Some (nodes_bytes ?ns)" by (rule packed_close_nodes_Some [OF ns])
  obtain renc where renc: "encrypt_data_symmetric N ?key (oe_nonce (ae_onion E)) ([2] @ ?pid2 @ nodes_bytes ?ns) = Some renc"
    "length renc = length ([2] @ ?pid2 @ nodes_bytes ?ns) + 16"
    "decrypt_data_symmetric N ?key (oe_nonce (ae_onion E)) renc = Some ([2] @ ?pid2 @ nodes_bytes ?ns)"
    by (rule encrypt_symmetric_Some [OF N(1), of "[2] @ ?pid2 @ nodes_bytes ?ns"]) simp
  have "handle_announce_request E dht oa source ?p = (0, oa', [OnionSend source
      ([140] @ ret @ [132] @ ?sb @ oe_nonce (ae_onion E) @ renc)])"
    using parts k req(3) ids add st packed renc(1,2) N lp nn nb ns(1) close len send
    unfolding handle_announce_request_def now [symmetric]
    by (simp add: Let_def oa1_def [symmetric] gen send_onion_response_def)
  then show ?thesis using that [OF req(1) _ renc(3) ok'] by simp
qed

lemma handle_data_request_forwards:
  assumes E: "announce_env_ok N E" and now: "now = oe_now (ae_onion E)" and ok: "entries_ok now self (oa_entries oa)"
    and e: "e \<in> set (oa_entries oa)" "live now e" "ae_public_key e = pk"
    and len: "length pk = 32" "length nonce = 24" "length (fst kp) = 32" "length ret = 177" "0 < length data" "length data \<le> 1069"
    and keys: "keys_agree N (fst kp) (snd kp) dpk dsk"
  obtains request enc where "create_data_request N kp ONION_MAX_DATA_SIZE pk dpk nonce data = Some request"
    and "handle_data_request E oa source (request @ ret) = (0, [OnionSend (ae_ret_ip_port e)
      ([NET_PACKET_ONION_RECV_3] @ ae_ret e @ [NET_PACKET_ONION_DATA_RESPONSE] @ nonce @ fst kp @ enc)])"
    and "decrypt_data N (fst kp) dsk nonce enc = Some data"
proof -
  let ?key = "encrypt_precompute N dpk (snd kp)"
  have N: "nacl_ok N" "oe_nacl (ae_onion E) = N" and send: "\<And>a p. oe_send (ae_onion E) a p = int (length p)"
    using E by (simp_all add: announce_env_ok_def onion_env_ok_def)
  obtain enc where enc: "encrypt_data_symmetric N ?key nonce data = Some enc" "length enc = length data + 16"
    "decrypt_data_symmetric N ?key nonce enc = Some data"
    using encrypt_symmetric_Some [OF N(1), of data] len(5) by blast
  let ?req = "[133] @ pk @ nonce @ fst kp @ enc" and ?p = "[133] @ pk @ nonce @ fst kp @ enc @ ret"
  have req: "create_data_request N kp 1174 pk dpk nonce data = Some ?req"
    using enc(1,2) len by (simp add: create_data_request_def encrypt_data_def)
  obtain i where i: "in_entries now oa pk = Some i" "i < 160" "oa_entries oa ! i = e"
    using find_entry [OF ok e(1,2)] e(3) by blast
  have r: "length (ae_ret e) = 177" using ok e(1) by (simp add: entries_ok_def entry_ok_def)
  have p: "length ?p = 282 + length data" "read_at ?p 1 32 = pk" using len enc(2) by (simp_all add: read_at_def)
  have "read_at ?p 33 (length ?p - 210) = nonce @ fst kp @ enc" using len enc(2) by (simp add: read_at_def)
  then have "handle_data_request E oa source ?p =
      (0, [OnionSend (ae_ret_ip_port e) ([140] @ ae_ret e @ [134] @ nonce @ fst kp @ enc)])"
    using p i r len enc(2) send by (simp add: handle_data_request_def now [symmetric] send_onion_response_def)
  then show ?thesis
    using that [OF req, of enc] enc(3) keys by (simp add: decrypt_data_def encrypt_precompute_def keys_agree_def)
qed

text \<open>What a request does to the list, whatever becomes of the answer.\<close>

lemma handle_announce_request_state:
  assumes "handle_announce_request E dht oa source packet = (r, oa', es)" and "oa_entries oa' \<noteq> oa_entries oa"
  defines "pk \<equiv> read_at packet 25 32" and "now \<equiv> oe_now (ae_onion E)"
  obtains keys key plain where
    "get_shared_key (oe_nacl (ae_onion E)) now (oa_shared_keys_recv oa) (self_secret_key dht) pk = (keys, key)"
    and "decrypt_data_symmetric (oe_nacl (ae_onion E)) key (read_at packet 1 24) (read_at packet 57 120) = Some plain"
    and "length packet = 354" and "length plain = 104"
    and "take 32 plain = generate_ping_id E oa now pk source \<or> take 32 plain = generate_ping_id E oa (now + 20) pk source"
    and "oa' = snd (add_to_entries E (self_public_key dht) (oa\<lparr>oa_shared_keys_recv := keys\<rparr>) source pk (read_at plain 64 32) (drop 177 packet))"
proof -
  obtain keys key where k: "get_shared_key (oe_nacl (ae_onion E)) now (oa_shared_keys_recv oa) (self_secret_key dht) pk = (keys, key)"
    by (metis surj_pair)
  let ?oa1 = "oa\<lparr>oa_shared_keys_recv := keys\<rparr>"
  have gen: "generate_ping_id E ?oa1 t pk source = generate_ping_id E oa t pk source" for t by (simp add: generate_ping_id_def)
  have l: "length packet = 354" using assms(1,2) by (auto simp: handle_announce_request_def split: if_splits)
  obtain plain where plain: "decrypt_data_symmetric (oe_nacl (ae_onion E)) key (read_at packet 1 24) (read_at packet 57 120) = Some plain"
    using assms(1,2) l k by (cases "decrypt_data_symmetric (oe_nacl (ae_onion E)) key (read_at packet 1 24) (read_at packet 57 120)")
      (auto simp: handle_announce_request_def pk_def now_def Let_def)
  have l2: "length plain = 104"
    using assms(1,2) l k plain by (auto simp: handle_announce_request_def pk_def now_def Let_def split: if_splits)
  let ?c = "generate_ping_id E oa now pk source = take 32 plain \<or> generate_ping_id E oa (now + 20) pk source = take 32 plain"
  define x where "x = (if ?c then add_to_entries E (self_public_key dht) ?oa1 source pk (read_at plain 64 32) (drop 177 packet)
    else (in_entries now ?oa1 (read_at plain 32 32), ?oa1))"
  have "oa' = snd x"
    using assms(1) l l2 k plain gen
    by (simp add: handle_announce_request_def pk_def [symmetric] now_def [symmetric] Let_def x_def [symmetric]
        split: if_splits option.splits prod.splits)
  then show ?thesis using that [OF k plain l l2] assms(2) by (auto simp: x_def split: if_splits)
qed

section \<open>Properties\<close>

text \<open>
  C21. The list of announced keys: \<open>add_to_entries\<close> keeps its invariant. It refuses a key only when all
  160 entries are live and all at least as close to the node's own key; otherwise the new entry is in
  the list and takes the place of one entry: the old one of that key, an expired one, or, when none is
  expired, the one furthest from the node, which is further than the new key.
\<close>

theorem announce_list_keeps_closest:
  assumes "qsort_ok (ae_qsort E)" and "now = oe_now (ae_onion E)" and "\<not> is_timeout now now ONION_ANNOUNCE_TIMEOUT"
    and "entries_ok now self (oa_entries oa)" and "length pk = 32" and "length self = 32" and "length dpk = 32" and "length ret = 177"
    and "add_to_entries E self oa addr pk dpk ret = (r, oa')"
  shows "entries_ok now self (oa_entries oa') \<and>
    (case r of
       None \<Rightarrow> oa' = oa \<and> (\<forall>e\<in>set (oa_entries oa). live now e \<and> key_dist self (ae_public_key e) \<le> key_dist self pk)
     | Some i \<Rightarrow>
         oa_entries oa' ! i = \<lparr>ae_public_key = pk, ae_ret_ip_port = addr, ae_ret = ret, ae_data_public_key = dpk, ae_time = now\<rparr> \<and>
         (\<exists>victim\<in>set (oa_entries oa). add_mset victim (mset (oa_entries oa')) = add_mset (oa_entries oa' ! i) (mset (oa_entries oa)) \<and>
            (ae_public_key victim = pk \<or> \<not> live now victim \<or>
             (\<forall>e\<in>set (oa_entries oa). live now e \<and> key_dist self (ae_public_key e) \<le> key_dist self (ae_public_key victim)) \<and>
             key_dist self pk < key_dist self (ae_public_key victim))))"
proof (cases "entry_position now self oa pk")
  case None
  then have r: "r = None" "oa' = oa" using assms(2,9) by (simp_all add: add_to_entries_def)
  have "\<forall>e\<in>set (oa_entries oa). live now e \<and> key_dist self (ae_public_key e) \<le> key_dist self pk"
    using first_is_furthest [OF assms(4,6)] None assms(4-6) entry_position_cases [of oa pk self now]
    by (auto simp: entries_ok_def) (metis option.distinct(1) order_trans)+
  with r assms(4) show ?thesis by simp
next
  case (Some pos)
  let ?e = "\<lparr>ae_public_key = pk, ae_ret_ip_port = addr, ae_ret = ret, ae_data_public_key = dpk, ae_time = now\<rparr>"
  obtain i where i: "r = Some i" "mset (oa_entries oa') = mset ((oa_entries oa)[pos := ?e])" "entries_ok now self (oa_entries oa')"
      "oa_entries oa' ! i = ?e"
    using add_to_entries_stores [OF assms(1-8) Some refl, where addr = addr] assms(9) by (metis prod.inject)
  have es: "length (oa_entries oa) = 160" "\<forall>e\<in>set (oa_entries oa). entry_ok e" using assms(4) by (simp_all add: entries_ok_def)
  have pos: "pos < 160" using position_free [OF assms(4-6) Some] by simp
  have m: "add_mset (oa_entries oa ! pos) (mset (oa_entries oa')) = add_mset ?e (mset (oa_entries oa))"
    using i(2) pos es(1) by (simp add: mset_update)
  have "ae_public_key (oa_entries oa ! pos) = pk \<or> \<not> live now (oa_entries oa ! pos) \<or>
      (\<forall>e\<in>set (oa_entries oa). live now e \<and> key_dist self (ae_public_key e) \<le> key_dist self (ae_public_key (oa_entries oa ! pos))) \<and>
      key_dist self pk < key_dist self (ae_public_key (oa_entries oa ! pos))"
    using es assms(5,6)
  proof (cases rule: entry_position_cases [where now = now])
    case closer
    then have "pos = 0" using Some by simp
    then show ?thesis using closer first_is_furthest [OF assms(4,6)] by blast
  qed (use Some in auto)
  then show ?thesis using i(1,3,4) m pos es(1) by (auto intro!: bexI [of _ "oa_entries oa ! pos"])
qed

text \<open>
  C22. Nobody is listed without a ping id: when a request changes the list, it was sealed with the
  secret key of the sender's public key and contains a ping id that the node made for that key and
  address in this or for the next period of 20 seconds, and every new entry has that key and address.
\<close>

theorem announce_needs_ping_id:
  assumes "announce_env_ok N E" and "now = oe_now (ae_onion E)" and "announce_ok N now dht oa"
    and "pk = read_at packet 25 32" and "handle_announce_request E dht oa source packet = (r, oa', es)"
    and "oa_entries oa' \<noteq> oa_entries oa"
  shows "\<exists>plain. decrypt_data N pk (self_secret_key dht) (read_at packet 1 24) (read_at packet 57 120) = Some plain \<and>
    (take 32 plain = generate_ping_id E oa now pk source \<or> take 32 plain = generate_ping_id E oa (now + 20) pk source) \<and>
    (\<forall>e\<in>set (oa_entries oa') - set (oa_entries oa). ae_public_key e = pk \<and> ae_ret_ip_port e = source \<and> ae_time e = now)"
proof -
  have E: "qsort_ok (ae_qsort E)" "oe_nacl (ae_onion E) = N" using assms(1) by (simp_all add: announce_env_ok_def onion_env_ok_def)
  obtain keys key plain where h: "get_shared_key N now (oa_shared_keys_recv oa) (self_secret_key dht) pk = (keys, key)"
      "decrypt_data_symmetric N key (read_at packet 1 24) (read_at packet 57 120) = Some plain" "length packet = 354"
      "take 32 plain = generate_ping_id E oa now pk source \<or> take 32 plain = generate_ping_id E oa (now + 20) pk source"
      "oa' = snd (add_to_entries E (self_public_key dht) (oa\<lparr>oa_shared_keys_recv := keys\<rparr>) source pk (read_at plain 64 32) (drop 177 packet))"
    using handle_announce_request_state [OF assms(5,6)] E(2) assms(2,4) by metis
  have "length pk = 32" using h(3) assms(4) by simp
  then have "key = encrypt_precompute N pk (self_secret_key dht)"
    using get_shared_key_correct [OF _ _ h(1)] assms(3) by (simp add: announce_ok_def)
  then have "decrypt_data N pk (self_secret_key dht) (read_at packet 1 24) (read_at packet 57 120) = Some plain"
    using h(2) by (simp add: decrypt_data_def)
  moreover have "\<forall>e\<in>set (oa_entries oa') - set (oa_entries oa). ae_public_key e = pk \<and> ae_ret_ip_port e = source \<and> ae_time e = now"
  proof (cases "entry_position now (self_public_key dht) (oa\<lparr>oa_shared_keys_recv := keys\<rparr>) pk")
    case None
    then show ?thesis using h(5) assms(2) by (simp add: add_to_entries_def)
  next
    case (Some pos)
    let ?e = "\<lparr>ae_public_key = pk, ae_ret_ip_port = source, ae_ret = take 177 (drop 177 packet),
      ae_data_public_key = read_at plain 64 32, ae_time = now\<rparr>"
    have "oa_entries oa' = ae_qsort E (cmp_entry now (self_public_key dht)) ((oa_entries oa)[pos := ?e])"
      using h(5) Some assms(2) by (simp add: add_to_entries_def Let_def)
    then have "mset (oa_entries oa') = mset ((oa_entries oa)[pos := ?e])" using E(1) by (simp add: qsort_ok_def)
    then have "set (oa_entries oa') = set ((oa_entries oa)[pos := ?e])" by (rule mset_eq_setD)
    then show ?thesis using set_update_subset_insert [of "oa_entries oa" pos ?e] by auto
  qed
  ultimately show ?thesis using h(4) by blast
qed

text \<open>
  C20. Announcing works when the list has a place for the sender: its own entry, a free or expired one, or
  one that is further away than its key. A request with a ping id that the node made for the sender's
  key and address in this or for the next period of 20 seconds is then answered over the way the
  request came, with status 2 and a new ping id, and the sender is listed, whatever key \<open>cid\<close> it
  searches for (\<open>docs/Prevent_Tracking.txt\<close> asks for the sender's own key here; the code does not
  compare them). Within 300 seconds a data request for that key is passed on over the same way
  back, and its data opens with the secret key of the announced data key.
\<close>

theorem announce_then_data:
  assumes "announce_env_ok N E" and "announce_env_ok N E'" and "now = oe_now (ae_onion E)" and "announce_ok N now dht oa"
    and "length nonce = 24" "length pk = 32" "length cid = 32" "length dpk = 32" "length ret = 177"
    and "keys_agree N pk sk (self_public_key dht) (self_secret_key dht)"
    and "pid = generate_ping_id E oa time pk source" "time div 20 = now div 20 \<or> time div 20 = (now + 20) div 20"
    and "entry_position now (self_public_key dht) oa pk \<noteq> None"
    and "get_close_nodes now (close_clientlist dht) (map client_list (friends_list dht)) cid 0 (LAN_ip (ipp_ip source)) = (nodes, num)"
    and "num \<le> 4" "\<forall>n\<in>set (take num nodes). ip_node n" "length nodes = 4"
    and "now \<le> oe_now (ae_onion E')" and "\<not> is_timeout (oe_now (ae_onion E')) now ONION_ANNOUNCE_TIMEOUT"
    and "length dnonce = 24" "length (fst kp) = 32" "length ret2 = 177" "0 < length data" "length data \<le> 1069"
    and "keys_agree N (fst kp) (snd kp) dpk dsk"
  shows "\<exists>request oa' answer data_request enc.
    create_announce_request N nonce ONION_ANNOUNCE_REQUEST_SIZE (self_public_key dht) pk sk pid cid dpk sb = Some request \<and>
    handle_announce_request E dht oa source (request @ ret) = (0, oa', [OnionSend source
      ([NET_PACKET_ONION_RECV_3] @ ret @ [NET_PACKET_ANNOUNCE_RESPONSE] @ bytes_le 8 (unat sb) @ oe_nonce (ae_onion E) @ answer)]) \<and>
    decrypt_data N (self_public_key dht) sk (oe_nonce (ae_onion E)) answer =
      Some ([2] @ generate_ping_id E oa (now + 20) pk source @ nodes_bytes (take num nodes)) \<and>
    create_data_request N kp ONION_MAX_DATA_SIZE pk dpk dnonce data = Some data_request \<and>
    handle_data_request E' oa' source2 (data_request @ ret2) = (0, [OnionSend source
      ([NET_PACKET_ONION_RECV_3] @ ret @ [NET_PACKET_ONION_DATA_RESPONSE] @ dnonce @ fst kp @ enc)]) \<and>
    decrypt_data N (fst kp) dsk dnonce enc = Some data"
proof -
  let ?e = "\<lparr>ae_public_key = pk, ae_ret_ip_port = source, ae_ret = ret, ae_data_public_key = dpk, ae_time = now\<rparr>"
  obtain request oa' i answer where a:
    "create_announce_request N nonce 177 (self_public_key dht) pk sk pid cid dpk sb = Some request"
    "handle_announce_request E dht oa source (request @ ret) = (0, oa', [OnionSend source
      ([140] @ ret @ [132] @ bytes_le 8 (unat sb) @ oe_nonce (ae_onion E) @ answer)])"
    "decrypt_data_symmetric N (encrypt_precompute N (self_public_key dht) sk) (oe_nonce (ae_onion E)) answer =
      Some ([2] @ generate_ping_id E oa (now + 20) pk source @ nodes_bytes (take num nodes))"
    "entries_ok now (self_public_key dht) (oa_entries oa')" "i < 160" "oa_entries oa' ! i = ?e"
    by (rule handle_announce_request_lists [OF assms(1,3-17)])
  have "length (oa_entries oa') = 160" using a(4) by (simp add: entries_ok_def)
  then have e: "?e \<in> set (oa_entries oa')" using a(5,6) by (metis nth_mem)
  have l: "live (oe_now (ae_onion E')) ?e" using assms(19) by (simp add: live_def)
  obtain data_request enc where "create_data_request N kp 1174 pk dpk dnonce data = Some data_request"
    "handle_data_request E' oa' source2 (data_request @ ret2) = (0, [OnionSend source ([140] @ ret @ [134] @ dnonce @ fst kp @ enc)])"
    "decrypt_data N (fst kp) dsk dnonce enc = Some data"
    using handle_data_request_forwards [OF assms(2) refl entries_ok_later [OF a(4) assms(18)] e l _ assms(6,20-25)] by auto
  with a(1-3) show ?thesis unfolding decrypt_data_def by blast
qed

text \<open>A node with an empty list, at the time 1000.\<close>

definition sample_announce_env :: "u64 \<Rightarrow> announce_env" where
  "sample_announce_env now = \<lparr>ae_onion = sample_onion_env\<lparr>oe_now := now\<rparr>, ae_qsort = insertion_sort,
     ae_sha256 = (\<lambda>b. take 32 (b @ replicate 32 0))\<rparr>"

definition sample_announce_dht :: DHT where
  "sample_announce_dht = sample_dht\<lparr>self_public_key := replicate 32 1, self_secret_key := replicate 32 1\<rparr>"

lemma sample_announce_env_ok: "now = 1000 \<or> now = 1100 \<Longrightarrow> announce_env_ok nacl_identity (sample_announce_env now)"
  using sample_onion_env_ok
  by (auto simp: announce_env_ok_def sample_announce_env_def insertion_sort_ok onion_env_ok_def sample_onion_env_def is_timeout_def)

lemma replicate_sorted: "P x x \<Longrightarrow> sorted_wrt P (replicate n x)"
  by (induction n) auto

lemma sample_announce_ok: "announce_ok nacl_identity 1000 sample_announce_dht (new_onion_announce (replicate 32 5))"
proof -
  let ?e = "\<lparr>ae_public_key = replicate 32 0, ae_ret_ip_port = ipport_zero, ae_ret = replicate 177 0,
    ae_data_public_key = replicate 32 0, ae_time = 0\<rparr>"
  have "cmp_entry 1000 k ?e ?e = 0" for k by (simp add: cmp_entry_def is_timeout_def)
  then have "sorted_wrt (\<lambda>x y. cmp_entry 1000 k x y \<le> 0) (replicate 160 ?e)" for k by (intro replicate_sorted) simp
  moreover have "\<not> live 1000 ?e" by (simp add: live_def is_timeout_def)
  ultimately show ?thesis
    by (auto simp: announce_ok_def sample_announce_dht_def new_onion_announce_def shared_keys_zero_ok entries_ok_def entry_ok_def)
qed

lemma sample_position:
  "entry_position 1000 (self_public_key sample_announce_dht) (new_onion_announce (replicate 32 5)) (replicate 32 7) \<noteq> None"
proof -
  have ok: "length (oa_entries (new_onion_announce (replicate 32 5))) = 160"
    "\<forall>e\<in>set (oa_entries (new_onion_announce (replicate 32 5))). entry_ok e \<and> \<not> live 1000 e"
    by (auto simp: new_onion_announce_def entry_ok_def live_def is_timeout_def)
  have "\<exists>e. e \<in> set (oa_entries (new_onion_announce (replicate 32 5)))" by (auto simp: new_onion_announce_def)
  then show ?thesis
    using ok entry_position_cases [of "new_onion_announce (replicate 32 5)" "replicate 32 7" "self_public_key sample_announce_dht" 1000]
    by (auto simp: sample_announce_dht_def)
qed

lemma sample_no_nodes:
  "get_close_nodes 1000 (close_clientlist sample_announce_dht) (map client_list (friends_list sample_announce_dht)) cid 0 b =
     (replicate 4 node_zero, 0)"
proof -
  have "\<not> sendable 1000 cid 0 b False client_zero"
    by (simp add: sendable_def pick_assoc_def client_zero_def assoc_zero_def is_timeout_def Let_def)
  then show ?thesis
    by (simp add: get_close_nodes_def get_somewhat_close_nodes_def get_close_nodes_inner_def sample_announce_dht_def
        sample_dht_def close_loop_unsendable)
qed

lemma sample_announce_keys:
  "keys_agree nacl_identity (replicate 32 7) (replicate 32 7) (self_public_key sample_announce_dht) (self_secret_key sample_announce_dht)"
  using equal_keys_agree [of 7 1] by (simp add: sample_announce_dht_def)

theorem announce_list_keeps_closest_witness:
  "entries_ok 1000 (replicate 32 1) (oa_entries (snd (add_to_entries (sample_announce_env 1000) (replicate 32 1)
     (new_onion_announce (replicate 32 5)) (sample_address 4) (replicate 32 7) (replicate 32 8) (replicate 177 9))))"
proof -
  let ?r = "add_to_entries (sample_announce_env 1000) (replicate 32 1) (new_onion_announce (replicate 32 5)) (sample_address 4)
    (replicate 32 7) (replicate 32 8) (replicate 177 9)"
  have ok: "entries_ok 1000 (replicate 32 1) (oa_entries (new_onion_announce (replicate 32 5)))"
    using sample_announce_ok by (simp add: announce_ok_def sample_announce_dht_def)
  have qs: "qsort_ok (ae_qsort (sample_announce_env 1000))" "1000 = oe_now (ae_onion (sample_announce_env 1000))"
    using sample_announce_env_ok [of 1000] by (simp_all add: announce_env_ok_def sample_announce_env_def)
  show ?thesis
    using announce_list_keeps_closest [OF qs _ ok _ _ _ _ prod.collapse [symmetric], of "replicate 32 7" "replicate 32 8" "replicate 177 9" "sample_address 4"]
    by (simp add: is_timeout_def)
qed

theorem announce_then_data_witness:
  "\<exists>request oa' answer data_request enc.
    create_announce_request nacl_identity (replicate 24 2) 177 (self_public_key sample_announce_dht) (replicate 32 7) (replicate 32 7)
      (generate_ping_id (sample_announce_env 1000) (new_onion_announce (replicate 32 5)) 1000 (replicate 32 7) (sample_address 3))
      (replicate 32 7) (replicate 32 8) 77 = Some request \<and>
    handle_announce_request (sample_announce_env 1000) sample_announce_dht (new_onion_announce (replicate 32 5)) (sample_address 3)
      (request @ replicate 177 9) = (0, oa', [OnionSend (sample_address 3)
      ([140] @ replicate 177 9 @ [132] @ bytes_le 8 (unat (77::u64)) @ oe_nonce (ae_onion (sample_announce_env 1000)) @ answer)]) \<and>
    decrypt_data nacl_identity (self_public_key sample_announce_dht) (replicate 32 7) (oe_nonce (ae_onion (sample_announce_env 1000))) answer =
      Some ([2] @ generate_ping_id (sample_announce_env 1000) (new_onion_announce (replicate 32 5)) (1000 + 20) (replicate 32 7) (sample_address 3) @
        nodes_bytes (take 0 (replicate 4 node_zero))) \<and>
    create_data_request nacl_identity (replicate 32 4, replicate 32 4) 1174 (replicate 32 7) (replicate 32 8) (replicate 24 6) [1, 2] = Some data_request \<and>
    handle_data_request (sample_announce_env 1100) oa' (sample_address 2) (data_request @ replicate 177 0) = (0, [OnionSend (sample_address 3)
      ([140] @ replicate 177 9 @ [134] @ replicate 24 6 @ fst (replicate 32 (4::u8), replicate 32 (4::u8)) @ enc)]) \<and>
    decrypt_data nacl_identity (fst (replicate 32 4, replicate 32 (4::u8))) (replicate 32 8) (replicate 24 6) enc = Some [1, 2]"
  by (rule announce_then_data [OF sample_announce_env_ok sample_announce_env_ok _ sample_announce_ok _ _ _ _ _ sample_announce_keys refl
        _ sample_position sample_no_nodes])
    (simp_all add: sample_announce_env_def is_timeout_def equal_keys_agree)

theorem announce_needs_ping_id_witness:
  "\<exists>packet oa' es plain.
    handle_announce_request (sample_announce_env 1000) sample_announce_dht (new_onion_announce (replicate 32 5)) (sample_address 3) packet = (0, oa', es) \<and>
    oa_entries oa' \<noteq> oa_entries (new_onion_announce (replicate 32 5)) \<and>
    decrypt_data nacl_identity (read_at packet 25 32) (self_secret_key sample_announce_dht) (read_at packet 1 24) (read_at packet 57 120) = Some plain \<and>
    (take 32 plain = generate_ping_id (sample_announce_env 1000) (new_onion_announce (replicate 32 5)) 1000 (read_at packet 25 32) (sample_address 3) \<or>
     take 32 plain = generate_ping_id (sample_announce_env 1000) (new_onion_announce (replicate 32 5)) (1000 + 20) (read_at packet 25 32) (sample_address 3))"
proof -
  let ?E = "sample_announce_env 1000" and ?oa = "new_onion_announce (replicate 32 5)"
  have E: "announce_env_ok nacl_identity ?E" "1000 = oe_now (ae_onion ?E)"
    using sample_announce_env_ok [of 1000] by (simp_all add: sample_announce_env_def)
  obtain request oa' i es where h: "handle_announce_request ?E sample_announce_dht ?oa (sample_address 3) (request @ replicate 177 9) = (0, oa', es)"
    "entries_ok 1000 (self_public_key sample_announce_dht) (oa_entries oa')" "i < 160" "ae_public_key (oa_entries oa' ! i) = replicate 32 7"
    by (rule handle_announce_request_lists [OF E sample_announce_ok _ _ _ _ _ sample_announce_keys refl _ sample_position sample_no_nodes,
          of "replicate 24 2" "replicate 32 7" "replicate 32 8" "replicate 177 9" 1000 "sample_address 3" 77]) auto
  have "replicate 32 7 \<noteq> (replicate 32 0 :: bytes)" by simp
  then have "oa_entries oa' \<noteq> oa_entries ?oa" using h(3,4) by (auto simp: new_onion_announce_def)
  then show ?thesis using h(1) announce_needs_ping_id [OF E sample_announce_ok refl h(1)] by blast
qed

end
