(* ===== verification/DHT_Save.thy ===== *)
theory DHT_Save
  imports DHT_Exchange
begin

text \<open>
  Saving and loading the nodes of the DHT (the end of \<open>toxcore/DHT.c\<close>): \<open>DHT_size\<close>, \<open>DHT_save\<close>,
  \<open>DHT_load\<close>, bootstrapping from loaded nodes and the tests of being connected.

  The buffer that the caller gives is the argument \<open>data\<close>; the build switch for big endian hosts is
  \<open>be\<close>. The lengths that \<open>pack_nodes\<close> and \<open>unpack_nodes\<close> take are 16 bits wide and are written out
  modulo \<open>2^16\<close>. The code does not check its \<open>calloc\<close> when it loads nodes; it is taken to succeed.
\<close>

abbreviation (input) "DHT_STATE_COOKIE_GLOBAL \<equiv> (0x159000d::u32)"
abbreviation (input) "DHT_STATE_COOKIE_TYPE \<equiv> (0x11ce::u16)"
abbreviation (input) "DHT_STATE_TYPE_NODES \<equiv> (4::u16)"
abbreviation (input) "DHT_FAKE_FRIEND_NUMBER \<equiv> (2::nat)"
abbreviation (input) "MAX_SAVED_DHT_NODES \<equiv> (2080::nat)"
abbreviation (input) "SAVE_BOOTSTAP_FREQUENCY \<equiv> (8::nat)"

section \<open>Saving\<close>

text \<open>The lists that are saved: the close list and those of the first two friends.\<close>

definition saved_lists :: "DHT \<Rightarrow> Client_data list" where
  "saved_lists dht = close_clientlist dht @ concat (map client_list (take DHT_FAKE_FRIEND_NUMBER (friends_list dht)))"

definition DHT_size :: "DHT \<Rightarrow> nat" where
  "DHT_size dht =
     (let numv4 = length (filter (\<lambda>c. timestamp (assoc4 c) \<noteq> 0) (saved_lists dht));
          numv6 = length (filter (\<lambda>c. timestamp (assoc6 c) \<noteq> 0) (saved_lists dht))
      in 4 + 8 + PACKED_NODE_SIZE_IP4 * numv4 + PACKED_NODE_SIZE_IP6 * numv6)"

definition client_nodes :: "Client_data \<Rightarrow> Node_format list" where
  "client_nodes c =
     (if timestamp (assoc4 c) \<noteq> 0 then [\<lparr>nf_public_key = cd_public_key c, nf_ip_port = ip_port (assoc4 c)\<rparr>] else []) @
     (if timestamp (assoc6 c) \<noteq> 0 then [\<lparr>nf_public_key = cd_public_key c, nf_ip_port = ip_port (assoc6 c)\<rparr>] else [])"

definition DHT_save :: "bool \<Rightarrow> DHT \<Rightarrow> bytes \<Rightarrow> bytes" where
  "DHT_save be dht data =
     (let data1 = memcpy_at data 0 (host_to_lendian32 be DHT_STATE_COOKIE_GLOBAL);
          data2 = memcpy_at data1 4 (z_state_save_subheader be DHT_STATE_COOKIE_TYPE 0 0);
          clients = concat (map client_nodes (saved_lists dht));
          (body, r) = pack_nodes (drop 12 data2) (SIZEOF_NODE_FORMAT * length clients mod 2 ^ 16) clients;
          data3 = take 12 data2 @ body
      in memcpy_at data3 4 (z_state_save_subheader be DHT_STATE_COOKIE_TYPE
           (case r of Some k \<Rightarrow> word_of_nat k | None \<Rightarrow> - 1) DHT_STATE_TYPE_NODES))"

section \<open>Loading\<close>

definition dht_load_state_callback :: "DHT_Net \<Rightarrow> bytes \<Rightarrow> u16 \<Rightarrow> int \<times> DHT_Net" where
  "dht_load_state_callback d data type =
     (if type = DHT_STATE_TYPE_NODES \<and> length data \<noteq> 0 then
        let (nodes, r) = unpack_nodes (replicate MAX_SAVED_DHT_NODES node_zero) MAX_SAVED_DHT_NODES (take (length data mod 2 ^ 16) data) False
        in (0, d\<lparr>loaded_nodes_list := Some nodes, loaded_num_nodes := (case r of Some (num, _) \<Rightarrow> num | None \<Rightarrow> 0)\<rparr>)
      else (0, d))"

definition DHT_load :: "bool \<Rightarrow> DHT_Net \<Rightarrow> bytes \<Rightarrow> int \<times> DHT_Net" where
  "DHT_load be d data =
     (if length data > 4 then
        if lendian_to_host32 be data = DHT_STATE_COOKIE_GLOBAL
        then load_state be (Some dht_load_state_callback) d (Some (drop 4 data)) DHT_STATE_COOKIE_TYPE
        else (- 1, d)
      else (- 1, d))"

definition DHT_isconnected :: "u64 \<Rightarrow> DHT \<Rightarrow> bool" where
  "DHT_isconnected now dht =
     list_ex (\<lambda>c. \<not> assoc_bad now (assoc4 c) \<or> \<not> assoc_bad now (assoc6 c)) (close_clientlist dht)"

definition DHT_non_lan_connected :: "u64 \<Rightarrow> DHT \<Rightarrow> bool" where
  "DHT_non_lan_connected now dht =
     list_ex (\<lambda>c. \<not> assoc_bad now (assoc4 c) \<and> \<not> LAN_ip (ipp_ip (ip_port (assoc4 c))) \<or>
                  \<not> assoc_bad now (assoc6 c) \<and> \<not> LAN_ip (ipp_ip (ip_port (assoc6 c)))) (close_clientlist dht)"

definition DHT_bootstrap :: "dht_env \<Rightarrow> DHT_Net \<Rightarrow> IP_Port \<Rightarrow> bytes \<Rightarrow> DHT_Net" where
  "DHT_bootstrap E d ipp public_key = snd (getnodes E d ipp public_key (self_public_key (dn_dht d)) None)"

primrec connect_loop :: "dht_env \<Rightarrow> Node_format list \<Rightarrow> nat \<Rightarrow> DHT_Net \<Rightarrow> DHT_Net" where
  "connect_loop E nodes 0 d = d"
| "connect_loop E nodes (Suc i) d =
     (let n = nodes ! (unat (loaded_nodes_index d) mod loaded_num_nodes d);
          d1 = DHT_bootstrap E d (nf_ip_port n) (nf_public_key n)
      in connect_loop E nodes i (d1\<lparr>loaded_nodes_index := loaded_nodes_index d1 + 1\<rparr>))"

definition DHT_connect_after_load :: "dht_env \<Rightarrow> DHT_Net \<Rightarrow> int \<times> DHT_Net" where
  "DHT_connect_after_load E d =
     (case loaded_nodes_list d of
        None \<Rightarrow> (- 1, d)
      | Some nodes \<Rightarrow>
          if DHT_non_lan_connected (de_now E) (dn_dht d)
          then (0, d\<lparr>loaded_nodes_list := None, loaded_num_nodes := 0\<rparr>)
          else (0, connect_loop E nodes (min (loaded_num_nodes d) SAVE_BOOTSTAP_FREQUENCY) d))"

section \<open>What is saved\<close>

text \<open>The entries that are saved have the family of their association.\<close>

definition saved_ok :: "Client_data \<Rightarrow> bool" where
  "saved_ok c \<longleftrightarrow> client_ok c \<and> (timestamp (assoc4 c) \<noteq> 0 \<longrightarrow> ip_family (ipp_ip (ip_port (assoc4 c))) = AF_INET) \<and>
     (timestamp (assoc6 c) \<noteq> 0 \<longrightarrow> ip_family (ipp_ip (ip_port (assoc6 c))) = AF_INET6)"

abbreviation saved_nodes :: "DHT \<Rightarrow> Node_format list" where
  "saved_nodes dht \<equiv> concat (map client_nodes (saved_lists dht))"

lemma client_nodes_ok: "saved_ok c \<Longrightarrow> n \<in> set (client_nodes c) \<Longrightarrow> ip_node n"
  by (auto simp: saved_ok_def client_ok_def client_nodes_def ip_node_def node_ok_def split: if_splits)

lemma client_nodes_length:
  "saved_ok c \<Longrightarrow> length (nodes_bytes (client_nodes c)) =
     (if timestamp (assoc4 c) \<noteq> 0 then 39 else 0) + (if timestamp (assoc6 c) \<noteq> 0 then 51 else 0)"
  by (auto simp: saved_ok_def client_ok_def client_nodes_def node_bytes_length node_ok_def addr_len_def)

lemma saved_bytes_size:
  assumes "\<forall>c\<in>set (saved_lists dht). saved_ok c"
  shows "DHT_size dht = 12 + length (nodes_bytes (saved_nodes dht))"
proof -
  have "length (nodes_bytes (concat (map client_nodes cs))) =
      39 * length (filter (\<lambda>c. timestamp (assoc4 c) \<noteq> 0) cs) + 51 * length (filter (\<lambda>c. timestamp (assoc6 c) \<noteq> 0) cs)"
    if "\<forall>c\<in>set cs. saved_ok c" for cs
    using that by (induction cs) (simp_all add: client_nodes_length [simplified])
  then show ?thesis using assms by (simp add: DHT_size_def)
qed

lemma pack_loop_fits:
  assumes "\<forall>n\<in>set ns. node_ok n \<and> packable (node_family n)"
    and "pl + length (nodes_bytes ns) \<le> len" and "pl + length (nodes_bytes ns) \<le> length data"
  shows "pack_loop data len pl ns = (memcpy_at data pl (nodes_bytes ns), Some (pl + length (nodes_bytes ns)))"
  using assms
proof (induction ns arbitrary: data pl)
  case Nil
  then show ?case by (simp add: memcpy_at_def)
next
  case (Cons n ns)
  have l: "pl + length (node_bytes n) \<le> len" "pl + length (node_bytes n) \<le> length data" using Cons.prems by simp_all
  then have "pack_loop data len pl (n # ns) =
      pack_loop (memcpy_at data pl (node_bytes n)) len (pl + length (node_bytes n)) ns"
    using Cons.prems addr_len_cases [of "node_family n"] pack_write_bytes [of n pl data] node_bytes_length [of n]
    by (auto simp: pack_family_eq add.assoc)
  also have "\<dots> = (memcpy_at (memcpy_at data pl (node_bytes n)) (pl + length (node_bytes n)) (nodes_bytes ns),
      Some (pl + length (node_bytes n) + length (nodes_bytes ns)))"
    using Cons.prems l by (intro Cons.IH) auto
  finally show ?case using Cons.prems l by (simp add: memcpy_at_seq add.assoc)
qed

lemma length_host_to_lendian32 [simp]: "length (host_to_lendian32 be w) = 4"
  by (simp add: host_to_lendian32_bytes)

text \<open>The file: the global cookie, the header of the one section, and what \<open>pack_nodes\<close> made of the rest.\<close>

lemma DHT_save_parts:
  assumes "12 \<le> length data"
    and "pack_nodes (drop 12 data) (SIZEOF_NODE_FORMAT * length (saved_nodes dht) mod 2 ^ 16) (saved_nodes dht) = (body, r)"
  shows "DHT_save be dht data = host_to_lendian32 be DHT_STATE_COOKIE_GLOBAL @
    z_state_save_subheader be DHT_STATE_COOKIE_TYPE (case r of Some k \<Rightarrow> word_of_nat k | None \<Rightarrow> - 1) DHT_STATE_TYPE_NODES @ body"
proof -
  have cp: "memcpy_at (a @ b @ c) (length a) b' = a @ b' @ c" if "length b' = length b" for a b c b' :: bytes
    using that by (simp add: memcpy_at_def)
  obtain a b where d: "data = a @ b @ drop 12 data" "length a = 4" "length b = 8"
    using append_take_drop_id [of 4 data] append_take_drop_id [of 8 "drop 4 data"] assms(1)
    by (intro that [of "take 4 data" "take 8 (drop 4 data)"]) simp_all
  let ?g = "host_to_lendian32 be DHT_STATE_COOKIE_GLOBAL" and ?z = "z_state_save_subheader be DHT_STATE_COOKIE_TYPE"
  have "memcpy_at data 0 ?g = ?g @ b @ drop 12 data" by (subst d(1)) (use d(2) in \<open>simp add: memcpy_at_def\<close>)
  moreover have "memcpy_at (?g @ b @ drop 12 data) 4 (?z 0 0) = ?g @ ?z 0 0 @ drop 12 data"
    using cp [of "?z 0 0" b ?g "drop 12 data"] d(3) by simp
  moreover have "memcpy_at (?g @ ?z 0 0 @ body) 4 (?z w t) = ?g @ ?z w t @ body" for w t
    using cp [of "?z w t" "?z 0 0" ?g body] by simp
  ultimately show ?thesis using assms(2) by (simp add: DHT_save_def Let_def)
qed

lemma lendian_to_host32_written: "lendian_to_host32 be (host_to_lendian32 be w @ rest) = w"
proof -
  have "unat w < 256 ^ 4" using unsigned_less [of w] by simp
  then show ?thesis by (simp add: codec_simps)
qed

lemma saved_nodes_ok:
  assumes "\<forall>c\<in>set (saved_lists dht). saved_ok c"
  shows "\<forall>n\<in>set (saved_nodes dht). ip_node n"
  using assms client_nodes_ok by auto

lemma ip_nodes_bytes_min: "\<forall>n\<in>set ns. ip_node n \<Longrightarrow> 39 * length ns \<le> length (nodes_bytes ns)"
proof (induction ns)
  case (Cons n ns)
  then have "node_ok n" by (simp add: ip_node_def)
  then have "39 \<le> length (node_bytes n)" using node_bytes_length [of n] addr_len_cases [of "node_family n"] by auto
  then show ?case using Cons by simp
qed simp

lemma list_size_bound: "\<forall>n\<in>set ns. length (node_bytes n) \<le> k \<Longrightarrow> length (nodes_bytes ns) \<le> k * length ns"
  by (induction ns) (auto simp: algebra_simps)

lemma wrap_64:
  fixes q k :: nat
  assumes "k < 1024"
  shows "64 * (1024 * q + k) mod 2 ^ 16 = 64 * k"
proof -
  have "64 * (1024 * q + k) mod 2 ^ 16 = (64 * k + q * 2 ^ 16) mod 2 ^ 16" by (simp add: algebra_simps)
  also have "\<dots> = 64 * k" using assms by simp
  finally show ?thesis .
qed

section \<open>Properties\<close>

text \<open>
  C29. Saving and loading: for fewer than 1024 nodes with the address family of their entry, \<open>DHT_save\<close>
  fills exactly the \<open>DHT_size\<close> bytes it was given, and \<open>DHT_load\<close> reads from them the same nodes in
  the same order, on hosts of either byte order.
\<close>

theorem DHT_save_load:
  assumes "\<forall>c\<in>set (saved_lists dht). saved_ok c" and "length (saved_nodes dht) < 1024" and "saved_nodes dht \<noteq> []"
    and "length data = DHT_size dht"
  shows "length (DHT_save be dht data) = DHT_size dht \<and>
    (\<exists>nodes. DHT_load be d (DHT_save be dht data) =
       (0, d\<lparr>loaded_nodes_list := Some nodes, loaded_num_nodes := length (saved_nodes dht)\<rparr>) \<and>
       list_all2 same_node (take (length (saved_nodes dht)) nodes) (saved_nodes dht))"
proof -
  let ?ns = "saved_nodes dht" and ?b = "nodes_bytes (saved_nodes dht)"
  note ip = saved_nodes_ok [OF assms(1)]
  have size: "DHT_size dht = 12 + length ?b" by (rule saved_bytes_size [OF assms(1)])
  have len: "length ?b \<le> 51 * length ?ns" "0 < length ?b" using ip_nodes_bytes(1,3) [OF ip] assms(3) by simp_all
  have lim: "64 * length ?ns mod 2 ^ 16 = 64 * length ?ns" "length ?b mod 2 ^ 16 = length ?b" "length ?b < 2 ^ 32"
    using assms(2) len(1) by simp_all
  have "pack_nodes (drop 12 data) (64 * length ?ns mod 2 ^ 16) ?ns = (?b, Some (length ?b))"
    using pack_loop_fits [OF ip_nodes_bytes(2) [OF ip], of 0 "64 * length ?ns" "drop 12 data"] len(1) lim(1) size assms(4)
    by (simp add: pack_nodes_def memcpy_at_def)
  then have s: "DHT_save be dht data = host_to_lendian32 be DHT_STATE_COOKIE_GLOBAL @ save_section be DHT_STATE_COOKIE_TYPE (4, ?b)"
    using DHT_save_parts [of data dht ?b "Some (length ?b)" be] size assms(4) by (simp add: save_section_def)
  have pre: "\<forall>n\<in>set ?ns. node_ok n \<and> packable (node_family n) \<and> (False \<or> node_family n = AF_INET \<or> node_family n = AF_INET6)"
    using ip by (auto simp: ip_node_def packable_def)
  obtain nodes where u: "unpack_nodes (replicate 2080 node_zero) 2080 ?b False = (nodes, Some (length ?ns, length ?b))"
    "list_all2 same_node (take (length ?ns) nodes) ?ns"
    by (rule unpack_nodes_bytes [OF pre, of "replicate 2080 node_zero" 2080]) (use assms(2) sample_ok in auto)
  have "dht_load_state_callback d ?b 4 = (0, d\<lparr>loaded_nodes_list := Some nodes, loaded_num_nodes := length ?ns\<rparr>)"
    using u(1) len(2) lim(2) by (simp add: dht_load_state_callback_def)
  then have "load_state_loop be dht_load_state_callback DHT_STATE_COOKIE_TYPE d (save_section be DHT_STATE_COOKIE_TYPE (4, ?b)) =
      (0, d\<lparr>loaded_nodes_list := Some nodes, loaded_num_nodes := length ?ns\<rparr>)"
    using load_state_loop_section [of ?b be dht_load_state_callback DHT_STATE_COOKIE_TYPE d 4 "[]"] lim(3)
    by (simp add: load_state_loop.simps [of _ _ _ _ "[]"])
  moreover have "0 < length (save_section be DHT_STATE_COOKIE_TYPE (4, ?b))" by (simp add: save_section_def)
  ultimately have "DHT_load be d (DHT_save be dht data) = (0, d\<lparr>loaded_nodes_list := Some nodes, loaded_num_nodes := length ?ns\<rparr>)"
    by (simp add: s DHT_load_def lendian_to_host32_written load_state_def)
  then show ?thesis using u(2) s size by (auto simp: save_section_def)
qed

text \<open>
  C30. Saving too many nodes: the length \<open>sizeof(Node_format) * num\<close> wraps at 16 bits in the call of
  \<open>pack_nodes\<close>, so with 1024 nodes or more (up to the 2080 that are saved at most) the packing fails, the
  section gets the length \<open>-1\<close>, and the file is refused by \<open>DHT_load\<close>: no node is restored.
\<close>

theorem DHT_save_wraps:
  assumes "\<forall>c\<in>set (saved_lists dht). saved_ok c" and "1024 \<le> length (saved_nodes dht)" and "length (saved_nodes dht) \<le> 2080"
    and "length data = DHT_size dht"
  shows "DHT_load be d (DHT_save be dht data) = (- 1, d)"
proof -
  let ?ns = "saved_nodes dht" and ?b = "nodes_bytes (saved_nodes dht)" and ?l = "64 * length (saved_nodes dht) mod 2 ^ 16"
  note ip = saved_nodes_ok [OF assms(1)]
  have size: "DHT_size dht = 12 + length ?b" by (rule saved_bytes_size [OF assms(1)])
  have len: "39 * length ?ns \<le> length ?b" "length ?b \<le> 51 * length ?ns" using ip_nodes_bytes_min [OF ip] ip_nodes_bytes(1) [OF ip] by simp_all
  have l: "?l < 39 * length ?ns"
  proof (cases "length ?ns < 2048")
    case True
    then show ?thesis using assms(2) wrap_64 [of "length ?ns - 1024" 1] by simp
  next
    case False
    then show ?thesis using assms(3) wrap_64 [of "length ?ns - 2048" 2] by simp
  qed
  have ok: "\<forall>n\<in>set ?ns. node_ok n" "?l \<le> length (drop 12 data)" using ip l len(1) size assms(4) by (auto simp: ip_node_def)
  define body where "body = fst (pack_nodes (drop 12 data) ?l ?ns)"
  have "snd (pack_nodes (drop 12 data) ?l ?ns) = None"
    unfolding pack_nodes_def by (rule pack_loop_fail [OF ok]) (use l len(1) in auto)
  then have p: "pack_nodes (drop 12 data) ?l ?ns = (body, None)" by (simp add: body_def prod_eq_iff)
  have lb: "length body = length ?b" using pack_loop_length [OF ok, of 0] size assms(4) by (simp add: body_def pack_nodes_def)
  define f where "f = z_state_save_subheader be DHT_STATE_COOKIE_TYPE (- 1) 4 @ body"
  have s: "DHT_save be dht data = host_to_lendian32 be DHT_STATE_COOKIE_GLOBAL @ f"
    using DHT_save_parts [OF _ p, of be] size assms(4) by (simp add: f_def)
  have "lendian_to_host32 be f = - 1" by (simp add: f_def z_state_save_subheader_def lendian_to_host32_written)
  moreover have m1: "unat (- 1 :: u32) = 2 ^ 32 - 1" by (simp add: unsigned_minus_1_eq_mask mask_eq_exp_minus_1)
  ultimately have "load_state_loop be dht_load_state_callback DHT_STATE_COOKIE_TYPE d f = (- 1, d)"
    using lb len(2) assms(3) by (intro load_state_loop_truncated) (simp_all add: f_def m1)
  then show ?thesis by (simp add: s DHT_load_def lendian_to_host32_written load_state_def f_def)
qed

text \<open>A node with \<open>k\<close> known clients.\<close>

definition sample_saved :: "nat \<Rightarrow> DHT" where
  "sample_saved k = sample_dht\<lparr>close_clientlist := replicate k (sample_client 9) @ replicate (1024 - k) client_zero\<rparr>"

lemma sample_saved_facts:
  "list_all saved_ok (saved_lists (sample_saved k))" "length (saved_nodes (sample_saved k)) = k"
proof -
  have c: "saved_ok (sample_client 9)" "saved_ok client_zero"
    "length (client_nodes (sample_client 9)) = 1" "client_nodes client_zero = []"
    using sample_client_ok client_zero_ok
    by (simp_all add: saved_ok_def client_nodes_def sample_client_def client_zero_def assoc_zero_def)
  show "list_all saved_ok (saved_lists (sample_saved k))"
    using c(1,2) by (auto simp: list_all_iff saved_lists_def sample_saved_def sample_dht_def)
  have "length (concat (map client_nodes (replicate n (sample_client 9)))) = n"
    "concat (map client_nodes (replicate n client_zero)) = []" for n
    using c(3,4) by (induction n) simp_all
  then show "length (saved_nodes (sample_saved k)) = k"
    by (simp add: saved_lists_def sample_saved_def sample_dht_def c(4) del: map_replicate)
qed

theorem DHT_save_load_witness:
  "\<exists>nodes. DHT_load False (sample_net 1 2) (DHT_save False (sample_saved 3) (replicate (DHT_size (sample_saved 3)) 0)) =
     (0, (sample_net 1 2)\<lparr>loaded_nodes_list := Some nodes, loaded_num_nodes := length (saved_nodes (sample_saved 3))\<rparr>) \<and>
     list_all2 same_node (take (length (saved_nodes (sample_saved 3))) nodes) (saved_nodes (sample_saved 3))"
proof -
  have ok: "\<forall>c\<in>set (saved_lists (sample_saved 3)). saved_ok c" using sample_saved_facts(1) [of 3] by (simp add: list_all_iff)
  have "saved_nodes (sample_saved 3) \<noteq> []" using sample_saved_facts(2) [of 3] by (metis list.size(3) zero_neq_numeral)
  then show ?thesis
    using DHT_save_load [OF ok, of "replicate (DHT_size (sample_saved 3)) 0" False "sample_net 1 2"] sample_saved_facts(2) [of 3] by simp
qed

theorem DHT_save_wraps_witness:
  "DHT_load False (sample_net 1 2) (DHT_save False (sample_saved 1024) (replicate (DHT_size (sample_saved 1024)) 0)) = (- 1, sample_net 1 2)"
  using DHT_save_wraps [of "sample_saved 1024" "replicate (DHT_size (sample_saved 1024)) 0" False "sample_net 1 2"]
    sample_saved_facts [of 1024] by (simp add: list_all_iff)

end
