(* ===== verification/DHT_Maintain.thy ===== *)
theory DHT_Maintain
  imports DHT_Save
begin

text \<open>
  The periodic work of the DHT and the routed packets (\<open>toxcore/DHT.c\<close>, from
  \<open>do_ping_and_sendnode_requests\<close> to \<open>do_DHT\<close>): pinging the known nodes, routing packets to friends,
  punching holes into NATs, the hardening tests and the dispatch of encrypted requests.

  The pointers that a loop collects into a list are positions in the list, since the list may be
  sorted before they are used. \<open>rand()\<close> is the function \<open>de_rand\<close> of the environment, counted by the
  draws of the state. \<open>FRIEND_IPLIST_PAD\<close> is not defined in the build.
\<close>

abbreviation (input) "PING_INTERVAL \<equiv> (60::u64)"
abbreviation (input) "KILL_NODE_TIMEOUT \<equiv> (182::u64)"
abbreviation (input) "GET_NODE_INTERVAL \<equiv> (20::u64)"
abbreviation (input) "MAX_BOOTSTRAP_TIMES \<equiv> (5::u32)"
abbreviation (input) "MAX_PUNCHING_PORTS \<equiv> (48::nat)"
abbreviation (input) "PUNCH_INTERVAL \<equiv> (3::u64)"
abbreviation (input) "MAX_NORMAL_PUNCHING_TRIES \<equiv> (5::u32)"
abbreviation (input) "NAT_PING_REQUEST \<equiv> (0::u8)"
abbreviation (input) "NAT_PING_RESPONSE \<equiv> (1::u8)"
abbreviation (input) "CRYPTO_PACKET_NAT_PING \<equiv> (254::u8)"
abbreviation (input) "HARDENING_INTERVAL \<equiv> (120::u64)"
abbreviation (input) "HARDEN_TIMEOUT \<equiv> (1200::u64)"

section \<open>Pinging known nodes\<close>

definition next_rand :: "dht_env \<Rightarrow> DHT_Net \<Rightarrow> nat \<times> DHT_Net" where
  "next_rand E d = (de_rand E (dn_draws d), d\<lparr>dn_draws := dn_draws d + 1\<rparr>)"

definition get_assoc :: "bool \<Rightarrow> Client_data \<Rightarrow> IPPTsPng" where
  "get_assoc six c = (if six then assoc6 c else assoc4 c)"

definition set_assoc :: "bool \<Rightarrow> IPPTsPng \<Rightarrow> Client_data \<Rightarrow> Client_data" where
  "set_assoc six a c = (if six then c\<lparr>assoc6 := a\<rparr> else c\<lparr>assoc4 := a\<rparr>)"

text \<open>The variables of the scan; \<open>not_kill\<close> is a \<open>uint8_t\<close>.\<close>

record ping_scan =
  ps_list :: "Client_data list"
  ps_net :: DHT_Net
  ps_not_kill :: u8
  ps_sort :: nat
  ps_sort_ok :: bool
  ps_nodes :: "(nat \<times> bool) list"

definition scan_assoc :: "dht_env \<Rightarrow> bytes \<Rightarrow> nat \<Rightarrow> bool \<Rightarrow> ping_scan \<Rightarrow> ping_scan" where
  "scan_assoc E public_key i six s =
     (let client = ps_list s ! i; assoc = get_assoc six client
      in if \<not> is_timeout (de_now E) (timestamp assoc) KILL_NODE_TIMEOUT then
           let s1 = s\<lparr>ps_sort := 0, ps_not_kill := ps_not_kill s + 1\<rparr>;
               s2 = (if is_timeout (de_now E) (last_pinged assoc) PING_INTERVAL
                     then s1\<lparr>ps_net := snd (getnodes E (ps_net s1) (ip_port assoc) (cd_public_key client) public_key None),
                             ps_list := (ps_list s1)[i := set_assoc six (assoc\<lparr>last_pinged := de_now E\<rparr>) client]\<rparr>
                     else s1)
           in if \<not> is_timeout (de_now E) (timestamp assoc) BAD_NODE_TIMEOUT then s2\<lparr>ps_nodes := ps_nodes s2 @ [(i, six)]\<rparr> else s2
         else
           let sort = ps_sort s + 1
           in s\<lparr>ps_sort := sort, ps_sort_ok := ps_sort_ok s \<or> (sort > 1 \<and> sort < (i + 1) * 2 - 1)\<rparr>)"

definition ping_scan_loop :: "dht_env \<Rightarrow> bytes \<Rightarrow> DHT_Net \<Rightarrow> Client_data list \<Rightarrow> ping_scan" where
  "ping_scan_loop E public_key d list =
     fold (\<lambda>i s. scan_assoc E public_key i False (scan_assoc E public_key i True s)) [0..<length list]
       \<lparr>ps_list = list, ps_net = d, ps_not_kill = 0, ps_sort = 0, ps_sort_ok = False, ps_nodes = []\<rparr>"

text \<open>The choice of a node: \<open>rand()\<close> is called a second time unless the last one was drawn.\<close>

definition pick_node :: "dht_env \<Rightarrow> nat \<Rightarrow> DHT_Net \<Rightarrow> nat \<times> DHT_Net" where
  "pick_node E num_nodes d =
     (let (r1, d1) = next_rand E d; rand_node = r1 mod num_nodes
      in if num_nodes - 1 \<noteq> rand_node
         then let (r2, d2) = next_rand E d1 in (rand_node + r2 mod (num_nodes - (rand_node + 1)), d2)
         else (rand_node, d1))"

text \<open>The result, the list, \<open>lastgetnode\<close> and \<open>bootstrap_times\<close> after the call.\<close>

definition do_ping_and_sendnode_requests :: "dht_env \<Rightarrow> DHT_Net \<Rightarrow> u64 \<Rightarrow> bytes \<Rightarrow> Client_data list \<Rightarrow> u32 \<Rightarrow> bool \<Rightarrow>
    u8 \<times> Client_data list \<times> u64 \<times> u32 \<times> DHT_Net" where
  "do_ping_and_sendnode_requests E d last_get public_key list boots sortable =
     (let s = ping_scan_loop E public_key d list;
          list1 = (if sortable \<and> ps_sort_ok s then sort_client_list (de_qsort E) (de_now E) (ps_list s) public_key else ps_list s);
          num_nodes = length (ps_nodes s)
      in if num_nodes \<noteq> 0 \<and> (is_timeout (de_now E) last_get GET_NODE_INTERVAL \<or> boots < MAX_BOOTSTRAP_TIMES) then
           let (rand_node, d2) = pick_node E num_nodes (ps_net s);
               (i, six) = ps_nodes s ! rand_node;
               client = list1 ! i
           in (ps_not_kill s, list1, de_now E, boots + 1,
               snd (getnodes E d2 (ip_port (get_assoc six client)) (cd_public_key client) public_key None))
         else (ps_not_kill s, list1, last_get, boots, ps_net s))"

definition bootstrap_nodes :: "dht_env \<Rightarrow> bytes \<Rightarrow> Node_format list \<Rightarrow> DHT_Net \<Rightarrow> DHT_Net" where
  "bootstrap_nodes E public_key nodes d =
     fold (\<lambda>n d. snd (getnodes E d (nf_ip_port n) (nf_public_key n) public_key None)) nodes d"

definition friend_round :: "dht_env \<Rightarrow> nat \<Rightarrow> DHT_Net \<Rightarrow> DHT_Net" where
  "friend_round E i d =
     (let f = friends_list (dn_dht d) ! i;
          d1 = bootstrap_nodes E (df_public_key f) (take (df_num_to_bootstrap f) (df_to_bootstrap f)) d;
          (_, list, lgn, bt, d2) = do_ping_and_sendnode_requests E d1 (lastgetnode f) (df_public_key f) (client_list f) (bootstrap_times f) True;
          f1 = f\<lparr>df_num_to_bootstrap := 0, client_list := list, lastgetnode := lgn, bootstrap_times := bt\<rparr>
      in d2\<lparr>dn_dht := (dn_dht d2)\<lparr>friends_list := (friends_list (dn_dht d2))[i := f1]\<rparr>\<rparr>)"

definition do_DHT_friends :: "dht_env \<Rightarrow> DHT_Net \<Rightarrow> DHT_Net" where
  "do_DHT_friends E d = fold (friend_round E) [0..<length (friends_list (dn_dht d))] d"

definition mark_bad :: "u64 \<Rightarrow> Client_data \<Rightarrow> Client_data" where
  "mark_bad now c =
     (let badonly = now - BAD_NODE_TIMEOUT;
          reset = (\<lambda>a. if timestamp a \<noteq> 0 then a\<lparr>timestamp := badonly\<rparr> else a)
      in c\<lparr>assoc4 := reset (assoc4 c), assoc6 := reset (assoc6 c)\<rparr>)"

definition do_Close :: "dht_env \<Rightarrow> DHT_Net \<Rightarrow> DHT_Net" where
  "do_Close E d =
     (let dht = dn_dht d;
          d1 = bootstrap_nodes E (self_public_key dht) (take (num_to_bootstrap dht) (to_bootstrap dht)) d;
          (not_killed, list, lgn, bt, d2) = do_ping_and_sendnode_requests E d1 (close_lastgetnodes dht) (self_public_key dht)
             (close_clientlist dht) (close_bootstrap_times dht) False;
          list1 = (if not_killed = 0 then map (mark_bad (de_now E)) list else list)
      in d2\<lparr>dn_dht := (dn_dht d2)\<lparr>num_to_bootstrap := 0, close_clientlist := list1, close_lastgetnodes := lgn, close_bootstrap_times := bt\<rparr>\<rparr>)"

definition DHT_getnodes :: "dht_env \<Rightarrow> DHT_Net \<Rightarrow> IP_Port \<Rightarrow> bytes \<Rightarrow> bytes \<Rightarrow> DHT_Net" where
  "DHT_getnodes E d from_ipp from_id which_id = snd (getnodes E d from_ipp from_id which_id None)"

section \<open>Routing\<close>

definition route_packet :: "dht_env \<Rightarrow> DHT_Net \<Rightarrow> bytes \<Rightarrow> bytes \<Rightarrow> int \<times> DHT_Net" where
  "route_packet E d public_key packet =
     (case find (\<lambda>c. id_equal public_key (cd_public_key c)) (close_clientlist (dn_dht d)) of
        None \<Rightarrow> (- 1, d)
      | Some client \<Rightarrow>
          if ip_isset (ipp_ip (ip_port (assoc6 client))) then send_dht E d (ip_port (assoc6 client)) packet
          else if ip_isset (ipp_ip (ip_port (assoc4 client))) then send_dht E d (ip_port (assoc4 client)) packet
          else (- 1, d))"

text \<open>An address that another node returned for the friend, recently.\<close>

definition returned :: "u64 \<Rightarrow> IPPTsPng \<Rightarrow> bool" where
  "returned now a \<longleftrightarrow> ip_isset (ipp_ip (ret_ip_port a)) \<and> \<not> is_timeout now (ret_timestamp a) BAD_NODE_TIMEOUT"

fun iplist_loop :: "u64 \<Rightarrow> bytes \<Rightarrow> Client_data list \<Rightarrow> IP_Port list \<Rightarrow> IP_Port list \<Rightarrow> (IP_Port list \<times> IP_Port list) option" where
  "iplist_loop now friend_key [] ipv4s ipv6s = Some (ipv4s, ipv6s)"
| "iplist_loop now friend_key (client # rest) ipv4s ipv6s =
     (let ipv4s1 = (if returned now (assoc4 client) then ipv4s @ [ret_ip_port (assoc4 client)] else ipv4s);
          ipv6s1 = (if returned now (assoc6 client) then ipv6s @ [ret_ip_port (assoc6 client)] else ipv6s)
      in if id_equal (cd_public_key client) friend_key \<and> (\<not> assoc_bad now (assoc6 client) \<or> \<not> assoc_bad now (assoc4 client)) then None
         else iplist_loop now friend_key rest ipv4s1 ipv6s1)"

definition friend_iplist :: "u64 \<Rightarrow> DHT \<Rightarrow> nat \<Rightarrow> IP_Port list option" where
  "friend_iplist now dht friend_num =
     (if friend_num \<ge> length (friends_list dht) then None
      else
        let f = friends_list dht ! friend_num
        in case iplist_loop now (df_public_key f) (client_list f) [] [] of
             None \<Rightarrow> Some []
           | Some (ipv4s, ipv6s) \<Rightarrow> Some (if length ipv6s \<ge> length ipv4s then ipv6s else ipv4s))"

definition route_one :: "dht_env \<Rightarrow> bytes \<Rightarrow> DHT_Friend \<Rightarrow> bool \<Rightarrow> nat \<Rightarrow> nat \<times> bool list \<times> DHT_Net \<Rightarrow> nat \<times> bool list \<times> DHT_Net" where
  "route_one E packet f six i st =
     (case st of (sent, friend_sent, d) \<Rightarrow>
        if friend_sent ! i then st
        else
          let assoc = get_assoc six (client_list f ! i)
          in if returned (de_now E) assoc then
               let (retval, d1) = send_dht E d (ip_port assoc) packet
               in if retval = int (length packet) then (sent + 1, friend_sent[i := True], d1) else (sent, friend_sent, d1)
             else st)"

definition route_tofriend :: "dht_env \<Rightarrow> DHT_Net \<Rightarrow> bytes \<Rightarrow> bytes \<Rightarrow> nat \<times> DHT_Net" where
  "route_tofriend E d friend_id packet =
     (case friend_number (dn_dht d) friend_id of
        None \<Rightarrow> (0, d)
      | Some num \<Rightarrow>
          (case friend_iplist (de_now E) (dn_dht d) num of
             None \<Rightarrow> (0, d)
           | Some ip_list \<Rightarrow>
               if length ip_list < MAX_FRIEND_CLIENTS div 4 then (0, d)
               else
                 let f = friends_list (dn_dht d) ! num;
                     st = fold (route_one E packet f False) [0..<MAX_FRIEND_CLIENTS] (0, replicate MAX_FRIEND_CLIENTS False, d);
                     (sent, _, d1) = fold (route_one E packet f True) [0..<MAX_FRIEND_CLIENTS] st
                 in (sent, d1)))"

definition routeone_tofriend :: "dht_env \<Rightarrow> DHT_Net \<Rightarrow> bytes \<Rightarrow> bytes \<Rightarrow> nat \<times> DHT_Net" where
  "routeone_tofriend E d friend_id packet =
     (case friend_number (dn_dht d) friend_id of
        None \<Rightarrow> (0, d)
      | Some num \<Rightarrow>
          let f = friends_list (dn_dht d) ! num;
              ip_list = map ip_port (filter (returned (de_now E)) (map assoc4 (client_list f) @ map assoc6 (client_list f)))
          in if length ip_list < 1 then (0, d)
             else
               let (r, d1) = next_rand E d;
                   (retval, d2) = send_dht E d1 (ip_list ! (r mod length ip_list)) packet
               in (if retval = int (length packet) then 1 else 0, d2))"

section \<open>NAT\<close>

definition send_NATping :: "dht_env \<Rightarrow> DHT_Net \<Rightarrow> bytes \<Rightarrow> u64 \<Rightarrow> u8 \<Rightarrow> int \<times> DHT_Net" where
  "send_NATping E d public_key ping_id type =
     (let (nonce, d1) = next_nonce E d
      in case create_request (de_nacl E) nonce (self_public_key (dn_dht d)) (self_secret_key (dn_dht d)) public_key
                ([type] @ bytes_le 8 (unat ping_id)) CRYPTO_PACKET_NAT_PING of
           None \<Rightarrow> (- 1, d1)
         | Some packet \<Rightarrow>
             let (num, d2) = (if type = NAT_PING_REQUEST then route_tofriend E d1 public_key packet
                              else if type = NAT_PING_RESPONSE then routeone_tofriend E d1 public_key packet
                              else (0, d1))
             in if num = 0 then (- 1, d2) else (int num, d2))"

definition update_nat :: "nat \<Rightarrow> (NAT \<Rightarrow> NAT) \<Rightarrow> DHT_Net \<Rightarrow> DHT_Net" where
  "update_nat i g d =
     (let fs = friends_list (dn_dht d); f = fs ! i
      in d\<lparr>dn_dht := (dn_dht d)\<lparr>friends_list := fs[i := f\<lparr>nat_state := g (nat_state f)\<rparr>]\<rparr>\<rparr>)"

definition handle_NATping :: "dht_env \<Rightarrow> DHT_Net \<Rightarrow> IP_Port \<Rightarrow> bytes \<Rightarrow> bytes \<Rightarrow> int \<times> DHT_Net" where
  "handle_NATping E d source source_pubkey packet =
     (if length packet \<noteq> 8 + 1 then (1, d)
      else
        let ping_id = word_of_nat (le_val (read_at packet 1 8))
        in case friend_number (dn_dht d) source_pubkey of
             None \<Rightarrow> (1, d)
           | Some i \<Rightarrow>
               if packet ! 0 = NAT_PING_REQUEST then
                 (0, update_nat i (\<lambda>n. n\<lparr>recvNATping_timestamp := de_now E\<rparr>) (snd (send_NATping E d source_pubkey ping_id NAT_PING_RESPONSE)))
               else if packet ! 0 = NAT_PING_RESPONSE \<and> NATping_id (nat_state (friends_list (dn_dht d) ! i)) = ping_id then
                 (0, update_nat i (\<lambda>n. n\<lparr>NATping_id := de_random64 E (dn_draws d), hole_punching := True\<rparr>) (d\<lparr>dn_draws := dn_draws d + 1\<rparr>))
               else (1, d))"

definition NAT_commonip :: "IP_Port list \<Rightarrow> nat \<Rightarrow> IP" where
  "NAT_commonip ip_portlist min_num =
     (if length ip_portlist > MAX_FRIEND_CLIENTS then ip_zero
      else case find (\<lambda>p. length (filter (\<lambda>q. ip_equal (ipp_ip p) (ipp_ip q)) ip_portlist) \<ge> min_num) ip_portlist of
             None \<Rightarrow> ip_zero
           | Some p \<Rightarrow> ipp_ip p)"

definition NAT_getports :: "IP_Port list \<Rightarrow> IP \<Rightarrow> u16 list" where
  "NAT_getports ip_portlist ip = map ipp_port (filter (\<lambda>p. ip_equal (ipp_ip p) ip) ip_portlist)"

text \<open>The port of the \<open>i\<close>-th guess: the ports seen, then those one above and below, and so on; unsigned 32-bit arithmetic.\<close>

definition guess_port :: "u16 list \<Rightarrow> u32 \<Rightarrow> u16" where
  "guess_port port_list i =
     (let numports = word_of_nat (length port_list) :: u32
      in ucast (ucast (port_list ! unat (i div 2 mod numports)) + i div (2 * numports) * (if i mod 2 \<noteq> 0 then - 1 else 1)))"

primrec punch_loop :: "dht_env \<Rightarrow> IP \<Rightarrow> bytes \<Rightarrow> (u32 \<Rightarrow> u16) \<Rightarrow> nat \<Rightarrow> u32 \<Rightarrow> DHT_Net \<Rightarrow> DHT_Net" where
  "punch_loop E ip public_key port_of 0 i d = d"
| "punch_loop E ip public_key port_of (Suc n) i d =
     punch_loop E ip public_key port_of n (i + 1) (snd (send_ping_request E d \<lparr>ipp_ip = ip, ipp_port = port_of i\<rparr> public_key))"

definition punch_holes :: "dht_env \<Rightarrow> DHT_Net \<Rightarrow> IP \<Rightarrow> u16 list \<Rightarrow> nat \<Rightarrow> DHT_Net" where
  "punch_holes E d ip port_list friend_num =
     (if length port_list > MAX_FRIEND_CLIENTS \<or> length port_list = 0 then d
      else
        let f = friends_list (dn_dht d) ! friend_num; index = punching_index (nat_state f);
            d1 = (if list_all (\<lambda>p. port_list ! 0 = p) port_list
                  then snd (send_ping_request E d \<lparr>ipp_ip = ip, ipp_port = port_list ! 0\<rparr> (df_public_key f))
                  else update_nat friend_num (\<lambda>n. n\<lparr>punching_index := index + word_of_nat MAX_PUNCHING_PORTS\<rparr>)
                         (punch_loop E ip (df_public_key f) (guess_port port_list) MAX_PUNCHING_PORTS index d));
            index2 = punching_index2 (nat_state f);
            d2 = (if tries (nat_state f) > MAX_NORMAL_PUNCHING_TRIES
                  then update_nat friend_num (\<lambda>n. n\<lparr>punching_index2 := index2 + word_of_nat MAX_PUNCHING_PORTS - word_of_nat (MAX_PUNCHING_PORTS div 2)\<rparr>)
                         (punch_loop E ip (df_public_key f) (\<lambda>i. ucast (1024 + i)) MAX_PUNCHING_PORTS index2 d1)
                  else d1)
        in update_nat friend_num (\<lambda>n. n\<lparr>tries := tries n + 1\<rparr>) d2)"

definition nat_round :: "dht_env \<Rightarrow> nat \<Rightarrow> DHT_Net \<Rightarrow> DHT_Net" where
  "nat_round E i d =
     (case friend_iplist (de_now E) (dn_dht d) i of
        None \<Rightarrow> d
      | Some ip_list \<Rightarrow>
          if length ip_list < MAX_FRIEND_CLIENTS div 2 then d
          else
            let now = de_now E; f = friends_list (dn_dht d) ! i;
                d1 = (if NATping_timestamp (nat_state f) + PUNCH_INTERVAL < now
                      then update_nat i (\<lambda>n. n\<lparr>NATping_timestamp := now\<rparr>)
                             (snd (send_NATping E d (df_public_key f) (NATping_id (nat_state f)) NAT_PING_REQUEST))
                      else d);
                n = nat_state (friends_list (dn_dht d1) ! i)
            in if hole_punching n \<and> punching_timestamp n + PUNCH_INTERVAL < now \<and> recvNATping_timestamp n + PUNCH_INTERVAL * 2 \<ge> now then
                 let ip = NAT_commonip ip_list (MAX_FRIEND_CLIENTS div 2)
                 in if \<not> ip_isset ip then d1
                    else update_nat i (\<lambda>n. n\<lparr>punching_timestamp := now, hole_punching := False\<rparr>)
                           (punch_holes E d1 ip (NAT_getports ip_list ip) i)
               else d1)"

definition do_NAT :: "dht_env \<Rightarrow> DHT_Net \<Rightarrow> DHT_Net" where
  "do_NAT E d = fold (nat_round E) [0..<length (friends_list (dn_dht d))] d"

section \<open>Hardening\<close>

definition send_hardening_req :: "dht_env \<Rightarrow> DHT_Net \<Rightarrow> Node_format \<Rightarrow> u8 \<Rightarrow> bytes \<Rightarrow> int \<times> DHT_Net" where
  "send_hardening_req E d sendto type contents =
     (if length contents > HARDREQ_DATA_SIZE - 1 then (- 1, d)
      else
        let data = [type] @ contents @ replicate (HARDREQ_DATA_SIZE - 1 - length contents) 0;
            (nonce, d1) = next_nonce E d
        in case create_request (de_nacl E) nonce (self_public_key (dn_dht d)) (self_secret_key (dn_dht d)) (nf_public_key sendto)
                  data CRYPTO_PACKET_HARDENING of
             None \<Rightarrow> (- 1, d1)
           | Some packet \<Rightarrow> send_dht E d1 (nf_ip_port sendto) packet)"

definition send_hardening_getnode_req :: "dht_env \<Rightarrow> DHT_Net \<Rightarrow> Node_format \<Rightarrow> Node_format \<Rightarrow> bytes \<Rightarrow> int \<times> DHT_Net" where
  "send_hardening_getnode_req E d dest node_totest search_id =
     send_hardening_req E d dest CHECK_TYPE_GETNODE_REQ (node_image node_totest @ search_id)"

text \<open>The position of the association that the function returns a pointer to.\<close>

definition get_closelist_IPPTsPng :: "DHT \<Rightarrow> bytes \<Rightarrow> u8 \<Rightarrow> (nat \<times> bool) option" where
  "get_closelist_IPPTsPng dht public_key sa_family =
     (if sa_family = AF_INET \<or> sa_family = AF_INET6 then
        (case find (\<lambda>i. memcmp (cd_public_key (close_clientlist dht ! i)) public_key = 0) [0..<length (close_clientlist dht)] of
           None \<Rightarrow> None
         | Some i \<Rightarrow> Some (i, sa_family = AF_INET6))
      else None)"

definition have_nodes_closelist :: "u64 \<Rightarrow> DHT \<Rightarrow> Node_format list \<Rightarrow> nat" where
  "have_nodes_closelist now dht nodes =
     length (filter (\<lambda>n. id_equal (nf_public_key n) (self_public_key dht) \<or>
        (case get_closelist_IPPTsPng dht (nf_public_key n) (node_family n) of
           None \<Rightarrow> False
         | Some (i, six) \<Rightarrow> \<not> is_timeout now (timestamp (get_assoc six (close_clientlist dht ! i))) BAD_NODE_TIMEOUT)) nodes)"

definition handle_hardening :: "dht_env \<Rightarrow> DHT_Net \<Rightarrow> IP_Port \<Rightarrow> bytes \<Rightarrow> bytes \<Rightarrow> int \<times> DHT_Net" where
  "handle_hardening E d source source_pubkey packet =
     (if length packet < 2 then (1, d)
      else if packet ! 0 = CHECK_TYPE_GETNODE_REQ then
        if length packet \<noteq> HARDREQ_DATA_SIZE then (1, d)
        else
          let node = \<lparr>nf_public_key = source_pubkey, nf_ip_port = source\<rparr>;
              tocheck_node = node_of_image (read_at packet 1 SIZEOF_NODE_FORMAT);
              (r, d1) = getnodes E d (nf_ip_port tocheck_node) (nf_public_key tocheck_node)
                (read_at packet (1 + SIZEOF_NODE_FORMAT) crypto_box_PUBLICKEYBYTES) (Some node)
          in (if r = - 1 then 1 else 0, d1)
      else if packet ! 0 = CHECK_TYPE_GETNODE_RES then
        if length packet \<le> crypto_box_PUBLICKEYBYTES + 1 then (1, d)
        else if length packet > 1 + crypto_box_PUBLICKEYBYTES + SIZEOF_NODE_FORMAT * MAX_SENT_NODES then (1, d)
        else
          (case unpack_nodes (de_stack E) MAX_SENT_NODES (drop (1 + crypto_box_PUBLICKEYBYTES) packet) False of
             (_, None) \<Rightarrow> (1, d)
           | (nodes, Some (num_nodes, _)) \<Rightarrow>
               if num_nodes = 0 then (1, d)
               else if have_nodes_closelist (de_now E) (dn_dht d) (take num_nodes nodes) < (num_nodes + 2) div 2 then (1, d)
               else
                 (case get_closelist_IPPTsPng (dn_dht d) (read_at packet 1 crypto_box_PUBLICKEYBYTES) (node_family (nodes ! 0)) of
                    None \<Rightarrow> (1, d)
                  | Some (i, six) \<Rightarrow>
                      let client = close_clientlist (dn_dht d) ! i; temp = get_assoc six client
                      in if is_timeout (de_now E) (send_nodes_timestamp (hardening temp)) HARDENING_INTERVAL then (1, d)
                         else if memcmp (send_nodes_pingedid (hardening temp)) source_pubkey \<noteq> 0 then (1, d)
                         else (0, d\<lparr>dn_dht := (dn_dht d)\<lparr>close_clientlist := (close_clientlist (dn_dht d))[i :=
                                     set_assoc six (temp\<lparr>hardening := (hardening temp)\<lparr>send_nodes_ok := 1\<rparr>\<rparr>) client]\<rparr>\<rparr>)))
      else (1, d))"

primrec random_id :: "dht_env \<Rightarrow> nat \<Rightarrow> DHT_Net \<Rightarrow> bytes \<times> DHT_Net" where
  "random_id E 0 d = ([], d)"
| "random_id E (Suc n) d = (let (t, d1) = next_rand E d; (rest, d2) = random_id E n d1 in (bytes_le 4 t @ rest, d2))"

definition random_node :: "dht_env \<Rightarrow> DHT_Net \<Rightarrow> u8 \<Rightarrow> Node_format \<times> DHT_Net" where
  "random_node E d sa_family =
     (let (rid, d1) = random_id E (crypto_box_PUBLICKEYBYTES div 4) d;
          (nodes_list, num_nodes) = get_close_nodes (de_now E) (close_clientlist (dn_dht d1)) (map client_list (friends_list (dn_dht d1)))
             rid sa_family True
      in if num_nodes = 0 then (nodes_list ! 0, d1)
         else let (r, d2) = next_rand E d1 in (nodes_list ! (r mod num_nodes), d2))"

text \<open>The nodes written to the array, for the rest of the list, which is read from its end.\<close>

fun list_nodes_loop :: "dht_env \<Rightarrow> nat \<Rightarrow> Client_data list \<Rightarrow> DHT_Net \<Rightarrow> Node_format list \<times> DHT_Net" where
  "list_nodes_loop E 0 cs d = ([], d)"
| "list_nodes_loop E (Suc room) [] d = ([], d)"
| "list_nodes_loop E (Suc room) (c # cs) d =
     (let good4 = \<not> assoc_bad (de_now E) (assoc4 c); good6 = \<not> assoc_bad (de_now E) (assoc6 c);
          (six, d1) = (if good4 \<and> good6 then let (r, d1) = next_rand E d in (r mod 2 \<noteq> 0, d1) else (good6, d))
      in if good4 \<or> good6 then
           let (rest, d2) = list_nodes_loop E room cs d1
           in (\<lparr>nf_public_key = cd_public_key c, nf_ip_port = ip_port (get_assoc six c)\<rparr> # rest, d2)
         else list_nodes_loop E (Suc room) cs d1)"

definition list_nodes :: "dht_env \<Rightarrow> Client_data list \<Rightarrow> nat \<Rightarrow> DHT_Net \<Rightarrow> Node_format list \<times> DHT_Net" where
  "list_nodes E list max_num d = list_nodes_loop E max_num (rev list) d"

fun randfriends_loop :: "dht_env \<Rightarrow> nat \<Rightarrow> nat list \<Rightarrow> nat \<Rightarrow> DHT_Net \<Rightarrow> Node_format list \<times> DHT_Net" where
  "randfriends_loop E r [] room d = ([], d)"
| "randfriends_loop E r (i # is) room d =
     (let (ns, d1) = list_nodes E (client_list (friends_list (dn_dht d) ! ((i + r) mod DHT_FAKE_FRIEND_NUMBER))) room d
      in if length ns \<ge> room then (ns, d1)
         else let (rest, d2) = randfriends_loop E r is (room - length ns) d1 in (ns @ rest, d2))"

definition randfriends_nodes :: "dht_env \<Rightarrow> DHT_Net \<Rightarrow> nat \<Rightarrow> Node_format list \<times> DHT_Net" where
  "randfriends_nodes E d max_num =
     (if max_num = 0 then ([], d)
      else let (r, d1) = next_rand E d in randfriends_loop E r [0..<DHT_FAKE_FRIEND_NUMBER] max_num d1)"

definition closelist_nodes :: "dht_env \<Rightarrow> DHT_Net \<Rightarrow> nat \<Rightarrow> Node_format list \<times> DHT_Net" where
  "closelist_nodes E d max_num = list_nodes E (close_clientlist (dn_dht d)) max_num d"

definition harden_round :: "dht_env \<Rightarrow> nat \<Rightarrow> DHT_Net \<Rightarrow> DHT_Net" where
  "harden_round E i d =
     (let client = close_clientlist (dn_dht d) ! (i div 2); six = (i mod 2 \<noteq> 0); cur = get_assoc six client;
          put = (\<lambda>h d. d\<lparr>dn_dht := (dn_dht d)\<lparr>close_clientlist := (close_clientlist (dn_dht d))[i div 2 :=
             set_assoc six (cur\<lparr>hardening := h\<rparr>) client]\<rparr>\<rparr>)
      in if is_timeout (de_now E) (timestamp cur) BAD_NODE_TIMEOUT then d
         else if send_nodes_ok (hardening cur) = 0 then
           if is_timeout (de_now E) (send_nodes_timestamp (hardening cur)) HARDENING_INTERVAL then
             let (rand_node, d1) = random_node E d (if six then AF_INET6 else AF_INET)
             in if \<not> ipport_isset (nf_ip_port rand_node) then d1
                else if id_equal (cd_public_key client) (nf_public_key rand_node) then d1
                else
                  let (r, d2) = send_hardening_getnode_req E d1 rand_node \<lparr>nf_public_key = cd_public_key client, nf_ip_port = ip_port cur\<rparr>
                        (self_public_key (dn_dht d1))
                  in if r > 0 then put ((hardening cur)\<lparr>send_nodes_pingedid := nf_public_key rand_node, send_nodes_timestamp := de_now E\<rparr>) d2
                     else d2
           else d
         else if is_timeout (de_now E) (send_nodes_timestamp (hardening cur)) HARDEN_TIMEOUT
         then put ((hardening cur)\<lparr>send_nodes_ok := 0\<rparr>) d
         else d)"

definition do_hardening :: "dht_env \<Rightarrow> DHT_Net \<Rightarrow> DHT_Net" where
  "do_hardening E d = fold (harden_round E) [0..<LCLIENT_LIST * 2] d"

section \<open>Dispatch and the main loop\<close>

type_synonym cryptopacket_handlers = "u8 \<Rightarrow> (DHT_Net \<Rightarrow> IP_Port \<Rightarrow> bytes \<Rightarrow> bytes \<Rightarrow> int \<times> DHT_Net) option"

text \<open>The handlers that \<open>new_DHT\<close> registers; others may be added for other numbers.\<close>

definition dht_handlers :: "dht_env \<Rightarrow> cryptopacket_handlers" where
  "dht_handlers E = [CRYPTO_PACKET_NAT_PING \<mapsto> handle_NATping E, CRYPTO_PACKET_HARDENING \<mapsto> handle_hardening E]"

definition cryptopacket_registerhandler :: "cryptopacket_handlers \<Rightarrow> u8 \<Rightarrow>
    (DHT_Net \<Rightarrow> IP_Port \<Rightarrow> bytes \<Rightarrow> bytes \<Rightarrow> int \<times> DHT_Net) option \<Rightarrow> cryptopacket_handlers" where
  "cryptopacket_registerhandler handlers byte cb = handlers(byte := cb)"

definition cryptopacket_handle :: "dht_env \<Rightarrow> cryptopacket_handlers \<Rightarrow> DHT_Net \<Rightarrow> IP_Port \<Rightarrow> bytes \<Rightarrow> int \<times> DHT_Net" where
  "cryptopacket_handle E handlers d source packet =
     (if packet ! 0 = NET_PACKET_CRYPTO then
        if length packet \<le> crypto_box_PUBLICKEYBYTES * 2 + crypto_box_NONCEBYTES + 1 + crypto_box_MACBYTES \<or>
           length packet > MAX_CRYPTO_REQUEST_SIZE + crypto_box_MACBYTES then (1, d)
        else if memcmp (read_at packet 1 crypto_box_PUBLICKEYBYTES) (self_public_key (dn_dht d)) = 0 then
          (case handle_request (de_nacl E) (self_public_key (dn_dht d)) (self_secret_key (dn_dht d)) packet of
             None \<Rightarrow> (1, d)
           | Some (public_key, number, data) \<Rightarrow>
               if length data = 0 then (1, d)
               else (case handlers number of None \<Rightarrow> (1, d) | Some f \<Rightarrow> f d source public_key data))
        else
          let (retval, d1) = route_packet E d (read_at packet 1 crypto_box_PUBLICKEYBYTES) packet
          in (if retval = int (length packet) then 0 else 1, d1)
      else (1, d))"

definition do_DHT :: "dht_env \<Rightarrow> DHT_Net \<Rightarrow> DHT_Net option" where
  "do_DHT E d =
     (if last_run d = de_now E then Some d
      else
        let d1 = (if loaded_num_nodes d \<noteq> 0 then snd (DHT_connect_after_load E d) else d)
        in case do_to_ping E (do_NAT E (do_DHT_friends E (do_Close E d1))) of
             None \<Rightarrow> None
           | Some d2 \<Rightarrow> Some (d2\<lparr>last_run := de_now E\<rparr>))"

end
