(* ===== verification/DHT_Upkeep.thy ===== *)
theory DHT_Upkeep
  imports DHT_Maintain
begin

text \<open>
  What the periodic work and the routed packets leave alone: they keep the invariant of the DHT and
  the nodes it knows. Only timestamps, counters and the order of the lists change.
\<close>

section \<open>The nodes that are known\<close>

text \<open>A client's key, its addresses and those it returned for a friend; two lists have the same clients up to the order and the other fields.\<close>

definition client_id :: "Client_data \<Rightarrow> bytes \<times> IP_Port \<times> IP_Port \<times> IP_Port \<times> IP_Port" where
  "client_id c = (cd_public_key c, ip_port (assoc4 c), ip_port (assoc6 c), ret_ip_port (assoc4 c), ret_ip_port (assoc6 c))"

definition same_clients :: "Client_data list \<Rightarrow> Client_data list \<Rightarrow> bool" where
  "same_clients cs cs' \<longleftrightarrow> mset (map client_id cs') = mset (map client_id cs)"

definition same_friend :: "DHT_Friend \<Rightarrow> DHT_Friend \<Rightarrow> bool" where
  "same_friend f f' \<longleftrightarrow> df_public_key f' = df_public_key f \<and> same_clients (client_list f) (client_list f')"

definition same_known :: "DHT_Net \<Rightarrow> DHT_Net \<Rightarrow> bool" where
  "same_known d d' \<longleftrightarrow> same_clients (close_clientlist (dn_dht d)) (close_clientlist (dn_dht d')) \<and>
     list_all2 same_friend (friends_list (dn_dht d)) (friends_list (dn_dht d'))"

lemma same_clients_refl [simp]: "same_clients cs cs"
  by (simp add: same_clients_def)

lemma same_clients_trans: "same_clients a b \<Longrightarrow> same_clients b c \<Longrightarrow> same_clients a c"
  by (simp add: same_clients_def)

lemma same_known_refl [simp]: "same_known d d"
  by (simp add: same_known_def same_friend_def list_all2_refl)

lemma same_known_trans:
  assumes "same_known a b" and "same_known b c"
  shows "same_known a c"
proof -
  have t: "same_friend f h" if "same_friend f g" "same_friend g h" for f g h
    using that same_clients_trans by (auto simp: same_friend_def)
  have "list_all2 same_friend (friends_list (dn_dht a)) (friends_list (dn_dht c))"
    using assms by (auto simp: same_known_def list_all2_conv_all_nth) (blast intro: t)
  then show ?thesis using assms same_clients_trans by (auto simp: same_known_def)
qed

lemma client_lists_same_known: "client_lists d' = client_lists d \<Longrightarrow> same_known d d'"
  by (simp add: client_lists_def same_known_def same_friend_def list_all2_refl)

lemma same_clients_ok:
  assumes "same_clients cs cs'" and "clients_ok cs"
  shows "clients_ok cs' \<and> length cs' = length cs"
proof -
  have m: "mset (map client_id cs') = mset (map client_id cs)" using assms(1) by (simp add: same_clients_def)
  then have len: "length cs' = length cs" using mset_eq_length by fastforce
  have ids: "client_id ` set cs' = client_id ` set cs" using mset_eq_setD [OF m] by simp
  have ok: "client_ok c" if "c \<in> set cs'" for c
  proof -
    have "client_id c \<in> client_id ` set cs" using ids that by blast
    then obtain c0 where "c0 \<in> set cs" "client_id c0 = client_id c" by auto
    then show ?thesis using assms(2) by (auto simp: clients_ok_def client_ok_def client_id_def)
  qed
  have "mset (map fst (map client_id cs')) = mset (map fst (map client_id cs))" using m by (metis mset_map)
  then have "mset (map cd_public_key cs') = mset (map cd_public_key cs)" by (simp add: client_id_def comp_def)
  then have "mset (filter (\<lambda>k. k \<noteq> zero_key) (map cd_public_key cs')) = mset (filter (\<lambda>k. k \<noteq> zero_key) (map cd_public_key cs))"
    by (metis mset_filter)
  then have "unique_keys cs' = unique_keys cs" unfolding unique_keys_def by (rule mset_eq_imp_distinct_iff)
  with ok len assms(2) show ?thesis by (simp add: clients_ok_def)
qed

lemma same_clients_update:
  assumes "client_id c = client_id (cs ! i)"
  shows "same_clients cs (cs[i := c])"
proof -
  have "map client_id (cs[i := c]) = map client_id cs"
  proof (cases "i < length cs")
    case True
    then show ?thesis using list_update_id [of "map client_id cs" i] by (simp add: map_update assms)
  next
    case False
    then have "cs[i := c] = cs" by (simp add: list_update_beyond)
    then show ?thesis by simp
  qed
  then show ?thesis by (simp only: same_clients_def)
qed

lemma client_id_set_assoc [simp]:
  "ip_port a = ip_port (get_assoc six c) \<Longrightarrow> ret_ip_port a = ret_ip_port (get_assoc six c) \<Longrightarrow> client_id (set_assoc six a c) = client_id c"
  by (simp add: client_id_def set_assoc_def get_assoc_def)

text \<open>The states of the upkeep: the invariant, the same nodes, a longer log.\<close>

definition keeps :: "nacl \<Rightarrow> DHT_Net \<Rightarrow> DHT_Net \<Rightarrow> bool" where
  "keeps N d d' \<longleftrightarrow> dht_inv N d' \<and> same_known d d' \<and> later d d'"

lemma keeps_refl: "dht_inv N d \<Longrightarrow> keeps N d d"
  by (simp add: keeps_def)

lemma keeps_trans: "keeps N a b \<Longrightarrow> keeps N b c \<Longrightarrow> keeps N a c"
  using same_known_trans later_trans by (auto simp: keeps_def)

lemma keeps_inv: "keeps N d d' \<Longrightarrow> dht_inv N d'"
  by (simp add: keeps_def)

text \<open>Sending leaves the lists alone; they are the same before and after.\<close>

definition sends :: "nacl \<Rightarrow> DHT_Net \<Rightarrow> DHT_Net \<Rightarrow> bool" where
  "sends N d d' \<longleftrightarrow> dht_inv N d' \<and> dht_lists d' = dht_lists d \<and> later d d'"

lemma sends_refl: "dht_inv N d \<Longrightarrow> sends N d d"
  by (simp add: sends_def)

lemma sends_trans: "sends N a b \<Longrightarrow> sends N b c \<Longrightarrow> sends N a c"
  using later_trans by (auto simp: sends_def)

lemma sends_keeps: "sends N d d' \<Longrightarrow> keeps N d d'"
  unfolding sends_def keeps_def by (blast intro: client_lists_same_known lists_client_lists)

lemma same_dht_sends:
  "dht_inv N d \<Longrightarrow> dn_dht d' = dn_dht d \<Longrightarrow> set (dn_log d) \<subseteq> set (dn_log d') \<Longrightarrow> sends N d d'"
proof -
  assume a: "dht_inv N d" "dn_dht d' = dn_dht d" "set (dn_log d) \<subseteq> set (dn_log d')"
  then have "later d d'" by (simp add: later_def)
  then show ?thesis using same_dht_inv [OF a(1,2)] same_dht_lists [OF a(2)] by (simp add: sends_def)
qed

lemma same_dht_keeps:
  "dht_inv N d \<Longrightarrow> dn_dht d' = dn_dht d \<Longrightarrow> set (dn_log d) \<subseteq> set (dn_log d') \<Longrightarrow> keeps N d d'"
  using same_dht_sends sends_keeps by blast

lemma getnodes_sends_only:
  assumes "dht_inv N d" and "env_ok N E" and "length pk = 32" and "ip_ok (ipp_ip ipp)"
  shows "sends N d (snd (getnodes E d ipp pk cid sb))"
  using getnodes_keeps [OF assms(1,2) _ prod.collapse [symmetric]] assms(3,4) by (simp add: sends_def node_ok_def)

lemma send_ping_request_sends_only:
  assumes "dht_inv N d" and "env_ok N E" and "length pk = 32" and "ip_ok (ipp_ip ipp)"
  shows "sends N d (snd (send_ping_request E d ipp pk))"
  using send_ping_request_keeps [OF assms(1,2) _ prod.collapse [symmetric]] assms(3,4) by (simp add: sends_def node_ok_def)

lemma bootstrap_nodes_sends:
  assumes "dht_inv N d" and "env_ok N E" and "\<forall>n\<in>set ns. node_ok n"
  shows "sends N d (bootstrap_nodes E pk ns d)"
  using assms
proof (induction ns arbitrary: d)
  case (Cons n ns)
  have s: "sends N d (snd (getnodes E d (nf_ip_port n) (nf_public_key n) pk None))"
    using Cons.prems by (intro getnodes_sends_only) (simp_all add: node_ok_def)
  then show ?case using Cons.IH [of "snd (getnodes E d (nf_ip_port n) (nf_public_key n) pk None)"] Cons.prems sends_trans
    by (fastforce simp: bootstrap_nodes_def sends_def)
qed (simp add: bootstrap_nodes_def sends_refl)

section \<open>Pinging known nodes\<close>

definition scan_ok :: "nacl \<Rightarrow> DHT_Net \<Rightarrow> Client_data list \<Rightarrow> ping_scan \<Rightarrow> bool" where
  "scan_ok N d cs s \<longleftrightarrow> sends N d (ps_net s) \<and> same_clients cs (ps_list s) \<and> length (ps_list s) = length cs \<and>
     (\<forall>(i, six)\<in>set (ps_nodes s). i < length cs)"

lemma scan_assoc_ok:
  assumes s: "scan_ok N d cs s" and cs: "clients_ok cs" and E: "env_ok N E" and i: "i < length cs"
  shows "scan_ok N d cs (scan_assoc E pk i six s)"
proof -
  let ?c = "ps_list s ! i" and ?a = "get_assoc six (ps_list s ! i)"
  have "clients_ok (ps_list s)" "?c \<in> set (ps_list s)" using s cs same_clients_ok i by (auto simp: scan_ok_def)
  then have c: "length (cd_public_key ?c) = 32" "ip_ok (ipp_ip (ip_port ?a))" by (auto simp: clients_ok_def client_ok_def get_assoc_def)
  have inv: "dht_inv N (ps_net s)" using s by (simp add: scan_ok_def sends_def)
  have n: "sends N d (snd (getnodes E (ps_net s) (ip_port ?a) (cd_public_key ?c) pk None))"
    using getnodes_sends_only [OF inv E c] s sends_trans by (auto simp: scan_ok_def)
  have "same_clients (ps_list s) ((ps_list s)[i := set_assoc six (?a\<lparr>last_pinged := de_now E\<rparr>) ?c])"
    by (intro same_clients_update) simp
  then have l: "same_clients cs ((ps_list s)[i := set_assoc six (?a\<lparr>last_pinged := de_now E\<rparr>) ?c])"
    using s same_clients_trans by (auto simp: scan_ok_def)
  show ?thesis using s n l i by (auto simp: scan_assoc_def Let_def scan_ok_def)
qed

lemma ping_scan_loop_ok:
  assumes "dht_inv N d" and "clients_ok cs" and "env_ok N E"
  shows "scan_ok N d cs (ping_scan_loop E pk d cs)"
proof -
  have "scan_ok N d cs (fold (\<lambda>i s. scan_assoc E pk i False (scan_assoc E pk i True s)) is s)"
    if "scan_ok N d cs s" "\<forall>i\<in>set is. i < length cs" for "is" s
    using that
  proof (induction "is" arbitrary: s)
    case (Cons i "is")
    then show ?case using scan_assoc_ok [OF _ assms(2,3)] by simp
  qed simp
  moreover have "scan_ok N d cs \<lparr>ps_list = cs, ps_net = d, ps_not_kill = 0, ps_sort = 0, ps_sort_ok = False, ps_nodes = []\<rparr>"
    using assms(1) by (simp add: scan_ok_def sends_refl)
  ultimately show ?thesis by (simp add: ping_scan_loop_def)
qed

lemma pick_node_bounds:
  assumes "pick_node E n d = (k, d')" and "0 < n"
  shows "k < n \<and> dn_dht d' = dn_dht d \<and> dn_log d' = dn_log d"
proof -
  have "r1 mod n + r2 mod (n - (r1 mod n + 1)) < n" if "n - 1 \<noteq> r1 mod n" for r1 r2 :: nat
  proof -
    have "r1 mod n < n" using assms(2) by simp
    then have "0 < n - (r1 mod n + 1)" using that by linarith
    then have "r2 mod (n - (r1 mod n + 1)) < n - (r1 mod n + 1)" by simp
    then show ?thesis by linarith
  qed
  then show ?thesis using assms by (auto simp: pick_node_def next_rand_def Let_def split: if_splits)
qed

lemma do_ping_keeps:
  assumes inv: "dht_inv N d" and cs: "clients_ok cs" and E: "env_ok N E"
    and r: "do_ping_and_sendnode_requests E d last_get pk cs boots sortable = (nk, cs', lgn, bt, d')"
  shows "sends N d d' \<and> same_clients cs cs'"
proof -
  define s where "s = ping_scan_loop E pk d cs"
  have s: "scan_ok N d cs s" using ping_scan_loop_ok [OF inv cs E] by (simp add: s_def)
  define list1 where "list1 = (if sortable \<and> ps_sort_ok s then sort_client_list (de_qsort E) (de_now E) (ps_list s) pk else ps_list s)"
  have "qsort_ok (de_qsort E)" using E by (simp add: env_ok_def)
  then have "mset list1 = mset (ps_list s)" by (simp add: list1_def sort_client_list_mset)
  then have "same_clients (ps_list s) list1" by (simp add: same_clients_def)
  then have l: "same_clients cs list1" using s same_clients_trans by (auto simp: scan_ok_def)
  have cs': "cs' = list1" using r by (auto simp: do_ping_and_sendnode_requests_def s_def [symmetric] list1_def [symmetric] Let_def split: if_splits prod.splits)
  have ps: "sends N d (ps_net s)" using s by (simp add: scan_ok_def)
  have pick: "k < length (ps_nodes s) \<and> dn_dht d2 = dn_dht (ps_net s) \<and> dn_log d2 = dn_log (ps_net s)"
    if "pick_node E (length (ps_nodes s)) (ps_net s) = (k, d2)" "ps_nodes s \<noteq> []" for k d2
    using pick_node_bounds [OF that(1)] that(2) by simp
  consider "d' = ps_net s" | d2 i six where "(i, six) \<in> set (ps_nodes s)" "dn_dht d2 = dn_dht (ps_net s)" "dn_log d2 = dn_log (ps_net s)"
      "d' = snd (getnodes E d2 (ip_port (get_assoc six (list1 ! i))) (cd_public_key (list1 ! i)) pk None)"
  proof (cases "ps_nodes s \<noteq> [] \<and> (is_timeout (de_now E) last_get 20 \<or> boots < 5)")
    case True
    obtain k d2 where k: "pick_node E (length (ps_nodes s)) (ps_net s) = (k, d2)" by fastforce
    then have "d' = snd (getnodes E d2 (ip_port (get_assoc (snd (ps_nodes s ! k)) (list1 ! fst (ps_nodes s ! k))))
        (cd_public_key (list1 ! fst (ps_nodes s ! k))) pk None)"
      using r True by (auto simp: do_ping_and_sendnode_requests_def s_def [symmetric] list1_def [symmetric] Let_def split_beta)
    then show ?thesis using that(2) [of "fst (ps_nodes s ! k)" "snd (ps_nodes s ! k)" d2] pick [OF k] True by simp
  next
    case False
    then show ?thesis using r that(1) by (auto simp: do_ping_and_sendnode_requests_def s_def [symmetric] Let_def)
  qed
  then show ?thesis
  proof cases
    case (2 d2 i six)
    have "i < length cs" using s 2(1) by (auto simp: scan_ok_def)
    then have "clients_ok list1" "list1 ! i \<in> set list1" using l cs same_clients_ok [of cs list1] by auto
    then have c: "length (cd_public_key (list1 ! i)) = 32" "ip_ok (ipp_ip (ip_port (get_assoc six (list1 ! i))))"
      by (auto simp: clients_ok_def client_ok_def get_assoc_def)
    have d2: "sends N (ps_net s) d2" using ps 2(2,3) by (intro same_dht_sends) (auto simp: sends_def)
    then have "sends N d2 d'" unfolding 2(4) using E c by (intro getnodes_sends_only) (simp_all add: sends_def)
    then show ?thesis using ps d2 sends_trans l cs' by blast
  qed (use ps l cs' in simp)
qed

text \<open>Changing only the close list, the friends and counters keeps the invariant.\<close>

lemma friend_update_keeps:
  assumes inv: "dht_inv N d" and f: "friend_ok f'" "df_public_key f' = df_public_key (friends_list (dn_dht d) ! i)"
    "same_clients (client_list (friends_list (dn_dht d) ! i)) (client_list f')"
    and d': "d' = d\<lparr>dn_dht := (dn_dht d)\<lparr>friends_list := (friends_list (dn_dht d))[i := f']\<rparr>\<rparr>"
  shows "keeps N d d'"
proof -
  let ?fs = "friends_list (dn_dht d)"
  have ok: "dht_ok (dn_dht d)" using inv by (simp add: dht_inv_def net_ok_def)
  have "map df_public_key (?fs[i := f']) = map df_public_key ?fs"
  proof (cases "i < length ?fs")
    case True
    then show ?thesis using list_update_id [of "map df_public_key ?fs" i] f(2) by (simp add: map_update)
  next
    case False
    then have "?fs[i := f'] = ?fs" by (simp add: list_update_beyond)
    then show ?thesis by simp
  qed
  moreover have "\<forall>f\<in>set (?fs[i := f']). friend_ok f" using ok f(1) set_update_subset_insert [of ?fs i f'] by (auto simp: dht_ok_def)
  ultimately have "dht_ok (dn_dht d')" using ok by (simp add: d' dht_ok_def)
  then have "dht_inv N d' \<and> later d d'" using core_inv [OF inv, of d'] by (simp add: d' dht_core_def)
  moreover have "same_friend (?fs ! j) (?fs[i := f'] ! j)" if "j < length ?fs" for j
    using that f(2,3) by (cases "i = j") (auto simp: same_friend_def)
  then have "list_all2 same_friend ?fs (?fs[i := f'])" by (simp add: list_all2_conv_all_nth)
  ultimately show ?thesis by (simp add: keeps_def same_known_def d')
qed

lemma close_update_keeps:
  assumes inv: "dht_inv N d" and cs: "same_clients (close_clientlist (dn_dht d)) cs'"
    and d': "d' = d\<lparr>dn_dht := (dn_dht d)\<lparr>num_to_bootstrap := n, close_clientlist := cs', close_lastgetnodes := lgn, close_bootstrap_times := bt\<rparr>\<rparr>"
    and n: "n \<le> MAX_CLOSE_TO_BOOTSTRAP_NODES"
  shows "keeps N d d'"
proof -
  have ok: "dht_ok (dn_dht d)" using inv by (simp add: dht_inv_def net_ok_def)
  then have "clients_ok cs' \<and> length cs' = length (close_clientlist (dn_dht d))"
    using same_clients_ok [OF cs] by (simp add: dht_ok_def)
  then have "dht_ok (dn_dht d')" using ok n by (simp add: d' dht_ok_def)
  then have "dht_inv N d' \<and> later d d'" using core_inv [OF inv, of d'] by (simp add: d' dht_core_def)
  then show ?thesis using cs by (simp add: keeps_def same_known_def d' same_friend_def list_all2_refl)
qed

lemma friend_round_keeps:
  assumes inv: "dht_inv N d" and E: "env_ok N E" and i: "i < length (friends_list (dn_dht d))"
  shows "keeps N d (friend_round E i d)"
proof -
  let ?f = "friends_list (dn_dht d) ! i"
  let ?d1 = "bootstrap_nodes E (df_public_key ?f) (take (df_num_to_bootstrap ?f) (df_to_bootstrap ?f)) d"
  have f: "friend_ok ?f" using inv i by (simp add: dht_inv_def net_ok_def dht_ok_def)
  then have b: "sends N d ?d1" using inv E by (intro bootstrap_nodes_sends) (auto simp: friend_ok_def dest: in_set_takeD)
  obtain nk cs lgn bt d2 where r: "do_ping_and_sendnode_requests E ?d1 (lastgetnode ?f) (df_public_key ?f) (client_list ?f)
      (bootstrap_times ?f) True = (nk, cs, lgn, bt, d2)" by (metis prod_cases5)
  have k: "sends N ?d1 d2" "same_clients (client_list ?f) cs"
    using do_ping_keeps [OF _ _ E r] b f by (simp_all add: sends_def friend_ok_def)
  let ?f1 = "?f\<lparr>df_num_to_bootstrap := 0, client_list := cs, lastgetnode := lgn, bootstrap_times := bt\<rparr>"
  have s: "sends N d d2" using b k(1) sends_trans by blast
  then have fs: "friends_list (dn_dht d2) = friends_list (dn_dht d)" by (simp add: sends_def dht_lists_def)
  have "friend_ok ?f1" using f same_clients_ok [OF k(2)] by (simp add: friend_ok_def)
  then have "keeps N d2 (friend_round E i d)"
    using s k(2) fs r by (intro friend_update_keeps [of N d2 ?f1 i]) (simp_all add: friend_round_def sends_def)
  then show ?thesis using s sends_keeps keeps_trans by blast
qed

lemma keeps_friends: "keeps N d d' \<Longrightarrow> length (friends_list (dn_dht d')) = length (friends_list (dn_dht d))"
  by (auto simp: keeps_def same_known_def dest: list_all2_lengthD)

lemma friends_fold_keeps:
  assumes "\<And>i d. dht_inv N d \<Longrightarrow> i < length (friends_list (dn_dht d)) \<Longrightarrow> keeps N d (g i d)"
    and "dht_inv N d" and "\<forall>i\<in>set is. i < length (friends_list (dn_dht d))"
  shows "keeps N d (fold g is d)"
  using assms(2,3)
proof (induction "is" arbitrary: d)
  case (Cons i "is")
  then have k: "keeps N d (g i d)" using assms(1) by simp
  then have "keeps N (g i d) (fold g is (g i d))"
    using Cons.IH [of "g i d"] Cons.prems keeps_inv keeps_friends by fastforce
  then show ?case using k keeps_trans by simp
qed (simp add: keeps_refl)

lemma do_DHT_friends_keeps:
  assumes "dht_inv N d" and "env_ok N E"
  shows "keeps N d (do_DHT_friends E d)"
  unfolding do_DHT_friends_def using assms by (intro friends_fold_keeps friend_round_keeps) auto

lemma do_Close_keeps:
  assumes inv: "dht_inv N d" and E: "env_ok N E"
  shows "keeps N d (do_Close E d)"
proof -
  let ?dht = "dn_dht d"
  let ?d1 = "bootstrap_nodes E (self_public_key ?dht) (take (num_to_bootstrap ?dht) (to_bootstrap ?dht)) d"
  have ok: "dht_ok ?dht" using inv by (simp add: dht_inv_def net_ok_def)
  then have b: "sends N d ?d1" using inv E by (intro bootstrap_nodes_sends) (auto simp: dht_ok_def dest: in_set_takeD)
  obtain nk cs lgn bt d2 where r: "do_ping_and_sendnode_requests E ?d1 (close_lastgetnodes ?dht) (self_public_key ?dht)
      (close_clientlist ?dht) (close_bootstrap_times ?dht) False = (nk, cs, lgn, bt, d2)" by (metis prod_cases5)
  have k: "sends N ?d1 d2" "same_clients (close_clientlist ?dht) cs"
    using do_ping_keeps [OF _ _ E r] b ok by (simp_all add: sends_def dht_ok_def)
  have s: "sends N d d2" using b k(1) sends_trans by blast
  then have fs: "close_clientlist (dn_dht d2) = close_clientlist ?dht" by (simp add: sends_def dht_lists_def)
  have "map client_id (map (mark_bad (de_now E)) cs) = map client_id cs" by (simp add: client_id_def mark_bad_def Let_def)
  then have "same_clients (close_clientlist ?dht) (map (mark_bad (de_now E)) cs)" using k(2) by (metis same_clients_def)
  then have "keeps N d2 (do_Close E d)"
    using s k(2) fs r by (intro close_update_keeps [where cs' = "if nk = 0 then map (mark_bad (de_now E)) cs else cs" and n = 0 and lgn = lgn and bt = bt])
      (simp_all add: do_Close_def sends_def)
  then show ?thesis using s sends_keeps keeps_trans by blast
qed

section \<open>Routing and NAT\<close>

lemma send_dht_sends: "dht_inv N d \<Longrightarrow> sends N d (snd (send_dht E d ipp p))"
  by (rule same_dht_sends) (auto simp: send_dht_def log_dht_def)

lemma draws_sends: "dht_inv N d \<Longrightarrow> sends N d (d\<lparr>dn_draws := k\<rparr>)"
  by (rule same_dht_sends) auto

lemma route_packet_sends: "dht_inv N d \<Longrightarrow> sends N d (snd (route_packet E d pk p))"
  using send_dht_sends sends_refl by (auto simp: route_packet_def split: option.splits)

lemma route_one_sends:
  assumes "sends N d (snd (snd st))"
  shows "sends N d (snd (snd (route_one E p f six i st)))"
proof -
  obtain sent fl d1 where st: "st = (sent, fl, d1)" by (metis prod_cases3)
  have "sends N d (snd (send_dht E d1 ipp p))" for ipp
    using assms send_dht_sends sends_trans by (auto simp: st sends_def)
  then show ?thesis using assms by (auto simp: st route_one_def Let_def split_beta)
qed

lemma route_fold_sends:
  "sends N d (snd (snd st)) \<Longrightarrow> sends N d (snd (snd (fold (route_one E p f six) is st)))"
  by (induction "is" arbitrary: st) (simp_all add: route_one_sends)

lemma route_tofriend_sends: "dht_inv N d \<Longrightarrow> sends N d (snd (route_tofriend E d pk p))"
  by (auto simp: route_tofriend_def Let_def split_beta sends_refl intro!: route_fold_sends split: option.splits)

lemma routeone_tofriend_sends: 
  assumes "dht_inv N d"
  shows "sends N d (snd (routeone_tofriend E d pk p))"
proof -
  have "sends N d (snd (send_dht E (d\<lparr>dn_draws := k\<rparr>) ipp p))" for k ipp
    using assms draws_sends [of N d k] send_dht_sends [of N "d\<lparr>dn_draws := k\<rparr>"] sends_trans by (auto simp: sends_def)
  then show ?thesis
    using assms by (auto simp: routeone_tofriend_def next_rand_def Let_def split_beta sends_refl split: option.splits)
qed

lemma send_NATping_sends:
  assumes "dht_inv N d"
  shows "sends N d (snd (send_NATping E d pk pid t))"
proof -
  let ?d = "d\<lparr>dn_draws := dn_draws d + 1\<rparr>"
  have d: "sends N d ?d" using assms by (rule draws_sends)
  then have "sends N d (snd (route_tofriend E ?d pk p))" "sends N d (snd (routeone_tofriend E ?d pk p))" for p
    using route_tofriend_sends routeone_tofriend_sends sends_trans by (meson sends_def)+
  then show ?thesis using d by (auto simp: send_NATping_def next_nonce_def Let_def split_beta split: option.splits)
qed

lemma update_nat_keeps:
  assumes "dht_inv N d" and "i < length (friends_list (dn_dht d))"
  shows "keeps N d (update_nat i g d)"
  using assms by (intro friend_update_keeps [of N d "(friends_list (dn_dht d) ! i)\<lparr>nat_state := g (nat_state (friends_list (dn_dht d) ! i))\<rparr>" i])
    (auto simp: update_nat_def Let_def dht_inv_def net_ok_def dht_ok_def friend_ok_def)

lemma friend_number_loop_bound: "friend_number_loop k fs pk = Some i \<Longrightarrow> k \<le> i \<and> i < k + length fs"
  by (induction fs arbitrary: k) (fastforce split: if_splits)+

lemma friend_number_bound: "friend_number d pk = Some i \<Longrightarrow> i < length (friends_list d)"
  using friend_number_loop_bound [of 0] by (fastforce simp: friend_number_def)

lemma sends_update_nat:
  assumes "sends N d d1" and "i < length (friends_list (dn_dht d))"
  shows "keeps N d (update_nat i g d1)"
proof -
  have "friends_list (dn_dht d1) = friends_list (dn_dht d)" "dht_inv N d1" using assms(1) by (simp_all add: sends_def dht_lists_def)
  then show ?thesis using update_nat_keeps [of N d1 i g] assms sends_keeps keeps_trans by metis
qed

lemma keeps_update_nat:
  "keeps N d d1 \<Longrightarrow> i < length (friends_list (dn_dht d)) \<Longrightarrow> keeps N d (update_nat i g d1)"
  using update_nat_keeps [of N d1 i g] keeps_trans keeps_inv keeps_friends by metis

lemma handle_NATping_keeps:
  assumes "dht_inv N d"
  shows "keeps N d (snd (handle_NATping E d source pk packet))"
  using assms friend_number_bound [of "dn_dht d" pk]
  by (auto simp: handle_NATping_def Let_def keeps_refl intro!: sends_update_nat send_NATping_sends draws_sends split: option.splits)

lemma punch_loop_sends:
  assumes "dht_inv N d" and "env_ok N E" and "length pk = 32" and "ip_ok ip"
  shows "sends N d (punch_loop E ip pk port n i d)"
  using assms(1)
proof (induction n arbitrary: d i)
  case (Suc n)
  let ?d1 = "snd (send_ping_request E d \<lparr>ipp_ip = ip, ipp_port = port i\<rparr> pk)"
  have "sends N d ?d1" using Suc.prems assms by (intro send_ping_request_sends_only) simp_all
  then show ?case using Suc.IH [of ?d1 "i + 1"] sends_trans by (fastforce simp: sends_def)
qed (simp add: sends_refl)

lemma ip_zero_ok [simp]: "ip_ok ip_zero"
  by (simp add: ip_ok_def ip_zero_def)

lemma iplist_loop_ok:
  assumes "\<forall>c\<in>set cs. client_ok c" and "\<forall>p\<in>set v4 \<union> set v6. ip_ok (ipp_ip p)" and "iplist_loop now pk cs v4 v6 = Some (a, b)"
  shows "\<forall>p\<in>set a \<union> set b. ip_ok (ipp_ip p)"
  using assms
proof (induction cs arbitrary: v4 v6)
  case (Cons c cs)
  let ?v4 = "if returned now (assoc4 c) then v4 @ [ret_ip_port (assoc4 c)] else v4"
  let ?v6 = "if returned now (assoc6 c) then v6 @ [ret_ip_port (assoc6 c)] else v6"
  have "iplist_loop now pk cs ?v4 ?v6 = Some (a, b)" using Cons.prems(3) by (simp add: Let_def split: if_splits)
  moreover have "\<forall>p\<in>set ?v4 \<union> set ?v6. ip_ok (ipp_ip p)" using Cons.prems(1,2) by (auto simp: client_ok_def)
  ultimately show ?case using Cons.IH Cons.prems(1) by simp
qed simp

lemma friend_iplist_ok:
  assumes "dht_inv N d" and "friend_iplist now (dn_dht d) i = Some l"
  shows "i < length (friends_list (dn_dht d)) \<and> (\<forall>p\<in>set l. ip_ok (ipp_ip p))"
proof -
  have i: "i < length (friends_list (dn_dht d))" using assms(2) by (auto simp: friend_iplist_def split: if_splits)
  then have "friend_ok (friends_list (dn_dht d) ! i)" using assms(1) by (simp add: dht_inv_def net_ok_def dht_ok_def)
  then have "\<forall>c\<in>set (client_list (friends_list (dn_dht d) ! i)). client_ok c" by (simp add: friend_ok_def clients_ok_def)
  note l = iplist_loop_ok [OF this, of "[]" "[]" now]
  show ?thesis
    using assms(2) i l by (fastforce simp: friend_iplist_def Let_def split: if_splits option.splits)
qed

lemma NAT_commonip_ok: "\<forall>p\<in>set l. ip_ok (ipp_ip p) \<Longrightarrow> ip_ok (NAT_commonip l m)"
  by (auto simp: NAT_commonip_def find_Some_iff split: option.splits)

lemma friend_key_length: "dht_inv N d \<Longrightarrow> i < length (friends_list (dn_dht d)) \<Longrightarrow> length (df_public_key (friends_list (dn_dht d) ! i)) = 32"
  by (simp add: dht_inv_def net_ok_def dht_ok_def friend_ok_def)

lemma punch_holes_keeps:
  assumes inv: "dht_inv N d" and E: "env_ok N E" and ip: "ip_ok ip" and i: "i < length (friends_list (dn_dht d))"
  shows "keeps N d (punch_holes E d ip ports i)"
proof (cases "length ports > MAX_FRIEND_CLIENTS \<or> length ports = 0")
  case True
  then show ?thesis using inv by (auto simp: punch_holes_def keeps_refl)
next
  case False
  let ?f = "friends_list (dn_dht d) ! i" and ?pk = "df_public_key (friends_list (dn_dht d) ! i)"
  note pk = friend_key_length [OF inv i]
  define d1 where "d1 = (if list_all (\<lambda>p. ports ! 0 = p) ports then snd (send_ping_request E d \<lparr>ipp_ip = ip, ipp_port = ports ! 0\<rparr> ?pk)
    else update_nat i (\<lambda>n. n\<lparr>punching_index := punching_index (nat_state ?f) + word_of_nat MAX_PUNCHING_PORTS\<rparr>)
      (punch_loop E ip ?pk (guess_port ports) MAX_PUNCHING_PORTS (punching_index (nat_state ?f)) d))"
  have k1: "keeps N d d1"
    using send_ping_request_sends_only [OF inv E pk, of "\<lparr>ipp_ip = ip, ipp_port = ports ! 0\<rparr>"] punch_loop_sends [OF inv E pk ip] ip i
    unfolding d1_def by (auto intro: sends_keeps sends_update_nat)
  define d2 where "d2 = (if tries (nat_state ?f) > MAX_NORMAL_PUNCHING_TRIES
    then update_nat i (\<lambda>n. n\<lparr>punching_index2 := punching_index2 (nat_state ?f) + word_of_nat MAX_PUNCHING_PORTS - word_of_nat (MAX_PUNCHING_PORTS div 2)\<rparr>)
      (punch_loop E ip ?pk (\<lambda>i. ucast (1024 + i)) MAX_PUNCHING_PORTS (punching_index2 (nat_state ?f)) d1) else d1)"
  have "keeps N d1 (punch_loop E ip ?pk f n j d1)" for f n j
    using punch_loop_sends [OF keeps_inv [OF k1] E pk ip] sends_keeps by blast
  then have "keeps N d1 d2" using keeps_update_nat [of N d1] keeps_refl [OF keeps_inv [OF k1]] keeps_friends [OF k1] i by (auto simp: d2_def)
  then have "keeps N d d2" using k1 keeps_trans by blast
  moreover have "punch_holes E d ip ports i = update_nat i (\<lambda>n. n\<lparr>tries := tries n + 1\<rparr>) d2"
    using False by (simp add: punch_holes_def Let_def d1_def d2_def)
  ultimately show ?thesis using keeps_update_nat i by simp
qed

lemma nat_round_keeps:
  assumes inv: "dht_inv N d" and E: "env_ok N E"
  shows "keeps N d (nat_round E i d)"
proof (cases "friend_iplist (de_now E) (dn_dht d) i")
  case None
  then show ?thesis using inv by (simp add: nat_round_def keeps_refl)
next
  case (Some l)
  note l = friend_iplist_ok [OF inv Some]
  let ?f = "friends_list (dn_dht d) ! i"
  define d1 where "d1 = (if NATping_timestamp (nat_state ?f) + PUNCH_INTERVAL < de_now E
    then update_nat i (\<lambda>n. n\<lparr>NATping_timestamp := de_now E\<rparr>) (snd (send_NATping E d (df_public_key ?f) (NATping_id (nat_state ?f)) NAT_PING_REQUEST))
    else d)"
  have k1: "keeps N d d1" using inv l by (auto simp: d1_def keeps_refl intro!: sends_update_nat send_NATping_sends)
  have i: "i < length (friends_list (dn_dht d1))" using l keeps_friends [OF k1] by simp
  have "keeps N d1 (punch_holes E d1 (NAT_commonip l m) ports i)" for m ports
    using keeps_inv [OF k1] E i l by (intro punch_holes_keeps NAT_commonip_ok) auto
  then have k2: "keeps N d (update_nat i g (punch_holes E d1 (NAT_commonip l m) ports i))" for g m ports
    using k1 keeps_trans keeps_update_nat l by meson
  show ?thesis
    using k1 k2 inv unfolding nat_round_def Some option.case Let_def d1_def [symmetric] by (simp add: keeps_refl)
qed

lemma do_NAT_keeps:
  assumes "dht_inv N d" and "env_ok N E"
  shows "keeps N d (do_NAT E d)"
  unfolding do_NAT_def using assms by (intro friends_fold_keeps nat_round_keeps) auto

section \<open>Loaded nodes\<close>

definition loaded_ok :: "DHT_Net \<Rightarrow> bool" where
  "loaded_ok d \<longleftrightarrow> (case loaded_nodes_list d of None \<Rightarrow> True
     | Some ns \<Rightarrow> (\<forall>n\<in>set ns. node_ok n) \<and> loaded_num_nodes d \<le> length ns)"

lemma send_encrypted_loaded [simp]:
  "loaded_nodes_list (snd (send_encrypted E r d ipp t k p)) = loaded_nodes_list d"
  "loaded_num_nodes (snd (send_encrypted E r d ipp t k p)) = loaded_num_nodes d"
  by (simp_all add: send_encrypted_def next_nonce_def send_dht_def log_dht_def Let_def split: option.splits)

lemma getnodes_loaded [simp]:
  "loaded_nodes_list (snd (getnodes E d ipp pk cid None)) = loaded_nodes_list d"
  "loaded_num_nodes (snd (getnodes E d ipp pk cid None)) = loaded_num_nodes d"
  by (simp_all add: getnodes_def key_sent_def Let_def split_beta)

lemma connect_loop_sends:
  assumes "dht_inv N d" and "env_ok N E" and "\<forall>n\<in>set ns. node_ok n" and "0 < loaded_num_nodes d" "loaded_num_nodes d \<le> length ns"
  shows "sends N d (connect_loop E ns k d)"
  using assms(1,4,5)
proof (induction k arbitrary: d)
  case (Suc k)
  let ?n = "ns ! (unat (loaded_nodes_index d) mod loaded_num_nodes d)"
  let ?d1 = "DHT_bootstrap E d (nf_ip_port ?n) (nf_public_key ?n)" and ?d2 = "\<lambda>d1. d1\<lparr>loaded_nodes_index := loaded_nodes_index d1 + 1\<rparr>"
  have "unat (loaded_nodes_index d) mod loaded_num_nodes d < length ns"
    using Suc.prems mod_less_divisor [of "loaded_num_nodes d" "unat (loaded_nodes_index d)"] by linarith
  then have "node_ok ?n" using assms(3) by simp
  then have s: "sends N d ?d1" using Suc.prems assms(2) by (simp add: DHT_bootstrap_def node_ok_def getnodes_sends_only)
  moreover have "sends N ?d1 (?d2 ?d1)" using s by (intro same_dht_sends) (auto simp: sends_def)
  ultimately have s2: "sends N d (?d2 ?d1)" using sends_trans by blast
  then have "sends N (?d2 ?d1) (connect_loop E ns k (?d2 ?d1))"
    using Suc.prems by (intro Suc.IH) (simp_all add: sends_def DHT_bootstrap_def)
  then show ?case using s2 sends_trans by (simp add: Let_def)
qed (simp add: sends_refl)

lemma connect_after_load_sends:
  assumes "dht_inv N d" and "env_ok N E" and "loaded_ok d"
  shows "sends N d (snd (DHT_connect_after_load E d))"
proof (cases "loaded_nodes_list d")
  case (Some ns)
  have "sends N d (d\<lparr>loaded_nodes_list := None, loaded_num_nodes := 0\<rparr>)" using assms(1) by (intro same_dht_sends) auto
  moreover have "sends N d (connect_loop E ns (min (loaded_num_nodes d) 8) d)"
    using assms Some connect_loop_sends [of N d E ns] by (cases "loaded_num_nodes d = 0") (auto simp: loaded_ok_def sends_refl)
  ultimately show ?thesis using Some by (simp add: DHT_connect_after_load_def)
qed (use assms(1) in \<open>simp add: DHT_connect_after_load_def sends_refl\<close>)

lemma do_DHT_keeps:
  assumes "dht_inv N d" and "env_ok N E" and "loaded_ok d" and "do_DHT E d = Some d'"
  shows "keeps N d d'"
proof (cases "last_run d = de_now E")
  case False
  define d1 where "d1 = (if loaded_num_nodes d \<noteq> 0 then snd (DHT_connect_after_load E d) else d)"
  have "sends N d d1" using assms(1-3) connect_after_load_sends by (simp add: d1_def sends_refl)
  then have k1: "keeps N d d1" by (rule sends_keeps)
  have k2: "keeps N d1 (do_Close E d1)" using keeps_inv [OF k1] assms(2) by (rule do_Close_keeps)
  have k3: "keeps N (do_Close E d1) (do_DHT_friends E (do_Close E d1))" using keeps_inv [OF k2] assms(2) by (rule do_DHT_friends_keeps)
  have k4: "keeps N (do_DHT_friends E (do_Close E d1)) (do_NAT E (do_DHT_friends E (do_Close E d1)))"
    using keeps_inv [OF k3] assms(2) by (rule do_NAT_keeps)
  obtain d2 where d2: "do_to_ping E (do_NAT E (do_DHT_friends E (do_Close E d1))) = Some d2" "d' = d2\<lparr>last_run := de_now E\<rparr>"
    using assms(4) False unfolding do_DHT_def Let_def d1_def [symmetric] by (auto split: option.splits)
  have "keeps N (do_NAT E (do_DHT_friends E (do_Close E d1))) d2"
    using do_to_ping_keeps [OF keeps_inv [OF k4] assms(2) d2(1)] client_lists_same_known by (auto simp: keeps_def)
  moreover from this have "keeps N d2 d'" unfolding d2(2) by (intro same_dht_keeps) (auto simp: keeps_def)
  ultimately show ?thesis using k1 k2 k3 k4 keeps_trans by metis
qed (use assms in \<open>simp add: do_DHT_def keeps_refl\<close>)

section \<open>Routed requests\<close>

lemma handle_hardening_keeps:
  assumes inv: "dht_inv N d" and E: "env_ok N E"
  shows "keeps N d (snd (handle_hardening E d source pk packet))"
proof -
  let ?img = "node_of_image (read_at packet 1 64)"
  have g: "keeps N d (snd (getnodes E d (nf_ip_port ?img) (nf_public_key ?img) cid sb))" if "length packet = 384" for cid sb
    using that inv E by (intro sends_keeps getnodes_sends_only) (auto simp: node_of_image_def ip_port_of_image_def ip_ok_def)
  have h: "keeps N d (d\<lparr>dn_dht := (dn_dht d)\<lparr>close_clientlist := (close_clientlist (dn_dht d))[i :=
      set_assoc six ((get_assoc six (close_clientlist (dn_dht d) ! i))\<lparr>hardening := h\<rparr>) (close_clientlist (dn_dht d) ! i)]\<rparr>\<rparr>)" for i six h
    using inv by (intro close_update_keeps [where n = "num_to_bootstrap (dn_dht d)" and lgn = "close_lastgetnodes (dn_dht d)"
          and bt = "close_bootstrap_times (dn_dht d)", OF inv same_clients_update]) (auto simp: dht_inv_def net_ok_def dht_ok_def)
  show ?thesis
    unfolding handle_hardening_def using keeps_refl [OF inv] g h
    by (simp add: Let_def split_beta split: option.splits prod.splits)
qed

lemma cryptopacket_handle_keeps:
  assumes "dht_inv N d" and "env_ok N E" and "handlers = dht_handlers E"
  shows "keeps N d (snd (cryptopacket_handle E handlers d source packet))"
  using assms keeps_refl [of N d] handle_NATping_keeps [of N d] handle_hardening_keeps [of N d E]
    sends_keeps [OF route_packet_sends [of N d E]]
  by (auto simp: cryptopacket_handle_def dht_handlers_def Let_def split_beta split: option.splits)

section \<open>The loaded nodes stay as they are\<close>

text \<open>Only \<open>DHT_load\<close> and \<open>DHT_connect_after_load\<close> write the loaded nodes and their number.\<close>

definition loaded :: "DHT_Net \<Rightarrow> Node_format list option \<times> nat" where
  "loaded d = (loaded_nodes_list d, loaded_num_nodes d)"

lemma loaded_ok_frame: "loaded d' = loaded d \<Longrightarrow> loaded_ok d' = loaded_ok d"
  by (cases "loaded_nodes_list d") (simp_all add: loaded_def loaded_ok_def)

lemma loaded_update [simp]:
  "loaded (d\<lparr>dn_dht := x\<rparr>) = loaded d" "loaded (d\<lparr>dn_draws := n\<rparr>) = loaded d" "loaded (d\<lparr>dn_log := l\<rparr>) = loaded d"
  "loaded (d\<lparr>last_run := r\<rparr>) = loaded d" "loaded (d\<lparr>loaded_nodes_index := w\<rparr>) = loaded d" "loaded (log_dht es d) = loaded d"
  by (simp_all add: loaded_def log_dht_def)

lemma loaded_send [simp]:
  "loaded (snd (send_dht E d ipp p)) = loaded d" "loaded (fst (key_sent E d pk)) = loaded d" "loaded (fst (key_recv E d pk)) = loaded d"
  "loaded (snd (next_nonce E d)) = loaded d" "loaded (snd (next_rand E d)) = loaded d" "loaded (update_nat i g d) = loaded d"
  by (simp_all add: send_dht_def key_sent_def key_recv_def next_nonce_def next_rand_def update_nat_def Let_def split_beta)

lemma loaded_send_encrypted [simp]: "loaded (snd (send_encrypted E r d ipp t k p)) = loaded d"
  by (simp add: send_encrypted_def Let_def split_beta split: option.split)

lemma loaded_requests [simp]:
  "loaded (snd (send_ping_request E d ipp pk)) = loaded d" "loaded (snd (send_ping_response E d ipp pk pid k)) = loaded d"
  "loaded (snd (getnodes E d ipp pk cid sb)) = loaded d" "loaded (snd (sendnodes_ipv6 E d ipp pk cid sd k)) = loaded d"
  by (simp_all add: send_ping_request_def send_ping_response_def getnodes_def sendnodes_ipv6_def Let_def split_beta split: option.split)

lemma loaded_add_to_ping: "add_to_ping E d pk ipp = Some (r, d') \<Longrightarrow> loaded d' = loaded d"
  by (auto simp: add_to_ping_def Let_def bind_eq_Some_conv split_beta split: if_splits sum.splits)

lemma loaded_addto_lists: "addto_lists_net E d ipp pk = Some d' \<Longrightarrow> loaded d' = loaded d"
  by (auto simp: addto_lists_net_def)

lemma loaded_sendnodes_loop: "sendnodes_loop E k ns d = Some d' \<Longrightarrow> loaded d' = loaded d"
  by (induction E k ns d rule: sendnodes_loop.induct) (auto simp: bind_eq_Some_conv split: if_splits)

lemma loaded_sent_getnode: "loaded (snd (sent_getnode_to_node E d pk ipp pid)) = loaded d"
  by (simp add: sent_getnode_to_node_def Let_def split_beta)

lemma loaded_hardening_res: "loaded (snd (send_hardening_getnode_res E d n cid nd)) = loaded d"
  by (simp add: send_hardening_getnode_res_def Let_def split_beta split: option.split)

lemma loaded_sendnodes_core: "handle_sendnodes_core E d source packet n = Some (d', r) \<Longrightarrow> loaded d' = loaded d"
  by (auto simp: handle_sendnodes_core_def Let_def split_beta bind_eq_Some_conv loaded_sent_getnode loaded_hardening_res
      dest!: loaded_addto_lists split: if_splits option.splits)

lemma loaded_do_to_ping_loop: "do_to_ping_loop E k i d = Some (j, d') \<Longrightarrow> loaded d' = loaded d"
  by (induction E k i d arbitrary: j rule: do_to_ping_loop.induct) (auto simp: Let_def bind_eq_Some_conv split: if_splits)

lemma loaded_do_to_ping: "do_to_ping E d = Some d' \<Longrightarrow> loaded d' = loaded d"
  unfolding do_to_ping_def bind_eq_Some_conv using loaded_do_to_ping_loop [of E MAX_TO_PING 0 d]
  by (auto simp: bind_eq_Some_conv simp del: do_to_ping_loop.simps split: if_splits)

lemma dht_step_loaded: "dht_step N d d' \<Longrightarrow> loaded d' = loaded d"
proof (induction rule: dht_step.induct)
  case (ping_request E source d packet r d')
  then show ?case
    by (auto simp: handle_ping_request_def Let_def split_beta bind_eq_Some_conv dest!: loaded_add_to_ping split: if_splits option.splits)
next
  case (ping_response E source d packet r d')
  then show ?case
    by (auto simp: handle_ping_response_def Let_def split_beta dest!: loaded_addto_lists split: if_splits option.splits)
next
  case (nodes_request E source d packet r d')
  then show ?case
    by (auto simp: handle_getnodes_def Let_def split_beta bind_eq_Some_conv dest!: loaded_add_to_ping split: if_splits option.splits)
next
  case (nodes_response E source d packet r d')
  then show ?case
    by (auto simp: handle_sendnodes_ipv6_def bind_eq_Some_conv split: if_splits option.splits)
      (metis loaded_sendnodes_core loaded_sendnodes_loop not_gr_zero)+
next
  case (ask_ping E pk ipp d r d')
  then show ?case using loaded_requests(1) [of E d ipp pk] by simp
next
  case (ask_nodes E pk ipp d cid sb r d')
  then show ?case using loaded_requests(3) [of E d ipp pk cid sb] by simp
qed (rule loaded_do_to_ping)

lemma loaded_fold: "(\<And>x d. loaded (g x d) = loaded d) \<Longrightarrow> loaded (fold g xs d) = loaded d"
  by (induction xs arbitrary: d) simp_all

lemma loaded_scan: "loaded (ps_net (ping_scan_loop E pk d cs)) = loaded d"
proof -
  have "loaded (ps_net (scan_assoc E pk i six s)) = loaded (ps_net s)" for i six s
    by (simp add: scan_assoc_def Let_def)
  then have "loaded (ps_net (fold (\<lambda>i s. scan_assoc E pk i False (scan_assoc E pk i True s)) is s)) = loaded (ps_net s)" for "is" s
    by (induction "is" arbitrary: s) simp_all
  then show ?thesis by (simp add: ping_scan_loop_def)
qed

lemma loaded_ping_round:
  "loaded (snd (snd (snd (snd (do_ping_and_sendnode_requests E d lg pk cs b s))))) = loaded d"
  by (simp add: do_ping_and_sendnode_requests_def pick_node_def Let_def split_beta loaded_scan)

lemma loaded_rounds:
  "loaded (bootstrap_nodes E pk ns d) = loaded d" "loaded (do_Close E d) = loaded d" "loaded (friend_round E i d) = loaded d"
proof -
  show b: "loaded (bootstrap_nodes E pk ns d) = loaded d" for pk ns d unfolding bootstrap_nodes_def by (rule loaded_fold) simp
  show "loaded (do_Close E d) = loaded d" "loaded (friend_round E i d) = loaded d"
    by (simp_all add: do_Close_def friend_round_def Let_def split_beta loaded_ping_round b)
qed

lemma loaded_route [simp]:
  "loaded (snd (route_packet E d pk p)) = loaded d" "loaded (snd (route_tofriend E d fid p)) = loaded d"
  "loaded (snd (routeone_tofriend E d fid p)) = loaded d"
proof -
  have one: "loaded (snd (snd (route_one E p f six i st))) = loaded (snd (snd st))" for f six i st
    by (simp add: route_one_def Let_def split_beta split: prod.split)
  have all: "loaded (snd (snd (fold (route_one E p f six) is st))) = loaded (snd (snd st))" for f six "is" st
    by (induction "is" arbitrary: st) (simp_all add: one)
  show "loaded (snd (route_packet E d pk p)) = loaded d" by (simp add: route_packet_def split: option.split)
  show "loaded (snd (route_tofriend E d fid p)) = loaded d" by (simp add: route_tofriend_def Let_def split_beta all split: option.split)
  show "loaded (snd (routeone_tofriend E d fid p)) = loaded d" by (simp add: routeone_tofriend_def Let_def split_beta split: option.split)
qed

lemma loaded_NATping [simp]: "loaded (snd (send_NATping E d pk pid t)) = loaded d"
  by (simp add: send_NATping_def Let_def split_beta split: option.split)

lemma loaded_punch [simp]: "loaded (punch_loop E ip pk g n i d) = loaded d" "loaded (punch_holes E d ip ps j) = loaded d"
proof -
  show "loaded (punch_loop E ip pk g n i d) = loaded d" for pk g n i d by (induction n arbitrary: i d) simp_all
  then show "loaded (punch_holes E d ip ps j) = loaded d" by (simp add: punch_holes_def Let_def)
qed

lemma loaded_nat_round: "loaded (nat_round E i d) = loaded d"
  by (simp add: nat_round_def Let_def split: option.split)

lemma loaded_cryptopacket:
  assumes "handlers = dht_handlers E"
  shows "loaded (snd (cryptopacket_handle E handlers d source packet)) = loaded d"
proof -
  have "loaded (snd (handle_NATping E d source pk p)) = loaded d" for pk p
    by (simp add: handle_NATping_def Let_def split: option.split)
  moreover have "loaded (snd (handle_hardening E d source pk p)) = loaded d" for pk p
    by (simp add: handle_hardening_def Let_def split_beta split: option.split prod.split)
  ultimately show ?thesis
    using assms by (auto simp: cryptopacket_handle_def dht_handlers_def Let_def split_beta split: option.splits)
qed

lemma connect_after_load_loaded_ok:
  assumes "loaded_ok d"
  shows "loaded_ok (snd (DHT_connect_after_load E d))"
proof -
  have "loaded (connect_loop E ns k d) = loaded d" for ns k
    by (induction k arbitrary: d) (simp_all add: Let_def DHT_bootstrap_def)
  then have "loaded_ok (connect_loop E ns k d)" for ns k using assms loaded_ok_frame by metis
  moreover have "loaded_ok (d\<lparr>loaded_nodes_list := None, loaded_num_nodes := 0\<rparr>)" by (simp add: loaded_ok_def)
  ultimately show ?thesis using assms by (simp add: DHT_connect_after_load_def split: option.split)
qed

lemma do_DHT_loaded_ok:
  assumes "loaded_ok d" and "do_DHT E d = Some d'"
  shows "loaded_ok d'"
proof -
  define d1 where "d1 = (if loaded_num_nodes d \<noteq> 0 then snd (DHT_connect_after_load E d) else d)"
  have ok: "loaded_ok d1" using assms(1) connect_after_load_loaded_ok by (simp add: d1_def)
  have "loaded (do_NAT E (do_DHT_friends E (do_Close E d1))) = loaded d1"
    by (simp add: do_NAT_def do_DHT_friends_def loaded_fold loaded_nat_round loaded_rounds)
  then have "loaded_ok d2" if "do_to_ping E (do_NAT E (do_DHT_friends E (do_Close E d1))) = Some d2" for d2
    using loaded_do_to_ping [OF that] ok loaded_ok_frame by metis
  then have "loaded_ok (d2\<lparr>last_run := w\<rparr>)" if "do_to_ping E (do_NAT E (do_DHT_friends E (do_Close E d1))) = Some d2" for d2 w
    using that loaded_ok_frame loaded_update(4) by metis
  then show ?thesis using assms unfolding do_DHT_def Let_def d1_def [symmetric] by (auto split: if_splits option.splits)
qed

text \<open>Loading: every section is read into the same array; the nodes unpacked are well formed.\<close>

lemma load_state_loop_inv:
  assumes "P s" and "\<And>s b t. P s \<Longrightarrow> P (snd (cb s b t))"
  shows "P (snd (load_state_loop be cb cookie s data))"
  using assms(1)
proof (induction data arbitrary: s rule: length_induct)
  case (1 data)
  then show ?case by (subst load_state_loop.simps) (auto simp: Let_def split_beta assms(2))
qed

lemma load_callback_ok:
  assumes "dht_inv N d" and "keeps N d0 d" and "loaded_ok d"
  shows "keeps N d0 (snd (dht_load_state_callback d data type)) \<and> loaded_ok (snd (dht_load_state_callback d data type))"
proof (cases "type = DHT_STATE_TYPE_NODES \<and> data \<noteq> []")
  case True
  let ?z = "replicate MAX_SAVED_DHT_NODES node_zero" and ?b = "take (length data mod 2 ^ 16) data"
  obtain ns r where u: "unpack_nodes ?z MAX_SAVED_DHT_NODES ?b False = (ns, r)" by fastforce
  have z: "\<forall>n\<in>set ?z. node_ok n" "MAX_SAVED_DHT_NODES \<le> length ?z" using sample_ok by simp_all
  have ns: "length ns = MAX_SAVED_DHT_NODES \<and> (\<forall>n\<in>set ns. node_ok n)"
    using unpack_loop_frame [OF z, of ns ?b False 0 0] u by (simp add: unpack_nodes_def)
  have num: "num \<le> MAX_SAVED_DHT_NODES" if "r = Some (num, p)" for num p
    using unpack_loop_sound [OF z, of 0 ?b 0 False ns num p] u that by (simp add: unpack_nodes_def)
  have k: "keeps N d (d\<lparr>loaded_nodes_list := l, loaded_num_nodes := n\<rparr>)" for l n using assms(1) by (intro same_dht_keeps) auto
  show ?thesis using True k u ns num keeps_trans [OF assms(2) k]
    by (auto simp: dht_load_state_callback_def loaded_ok_def split: option.split)
qed (use assms in \<open>auto simp: dht_load_state_callback_def\<close>)

lemma DHT_load_keeps:
  assumes "dht_inv N d" and "loaded_ok d"
  shows "keeps N d (snd (DHT_load be d data)) \<and> loaded_ok (snd (DHT_load be d data))"
proof -
  have "keeps N d (snd (load_state_loop be dht_load_state_callback c d b)) \<and> loaded_ok (snd (load_state_loop be dht_load_state_callback c d b))" for c b
    using assms keeps_refl load_callback_ok keeps_inv by (intro load_state_loop_inv [where P = "\<lambda>s. keeps N d s \<and> loaded_ok s"]) blast+
  then show ?thesis using assms keeps_refl by (auto simp: DHT_load_def load_state_def)
qed

section \<open>The running DHT\<close>

text \<open>Packets, requests of the other components, the periodic work, routed packets and a loaded file.\<close>

inductive dht_run :: "nacl \<Rightarrow> DHT_Net \<Rightarrow> DHT_Net \<Rightarrow> bool" for N where
  packet: "dht_step N d d' \<Longrightarrow> dht_run N d d'"
| upkeep: "env_ok N E \<Longrightarrow> do_DHT E d = Some d' \<Longrightarrow> dht_run N d d'"
| routed: "env_ok N E \<Longrightarrow> cryptopacket_handle E (dht_handlers E) d source packet = (r, d') \<Longrightarrow> dht_run N d d'"
| load: "DHT_load be d data = (r, d') \<Longrightarrow> dht_run N d d'"

lemma dht_run_step:
  assumes "dht_run N d d'" and inv: "dht_inv N d" "loaded_ok d"
  shows "dht_inv N d' \<and> loaded_ok d' \<and> later d d' \<and> (dht_step N d d' \<or> same_known d d')"
  using assms(1)
proof cases
  case packet
  then show ?thesis using dht_step_inv [OF packet inv(1)] dht_step_loaded [OF packet] loaded_ok_frame inv(2) by blast
next
  case (upkeep E)
  then show ?thesis using do_DHT_keeps [OF inv(1) upkeep(1) inv(2)] do_DHT_loaded_ok [OF inv(2)] by (simp add: keeps_def)
next
  case (routed E source packet r)
  have "loaded_ok d'" using loaded_cryptopacket [OF refl, of E d source packet] routed(2) loaded_ok_frame inv(2) by (metis snd_conv)
  then show ?thesis using cryptopacket_handle_keeps [OF inv(1) routed(1) refl, of source packet] routed(2) by (simp add: keeps_def)
next
  case (load be data r)
  then show ?thesis using DHT_load_keeps [OF inv, of be data] by (simp add: keeps_def)
qed

lemma dht_runs_inv:
  "(dht_run N)\<^sup>*\<^sup>* d d' \<Longrightarrow> dht_inv N d \<Longrightarrow> loaded_ok d \<Longrightarrow> dht_inv N d' \<and> loaded_ok d' \<and> later d d'"
  by (induction rule: rtranclp_induct) (auto dest: dht_run_step intro: later_trans)

text \<open>
  C9. A node enters the close list or a friend's list, or its addresses there change, only as the
  answer to one of our own requests. In every state that the running DHT reaches from a good one by
  handling packets, asking other nodes, its periodic work, routed requests and loading a saved file,
  the state, the arrays of outstanding requests and the loaded nodes stay well formed, and a step
  either keeps the nodes that are known, or it accepts a response for which a matching request was
  sent before to the key of the responder, at the address the response came from.
\<close>

theorem known_nodes_answer_requests:
  assumes "dht_inv N d0" and "loaded_ok d0" and "(dht_run N)\<^sup>*\<^sup>* d0 d" and "dht_run N d d'"
  shows "dht_inv N d' \<and> loaded_ok d' \<and> (same_known d d' \<or> (\<exists>E source packet n i pre pid.
    (handle_ping_response E d source packet = Some (0, d') \<and> i = NET_PACKET_PING_REQUEST \<or>
     handle_sendnodes_ipv6 E d source packet = Some (0, d') \<and> i = NET_PACKET_GET_NODES) \<and>
    nf_public_key n = read_at packet 1 32 \<and> ipport_equal (nf_ip_port n) source \<and>
    asked N d i n (pre @ bytes_le 8 (unat (pid :: u64)))))"
proof -
  have inv: "dht_inv N d" "loaded_ok d" using dht_runs_inv [OF assms(3,1,2)] by blast+
  note s = dht_run_step [OF assms(4) inv]
  show ?thesis
  proof (cases "dht_step N d d' \<and> client_lists d' \<noteq> client_lists d")
    case True
    then show ?thesis using s client_change_by_answer [OF inv(1)] by blast
  next
    case False
    then show ?thesis using s client_lists_same_known by blast
  qed
qed

lemma same_known_keys: "same_known d d' \<Longrightarrow>
    cd_public_key ` set (close_clientlist (dn_dht d')) = cd_public_key ` set (close_clientlist (dn_dht d))"
proof -
  assume "same_known d d'"
  then have "client_id ` set (close_clientlist (dn_dht d')) = client_id ` set (close_clientlist (dn_dht d))"
    using mset_eq_setD [of "map client_id (close_clientlist (dn_dht d'))" "map client_id (close_clientlist (dn_dht d))"]
    by (simp add: same_known_def same_clients_def)
  then have "fst ` client_id ` set (close_clientlist (dn_dht d')) = fst ` client_id ` set (close_clientlist (dn_dht d))" by simp
  then show ?thesis by (simp add: image_image client_id_def)
qed

theorem known_nodes_answer_requests_witness:
  "\<exists>d d' n i pre pid. replicate 32 3 \<in> cd_public_key ` set (close_clientlist (dn_dht d')) \<and>
     replicate 32 3 \<notin> cd_public_key ` set (close_clientlist (dn_dht d)) \<and> dht_inv nacl_identity d' \<and>
     asked nacl_identity d i n (pre @ bytes_le 8 (unat (pid :: u64)))"
proof -
  obtain d d' where d: "dht_step nacl_identity (sample_net 1 2) d" "dht_step nacl_identity d d'"
    and k: "replicate 32 3 \<in> cd_public_key ` set (close_clientlist (dn_dht d'))"
      "replicate 32 3 \<notin> cd_public_key ` set (close_clientlist (dn_dht d))" by (rule sample_exchange)
  have l: "loaded_ok (sample_net 1 2)" by (simp add: loaded_ok_def sample_net_def)
  have r: "(dht_run nacl_identity)\<^sup>*\<^sup>* (sample_net 1 2) d" using dht_run.packet [OF d(1)] by blast
  have "\<not> same_known d d'" using k same_known_keys by blast
  with known_nodes_answer_requests [OF sample_net_inv l r dht_run.packet [OF d(2)]] k show ?thesis by blast
qed

end
