(* ===== verification/TCP_Stream.thy ===== *)
theory TCP_Stream
  imports Crypto_Core "HOL-Library.Sublist"
begin

text \<open>
  The encrypted packet stream over a TCP socket, written the same way in \<open>toxcore/TCP_server.c\<close> and
  \<open>toxcore/TCP_client.c\<close>: a packet is encrypted, put behind a two byte length and sent; what the
  socket does not take at once waits in \<open>last_packet\<close> or in the list of priority packets.

  The two structures of the code share the fields of the record \<open>tcp_pipe\<close> and extend it. A socket is
  what the operating system shows of it: the bytes received and not yet read, the bytes sent, and the
  number of calls, by which the environment answers \<open>send\<close>, \<open>recv\<close> and \<open>malloc\<close>. The priority list is
  the list of its elements, each with the number of bytes sent.
\<close>

abbreviation (input) "MAX_PACKET_SIZE \<equiv> (2048::nat)"

section \<open>Sockets\<close>

record tcp_env =
  te_now :: u64
  te_nacl :: nacl
  te_send :: "nat \<Rightarrow> nat \<Rightarrow> nat \<Rightarrow> int"
  te_recv :: "nat \<Rightarrow> nat \<Rightarrow> nat \<Rightarrow> int"
  te_alloc :: "nat \<Rightarrow> nat \<Rightarrow> bool"

record tcp_sock =
  sk_fd :: nat
  sk_in :: bytes
  sk_out :: bytes
  sk_calls :: nat

record tcp_pipe =
  tp_sock :: tcp_sock
  tp_recv_nonce :: bytes
  tp_sent_nonce :: bytes
  tp_shared_key :: bytes
  next_packet_length :: nat
  last_packet :: bytes
  last_packet_length :: nat
  last_packet_sent :: nat
  priority_queue :: "(bytes \<times> nat) list"

definition sock_send :: "tcp_env \<Rightarrow> tcp_sock \<Rightarrow> bytes \<Rightarrow> int \<times> tcp_sock" where
  "sock_send E s data =
     (let r = te_send E (sk_fd s) (sk_calls s) (length data)
      in (r, s\<lparr>sk_out := sk_out s @ take (nat r) data, sk_calls := sk_calls s + 1\<rparr>))"

definition sock_recv :: "tcp_env \<Rightarrow> tcp_sock \<Rightarrow> nat \<Rightarrow> int \<times> bytes \<times> tcp_sock" where
  "sock_recv E s n =
     (let r = te_recv E (sk_fd s) (sk_calls s) n
      in (r, take (nat r) (sk_in s), s\<lparr>sk_in := drop (nat r) (sk_in s), sk_calls := sk_calls s + 1\<rparr>))"

text \<open>Bytes that arrive from the network.\<close>

definition arrive :: "bytes \<Rightarrow> 'a tcp_pipe_scheme \<Rightarrow> 'a tcp_pipe_scheme" where
  "arrive b c = c\<lparr>tp_sock := (tp_sock c)\<lparr>sk_in := sk_in (tp_sock c) @ b\<rparr>\<rparr>"

definition TCP_socket_data_recv_buffer :: "tcp_sock \<Rightarrow> nat" where
  "TCP_socket_data_recv_buffer s = length (sk_in s)"

section \<open>Reading\<close>

text \<open>The result \<open>~0\<close> is \<open>65535\<close>.\<close>

definition read_TCP_length :: "tcp_env \<Rightarrow> tcp_sock \<Rightarrow> nat \<times> tcp_sock" where
  "read_TCP_length E s =
     (if TCP_socket_data_recv_buffer s \<ge> 2 then
        let (len, d, s1) = sock_recv E s 2
        in if len \<noteq> 2 then (0, s1)
           else if be_val d > MAX_PACKET_SIZE then (65535, s1)
           else (be_val d, s1)
      else (0, s))"

definition read_TCP_packet :: "tcp_env \<Rightarrow> tcp_sock \<Rightarrow> nat \<Rightarrow> int \<times> bytes \<times> tcp_sock" where
  "read_TCP_packet E s n =
     (if TCP_socket_data_recv_buffer s \<ge> n then
        let (len, d, s1) = sock_recv E s n
        in if len \<noteq> int n then (- 1, d, s1) else (len, d, s1)
      else (- 1, [], s))"

definition read_packet_TCP_secure_connection :: "tcp_env \<Rightarrow> 'a tcp_pipe_scheme \<Rightarrow> nat \<Rightarrow> int \<times> bytes \<times> 'a tcp_pipe_scheme" where
  "read_packet_TCP_secure_connection E c max_len =
     (let (r, c1) =
        (if next_packet_length c = 0 then
           let (len, s1) = read_TCP_length E (tp_sock c); c1 = c\<lparr>tp_sock := s1\<rparr>
           in if len = 65535 then (- 1, c1) else if len = 0 then (0, c1) else (1, c1\<lparr>next_packet_length := len\<rparr>)
         else (1, c))
      in if r \<noteq> 1 then (r, [], c1)
         else if max_len + crypto_box_MACBYTES < next_packet_length c1 then (- 1, [], c1)
         else
           let (len_packet, data_encrypted, s2) = read_TCP_packet E (tp_sock c1) (next_packet_length c1);
               c2 = c1\<lparr>tp_sock := s2\<rparr>
           in if len_packet \<noteq> int (next_packet_length c1) then (0, [], c2)
              else
                let c3 = c2\<lparr>next_packet_length := 0\<rparr>;
                    plain = decrypt_data_symmetric (te_nacl E) (tp_shared_key c3) (tp_recv_nonce c3) data_encrypted;
                    len = (case plain of None \<Rightarrow> - 1 | Some p \<Rightarrow> int (length p))
                in if len + int crypto_box_MACBYTES \<noteq> len_packet then (- 1, [], c3)
                   else (len, (case plain of None \<Rightarrow> [] | Some p \<Rightarrow> p), c3\<lparr>tp_recv_nonce := increment_nonce (tp_recv_nonce c3)\<rparr>))"

section \<open>Writing\<close>

definition send_pending_data_nonpriority :: "tcp_env \<Rightarrow> 'a tcp_pipe_scheme \<Rightarrow> int \<times> 'a tcp_pipe_scheme" where
  "send_pending_data_nonpriority E c =
     (if last_packet_length c = 0 then (0, c)
      else
        let left = last_packet_length c - last_packet_sent c;
            (len, s1) = sock_send E (tp_sock c) (read_at (last_packet c) (last_packet_sent c) left);
            c1 = c\<lparr>tp_sock := s1\<rparr>
        in if len \<le> 0 then (- 1, c1)
           else if len = int left then (0, c1\<lparr>last_packet_length := 0, last_packet_sent := 0\<rparr>)
           else (- 1, c1\<lparr>last_packet_sent := last_packet_sent c1 + nat len\<rparr>))"

fun send_queue :: "tcp_env \<Rightarrow> tcp_sock \<Rightarrow> (bytes \<times> nat) list \<Rightarrow> tcp_sock \<times> (bytes \<times> nat) list" where
  "send_queue E s [] = (s, [])"
| "send_queue E s ((data, sent) # p) =
     (let left = length data - sent; (len, s1) = sock_send E s (drop sent data)
      in if len \<noteq> int left then (s1, (data, if len > 0 then sent + nat len else sent) # p)
         else send_queue E s1 p)"

definition send_pending_data :: "tcp_env \<Rightarrow> 'a tcp_pipe_scheme \<Rightarrow> int \<times> 'a tcp_pipe_scheme" where
  "send_pending_data E c =
     (let (r, c1) = send_pending_data_nonpriority E c
      in if r = - 1 then (- 1, c1)
         else
           let (s, p) = send_queue E (tp_sock c1) (priority_queue c1)
           in (if p = [] then 0 else - 1, c1\<lparr>tp_sock := s, priority_queue := p\<rparr>))"

definition add_priority :: "tcp_env \<Rightarrow> 'a tcp_pipe_scheme \<Rightarrow> bytes \<Rightarrow> nat \<Rightarrow> int \<times> 'a tcp_pipe_scheme" where
  "add_priority E c packet sent =
     (if te_alloc E (sk_fd (tp_sock c)) (sk_calls (tp_sock c))
      then (1, c\<lparr>priority_queue := priority_queue c @ [(packet, sent)]\<rparr>)
      else (0, c))"

text \<open>The part of \<open>write_packet_TCP_secure_connection\<close> that sends the encrypted packet.\<close>

definition send_frame :: "tcp_env \<Rightarrow> 'a tcp_pipe_scheme \<Rightarrow> bytes \<Rightarrow> bool \<Rightarrow> bool \<Rightarrow> int \<times> 'a tcp_pipe_scheme" where
  "send_frame E c packet priority sendpriority =
     (if priority then
        let (len, s) = (if sendpriority then sock_send E (tp_sock c) packet else (0, tp_sock c));
            len = (if len \<le> 0 then 0 else len);
            c1 = c\<lparr>tp_sock := s, tp_sent_nonce := increment_nonce (tp_sent_nonce c)\<rparr>
        in if len = int (length packet) then (1, c1) else add_priority E c1 packet (nat len)
      else
        let (len, s) = sock_send E (tp_sock c) packet; c1 = c\<lparr>tp_sock := s\<rparr>
        in if len \<le> 0 then (0, c1)
           else
             let c2 = c1\<lparr>tp_sent_nonce := increment_nonce (tp_sent_nonce c1)\<rparr>
             in if len = int (length packet) then (1, c2)
                else (1, c2\<lparr>last_packet := memcpy_at (last_packet c2) 0 packet,
                           last_packet_length := length packet, last_packet_sent := nat len\<rparr>))"

definition write_packet_TCP_secure_connection :: "tcp_env \<Rightarrow> 'a tcp_pipe_scheme \<Rightarrow> bytes \<Rightarrow> bool \<Rightarrow> int \<times> 'a tcp_pipe_scheme" where
  "write_packet_TCP_secure_connection E c data priority =
     (if length data + crypto_box_MACBYTES > MAX_PACKET_SIZE then (- 1, c)
      else
        let (r, c1) = send_pending_data E c
        in if r = - 1 \<and> \<not> priority then (0, c1)
           else case encrypt_data_symmetric (te_nacl E) (tp_shared_key c1) (tp_sent_nonce c1) data of
             None \<Rightarrow> (- 1, c1)
           | Some enc \<Rightarrow>
               if length enc \<noteq> length data + crypto_box_MACBYTES then (- 1, c1)
               else send_frame E c1 (bytes_be 2 (length data + crypto_box_MACBYTES) @ enc) priority (r \<noteq> - 1))"

section \<open>The stream of a pipe\<close>

text \<open>What was sent and what still has to be sent, in order.\<close>

definition pipe_pending :: "'a tcp_pipe_scheme \<Rightarrow> bytes" where
  "pipe_pending c = read_at (last_packet c) (last_packet_sent c) (last_packet_length c - last_packet_sent c) @
     concat (map (\<lambda>(data, sent). drop sent data) (priority_queue c))"

definition pipe_stream :: "'a tcp_pipe_scheme \<Rightarrow> bytes" where
  "pipe_stream c = sk_out (tp_sock c) @ pipe_pending c"

definition pipe_ok :: "'a tcp_pipe_scheme \<Rightarrow> bool" where
  "pipe_ok c \<longleftrightarrow> length (last_packet c) = 2 + MAX_PACKET_SIZE \<and> last_packet_length c \<le> 2 + MAX_PACKET_SIZE \<and>
     (if last_packet_length c = 0 then last_packet_sent c = 0 else last_packet_sent c < last_packet_length c) \<and>
     (\<forall>(data, sent)\<in>set (priority_queue c). sent < length data) \<and>
     length (tp_sent_nonce c) = 24 \<and> length (tp_recv_nonce c) = 24"

text \<open>
  The environment: \<open>send\<close> takes at most what it is given, \<open>recv\<close> returns what is in the buffer, and the
  allocations succeed.
\<close>

definition tcp_env_ok :: "nacl \<Rightarrow> tcp_env \<Rightarrow> bool" where
  "tcp_env_ok N E \<longleftrightarrow> te_nacl E = N \<and> nacl_ok N \<and> (\<forall>fd k n. te_send E fd k n \<le> int n) \<and>
     (\<forall>fd k n. te_recv E fd k n = int n) \<and> (\<forall>fd k. te_alloc E fd k)"

lemma send_stream:
  assumes "\<forall>fd k n. te_send E fd k n \<le> int n" and "sock_send E s data = (len, s')"
  shows "len \<le> int (length data)" and "sk_out s' @ drop (nat len) data = sk_out s @ data"
    and "sk_in s' = sk_in s" and "sk_fd s' = sk_fd s"
  using assms by (auto simp: sock_send_def Let_def)

lemma send_queue_stream:
  assumes E: "\<forall>fd k n. te_send E fd k n \<le> int n" and "\<forall>(data, sent)\<in>set q. sent < length data" and "send_queue E s q = (s', q')"
  shows "sk_out s' @ concat (map (\<lambda>(data, sent). drop sent data) q') = sk_out s @ concat (map (\<lambda>(data, sent). drop sent data) q) \<and>
    (\<forall>(data, sent)\<in>set q'. sent < length data) \<and> sk_in s' = sk_in s \<and> sk_fd s' = sk_fd s"
  using assms(2,3)
proof (induction q arbitrary: s)
  case (Cons a p)
  obtain data sent where a: "a = (data, sent)" by fastforce
  obtain len s1 where s: "sock_send E s (drop sent data) = (len, s1)" by fastforce
  note st = send_stream [OF E s]
  show ?case
  proof (cases "len = int (length data - sent)")
    case True
    then have "sk_out s1 = sk_out s @ drop sent data" using st(2) by simp
    then show ?thesis using True Cons s st a by simp
  next
    case False
    then have q': "s' = s1" "q' = (data, if 0 < len then sent + nat len else sent) # p" using Cons.prems(2) s a by (auto simp: Let_def)
    have l: "len < int (length data - sent)" using st(1) False by simp
    have "sk_out s1 @ drop (sent + nat len) data = sk_out s @ drop sent data" using st(2) by (simp add: add.commute)
    moreover have "nat len = 0" if "\<not> 0 < len" using that by simp
    ultimately show ?thesis using Cons.prems(1) q' st(3,4) a l by (cases "0 < len") auto
  qed
qed simp

text \<open>Sending what is pending changes nothing of the stream, the keys and what was received.\<close>

definition pipe_view :: "'a tcp_pipe_scheme \<Rightarrow> bytes \<times> bytes \<times> bytes \<times> nat \<times> bytes \<times> nat" where
  "pipe_view c = (tp_shared_key c, tp_sent_nonce c, tp_recv_nonce c, next_packet_length c, sk_in (tp_sock c), sk_fd (tp_sock c))"

lemma send_nonpriority_stream:
  assumes ok: "pipe_ok c" and E: "\<forall>fd k n. te_send E fd k n \<le> int n" and step: "send_pending_data_nonpriority E c = (r, c')"
  shows "pipe_ok c' \<and> pipe_stream c' = pipe_stream c \<and> pipe_view c' = pipe_view c \<and> priority_queue c' = priority_queue c \<and>
    (r = 0 \<and> last_packet_length c' = 0 \<or> r = - 1 \<and> last_packet_length c' \<noteq> 0)"
proof (cases "last_packet_length c = 0")
  case False
  let ?left = "last_packet_length c - last_packet_sent c"
  let ?d = "read_at (last_packet c) (last_packet_sent c) ?left"
  obtain len s where s: "sock_send E (tp_sock c) ?d = (len, s)" by fastforce
  note st = send_stream [OF E s]
  have len: "length ?d = ?left" "0 < ?left" using ok False by (auto simp: pipe_ok_def)
  have d: "drop k ?d = read_at (last_packet c) (last_packet_sent c + k) (last_packet_length c - (last_packet_sent c + k))" for k
    by (simp add: read_at_def drop_take add.commute)
  consider "len \<le> 0" | "len = int ?left" "0 < len" | "0 < len" "len < int ?left" using st(1) len(1) by linarith
  then show ?thesis
  proof cases
    case 1
    then have c': "r = - 1" "c' = c\<lparr>tp_sock := s\<rparr>" using step s False by (auto simp: send_pending_data_nonpriority_def Let_def)
    then show ?thesis using ok False st(2-4) 1 by (simp add: pipe_ok_def pipe_stream_def pipe_pending_def pipe_view_def)
  next
    case 2
    then have c': "r = 0" "c' = c\<lparr>tp_sock := s, last_packet_length := 0, last_packet_sent := 0\<rparr>"
      using step s False by (auto simp: send_pending_data_nonpriority_def Let_def)
    have "sk_out s = sk_out (tp_sock c) @ ?d" using st(2) 2 len by simp
    then show ?thesis using c' ok st(3,4) by (simp add: pipe_ok_def pipe_stream_def pipe_pending_def pipe_view_def read_at_def)
  next
    case 3
    then have c': "r = - 1" "c' = c\<lparr>tp_sock := s, last_packet_sent := last_packet_sent c + nat len\<rparr>"
      using step s False len(2) by (auto simp: send_pending_data_nonpriority_def Let_def split: if_splits)
    then show ?thesis using ok False 3 st(2-4) by (simp add: pipe_ok_def pipe_stream_def pipe_pending_def pipe_view_def d)
  qed
qed (use assms in \<open>simp add: send_pending_data_nonpriority_def\<close>)

lemma send_pending_stream:
  assumes ok: "pipe_ok c" and E: "\<forall>fd k n. te_send E fd k n \<le> int n" and step: "send_pending_data E c = (r, c')"
  shows "pipe_ok c' \<and> pipe_stream c' = pipe_stream c \<and> pipe_view c' = pipe_view c \<and>
    (r = 0 \<and> last_packet_length c' = 0 \<and> priority_queue c' = [] \<or> r = - 1)"
proof -
  obtain r1 c1 where n: "send_pending_data_nonpriority E c = (r1, c1)" by fastforce
  note n1 = send_nonpriority_stream [OF ok E n]
  show ?thesis
  proof (cases "r1 = - 1")
    case True
    then show ?thesis using step n n1 by (simp add: send_pending_data_def)
  next
    case False
    obtain s p where q: "send_queue E (tp_sock c1) (priority_queue c1) = (s, p)" by fastforce
    have c': "r = (if p = [] then 0 else - 1)" "c' = c1\<lparr>tp_sock := s, priority_queue := p\<rparr>"
      using step n False q by (auto simp: send_pending_data_def)
    have "\<forall>(data, sent)\<in>set (priority_queue c1). sent < length data" using n1 by (simp add: pipe_ok_def)
    note s = send_queue_stream [OF E this q]
    have "last_packet_length c1 = 0" "last_packet_sent c1 = 0" using n1 False by (auto simp: pipe_ok_def)
    then show ?thesis using n1 s c' by (auto simp: pipe_ok_def pipe_stream_def pipe_pending_def pipe_view_def read_at_def)
  qed
qed

lemma empty_pending: "pipe_ok c \<Longrightarrow> last_packet_length c = 0 \<Longrightarrow> priority_queue c = [] \<Longrightarrow> pipe_pending c = []"
  by (simp add: pipe_pending_def pipe_ok_def read_at_def)

section \<open>Frames\<close>

definition tcp_frame :: "nacl \<Rightarrow> bytes \<Rightarrow> bytes \<Rightarrow> bytes \<Rightarrow> bytes" where
  "tcp_frame N key nonce data = bytes_be 2 (length data + 16) @ the (encrypt_data_symmetric N key nonce data)"

fun tcp_frames :: "nacl \<Rightarrow> bytes \<Rightarrow> bytes \<Rightarrow> bytes list \<Rightarrow> bytes" where
  "tcp_frames N key nonce [] = []"
| "tcp_frames N key nonce (m # ms) = tcp_frame N key nonce m @ tcp_frames N key (increment_nonce nonce) ms"

definition msg_ok :: "bytes \<Rightarrow> bool" where
  "msg_ok m \<longleftrightarrow> m \<noteq> [] \<and> length m + 16 \<le> MAX_PACKET_SIZE"

lemma tcp_frames_append:
  "tcp_frames N key nonce (ms @ ms') = tcp_frames N key nonce ms @ tcp_frames N key ((increment_nonce ^^ length ms) nonce) ms'"
  by (induction ms arbitrary: nonce) (simp_all add: funpow_swap1)

lemma tcp_frame_parts:
  assumes "nacl_ok N" and "msg_ok m"
  obtains enc where "encrypt_data_symmetric N key nonce m = Some enc" "length enc = length m + 16"
    "decrypt_data_symmetric N key nonce enc = Some m" "tcp_frame N key nonce m = bytes_be 2 (length m + 16) @ enc"
  using encrypt_symmetric_Some [OF assms(1), of m key nonce] assms(2) by (auto simp: msg_ok_def tcp_frame_def)

lemma tcp_frame_length: "nacl_ok N \<Longrightarrow> msg_ok m \<Longrightarrow> length (tcp_frame N key nonce m) = length m + 18"
  using tcp_frame_parts [of N m key nonce] by fastforce

lemma read_at_memcpy_0: "length xs \<le> length dst \<Longrightarrow> read_at (memcpy_at dst 0 xs) k (length xs - k) = drop k xs"
  by (cases "k \<le> length xs") (simp_all add: read_at_def memcpy_at_def)

lemma send_frame_stream:
  assumes ok: "pipe_ok c" and E: "tcp_env_ok N E" and F: "0 < length F" "length F \<le> 2 + MAX_PACKET_SIZE"
    and e: "sendpriority \<Longrightarrow> last_packet_length c = 0 \<and> priority_queue c = []" and p: "sendpriority \<or> priority"
    and step: "send_frame E c F priority sendpriority = (r, c')"
  shows "pipe_ok c' \<and> pipe_view c' = (pipe_view (c\<lparr>tp_sent_nonce := tp_sent_nonce c'\<rparr>)) \<and>
    (if r = 1 then pipe_stream c' = pipe_stream c @ F \<and> tp_sent_nonce c' = increment_nonce (tp_sent_nonce c)
     else pipe_stream c' = pipe_stream c \<and> tp_sent_nonce c' = tp_sent_nonce c \<and> r = 0 \<and> \<not> priority)"
proof (cases sendpriority)
  case False
  then show ?thesis using step ok E F p
    by (auto simp: send_frame_def add_priority_def tcp_env_ok_def Let_def pipe_ok_def pipe_view_def pipe_stream_def pipe_pending_def)
next
  case True
  have N: "\<forall>fd k n. te_send E fd k n \<le> int n" "\<forall>fd k. te_alloc E fd k" using E by (simp_all add: tcp_env_ok_def)
  have e0: "last_packet_length c = 0" "last_packet_sent c = 0" "priority_queue c = []" using e True ok by (simp_all add: pipe_ok_def)
  obtain len s where s: "sock_send E (tp_sock c) F = (len, s)" by fastforce
  note st = send_stream [OF N(1) s]
  note simps = pipe_ok_def pipe_view_def pipe_stream_def pipe_pending_def e0 st(3,4) read_at_def
  consider "len = int (length F)" | "len < int (length F)" priority | "len \<le> 0" "\<not> priority" | "0 < len" "len < int (length F)" "\<not> priority"
    using st(1) by linarith
  then show ?thesis
  proof cases
    case 1
    then have "c' = c\<lparr>tp_sock := s, tp_sent_nonce := increment_nonce (tp_sent_nonce c)\<rparr>" "r = 1"
      using step True s F(1) by (auto simp: send_frame_def Let_def split: if_splits)
    moreover have "sk_out s = sk_out (tp_sock c) @ F" using st(2) 1 by simp
    ultimately show ?thesis using ok by (simp add: simps)
  next
    case 2
    then have "c' = c\<lparr>tp_sock := s, tp_sent_nonce := increment_nonce (tp_sent_nonce c), priority_queue := [(F, nat len)]\<rparr>" "r = 1"
      using step True s F(1) N(2) e0(3) by (auto simp: send_frame_def add_priority_def Let_def split: if_splits)
    moreover have "nat len < length F" using 2 F(1) by linarith
    ultimately show ?thesis using ok st(2) by (auto simp: simps)
  next
    case 3
    then have "c' = c\<lparr>tp_sock := s\<rparr>" "r = 0" using step True s by (auto simp: send_frame_def Let_def)
    then show ?thesis using ok 3 st(2) by (simp add: simps)
  next
    case 4
    then have c': "c' = c\<lparr>tp_sock := s, tp_sent_nonce := increment_nonce (tp_sent_nonce c), last_packet := memcpy_at (last_packet c) 0 F,
        last_packet_length := length F, last_packet_sent := nat len\<rparr>" "r = 1"
      using step True s by (auto simp: send_frame_def Let_def)
    have "pipe_pending c' = drop (nat len) F" using read_at_memcpy_0 [of F "last_packet c" "nat len"] F(2) ok e0(3)
      by (simp add: c' pipe_pending_def pipe_ok_def)
    then have "pipe_stream c' = pipe_stream c @ F" using st(2) by (simp add: c'(1) pipe_stream_def pipe_pending_def e0 read_at_def)
    then show ?thesis using ok 4 F c' by (auto simp: pipe_ok_def pipe_view_def st(3,4) e0(3))
  qed
qed

text \<open>
  A packet that is written is appended to the stream as a frame; otherwise the stream stays as it is.
  The result is \<open>-1\<close> only for a packet that is empty or too long.
\<close>

lemma write_packet_stream:
  assumes ok: "pipe_ok c" and E: "tcp_env_ok N E" and step: "write_packet_TCP_secure_connection E c data priority = (r, c')"
  shows "pipe_ok c' \<and> pipe_view c' = pipe_view (c\<lparr>tp_sent_nonce := tp_sent_nonce c'\<rparr>) \<and>
    (if r = 1 then msg_ok data \<and> pipe_stream c' = pipe_stream c @ tcp_frame N (tp_shared_key c) (tp_sent_nonce c) data \<and>
       tp_sent_nonce c' = increment_nonce (tp_sent_nonce c)
     else pipe_stream c' = pipe_stream c \<and> tp_sent_nonce c' = tp_sent_nonce c \<and> (r = 0 \<and> \<not> priority \<or> r = - 1 \<and> \<not> msg_ok data))"
proof (cases "length data + 16 > MAX_PACKET_SIZE")
  case True
  then show ?thesis using step ok by (auto simp: write_packet_TCP_secure_connection_def msg_ok_def)
next
  case False
  have N: "te_nacl E = N" "nacl_ok N" "\<forall>fd k n. te_send E fd k n \<le> int n" using E by (simp_all add: tcp_env_ok_def)
  obtain r1 c1 where p: "send_pending_data E c = (r1, c1)" by fastforce
  note p1 = send_pending_stream [OF ok N(3) p]
  have v: "tp_shared_key c1 = tp_shared_key c" "tp_sent_nonce c1 = tp_sent_nonce c" using p1 by (simp_all add: pipe_view_def)
  consider "r1 = - 1" "\<not> priority" | "data = []" "r1 \<noteq> - 1 \<or> priority" | "data \<noteq> []" "r1 \<noteq> - 1 \<or> priority" by blast
  then show ?thesis
  proof cases
    case 1
    then show ?thesis using step p p1 False by (auto simp: write_packet_TCP_secure_connection_def pipe_view_def)
  next
    case 2
    then show ?thesis using step p p1 False
      by (auto simp: write_packet_TCP_secure_connection_def pipe_view_def msg_ok_def encrypt_data_symmetric_def)
  next
    case 3
    then have m: "msg_ok data" using False by (simp add: msg_ok_def)
    obtain enc where enc: "encrypt_data_symmetric N (tp_shared_key c) (tp_sent_nonce c) data = Some enc" "length enc = length data + 16"
        "tcp_frame N (tp_shared_key c) (tp_sent_nonce c) data = bytes_be 2 (length data + 16) @ enc"
      by (rule tcp_frame_parts [OF N(2) m]) blast
    have f: "send_frame E c1 (bytes_be 2 (length data + 16) @ enc) priority (r1 \<noteq> - 1) = (r, c')"
      using step p 3 False enc(1,2) v N(1) by (auto simp: write_packet_TCP_secure_connection_def)
    have "pipe_ok c1" "r1 \<noteq> - 1 \<Longrightarrow> last_packet_length c1 = 0 \<and> priority_queue c1 = []" using p1 by blast+
    note s = send_frame_stream [OF this(1) E _ _ this(2) 3(2) f]
    show ?thesis using s p1 m enc False v by (auto simp: pipe_view_def split: if_splits)
  qed
qed

section \<open>Reading frames\<close>

text \<open>
  What the reader expects: \<open>stream\<close> is what it will read, the frames of \<open>ms\<close> without the length of
  the first when that has been read already.
\<close>

definition expects :: "nacl \<Rightarrow> 'a tcp_pipe_scheme \<Rightarrow> bytes list \<Rightarrow> bytes \<Rightarrow> bool" where
  "expects N c ms stream \<longleftrightarrow>
     (if next_packet_length c = 0 then stream = tcp_frames N (tp_shared_key c) (tp_recv_nonce c) ms
      else ms \<noteq> [] \<and> next_packet_length c = length (hd ms) + 16 \<and>
        bytes_be 2 (next_packet_length c) @ stream = tcp_frames N (tp_shared_key c) (tp_recv_nonce c) ms)"

lemma append_eq_prefix: "length a \<le> length b \<Longrightarrow> a @ x = b @ y \<Longrightarrow> b = a @ drop (length a) b \<and> x = drop (length a) b @ y"
  by (metis append_eq_append_conv_if append_take_drop_id)

lemma read_length_result:
  assumes E: "tcp_env_ok N E" and m: "msg_ok m" and ms: "sk_in s @ future = tcp_frame N key nonce m @ rest"
    and step: "read_TCP_length E s = (len, s')"
  shows "2 \<le> length (sk_in s) \<and> len = length m + 16 \<and> sk_in s' = drop 2 (sk_in s) \<and> sk_out s' = sk_out s \<or>
    length (sk_in s) < 2 \<and> len = 0 \<and> s' = s"
proof (cases "2 \<le> length (sk_in s)")
  case True
  have "take 2 (sk_in s) = take 2 (sk_in s @ future)" using True by simp
  also have "\<dots> = bytes_be 2 (length m + 16)" unfolding ms tcp_frame_def by simp
  finally have "be_val (take 2 (sk_in s)) = length m + 16" using m by (simp add: msg_ok_def)
  then show ?thesis using step True E m by (auto simp: read_TCP_length_def TCP_socket_data_recv_buffer_def sock_recv_def tcp_env_ok_def msg_ok_def Let_def)
qed (use step in \<open>simp add: read_TCP_length_def TCP_socket_data_recv_buffer_def\<close>)

text \<open>The second half: the length is known.\<close>

lemma read_body_result:
  assumes E: "tcp_env_ok N E" and m: "msg_ok m" and n: "next_packet_length c = length m + 16"
    and ms: "bytes_be 2 (length m + 16) @ sk_in (tp_sock c) @ future = tcp_frame N (tp_shared_key c) (tp_recv_nonce c) m @ rest"
    and step: "read_packet_TCP_secure_connection E c MAX_PACKET_SIZE = (r, d, c')"
  shows "if length m + 16 \<le> length (sk_in (tp_sock c))
    then r = int (length m) \<and> d = m \<and> (\<exists>s. c' = c\<lparr>tp_sock := s, next_packet_length := 0, tp_recv_nonce := increment_nonce (tp_recv_nonce c)\<rparr> \<and>
      sk_out s = sk_out (tp_sock c) \<and> sk_in s @ future = rest)
    else r = 0 \<and> c' = c"
proof -
  have N: "te_nacl E = N" "nacl_ok N" "\<forall>fd k n. te_recv E fd k n = int n" using E by (simp_all add: tcp_env_ok_def)
  obtain enc where enc: "length enc = length m + 16" "decrypt_data_symmetric N (tp_shared_key c) (tp_recv_nonce c) enc = Some m"
      "tcp_frame N (tp_shared_key c) (tp_recv_nonce c) m = bytes_be 2 (length m + 16) @ enc"
    by (rule tcp_frame_parts [OF N(2) m]) blast
  have s: "sk_in (tp_sock c) @ future = enc @ rest" using ms enc(3) by simp
  have big: "length m + 16 \<le> 2064" using m by (simp add: msg_ok_def)
  show ?thesis
  proof (cases "length m + 16 \<le> length (sk_in (tp_sock c))")
    case True
    then have i: "sk_in (tp_sock c) = enc @ drop (length m + 16) (sk_in (tp_sock c))" "rest = drop (length m + 16) (sk_in (tp_sock c)) @ future"
      using append_eq_prefix [of enc "sk_in (tp_sock c)" rest future] s enc(1) by metis+
    then have "take (length m + 16) (sk_in (tp_sock c)) = enc" using enc(1) by (metis append_eq_conv_conj)
    moreover have "nat (int (length m) + 16) = length m + 16" by simp
    ultimately show ?thesis using step True n big N(1,3) enc(2) i(2)
      by (auto simp: read_packet_TCP_secure_connection_def read_TCP_packet_def TCP_socket_data_recv_buffer_def sock_recv_def Let_def)
  next
    case False
    then show ?thesis using step n big
      by (auto simp: read_packet_TCP_secure_connection_def read_TCP_packet_def TCP_socket_data_recv_buffer_def Let_def)
  qed
qed

lemma read_after_length:
  assumes "next_packet_length c = 0" and "read_TCP_length E (tp_sock c) = (len, s)" and "0 < len" "len \<noteq> 65535"
  shows "read_packet_TCP_secure_connection E c n = read_packet_TCP_secure_connection E (c\<lparr>tp_sock := s, next_packet_length := len\<rparr>) n"
  using assms by (simp add: read_packet_TCP_secure_connection_def)

lemma read_packet_result:
  assumes E: "tcp_env_ok N E" and ok: "\<forall>m\<in>set ms. msg_ok m" and ex: "expects N c ms (sk_in (tp_sock c) @ future)"
    and step: "read_packet_TCP_secure_connection E c MAX_PACKET_SIZE = (r, d, c')"
  shows "(\<exists>s n nonce. c' = c\<lparr>tp_sock := s, next_packet_length := n, tp_recv_nonce := nonce\<rparr> \<and> sk_out s = sk_out (tp_sock c)) \<and>
    (r = 0 \<and> tp_recv_nonce c' = tp_recv_nonce c \<and> expects N c' ms (sk_in (tp_sock c') @ future) \<and> (future = [] \<longrightarrow> ms = []) \<or>
     (\<exists>ms'. ms = d # ms' \<and> r = int (length d) \<and> tp_recv_nonce c' = increment_nonce (tp_recv_nonce c) \<and> expects N c' ms' (sk_in (tp_sock c') @ future)))"
proof -
  have unchanged: "\<exists>s n nonce. c = c\<lparr>tp_sock := s, next_packet_length := n, tp_recv_nonce := nonce\<rparr> \<and> sk_out s = sk_out (tp_sock c)"
    by (rule exI [of _ "tp_sock c"], rule exI [of _ "next_packet_length c"], rule exI [of _ "tp_recv_nonce c"]) simp
  show ?thesis
proof (cases ms)
  case Nil
  then have "next_packet_length c = 0" "sk_in (tp_sock c) = []" using ex by (auto simp: expects_def split: if_splits)
  then have "r = 0" "c' = c" using step by (simp_all add: read_packet_TCP_secure_connection_def read_TCP_length_def TCP_socket_data_recv_buffer_def)
  then show ?thesis using ex Nil unchanged by simp
next
  case (Cons m ms')
  let ?rest = "tcp_frames N (tp_shared_key c) (increment_nonce (tp_recv_nonce c)) ms'"
  have m: "msg_ok m" using ok Cons by simp
  have body: ?thesis
    if b: "c1 = c\<lparr>tp_sock := s1, next_packet_length := length m + 16\<rparr>" "sk_out s1 = sk_out (tp_sock c)"
      "bytes_be 2 (length m + 16) @ sk_in s1 @ future = tcp_frame N (tp_shared_key c) (tp_recv_nonce c) m @ ?rest"
      "read_packet_TCP_secure_connection E c1 MAX_PACKET_SIZE = (r, d, c')" for c1 s1
  proof -
    have n: "next_packet_length c1 = length m + 16" and fr: "bytes_be 2 (length m + 16) @ sk_in (tp_sock c1) @ future =
        tcp_frame N (tp_shared_key c1) (tp_recv_nonce c1) m @ ?rest" using b(1,3) by simp_all
    note res = read_body_result [OF E m n fr b(4)]
    show ?thesis
    proof (cases "length m + 16 \<le> length (sk_in (tp_sock c1))")
      case True
      then obtain s2 where s2: "r = int (length m)" "d = m"
          "c' = c\<lparr>tp_sock := s2, next_packet_length := 0, tp_recv_nonce := increment_nonce (tp_recv_nonce c)\<rparr>"
          "sk_out s2 = sk_out (tp_sock c)" "sk_in s2 @ future = ?rest" using res b(1,2) by auto
      then show ?thesis using Cons by (auto simp: expects_def)
    next
      case False
      then have c': "r = 0" "c' = c1" using res by simp_all
      have "length (sk_in s1 @ future) = length m + 16 + length ?rest"
        using arg_cong [OF b(3), of length] tcp_frame_length [OF _ m, of N] E by (simp add: tcp_env_ok_def)
      then have "future \<noteq> []" using False b(1) by auto
      moreover have "\<exists>s n nonce. c' = c\<lparr>tp_sock := s, next_packet_length := n, tp_recv_nonce := nonce\<rparr> \<and> sk_out s = sk_out (tp_sock c)"
        unfolding c'(2) b(1) using b(2)
        by (intro exI [of _ s1] exI [of _ "length m + 16"] exI [of _ "tp_recv_nonce c"]) simp
      ultimately show ?thesis using c' b(1-3) Cons by (simp add: expects_def)
    qed
  qed
  show ?thesis
  proof (cases "next_packet_length c = 0")
    case False
    then show ?thesis using ex Cons step by (intro body [of c "tp_sock c"]) (auto simp: expects_def)
  next
    case True
    obtain len s1 where l: "read_TCP_length E (tp_sock c) = (len, s1)" by fastforce
    have fr: "sk_in (tp_sock c) @ future = tcp_frame N (tp_shared_key c) (tp_recv_nonce c) m @ ?rest" using ex True Cons by (simp add: expects_def)
    from read_length_result [OF E m fr l] show ?thesis
    proof (elim disjE conjE)
      assume a: "2 \<le> length (sk_in (tp_sock c))" "len = length m + 16" "sk_in s1 = drop 2 (sk_in (tp_sock c))" "sk_out s1 = sk_out (tp_sock c)"
      have "take 2 (sk_in (tp_sock c)) = take 2 (sk_in (tp_sock c) @ future)" using a(1) by simp
      then have "take 2 (sk_in (tp_sock c)) = bytes_be 2 (length m + 16)" unfolding fr tcp_frame_def by simp
      then have "bytes_be 2 (length m + 16) @ sk_in s1 @ future = tcp_frame N (tp_shared_key c) (tp_recv_nonce c) m @ ?rest"
        using fr a(3) append_take_drop_id [of 2 "sk_in (tp_sock c)"] by (metis append.assoc)
      moreover have "read_packet_TCP_secure_connection E (c\<lparr>tp_sock := s1, next_packet_length := length m + 16\<rparr>) MAX_PACKET_SIZE = (r, d, c')"
        using read_after_length [OF True l, of MAX_PACKET_SIZE] a(2) m step by (simp add: msg_ok_def)
      ultimately show ?thesis by (intro body [OF refl a(4)])
    next
      assume a: "length (sk_in (tp_sock c)) < 2" "len = 0" "s1 = tp_sock c"
      then have c': "r = 0" "c' = c" using step l True by (auto simp: read_packet_TCP_secure_connection_def)
      have "2 \<le> length (sk_in (tp_sock c) @ future)" unfolding fr tcp_frame_def by simp
      then have "future \<noteq> []" using a(1) by auto
      then show ?thesis using c' ex unchanged by simp
    qed
  qed
qed
qed

section \<open>Two ends of a connection\<close>

text \<open>
  One direction of a connection: the pipe that writes and the one that reads, how much of what was
  sent has arrived, the packets that were accepted, those that were read, and whether a read failed.
\<close>

record tcp_link =
  tl_from :: tcp_pipe
  tl_to :: tcp_pipe
  tl_moved :: nat
  tl_sent :: "bytes list"
  tl_got :: "bytes list"
  tl_failed :: bool

inductive tcp_link_step :: "nacl \<Rightarrow> tcp_link \<Rightarrow> tcp_link \<Rightarrow> bool" for N where
  link_write: "tcp_env_ok N E \<Longrightarrow> write_packet_TCP_secure_connection E (tl_from l) data priority = (r, c) \<Longrightarrow>
    tcp_link_step N l (l\<lparr>tl_from := c, tl_sent := (if r = 1 then tl_sent l @ [data] else tl_sent l)\<rparr>)"
| link_flush: "tcp_env_ok N E \<Longrightarrow> send_pending_data E (tl_from l) = (r, c) \<Longrightarrow> tcp_link_step N l (l\<lparr>tl_from := c\<rparr>)"
| link_move: "sk_out (tp_sock (tl_from l)) = a @ b @ rest \<Longrightarrow> length a = tl_moved l \<Longrightarrow>
    tcp_link_step N l (l\<lparr>tl_to := (tl_to l)\<lparr>tp_sock := (tp_sock (tl_to l))\<lparr>sk_in := sk_in (tp_sock (tl_to l)) @ b\<rparr>\<rparr>,
      tl_moved := tl_moved l + length b\<rparr>)"
| link_read: "tcp_env_ok N E \<Longrightarrow> read_packet_TCP_secure_connection E (tl_to l) MAX_PACKET_SIZE = (r, d, c) \<Longrightarrow>
    tcp_link_step N l (l\<lparr>tl_to := c, tl_got := (if 0 < r then tl_got l @ [d] else tl_got l), tl_failed := (tl_failed l \<or> r < 0)\<rparr>)"

inductive_cases tcp_link_stepE: "tcp_link_step N l l'"

text \<open>A link right after the handshake: both ends have the key, and the reader has the nonce of the writer.\<close>

definition link_start :: "tcp_link \<Rightarrow> bool" where
  "link_start l \<longleftrightarrow> pipe_ok (tl_from l) \<and> pipe_stream (tl_from l) = [] \<and> sk_in (tp_sock (tl_to l)) = [] \<and>
     next_packet_length (tl_to l) = 0 \<and> tp_shared_key (tl_to l) = tp_shared_key (tl_from l) \<and>
     tp_recv_nonce (tl_to l) = tp_sent_nonce (tl_from l) \<and> tl_moved l = 0 \<and> tl_sent l = [] \<and> tl_got l = [] \<and> \<not> tl_failed l"

definition link_inv :: "nacl \<Rightarrow> bytes \<Rightarrow> bytes \<Rightarrow> tcp_link \<Rightarrow> bool" where
  "link_inv N key nonce l \<longleftrightarrow> pipe_ok (tl_from l) \<and> tp_shared_key (tl_from l) = key \<and> tp_shared_key (tl_to l) = key \<and>
     tp_sent_nonce (tl_from l) = (increment_nonce ^^ length (tl_sent l)) nonce \<and>
     pipe_stream (tl_from l) = tcp_frames N key nonce (tl_sent l) \<and> (\<forall>m\<in>set (tl_sent l). msg_ok m) \<and>
     tl_moved l \<le> length (sk_out (tp_sock (tl_from l))) \<and> \<not> tl_failed l \<and>
     (\<exists>ms. tl_sent l = tl_got l @ ms \<and> tp_recv_nonce (tl_to l) = (increment_nonce ^^ length (tl_got l)) nonce \<and>
       expects N (tl_to l) ms (sk_in (tp_sock (tl_to l)) @ drop (tl_moved l) (pipe_stream (tl_from l))))"

lemma funpow_funpow: "(f ^^ m) ((f ^^ n) x) = (f ^^ (n + m)) x"
  by (simp add: funpow_add add.commute [of n])

lemma link_start_inv: "link_start l \<Longrightarrow> link_inv N (tp_shared_key (tl_from l)) (tp_sent_nonce (tl_from l)) l"
  by (simp add: link_start_def link_inv_def expects_def)

text \<open>A step of the writer: the stream grows by the frames of the packets it accepts, and nothing is taken back.\<close>

lemma link_writer:
  assumes inv: "link_inv N key nonce l" and c: "pipe_ok c" "tp_shared_key c = key"
    "pipe_stream c = pipe_stream (tl_from l) @ tcp_frames N key (tp_sent_nonce (tl_from l)) ms" "tp_sent_nonce c = (increment_nonce ^^ length ms) (tp_sent_nonce (tl_from l))"
    "length (sk_out (tp_sock (tl_from l))) \<le> length (sk_out (tp_sock c))" "\<forall>m\<in>set ms. msg_ok m"
  shows "link_inv N key nonce (l\<lparr>tl_from := c, tl_sent := tl_sent l @ ms\<rparr>)"
proof -
  obtain ms0 where ms0: "tl_sent l = tl_got l @ ms0" "tp_recv_nonce (tl_to l) = (increment_nonce ^^ length (tl_got l)) nonce"
      "expects N (tl_to l) ms0 (sk_in (tp_sock (tl_to l)) @ drop (tl_moved l) (pipe_stream (tl_from l)))" using inv by (auto simp: link_inv_def)
  have m: "tl_moved l \<le> length (sk_out (tp_sock (tl_from l)))" "tp_shared_key (tl_to l) = key" using inv by (simp_all add: link_inv_def)
  have n: "tp_sent_nonce (tl_from l) = (increment_nonce ^^ length (tl_sent l)) nonce" using inv by (simp add: link_inv_def)
  have "tl_moved l \<le> length (pipe_stream (tl_from l))" using m(1) by (simp add: pipe_stream_def)
  then have d: "drop (tl_moved l) (pipe_stream c) = drop (tl_moved l) (pipe_stream (tl_from l)) @ tcp_frames N key (tp_sent_nonce (tl_from l)) ms"
    using c(3) by simp
  have "expects N (tl_to l) (ms0 @ ms) (sk_in (tp_sock (tl_to l)) @ drop (tl_moved l) (pipe_stream c))"
    using ms0(2,3) unfolding d n ms0(1) expects_def
    by (auto simp: tcp_frames_append m(2) funpow_funpow simp flip: append_assoc split: if_splits)
  then show ?thesis using inv c m(1) ms0(1,2) n
    by (auto simp: link_inv_def tcp_frames_append funpow_funpow add.assoc)
qed

text \<open>What has been sent only grows.\<close>

abbreviation out_len :: "'a tcp_pipe_scheme \<Rightarrow> nat" where
  "out_len c \<equiv> length (sk_out (tp_sock c))"

lemma sock_send_grows: "length (sk_out s) \<le> length (sk_out (snd (sock_send E s d)))"
  by (simp add: sock_send_def Let_def)

lemma send_queue_grows: "length (sk_out s) \<le> length (sk_out (fst (send_queue E s q)))"
proof (induction q arbitrary: s)
  case (Cons a p)
  obtain data sent where a: "a = (data, sent)" by fastforce
  have "length (sk_out s1) \<le> length (sk_out (fst (send_queue E s1 p)))" for s1 by (rule Cons.IH)
  then show ?case using sock_send_grows [of s E "drop sent data"] by (auto simp: a Let_def split_beta intro: order_trans)
qed simp

lemma send_pending_grows: "out_len c \<le> out_len (snd (send_pending_data E c))"
proof -
  have n: "out_len c \<le> out_len (snd (send_pending_data_nonpriority E c))"
    using sock_send_grows [of "tp_sock c" E] by (auto simp: send_pending_data_nonpriority_def Let_def split_beta)
  then show ?thesis using send_queue_grows [of "tp_sock (snd (send_pending_data_nonpriority E c))" E]
    by (auto simp: send_pending_data_def Let_def split_beta intro: order_trans)
qed

lemma write_packet_grows: "out_len c \<le> out_len (snd (write_packet_TCP_secure_connection E c data priority))"
proof -
  have "out_len c1 \<le> out_len (snd (send_frame E c1 F priority b))" for c1 :: "'a tcp_pipe_scheme" and F b
    using sock_send_grows [of "tp_sock c1" E F] by (auto simp: send_frame_def add_priority_def Let_def split_beta)
  then show ?thesis using send_pending_grows [of c E]
    by (auto simp: write_packet_TCP_secure_connection_def Let_def split_beta intro: order_trans split: option.split)
qed

lemma link_step_inv:
  assumes "tcp_link_step N l l'" and inv: "link_inv N key nonce l"
  shows "link_inv N key nonce l'"
  using assms(1)
proof (rule tcp_link_stepE)
  fix E data priority r c
  assume E: "tcp_env_ok N E" and l': "l' = l\<lparr>tl_from := c, tl_sent := if r = 1 then tl_sent l @ [data] else tl_sent l\<rparr>"
    and w: "write_packet_TCP_secure_connection E (tl_from l) data priority = (r, c)"
  have ok: "pipe_ok (tl_from l)" "tp_shared_key (tl_from l) = key" using inv by (simp_all add: link_inv_def)
  note s = write_packet_stream [OF ok(1) E w]
  have g: "length (sk_out (tp_sock (tl_from l))) \<le> length (sk_out (tp_sock c))" using write_packet_grows [of "tl_from l" E data priority] w by simp
  have "link_inv N key nonce (l\<lparr>tl_from := c, tl_sent := tl_sent l @ (if r = 1 then [data] else [])\<rparr>)"
    using s ok(2) g by (intro link_writer [OF inv]) (auto simp: pipe_view_def split: if_splits)
  then show ?thesis using l' by (simp split: if_splits)
next
  fix E r c
  assume E: "tcp_env_ok N E" and l': "l' = l\<lparr>tl_from := c\<rparr>" and w: "send_pending_data E (tl_from l) = (r, c)"
  have ok: "pipe_ok (tl_from l)" "tp_shared_key (tl_from l) = key" using inv by (simp_all add: link_inv_def)
  have "\<forall>fd k n. te_send E fd k n \<le> int n" using E by (simp add: tcp_env_ok_def)
  note s = send_pending_stream [OF ok(1) this w]
  have g: "length (sk_out (tp_sock (tl_from l))) \<le> length (sk_out (tp_sock c))" using send_pending_grows [of "tl_from l" E] w by simp
  have "link_inv N key nonce (l\<lparr>tl_from := c, tl_sent := tl_sent l @ []\<rparr>)"
    using s ok(2) g by (intro link_writer [OF inv]) (auto simp: pipe_view_def)
  then show ?thesis using l' by simp
next
  fix a b rest
  assume l': "l' = l\<lparr>tl_to := (tl_to l)\<lparr>tp_sock := (tp_sock (tl_to l))\<lparr>sk_in := sk_in (tp_sock (tl_to l)) @ b\<rparr>\<rparr>, tl_moved := tl_moved l + length b\<rparr>"
    and ab: "sk_out (tp_sock (tl_from l)) = a @ b @ rest" "length a = tl_moved l"
  have "drop (tl_moved l) (pipe_stream (tl_from l)) = b @ drop (tl_moved l + length b) (pipe_stream (tl_from l))"
    using ab by (simp add: pipe_stream_def flip: ab(2))
  moreover obtain ms where ms: "tl_sent l = tl_got l @ ms" "tp_recv_nonce (tl_to l) = (increment_nonce ^^ length (tl_got l)) nonce"
      "expects N (tl_to l) ms (sk_in (tp_sock (tl_to l)) @ drop (tl_moved l) (pipe_stream (tl_from l)))" using inv by (auto simp: link_inv_def)
  ultimately have "expects N (tl_to l') ms (sk_in (tp_sock (tl_to l')) @ drop (tl_moved l') (pipe_stream (tl_from l')))"
    using l' by (simp add: expects_def)
  then show ?thesis using inv l' ab ms(1,2) by (auto simp: link_inv_def)
next
  fix E r d c
  assume E: "tcp_env_ok N E" and l': "l' = l\<lparr>tl_to := c, tl_got := if 0 < r then tl_got l @ [d] else tl_got l, tl_failed := tl_failed l \<or> r < 0\<rparr>"
    and w: "read_packet_TCP_secure_connection E (tl_to l) MAX_PACKET_SIZE = (r, d, c)"
  obtain ms where ms: "tl_sent l = tl_got l @ ms" "tp_recv_nonce (tl_to l) = (increment_nonce ^^ length (tl_got l)) nonce"
      "expects N (tl_to l) ms (sk_in (tp_sock (tl_to l)) @ drop (tl_moved l) (pipe_stream (tl_from l)))" using inv by (auto simp: link_inv_def)
  have ok: "\<forall>m\<in>set ms. msg_ok m" using inv ms(1) by (auto simp: link_inv_def)
  note res = read_packet_result [OF E ok ms(3) w]
  have key: "tp_shared_key c = key" using res inv by (auto simp: link_inv_def)
  from res consider "r = 0" "tp_recv_nonce c = tp_recv_nonce (tl_to l)"
      "expects N c ms (sk_in (tp_sock c) @ drop (tl_moved l) (pipe_stream (tl_from l)))"
    | ms' where "ms = d # ms'" "r = int (length d)" "tp_recv_nonce c = increment_nonce (tp_recv_nonce (tl_to l))"
      "expects N c ms' (sk_in (tp_sock c) @ drop (tl_moved l) (pipe_stream (tl_from l)))" by blast
  then show ?thesis
  proof cases
    case 1
    then show ?thesis using inv l' ms(1,2) key by (simp add: link_inv_def)
  next
    case (2 ms')
    then have "0 < r" using ok by (simp add: msg_ok_def)
    moreover have "tl_sent l = (tl_got l @ [d]) @ ms'" using ms(1) 2(1) by simp
    ultimately show ?thesis using inv l' ms(2) key 2(2-4) by (simp add: link_inv_def)
  qed
qed

lemma link_steps_inv: "(tcp_link_step N)\<^sup>*\<^sup>* l l' \<Longrightarrow> link_inv N key nonce l \<Longrightarrow> link_inv N key nonce l'"
  by (induction rule: rtranclp_induct) (auto intro: link_step_inv)

text \<open>When the socket takes everything and the bytes arrive, everything is read.\<close>

definition willing_env :: "nacl \<Rightarrow> tcp_env" where
  "willing_env N = \<lparr>te_now = 0, te_nacl = N, te_send = (\<lambda>fd k n. int n), te_recv = (\<lambda>fd k n. int n), te_alloc = (\<lambda>fd k. True)\<rparr>"

lemma willing_env_ok: "nacl_ok N \<Longrightarrow> tcp_env_ok N (willing_env N)"
  by (simp add: tcp_env_ok_def willing_env_def)

lemma willing_flush: "pipe_ok c \<Longrightarrow> fst (send_pending_data (willing_env N) c) = 0"
proof -
  assume ok: "pipe_ok c"
  have q: "snd (send_queue (willing_env N) s q) = []" if "\<forall>(d, k)\<in>set q. k < length d" for s q
    using that by (induction q arbitrary: s) (auto simp: sock_send_def willing_env_def Let_def)
  have "fst (send_pending_data_nonpriority (willing_env N) c) = 0"
  proof (cases "last_packet_length c = 0")
    case False
    let ?d = "read_at (last_packet c) (last_packet_sent c) (last_packet_length c - last_packet_sent c)"
    have "length ?d = last_packet_length c - last_packet_sent c" "last_packet_sent c < last_packet_length c"
      using ok False by (simp_all add: pipe_ok_def)
    moreover from this have "?d \<noteq> []" by fastforce
    ultimately show ?thesis using False by (simp add: send_pending_data_nonpriority_def sock_send_def willing_env_def Let_def)
  qed (simp add: send_pending_data_nonpriority_def)
  moreover have "priority_queue (snd (send_pending_data_nonpriority (willing_env N) c)) = priority_queue c"
    by (simp add: send_pending_data_nonpriority_def Let_def split_beta)
  ultimately show ?thesis using q [of "priority_queue c"] ok by (simp add: send_pending_data_def split_beta pipe_ok_def Let_def)
qed

lemma link_reads:
  assumes "link_inv N key nonce l" and "nacl_ok N" and "tl_sent l = tl_got l @ ms" and "tl_moved l = length (pipe_stream (tl_from l))"
  shows "\<exists>l'. (tcp_link_step N)\<^sup>*\<^sup>* l l' \<and> tl_sent l' = tl_sent l \<and> tl_got l' = tl_sent l"
  using assms(1,3,4)
proof (induction ms arbitrary: l)
  case (Cons m ms)
  obtain r d c where w: "read_packet_TCP_secure_connection (willing_env N) (tl_to l) MAX_PACKET_SIZE = (r, d, c)" using prod_cases3 by blast
  have ex: "expects N (tl_to l) (m # ms) (sk_in (tp_sock (tl_to l)) @ [])" and ok: "\<forall>m\<in>set (m # ms). msg_ok m"
    using Cons.prems by (auto simp: link_inv_def)
  have rd: "d = m" "r = int (length m)" using read_packet_result [OF willing_env_ok [OF assms(2)] ok ex w] by auto
  define l1 where "l1 = l\<lparr>tl_to := c, tl_got := tl_got l @ [m], tl_failed := False\<rparr>"
  have "tcp_link_step N l (l\<lparr>tl_to := c, tl_got := (if 0 < r then tl_got l @ [d] else tl_got l), tl_failed := (tl_failed l \<or> r < 0)\<rparr>)"
    by (rule link_read [OF willing_env_ok [OF assms(2)] w])
  moreover have "\<not> tl_failed l" "0 < r" using Cons.prems(1) ok rd by (simp_all add: link_inv_def msg_ok_def)
  ultimately have s: "tcp_link_step N l l1" using rd by (simp add: l1_def)
  have "\<exists>l'. (tcp_link_step N)\<^sup>*\<^sup>* l1 l' \<and> tl_sent l' = tl_sent l1 \<and> tl_got l' = tl_sent l1"
    using Cons.prems(2,3) by (intro Cons.IH link_step_inv [OF s Cons.prems(1)]) (simp_all add: l1_def)
  then show ?case using s by (auto simp: l1_def intro: converse_rtranclp_into_rtranclp)
qed auto

lemma link_completes:
  assumes inv: "link_inv N key nonce l" and N: "nacl_ok N"
  shows "\<exists>l'. (tcp_link_step N)\<^sup>*\<^sup>* l l' \<and> tl_sent l' = tl_sent l \<and> tl_got l' = tl_sent l"
proof -
  obtain r c where f: "send_pending_data (willing_env N) (tl_from l) = (r, c)" by fastforce
  define l1 where "l1 = l\<lparr>tl_from := c\<rparr>"
  have s1: "tcp_link_step N l l1" unfolding l1_def by (rule link_flush [OF willing_env_ok [OF N] f])
  have ok: "pipe_ok (tl_from l)" using inv by (simp add: link_inv_def)
  have "r = 0" using willing_flush [OF ok, of N] f by simp
  then have e: "pipe_pending c = []"
    using send_pending_stream [OF ok _ f] empty_pending [of c] willing_env_ok [OF N] by (auto simp: tcp_env_ok_def)
  have inv1: "link_inv N key nonce l1" by (rule link_step_inv [OF s1 inv])
  define b where "b = drop (tl_moved l1) (sk_out (tp_sock (tl_from l1)))"
  define l2 where "l2 = l1\<lparr>tl_to := (tl_to l1)\<lparr>tp_sock := (tp_sock (tl_to l1))\<lparr>sk_in := sk_in (tp_sock (tl_to l1)) @ b\<rparr>\<rparr>,
      tl_moved := tl_moved l1 + length b\<rparr>"
  have m: "tl_moved l1 \<le> length (sk_out (tp_sock (tl_from l1)))" using inv1 by (simp add: link_inv_def)
  have s2: "tcp_link_step N l1 l2" unfolding l2_def
    using m by (intro link_move [where a = "take (tl_moved l1) (sk_out (tp_sock (tl_from l1)))" and rest = "[]"]) (simp_all add: b_def)
  have mv: "tl_moved l2 = length (pipe_stream (tl_from l2))" using m e by (simp add: l2_def b_def pipe_stream_def l1_def)
  have inv2: "link_inv N key nonce l2" by (rule link_step_inv [OF s2 inv1])
  then obtain ms where "tl_sent l2 = tl_got l2 @ ms" by (auto simp: link_inv_def)
  from link_reads [OF inv2 N this mv] obtain l' where "(tcp_link_step N)\<^sup>*\<^sup>* l2 l'" "tl_sent l' = tl_sent l2" "tl_got l' = tl_sent l2" by blast
  then show ?thesis using s1 s2 by (intro exI [of _ l']) (auto simp: l2_def l1_def intro: converse_rtranclp_into_rtranclp)
qed

text \<open>
  C12. A TCP connection delivers the packets that were accepted, in order and exactly once, whatever
  \<open>send\<close> takes of them at a time and however the bytes arrive: priority packets and other packets,
  partly sent packets and calls that send what is pending may be interleaved in any way. At every
  moment the packets read are a prefix of those for which the write returned \<open>1\<close>, no read fails, and
  when the socket takes what is pending and it arrives, all of them are read.
\<close>

theorem tcp_stream_in_order:
  assumes "link_start l0" and "nacl_ok N" and "(tcp_link_step N)\<^sup>*\<^sup>* l0 l"
  shows "prefix (tl_got l) (tl_sent l) \<and> \<not> tl_failed l \<and>
    (\<exists>l'. (tcp_link_step N)\<^sup>*\<^sup>* l l' \<and> tl_sent l' = tl_sent l \<and> tl_got l' = tl_sent l)"
proof -
  have inv: "link_inv N (tp_shared_key (tl_from l0)) (tp_sent_nonce (tl_from l0)) l"
    using link_steps_inv [OF assms(3) link_start_inv [OF assms(1)]] .
  then show ?thesis using link_completes [OF inv assms(2)] by (auto simp: link_inv_def)
qed

definition sample_pipe :: tcp_pipe where
  "sample_pipe = \<lparr>tp_sock = \<lparr>sk_fd = 0, sk_in = [], sk_out = [], sk_calls = 0\<rparr>, tp_recv_nonce = replicate 24 7, tp_sent_nonce = replicate 24 7,
     tp_shared_key = replicate 32 5, next_packet_length = 0, last_packet = replicate 2050 0, last_packet_length = 0, last_packet_sent = 0,
     priority_queue = []\<rparr>"

definition sample_link :: tcp_link where
  "sample_link = \<lparr>tl_from = sample_pipe, tl_to = sample_pipe, tl_moved = 0, tl_sent = [], tl_got = [], tl_failed = False\<rparr>"

lemma sample_link_start: "link_start sample_link"
  by (simp add: link_start_def sample_link_def sample_pipe_def pipe_ok_def pipe_stream_def pipe_pending_def read_at_def)

lemma sample_link_write: "\<exists>l. tcp_link_step nacl_plain sample_link l \<and> tl_sent l = [[1, 2, 3]]"
proof -
  obtain r c where w: "write_packet_TCP_secure_connection (willing_env nacl_plain) (tl_from sample_link) [1, 2, 3] True = (r, c)" by fastforce
  have ok: "pipe_ok (tl_from sample_link)" using sample_link_start by (simp add: link_start_def)
  have "r = 1" using write_packet_stream [OF ok willing_env_ok [OF nacl_plain_ok] w] by (auto simp: msg_ok_def split: if_splits)
  then show ?thesis using link_write [OF willing_env_ok [OF nacl_plain_ok] w] by (intro exI conjI) (assumption, simp add: sample_link_def)
qed

theorem tcp_stream_in_order_witness:
  "\<exists>l l'. (tcp_link_step nacl_plain)\<^sup>*\<^sup>* sample_link l \<and> tl_sent l = [[1, 2, 3]] \<and> (tcp_link_step nacl_plain)\<^sup>*\<^sup>* l l' \<and> tl_got l' = [[1, 2, 3]]"
proof -
  obtain l where l: "tcp_link_step nacl_plain sample_link l" "tl_sent l = [[1, 2, 3]]" using sample_link_write by blast
  then have s: "(tcp_link_step nacl_plain)\<^sup>*\<^sup>* sample_link l" by blast
  from tcp_stream_in_order [OF sample_link_start nacl_plain_ok s] l(2) s show ?thesis by metis
qed

end
