(* ===== verification/TCP_Server.thy ===== *)
theory TCP_Server
  imports TCP_Stream BS_List Onion
begin

text \<open>
  The TCP relay (\<open>toxcore/TCP_server.c\<close>, \<open>toxcore/TCP_server.h\<close>): handshakes, the list of accepted
  connections with its index of public keys, and the routing of packets between clients.

  The three arrays of connections are lists; the size of \<open>accepted_connection_array\<close> is its length.
  Pointers to a connection in it are its position. Sockets that are closed and what the onion sends
  go to a log. The variant with \<open>epoll\<close> is a build option and not modelled; the sockets that
  \<open>accept\<close> returns are an argument of \<open>do_TCP_server\<close>.
\<close>

abbreviation (input) "MAX_INCOMMING_CONNECTIONS \<equiv> (256::nat)"
abbreviation (input) "TCP_HANDSHAKE_PLAIN_SIZE \<equiv> (56::nat)"
abbreviation (input) "TCP_SERVER_HANDSHAKE_SIZE \<equiv> (96::nat)"
abbreviation (input) "TCP_CLIENT_HANDSHAKE_SIZE \<equiv> (128::nat)"
abbreviation (input) "TCP_MAX_OOB_DATA_LENGTH \<equiv> (1024::nat)"
abbreviation (input) "NUM_RESERVED_PORTS \<equiv> (16::u8)"
abbreviation (input) "NUM_CLIENT_CONNECTIONS \<equiv> (240::nat)"
abbreviation (input) "TCP_PACKET_ROUTING_REQUEST \<equiv> (0::u8)"
abbreviation (input) "TCP_PACKET_ROUTING_RESPONSE \<equiv> (1::u8)"
abbreviation (input) "TCP_PACKET_CONNECTION_NOTIFICATION \<equiv> (2::u8)"
abbreviation (input) "TCP_PACKET_DISCONNECT_NOTIFICATION \<equiv> (3::u8)"
abbreviation (input) "TCP_PACKET_PING \<equiv> (4::u8)"
abbreviation (input) "TCP_PACKET_PONG \<equiv> (5::u8)"
abbreviation (input) "TCP_PACKET_OOB_SEND \<equiv> (6::u8)"
abbreviation (input) "TCP_PACKET_OOB_RECV \<equiv> (7::u8)"
abbreviation (input) "TCP_PACKET_ONION_REQUEST \<equiv> (8::u8)"
abbreviation (input) "TCP_PACKET_ONION_RESPONSE \<equiv> (9::u8)"
abbreviation (input) "TCP_PING_FREQUENCY \<equiv> (30::u64)"
abbreviation (input) "TCP_PING_TIMEOUT \<equiv> (10::u64)"
abbreviation (input) "TCP_STATUS_NO_STATUS \<equiv> (0::nat)"
abbreviation (input) "TCP_STATUS_CONNECTED \<equiv> (1::nat)"
abbreviation (input) "TCP_STATUS_UNCONFIRMED \<equiv> (2::nat)"
abbreviation (input) "TCP_STATUS_CONFIRMED \<equiv> (3::nat)"

section \<open>State\<close>

text \<open>A slot of a connection: status \<open>0\<close> if not used, \<open>1\<close> if the other is offline, \<open>2\<close> if it is online.\<close>

record tcp_slot =
  sl_status :: nat
  sl_public_key :: bytes
  sl_index :: nat
  sl_other_id :: nat

record TCP_Secure_Connection = tcp_pipe +
  tc_status :: nat
  tc_public_key :: bytes
  tc_connections :: "tcp_slot list"
  tc_identifier :: u64
  tc_last_pinged :: u64
  tc_ping_id :: u64

datatype tcp_server_event = KillSock nat | OnionSent onion_event

record TCP_Server =
  sv_onion :: "Onion option"
  sv_secret_key :: bytes
  incomming_connection_queue :: "TCP_Secure_Connection list"
  incomming_connection_queue_index :: u16
  unconfirmed_connection_queue :: "TCP_Secure_Connection list"
  unconfirmed_connection_queue_index :: u16
  accepted_connection_array :: "TCP_Secure_Connection list"
  num_accepted_connections :: nat
  counter :: u64
  accepted_key_list :: bs_list
  sv_log :: "tcp_server_event list"

text \<open>
  The environment: the sockets, the random values that a connection draws (by socket and number of
  calls made on it), the allocations and the environment of the onion.
\<close>

record tcp_server_env =
  se_tcp :: tcp_env
  se_keypair :: "nat \<Rightarrow> bytes \<times> bytes"
  se_nonce :: "nat \<Rightarrow> nat \<Rightarrow> bytes"
  se_random64 :: "nat \<Rightarrow> nat \<Rightarrow> u64"
  se_bs :: bs_alloc
  se_realloc :: "nat \<Rightarrow> bool"
  se_onion :: onion_env

definition slot_zero :: tcp_slot where
  "slot_zero = \<lparr>sl_status = 0, sl_public_key = replicate 32 0, sl_index = 0, sl_other_id = 0\<rparr>"

definition connection_zero :: TCP_Secure_Connection where
  "connection_zero = \<lparr>tp_sock = \<lparr>sk_fd = 0, sk_in = [], sk_out = [], sk_calls = 0\<rparr>, tp_recv_nonce = replicate 24 0,
     tp_sent_nonce = replicate 24 0, tp_shared_key = replicate 32 0, next_packet_length = 0, last_packet = replicate 2050 0,
     last_packet_length = 0, last_packet_sent = 0, priority_queue = [], tc_status = TCP_STATUS_NO_STATUS,
     tc_public_key = replicate 32 0, tc_connections = replicate NUM_CLIENT_CONNECTIONS slot_zero, tc_identifier = 0,
     tc_last_pinged = 0, tc_ping_id = 0\<rparr>"

definition upd_con :: "nat \<Rightarrow> (TCP_Secure_Connection \<Rightarrow> TCP_Secure_Connection) \<Rightarrow> TCP_Server \<Rightarrow> TCP_Server" where
  "upd_con i f s = s\<lparr>accepted_connection_array := (accepted_connection_array s)[i := f (accepted_connection_array s ! i)]\<rparr>"

definition upd_slot :: "nat \<Rightarrow> nat \<Rightarrow> (tcp_slot \<Rightarrow> tcp_slot) \<Rightarrow> TCP_Server \<Rightarrow> TCP_Server" where
  "upd_slot i x f s = upd_con i (\<lambda>c. c\<lparr>tc_connections := (tc_connections c)[x := f (tc_connections c ! x)]\<rparr>) s"

definition the_slot :: "TCP_Server \<Rightarrow> nat \<Rightarrow> nat \<Rightarrow> tcp_slot" where
  "the_slot s i x = tc_connections (accepted_connection_array s ! i) ! x"

text \<open>\<open>write_packet_TCP_secure_connection\<close> on an accepted connection.\<close>

definition write_con :: "tcp_server_env \<Rightarrow> TCP_Server \<Rightarrow> nat \<Rightarrow> bytes \<Rightarrow> bool \<Rightarrow> int \<times> TCP_Server" where
  "write_con E s i data priority =
     (let (r, c) = write_packet_TCP_secure_connection (se_tcp E) (accepted_connection_array s ! i) data priority
      in (r, upd_con i (\<lambda>_. c) s))"

definition kill_sock :: "TCP_Secure_Connection \<Rightarrow> TCP_Server \<Rightarrow> TCP_Server" where
  "kill_sock c s = s\<lparr>sv_log := sv_log s @ [KillSock (sk_fd (tp_sock c))]\<rparr>"

section \<open>The list of accepted connections\<close>

definition realloc_connection :: "tcp_server_env \<Rightarrow> TCP_Server \<Rightarrow> nat \<Rightarrow> int \<times> TCP_Server" where
  "realloc_connection E s num =
     (let a = accepted_connection_array s
      in if num = 0 then (0, s\<lparr>accepted_connection_array := []\<rparr>)
         else if num = length a then (0, s)
         else if \<not> se_realloc E num then (- 1, s)
         else (0, s\<lparr>accepted_connection_array := take num a @ replicate (num - length a) connection_zero\<rparr>))"

text \<open>The search in the sorted list always returns (\<open>bs_list_find_refines\<close>); \<open>None\<close> is the result \<open>-1\<close>.\<close>

definition get_TCP_connection_index :: "TCP_Server \<Rightarrow> bytes \<Rightarrow> nat option" where
  "get_TCP_connection_index s public_key =
     (case bs_list_find (accepted_key_list s) public_key of
        None \<Rightarrow> None
      | Some i \<Rightarrow> if i = - 1 then None else Some (nat i))"

definition server_send_disconnect_notification :: "tcp_server_env \<Rightarrow> TCP_Server \<Rightarrow> nat \<Rightarrow> nat \<Rightarrow> int \<times> TCP_Server" where
  "server_send_disconnect_notification E s i x =
     write_con E s i [TCP_PACKET_DISCONNECT_NOTIFICATION, word_of_nat x + NUM_RESERVED_PORTS] True"

definition send_connect_notification :: "tcp_server_env \<Rightarrow> TCP_Server \<Rightarrow> nat \<Rightarrow> nat \<Rightarrow> int \<times> TCP_Server" where
  "send_connect_notification E s i x =
     write_con E s i [TCP_PACKET_CONNECTION_NOTIFICATION, word_of_nat x + NUM_RESERVED_PORTS] True"

definition send_routing_response :: "tcp_server_env \<Rightarrow> TCP_Server \<Rightarrow> nat \<Rightarrow> u8 \<Rightarrow> bytes \<Rightarrow> int \<times> TCP_Server" where
  "send_routing_response E s i rpid public_key = write_con E s i ([TCP_PACKET_ROUTING_RESPONSE, rpid] @ public_key) True"

definition rm_connection_index :: "tcp_server_env \<Rightarrow> TCP_Server \<Rightarrow> nat \<Rightarrow> nat \<Rightarrow> int \<times> TCP_Server" where
  "rm_connection_index E s i con_number =
     (if con_number \<ge> NUM_CLIENT_CONNECTIONS then (- 1, s)
      else
        let slot = the_slot s i con_number; index = sl_index slot; other_id = sl_other_id slot;
            clear = upd_slot i con_number (\<lambda>x. x\<lparr>sl_index := 0, sl_other_id := 0, sl_status := 0\<rparr>)
        in if sl_status slot \<noteq> 0 then
             if sl_status slot = 2 then
               if index \<ge> length (accepted_connection_array s) then (- 1, s)
               else (0, clear (snd (server_send_disconnect_notification E
                       (upd_slot index other_id (\<lambda>x. x\<lparr>sl_other_id := 0, sl_index := 0, sl_status := 1\<rparr>) s) index other_id)))
             else (0, clear s)
           else (- 1, s))"

definition del_accepted :: "tcp_server_env \<Rightarrow> TCP_Server \<Rightarrow> nat \<Rightarrow> int \<times> TCP_Server" where
  "del_accepted E s index =
     (if index \<ge> length (accepted_connection_array s) then (- 1, s)
      else
        let c = accepted_connection_array s ! index
        in if tc_status c = TCP_STATUS_NO_STATUS then (- 1, s)
           else
             let (ok, l) = bs_remove_op (se_bs E) (accepted_key_list s) (tc_public_key c) (int index)
             in if \<not> ok then (- 1, s\<lparr>accepted_key_list := l\<rparr>)
                else
                  let s1 = upd_con index (\<lambda>_. connection_zero) (s\<lparr>accepted_key_list := l\<rparr>);
                      s2 = s1\<lparr>num_accepted_connections := num_accepted_connections s1 - 1\<rparr>
                  in (0, if num_accepted_connections s2 = 0 then snd (realloc_connection E s2 0) else s2))"

definition kill_accepted :: "tcp_server_env \<Rightarrow> TCP_Server \<Rightarrow> nat \<Rightarrow> int \<times> TCP_Server" where
  "kill_accepted E s index =
     (if index \<ge> length (accepted_connection_array s) then (- 1, s)
      else
        let s1 = fold (\<lambda>i s. snd (rm_connection_index E s index i)) [0..<NUM_CLIENT_CONNECTIONS] s;
            c = accepted_connection_array s1 ! index;
            (r, s2) = del_accepted E s1 index
        in if r \<noteq> 0 then (- 1, s2) else (0, kill_sock c s2))"

text \<open>The search for a free entry goes from the end of the array.\<close>

definition free_entry :: "TCP_Server \<Rightarrow> nat option" where
  "free_entry s = find (\<lambda>i. tc_status (accepted_connection_array s ! i) = TCP_STATUS_NO_STATUS) (rev [0..<length (accepted_connection_array s)])"

definition add_accepted :: "tcp_server_env \<Rightarrow> TCP_Server \<Rightarrow> TCP_Secure_Connection \<Rightarrow> nat option \<times> TCP_Server" where
  "add_accepted E s con =
     (let s1 = (case get_TCP_connection_index s (tc_public_key con) of
                  None \<Rightarrow> s
                | Some index \<Rightarrow> snd (kill_accepted E s index));
          (index, s2) =
            (if length (accepted_connection_array s1) = num_accepted_connections s1 then
               let (r, s2) = realloc_connection E s1 (length (accepted_connection_array s1) + 4)
               in (if r = - 1 then None else Some (num_accepted_connections s1), s2)
             else (free_entry s1, s1))
      in case index of
           None \<Rightarrow> (None, s2)
         | Some index \<Rightarrow>
             let (ok, l) = bs_add_op (se_bs E) (accepted_key_list s2) (tc_public_key con) (int index); s3 = s2\<lparr>accepted_key_list := l\<rparr>
             in if \<not> ok then (None, s3)
                else
                  (Some index, (upd_con index (\<lambda>_. con\<lparr>tc_status := TCP_STATUS_CONFIRMED, tc_identifier := counter s3 + 1,
                      tc_last_pinged := te_now (se_tcp E), tc_ping_id := 0\<rparr>) s3)
                    \<lparr>num_accepted_connections := num_accepted_connections s3 + 1, counter := counter s3 + 1\<rparr>))"

section \<open>Handshake\<close>

definition kill_TCP_connection :: "TCP_Secure_Connection \<Rightarrow> TCP_Server \<Rightarrow> TCP_Secure_Connection \<times> TCP_Server" where
  "kill_TCP_connection con s = (connection_zero, kill_sock con s)"

definition handle_TCP_handshake :: "tcp_server_env \<Rightarrow> TCP_Secure_Connection \<Rightarrow> bytes \<Rightarrow> bytes \<Rightarrow> int \<times> TCP_Secure_Connection" where
  "handle_TCP_handshake E con data secret_key =
     (let N = te_nacl (se_tcp E)
      in if length data \<noteq> TCP_CLIENT_HANDSHAKE_SIZE then (- 1, con)
         else if tc_status con \<noteq> TCP_STATUS_CONNECTED then (- 1, con)
         else
           let shared_key = encrypt_precompute N (take 32 data) secret_key
           in case decrypt_data_symmetric N shared_key (read_at data 32 24) (read_at data 56 (TCP_HANDSHAKE_PLAIN_SIZE + crypto_box_MACBYTES)) of
                None \<Rightarrow> (- 1, con)
              | Some plain \<Rightarrow>
                  if length plain \<noteq> TCP_HANDSHAKE_PLAIN_SIZE then (- 1, con)
                  else
                    let fd = sk_fd (tp_sock con);
                        (temp_public_key, temp_secret_key) = se_keypair E fd;
                        sent_nonce = se_nonce E fd 0;
                        con1 = con\<lparr>tc_public_key := take 32 data, tp_sent_nonce := sent_nonce, tp_recv_nonce := read_at plain 32 24\<rparr>;
                        nonce = se_nonce E fd 1
                    in case encrypt_data_symmetric N shared_key nonce (temp_public_key @ sent_nonce) of
                         None \<Rightarrow> (- 1, con1)
                       | Some enc \<Rightarrow>
                           if length enc \<noteq> TCP_HANDSHAKE_PLAIN_SIZE + crypto_box_MACBYTES then (- 1, con1)
                           else
                             let (len, sk) = sock_send (se_tcp E) (tp_sock con1) (nonce @ enc); con2 = con1\<lparr>tp_sock := sk\<rparr>
                             in if len \<noteq> int TCP_SERVER_HANDSHAKE_SIZE then (- 1, con2)
                                else (1, con2\<lparr>tp_shared_key := encrypt_precompute N (take 32 plain) temp_secret_key,
                                             tc_status := TCP_STATUS_UNCONFIRMED\<rparr>))"

definition read_connection_handshake :: "tcp_server_env \<Rightarrow> TCP_Secure_Connection \<Rightarrow> bytes \<Rightarrow> int \<times> TCP_Secure_Connection" where
  "read_connection_handshake E con secret_key =
     (let (len, data, sk) = read_TCP_packet (se_tcp E) (tp_sock con) TCP_CLIENT_HANDSHAKE_SIZE; con1 = con\<lparr>tp_sock := sk\<rparr>
      in if len \<noteq> - 1 then handle_TCP_handshake E con1 data secret_key else (0, con1))"

section \<open>Routing\<close>

text \<open>
  The first loop of \<open>handle_TCP_routing_req\<close>: \<open>Inl\<close> the slot that already has the key, \<open>Inr\<close> the first
  free slot, if any.
\<close>

fun routing_slots :: "bytes \<Rightarrow> tcp_slot list \<Rightarrow> nat \<Rightarrow> nat option \<Rightarrow> nat + nat option" where
  "routing_slots public_key [] i index = Inr index"
| "routing_slots public_key (x # xs) i index =
     (if sl_status x \<noteq> 0 then
        if memcmp public_key (sl_public_key x) = 0 then Inl i else routing_slots public_key xs (Suc i) index
      else routing_slots public_key xs (Suc i) (if index = None then Some i else index))"

definition link_connections :: "tcp_server_env \<Rightarrow> TCP_Server \<Rightarrow> nat \<Rightarrow> nat \<Rightarrow> nat \<Rightarrow> nat \<Rightarrow> TCP_Server" where
  "link_connections E s con_id index other_index other_id =
     (let s1 = upd_slot con_id index (\<lambda>x. x\<lparr>sl_status := 2, sl_index := other_index, sl_other_id := other_id\<rparr>) s;
          s2 = upd_slot other_index other_id (\<lambda>x. x\<lparr>sl_status := 2, sl_index := con_id, sl_other_id := index\<rparr>) s1;
          s3 = snd (send_connect_notification E s2 con_id index)
      in snd (send_connect_notification E s3 other_index other_id))"

definition handle_TCP_routing_req :: "tcp_server_env \<Rightarrow> TCP_Server \<Rightarrow> nat \<Rightarrow> bytes \<Rightarrow> int \<times> TCP_Server" where
  "handle_TCP_routing_req E s con_id public_key =
     (let con = accepted_connection_array s ! con_id;
          respond = (\<lambda>rpid. let (r, s1) = send_routing_response E s con_id rpid public_key in (if r = - 1 then - 1 else 0, s1))
      in if memcmp (tc_public_key con) public_key = 0 then respond 0
         else case routing_slots public_key (tc_connections con) 0 None of
           Inl i \<Rightarrow> respond (word_of_nat i + NUM_RESERVED_PORTS)
         | Inr None \<Rightarrow> respond 0
         | Inr (Some index) \<Rightarrow>
             let (ret, s1) = send_routing_response E s con_id (word_of_nat index + NUM_RESERVED_PORTS) public_key
             in if ret = 0 then (0, s1)
                else if ret = - 1 then (- 1, s1)
                else
                  let s2 = upd_slot con_id index (\<lambda>x. x\<lparr>sl_status := 1, sl_public_key := public_key\<rparr>) s1
                  in case get_TCP_connection_index s2 public_key of
                       None \<Rightarrow> (0, s2)
                     | Some other_index \<Rightarrow>
                         let other_conn = accepted_connection_array s2 ! other_index
                         in case find (\<lambda>i. sl_status (tc_connections other_conn ! i) = 1 \<and>
                                      memcmp (sl_public_key (tc_connections other_conn ! i)) (tc_public_key con) = 0) [0..<NUM_CLIENT_CONNECTIONS] of
                              None \<Rightarrow> (0, s2)
                            | Some other_id \<Rightarrow> (0, link_connections E s2 con_id index other_index other_id))"

definition handle_TCP_oob_send :: "tcp_server_env \<Rightarrow> TCP_Server \<Rightarrow> nat \<Rightarrow> bytes \<Rightarrow> bytes \<Rightarrow> int \<times> TCP_Server" where
  "handle_TCP_oob_send E s con_id public_key data =
     (if length data = 0 \<or> length data > TCP_MAX_OOB_DATA_LENGTH then (- 1, s)
      else case get_TCP_connection_index s public_key of
             None \<Rightarrow> (0, s)
           | Some other_index \<Rightarrow>
               (0, snd (write_con E s other_index
                  ([TCP_PACKET_OOB_RECV] @ tc_public_key (accepted_connection_array s ! con_id) @ data) False)))"

text \<open>The address that stands for a client in the onion: its number and its identifier, as the fields of \<open>ip6\<close>.\<close>

definition onion_source :: "nat \<Rightarrow> u64 \<Rightarrow> IP_Port" where
  "onion_source con_id ident = \<lparr>ipp_ip = \<lparr>ip_family = TCP_ONION_FAMILY, ip_addr = bytes_le 4 con_id @ replicate 4 0 @ bytes_le 8 (unat ident)\<rparr>, ipp_port = 0\<rparr>"

definition handle_onion_recv_1 :: "tcp_server_env \<Rightarrow> TCP_Server \<Rightarrow> IP_Port \<Rightarrow> bytes \<Rightarrow> int \<times> TCP_Server" where
  "handle_onion_recv_1 E s dest data =
     (let index = le_val (read_at (ip_addr (ipp_ip dest)) 0 4)
      in if index \<ge> length (accepted_connection_array s) then (1, s)
         else if tc_identifier (accepted_connection_array s ! index) \<noteq> word_of_nat (le_val (read_at (ip_addr (ipp_ip dest)) 8 8)) then (1, s)
         else let (r, s1) = write_con E s index ([TCP_PACKET_ONION_RESPONSE] @ data) False in (if r \<noteq> 1 then 1 else 0, s1))"

definition handle_TCP_packet :: "tcp_server_env \<Rightarrow> TCP_Server \<Rightarrow> nat \<Rightarrow> bytes \<Rightarrow> int \<times> TCP_Server" where
  "handle_TCP_packet E s con_id data =
     (let con = accepted_connection_array s ! con_id
      in if length data = 0 then (- 1, s)
         else if data ! 0 = TCP_PACKET_ROUTING_REQUEST then
           if length data \<noteq> 1 + crypto_box_PUBLICKEYBYTES then (- 1, s) else handle_TCP_routing_req E s con_id (drop 1 data)
         else if data ! 0 = TCP_PACKET_CONNECTION_NOTIFICATION then
           if length data \<noteq> 2 then (- 1, s) else (0, s)
         else if data ! 0 = TCP_PACKET_DISCONNECT_NOTIFICATION then
           if length data \<noteq> 2 then (- 1, s) else rm_connection_index E s con_id (unat (data ! 1 - NUM_RESERVED_PORTS))
         else if data ! 0 = TCP_PACKET_PING then
           if length data \<noteq> 1 + 8 then (- 1, s) else (0, snd (write_con E s con_id ([TCP_PACKET_PONG] @ drop 1 data) True))
         else if data ! 0 = TCP_PACKET_PONG then
           if length data \<noteq> 1 + 8 then (- 1, s)
           else
             let ping_id = word_of_nat (le_val (drop 1 data))
             in if ping_id \<noteq> 0
                then (0, if ping_id = tc_ping_id con then upd_con con_id (\<lambda>c. c\<lparr>tc_ping_id := 0\<rparr>) s else s)
                else (- 1, s)
         else if data ! 0 = TCP_PACKET_OOB_SEND then
           if length data \<le> 1 + crypto_box_PUBLICKEYBYTES then (- 1, s)
           else handle_TCP_oob_send E s con_id (read_at data 1 crypto_box_PUBLICKEYBYTES) (drop (1 + crypto_box_PUBLICKEYBYTES) data)
         else if data ! 0 = TCP_PACKET_ONION_REQUEST then
           (case sv_onion s of
              None \<Rightarrow> (0, s)
            | Some onion \<Rightarrow>
                if length data \<le> 1 + crypto_box_NONCEBYTES + ONION_SEND_BASE * 2 then (- 1, s)
                else (0, s\<lparr>sv_log := sv_log s @ map OnionSent (snd (onion_send_1 (se_onion E) onion (drop (1 + crypto_box_NONCEBYTES) data)
                           (onion_source con_id (tc_identifier con)) (drop 1 data)))\<rparr>))
         else if data ! 0 = TCP_PACKET_ONION_RESPONSE then (- 1, s)
         else if data ! 0 < NUM_RESERVED_PORTS then (- 1, s)
         else
           let c_id = unat (data ! 0 - NUM_RESERVED_PORTS); slot = the_slot s con_id c_id
           in if c_id \<ge> NUM_CLIENT_CONNECTIONS then (- 1, s)
              else if sl_status slot = 0 then (- 1, s)
              else if sl_status slot \<noteq> 2 then (0, s)
              else
                let (ret, s1) = write_con E s (sl_index slot) ((word_of_nat (sl_other_id slot) + NUM_RESERVED_PORTS) # drop 1 data) False
                in (if ret = - 1 then - 1 else 0, s1))"

text \<open>The result is the index of the new connection; the connection that is confirmed is cleared or killed in any case.\<close>

definition confirm_TCP_connection :: "tcp_server_env \<Rightarrow> TCP_Server \<Rightarrow> TCP_Secure_Connection \<Rightarrow> bytes \<Rightarrow> nat option \<times> TCP_Server" where
  "confirm_TCP_connection E s con data =
     (case add_accepted E s con of
        (None, s1) \<Rightarrow> (None, kill_sock con s1)
      | (Some index, s1) \<Rightarrow>
          let (r, s2) = handle_TCP_packet E s1 index data
          in if r = - 1 then (None, snd (kill_accepted E s2 index)) else (Some index, s2))"

section \<open>The main loop\<close>

text \<open>\<open>sock\<close> is a socket that \<open>accept\<close> returned, with the results of making it non-blocking and of disabling the signal.\<close>

definition accept_connection :: "TCP_Server \<Rightarrow> tcp_sock \<times> bool \<times> bool \<Rightarrow> TCP_Server" where
  "accept_connection s sock =
     (case sock of (sk, nonblock, nosigpipe) \<Rightarrow>
        if \<not> nonblock \<or> \<not> nosigpipe then s\<lparr>sv_log := sv_log s @ [KillSock (sk_fd sk)]\<rparr>
        else
          let index = unat (incomming_connection_queue_index s) mod MAX_INCOMMING_CONNECTIONS;
              conn = incomming_connection_queue s ! index;
              (conn1, s1) = (if tc_status conn \<noteq> TCP_STATUS_NO_STATUS then kill_TCP_connection conn s else (conn, s));
              conn2 = conn1\<lparr>tc_status := TCP_STATUS_CONNECTED, tp_sock := sk, next_packet_length := 0\<rparr>
          in s1\<lparr>incomming_connection_queue := (incomming_connection_queue s1)[index := conn2],
               incomming_connection_queue_index := incomming_connection_queue_index s1 + 1\<rparr>)"

text \<open>The sockets that a listening socket gives, up to the one whose \<open>accept_connection\<close> fails.\<close>

fun do_TCP_accept_new :: "TCP_Server \<Rightarrow> (tcp_sock \<times> bool \<times> bool) list \<Rightarrow> TCP_Server" where
  "do_TCP_accept_new s [] = s"
| "do_TCP_accept_new s (x # xs) =
     (let s1 = accept_connection s x
      in if \<not> fst (snd x) \<or> \<not> snd (snd x) then s1 else do_TCP_accept_new s1 xs)"

definition do_incoming :: "tcp_server_env \<Rightarrow> nat \<Rightarrow> TCP_Server \<Rightarrow> nat option \<times> TCP_Server" where
  "do_incoming E i s =
     (let con = incomming_connection_queue s ! i; put = (\<lambda>c s. s\<lparr>incomming_connection_queue := (incomming_connection_queue s)[i := c]\<rparr>)
      in if tc_status con \<noteq> TCP_STATUS_CONNECTED then (None, s)
         else
           let (ret, con1) = read_connection_handshake E con (sv_secret_key s)
           in if ret = - 1 then let (con2, s1) = kill_TCP_connection con1 s in (None, put con2 s1)
              else if ret = 1 then
                let index_new = unat (unconfirmed_connection_queue_index s) mod MAX_INCOMMING_CONNECTIONS;
                    conn_new = unconfirmed_connection_queue s ! index_new;
                    s1 = (if tc_status conn_new \<noteq> TCP_STATUS_NO_STATUS then snd (kill_TCP_connection conn_new s) else s)
                in (Some index_new, put connection_zero (s1\<lparr>unconfirmed_connection_queue := (unconfirmed_connection_queue s1)[index_new := con1],
                      unconfirmed_connection_queue_index := unconfirmed_connection_queue_index s1 + 1\<rparr>))
              else (None, put con1 s))"

definition do_unconfirmed :: "tcp_server_env \<Rightarrow> nat \<Rightarrow> TCP_Server \<Rightarrow> nat option \<times> TCP_Server" where
  "do_unconfirmed E i s =
     (let conn = unconfirmed_connection_queue s ! i; put = (\<lambda>c s. s\<lparr>unconfirmed_connection_queue := (unconfirmed_connection_queue s)[i := c]\<rparr>)
      in if tc_status conn \<noteq> TCP_STATUS_UNCONFIRMED then (None, s)
         else
           let (len, packet, conn1) = read_packet_TCP_secure_connection (se_tcp E) conn MAX_PACKET_SIZE
           in if len = 0 then (None, put conn1 s)
              else if len = - 1 then let (conn2, s1) = kill_TCP_connection conn1 s in (None, put conn2 s1)
              else let (r, s1) = confirm_TCP_connection E s conn1 packet in (r, put connection_zero s1))"

text \<open>
  The loop of \<open>do_confirmed_recv\<close>, with fuel: a packet that is read takes bytes from the buffer, so the
  number of bytes there is enough (\<open>do_confirmed_recv_returns\<close>).
\<close>

fun confirmed_recv_loop :: "tcp_server_env \<Rightarrow> nat \<Rightarrow> nat \<Rightarrow> TCP_Server \<Rightarrow> TCP_Server option" where
  "confirmed_recv_loop E 0 i s = None"
| "confirmed_recv_loop E (Suc fuel) i s =
     (let (len, packet, conn1) = read_packet_TCP_secure_connection (se_tcp E) (accepted_connection_array s ! i) MAX_PACKET_SIZE;
          s1 = upd_con i (\<lambda>_. conn1) s
      in if len = 0 then Some s1
         else if len = - 1 then Some (snd (kill_accepted E s1 i))
         else
           let (r, s2) = handle_TCP_packet E s1 i packet
           in if r = - 1 then Some (snd (kill_accepted E s2 i)) else confirmed_recv_loop E fuel i s2)"

definition do_confirmed_recv :: "tcp_server_env \<Rightarrow> nat \<Rightarrow> TCP_Server \<Rightarrow> TCP_Server option" where
  "do_confirmed_recv E i s = confirmed_recv_loop E (Suc (length (sk_in (tp_sock (accepted_connection_array s ! i))))) i s"

definition do_TCP_incomming :: "tcp_server_env \<Rightarrow> TCP_Server \<Rightarrow> TCP_Server" where
  "do_TCP_incomming E s = fold (\<lambda>i s. snd (do_incoming E i s)) [0..<MAX_INCOMMING_CONNECTIONS] s"

definition do_TCP_unconfirmed :: "tcp_server_env \<Rightarrow> TCP_Server \<Rightarrow> TCP_Server" where
  "do_TCP_unconfirmed E s = fold (\<lambda>i s. snd (do_unconfirmed E i s)) [0..<MAX_INCOMMING_CONNECTIONS] s"

text \<open>The ping of a connection, and whether the connection is still there.\<close>

definition ping_connection :: "tcp_server_env \<Rightarrow> nat \<Rightarrow> TCP_Server \<Rightarrow> bool \<times> TCP_Server" where
  "ping_connection E i s =
     (let conn = accepted_connection_array s ! i; now = te_now (se_tcp E)
      in if is_timeout now (tc_last_pinged conn) TCP_PING_FREQUENCY then
           let r0 = se_random64 E (sk_fd (tp_sock conn)) (sk_calls (tp_sock conn)); ping_id = (if r0 = 0 then r0 + 1 else r0);
               (ret, s1) = write_con E s i ([TCP_PACKET_PING] @ bytes_le 8 (unat ping_id)) True
           in if ret = 1 then (True, upd_con i (\<lambda>c. c\<lparr>tc_last_pinged := now, tc_ping_id := ping_id\<rparr>) s1)
              else if is_timeout now (tc_last_pinged conn) (TCP_PING_FREQUENCY + TCP_PING_TIMEOUT) then (False, snd (kill_accepted E s1 i))
              else (True, s1)
         else (True, s))"

definition confirmed_round :: "tcp_server_env \<Rightarrow> nat \<Rightarrow> TCP_Server \<Rightarrow> TCP_Server option" where
  "confirmed_round E i s =
     (if i \<ge> length (accepted_connection_array s) then Some s
      else if tc_status (accepted_connection_array s ! i) \<noteq> TCP_STATUS_CONFIRMED then Some s
      else
        let (alive, s1) = ping_connection E i s; conn = accepted_connection_array s1 ! i
        in if \<not> alive then Some s1
           else if tc_ping_id conn \<noteq> 0 \<and> is_timeout (te_now (se_tcp E)) (tc_last_pinged conn) TCP_PING_TIMEOUT
           then Some (snd (kill_accepted E s1 i))
           else do_confirmed_recv E i (upd_con i (\<lambda>c. snd (send_pending_data (se_tcp E) c)) s1))"

fun confirmed_rounds :: "tcp_server_env \<Rightarrow> nat list \<Rightarrow> TCP_Server \<Rightarrow> TCP_Server option" where
  "confirmed_rounds E [] s = Some s"
| "confirmed_rounds E (i # is) s = (case confirmed_round E i s of None \<Rightarrow> None | Some s1 \<Rightarrow> confirmed_rounds E is s1)"

definition do_TCP_confirmed :: "tcp_server_env \<Rightarrow> TCP_Server \<Rightarrow> TCP_Server option" where
  "do_TCP_confirmed E s = confirmed_rounds E [0..<length (accepted_connection_array s)] s"

definition do_TCP_server :: "tcp_server_env \<Rightarrow> (tcp_sock \<times> bool \<times> bool) list list \<Rightarrow> TCP_Server \<Rightarrow> TCP_Server option" where
  "do_TCP_server E socks s =
     do_TCP_confirmed E (do_TCP_unconfirmed E (do_TCP_incomming E (fold (\<lambda>l s. do_TCP_accept_new s l) socks s)))"

definition new_TCP_server :: "tcp_server_env \<Rightarrow> Onion option \<Rightarrow> bytes \<Rightarrow> TCP_Server" where
  "new_TCP_server E onion secret_key =
     \<lparr>sv_onion = map_option (\<lambda>o1. set_callback_handle_recv_1 o1 True) onion, sv_secret_key = secret_key,
      incomming_connection_queue = replicate MAX_INCOMMING_CONNECTIONS connection_zero, incomming_connection_queue_index = 0,
      unconfirmed_connection_queue = replicate MAX_INCOMMING_CONNECTIONS connection_zero, unconfirmed_connection_queue_index = 0,
      accepted_connection_array = [], num_accepted_connections = 0, counter = 0,
      accepted_key_list = snd (bs_list_init (se_bs E) crypto_box_PUBLICKEYBYTES 8), sv_log = []\<rparr>"

end
