(* ===== verification/TCP_Relay.thy ===== *)
theory TCP_Relay
  imports TCP_Server
begin

text \<open>
  What the relay keeps between its clients: two slots that are online point at each other and carry
  each other's keys, the index of keys leads to the connections, and a packet is passed on only
  between two clients that asked for each other.
\<close>

section \<open>What the streams leave alone\<close>

definition con_view :: "TCP_Secure_Connection \<Rightarrow> nat \<times> bytes \<times> tcp_slot list" where
  "con_view c = (tc_status c, tc_public_key c, tc_connections c)"

lemma pipe_more_view: "tcp_pipe.more c' = tcp_pipe.more c \<Longrightarrow> con_view c' = con_view c"
  by (cases c; cases c') (simp add: con_view_def)

lemma send_pending_more: "tcp_pipe.more (snd (send_pending_data E c)) = tcp_pipe.more c"
  by (simp add: send_pending_data_def send_pending_data_nonpriority_def Let_def split_beta)

lemma write_packet_more: "tcp_pipe.more (snd (write_packet_TCP_secure_connection E c data priority)) = tcp_pipe.more c"
proof -
  have "tcp_pipe.more (snd (send_frame E c1 F priority b)) = tcp_pipe.more c1" for c1 :: "'a tcp_pipe_scheme" and F b
    by (simp add: send_frame_def add_priority_def Let_def split_beta)
  then show ?thesis
    by (simp add: write_packet_TCP_secure_connection_def Let_def split_beta send_pending_more split: option.split)
qed

lemma read_packet_more: "tcp_pipe.more (snd (snd (read_packet_TCP_secure_connection E c n))) = tcp_pipe.more c"
  by (simp add: read_packet_TCP_secure_connection_def Let_def split_beta)

text \<open>The part of the server that the invariant is about.\<close>

definition server_view :: "TCP_Server \<Rightarrow> (nat \<times> bytes \<times> tcp_slot list) list \<times> nat \<times> bs_list" where
  "server_view s = (map con_view (accepted_connection_array s), num_accepted_connections s, accepted_key_list s)"

lemma upd_con_view:
  assumes "con_view (f (accepted_connection_array s ! i)) = con_view (accepted_connection_array s ! i)"
  shows "server_view (upd_con i f s) = server_view s"
proof -
  have "map con_view ((accepted_connection_array s)[i := f (accepted_connection_array s ! i)]) = map con_view (accepted_connection_array s)"
    using assms by (cases "i < length (accepted_connection_array s)") (auto simp: map_update list_update_beyond intro: list_update_same_conv [THEN iffD2])
  then show ?thesis by (simp add: server_view_def upd_con_def)
qed

lemma write_con_view: "server_view (snd (write_con E s i data priority)) = server_view s"
  unfolding write_con_def split_beta Let_def snd_conv by (intro upd_con_view pipe_more_view write_packet_more)

lemma notify_view:
  "server_view (snd (server_send_disconnect_notification E s i x)) = server_view s"
  "server_view (snd (send_connect_notification E s i x)) = server_view s"
  "server_view (snd (send_routing_response E s i r pk)) = server_view s"
  by (simp_all add: server_send_disconnect_notification_def send_connect_notification_def send_routing_response_def write_con_view)

section \<open>Invariant\<close>

abbreviation num_cons :: "TCP_Server \<Rightarrow> nat" where
  "num_cons s \<equiv> length (accepted_connection_array s)"

abbreviation con_at :: "TCP_Server \<Rightarrow> nat \<Rightarrow> TCP_Secure_Connection" where
  "con_at s i \<equiv> accepted_connection_array s ! i"

definition con_ok :: "TCP_Secure_Connection \<Rightarrow> bool" where
  "con_ok c \<longleftrightarrow> (tc_status c = 0 \<or> tc_status c = 3) \<and> length (tc_public_key c) = 32 \<and> length (tc_connections c) = 240 \<and>
     (\<forall>x\<in>set (tc_connections c). sl_status x \<le> 2 \<and> length (sl_public_key x) = 32 \<and> (tc_status c = 0 \<longrightarrow> sl_status x = 0))"

text \<open>The slot \<open>x\<close> of the connection \<open>i\<close> is online and leads to the slot \<open>y\<close> of the connection \<open>j\<close>.\<close>

definition leads_to :: "TCP_Server \<Rightarrow> nat \<Rightarrow> nat \<Rightarrow> nat \<Rightarrow> nat \<Rightarrow> bool" where
  "leads_to s i x j y \<longleftrightarrow> sl_status (the_slot s i x) = 2 \<and> sl_index (the_slot s i x) = j \<and> sl_other_id (the_slot s i x) = y \<and>
     sl_public_key (the_slot s i x) = tc_public_key (con_at s j)"

definition links_ok :: "TCP_Server \<Rightarrow> bool" where
  "links_ok s \<longleftrightarrow> (\<forall>i<num_cons s. \<forall>x<240. sl_status (the_slot s i x) = 2 \<longrightarrow>
     (\<exists>j y. j < num_cons s \<and> y < 240 \<and> j \<noteq> i \<and> leads_to s i x j y \<and> leads_to s j y i x))"

definition keys_ok :: "TCP_Server \<Rightarrow> bool" where
  "keys_ok s \<longleftrightarrow> bs_inv (accepted_key_list s) \<and> bs_element_size (accepted_key_list s) = 32 \<and>
     (\<forall>k v. bs_map (accepted_key_list s) k = Some v \<longleftrightarrow> (\<exists>i<num_cons s. v = int i \<and> tc_status (con_at s i) = 3 \<and> tc_public_key (con_at s i) = k))"

definition relay_ok :: "TCP_Server \<Rightarrow> bool" where
  "relay_ok s \<longleftrightarrow> (\<forall>c\<in>set (accepted_connection_array s). con_ok c) \<and> links_ok s \<and> keys_ok s \<and>
     num_accepted_connections s = length (filter (\<lambda>c. tc_status c = 3) (accepted_connection_array s)) \<and> num_cons s \<le> 2 ^ 20"

lemma view_facts:
  assumes "server_view s' = server_view s"
  shows "num_cons s' = num_cons s" and "i < num_cons s \<Longrightarrow> con_view (con_at s' i) = con_view (con_at s i)"
    and "num_accepted_connections s' = num_accepted_connections s" and "accepted_key_list s' = accepted_key_list s"
proof -
  have m: "map con_view (accepted_connection_array s') = map con_view (accepted_connection_array s)" using assms by (simp add: server_view_def)
  show len: "num_cons s' = num_cons s" using arg_cong [OF m, of length] by simp
  show "i < num_cons s \<Longrightarrow> con_view (con_at s' i) = con_view (con_at s i)" using arg_cong [OF m, of "\<lambda>xs. xs ! i"] len by simp
  show "num_accepted_connections s' = num_accepted_connections s" "accepted_key_list s' = accepted_key_list s"
    using assms by (simp_all add: server_view_def)
qed

lemma view_con:
  assumes "server_view s' = server_view s" and "i < num_cons s"
  shows "tc_status (con_at s' i) = tc_status (con_at s i)" "tc_public_key (con_at s' i) = tc_public_key (con_at s i)"
    "tc_connections (con_at s' i) = tc_connections (con_at s i)" "the_slot s' i x = the_slot s i x"
  using view_facts(2) [OF assms] by (simp_all add: con_view_def the_slot_def)

lemma con_view_ok: "con_view c' = con_view c \<Longrightarrow> con_ok c' = con_ok c"
  by (simp add: con_view_def con_ok_def)

lemma filter_len_view:
  "map con_view cs' = map con_view cs \<Longrightarrow> length (filter (\<lambda>c. tc_status c = 3) cs') = length (filter (\<lambda>c. tc_status c = 3) cs)"
proof (induction cs' arbitrary: cs)
  case (Cons c cs')
  then obtain b bs where cs: "cs = b # bs" by (cases cs) auto
  then show ?case using Cons by (auto simp: con_view_def)
qed simp

lemma view_relay_ok:
  assumes v: "server_view s' = server_view s" and ok: "relay_ok s"
  shows "relay_ok s'"
proof -
  note f = view_facts [OF v] and c = view_con [OF v]
  have "\<forall>i<num_cons s'. con_ok (con_at s' i)" using ok f(1,2) con_view_ok by (metis nth_mem relay_ok_def)
  then have cons: "\<forall>c\<in>set (accepted_connection_array s'). con_ok c" by (metis in_set_conv_nth)
  have "leads_to s' i x j y = leads_to s i x j y" if "i < num_cons s" "j < num_cons s" for i x j y
    using c that by (simp add: leads_to_def)
  moreover have "links_ok s" using ok by (simp add: relay_ok_def)
  ultimately have links: "links_ok s'" using f(1) c unfolding links_ok_def by metis
  have "keys_ok s" using ok by (simp add: relay_ok_def)
  then have keys: "keys_ok s'" using f(1,4) c(1,2) unfolding keys_ok_def by (metis (no_types, lifting))
  have "map con_view (accepted_connection_array s') = map con_view (accepted_connection_array s)" using v by (simp add: server_view_def)
  from filter_len_view [OF this] show ?thesis using cons links keys ok f(1,3) by (simp add: relay_ok_def)
qed

text \<open>Slots after an update.\<close>

lemma upd_slot_facts:
  "num_cons (upd_slot i x f s) = num_cons s" "num_accepted_connections (upd_slot i x f s) = num_accepted_connections s"
  "accepted_key_list (upd_slot i x f s) = accepted_key_list s"
  "tc_status (con_at (upd_slot i x f s) j) = tc_status (con_at s j)"
  "tc_public_key (con_at (upd_slot i x f s) j) = tc_public_key (con_at s j)"
  "length (tc_connections (con_at (upd_slot i x f s) j)) = length (tc_connections (con_at s j))"
proof -
  show "num_cons (upd_slot i x f s) = num_cons s" "num_accepted_connections (upd_slot i x f s) = num_accepted_connections s"
    "accepted_key_list (upd_slot i x f s) = accepted_key_list s" by (simp_all add: upd_slot_def upd_con_def)
  show "tc_status (con_at (upd_slot i x f s) j) = tc_status (con_at s j)"
    "tc_public_key (con_at (upd_slot i x f s) j) = tc_public_key (con_at s j)"
    "length (tc_connections (con_at (upd_slot i x f s) j)) = length (tc_connections (con_at s j))"
    by (cases "i < num_cons s"; cases "j = i"; simp add: upd_slot_def upd_con_def list_update_beyond)+
qed

lemma upd_slot_slot:
  assumes "i < num_cons s" and "x < length (tc_connections (con_at s i))"
  shows "the_slot (upd_slot i x f s) j y = (if j = i \<and> y = x then f (the_slot s i x) else the_slot s j y)"
  using assms by (cases "j = i"; cases "y = x") (auto simp: the_slot_def upd_slot_def upd_con_def)

lemma relay_con: "relay_ok s \<Longrightarrow> i < num_cons s \<Longrightarrow> con_ok (con_at s i)"
  by (simp add: relay_ok_def)

lemma relay_slot:
  assumes "relay_ok s" and "i < num_cons s" and "x < 240"
  shows "sl_status (the_slot s i x) \<le> 2" "length (sl_public_key (the_slot s i x)) = 32" "sl_status (the_slot s i x) \<noteq> 0 \<Longrightarrow> tc_status (con_at s i) = 3"
    "x < length (tc_connections (con_at s i))" "length (tc_public_key (con_at s i)) = 32"
proof -
  have c: "con_ok (con_at s i)" using assms(1,2) by (rule relay_con)
  then show l: "x < length (tc_connections (con_at s i))" using assms(3) by (simp add: con_ok_def)
  then have "the_slot s i x \<in> set (tc_connections (con_at s i))" by (simp add: the_slot_def)
  then show "sl_status (the_slot s i x) \<le> 2" "length (sl_public_key (the_slot s i x)) = 32"
    "sl_status (the_slot s i x) \<noteq> 0 \<Longrightarrow> tc_status (con_at s i) = 3" "length (tc_public_key (con_at s i)) = 32"
    using c by (auto simp: con_ok_def)
qed

lemma slots_relay_ok:
  assumes ok: "relay_ok s" and n: "num_cons s' = num_cons s" "num_accepted_connections s' = num_accepted_connections s" "accepted_key_list s' = accepted_key_list s"
    and c: "\<And>i. i < num_cons s \<Longrightarrow> tc_status (con_at s' i) = tc_status (con_at s i)"
      "\<And>i. i < num_cons s \<Longrightarrow> tc_public_key (con_at s' i) = tc_public_key (con_at s i)"
      "\<And>i. i < num_cons s \<Longrightarrow> length (tc_connections (con_at s' i)) = length (tc_connections (con_at s i))"
    and sl: "\<And>i x. i < num_cons s \<Longrightarrow> x < 240 \<Longrightarrow> sl_status (the_slot s' i x) \<le> 2 \<and> length (sl_public_key (the_slot s' i x)) = 32 \<and>
      (sl_status (the_slot s' i x) \<noteq> 0 \<longrightarrow> tc_status (con_at s i) = 3)"
    and links: "links_ok s'"
  shows "relay_ok s'"
proof -
  have "con_ok (con_at s' i)" if "i < num_cons s" for i
  proof -
    have c0: "con_ok (con_at s i)" using ok that by (rule relay_con)
    have "sl_status y \<le> 2 \<and> length (sl_public_key y) = 32 \<and> (sl_status y \<noteq> 0 \<longrightarrow> tc_status (con_at s i) = 3)"
      if y: "y \<in> set (tc_connections (con_at s' i))" for y
    proof -
      obtain x where "x < length (tc_connections (con_at s' i))" "y = tc_connections (con_at s' i) ! x" using y by (metis in_set_conv_nth)
      then show ?thesis using sl [OF \<open>i < num_cons s\<close>, of x] c(3) [OF \<open>i < num_cons s\<close>] c0 by (simp add: the_slot_def con_ok_def)
    qed
    then show ?thesis using c0 c [OF that] by (fastforce simp: con_ok_def)
  qed
  then have cons: "\<forall>c\<in>set (accepted_connection_array s'). con_ok c" using n(1) by (metis in_set_conv_nth)
  have "map tc_status (accepted_connection_array s') = map tc_status (accepted_connection_array s)"
    using n(1) c(1) by (simp add: list_eq_iff_nth_eq)
  then have "length (filter (\<lambda>c. tc_status c = 3) (accepted_connection_array s')) = length (filter (\<lambda>c. tc_status c = 3) (accepted_connection_array s))"
    by (metis (mono_tags, lifting) comp_def filter_cong filter_map length_map)
  moreover have "keys_ok s'" using ok n c(1,2) unfolding relay_ok_def keys_ok_def by (metis (no_types, lifting))
  ultimately show ?thesis using ok n cons links by (simp add: relay_ok_def)
qed

section \<open>Removing connections\<close>

lemma disjoint_links:
  assumes "leads_to s i x j y" and "leads_to s a b c d" and "leads_to s c d a b" and "(a, b) \<noteq> (j, y)"
  shows "(c, d) \<noteq> (i, x)"
  using assms by (auto simp: leads_to_def)

lemma links_ok_update:
  assumes ok: "links_ok s" and n: "num_cons s' = num_cons s" and pk: "\<And>i. i < num_cons s \<Longrightarrow> tc_public_key (con_at s' i) = tc_public_key (con_at s i)"
    and ch: "\<And>a b. a < num_cons s \<Longrightarrow> b < 240 \<Longrightarrow> (a, b) \<notin> D \<Longrightarrow> the_slot s' a b = the_slot s a b"
    and D: "\<And>a b c d. a < num_cons s \<Longrightarrow> b < 240 \<Longrightarrow> (a, b) \<notin> D \<Longrightarrow> leads_to s a b c d \<Longrightarrow> leads_to s c d a b \<Longrightarrow> (c, d) \<notin> D"
    and new: "\<And>a b. (a, b) \<in> D \<Longrightarrow> a < num_cons s \<Longrightarrow> b < 240 \<Longrightarrow> sl_status (the_slot s' a b) = 2 \<Longrightarrow>
      \<exists>j y. j < num_cons s \<and> y < 240 \<and> j \<noteq> a \<and> leads_to s' a b j y \<and> leads_to s' j y a b"
  shows "links_ok s'"
  unfolding links_ok_def n
proof (intro allI impI)
  fix a b assume ab: "a < num_cons s" "b < 240" "sl_status (the_slot s' a b) = 2"
  show "\<exists>j y. j < num_cons s \<and> y < 240 \<and> j \<noteq> a \<and> leads_to s' a b j y \<and> leads_to s' j y a b"
  proof (cases "(a, b) \<in> D")
    case False
    then have "sl_status (the_slot s a b) = 2" using ch ab by simp
    then obtain c d where cd: "c < num_cons s" "d < 240" "c \<noteq> a" "leads_to s a b c d" "leads_to s c d a b" using ok ab unfolding links_ok_def by blast
    have "(c, d) \<notin> D" using D [OF ab(1,2) False cd(4,5)] .
    then have "leads_to s' a b c d" "leads_to s' c d a b" using cd ab ch [OF ab(1,2) False] ch [OF cd(1,2)] pk by (simp_all add: leads_to_def)
    then show ?thesis using cd by blast
  qed (use new ab in blast)
qed

lemma rm_connection_index_ok:
  assumes ok: "relay_ok s" and i: "i < num_cons s" and rm: "rm_connection_index E s i x = (r, s')"
  shows "relay_ok s' \<and> num_cons s' = num_cons s \<and> tc_status (con_at s' i) = tc_status (con_at s i) \<and> tc_public_key (con_at s' i) = tc_public_key (con_at s i) \<and>
    (x < 240 \<longrightarrow> sl_status (the_slot s' i x) = 0) \<and> (\<forall>y<240. sl_status (the_slot s i y) = 0 \<longrightarrow> sl_status (the_slot s' i y) = 0)"
proof (cases "x < 240 \<and> sl_status (the_slot s i x) \<noteq> 0")
  case False
  then have "s' = s" using rm by (auto simp: rm_connection_index_def Let_def split: if_splits)
  then show ?thesis using ok False by auto
next
  case True
  let ?clear = "\<lambda>z. z\<lparr>sl_index := 0, sl_other_id := 0, sl_status := 0\<rparr>"
  note sl = relay_slot [OF ok i, of x]
  show ?thesis
  proof (cases "sl_status (the_slot s i x) = 2")
    case False
    then have s': "s' = upd_slot i x ?clear s" using rm True by (simp add: rm_connection_index_def Let_def)
    have x4: "x < length (tc_connections (con_at s i))" using sl(4) True by blast
    note u = upd_slot_slot [OF i x4, of ?clear] and f = upd_slot_facts [of i x ?clear s]
    note u' = u [folded s'] and f' = f [folded s']
    have "links_ok s'"
    proof (rule links_ok_update [of s _ "{(i, x)}"])
      show "links_ok s" using ok by (simp add: relay_ok_def)
      show "(c, d) \<notin> {(i, x)}" if "leads_to s c d a b" for a b c d using that False by (auto simp: leads_to_def)
    qed (auto simp: u' f')
    then have "relay_ok s'"
      using True relay_slot [OF ok] by (intro slots_relay_ok [OF ok]) (simp_all add: u' f')
    then show ?thesis using s' u f True by simp
  next
    case two: True
    obtain j y where l: "j < num_cons s" "y < 240" "j \<noteq> i" "leads_to s i x j y" "leads_to s j y i x"
      using ok i True two unfolding relay_ok_def links_ok_def by blast
    have ix: "sl_index (the_slot s i x) = j" "sl_other_id (the_slot s i x) = y" using l(4) by (simp_all add: leads_to_def)
    let ?off = "\<lambda>z. z\<lparr>sl_other_id := 0, sl_index := 0, sl_status := 1\<rparr>"
    define s1 where "s1 = upd_slot j y ?off s"
    define s2 where "s2 = snd (server_send_disconnect_notification E s1 j y)"
    have s': "s' = upd_slot i x ?clear s2" using rm True two ix l(1) by (simp add: rm_connection_index_def Let_def s1_def s2_def)
    note u1 = upd_slot_slot [OF l(1) relay_slot(4) [OF ok l(1,2)], of ?off, folded s1_def] and f1 = upd_slot_facts [of j y ?off s, folded s1_def]
    have v: "server_view s2 = server_view s1" by (simp add: s2_def notify_view)
    note f2 = view_facts [OF v] and c2 = view_con [OF v]
    have x: "x < length (tc_connections (con_at s2 i))" using c2(3) [of i] i f1(1,6) sl(4) True by simp
    have i2: "i < num_cons s2" using i f1(1) f2(1) by simp
    note u = upd_slot_slot [OF i2 x, of ?clear, folded s'] and f = upd_slot_facts [of i x ?clear s2, folded s']
    have n: "num_cons s' = num_cons s" using f(1) f2(1) f1(1) by simp
    have slots: "the_slot s' a b = (if a = i \<and> b = x then ?clear (the_slot s2 i x) else if a = j \<and> b = y then ?off (the_slot s j y) else the_slot s a b)"
      if "a < num_cons s" for a b using that u u1 c2(4) f1(1) by simp
    have cons: "tc_status (con_at s' a) = tc_status (con_at s a)" "tc_public_key (con_at s' a) = tc_public_key (con_at s a)"
      "length (tc_connections (con_at s' a)) = length (tc_connections (con_at s a))" if "a < num_cons s" for a
      using that f(4-6) c2(1-3) f1 by simp_all
    have x2: "the_slot s2 i x = the_slot s i x" using u1 c2(4) f1(1) i l(3) by simp
    have "links_ok s'"
    proof (rule links_ok_update [of s _ "{(i, x), (j, y)}"])
      show "links_ok s" using ok by (simp add: relay_ok_def)
      show "(c, d) \<notin> {(i, x), (j, y)}" if "(a, b) \<notin> {(i, x), (j, y)}" "leads_to s a b c d" "leads_to s c d a b" for a b c d
        using disjoint_links [OF l(4) that(2,3)] disjoint_links [OF l(5) that(2,3)] that(1) by auto
    qed (use n cons slots l(3) in \<open>auto split: if_splits\<close>)
    moreover have j3: "tc_status (con_at s j) = 3" using relay_slot(3) [OF ok l(1,2)] l(5) by (simp add: leads_to_def)
    have "sl_status (the_slot s' a b) \<le> 2 \<and> length (sl_public_key (the_slot s' a b)) = 32 \<and>
        (sl_status (the_slot s' a b) \<noteq> 0 \<longrightarrow> tc_status (con_at s a) = 3)" if "a < num_cons s" "b < 240" for a b
      using slots [OF that(1), of b] relay_slot(1-3) [OF ok that] x2 j3 by (auto split: if_splits)
    ultimately have "relay_ok s'"
      using f(2,3) f2(3,4) f1(2,3) n cons by (intro slots_relay_ok [OF ok]) simp_all
    then show ?thesis using n cons [OF i] slots [OF i] l(3) by auto
  qed
qed

lemma rm_all_ok:
  assumes "relay_ok s" and "i < num_cons s" and "k \<le> 240"
  shows "let s' = fold (\<lambda>x s. snd (rm_connection_index E s i x)) [0..<k] s in
    relay_ok s' \<and> num_cons s' = num_cons s \<and> tc_status (con_at s' i) = tc_status (con_at s i) \<and> tc_public_key (con_at s' i) = tc_public_key (con_at s i) \<and>
    (\<forall>y<k. sl_status (the_slot s' i y) = 0)"
  using assms(3)
proof (induction k)
  case (Suc k)
  define s1 where "s1 = fold (\<lambda>x s. snd (rm_connection_index E s i x)) [0..<k] s"
  have s1: "relay_ok s1" "num_cons s1 = num_cons s" "tc_status (con_at s1 i) = tc_status (con_at s i)" "tc_public_key (con_at s1 i) = tc_public_key (con_at s i)"
    "\<forall>y<k. sl_status (the_slot s1 i y) = 0" using Suc by (simp_all add: Let_def s1_def)
  have i: "i < num_cons s1" using assms(2) s1(2) by simp
  note r = rm_connection_index_ok [OF s1(1) i prod.collapse [symmetric], of E k]
  have f: "fold (\<lambda>x s. snd (rm_connection_index E s i x)) [0..<Suc k] s = snd (rm_connection_index E s1 i k)" by (simp add: s1_def)
  show ?case unfolding f Let_def using r s1 Suc.prems by (auto simp: less_Suc_eq)
qed (use assms in simp)

text \<open>The environment: memory for the connections is limited, and shrinking the index does not fail half way.\<close>

definition server_env_ok :: "tcp_server_env \<Rightarrow> bool" where
  "server_env_ok E \<longleftrightarrow> ids_ok (se_bs E) \<and> (\<forall>n. se_realloc E n \<longrightarrow> n \<le> 2 ^ 20)"

lemma env_bs: "server_env_ok E \<Longrightarrow> (se_bs E)\<lparr>ids_ok := True\<rparr> = se_bs E"
  by (cases "se_bs E") (simp add: server_env_ok_def)

lemma keys_unique:
  assumes "keys_ok s" and "i < num_cons s" "j < num_cons s" and "tc_status (con_at s i) = 3" "tc_status (con_at s j) = 3"
    and "tc_public_key (con_at s i) = tc_public_key (con_at s j)"
  shows "i = j"
proof -
  have "bs_map (accepted_key_list s) (tc_public_key (con_at s i)) = Some (int i)" "bs_map (accepted_key_list s) (tc_public_key (con_at s i)) = Some (int j)"
    using assms unfolding keys_ok_def by metis+
  then show ?thesis by simp
qed

lemma links_avoid:
  assumes "links_ok s" and "j < num_cons s" and "\<forall>y<240. sl_status (the_slot s j y) = 0"
    and "a < num_cons s" "b < 240" "sl_status (the_slot s a b) = 2"
  obtains c d where "c < num_cons s" "d < 240" "c \<noteq> a" "c \<noteq> j" "a \<noteq> j" "leads_to s a b c d" "leads_to s c d a b"
proof -
  obtain c d where cd: "c < num_cons s" "d < 240" "c \<noteq> a" "leads_to s a b c d" "leads_to s c d a b"
    using assms(1,4-6) unfolding links_ok_def by blast
  then have "sl_status (the_slot s c d) = 2" by (simp add: leads_to_def)
  then have "c \<noteq> j" "a \<noteq> j" using assms(3,5,6) cd(2) by force+
  with cd show ?thesis by (intro that)
qed

text \<open>A connection without links is replaced by another one without links.\<close>

lemma replace_con:
  assumes ok: "\<forall>c\<in>set (accepted_connection_array s). con_ok c" "links_ok s" and j: "j < num_cons s" "\<forall>y<240. sl_status (the_slot s j y) = 0"
    and c: "con_ok c" "\<forall>x\<in>set (tc_connections c). sl_status x = 0" and s': "accepted_connection_array s' = (accepted_connection_array s)[j := c]"
  shows "\<forall>c\<in>set (accepted_connection_array s'). con_ok c" and "links_ok s'"
proof -
  show "\<forall>c\<in>set (accepted_connection_array s'). con_ok c" unfolding s' using ok(1) c(1) by (metis insert_iff set_update_subset_insert subsetD)
  have at: "con_at s' i = (if i = j then c else con_at s i)" for i using j(1) by (simp add: s')
  have jz: "sl_status (the_slot s' j y) = 0" if "y < 240" for y using c at that by (simp add: the_slot_def con_ok_def)
  show "links_ok s'" unfolding links_ok_def
  proof (intro allI impI)
    fix a b assume ab: "a < num_cons s'" "b < 240" "sl_status (the_slot s' a b) = 2"
    have aj: "a \<noteq> j" using jz ab(2,3) by auto
    then have "a < num_cons s" "sl_status (the_slot s a b) = 2" using ab at by (simp_all add: s' the_slot_def)
    then obtain c d where cd: "c < num_cons s" "d < 240" "c \<noteq> a" "c \<noteq> j" "leads_to s a b c d" "leads_to s c d a b"
      using links_avoid [OF ok(2) j, of a b] ab(2) by metis
    then have "leads_to s' a b c d" "leads_to s' c d a b" using aj at by (simp_all add: leads_to_def the_slot_def)
    then show "\<exists>j y. j < num_cons s' \<and> y < 240 \<and> j \<noteq> a \<and> leads_to s' a b j y \<and> leads_to s' j y a b" using cd by (auto simp: s')
  qed
qed

lemma filter_len_update:
  assumes "j < length cs"
  shows "length (filter P (cs[j := c])) + (if P (cs ! j) then 1 else 0) = length (filter P cs) + (if P c then 1 else 0)"
  using assms
proof (induction cs arbitrary: j)
  case (Cons a cs)
  then show ?case by (cases j) auto
qed simp

lemma connection_zero_ok: "con_ok connection_zero" "\<forall>x\<in>set (tc_connections connection_zero). sl_status x = 0"
  by (simp_all add: con_ok_def connection_zero_def slot_zero_def)

lemma keys_room:
  assumes "keys_ok s" and "num_cons s \<le> 2 ^ 20"
  shows "bs_room (accepted_key_list s)"
proof -
  let ?l = "accepted_key_list s"
  have wf: "bs_wf ?l" using assms(1) by (simp add: keys_ok_def bs_inv_def)
  have m: "\<exists>k<num_cons s. bs_ids ?l ! i = int k \<and> tc_public_key (con_at s k) = bs_elem ?l i" if "i < bs_n ?l" for i
  proof -
    have "\<forall>k v. bs_map ?l k = Some v \<longleftrightarrow> (\<exists>i<num_cons s. v = int i \<and> tc_status (con_at s i) = 3 \<and> tc_public_key (con_at s i) = k)"
      using assms(1) by (simp add: keys_ok_def)
    then show ?thesis using bs_map_Some [OF wf that] by blast
  qed
  have "inj_on (\<lambda>i. nat (bs_ids ?l ! i)) {..<bs_n ?l}"
  proof (rule inj_onI)
    fix i j assume ij: "i \<in> {..<bs_n ?l}" "j \<in> {..<bs_n ?l}" "nat (bs_ids ?l ! i) = nat (bs_ids ?l ! j)"
    then have "bs_elem ?l i = bs_elem ?l j" using m [of i] m [of j] by auto
    then show "i = j" using ij(1,2) distinct_bs_keys [OF wf] by (metis lessThan_iff length_bs_keys nth_bs_keys nth_eq_iff_index_eq)
  qed
  moreover have "(\<lambda>i. nat (bs_ids ?l ! i)) ` {..<bs_n ?l} \<subseteq> {..<num_cons s}" using m by fastforce
  ultimately have "card {..<bs_n ?l} \<le> card {..<num_cons s}" by (rule card_inj_on_le) simp
  then show ?thesis using assms by (simp add: bs_room_def keys_ok_def)
qed

lemma keys_ok_key: "keys_ok s \<Longrightarrow> length k = 32 \<Longrightarrow> bs_key_ok (accepted_key_list s) k"
  by (simp add: keys_ok_def bs_key_ok_def)

text \<open>The index finds exactly the connections in use.\<close>

lemma get_index_Some:
  assumes "keys_ok s" and "length pk = 32"
  shows "get_TCP_connection_index s pk = Some j \<longleftrightarrow> j < num_cons s \<and> tc_status (con_at s j) = 3 \<and> tc_public_key (con_at s j) = pk"
proof -
  have wf: "bs_wf (accepted_key_list s)" "length pk = bs_element_size (accepted_key_list s)" using assms by (simp_all add: keys_ok_def bs_inv_def)
  have v: "bs_map (accepted_key_list s) pk = Some v \<longleftrightarrow> (\<exists>i<num_cons s. v = int i \<and> tc_status (con_at s i) = 3 \<and> tc_public_key (con_at s i) = pk)" for v
    using assms(1) by (simp add: keys_ok_def)
  show ?thesis
  proof (cases "bs_map (accepted_key_list s) pk")
    case None
    then have "\<not> (j < num_cons s \<and> tc_status (con_at s j) = 3 \<and> tc_public_key (con_at s j) = pk)" using v [of "int j"] by auto
    then show ?thesis using None bs_list_find_map [OF wf] by (simp add: get_TCP_connection_index_def)
  next
    case (Some w)
    then obtain i where i: "i < num_cons s" "w = int i" "tc_status (con_at s i) = 3" "tc_public_key (con_at s i) = pk" using v by auto
    have "get_TCP_connection_index s pk = Some i" using Some i(2) bs_list_find_map [OF wf] by (simp add: get_TCP_connection_index_def)
    moreover have "j = i" if "j < num_cons s" "tc_status (con_at s j) = 3" "tc_public_key (con_at s j) = pk"
      using keys_unique [OF assms(1) that(1) i(1) that(2) i(3)] that(3) i(4) by simp
    ultimately show ?thesis using i by (metis option.inject)
  qed
qed

lemma get_index_None:
  assumes "keys_ok s" and "length pk = 32" and "get_TCP_connection_index s pk = None"
  shows "bs_map (accepted_key_list s) pk = None"
proof (rule ccontr)
  assume "bs_map (accepted_key_list s) pk \<noteq> None"
  then obtain i where "i < num_cons s" "tc_status (con_at s i) = 3" "tc_public_key (con_at s i) = pk" using assms(1) unfolding keys_ok_def by blast
  then show False using get_index_Some [OF assms(1,2), of i] assms(3) by simp
qed

lemma del_accepted_ok:
  assumes ok: "relay_ok s" and E: "server_env_ok E" and i: "i < num_cons s" and c: "tc_status (con_at s i) = 3" and z: "\<forall>y<240. sl_status (the_slot s i y) = 0"
  shows "\<exists>s'. del_accepted E s i = (0, s') \<and> relay_ok s' \<and> bs_map (accepted_key_list s') (tc_public_key (con_at s i)) = None \<and>
    (num_cons s' = num_cons s \<or> num_cons s' = 0)"
proof -
  let ?pk = "tc_public_key (con_at s i)"
  have keys: "keys_ok s" and cons: "\<forall>c\<in>set (accepted_connection_array s). con_ok c" "links_ok s" using ok by (simp_all add: relay_ok_def)
  have len: "length ?pk = 32" using relay_con [OF ok i] by (simp add: con_ok_def)
  obtain b l where r: "bs_remove_op (se_bs E) (accepted_key_list s) ?pk (int i) = (b, l)" by fastforce
  note inv = keys [unfolded keys_ok_def, THEN conjunct1] and kok = keys_ok_key [OF keys len]
  note laws = bsi.remove_iff [where al = "se_bs E", OF inv kok, unfolded env_bs [OF E], of "int i"]
    bsi.remove_result [where al = "se_bs E", OF inv kok, unfolded env_bs [OF E], of "int i"]
    bsi.remove_invar [where al = "se_bs E", OF inv kok, unfolded env_bs [OF E], of "int i"]
  have "bs_map (accepted_key_list s) ?pk = Some (int i)" using keys i c unfolding keys_ok_def by blast
  then have b: b and l: "bs_map l = (bs_map (accepted_key_list s))(?pk := None)" "bs_inv l" "bs_element_size l = 32"
    using laws r bs_remove_op_element_size [of "se_bs E" "accepted_key_list s" ?pk "int i"] keys by (simp_all add: keys_ok_def)
  define s1 where "s1 = (upd_con i (\<lambda>_. connection_zero) (s\<lparr>accepted_key_list := l\<rparr>))\<lparr>num_accepted_connections := num_accepted_connections s - 1\<rparr>"
  have a1: "accepted_connection_array s1 = (accepted_connection_array s)[i := connection_zero]" "accepted_key_list s1 = l"
    "num_accepted_connections s1 = num_accepted_connections s - 1" by (simp_all add: s1_def upd_con_def)
  note rc = replace_con [OF cons i z connection_zero_ok a1(1)]
  have at: "con_at s1 k = (if k = i then connection_zero else con_at s k)" for k using i by (simp add: a1)
  have iff: "bs_map l k = Some v \<longleftrightarrow> (\<exists>j<num_cons s1. v = int j \<and> tc_status (con_at s1 j) = 3 \<and> tc_public_key (con_at s1 j) = k)" for k v
  proof -
    have "bs_map l k = Some v \<longleftrightarrow> k \<noteq> ?pk \<and> (\<exists>j<num_cons s. v = int j \<and> tc_status (con_at s j) = 3 \<and> tc_public_key (con_at s j) = k)"
      using keys l(1) by (auto simp: keys_ok_def)
    also have "\<dots> \<longleftrightarrow> (\<exists>j<num_cons s. j \<noteq> i \<and> v = int j \<and> tc_status (con_at s j) = 3 \<and> tc_public_key (con_at s j) = k)"
      using keys_unique [OF keys _ i _ c] by blast
    also have "\<dots> \<longleftrightarrow> (\<exists>j<num_cons s1. v = int j \<and> tc_status (con_at s1 j) = 3 \<and> tc_public_key (con_at s1 j) = k)"
      using at by (auto simp: a1 connection_zero_def)
    finally show ?thesis .
  qed
  then have k1: "keys_ok s1" using l(2,3) a1(2) by (simp add: keys_ok_def)
  have cnt: "num_accepted_connections s1 = length (filter (\<lambda>c. tc_status c = 3) (accepted_connection_array s1))"
    using filter_len_update [OF i, of "\<lambda>c. tc_status c = 3" connection_zero] c ok by (simp add: a1 relay_ok_def connection_zero_def)
  have ok1: "relay_ok s1" using rc k1 cnt ok by (simp add: relay_ok_def a1)
  define s2 where "s2 = (if num_accepted_connections s1 = 0 then snd (realloc_connection E s1 0) else s1)"
  have "del_accepted E s i = (0, s2)" using i c r b by (simp add: del_accepted_def Let_def s2_def s1_def upd_con_def)
  moreover have "relay_ok s2"
  proof (cases "num_accepted_connections s1 = 0")
    case True
    then have "filter (\<lambda>c. tc_status c = 3) (accepted_connection_array s1) = []" using cnt by simp
    then have none: "\<not> (\<exists>j<num_cons s1. tc_status (con_at s1 j) = 3)" using nth_mem unfolding filter_empty_conv by blast
    have "s2 = s1\<lparr>accepted_connection_array := []\<rparr>" using True by (simp add: s2_def realloc_connection_def Let_def)
    then show ?thesis using k1 none True by (auto simp: relay_ok_def links_ok_def keys_ok_def)
  qed (use ok1 in \<open>simp add: s2_def\<close>)
  moreover have "accepted_key_list s2 = l" "num_cons s2 = num_cons s \<or> num_cons s2 = 0" using a1 by (simp_all add: s2_def realloc_connection_def Let_def)
  ultimately show ?thesis using l(1) by auto
qed

lemma kill_sock_ok: "relay_ok (kill_sock c s) = relay_ok s" "accepted_key_list (kill_sock c s) = accepted_key_list s" "num_cons (kill_sock c s) = num_cons s"
  by (simp_all add: kill_sock_def relay_ok_def links_ok_def keys_ok_def leads_to_def the_slot_def)

lemma kill_accepted_ok:
  assumes ok: "relay_ok s" and E: "server_env_ok E"
  shows "relay_ok (snd (kill_accepted E s i)) \<and>
    (i < num_cons s \<longrightarrow> tc_status (con_at s i) = 3 \<longrightarrow> bs_map (accepted_key_list (snd (kill_accepted E s i))) (tc_public_key (con_at s i)) = None)"
proof (cases "i < num_cons s")
  case True
  define s1 where "s1 = fold (\<lambda>x s. snd (rm_connection_index E s i x)) [0..<NUM_CLIENT_CONNECTIONS] s"
  have s1: "relay_ok s1" "num_cons s1 = num_cons s" "tc_status (con_at s1 i) = tc_status (con_at s i)" "tc_public_key (con_at s1 i) = tc_public_key (con_at s i)"
    "\<forall>y<240. sl_status (the_slot s1 i y) = 0" using rm_all_ok [OF ok True order_refl, of E] by (simp_all add: Let_def s1_def)
  have i1: "i < num_cons s1" using True s1(2) by simp
  show ?thesis
  proof (cases "tc_status (con_at s i) = 3")
    case c: True
    obtain s2 where s2: "del_accepted E s1 i = (0, s2)" "relay_ok s2" "bs_map (accepted_key_list s2) (tc_public_key (con_at s1 i)) = None"
      using del_accepted_ok [OF s1(1) E i1 _ s1(5)] c s1(3) by auto
    then have "snd (kill_accepted E s i) = kill_sock (con_at s1 i) s2" using True by (simp add: kill_accepted_def Let_def s1_def)
    then show ?thesis using s2 s1(4) kill_sock_ok by simp
  next
    case False
    then have "tc_status (con_at s1 i) = 0" using s1(3) relay_con [OF ok True] by (simp add: con_ok_def)
    then have "del_accepted E s1 i = (- 1, s1)" by (simp add: del_accepted_def Let_def)
    then show ?thesis using s1(1) True False by (simp add: kill_accepted_def Let_def s1_def)
  qed
qed (use ok in \<open>simp add: kill_accepted_def\<close>)

section \<open>Accepting connections\<close>

definition fresh_con :: "TCP_Secure_Connection \<Rightarrow> bool" where
  "fresh_con c \<longleftrightarrow> length (tc_public_key c) = 32 \<and> length (tc_connections c) = 240 \<and>
     (\<forall>x\<in>set (tc_connections c). sl_status x = 0 \<and> length (sl_public_key x) = 32)"

lemma idle_con:
  assumes "relay_ok s" and "i < num_cons s" and "tc_status (con_at s i) = 0"
  shows "\<forall>y<240. sl_status (the_slot s i y) = 0"
  using relay_slot(3) [OF assms(1,2)] assms(3) by fastforce

lemma extend_ok:
  assumes ok: "relay_ok s" and n: "num_cons s + k \<le> 2 ^ 20" and s': "s' = s\<lparr>accepted_connection_array := accepted_connection_array s @ replicate k connection_zero\<rparr>"
  shows "relay_ok s'"
proof -
  have at: "con_at s' i = (if i < num_cons s then con_at s i else connection_zero)" if "i < num_cons s'" for i
    using that by (simp add: s' nth_append)
  have len: "num_cons s' = num_cons s + k" by (simp add: s')
  have st: "tc_status connection_zero = 0" "\<forall>y<240. sl_status (tc_connections connection_zero ! y) = 0" using connection_zero_ok by (simp_all add: connection_zero_def slot_zero_def)
  have "links_ok s'" unfolding links_ok_def
  proof (intro allI impI)
    fix a b assume ab: "a < num_cons s'" "b < 240" "sl_status (the_slot s' a b) = 2"
    then have a: "a < num_cons s" using at [OF ab(1)] st(2) by (auto simp: the_slot_def split: if_splits)
    then have "sl_status (the_slot s a b) = 2" using ab at by (simp add: the_slot_def)
    then obtain c d where cd: "c < num_cons s" "d < 240" "c \<noteq> a" "leads_to s a b c d" "leads_to s c d a b"
      using ok a ab(2) unfolding relay_ok_def links_ok_def by blast
    then have "leads_to s' a b c d" "leads_to s' c d a b" using a at len by (simp_all add: leads_to_def the_slot_def)
    then show "\<exists>j y. j < num_cons s' \<and> y < 240 \<and> j \<noteq> a \<and> leads_to s' a b j y \<and> leads_to s' j y a b" using cd len by (metis trans_less_add1)
  qed
  moreover have "keys_ok s'"
  proof -
    have "(\<exists>i<num_cons s'. v = int i \<and> tc_status (con_at s' i) = 3 \<and> tc_public_key (con_at s' i) = k) \<longleftrightarrow>
        (\<exists>i<num_cons s. v = int i \<and> tc_status (con_at s i) = 3 \<and> tc_public_key (con_at s i) = k)" for k v
    proof
      assume "\<exists>i<num_cons s'. v = int i \<and> tc_status (con_at s' i) = 3 \<and> tc_public_key (con_at s' i) = k"
      then obtain i where i: "i < num_cons s'" "v = int i" "tc_status (con_at s' i) = 3" "tc_public_key (con_at s' i) = k" by blast
      then show "\<exists>i<num_cons s. v = int i \<and> tc_status (con_at s i) = 3 \<and> tc_public_key (con_at s i) = k"
        using at [OF i(1)] st(1) by (auto split: if_splits)
    qed (use at len in force)
    then show ?thesis using ok s' by (simp add: relay_ok_def keys_ok_def)
  qed
  ultimately show ?thesis using ok n connection_zero_ok(1) st(1) by (auto simp: relay_ok_def s')
qed

text \<open>Putting a new connection at a free place.\<close>

lemma put_con_ok:
  assumes ok: "relay_ok s" and i: "i < num_cons s" "tc_status (con_at s i) = 0" and c: "fresh_con c" "tc_status c = 3"
    and add: "bs_add_op al (accepted_key_list s) (tc_public_key c) (int i) = (True, l)"
    and s': "accepted_connection_array s' = (accepted_connection_array s)[i := c]" "accepted_key_list s' = l"
      "num_accepted_connections s' = num_accepted_connections s + 1"
  shows "relay_ok s'"
proof -
  have keys: "keys_ok s" and cons: "\<forall>c\<in>set (accepted_connection_array s). con_ok c" "links_ok s" "num_cons s \<le> 2 ^ 20" using ok by (simp_all add: relay_ok_def)
  have len: "length (tc_public_key c) = 32" using c(1) by (simp add: fresh_con_def)
  note inv = keys [unfolded keys_ok_def, THEN conjunct1] and kok = keys_ok_key [OF keys len] and room = keys_room [OF keys cons(3)]
  have fst: "fst (bs_add_op al (accepted_key_list s) (tc_public_key c) (int i))" using add by simp
  have none: "bs_map (accepted_key_list s) (tc_public_key c) = None" using bsi.add_present [OF inv kok, of al "int i"] add by fastforce
  have l: "bs_map l = (bs_map (accepted_key_list s))(tc_public_key c \<mapsto> int i)" "bs_inv l" "bs_element_size l = 32"
    using bsi.add_result [OF inv kok room fst] bsi.add_invar [OF inv kok room, of al "int i"] add
      bs_add_op_element_size [of al "accepted_key_list s" "tc_public_key c" "int i"] keys by (simp_all add: keys_ok_def)
  have "con_ok c" "\<forall>x\<in>set (tc_connections c). sl_status x = 0" using c by (auto simp: fresh_con_def con_ok_def)
  note rc = replace_con [OF cons(1,2) i(1) idle_con [OF ok i] this s'(1)]
  have at: "con_at s' k = (if k = i then c else con_at s k)" for k using i(1) by (simp add: s')
  have "bs_map l k = Some v \<longleftrightarrow> (\<exists>j<num_cons s'. v = int j \<and> tc_status (con_at s' j) = 3 \<and> tc_public_key (con_at s' j) = k)" for k v
  proof -
    have old: "bs_map (accepted_key_list s) k = Some v \<longleftrightarrow> (\<exists>j<num_cons s. v = int j \<and> tc_status (con_at s j) = 3 \<and> tc_public_key (con_at s j) = k)" for k v
      using keys by (simp add: keys_ok_def)
    have split: "(\<exists>j<num_cons s'. v = int j \<and> tc_status (con_at s' j) = 3 \<and> tc_public_key (con_at s' j) = k) \<longleftrightarrow>
        (v = int i \<and> tc_public_key c = k) \<or> (\<exists>j<num_cons s. v = int j \<and> tc_status (con_at s j) = 3 \<and> tc_public_key (con_at s j) = k)"
    proof -
      have n: "num_cons s' = num_cons s" by (simp add: s'(1))
      show ?thesis
      proof
        assume "\<exists>j<num_cons s'. v = int j \<and> tc_status (con_at s' j) = 3 \<and> tc_public_key (con_at s' j) = k"
        then obtain j where "j < num_cons s" "v = int j" "tc_status (con_at s' j) = 3" "tc_public_key (con_at s' j) = k" using n by auto
        then show "(v = int i \<and> tc_public_key c = k) \<or> (\<exists>j<num_cons s. v = int j \<and> tc_status (con_at s j) = 3 \<and> tc_public_key (con_at s j) = k)"
          unfolding at by (cases "j = i") auto
      next
        assume "(v = int i \<and> tc_public_key c = k) \<or> (\<exists>j<num_cons s. v = int j \<and> tc_status (con_at s j) = 3 \<and> tc_public_key (con_at s j) = k)"
        then show "\<exists>j<num_cons s'. v = int j \<and> tc_status (con_at s' j) = 3 \<and> tc_public_key (con_at s' j) = k"
        proof
          assume "v = int i \<and> tc_public_key c = k"
          then show ?thesis using n i(1) c(2) at [of i] by (intro exI [of _ i]) simp
        next
          assume "\<exists>j<num_cons s. v = int j \<and> tc_status (con_at s j) = 3 \<and> tc_public_key (con_at s j) = k"
          then obtain j where j: "j < num_cons s" "v = int j" "tc_status (con_at s j) = 3" "tc_public_key (con_at s j) = k" by blast
          then have "j \<noteq> i" using i(2) by auto
          then show ?thesis using n j at [of j] by (intro exI [of _ j]) simp
        qed
      qed
    qed
    show ?thesis
    proof (cases "k = tc_public_key c")
      case True
      then show ?thesis unfolding split using l(1) none old [of k v] by auto
    next
      case False
      then show ?thesis unfolding split using l(1) old [of k v] by auto
    qed
  qed
  then have "keys_ok s'" using l s'(2) by (simp add: keys_ok_def)
  moreover have "num_accepted_connections s' = length (filter (\<lambda>c. tc_status c = 3) (accepted_connection_array s'))"
    using filter_len_update [OF i(1), of "\<lambda>c. tc_status c = 3" c] c(2) i(2) ok s' by (simp add: relay_ok_def)
  ultimately show ?thesis using rc cons(3) by (simp add: relay_ok_def s'(1))
qed

lemma find_SomeD: "find P xs = Some x \<Longrightarrow> P x \<and> x \<in> set xs"
  by (auto simp: find_Some_iff)

lemma free_entry_Some: "free_entry s = Some i \<Longrightarrow> i < num_cons s \<and> tc_status (con_at s i) = 0"
  unfolding free_entry_def using find_SomeD by force

lemma add_failed_ok:
  assumes ok: "relay_ok s" and pk: "length pk = 32" and add: "bs_add_op al (accepted_key_list s) pk v = (False, l)"
  shows "relay_ok (s\<lparr>accepted_key_list := l\<rparr>)"
proof -
  have keys: "keys_ok s" "num_cons s \<le> 2 ^ 20" using ok by (simp_all add: relay_ok_def)
  note inv = keys(1) [unfolded keys_ok_def, THEN conjunct1] and kok = keys_ok_key [OF keys(1) pk] and room = keys_room [OF keys]
  have "bs_map l = bs_map (accepted_key_list s)" "bs_inv l" "bs_element_size l = 32"
    using bsi.add_failed [OF inv kok room, of al v] bsi.add_invar [OF inv kok room, of al v] add
      bs_add_op_element_size [of al "accepted_key_list s" pk v] keys by (simp_all add: keys_ok_def)
  then show ?thesis using ok by (simp add: relay_ok_def links_ok_def keys_ok_def leads_to_def the_slot_def)
qed

lemma add_accepted_ok:
  assumes ok: "relay_ok s" and E: "server_env_ok E" and c: "fresh_con c"
  shows "relay_ok (snd (add_accepted E s c)) \<and> (\<forall>i. fst (add_accepted E s c) = Some i \<longrightarrow>
    i < num_cons (snd (add_accepted E s c)) \<and> tc_status (con_at (snd (add_accepted E s c)) i) = 3)"
proof -
  define s1 where "s1 = (case get_TCP_connection_index s (tc_public_key c) of None \<Rightarrow> s | Some index \<Rightarrow> snd (kill_accepted E s index))"
  have s1: "relay_ok s1" using ok kill_accepted_ok [OF ok E] by (simp add: s1_def split: option.split)
  obtain index s2 where r: "(if num_cons s1 = num_accepted_connections s1 then
      let (r, s2) = realloc_connection E s1 (num_cons s1 + 4) in (if r = - 1 then None else Some (num_accepted_connections s1), s2)
    else (free_entry s1, s1)) = (index, s2)" by fastforce
  have s2: "relay_ok s2 \<and> (\<forall>i. index = Some i \<longrightarrow> i < num_cons s2 \<and> tc_status (con_at s2 i) = 0)"
  proof (cases "num_cons s1 = num_accepted_connections s1")
    case False
    then show ?thesis using r s1 free_entry_Some [of s1] by auto
  next
    case full: True
    show ?thesis
    proof (cases "se_realloc E (num_cons s1 + 4)")
      case True
      have s2: "index = Some (num_cons s1)" "s2 = s1\<lparr>accepted_connection_array := accepted_connection_array s1 @ replicate 4 connection_zero\<rparr>"
        using r full True by (auto simp: realloc_connection_def Let_def)
      moreover have "num_cons s1 + 4 \<le> 2 ^ 20" using E True by (simp add: server_env_ok_def)
      ultimately show ?thesis using extend_ok [OF s1 _ s2(2)] by (simp add: nth_append connection_zero_def)
    next
      case False
      then show ?thesis using r full s1 by (auto simp: realloc_connection_def Let_def)
    qed
  qed
  note a = add_accepted_def [of E s c, folded s1_def, unfolded Let_def, unfolded r [unfolded Let_def]]
  show ?thesis
  proof (cases index)
    case None
    then show ?thesis using a s2 by simp
  next
    case (Some i)
    obtain b l where bs: "bs_add_op (se_bs E) (accepted_key_list s2) (tc_public_key c) (int i) = (b, l)" by fastforce
    have pk: "length (tc_public_key c) = 32" using c by (simp add: fresh_con_def)
    show ?thesis
    proof (cases b)
      case False
      then show ?thesis using a Some bs add_failed_ok [OF _ pk] s2 by simp
    next
      case True
      let ?c = "c\<lparr>tc_status := TCP_STATUS_CONFIRMED, tc_identifier := counter s2 + 1, tc_last_pinged := te_now (se_tcp E), tc_ping_id := 0\<rparr>"
      define s3 where "s3 = (upd_con i (\<lambda>_. ?c) (s2\<lparr>accepted_key_list := l\<rparr>))\<lparr>num_accepted_connections := num_accepted_connections s2 + 1, counter := counter s2 + 1\<rparr>"
      have e: "add_accepted E s c = (Some i, s3)" using a Some bs True by (simp add: s3_def)
      have "relay_ok s3" using s2 Some c bs True
        by (intro put_con_ok [of s2 i ?c "se_bs E" l s3]) (simp_all add: s3_def upd_con_def fresh_con_def)
      then show ?thesis using e s2 Some by (simp add: s3_def upd_con_def)
    qed
  qed
qed

section \<open>Routing\<close>

lemma routing_slots_free:
  "routing_slots pk xs i index = Inr r \<Longrightarrow> r = index \<or> (\<exists>k<length xs. r = Some (i + k) \<and> sl_status (xs ! k) = 0)"
proof (induction pk xs i index rule: routing_slots.induct)
  case (2 pk x xs i index)
  have lift: "r = Some i \<and> sl_status x = 0 \<or> r = index \<or> (\<exists>k<length xs. r = Some (Suc i + k) \<and> sl_status (xs ! k) = 0) \<Longrightarrow>
      r = index \<or> (\<exists>k<length (x # xs). r = Some (i + k) \<and> sl_status ((x # xs) ! k) = 0)"
  proof (elim disjE exE conjE)
    fix k assume "k < length xs" "r = Some (Suc i + k)" "sl_status (xs ! k) = 0"
    then show ?thesis by (intro disjI2 exI [of _ "Suc k"]) simp
  qed (simp, blast)
  show ?case
  proof (cases "sl_status x = 0")
    case True
    then show ?thesis using 2(2,3) lift by (cases "index = None") auto
  next
    case False
    then show ?thesis using 2(1,3) lift by (auto split: if_splits)
  qed
qed simp

text \<open>A free slot takes a key; then two slots that wait for each other are connected.\<close>

lemma take_slot_ok:
  assumes ok: "relay_ok s" and i: "i < num_cons s" "x < 240" "sl_status (the_slot s i x) = 0" "tc_status (con_at s i) = 3" and pk: "length pk = 32"
    and s': "s' = upd_slot i x (\<lambda>z. z\<lparr>sl_status := 1, sl_public_key := pk\<rparr>) s"
  shows "relay_ok s'"
proof -
  note u = upd_slot_slot [OF i(1) relay_slot(4) [OF ok i(1,2)], of "\<lambda>z. z\<lparr>sl_status := 1, sl_public_key := pk\<rparr>", folded s']
    and f = upd_slot_facts [of i x "\<lambda>z. z\<lparr>sl_status := 1, sl_public_key := pk\<rparr>" s, folded s']
  have "links_ok s'"
  proof (rule links_ok_update [of s _ "{(i, x)}"])
    show "links_ok s" using ok by (simp add: relay_ok_def)
    show "(c, d) \<notin> {(i, x)}" if "leads_to s c d a b" for a b c d using that i(3) by (auto simp: leads_to_def)
  qed (auto simp: u f)
  then show ?thesis using i(4) pk relay_slot [OF ok] by (intro slots_relay_ok [OF ok]) (simp_all add: u f)
qed

lemma link_slots_ok:
  assumes ok: "relay_ok s" and i: "i < num_cons s" "x < 240" "sl_status (the_slot s i x) = 1" and j: "j < num_cons s" "y < 240" "sl_status (the_slot s j y) = 1"
    and ne: "i \<noteq> j" and pk: "sl_public_key (the_slot s i x) = tc_public_key (con_at s j)" "sl_public_key (the_slot s j y) = tc_public_key (con_at s i)"
    and s1: "s1 = upd_slot i x (\<lambda>z. z\<lparr>sl_status := 2, sl_index := j, sl_other_id := y\<rparr>) s"
    and s': "s' = upd_slot j y (\<lambda>z. z\<lparr>sl_status := 2, sl_index := i, sl_other_id := x\<rparr>) s1"
  shows "relay_ok s'"
proof -
  let ?f = "\<lambda>z. z\<lparr>sl_status := 2, sl_index := j, sl_other_id := y\<rparr>" and ?g = "\<lambda>z. z\<lparr>sl_status := 2, sl_index := i, sl_other_id := x\<rparr>"
  note u1 = upd_slot_slot [OF i(1) relay_slot(4) [OF ok i(1,2)], of ?f, folded s1] and f1 = upd_slot_facts [of i x ?f s, folded s1]
  have "j < num_cons s1" "y < length (tc_connections (con_at s1 j))" using j f1 relay_slot(4) [OF ok j(1,2)] by simp_all
  note u2 = upd_slot_slot [OF this, of ?g, folded s'] and f2 = upd_slot_facts [of j y ?g s1, folded s']
  have slots: "the_slot s' a b = (if a = j \<and> b = y then ?g (the_slot s j y) else if a = i \<and> b = x then ?f (the_slot s i x) else the_slot s a b)" for a b
    using ne by (simp add: u2 u1)
  have "leads_to s' i x j y" "leads_to s' j y i x" using ne pk f1(5) f2(5) by (simp_all add: leads_to_def slots)
  moreover have "links_ok s" using ok by (simp add: relay_ok_def)
  ultimately have "links_ok s'"
  proof (intro links_ok_update [of s s' "{(i, x), (j, y)}"])
    show "(c, d) \<notin> {(i, x), (j, y)}" if "leads_to s c d a b" for a b c d using that i(3) j(3) by (auto simp: leads_to_def)
    show "\<exists>k z. k < num_cons s \<and> z < 240 \<and> k \<noteq> a \<and> leads_to s' a b k z \<and> leads_to s' k z a b"
      if "(a, b) \<in> {(i, x), (j, y)}" "leads_to s' i x j y" "leads_to s' j y i x" for a b using that i(1,2) j(1,2) ne by auto
  qed (auto simp: f1 f2 slots)
  moreover have "tc_status (con_at s i) = 3" "tc_status (con_at s j) = 3" using relay_slot(3) [OF ok i(1,2)] relay_slot(3) [OF ok j(1,2)] i(3) j(3) by simp_all
  ultimately show ?thesis using relay_slot [OF ok] i j by (intro slots_relay_ok [OF ok]) (simp_all add: f1 f2 slots)
qed

lemma routing_req_ok:
  assumes ok: "relay_ok s" and i: "i < num_cons s" "tc_status (con_at s i) = 3" and pk: "length pk = 32"
  shows "relay_ok (snd (handle_TCP_routing_req E s i pk)) \<and> num_cons (snd (handle_TCP_routing_req E s i pk)) = num_cons s"
proof -
  have resp: "relay_ok (snd (send_routing_response E s i r pk)) \<and> num_cons (snd (send_routing_response E s i r pk)) = num_cons s" for r
    using view_relay_ok [OF notify_view(3) ok] view_facts(1) [OF notify_view(3)] by blast
  show ?thesis
  proof (cases "memcmp (tc_public_key (con_at s i)) pk = 0 \<or> (\<forall>x. routing_slots pk (tc_connections (con_at s i)) 0 None \<noteq> Inr (Some x))")
    case True
    then show ?thesis using resp
      by (auto simp: handle_TCP_routing_req_def Let_def split_beta split: sum.split option.split)
  next
    case False
    then obtain x where x: "routing_slots pk (tc_connections (con_at s i)) 0 None = Inr (Some x)" and ne: "memcmp (tc_public_key (con_at s i)) pk \<noteq> 0" by blast
    have x0: "x < 240" "sl_status (the_slot s i x) = 0"
      using routing_slots_free [OF x] relay_con [OF ok i(1)] by (auto simp: con_ok_def the_slot_def)
    obtain ret s1 where w: "send_routing_response E s i (word_of_nat x + NUM_RESERVED_PORTS) pk = (ret, s1)" by fastforce
    have v: "server_view s1 = server_view s" using notify_view(3) [of E s i "word_of_nat x + NUM_RESERVED_PORTS" pk] w by simp
    note ok1 = view_relay_ok [OF v ok] and n1 = view_facts(1) [OF v] and c1 = view_con [OF v]
    define s2 where "s2 = upd_slot i x (\<lambda>z. z\<lparr>sl_status := 1, sl_public_key := pk\<rparr>) s1"
    have i1: "i < num_cons s1" "sl_status (the_slot s1 i x) = 0" "tc_status (con_at s1 i) = 3" using i x0 n1 c1 by simp_all
    note ok2 = take_slot_ok [OF ok1 i1(1) x0(1) i1(2,3) pk s2_def]
    note u2 = upd_slot_slot [OF i1(1) relay_slot(4) [OF ok1 i1(1) x0(1)], of "\<lambda>z. z\<lparr>sl_status := 1, sl_public_key := pk\<rparr>", folded s2_def]
      and f2 = upd_slot_facts [of i x "\<lambda>z. z\<lparr>sl_status := 1, sl_public_key := pk\<rparr>" s1, folded s2_def]
    define g where "g = get_TCP_connection_index s2 pk"
    define oid where "oid j = find (\<lambda>k. sl_status (tc_connections (con_at s2 j) ! k) = 1 \<and>
      memcmp (sl_public_key (tc_connections (con_at s2 j) ! k)) (tc_public_key (con_at s i)) = 0) [0..<NUM_CLIENT_CONNECTIONS]" for j
    have res: "snd (handle_TCP_routing_req E s i pk) = (if ret = 0 \<or> ret = - 1 then s1 else case g of None \<Rightarrow> s2
        | Some j \<Rightarrow> (case oid j of None \<Rightarrow> s2 | Some y \<Rightarrow> link_connections E s2 i x j y))"
      using x ne w by (simp add: handle_TCP_routing_req_def Let_def s2_def g_def oid_def split: option.split)
    have link: "relay_ok (link_connections E s2 i x j y) \<and> num_cons (link_connections E s2 i x j y) = num_cons s" if "g = Some j" "oid j = Some y" for j y
    proof -
      have "keys_ok s2" using ok2 by (simp add: relay_ok_def)
      from get_index_Some [OF this pk, of j] have j: "j < num_cons s2" "tc_public_key (con_at s2 j) = pk" using that(1) by (simp_all add: g_def)
      have y: "y < 240" "sl_status (the_slot s2 j y) = 1" "memcmp (sl_public_key (the_slot s2 j y)) (tc_public_key (con_at s i)) = 0"
        using find_SomeD [OF that(2) [unfolded oid_def]] by (simp_all add: the_slot_def)
      have pki: "tc_public_key (con_at s2 i) = tc_public_key (con_at s i)" "i < num_cons s2" using f2(1,5) c1(2) [OF i(1)] i1(1) by simp_all
      then have ij: "i \<noteq> j" using ne j(2) by auto
      have "sl_public_key (the_slot s2 j y) = tc_public_key (con_at s2 i)"
        using y(3) memcmp_eq_0_iff [of "sl_public_key (the_slot s2 j y)" "tc_public_key (con_at s i)"] relay_slot(2) [OF ok2 j(1) y(1)]
          relay_slot(5) [OF ok2 pki(2) x0(1)] pki(1) by simp
      moreover have "sl_public_key (the_slot s2 i x) = tc_public_key (con_at s2 j)" "sl_status (the_slot s2 i x) = 1" using u2 j(2) by simp_all
      ultimately have ok3: "relay_ok (upd_slot j y (\<lambda>z. z\<lparr>sl_status := 2, sl_index := i, sl_other_id := x\<rparr>)
          (upd_slot i x (\<lambda>z. z\<lparr>sl_status := 2, sl_index := j, sl_other_id := y\<rparr>) s2))" (is "relay_ok ?s3")
        using pki(2) x0(1) j(1) y(1,2) ij by (intro link_slots_ok [OF ok2 _ _ _ _ _ _ ij _ _ refl refl]) simp_all
      have "server_view (link_connections E s2 i x j y) = server_view ?s3"
        by (simp add: link_connections_def Let_def notify_view)
      from view_relay_ok [OF this ok3] view_facts(1) [OF this] show ?thesis using f2(1) n1 by (simp add: upd_slot_facts)
    qed
    show ?thesis unfolding res using ok1 n1 ok2 f2(1) link by (auto split: option.split)
  qed
qed

lemma packet_ok:
  assumes ok: "relay_ok s" and i: "i < num_cons s" "tc_status (con_at s i) = 3"
  shows "relay_ok (snd (handle_TCP_packet E s i data)) \<and> num_cons (snd (handle_TCP_packet E s i data)) = num_cons s"
proof -
  have w: "relay_ok (snd (write_con E s j d p)) \<and> num_cons (snd (write_con E s j d p)) = num_cons s" for j d p
    using view_relay_ok [OF write_con_view ok] view_facts(1) [OF write_con_view] by blast
  have r: "relay_ok (snd (rm_connection_index E s i x)) \<and> num_cons (snd (rm_connection_index E s i x)) = num_cons s" for x
    using rm_connection_index_ok [OF ok i(1) prod.collapse [symmetric]] by blast
  have rt: "relay_ok (snd (handle_TCP_routing_req E s i (drop 1 data))) \<and> num_cons (snd (handle_TCP_routing_req E s i (drop 1 data))) = num_cons s"
    if "length data = 33" using routing_req_ok [OF ok i, of "drop 1 data"] that by simp
  have oob: "relay_ok (snd (handle_TCP_oob_send E s i pk d)) \<and> num_cons (snd (handle_TCP_oob_send E s i pk d)) = num_cons s" for pk d
    using ok w by (simp add: handle_TCP_oob_send_def split: option.split)
  have pong: "relay_ok (upd_con i (\<lambda>c. c\<lparr>tc_ping_id := 0\<rparr>) s) \<and> num_cons (upd_con i (\<lambda>c. c\<lparr>tc_ping_id := 0\<rparr>) s) = num_cons s"
    using view_relay_ok [OF upd_con_view ok] by (simp add: con_view_def upd_con_def)
  have log: "relay_ok (s\<lparr>sv_log := l\<rparr>)" for l using view_relay_ok [OF _ ok, of "s\<lparr>sv_log := l\<rparr>"] by (simp add: server_view_def)
  show ?thesis unfolding handle_TCP_packet_def Let_def
    using ok w r rt oob pong log by (simp add: split_beta split: option.split)
qed

section \<open>The whole server\<close>

text \<open>What the packet handlers leave alone: the bytes received and the queues.\<close>

definition server_rest :: "TCP_Server \<Rightarrow> (bytes \<times> nat) list \<times> TCP_Secure_Connection list \<times> TCP_Secure_Connection list" where
  "server_rest s = (map (\<lambda>c. (sk_in (tp_sock c), tc_status c)) (accepted_connection_array s), incomming_connection_queue s, unconfirmed_connection_queue s)"

lemma upd_con_rest: "sk_in (tp_sock (f (con_at s i))) = sk_in (tp_sock (con_at s i)) \<Longrightarrow>
    tc_status (f (con_at s i)) = tc_status (con_at s i) \<Longrightarrow> server_rest (upd_con i f s) = server_rest s"
  by (cases "i < num_cons s")
    (auto simp: server_rest_def upd_con_def map_update list_update_beyond intro: list_update_same_conv [THEN iffD2])

lemma sock_send_in: "sk_in (snd (sock_send E s d)) = sk_in s"
  by (simp add: sock_send_def Let_def)

lemma send_pending_in: "sk_in (tp_sock (snd (send_pending_data E c))) = sk_in (tp_sock c)"
proof -
  have "sk_in (fst (send_queue E s q)) = sk_in s" for s q
  proof (induction q arbitrary: s)
    case (Cons a q)
    then show ?case using sock_send_in [of E s] by (cases a) (auto simp: Let_def split_beta)
  qed simp
  then show ?thesis by (simp add: send_pending_data_def send_pending_data_nonpriority_def Let_def split_beta sock_send_in)
qed

lemma write_packet_in: "sk_in (tp_sock (snd (write_packet_TCP_secure_connection E c data priority))) = sk_in (tp_sock c)"
proof -
  have "sk_in (tp_sock (snd (send_frame E c1 F priority b))) = sk_in (tp_sock c1)" for c1 :: "'a tcp_pipe_scheme" and F b
    by (simp add: send_frame_def add_priority_def Let_def split_beta sock_send_in)
  then show ?thesis
    by (simp add: write_packet_TCP_secure_connection_def Let_def split_beta send_pending_in split: option.split)
qed

lemma write_con_rest [simp]: "server_rest (snd (write_con E s i data priority)) = server_rest s"
  unfolding write_con_def split_beta Let_def snd_conv
  using pipe_more_view [OF write_packet_more, of "se_tcp E" "con_at s i" data priority]
  by (intro upd_con_rest write_packet_in) (simp add: con_view_def)

lemma upd_slot_rest [simp]: "server_rest (upd_slot i x f s) = server_rest s"
  unfolding upd_slot_def by (rule upd_con_rest) simp_all

lemma notify_rest [simp]:
  "server_rest (snd (server_send_disconnect_notification E s i x)) = server_rest s"
  "server_rest (snd (send_connect_notification E s i x)) = server_rest s"
  "server_rest (snd (send_routing_response E s i r pk)) = server_rest s"
  by (simp_all add: server_send_disconnect_notification_def send_connect_notification_def send_routing_response_def)

lemma rm_rest [simp]: "server_rest (snd (rm_connection_index E s i x)) = server_rest s"
  by (simp add: rm_connection_index_def Let_def)

lemma packet_rest: "server_rest (snd (handle_TCP_packet E s i data)) = server_rest s"
proof -
  have "server_rest (snd (handle_TCP_routing_req E s i pk)) = server_rest s" for pk
    by (simp add: handle_TCP_routing_req_def link_connections_def Let_def split_beta split: sum.split option.split)
  moreover have "server_rest (snd (handle_TCP_oob_send E s i pk d)) = server_rest s" for pk d
    by (simp add: handle_TCP_oob_send_def split: option.split)
  moreover have "server_rest (upd_con i (\<lambda>c. c\<lparr>tc_ping_id := 0\<rparr>) s) = server_rest s" by (rule upd_con_rest) simp_all
  moreover have "server_rest (s\<lparr>sv_log := l\<rparr>) = server_rest s" for l by (simp add: server_rest_def)
  ultimately show ?thesis by (simp add: handle_TCP_packet_def Let_def split_beta split: option.split)
qed

lemma queues_of_rest:
  assumes "server_rest s' = server_rest s"
  shows "incomming_connection_queue s' = incomming_connection_queue s \<and> unconfirmed_connection_queue s' = unconfirmed_connection_queue s"
  using assms by (simp add: server_rest_def)

definition queues :: "TCP_Server \<Rightarrow> TCP_Secure_Connection list \<times> TCP_Secure_Connection list" where
  "queues s = (incomming_connection_queue s, unconfirmed_connection_queue s)"

lemma rest_queues: "server_rest s' = server_rest s \<Longrightarrow> queues s' = queues s"
  by (simp add: server_rest_def queues_def)

lemma upd_con_queues [simp]: "queues (upd_con i f s) = queues s"
  by (simp add: queues_def upd_con_def)

lemma kill_accepted_queues [simp]: "queues (snd (kill_accepted E s i)) = queues s"
proof -
  have f: "queues (fold (\<lambda>x s. snd (rm_connection_index E s i x)) xs s) = queues s" for xs
    by (induction xs arbitrary: s) (simp_all add: rest_queues [OF rm_rest])
  have "queues (snd (del_accepted E s1 i)) = queues s1" for s1
    by (simp add: del_accepted_def realloc_connection_def Let_def split_beta queues_def upd_con_def)
  moreover have "queues (kill_sock c s1) = queues s1" for c s1 by (simp add: kill_sock_def queues_def)
  ultimately show ?thesis by (simp add: kill_accepted_def Let_def split_beta f)
qed

lemma add_accepted_queues [simp]: "queues (snd (add_accepted E s c)) = queues s"
proof -
  define s1 where "s1 = (case get_TCP_connection_index s (tc_public_key c) of None \<Rightarrow> s | Some index \<Rightarrow> snd (kill_accepted E s index))"
  have "queues s1 = queues s" by (simp add: s1_def split: option.split)
  then show ?thesis unfolding add_accepted_def s1_def [symmetric]
    by (simp add: realloc_connection_def Let_def split_beta queues_def upd_con_def split: option.split)
qed

definition server_ok :: "TCP_Server \<Rightarrow> bool" where
  "server_ok s \<longleftrightarrow> relay_ok s \<and> (\<forall>c\<in>set (incomming_connection_queue s). fresh_con c) \<and> (\<forall>c\<in>set (unconfirmed_connection_queue s). fresh_con c) \<and>
     length (incomming_connection_queue s) = 256 \<and> length (unconfirmed_connection_queue s) = 256"

lemma server_okI: "server_ok s \<Longrightarrow> relay_ok s' \<Longrightarrow> queues s' = queues s \<Longrightarrow> server_ok s'"
  by (simp add: server_ok_def queues_def)

lemma kill_server_ok: "server_ok s \<Longrightarrow> server_env_ok E \<Longrightarrow> server_ok (snd (kill_accepted E s i))"
  using server_okI [of s "snd (kill_accepted E s i)"] kill_accepted_ok [of s E i] by (auto simp: server_ok_def)

lemma view_server_ok: "server_view s' = server_view s \<Longrightarrow> queues s' = queues s \<Longrightarrow> server_ok s \<Longrightarrow> server_ok s'"
  using server_okI [of s s'] view_relay_ok [of s' s] by (auto simp: server_ok_def)

text \<open>A packet that is read takes bytes from the buffer.\<close>

lemma read_body_shrinks:
  assumes "read_packet_TCP_secure_connection E c n = (r, d, c')" and "next_packet_length c \<noteq> 0" and "r \<noteq> 0" "r \<noteq> - 1"
  shows "length (sk_in (tp_sock c')) < length (sk_in (tp_sock c))"
proof -
  obtain len e s2 where p: "read_TCP_packet E (tp_sock c) (next_packet_length c) = (len, e, s2)" using prod_cases3 by blast
  have "len = int (next_packet_length c) \<and> sk_in (tp_sock c') = sk_in s2"
    using assms p by (auto simp: read_packet_TCP_secure_connection_def Let_def split: if_splits)
  moreover have "sk_in s2 = drop (next_packet_length c) (sk_in (tp_sock c)) \<and> next_packet_length c \<le> length (sk_in (tp_sock c))"
    if "len = int (next_packet_length c)"
    using p that by (auto simp: read_TCP_packet_def TCP_socket_data_recv_buffer_def sock_recv_def Let_def split: if_splits)
  ultimately show ?thesis using assms(2) by auto
qed

lemma read_packet_shrinks:
  assumes r: "read_packet_TCP_secure_connection E c n = (r, d, c')" "r \<noteq> 0" "r \<noteq> - 1"
  shows "length (sk_in (tp_sock c')) < length (sk_in (tp_sock c))"
proof (cases "next_packet_length c = 0")
  case True
  obtain len s1 where l: "read_TCP_length E (tp_sock c) = (len, s1)" by fastforce
  have "fst (read_packet_TCP_secure_connection E c n) = 0" if "len = 0" using l True that by (simp add: read_packet_TCP_secure_connection_def)
  moreover have "fst (read_packet_TCP_secure_connection E c n) = - 1" if "len = 65535" using l True that by (simp add: read_packet_TCP_secure_connection_def)
  ultimately have len: "len \<noteq> 0" "len \<noteq> 65535" using r by auto
  have "length (sk_in s1) \<le> length (sk_in (tp_sock c))"
    using l by (auto simp: read_TCP_length_def sock_recv_def Let_def split: if_splits)
  moreover have "read_packet_TCP_secure_connection E (c\<lparr>tp_sock := s1, next_packet_length := len\<rparr>) n = (r, d, c')"
    using read_after_length [OF True l, of n] len r(1) by simp
  from read_body_shrinks [OF this _ r(2,3)] len have "length (sk_in (tp_sock c')) < length (sk_in s1)" by simp
  ultimately show ?thesis by simp
qed (use read_body_shrinks [OF r(1)] r in blast)

text \<open>The loop that handles the packets of a connection ends: its fuel is enough.\<close>

lemma confirmed_recv_loop_ok:
  assumes "server_ok s" and E: "server_env_ok E" and "i < num_cons s" "tc_status (con_at s i) = 3" and "length (sk_in (tp_sock (con_at s i))) < fuel"
  shows "\<exists>s'. confirmed_recv_loop E fuel i s = Some s' \<and> server_ok s'"
  using assms(1,3-)
proof (induction fuel arbitrary: s)
  case (Suc fuel)
  obtain len packet conn where r: "read_packet_TCP_secure_connection (se_tcp E) (con_at s i) MAX_PACKET_SIZE = (len, packet, conn)" using prod_cases3 by blast
  define s1 where "s1 = upd_con i (\<lambda>_. conn) s"
  have v1: "con_view conn = con_view (con_at s i)" using pipe_more_view [OF read_packet_more, of "se_tcp E" "con_at s i" MAX_PACKET_SIZE] r by simp
  have "server_view s1 = server_view s" unfolding s1_def by (rule upd_con_view) (rule v1)
  note ok1 = view_relay_ok [OF this] and n1 = view_facts(1) [OF this]
  have s1: "relay_ok s1" "queues s1 = queues s" "i < num_cons s1" "tc_status (con_at s1 i) = 3" "con_at s1 i = conn"
    using ok1 n1 Suc.prems v1 by (simp_all add: server_ok_def s1_def upd_con_def con_view_def queues_def)
  have so1: "server_ok s1" using server_okI [OF Suc.prems(1) s1(1,2)] .
  note kill = kill_server_ok [OF _ E]
  show ?case
  proof (cases "len = 0 \<or> len = - 1")
    case True
    then show ?thesis using r so1 kill by (auto simp: s1_def [symmetric] Let_def)
  next
    case False
    obtain rr s2 where h: "handle_TCP_packet E s1 i packet = (rr, s2)" by fastforce
    have s2: "relay_ok s2" "num_cons s2 = num_cons s1" "server_rest s2 = server_rest s1"
      using packet_ok [OF s1(1,3,4), of E packet] packet_rest [of E s1 i packet] h by simp_all
    have so2: "server_ok s2" using server_okI [OF so1 s2(1) rest_queues [OF s2(3)]] .
    show ?thesis
    proof (cases "rr = - 1")
      case True
      then show ?thesis using False r h so2 kill by (auto simp: s1_def [symmetric] Let_def)
    next
      case rr: False
      have "length (sk_in (tp_sock conn)) < length (sk_in (tp_sock (con_at s i)))" using read_packet_shrinks [OF r] False by simp
      moreover have rest: "sk_in (tp_sock (con_at s2 i)) = sk_in (tp_sock conn)" "tc_status (con_at s2 i) = 3"
        using s2(2,3) s1(3-5) by (auto simp: server_rest_def list_eq_iff_nth_eq)
      ultimately have less: "length (sk_in (tp_sock (con_at s2 i))) < fuel" using Suc.prems(4) by simp
      have "i < num_cons s2" using s2(2) s1(3) by simp
      then show ?thesis using Suc.IH [OF so2 _ rest(2) less] False rr r h by (auto simp: s1_def [symmetric] Let_def)
    qed
  qed
qed simp

text \<open>Without the invariant: more fuel than there are bytes does not change the result.\<close>

lemma confirmed_recv_loop_enough:
  assumes "i < num_cons s" and "length (sk_in (tp_sock (con_at s i))) < fuel"
  shows "\<exists>s'. \<forall>k\<ge>fuel. confirmed_recv_loop E k i s = Some s'"
  using assms
proof (induction fuel arbitrary: s)
  case (Suc fuel)
  obtain len packet conn where r: "read_packet_TCP_secure_connection (se_tcp E) (con_at s i) MAX_PACKET_SIZE = (len, packet, conn)" using prod_cases3 by blast
  define s1 where "s1 = upd_con i (\<lambda>_. conn) s"
  obtain rr s2 where h: "handle_TCP_packet E s1 i packet = (rr, s2)" by fastforce
  have unfold: "confirmed_recv_loop E k i s = (if len = 0 then Some s1 else if len = - 1 then Some (snd (kill_accepted E s1 i))
      else if rr = - 1 then Some (snd (kill_accepted E s2 i)) else confirmed_recv_loop E (k - 1) i s2)" if "Suc fuel \<le> k" for k
    using that r h by (cases k) (simp_all add: s1_def)
  show ?case
  proof (cases "len = 0 \<or> len = - 1 \<or> rr = - 1")
    case False
    have rest: "server_rest s2 = server_rest s1" using packet_rest [of E s1 i packet] h by simp
    have "map (\<lambda>c. sk_in (tp_sock c)) (accepted_connection_array s2) = map (\<lambda>c. sk_in (tp_sock c)) (accepted_connection_array s1)"
      using arg_cong [OF rest, of "\<lambda>p. map fst (fst p)"] by (simp add: server_rest_def comp_def)
    then have m: "num_cons s2 = num_cons s" "sk_in (tp_sock (con_at s2 i)) = sk_in (tp_sock conn)"
      using Suc.prems(1) by (auto simp: s1_def upd_con_def list_eq_iff_nth_eq)
    then have "length (sk_in (tp_sock (con_at s2 i))) < fuel" using read_packet_shrinks [OF r] False Suc.prems(2) by simp
    then obtain s' where s': "\<forall>k\<ge>fuel. confirmed_recv_loop E k i s2 = Some s'" using Suc.IH [of s2] m(1) Suc.prems(1) by auto
    have "confirmed_recv_loop E k i s = Some s'" if "Suc fuel \<le> k" for k
    proof -
      have "fuel \<le> k - 1" using that by simp
      then show ?thesis using unfold [OF that] s' False by simp
    qed
    then show ?thesis by blast
  qed (use unfold in auto)
qed simp

text \<open>
  C17. The loop that reads and handles the packets of one connection ends, in any state of the relay: from the
  number of bytes that wait in the socket on, all numbers of rounds give the same result, the one of \<open>do_confirmed_recv\<close>.
\<close>

theorem do_confirmed_recv_returns:
  assumes "i < length (accepted_connection_array s)"
  shows "\<exists>s'. do_confirmed_recv E i s = Some s' \<and>
    (\<forall>fuel > length (sk_in (tp_sock (accepted_connection_array s ! i))). confirmed_recv_loop E fuel i s = Some s')"
  using confirmed_recv_loop_enough [OF assms lessI, of E] unfolding do_confirmed_recv_def by (metis Suc_leI order_refl)

lemma confirmed_round_ok:
  assumes ok: "server_ok s" and E: "server_env_ok E"
  shows "\<exists>s'. confirmed_round E i s = Some s' \<and> server_ok s'"
proof (cases "i < num_cons s \<and> tc_status (con_at s i) = 3")
  case True
  obtain alive s1 where p: "ping_connection E i s = (alive, s1)" by fastforce
  have w: "server_ok (snd (write_con E s i d True)) \<and> server_view (snd (write_con E s i d True)) = server_view s" for d
    using view_server_ok [OF write_con_view rest_queues [OF write_con_rest] ok] write_con_view by blast
  have pv: "server_view (upd_con i (\<lambda>c. c\<lparr>tc_last_pinged := n, tc_ping_id := p\<rparr>) s2) = server_view s2" for n p s2
    by (rule upd_con_view) (simp add: con_view_def)
  have s1: "server_ok s1 \<and> (alive \<longrightarrow> server_view s1 = server_view s)"
    using p w pv view_server_ok [OF pv upd_con_queues] ok kill_server_ok [OF _ E]
    unfolding ping_connection_def Let_def by (auto simp: split_beta split: if_splits)
  show ?thesis
  proof (cases alive)
    case False
    then show ?thesis using True p s1 by (auto simp: confirmed_round_def)
  next
    case alive: True
    define s2 where "s2 = upd_con i (\<lambda>c. snd (send_pending_data (se_tcp E) c)) s1"
    have v2: "server_view s2 = server_view s1" unfolding s2_def by (rule upd_con_view) (rule pipe_more_view, rule send_pending_more)
    have ok2: "server_ok s2" using s1 view_server_ok [OF v2, unfolded s2_def] by (simp add: s2_def)
    have "i < num_cons s2" "tc_status (con_at s2 i) = 3"
      using True s1 alive v2 view_facts(1) [of s1 s] view_facts(1) [of s2 s1] view_con(1) [of s1 s i] view_con(1) [of s2 s1 i] by auto
    then have "\<exists>s'. do_confirmed_recv E i s2 = Some s' \<and> server_ok s'"
      unfolding do_confirmed_recv_def by (intro confirmed_recv_loop_ok [OF ok2 E]) simp_all
    then show ?thesis using True p s1 alive kill_server_ok [OF _ E, of s1 i] by (auto simp: confirmed_round_def s2_def Let_def)
  qed
qed (use ok in \<open>auto simp: confirmed_round_def\<close>)

lemma confirmed_rounds_ok: "server_ok s \<Longrightarrow> server_env_ok E \<Longrightarrow> \<exists>s'. confirmed_rounds E is s = Some s' \<and> server_ok s'"
proof (induction "is" arbitrary: s)
  case (Cons i "is")
  obtain s1 where "confirmed_round E i s = Some s1" "server_ok s1" using confirmed_round_ok [OF Cons.prems] by blast
  then show ?case using Cons by simp
qed simp

lemma queue_update_ok:
  "server_ok s \<Longrightarrow> fresh_con c \<Longrightarrow> server_ok (s\<lparr>incomming_connection_queue := (incomming_connection_queue s)[i := c]\<rparr>)"
  "server_ok s \<Longrightarrow> fresh_con c \<Longrightarrow> server_ok (s\<lparr>unconfirmed_connection_queue := (unconfirmed_connection_queue s)[i := c]\<rparr>)"
  "server_ok s \<Longrightarrow> server_ok (s\<lparr>incomming_connection_queue_index := k\<rparr>)" "server_ok s \<Longrightarrow> server_ok (s\<lparr>unconfirmed_connection_queue_index := k\<rparr>)"
  "server_ok s \<Longrightarrow> server_ok (kill_sock c0 s)" "server_ok s \<Longrightarrow> server_ok (s\<lparr>sv_log := l\<rparr>)"
proof -
  have sub: "\<forall>x\<in>set (xs[i := c]). fresh_con x" if "\<forall>x\<in>set xs. fresh_con x" "fresh_con c" for xs
    using that set_update_subset_insert [of xs i c] by blast
  show "server_ok (s\<lparr>incomming_connection_queue := (incomming_connection_queue s)[i := c]\<rparr>)" if "server_ok s" "fresh_con c"
    using that sub view_relay_ok [of "s\<lparr>incomming_connection_queue := (incomming_connection_queue s)[i := c]\<rparr>" s] by (auto simp: server_ok_def server_view_def)
  show "server_ok (s\<lparr>unconfirmed_connection_queue := (unconfirmed_connection_queue s)[i := c]\<rparr>)" if "server_ok s" "fresh_con c"
    using that sub view_relay_ok [of "s\<lparr>unconfirmed_connection_queue := (unconfirmed_connection_queue s)[i := c]\<rparr>" s] by (auto simp: server_ok_def server_view_def)
  show "server_ok s \<Longrightarrow> server_ok (s\<lparr>incomming_connection_queue_index := k\<rparr>)" "server_ok s \<Longrightarrow> server_ok (s\<lparr>unconfirmed_connection_queue_index := k\<rparr>)"
    "server_ok s \<Longrightarrow> server_ok (kill_sock c0 s)" "server_ok s \<Longrightarrow> server_ok (s\<lparr>sv_log := l\<rparr>)"
    by (rule view_server_ok [rotated 2], assumption, simp add: server_view_def kill_sock_def, simp add: queues_def kill_sock_def)+
qed

lemma zero_fresh: "fresh_con connection_zero"
  by (simp add: fresh_con_def connection_zero_def slot_zero_def)

lemma queue_fresh:
  "server_ok s \<Longrightarrow> i < 256 \<Longrightarrow> fresh_con (incomming_connection_queue s ! i)" "server_ok s \<Longrightarrow> i < 256 \<Longrightarrow> fresh_con (unconfirmed_connection_queue s ! i)"
  by (simp_all add: server_ok_def)

lemma accept_connection_ok: "server_ok s \<Longrightarrow> server_ok (accept_connection s x)"
proof -
  assume ok: "server_ok s"
  let ?i = "unat (incomming_connection_queue_index s) mod 256"
  have f: "fresh_con (c\<lparr>tc_status := a, tp_sock := b, next_packet_length := n\<rparr>) = fresh_con c" for c a b n by (simp add: fresh_con_def)
  have i: "?i < 256" by simp
  show ?thesis using ok queue_fresh(1) [OF ok i] zero_fresh
    unfolding accept_connection_def Let_def kill_TCP_connection_def
    by (auto simp: f split: prod.split intro!: queue_update_ok)
qed

lemma accept_new_ok: "server_ok s \<Longrightarrow> server_ok (do_TCP_accept_new s xs)"
  by (induction s xs rule: do_TCP_accept_new.induct) (simp_all add: accept_connection_ok Let_def)

lemma handshake_fresh: "fresh_con c \<Longrightarrow> fresh_con (snd (read_connection_handshake E c sk))"
proof -
  assume c: "fresh_con c"
  have f: "fresh_con (c\<lparr>tp_sock := k\<rparr>)" for k using c by (simp add: fresh_con_def)
  have "fresh_con (snd (handle_TCP_handshake E c1 data sk))" if "fresh_con c1" for c1 data
    using that by (auto simp: handle_TCP_handshake_def Let_def split_beta fresh_con_def split: option.split)
  then show ?thesis using f by (auto simp: read_connection_handshake_def Let_def split_beta)
qed

lemma kill_sock_fields [simp]:
  "incomming_connection_queue (kill_sock c s) = incomming_connection_queue s" "unconfirmed_connection_queue (kill_sock c s) = unconfirmed_connection_queue s"
  by (simp_all add: kill_sock_def)

lemma queue_put_ok:
  "server_ok s \<Longrightarrow> fresh_con c \<Longrightarrow> q = incomming_connection_queue s \<Longrightarrow> server_ok (s\<lparr>incomming_connection_queue := q[i := c]\<rparr>)"
  "server_ok s \<Longrightarrow> fresh_con c \<Longrightarrow> q = unconfirmed_connection_queue s \<Longrightarrow> server_ok (s\<lparr>unconfirmed_connection_queue := q[i := c]\<rparr>)"
  using queue_update_ok(1,2) by simp_all

lemma do_incoming_ok:
  assumes ok: "server_ok s" and i: "i < 256"
  shows "server_ok (snd (do_incoming E i s))"
proof -
  have f: "fresh_con (snd (read_connection_handshake E (incomming_connection_queue s ! i) k))" for k
    using handshake_fresh queue_fresh(1) [OF ok i] by blast
  show ?thesis unfolding do_incoming_def Let_def kill_TCP_connection_def split_beta
    using ok f zero_fresh by (auto intro!: queue_put_ok queue_update_ok(3-))
qed

lemma confirm_server_ok:
  assumes ok: "server_ok s" and E: "server_env_ok E" and c: "fresh_con c"
  shows "server_ok (snd (confirm_TCP_connection E s c data))"
proof -
  obtain k s1 where a: "add_accepted E s c = (k, s1)" by fastforce
  have r: "relay_ok s" using ok by (simp add: server_ok_def)
  have s1: "server_ok s1" and k: "\<And>i. k = Some i \<Longrightarrow> i < num_cons s1 \<and> tc_status (con_at s1 i) = 3"
    using add_accepted_ok [OF r E c] add_accepted_queues [of E s c] server_okI [OF ok, of s1] a by simp_all
  have p: "server_ok (snd (handle_TCP_packet E s1 i data))" if "k = Some i" for i
  proof -
    have "relay_ok s1" using s1 by (simp add: server_ok_def)
    then show ?thesis using packet_ok [of s1 i E data] k [OF that] server_okI [OF s1 _ rest_queues [OF packet_rest]] by blast
  qed
  show ?thesis
    using a p s1 kill_server_ok [OF _ E] queue_update_ok(5) by (auto simp: confirm_TCP_connection_def Let_def split_beta split: option.split)
qed

lemma fresh_view: "con_view c' = con_view c \<Longrightarrow> fresh_con c \<Longrightarrow> fresh_con c'"
  by (simp add: fresh_con_def con_view_def)

lemma do_unconfirmed_ok:
  assumes ok: "server_ok s" and E: "server_env_ok E" and i: "i < 256"
  shows "server_ok (snd (do_unconfirmed E i s))"
proof -
  have f: "fresh_con (snd (snd (read_packet_TCP_secure_connection (se_tcp E) (unconfirmed_connection_queue s ! i) MAX_PACKET_SIZE)))"
    using fresh_view [OF pipe_more_view [OF read_packet_more]] queue_fresh(2) [OF ok i] by blast
  show ?thesis unfolding do_unconfirmed_def Let_def kill_TCP_connection_def split_beta
    using ok f zero_fresh confirm_server_ok [OF ok E] by (auto intro!: queue_put_ok queue_update_ok(3-))
qed

lemma fold_server_ok: "(\<And>i s. i \<in> set xs \<Longrightarrow> server_ok s \<Longrightarrow> server_ok (f i s)) \<Longrightarrow> server_ok s \<Longrightarrow> server_ok (fold f xs s)"
  by (induction xs arbitrary: s) simp_all

lemma do_server_ok:
  assumes ok: "server_ok s" and E: "server_env_ok E"
  shows "\<exists>s'. do_TCP_server E socks s = Some s' \<and> server_ok s'"
proof -
  have s1: "server_ok (fold (\<lambda>l s. do_TCP_accept_new s l) socks s)" by (rule fold_server_ok [OF _ ok]) (rule accept_new_ok)
  have s2: "server_ok (do_TCP_incomming E (fold (\<lambda>l s. do_TCP_accept_new s l) socks s))"
    unfolding do_TCP_incomming_def by (rule fold_server_ok [OF _ s1]) (simp add: do_incoming_ok)
  have "server_ok (do_TCP_unconfirmed E (do_TCP_incomming E (fold (\<lambda>l s. do_TCP_accept_new s l) socks s)))"
    unfolding do_TCP_unconfirmed_def by (rule fold_server_ok [OF _ s2]) (simp add: do_unconfirmed_ok E)
  then show ?thesis unfolding do_TCP_server_def do_TCP_confirmed_def by (intro confirmed_rounds_ok E)
qed

lemma onion_recv_ok: "server_ok s \<Longrightarrow> server_ok (snd (handle_onion_recv_1 E s dest data))"
  unfolding handle_onion_recv_1_def Let_def split_beta
  using view_server_ok [OF write_con_view rest_queues [OF write_con_rest]] by auto

lemma new_server_ok:
  assumes "fst (bs_list_init (se_bs E) 32 8)"
  shows "server_ok (new_TCP_server E onion sk)"
proof -
  obtain l where l: "bs_list_init (se_bs E) 32 8 = (True, l)" using assms by (cases "bs_list_init (se_bs E) 32 8") simp
  have "0 < (32::nat)" "32 * 8 < (2::nat) ^ 32" by simp_all
  note i = bs_list_init_inv [OF this l]
  show ?thesis using i l zero_fresh by (simp add: server_ok_def new_TCP_server_def relay_ok_def links_ok_def keys_ok_def)
qed

text \<open>
  The states a relay goes through: it is created, runs its loop, gets responses from the onion, and
  bytes arrive on its connections, confirmed or still in one of the two queues. Each step has its own
  environment (time, sockets, random values).
\<close>

lemma arrive_view: "con_view (arrive b c) = con_view c"
  by (simp add: con_view_def arrive_def)

lemma arrive_fresh: "fresh_con c \<Longrightarrow> fresh_con (arrive b c)"
  by (simp add: fresh_con_def arrive_def)

inductive relay_reachable :: "TCP_Server \<Rightarrow> bool" where
  relay_start: "fst (bs_list_init (se_bs E) crypto_box_PUBLICKEYBYTES 8) \<Longrightarrow> relay_reachable (new_TCP_server E onion sk)"
| relay_loop: "relay_reachable s \<Longrightarrow> server_env_ok E \<Longrightarrow> do_TCP_server E socks s = Some s' \<Longrightarrow> relay_reachable s'"
| relay_onion: "relay_reachable s \<Longrightarrow> relay_reachable (snd (handle_onion_recv_1 E s dest data))"
| relay_bytes: "relay_reachable s \<Longrightarrow> relay_reachable (upd_con i (arrive b) s)"
| relay_incoming_bytes: "relay_reachable s \<Longrightarrow>
    relay_reachable (s\<lparr>incomming_connection_queue := map (\<lambda>(k, c). arrive (b k) c) (zip [0..<256] (incomming_connection_queue s))\<rparr>)"
| relay_unconfirmed_bytes: "relay_reachable s \<Longrightarrow>
    relay_reachable (s\<lparr>unconfirmed_connection_queue := map (\<lambda>(k, c). arrive (b k) c) (zip [0..<256] (unconfirmed_connection_queue s))\<rparr>)"

lemma relay_reachable_ok: "relay_reachable s \<Longrightarrow> server_ok s"
proof (induction rule: relay_reachable.induct)
  case (relay_loop s E socks s')
  then show ?case using do_server_ok [of s E socks] by auto
next
  case (relay_bytes s i b)
  then show ?case using view_server_ok [OF upd_con_view [of "arrive b", OF arrive_view] upd_con_queues] by blast
next
  case (relay_incoming_bytes s b)
  then show ?case by (auto simp: server_ok_def relay_ok_def links_ok_def keys_ok_def leads_to_def the_slot_def arrive_fresh dest!: set_zip_rightD)
next
  case (relay_unconfirmed_bytes s b)
  then show ?case by (auto simp: server_ok_def relay_ok_def links_ok_def keys_ok_def leads_to_def the_slot_def arrive_fresh dest!: set_zip_rightD)
qed (simp_all add: new_server_ok onion_recv_ok)

text \<open>
  C13. In every state that a relay reaches the next round of its main loop returns, and the state keeps its invariant:
  an accepted connection is either free or confirmed and has 240 slots, the free ones of which have no
  slot in use; two slots that are online belong to two different connections, point at each other and carry each other's public key;
  the sorted list leads from a key exactly to the confirmed connection with this key; and the number of
  connections is counted correctly.
\<close>

theorem tcp_relay_invariant:
  assumes "relay_reachable s" and "server_env_ok E"
  shows "server_ok s \<and> (\<exists>s'. do_TCP_server E socks s = Some s' \<and> server_ok s')"
  using relay_reachable_ok [OF assms(1)] do_server_ok [OF _ assms(2)] by blast

section \<open>Data between two clients\<close>

text \<open>A data packet goes to the connection that its slot leads to.\<close>

lemma relay_routes:
  assumes "server_ok s" and "i < length (accepted_connection_array s)" and "data \<noteq> []" and "16 \<le> data ! 0"
    and "sl_status (the_slot s i (unat (data ! 0) - 16)) = 2"
  shows "\<exists>j y. j < length (accepted_connection_array s) \<and> j \<noteq> i \<and> y < 240 \<and> leads_to s i (unat (data ! 0) - 16) j y \<and> leads_to s j y i (unat (data ! 0) - 16) \<and>
    handle_TCP_packet E s i data =
      (case write_packet_TCP_secure_connection (se_tcp E) (accepted_connection_array s ! j) (word_of_nat (y + 16) # drop 1 data) False of
         (r, c) \<Rightarrow> (if r = - 1 then - 1 else 0, s\<lparr>accepted_connection_array := (accepted_connection_array s)[j := c]\<rparr>))"
proof -
  let ?x = "unat (data ! 0) - 16"
  have "unat (data ! 0) < 256" using unsigned_less [of "data ! 0"] by simp
  then have x: "?x < 240" "unat (data ! 0 - 16) = ?x" using unat_sub [OF assms(4)] assms(4) by (simp_all add: word_le_nat_alt)
  have "links_ok s" using assms(1) by (simp add: server_ok_def relay_ok_def)
  then obtain j y where jy: "j < num_cons s" "y < 240" "j \<noteq> i" "leads_to s i ?x j y" "leads_to s j y i ?x"
    using assms(2,5) x(1) unfolding links_ok_def by blast
  have d: "\<not> data ! 0 < 16" using assms(4) by (simp add: not_less)
  then have "data ! 0 \<notin> {0,1,2,3,4,5,6,7,8,9}" by auto
  note d = d this
  have "handle_TCP_packet E s i data = (let (ret, s1) = write_con E s j ((word_of_nat y + 16) # drop 1 data) False in (if ret = - 1 then - 1 else 0, s1))"
    using assms(3,5) x d jy(4) by (simp add: handle_TCP_packet_def leads_to_def)
  then show ?thesis using jy by (intro exI [of _ j] exI [of _ y]) (simp add: write_con_def upd_con_def split_beta)
qed

text \<open>A relay with two clients that asked for each other.\<close>

definition sample_server_env :: tcp_server_env where
  "sample_server_env = \<lparr>se_tcp = willing_env nacl_plain, se_keypair = (\<lambda>_. (replicate 32 1, replicate 32 1)), se_nonce = (\<lambda>_ _. replicate 24 0),
     se_random64 = (\<lambda>_ _. 1), se_bs = \<lparr>data_ok = True, ids_ok = True, fresh_byte = (\<lambda>_. 0), fresh_id = (\<lambda>_. 0)\<rparr>, se_realloc = (\<lambda>n. n \<le> 2 ^ 20),
     se_onion = sample_onion_env\<rparr>"

definition relay_client :: "nat \<Rightarrow> tcp_slot \<Rightarrow> u8 \<Rightarrow> TCP_Secure_Connection" where
  "relay_client x sl k = connection_zero\<lparr>tc_status := 3, tc_public_key := replicate 32 k, tc_connections := (replicate 240 slot_zero)[x := sl]\<rparr>"

definition sample_relay :: TCP_Server where
  "sample_relay = (new_TCP_server sample_server_env None (replicate 32 9))
     \<lparr>accepted_connection_array := [relay_client 7 \<lparr>sl_status = 2, sl_public_key = replicate 32 2, sl_index = 1, sl_other_id = 3\<rparr> 1,
        relay_client 3 \<lparr>sl_status = 2, sl_public_key = replicate 32 1, sl_index = 0, sl_other_id = 7\<rparr> 2],
      num_accepted_connections := 2,
      accepted_key_list := \<lparr>bs_n = 2, bs_capacity = 2, bs_element_size = 32, bs_data = replicate 32 1 @ replicate 32 2, bs_ids = [0, 1]\<rparr>\<rparr>"

lemma sample_server_env_ok: "server_env_ok sample_server_env"
  by (simp add: server_env_ok_def sample_server_env_def)

lemma relay_client_slot:
  "x < 240 \<Longrightarrow> tc_connections (relay_client x sl k) ! y = (if y = x then sl else (replicate 240 slot_zero) ! y)"
  "tc_public_key (relay_client x sl k) = replicate 32 k" "tc_status (relay_client x sl k) = 3"
  by (simp_all add: relay_client_def)

lemma relay_client_ok: "sl_status sl \<le> 2 \<Longrightarrow> length (sl_public_key sl) = 32 \<Longrightarrow> con_ok (relay_client x sl k)"
  using set_update_subset_insert [of "replicate 240 slot_zero" x sl]
  by (auto simp: con_ok_def relay_client_def slot_zero_def dest!: subsetD)

lemma sample_relay_keys: "keys_ok sample_relay"
proof -
  let ?l = "accepted_key_list sample_relay"
  have l: "?l = \<lparr>bs_n = 2, bs_capacity = 2, bs_element_size = 32, bs_data = replicate 32 1 @ replicate 32 2, bs_ids = [0, 1]\<rparr>" by (simp add: sample_relay_def)
  have k: "bs_keys ?l = [replicate 32 1, replicate 32 2]" unfolding l by code_simp
  have less: "bytes_less (replicate 32 1) (replicate 32 2)" by code_simp
  have "bs_inv ?l" using k less by (simp add: bs_inv_def bs_wf_def l)
  moreover have "bs_map ?l = [replicate 32 1 \<mapsto> 0, replicate 32 2 \<mapsto> 1]"
    using k by (auto simp: bs_map_def bs_assoc_def l fun_eq_iff)
  moreover have "(\<exists>i<num_cons sample_relay. P i) \<longleftrightarrow> P 0 \<or> P (1::nat)" for P
    by (auto simp: sample_relay_def less_Suc_eq numeral_2_eq_2)
  ultimately show ?thesis unfolding keys_ok_def
    by (auto simp: l sample_relay_def relay_client_slot)
qed

lemma sample_relay_ok: "server_ok sample_relay"
proof -
  have "links_ok sample_relay"
    unfolding links_ok_def
  proof (intro allI impI)
    fix i x assume a: "i < num_cons sample_relay" "x < 240" "sl_status (the_slot sample_relay i x) = 2"
    then have "(i = 0 \<and> x = 7) \<or> (i = 1 \<and> x = 3)"
      by (auto simp: sample_relay_def the_slot_def relay_client_slot less_Suc_eq slot_zero_def split: if_splits)
    then show "\<exists>j y. j < num_cons sample_relay \<and> y < 240 \<and> j \<noteq> i \<and> leads_to sample_relay i x j y \<and> leads_to sample_relay j y i x"
      by (elim disjE) (auto simp: sample_relay_def leads_to_def the_slot_def relay_client_slot)
  qed
  then show ?thesis
    using sample_relay_keys zero_fresh by (simp add: server_ok_def relay_ok_def sample_relay_def relay_client_ok relay_client_slot new_TCP_server_def)
qed

theorem tcp_relay_invariant_witness:
  "\<exists>s'. do_TCP_server sample_server_env [[(\<lparr>sk_fd = 1, sk_in = [1, 2], sk_out = [], sk_calls = 0\<rparr>, True, True)]] (new_TCP_server sample_server_env None (replicate 32 9)) = Some s' \<and>
     server_ok s'"
proof -
  have "fst (bs_list_init (se_bs sample_server_env) 32 8)" by (simp add: sample_server_env_def bs_list_init_def bs_resize_def Let_def)
  from tcp_relay_invariant [OF relay_start [OF this] sample_server_env_ok] show ?thesis by blast
qed

theorem do_confirmed_recv_returns_witness:
  "\<exists>s'. do_confirmed_recv sample_server_env 1 sample_relay = Some s' \<and> confirmed_recv_loop sample_server_env 5 1 sample_relay = Some s'"
proof -
  have "1 < length (accepted_connection_array sample_relay)" "length (sk_in (tp_sock (accepted_connection_array sample_relay ! 1))) < 5"
    by (simp_all add: sample_relay_def relay_client_def connection_zero_def)
  with do_confirmed_recv_returns [OF this(1), of sample_server_env] show ?thesis by blast
qed

end
