(* ===== verification/TCP_Client.thy ===== *)
theory TCP_Client
  imports TCP_Relay
begin

text \<open>
  The client of a TCP relay (\<open>toxcore/TCP_client.c\<close>, \<open>toxcore/TCP_client.h\<close>): the way through a proxy, the
  handshake, the slots to other clients and the packets of an established connection.

  The functions that send and read packets are those of \<open>TCP_Stream\<close>, which the source repeats for the
  client. A callback is an event that is handed to a function, and whether it is set is a flag; \<open>onion_callback\<close> is called
  without a check, which is the error \<open>NullCallback\<close>. The text of an address (\<open>inet_ntop\<close>), random values and the new socket
  come from the environment.
\<close>

section \<open>State\<close>

abbreviation (input) "TCP_CONNECTION_TIMEOUT \<equiv> (10::u64)"

text \<open>The type of a proxy is a byte; a value outside the enumeration leaves a new connection without status.\<close>

abbreviation (input) "TCP_PROXY_NONE \<equiv> (0::u8)"
abbreviation (input) "TCP_PROXY_HTTP \<equiv> (1::u8)"
abbreviation (input) "TCP_PROXY_SOCKS5 \<equiv> (2::u8)"

record TCP_Proxy_Info =
  proxy_ip_port :: IP_Port
  proxy_type :: u8

datatype tcp_client_status =
  TCP_CLIENT_NO_STATUS | TCP_CLIENT_PROXY_HTTP_CONNECTING | TCP_CLIENT_PROXY_SOCKS5_CONNECTING | TCP_CLIENT_PROXY_SOCKS5_UNCONFIRMED |
  TCP_CLIENT_CONNECTING | TCP_CLIENT_UNCONFIRMED | TCP_CLIENT_CONFIRMED | TCP_CLIENT_DISCONNECTED

record tcp_client_slot =
  cs_status :: nat
  cs_public_key :: bytes
  cs_number :: u32

record TCP_Client_Connection = tcp_pipe +
  cc_status :: tcp_client_status
  cc_self_public_key :: bytes
  cc_public_key :: bytes
  cc_ip_port :: IP_Port
  cc_proxy_info :: TCP_Proxy_Info
  cc_temp_secret_key :: bytes
  cc_kill_at :: u64
  cc_last_pinged :: u64
  cc_ping_id :: u64
  cc_ping_response_id :: u64
  cc_ping_request_id :: u64
  cc_connections :: "tcp_client_slot list"
  response_isset :: bool
  status_isset :: bool
  data_isset :: bool
  oob_isset :: bool
  onion_isset :: bool

datatype tcp_client_event =
  ResponseCallback u8 bytes | StatusCallback u32 u8 nat | DataCallback u32 u8 bytes | OobCallback bytes bytes | OnionCallback bytes

datatype tcp_client_error = NullCallback | OutOfFuel

text \<open>What the client gets from elsewhere. No operation draws more than one value of a kind.\<close>

record tcp_client_env =
  ce_tcp :: tcp_env
  ce_keypair :: "bytes \<times> bytes"
  ce_sent_nonce :: bytes
  ce_new_nonce :: bytes
  ce_random64 :: u64
  ce_ip_text :: "IP \<Rightarrow> bytes option"
  ce_sock :: "tcp_sock option"

definition client_slot_zero :: tcp_client_slot where
  "client_slot_zero = \<lparr>cs_status = 0, cs_public_key = replicate 32 0, cs_number = 0\<rparr>"

definition upd_client_slot :: "nat \<Rightarrow> (tcp_client_slot \<Rightarrow> tcp_client_slot) \<Rightarrow> TCP_Client_Connection \<Rightarrow> TCP_Client_Connection" where
  "upd_client_slot x f c = c\<lparr>cc_connections := (cc_connections c)[x := f (cc_connections c ! x)]\<rparr>"

section \<open>Proxies\<close>

text \<open>The family that \<open>connect\<close> is called with.\<close>

definition connect_sock_to :: "IP_Port \<Rightarrow> TCP_Proxy_Info \<Rightarrow> bool" where
  "connect_sock_to addr proxy_info =
     (let addr = (if proxy_type proxy_info \<noteq> TCP_PROXY_NONE then proxy_ip_port proxy_info else addr)
      in if ip_family (ipp_ip addr) = AF_INET then True else if ip_family (ipp_ip addr) = AF_INET6 then True else False)"

definition text_bytes :: "string \<Rightarrow> bytes" where
  "text_bytes s = map of_char s"

fun dec_text :: "nat \<Rightarrow> bytes" where
  "dec_text n = (if n < 10 then [word_of_nat (48 + n)] else dec_text (n div 10) @ [word_of_nat (48 + n mod 10)])"

declare dec_text.simps [simp del]

definition proxy_http_generate_connection_request :: "tcp_client_env \<Rightarrow> TCP_Client_Connection \<Rightarrow> int \<times> TCP_Client_Connection" where
  "proxy_http_generate_connection_request E c =
     (case ce_ip_text E (ipp_ip (cc_ip_port c)) of
        None \<Rightarrow> (0, c)
      | Some ip \<Rightarrow>
          let port = dec_text (unat (ipp_port (cc_ip_port c)));
              request = text_bytes ''CONNECT '' @ ip @ text_bytes '':'' @ port @ text_bytes '' HTTP/1.1'' @ [10] @ text_bytes ''Host: '' @
                ip @ text_bytes '':'' @ port @ [13, 10, 13, 10];
              written = length request;
              c1 = c\<lparr>last_packet := memcpy_at (last_packet c) 0 (take (MAX_PACKET_SIZE - 1) request @ [0])\<rparr>
          in if MAX_PACKET_SIZE < written then (0, c1) else (1, c1\<lparr>last_packet_length := written, last_packet_sent := 0\<rparr>))"

text \<open>\<open>strstr\<close>: the text up to the first zero byte has the pattern.\<close>

definition strstr :: "bytes \<Rightarrow> bytes \<Rightarrow> bool" where
  "strstr data pat = sublist pat (takeWhile (\<lambda>b. b \<noteq> 0) data)"

definition proxy_http_read_connection_response :: "tcp_client_env \<Rightarrow> TCP_Client_Connection \<Rightarrow> int \<times> TCP_Client_Connection" where
  "proxy_http_read_connection_response E c =
     (let (ret, data, s) = read_TCP_packet (ce_tcp E) (tp_sock c) 15; c1 = c\<lparr>tp_sock := s\<rparr>
      in if ret = - 1 then (0, c1)
         else if strstr data (text_bytes ''200'') then
           let data_left = TCP_socket_data_recv_buffer s
           in (1, if data_left \<noteq> 0 then c1\<lparr>tp_sock := snd (snd (read_TCP_packet (ce_tcp E) s (data_left mod 65536)))\<rparr> else c1)
         else (- 1, c1))"

definition proxy_socks5_generate_handshake :: "TCP_Client_Connection \<Rightarrow> TCP_Client_Connection" where
  "proxy_socks5_generate_handshake c =
     c\<lparr>last_packet := memcpy_at (last_packet c) 0 [5, 1, 0], last_packet_length := 3, last_packet_sent := 0\<rparr>"

definition socks5_read_handshake_response :: "tcp_client_env \<Rightarrow> TCP_Client_Connection \<Rightarrow> int \<times> TCP_Client_Connection" where
  "socks5_read_handshake_response E c =
     (let (ret, data, s) = read_TCP_packet (ce_tcp E) (tp_sock c) 2; c1 = c\<lparr>tp_sock := s\<rparr>
      in if ret = - 1 then (0, c1) else if data ! 0 = 5 \<and> data ! 1 = 0 then (1, c1) else (- 1, c1))"

definition proxy_socks5_generate_connection_request :: "TCP_Client_Connection \<Rightarrow> TCP_Client_Connection" where
  "proxy_socks5_generate_connection_request c =
     (let ip = ipp_ip (cc_ip_port c);
          addr = (if ip_family ip = AF_INET then 1 # ip4_of ip else 4 # ip_addr ip);
          request = [5, 1, 0] @ addr @ bytes_be 2 (unat (ipp_port (cc_ip_port c)))
      in c\<lparr>last_packet := memcpy_at (last_packet c) 0 request, last_packet_length := length request, last_packet_sent := 0\<rparr>)"

definition proxy_socks5_read_connection_response :: "tcp_client_env \<Rightarrow> TCP_Client_Connection \<Rightarrow> int \<times> TCP_Client_Connection" where
  "proxy_socks5_read_connection_response E c =
     (let (ret, data, s) = read_TCP_packet (ce_tcp E) (tp_sock c)
            (if ip_family (ipp_ip (cc_ip_port c)) = AF_INET then 4 + SIZE_IP4 + 2 else 4 + SIZE_IP6 + 2); c1 = c\<lparr>tp_sock := s\<rparr>
      in if ret = - 1 then (0, c1) else if data ! 0 = 5 \<and> data ! 1 = 0 then (1, c1) else (- 1, c1))"

section \<open>Handshake\<close>

definition generate_handshake :: "tcp_client_env \<Rightarrow> TCP_Client_Connection \<Rightarrow> int \<times> TCP_Client_Connection" where
  "generate_handshake E c =
     (let (temp_public_key, temp_secret_key) = ce_keypair E;
          plain = temp_public_key @ ce_sent_nonce E;
          c1 = c\<lparr>cc_temp_secret_key := temp_secret_key, tp_sent_nonce := ce_sent_nonce E,
                 last_packet := memcpy_at (memcpy_at (last_packet c) 0 (cc_self_public_key c)) 32 (ce_new_nonce E)\<rparr>
      in case encrypt_data_symmetric (te_nacl (ce_tcp E)) (tp_shared_key c1) (ce_new_nonce E) plain of
           None \<Rightarrow> (- 1, c1)
         | Some enc \<Rightarrow>
             let c2 = c1\<lparr>last_packet := memcpy_at (last_packet c1) 56 enc\<rparr>
             in if length enc \<noteq> length plain + crypto_box_MACBYTES then (- 1, c2)
                else (0, c2\<lparr>last_packet_length := 32 + 24 + length plain + crypto_box_MACBYTES, last_packet_sent := 0\<rparr>))"

definition handle_handshake :: "tcp_client_env \<Rightarrow> TCP_Client_Connection \<Rightarrow> bytes \<Rightarrow> int \<times> TCP_Client_Connection" where
  "handle_handshake E c data =
     (case decrypt_data_symmetric (te_nacl (ce_tcp E)) (tp_shared_key c) (take 24 data) (read_at data 24 (TCP_SERVER_HANDSHAKE_SIZE - 24)) of
        None \<Rightarrow> (- 1, c)
      | Some plain \<Rightarrow>
          if length plain \<noteq> 56 then (- 1, c)
          else (0, c\<lparr>tp_recv_nonce := read_at plain 32 24,
                     tp_shared_key := encrypt_precompute (te_nacl (ce_tcp E)) (take 32 plain) (cc_temp_secret_key c),
                     cc_temp_secret_key := replicate 32 0\<rparr>))"

section \<open>Sending\<close>

text \<open>The length of a packet is passed on as a 16-bit number.\<close>

definition write_client :: "tcp_client_env \<Rightarrow> TCP_Client_Connection \<Rightarrow> bytes \<Rightarrow> bool \<Rightarrow> int \<times> TCP_Client_Connection" where
  "write_client E c packet priority = write_packet_TCP_secure_connection (ce_tcp E) c (take (length packet mod 65536) packet) priority"

definition send_routing_request :: "tcp_client_env \<Rightarrow> TCP_Client_Connection \<Rightarrow> bytes \<Rightarrow> int \<times> TCP_Client_Connection" where
  "send_routing_request E c public_key = write_client E c ([TCP_PACKET_ROUTING_REQUEST] @ public_key) True"

definition client_send_ping_request :: "tcp_client_env \<Rightarrow> TCP_Client_Connection \<Rightarrow> int \<times> TCP_Client_Connection" where
  "client_send_ping_request E c =
     (if cc_ping_request_id c = 0 then (1, c)
      else
        let (ret, c1) = write_client E c ([TCP_PACKET_PING] @ bytes_le 8 (unat (cc_ping_request_id c))) True
        in (ret, if ret = 1 then c1\<lparr>cc_ping_request_id := 0\<rparr> else c1))"

definition client_send_ping_response :: "tcp_client_env \<Rightarrow> TCP_Client_Connection \<Rightarrow> int \<times> TCP_Client_Connection" where
  "client_send_ping_response E c =
     (if cc_ping_response_id c = 0 then (1, c)
      else
        let (ret, c1) = write_client E c ([TCP_PACKET_PONG] @ bytes_le 8 (unat (cc_ping_response_id c))) True
        in (ret, if ret = 1 then c1\<lparr>cc_ping_response_id := 0\<rparr> else c1))"

text \<open>The ping request is tried only when the response did not fail.\<close>

definition send_data :: "tcp_client_env \<Rightarrow> TCP_Client_Connection \<Rightarrow> nat \<Rightarrow> bytes \<Rightarrow> int \<times> TCP_Client_Connection" where
  "send_data E c con_id data =
     (if con_id \<ge> NUM_CLIENT_CONNECTIONS then (- 1, c)
      else if cs_status (cc_connections c ! con_id) \<noteq> 2 then (- 1, c)
      else
        let (r1, c1) = client_send_ping_response E c
        in if r1 = 0 then (0, c1)
           else
             let (r2, c2) = client_send_ping_request E c1
             in if r2 = 0 then (0, c2) else write_client E c2 ((word_of_nat con_id + NUM_RESERVED_PORTS) # data) False)"

definition send_oob_packet :: "tcp_client_env \<Rightarrow> TCP_Client_Connection \<Rightarrow> bytes \<Rightarrow> bytes \<Rightarrow> int \<times> TCP_Client_Connection" where
  "send_oob_packet E c public_key data =
     (if length data = 0 \<or> length data > TCP_MAX_OOB_DATA_LENGTH then (- 1, c)
      else write_client E c ([TCP_PACKET_OOB_SEND] @ public_key @ data) False)"

definition set_tcp_connection_number :: "TCP_Client_Connection \<Rightarrow> nat \<Rightarrow> u32 \<Rightarrow> int \<times> TCP_Client_Connection" where
  "set_tcp_connection_number c con_id number =
     (if con_id \<ge> NUM_CLIENT_CONNECTIONS then (- 1, c)
      else if cs_status (cc_connections c ! con_id) = 0 then (- 1, c)
      else (0, upd_client_slot con_id (\<lambda>x. x\<lparr>cs_number := number\<rparr>) c))"

definition client_send_disconnect_notification :: "tcp_client_env \<Rightarrow> TCP_Client_Connection \<Rightarrow> u8 \<Rightarrow> int \<times> TCP_Client_Connection" where
  "client_send_disconnect_notification E c num = write_client E c [TCP_PACKET_DISCONNECT_NOTIFICATION, num] True"

definition send_disconnect_request :: "tcp_client_env \<Rightarrow> TCP_Client_Connection \<Rightarrow> nat \<Rightarrow> int \<times> TCP_Client_Connection" where
  "send_disconnect_request E c con_id =
     (if con_id \<ge> NUM_CLIENT_CONNECTIONS then (- 1, c)
      else client_send_disconnect_notification E (upd_client_slot con_id (\<lambda>x. x\<lparr>cs_status := 0, cs_number := 0\<rparr>) c)
             (word_of_nat con_id + NUM_RESERVED_PORTS))"

definition send_onion_request :: "tcp_client_env \<Rightarrow> TCP_Client_Connection \<Rightarrow> bytes \<Rightarrow> int \<times> TCP_Client_Connection" where
  "send_onion_request E c data = write_client E c ([TCP_PACKET_ONION_REQUEST] @ data) False"

text \<open>The functions that set a callback.\<close>

definition routing_response_handler :: "TCP_Client_Connection \<Rightarrow> bool \<Rightarrow> TCP_Client_Connection" where
  "routing_response_handler c isset = c\<lparr>response_isset := isset\<rparr>"

definition routing_status_handler :: "TCP_Client_Connection \<Rightarrow> bool \<Rightarrow> TCP_Client_Connection" where
  "routing_status_handler c isset = c\<lparr>status_isset := isset\<rparr>"

definition routing_data_handler :: "TCP_Client_Connection \<Rightarrow> bool \<Rightarrow> TCP_Client_Connection" where
  "routing_data_handler c isset = c\<lparr>data_isset := isset\<rparr>"

definition oob_data_handler :: "TCP_Client_Connection \<Rightarrow> bool \<Rightarrow> TCP_Client_Connection" where
  "oob_data_handler c isset = c\<lparr>oob_isset := isset\<rparr>"

definition onion_response_handler :: "TCP_Client_Connection \<Rightarrow> bool \<Rightarrow> TCP_Client_Connection" where
  "onion_response_handler c isset = c\<lparr>onion_isset := isset\<rparr>"

section \<open>A new connection\<close>

text \<open>\<open>ce_sock\<close> is \<open>None\<close> when the socket cannot be made or set up, or there is no memory.\<close>

definition new_TCP_connection :: "tcp_client_env \<Rightarrow> IP_Port \<Rightarrow> bytes \<Rightarrow> bytes \<Rightarrow> bytes \<Rightarrow> TCP_Proxy_Info option \<Rightarrow> TCP_Client_Connection option" where
  "new_TCP_connection E addr public_key own_key secret_key proxy =
     (if ip_family (ipp_ip addr) \<noteq> AF_INET \<and> ip_family (ipp_ip addr) \<noteq> AF_INET6 then None
      else
        let proxy_info = (case proxy of None \<Rightarrow> \<lparr>proxy_ip_port = ipport_zero, proxy_type = TCP_PROXY_NONE\<rparr> | Some p \<Rightarrow> p)
        in case ce_sock E of
             None \<Rightarrow> None
           | Some sock \<Rightarrow>
               if \<not> connect_sock_to addr proxy_info then None
               else
                 let temp = \<lparr>tp_sock = sock, tp_recv_nonce = replicate 24 0, tp_sent_nonce = replicate 24 0,
                       tp_shared_key = encrypt_precompute (te_nacl (ce_tcp E)) public_key secret_key, next_packet_length = 0,
                       last_packet = replicate 2050 0, last_packet_length = 0, last_packet_sent = 0, priority_queue = [],
                       cc_status = TCP_CLIENT_NO_STATUS, cc_self_public_key = own_key, cc_public_key = public_key, cc_ip_port = addr,
                       cc_proxy_info = proxy_info, cc_temp_secret_key = replicate 32 0, cc_kill_at = 0, cc_last_pinged = 0, cc_ping_id = 0,
                       cc_ping_response_id = 0, cc_ping_request_id = 0, cc_connections = replicate NUM_CLIENT_CONNECTIONS client_slot_zero,
                       response_isset = False, status_isset = False, data_isset = False, oob_isset = False, onion_isset = False\<rparr>;
                     finish = (\<lambda>c. Some (c\<lparr>cc_kill_at := te_now (ce_tcp E) + TCP_CONNECTION_TIMEOUT\<rparr>))
                 in if proxy_type proxy_info = TCP_PROXY_HTTP then
                      finish (snd (proxy_http_generate_connection_request E (temp\<lparr>cc_status := TCP_CLIENT_PROXY_HTTP_CONNECTING\<rparr>)))
                    else if proxy_type proxy_info = TCP_PROXY_SOCKS5 then
                      finish (proxy_socks5_generate_handshake (temp\<lparr>cc_status := TCP_CLIENT_PROXY_SOCKS5_CONNECTING\<rparr>))
                    else if proxy_type proxy_info = TCP_PROXY_NONE then
                      let (r, c) = generate_handshake E (temp\<lparr>cc_status := TCP_CLIENT_CONNECTING\<rparr>)
                      in if r = - 1 then None else finish c
                    else finish temp)"

section \<open>Packets from the relay\<close>

definition client_routing_response :: "TCP_Client_Connection \<Rightarrow> bytes \<Rightarrow> int \<times> tcp_client_event list \<times> TCP_Client_Connection" where
  "client_routing_response c data =
     (if length data \<noteq> 1 + 1 + crypto_box_PUBLICKEYBYTES then (- 1, [], c)
      else if data ! 1 < NUM_RESERVED_PORTS then (0, [], c)
      else
        let con_id = data ! 1 - NUM_RESERVED_PORTS
        in if cs_status (cc_connections c ! unat con_id) \<noteq> 0 then (0, [], c)
           else (0, if response_isset c then [ResponseCallback con_id (drop 2 data)] else [],
                 upd_client_slot (unat con_id) (\<lambda>x. x\<lparr>cs_status := 1, cs_number := - 1, cs_public_key := drop 2 data\<rparr>) c))"

definition client_notification :: "TCP_Client_Connection \<Rightarrow> bytes \<Rightarrow> nat \<Rightarrow> nat \<Rightarrow> int \<times> tcp_client_event list \<times> TCP_Client_Connection" where
  "client_notification c data from to =
     (if length data \<noteq> 1 + 1 then (- 1, [], c)
      else if data ! 1 < NUM_RESERVED_PORTS then (- 1, [], c)
      else
        let con_id = data ! 1 - NUM_RESERVED_PORTS
        in if cs_status (cc_connections c ! unat con_id) \<noteq> from then (0, [], c)
           else (0, if status_isset c then [StatusCallback (cs_number (cc_connections c ! unat con_id)) con_id to] else [],
                 upd_client_slot (unat con_id) (\<lambda>x. x\<lparr>cs_status := to\<rparr>) c))"

definition client_handle_TCP_packet :: "tcp_client_env \<Rightarrow> TCP_Client_Connection \<Rightarrow> bytes \<Rightarrow> tcp_client_error + int \<times> tcp_client_event list \<times> TCP_Client_Connection" where
  "client_handle_TCP_packet E c data =
     (if length data \<le> 1 then Inr (- 1, [], c)
      else if data ! 0 = TCP_PACKET_ROUTING_RESPONSE then Inr (client_routing_response c data)
      else if data ! 0 = TCP_PACKET_CONNECTION_NOTIFICATION then Inr (client_notification c data 1 2)
      else if data ! 0 = TCP_PACKET_DISCONNECT_NOTIFICATION then Inr (client_notification c data 2 1)
      else if data ! 0 = TCP_PACKET_PING then
        if length data \<noteq> 1 + 8 then Inr (- 1, [], c)
        else Inr (0, [], snd (client_send_ping_response E (c\<lparr>cc_ping_response_id := word_of_nat (le_val (drop 1 data))\<rparr>)))
      else if data ! 0 = TCP_PACKET_PONG then
        if length data \<noteq> 1 + 8 then Inr (- 1, [], c)
        else
          let ping_id = word_of_nat (le_val (drop 1 data))
          in if ping_id \<noteq> 0 then Inr (0, [], if ping_id = cc_ping_id c then c\<lparr>cc_ping_id := 0\<rparr> else c) else Inr (- 1, [], c)
      else if data ! 0 = TCP_PACKET_OOB_RECV then
        if length data \<le> 1 + crypto_box_PUBLICKEYBYTES then Inr (- 1, [], c)
        else Inr (0, if oob_isset c then [OobCallback (read_at data 1 crypto_box_PUBLICKEYBYTES) (drop (1 + crypto_box_PUBLICKEYBYTES) data)] else [], c)
      else if data ! 0 = TCP_PACKET_ONION_RESPONSE then
        if onion_isset c then Inr (0, [OnionCallback (drop 1 data)], c) else Inl NullCallback
      else if data ! 0 < NUM_RESERVED_PORTS then Inr (- 1, [], c)
      else
        let con_id = data ! 0 - NUM_RESERVED_PORTS
        in Inr (0, if data_isset c then [DataCallback (cs_number (cc_connections c ! unat con_id)) con_id (drop 1 data)] else [], c))"

section \<open>Running the connection\<close>

text \<open>
  A callback may call the client again, for instance \<open>set_tcp_connection_number\<close>, and has a state of its own:
  \<open>cb e (c, p)\<close> is the client and that state after the callback for the event \<open>e\<close>. A callback is the last thing that
  is done for a packet. With \<open>log_callback\<close> the events are collected.
\<close>

type_synonym 'p client_callback = "tcp_client_event \<Rightarrow> TCP_Client_Connection \<times> 'p \<Rightarrow> TCP_Client_Connection \<times> 'p"

definition log_callback :: "tcp_client_event list client_callback" where
  "log_callback e cp = (fst cp, snd cp @ [e])"

text \<open>
  The loop of \<open>do_confirmed_TCP\<close>, with fuel: every packet takes bytes from the socket, so that the number of bytes
  there is enough.
\<close>

fun client_recv_loop :: "tcp_client_env \<Rightarrow> 'p client_callback \<Rightarrow> nat \<Rightarrow> TCP_Client_Connection \<Rightarrow> 'p \<Rightarrow> tcp_client_error + TCP_Client_Connection \<times> 'p" where
  "client_recv_loop E cb 0 c p = Inl OutOfFuel"
| "client_recv_loop E cb (Suc fuel) c p =
     (let (len, packet, c1) = read_packet_TCP_secure_connection (ce_tcp E) c MAX_PACKET_SIZE
      in if len = 0 then Inr (c1, p)
         else if len = - 1 then Inr (c1\<lparr>cc_status := TCP_CLIENT_DISCONNECTED\<rparr>, p)
         else
           case client_handle_TCP_packet E c1 packet of
             Inl e \<Rightarrow> Inl e
           | Inr (r, evs, c2) \<Rightarrow>
               let (c3, p3) = fold cb evs (c2, p)
               in if r = - 1 then Inr (c3\<lparr>cc_status := TCP_CLIENT_DISCONNECTED\<rparr>, p3) else client_recv_loop E cb fuel c3 p3)"

definition confirmed_pings :: "tcp_client_env \<Rightarrow> TCP_Client_Connection \<Rightarrow> TCP_Client_Connection" where
  "confirmed_pings E c =
     (let c1 = snd (send_pending_data (ce_tcp E) c);
          c2 = snd (client_send_ping_response E c1);
          c3 = snd (client_send_ping_request E c2)
      in if is_timeout (te_now (ce_tcp E)) (cc_last_pinged c3) TCP_PING_FREQUENCY then
           let ping_id = (if ce_random64 E = 0 then ce_random64 E + 1 else ce_random64 E)
           in (snd (client_send_ping_request E (c3\<lparr>cc_ping_id := ping_id, cc_ping_request_id := ping_id\<rparr>)))\<lparr>cc_last_pinged := te_now (ce_tcp E)\<rparr>
         else c3)"

definition do_confirmed_TCP :: "tcp_client_env \<Rightarrow> 'p client_callback \<Rightarrow> TCP_Client_Connection \<Rightarrow> 'p \<Rightarrow> tcp_client_error + TCP_Client_Connection \<times> 'p" where
  "do_confirmed_TCP E cb c p =
     (let c1 = confirmed_pings E c
      in if cc_ping_id c1 \<noteq> 0 \<and> is_timeout (te_now (ce_tcp E)) (cc_last_pinged c1) TCP_PING_TIMEOUT
         then Inr (c1\<lparr>cc_status := TCP_CLIENT_DISCONNECTED\<rparr>, p)
         else client_recv_loop E cb (Suc (length (sk_in (tp_sock c1)))) c1 p)"

text \<open>A step of the proxies: when the request is sent, the answer is read; \<open>follow\<close> prepares what comes next.\<close>

definition proxy_stage :: "tcp_client_env \<Rightarrow> tcp_client_status \<Rightarrow> (TCP_Client_Connection \<Rightarrow> int \<times> TCP_Client_Connection) \<Rightarrow>
    (TCP_Client_Connection \<Rightarrow> TCP_Client_Connection) \<Rightarrow> tcp_client_status \<Rightarrow> TCP_Client_Connection \<Rightarrow> TCP_Client_Connection" where
  "proxy_stage E status answer follow next c =
     (if cc_status c \<noteq> status then c
      else
        let (r, c1) = send_pending_data (ce_tcp E) c
        in if r \<noteq> 0 then c1
           else
             let (ret, c2) = answer c1
             in if ret = - 1 then c2\<lparr>cc_kill_at := 0, cc_status := TCP_CLIENT_DISCONNECTED\<rparr>
                else if ret = 1 then (follow c2)\<lparr>cc_status := next\<rparr>
                else c2)"

definition connecting_stage :: "tcp_client_env \<Rightarrow> TCP_Client_Connection \<Rightarrow> TCP_Client_Connection" where
  "connecting_stage E c =
     (if cc_status c \<noteq> TCP_CLIENT_CONNECTING then c
      else let (r, c1) = send_pending_data (ce_tcp E) c in if r = 0 then c1\<lparr>cc_status := TCP_CLIENT_UNCONFIRMED\<rparr> else c1)"

definition unconfirmed_stage :: "tcp_client_env \<Rightarrow> TCP_Client_Connection \<Rightarrow> TCP_Client_Connection" where
  "unconfirmed_stage E c =
     (if cc_status c \<noteq> TCP_CLIENT_UNCONFIRMED then c
      else
        let (len, data, s) = read_TCP_packet (ce_tcp E) (tp_sock c) TCP_SERVER_HANDSHAKE_SIZE; c1 = c\<lparr>tp_sock := s\<rparr>
        in if len \<noteq> int TCP_SERVER_HANDSHAKE_SIZE then c1
           else
             let (r, c2) = handle_handshake E c1 data
             in if r = 0 then c2\<lparr>cc_kill_at := - 1, cc_status := TCP_CLIENT_CONFIRMED\<rparr>
                else c2\<lparr>cc_kill_at := 0, cc_status := TCP_CLIENT_DISCONNECTED\<rparr>)"

definition client_deadline :: "tcp_client_env \<Rightarrow> TCP_Client_Connection \<Rightarrow> TCP_Client_Connection" where
  "client_deadline E c = (if cc_kill_at c \<le> te_now (ce_tcp E) then c\<lparr>cc_status := TCP_CLIENT_DISCONNECTED\<rparr> else c)"

definition do_TCP_connection :: "tcp_client_env \<Rightarrow> 'p client_callback \<Rightarrow> TCP_Client_Connection \<Rightarrow> 'p \<Rightarrow> tcp_client_error + TCP_Client_Connection \<times> 'p" where
  "do_TCP_connection E cb c p =
     (if cc_status c = TCP_CLIENT_DISCONNECTED then Inr (c, p)
      else
        let start = (\<lambda>c. snd (generate_handshake E c));
            c1 = proxy_stage E TCP_CLIENT_PROXY_HTTP_CONNECTING (proxy_http_read_connection_response E) start TCP_CLIENT_CONNECTING c;
            c2 = proxy_stage E TCP_CLIENT_PROXY_SOCKS5_CONNECTING (socks5_read_handshake_response E)
                   proxy_socks5_generate_connection_request TCP_CLIENT_PROXY_SOCKS5_UNCONFIRMED c1;
            c3 = proxy_stage E TCP_CLIENT_PROXY_SOCKS5_UNCONFIRMED (proxy_socks5_read_connection_response E) start TCP_CLIENT_CONNECTING c2;
            c4 = connecting_stage E c3;
            c5 = unconfirmed_stage E c4
        in if cc_status c5 = TCP_CLIENT_CONFIRMED then
             case do_confirmed_TCP E cb c5 p of Inl e \<Rightarrow> Inl e | Inr (c6, p6) \<Rightarrow> Inr (client_deadline E c6, p6)
           else Inr (client_deadline E c5, p))"

end
