(* ===== verification/TCP_Session.thy ===== *)
theory TCP_Session
  imports TCP_Client
begin

text \<open>
  A client and a relay together: the handshake gives both the same key and each other's nonces, a client
  runs through its states in order and keeps its structure, and data of one client reaches the other.
\<close>

section \<open>Handshake\<close>

text \<open>A socket that takes and gives everything at once.\<close>

definition eager_env :: "nacl \<Rightarrow> tcp_env \<Rightarrow> bool" where
  "eager_env N E \<longleftrightarrow> te_nacl E = N \<and> (\<forall>fd k n. te_send E fd k n = int n) \<and> (\<forall>fd k n. te_recv E fd k n = int n)"

lemma eager_read: "eager_env N E \<Longrightarrow> length (sk_in s) = n \<Longrightarrow>
    read_TCP_packet E s n = (int n, sk_in s, s\<lparr>sk_in := [], sk_calls := sk_calls s + 1\<rparr>)"
  by (simp add: eager_env_def read_TCP_packet_def TCP_socket_data_recv_buffer_def sock_recv_def)

lemma read_empty: "0 < n \<Longrightarrow> sk_in s = [] \<Longrightarrow> read_TCP_packet E s n = (- 1, [], s)"
  by (simp add: read_TCP_packet_def TCP_socket_data_recv_buffer_def)

lemma eager_pending:
  assumes "eager_env N E" and "last_packet_sent c = 0" and "0 < last_packet_length c" "last_packet_length c \<le> length (last_packet c)" and "priority_queue c = []"
  shows "send_pending_data E c = (0, c\<lparr>tp_sock := (tp_sock c)\<lparr>sk_out := sk_out (tp_sock c) @ take (last_packet_length c) (last_packet c),
    sk_calls := sk_calls (tp_sock c) + 1\<rparr>, last_packet_length := 0, last_packet_sent := 0\<rparr>)"
  using assms by (cases c) (auto simp: send_pending_data_def send_pending_data_nonpriority_def sock_send_def eager_env_def Let_def read_at_def)

text \<open>The client's part up to the handshake packet.\<close>

lemma generate_handshake_result:
  assumes N: "nacl_ok N" "te_nacl (ce_tcp E) = N" and len: "length (fst (ce_keypair E)) = 32" "length (ce_sent_nonce E) = 24" "length (ce_new_nonce E) = 24"
    "length (cc_self_public_key c) = 32" "length (last_packet c) = 2050"
  shows "\<exists>enc lp. generate_handshake E c = (0, c\<lparr>cc_temp_secret_key := snd (ce_keypair E), tp_sent_nonce := ce_sent_nonce E, last_packet := lp,
      last_packet_length := 128, last_packet_sent := 0\<rparr>) \<and> length lp = 2050 \<and> take 128 lp = cc_self_public_key c @ ce_new_nonce E @ enc \<and> length enc = 72 \<and>
      decrypt_data_symmetric N (tp_shared_key c) (ce_new_nonce E) enc = Some (fst (ce_keypair E) @ ce_sent_nonce E)"
proof -
  have "fst (ce_keypair E) @ ce_sent_nonce E \<noteq> []" using len by auto
  from encrypt_symmetric_Some [OF N(1) this, of "tp_shared_key c" "ce_new_nonce E"]
  obtain enc where e: "encrypt_data_symmetric N (tp_shared_key c) (ce_new_nonce E) (fst (ce_keypair E) @ ce_sent_nonce E) = Some enc"
    "length enc = 72" "decrypt_data_symmetric N (tp_shared_key c) (ce_new_nonce E) enc = Some (fst (ce_keypair E) @ ce_sent_nonce E)"
    using len by auto
  let ?lp = "memcpy_at (memcpy_at (memcpy_at (last_packet c) 0 (cc_self_public_key c)) 32 (ce_new_nonce E)) 56 enc"
  have "length ?lp = 2050" "take 128 ?lp = cc_self_public_key c @ ce_new_nonce E @ enc"
    using len e(2) by (simp_all add: memcpy_at_def)
  then show ?thesis using e N len
    by (intro exI [of _ enc] exI [of _ ?lp]) (simp add: generate_handshake_def split_beta Let_def)
qed

text \<open>The relay's part.\<close>

lemma relay_handshake_result:
  assumes N: "nacl_ok N" and E: "eager_env N (se_tcp F)" and con: "tc_status con = 1" "sk_in (tp_sock con) = cpk @ nonce @ enc"
    and len: "length cpk = 32" "length nonce = 24" "length enc = 72" "length tpk = 32" "length snonce = 24"
      "length (fst (se_keypair F (sk_fd (tp_sock con)))) = 32" "\<forall>fd k. length (se_nonce F fd k) = 24"
    and dec: "decrypt_data_symmetric N (encrypt_precompute N cpk sk) nonce enc = Some (tpk @ snonce)"
  shows "\<exists>con1 enc'. read_connection_handshake F con sk = (1, con1) \<and> tc_status con1 = 2 \<and> tc_public_key con1 = cpk \<and> sk_in (tp_sock con1) = [] \<and>
    tp_recv_nonce con1 = snonce \<and> tp_sent_nonce con1 = se_nonce F (sk_fd (tp_sock con)) 0 \<and>
    tp_shared_key con1 = encrypt_precompute N tpk (snd (se_keypair F (sk_fd (tp_sock con)))) \<and>
    sk_out (tp_sock con1) = sk_out (tp_sock con) @ se_nonce F (sk_fd (tp_sock con)) 1 @ enc' \<and> length enc' = 72 \<and>
    decrypt_data_symmetric N (encrypt_precompute N cpk sk) (se_nonce F (sk_fd (tp_sock con)) 1) enc' =
      Some (fst (se_keypair F (sk_fd (tp_sock con))) @ se_nonce F (sk_fd (tp_sock con)) 0) \<and>
    next_packet_length con1 = next_packet_length con \<and> last_packet_length con1 = last_packet_length con \<and> priority_queue con1 = priority_queue con"
proof -
  let ?fd = "sk_fd (tp_sock con)"
  let ?p = "fst (se_keypair F ?fd) @ se_nonce F ?fd 0"
  have "?p \<noteq> []" using len by auto
  from encrypt_symmetric_Some [OF N this, of "encrypt_precompute N cpk sk" "se_nonce F ?fd 1"]
  obtain enc' where e: "encrypt_data_symmetric N (encrypt_precompute N cpk sk) (se_nonce F ?fd 1) ?p = Some enc'"
    "length enc' = 72" "decrypt_data_symmetric N (encrypt_precompute N cpk sk) (se_nonce F ?fd 1) enc' = Some ?p"
    using len by auto
  have r: "read_TCP_packet (se_tcp F) (tp_sock con) 128 = (128, cpk @ nonce @ enc, (tp_sock con)\<lparr>sk_in := [], sk_calls := sk_calls (tp_sock con) + 1\<rparr>)"
    using eager_read [OF E, of "tp_sock con" 128] con len by simp
  have parts: "read_at (cpk @ nonce @ enc) 32 24 = nonce" "read_at (cpk @ nonce @ enc) 56 72 = enc" "read_at (tpk @ snonce) 32 24 = snonce"
    using len by (simp_all add: read_at_def)
  have na: "te_nacl (se_tcp F) = N" "te_send (se_tcp F) fd k n = int n" for fd k n using E by (simp_all add: eager_env_def)
  show ?thesis
    using r e dec len con(1) by (simp add: read_connection_handshake_def handle_TCP_handshake_def Let_def split_beta parts na sock_send_def)
qed

lemma client_connects:
  assumes N: "nacl_ok N" and E: "eager_env N (ce_tcp E)" and fam: "ip_family (ipp_ip addr) \<in> {AF_INET, AF_INET6}"
    and sk: "ce_sock E = Some sk0" "sk_in sk0 = []" "sk_out sk0 = []" and now: "te_now (ce_tcp E) < te_now (ce_tcp E) + 10"
    and len: "length (fst (ce_keypair E)) = 32" "length (ce_sent_nonce E) = 24" "length (ce_new_nonce E) = 24" "length cpk = 32"
  shows "\<exists>c c1 enc. new_TCP_connection E addr spk cpk csk None = Some c \<and> do_TCP_connection E cb c p = Inr (c1, p) \<and> cc_status c1 = TCP_CLIENT_UNCONFIRMED \<and>
    sk_out (tp_sock c1) = cpk @ ce_new_nonce E @ enc \<and> length enc = 72 \<and> sk_in (tp_sock c1) = [] \<and>
    decrypt_data_symmetric N (encrypt_precompute N spk csk) (ce_new_nonce E) enc = Some (fst (ce_keypair E) @ ce_sent_nonce E) \<and>
    tp_shared_key c1 = encrypt_precompute N spk csk \<and> tp_sent_nonce c1 = ce_sent_nonce E \<and> cc_temp_secret_key c1 = snd (ce_keypair E) \<and>
    last_packet_length c1 = 0 \<and> priority_queue c1 = [] \<and> next_packet_length c1 = 0"
proof -
  let ?temp = "\<lparr>tp_sock = sk0, tp_recv_nonce = replicate 24 0, tp_sent_nonce = replicate 24 0,
     tp_shared_key = encrypt_precompute N spk csk, next_packet_length = 0, last_packet = replicate 2050 0, last_packet_length = 0, last_packet_sent = 0, priority_queue = [],
     cc_status = TCP_CLIENT_CONNECTING, cc_self_public_key = cpk, cc_public_key = spk, cc_ip_port = addr,
     cc_proxy_info = \<lparr>proxy_ip_port = ipport_zero, proxy_type = TCP_PROXY_NONE\<rparr>, cc_temp_secret_key = replicate 32 0, cc_kill_at = 0, cc_last_pinged = 0, cc_ping_id = 0,
     cc_ping_response_id = 0, cc_ping_request_id = 0, cc_connections = replicate NUM_CLIENT_CONNECTIONS client_slot_zero,
     response_isset = False, status_isset = False, data_isset = False, oob_isset = False, onion_isset = False\<rparr>"
  have na: "te_nacl (ce_tcp E) = N" using E by (simp add: eager_env_def)
  from generate_handshake_result [OF N na len(1-3), of ?temp] len(4)
  obtain enc lp where g: "generate_handshake E ?temp = (0, ?temp\<lparr>cc_temp_secret_key := snd (ce_keypair E), tp_sent_nonce := ce_sent_nonce E, last_packet := lp,
      last_packet_length := 128, last_packet_sent := 0\<rparr>)" "length lp = 2050" "take 128 lp = cpk @ ce_new_nonce E @ enc" "length enc = 72"
    "decrypt_data_symmetric N (encrypt_precompute N spk csk) (ce_new_nonce E) enc = Some (fst (ce_keypair E) @ ce_sent_nonce E)" by auto
  define c where "c = ?temp\<lparr>cc_temp_secret_key := snd (ce_keypair E), tp_sent_nonce := ce_sent_nonce E, last_packet := lp,
      last_packet_length := 128, last_packet_sent := 0, cc_kill_at := te_now (ce_tcp E) + 10\<rparr>"
  have new: "new_TCP_connection E addr spk cpk csk None = Some c"
    using fam sk(1) g(1) na by (auto simp: new_TCP_connection_def connect_sock_to_def c_def)
  define c1 where "c1 = c\<lparr>tp_sock := sk0\<lparr>sk_out := cpk @ ce_new_nonce E @ enc, sk_calls := sk_calls sk0 + 1\<rparr>, last_packet_length := 0, last_packet_sent := 0,
      cc_status := TCP_CLIENT_UNCONFIRMED\<rparr>"
  have pend: "send_pending_data (ce_tcp E) c = (0, c\<lparr>tp_sock := (tp_sock c)\<lparr>sk_out := sk_out (tp_sock c) @ take (last_packet_length c) (last_packet c),
    sk_calls := sk_calls (tp_sock c) + 1\<rparr>, last_packet_length := 0, last_packet_sent := 0\<rparr>)"
    by (rule eager_pending [OF E]) (simp_all add: c_def g(2))
  have "connecting_stage E c = c1" using pend sk(3) g(3) by (simp add: connecting_stage_def c1_def c_def)
  moreover have "unconfirmed_stage E c1 = c1"
    using read_empty [of 96 "tp_sock c1" "ce_tcp E"] sk(2) by (simp add: unconfirmed_stage_def c1_def c_def)
  moreover have "client_deadline E c1 = c1" using now by (simp add: client_deadline_def c1_def c_def)
  moreover have "cc_status c = TCP_CLIENT_CONNECTING" "cc_status c1 = TCP_CLIENT_UNCONFIRMED" by (simp_all add: c_def c1_def)
  ultimately have "do_TCP_connection E cb c p = Inr (c1, p)" by (simp add: do_TCP_connection_def proxy_stage_def Let_def)
  then show ?thesis using new g(4,5) sk(2) by (intro exI [of _ c] exI [of _ c1] exI [of _ enc]) (simp add: c1_def c_def)
qed

text \<open>The structure of a client.\<close>

definition client_slots_ok :: "TCP_Client_Connection \<Rightarrow> bool" where
  "client_slots_ok c \<longleftrightarrow> length (cc_connections c) = 240 \<and> (\<forall>x\<in>set (cc_connections c). cs_status x \<le> 2 \<and> length (cs_public_key x) = 32)"

definition tcp_client_ok :: "TCP_Client_Connection \<Rightarrow> bool" where
  "tcp_client_ok c \<longleftrightarrow> pipe_ok c \<and> client_slots_ok c \<and> length (cc_self_public_key c) = 32 \<and> ip_ok (ipp_ip (cc_ip_port c))"

lemma client_confirms:
  fixes tail :: bytes
  assumes E: "te_nacl (ce_tcp E) = N" "\<forall>fd k n. te_recv (ce_tcp E) fd k n = int n" and c: "cc_status c1 = TCP_CLIENT_UNCONFIRMED" "sk_in (tp_sock c1) = []"
    and len: "length nonce = 24" "length enc = 72" "length tpk = 32" "length snonce = 24"
    and dec: "decrypt_data_symmetric N (tp_shared_key c1) nonce enc = Some (tpk @ snonce)"
  defines "c2 \<equiv> unconfirmed_stage E (arrive (nonce @ enc @ tail) c1)"
  shows "cc_status c2 = TCP_CLIENT_CONFIRMED" "tp_shared_key c2 = encrypt_precompute N tpk (cc_temp_secret_key c1)" "tp_recv_nonce c2 = snonce"
    "tp_sent_nonce c2 = tp_sent_nonce c1" "sk_in (tp_sock c2) = tail" "last_packet_length c2 = last_packet_length c1" "priority_queue c2 = priority_queue c1"
    "next_packet_length c2 = next_packet_length c1" "onion_isset c2 = onion_isset c1" "cc_ping_id c2 = cc_ping_id c1" "tcp_client_ok c1 \<Longrightarrow> tcp_client_ok c2"
    "do_TCP_connection E cb (arrive (nonce @ enc @ tail) c1) q = (case do_confirmed_TCP E cb c2 q of Inl e \<Rightarrow> Inl e | Inr (c3, q3) \<Rightarrow> Inr (client_deadline E c3, q3))"
proof -
  let ?c = "arrive (nonce @ enc @ tail) c1"
  have r: "read_TCP_packet (ce_tcp E) (tp_sock ?c) 96 = (96, nonce @ enc, (tp_sock ?c)\<lparr>sk_in := tail, sk_calls := sk_calls (tp_sock ?c) + 1\<rparr>)"
    using E(2) c(2) len by (simp add: arrive_def read_TCP_packet_def TCP_socket_data_recv_buffer_def sock_recv_def)
  have parts: "take 24 (nonce @ enc) = nonce" "read_at (nonce @ enc) 24 72 = enc" "read_at (tpk @ snonce) 32 24 = snonce" "take 32 (tpk @ snonce) = tpk"
    using len by (simp_all add: read_at_def)
  have st: "cc_status ?c = TCP_CLIENT_UNCONFIRMED" "tp_shared_key ?c = tp_shared_key c1" using c(1) by (simp_all add: arrive_def)
  have h: "handle_handshake E (?c\<lparr>tp_sock := s\<rparr>) (nonce @ enc) = (0, ?c\<lparr>tp_sock := s, tp_recv_nonce := snonce,
      tp_shared_key := encrypt_precompute N tpk (cc_temp_secret_key c1), cc_temp_secret_key := replicate 32 0\<rparr>)" for s
    using dec len parts E(1) st(2) by (simp add: handle_handshake_def arrive_def)
  have c2: "c2 = ?c\<lparr>tp_sock := (tp_sock ?c)\<lparr>sk_in := tail, sk_calls := sk_calls (tp_sock ?c) + 1\<rparr>, tp_recv_nonce := snonce,
      tp_shared_key := encrypt_precompute N tpk (cc_temp_secret_key c1), cc_temp_secret_key := replicate 32 0, cc_kill_at := - 1, cc_status := TCP_CLIENT_CONFIRMED\<rparr>"
    using r h st(1) unfolding c2_def by (simp add: unconfirmed_stage_def)
  then show st2: "cc_status c2 = TCP_CLIENT_CONFIRMED" by simp
  show "tp_shared_key c2 = encrypt_precompute N tpk (cc_temp_secret_key c1)" "tp_recv_nonce c2 = snonce"
    "tp_sent_nonce c2 = tp_sent_nonce c1" "sk_in (tp_sock c2) = tail" "last_packet_length c2 = last_packet_length c1" "priority_queue c2 = priority_queue c1"
    "next_packet_length c2 = next_packet_length c1" "onion_isset c2 = onion_isset c1" "cc_ping_id c2 = cc_ping_id c1"
    unfolding c2 by (simp_all add: arrive_def)
  show "tcp_client_ok c2" if "tcp_client_ok c1" unfolding c2 using that len by (simp add: tcp_client_ok_def client_slots_ok_def pipe_ok_def arrive_def)
  show "do_TCP_connection E cb ?c q = (case do_confirmed_TCP E cb c2 q of Inl e \<Rightarrow> Inl e | Inr (c3, q3) \<Rightarrow> Inr (client_deadline E c3, q3))"
    using st st2 by (simp add: do_TCP_connection_def proxy_stage_def connecting_stage_def Let_def c2_def)
qed

text \<open>
  C14. A new client and a relay that accepted its socket agree after one exchange, when the packets are
  passed on: the relay knows the client by its public key and waits for its first packet, the client is
  confirmed and goes on with \<open>do_confirmed_TCP\<close>; both have the same shared key, which comes from the temporary
  keys, and each expects the nonce that the other sends with, with nothing left to read or to send.
\<close>

theorem tcp_handshake_completes:
  assumes "nacl_ok N" and "eager_env N (ce_tcp E)" "eager_env N (se_tcp F)"
    and "keys_agree N cpk csk spk ssk" "keys_agree N (fst (ce_keypair E)) (snd (ce_keypair E)) (fst (se_keypair F (sk_fd (tp_sock con)))) (snd (se_keypair F (sk_fd (tp_sock con))))"
    and "length cpk = 32" "length (fst (ce_keypair E)) = 32" "length (ce_sent_nonce E) = 24" "length (ce_new_nonce E) = 24"
      "length (fst (se_keypair F (sk_fd (tp_sock con)))) = 32" "\<forall>fd k. length (se_nonce F fd k) = 24"
    and "ip_family (ipp_ip addr) \<in> {AF_INET, AF_INET6}" and "ce_sock E = Some sk0" "sk_in sk0 = []" "sk_out sk0 = []"
    and "te_now (ce_tcp E) < te_now (ce_tcp E) + 10"
    and "tc_status con = TCP_STATUS_CONNECTED" "sk_in (tp_sock con) = []" "sk_out (tp_sock con) = []"
  shows "\<exists>c c1 con1 c2. new_TCP_connection E addr spk cpk csk None = Some c \<and> do_TCP_connection E cb c p = Inr (c1, p) \<and>
    read_connection_handshake F (arrive (sk_out (tp_sock c1)) con) ssk = (1, con1) \<and> tc_status con1 = TCP_STATUS_UNCONFIRMED \<and> tc_public_key con1 = cpk \<and>
    do_TCP_connection E cb (arrive (sk_out (tp_sock con1)) c1) q = (case do_confirmed_TCP E cb c2 q of Inl e \<Rightarrow> Inl e | Inr (c3, q3) \<Rightarrow> Inr (client_deadline E c3, q3)) \<and>
    cc_status c2 = TCP_CLIENT_CONFIRMED \<and> tp_shared_key c2 = tp_shared_key con1 \<and>
    tp_shared_key c2 = encrypt_precompute N (fst (se_keypair F (sk_fd (tp_sock con)))) (snd (ce_keypair E)) \<and>
    tp_recv_nonce c2 = tp_sent_nonce con1 \<and> tp_recv_nonce con1 = tp_sent_nonce c2 \<and>
    sk_in (tp_sock c2) = [] \<and> sk_in (tp_sock con1) = [] \<and> last_packet_length c2 = 0 \<and> priority_queue c2 = []"
proof -
  let ?fd = "sk_fd (tp_sock con)"
  obtain c c1 enc where c: "new_TCP_connection E addr spk cpk csk None = Some c" "do_TCP_connection E cb c p = Inr (c1, p)" "cc_status c1 = TCP_CLIENT_UNCONFIRMED"
    "sk_out (tp_sock c1) = cpk @ ce_new_nonce E @ enc" "length enc = 72" "sk_in (tp_sock c1) = []"
    "decrypt_data_symmetric N (encrypt_precompute N spk csk) (ce_new_nonce E) enc = Some (fst (ce_keypair E) @ ce_sent_nonce E)"
    "tp_shared_key c1 = encrypt_precompute N spk csk" "tp_sent_nonce c1 = ce_sent_nonce E" "cc_temp_secret_key c1 = snd (ce_keypair E)"
    "last_packet_length c1 = 0" "priority_queue c1 = []"
    using client_connects [OF assms(1,2,12-16,7-9,6), of spk csk cb p] by blast
  have k: "encrypt_precompute N cpk ssk = encrypt_precompute N spk csk"
    "encrypt_precompute N (fst (ce_keypair E)) (snd (se_keypair F ?fd)) = encrypt_precompute N (fst (se_keypair F ?fd)) (snd (ce_keypair E))"
    using assms(4,5) by (simp_all add: keys_agree_def encrypt_precompute_def)
  have a: "tc_status (arrive (sk_out (tp_sock c1)) con) = 1" "sk_in (tp_sock (arrive (sk_out (tp_sock c1)) con)) = cpk @ ce_new_nonce E @ enc"
    "sk_fd (tp_sock (arrive (sk_out (tp_sock c1)) con)) = ?fd" "sk_out (tp_sock (arrive (sk_out (tp_sock c1)) con)) = []"
    using assms(17-19) c(4) by (simp_all add: arrive_def)
  obtain con1 enc' where con1: "read_connection_handshake F (arrive (sk_out (tp_sock c1)) con) ssk = (1, con1)" "tc_status con1 = 2" "tc_public_key con1 = cpk"
    "sk_in (tp_sock con1) = []" "tp_recv_nonce con1 = ce_sent_nonce E" "tp_sent_nonce con1 = se_nonce F ?fd 0"
    "tp_shared_key con1 = encrypt_precompute N (fst (ce_keypair E)) (snd (se_keypair F ?fd))"
    "sk_out (tp_sock con1) = se_nonce F ?fd 1 @ enc'" "length enc' = 72"
    "decrypt_data_symmetric N (encrypt_precompute N cpk ssk) (se_nonce F ?fd 1) enc' = Some (fst (se_keypair F ?fd) @ se_nonce F ?fd 0)"
    using relay_handshake_result [OF assms(1,3) a(1,2) assms(6,9) c(5) assms(7,8), unfolded a, OF assms(10,11) c(7) [folded k(1)]] by auto
  have n1: "length (se_nonce F ?fd 1) = 24" "length (se_nonce F ?fd 0) = 24" using assms(11) by simp_all
  have d: "decrypt_data_symmetric N (tp_shared_key c1) (se_nonce F ?fd 1) enc' = Some (fst (se_keypair F ?fd) @ se_nonce F ?fd 0)"
    using con1(10) k(1) c(8) by simp
  have e: "te_nacl (ce_tcp E) = N" "\<forall>fd k n. te_recv (ce_tcp E) fd k n = int n" using assms(2) by (simp_all add: eager_env_def)
  note f = client_confirms [OF e c(3,6) n1(1) con1(9) assms(10) n1(2) d, where tail = "[]", unfolded append_Nil2, folded con1(8)]
  show ?thesis
    using c(1,2,9-12) con1(1-7) f k(2) by (intro exI [of _ c] exI [of _ c1] exI [of _ con1] exI [of _ "unconfirmed_stage E (arrive (sk_out (tp_sock con1)) c1)"]) simp
qed

section \<open>The life of a client\<close>

definition client_env_ok :: "nacl \<Rightarrow> tcp_client_env \<Rightarrow> bool" where
  "client_env_ok N E \<longleftrightarrow> tcp_env_ok N (ce_tcp E) \<and> length (fst (ce_keypair E)) = 32 \<and> length (ce_sent_nonce E) = 24 \<and> length (ce_new_nonce E) = 24 \<and>
     (\<forall>ip t. ce_ip_text E ip = Some t \<longrightarrow> length t \<le> 45)"

text \<open>The order of the states. A client that is disconnected stays so.\<close>

fun status_rank :: "tcp_client_status \<Rightarrow> nat" where
  "status_rank TCP_CLIENT_NO_STATUS = 0"
| "status_rank TCP_CLIENT_PROXY_HTTP_CONNECTING = 1"
| "status_rank TCP_CLIENT_PROXY_SOCKS5_CONNECTING = 1"
| "status_rank TCP_CLIENT_PROXY_SOCKS5_UNCONFIRMED = 2"
| "status_rank TCP_CLIENT_CONNECTING = 3"
| "status_rank TCP_CLIENT_UNCONFIRMED = 4"
| "status_rank TCP_CLIENT_CONFIRMED = 5"
| "status_rank TCP_CLIENT_DISCONNECTED = 6"

lemma client_more:
  assumes "tcp_pipe.more c' = tcp_pipe.more c"
  shows "cc_status c' = cc_status c" "cc_self_public_key c' = cc_self_public_key c" "cc_ip_port c' = cc_ip_port c" "cc_connections c' = cc_connections c"
    "cc_temp_secret_key c' = cc_temp_secret_key c" "onion_isset c' = onion_isset c" "cc_kill_at c' = cc_kill_at c" "cc_ping_id c' = cc_ping_id c"
    "data_isset c' = data_isset c"
  using assms by (cases c; cases c'; simp)+

lemma tcp_client_ok_more: "tcp_client_ok c \<Longrightarrow> pipe_ok c' \<Longrightarrow> tcp_pipe.more c' = tcp_pipe.more c \<Longrightarrow> tcp_client_ok c'"
  using client_more [of c' c] by (simp add: tcp_client_ok_def client_slots_ok_def)

lemma read_packet_pipe_ok: "pipe_ok c \<Longrightarrow> pipe_ok (snd (snd (read_packet_TCP_secure_connection E c n)))"
  by (simp add: read_packet_TCP_secure_connection_def Let_def split_beta pipe_ok_def)

text \<open>A client operation that keeps the structure, the status and the key.\<close>

definition client_kept :: "TCP_Client_Connection \<Rightarrow> TCP_Client_Connection \<Rightarrow> bool" where
  "client_kept c c' \<longleftrightarrow> tcp_client_ok c' \<and> cc_status c' = cc_status c \<and> onion_isset c' = onion_isset c \<and> tp_shared_key c' = tp_shared_key c"

lemma client_kept_trans: "client_kept a b \<Longrightarrow> client_kept b c \<Longrightarrow> client_kept a c"
  by (simp add: client_kept_def)

lemma client_kept_refl: "tcp_client_ok c \<Longrightarrow> client_kept c c"
  by (simp add: client_kept_def)

lemma read_packet_kept: "tcp_client_ok c \<Longrightarrow> client_kept c (snd (snd (read_packet_TCP_secure_connection E c n)))"
proof -
  assume ok: "tcp_client_ok c"
  let ?c = "snd (snd (read_packet_TCP_secure_connection E c n))"
  have m: "tcp_pipe.more ?c = tcp_pipe.more c" by (rule read_packet_more)
  have "pipe_ok ?c" using ok by (intro read_packet_pipe_ok) (simp add: tcp_client_ok_def)
  moreover have "tp_shared_key ?c = tp_shared_key c" by (simp add: read_packet_TCP_secure_connection_def Let_def split_beta)
  ultimately show ?thesis using tcp_client_ok_more [OF ok _ m] client_more [OF m] by (simp add: client_kept_def)
qed

lemma client_kept_pending: "tcp_client_ok c \<Longrightarrow> tcp_env_ok N E \<Longrightarrow> client_kept c (snd (send_pending_data E c))"
proof -
  assume ok: "tcp_client_ok c" and E: "tcp_env_ok N E"
  let ?c = "snd (send_pending_data E c)"
  have m: "tcp_pipe.more ?c = tcp_pipe.more c" by (rule send_pending_more)
  have s: "\<forall>fd k n. te_send E fd k n \<le> int n" using E by (simp add: tcp_env_ok_def)
  have "pipe_ok c" using ok by (simp add: tcp_client_ok_def)
  from send_pending_stream [OF this s prod.collapse [symmetric]] have "pipe_ok ?c" "pipe_view ?c = pipe_view c" by simp_all
  then show ?thesis using tcp_client_ok_more [OF ok _ m] client_more [OF m] by (simp add: client_kept_def pipe_view_def)
qed

lemma client_kept_write: "tcp_client_ok c \<Longrightarrow> client_env_ok N E \<Longrightarrow> client_kept c (snd (write_client E c packet priority))"
proof -
  assume ok: "tcp_client_ok c" and E: "client_env_ok N E"
  let ?c = "snd (write_client E c packet priority)"
  have m: "tcp_pipe.more ?c = tcp_pipe.more c" unfolding write_client_def by (rule write_packet_more)
  have e: "tcp_env_ok N (ce_tcp E)" using E by (simp add: client_env_ok_def)
  have "pipe_ok c" using ok by (simp add: tcp_client_ok_def)
  from write_packet_stream [OF this e prod.collapse [symmetric], of "take (length packet mod 65536) packet" priority]
  have "pipe_ok ?c" "tp_shared_key ?c = tp_shared_key c" by (simp_all add: write_client_def pipe_view_def)
  then show ?thesis using tcp_client_ok_more [OF ok _ m] client_more [OF m] by (simp add: client_kept_def)
qed

lemma client_kept_fields [simp]:
  "client_kept c (c'\<lparr>cc_ping_request_id := a\<rparr>) = client_kept c c'" "client_kept c (c'\<lparr>cc_ping_response_id := a\<rparr>) = client_kept c c'"
  "client_kept c (c'\<lparr>cc_ping_id := a\<rparr>) = client_kept c c'" "client_kept c (c'\<lparr>cc_last_pinged := a\<rparr>) = client_kept c c'"
  "tcp_client_ok (c'\<lparr>cc_ping_request_id := a\<rparr>) = tcp_client_ok c'" "tcp_client_ok (c'\<lparr>cc_ping_response_id := a\<rparr>) = tcp_client_ok c'"
  "tcp_client_ok (c'\<lparr>cc_ping_id := a\<rparr>) = tcp_client_ok c'" "tcp_client_ok (c'\<lparr>cc_last_pinged := a\<rparr>) = tcp_client_ok c'" "tcp_client_ok (c'\<lparr>cc_status := st\<rparr>) = tcp_client_ok c'" "tcp_client_ok (c'\<lparr>cc_kill_at := k\<rparr>) = tcp_client_ok c'"
  by (simp_all add: client_kept_def tcp_client_ok_def client_slots_ok_def pipe_ok_def)

lemma client_kept_pings:
  assumes ok: "tcp_client_ok c" and E: "client_env_ok N E"
  shows "client_kept c (snd (client_send_ping_request E c))" "client_kept c (snd (client_send_ping_response E c))"
  using client_kept_write [OF ok E] client_kept_refl [OF ok]
  by (simp_all add: client_send_ping_request_def client_send_ping_response_def Let_def split_beta)

lemma client_kept_slot:
  assumes ok: "tcp_client_ok c" and f: "\<And>x. cs_status x \<le> 2 \<Longrightarrow> length (cs_public_key x) = 32 \<Longrightarrow> cs_status (f x) \<le> 2 \<and> length (cs_public_key (f x)) = 32"
    and x: "x < 240"
  shows "client_kept c (upd_client_slot x f c)"
proof -
  have sl: "client_slots_ok c" using ok by (simp add: tcp_client_ok_def)
  then have "f (cc_connections c ! x) \<in> {y. cs_status y \<le> 2 \<and> length (cs_public_key y) = 32}"
    using f x by (simp add: client_slots_ok_def)
  then have "client_slots_ok (upd_client_slot x f c)"
    using sl set_update_subset_insert [of "cc_connections c" x "f (cc_connections c ! x)"] by (auto simp: client_slots_ok_def upd_client_slot_def)
  then show ?thesis using ok by (simp add: client_kept_def tcp_client_ok_def upd_client_slot_def pipe_ok_def)
qed

lemma port_bound: "\<not> w < (16::u8) \<Longrightarrow> unat (w - 16) < 240"
proof -
  assume "\<not> w < (16::u8)"
  then have w: "16 \<le> w" by (simp add: not_less)
  have "unat w < 256" using unsigned_less [of w] by simp
  then show ?thesis using unat_sub [OF w] by simp
qed

lemma client_packet_kept:
  assumes ok: "tcp_client_ok c" and E: "client_env_ok N E"
  shows "(\<exists>r evs c'. client_handle_TCP_packet E c data = Inr (r, evs, c') \<and> client_kept c c' \<and> sk_in (tp_sock c') = sk_in (tp_sock c)) \<or>
    client_handle_TCP_packet E c data = Inl NullCallback \<and> \<not> onion_isset c"
proof -
  have pong: "client_kept c (snd (client_send_ping_response E (c\<lparr>cc_ping_response_id := i\<rparr>)))" for i
    using client_kept_pings(2) [of "c\<lparr>cc_ping_response_id := i\<rparr>", OF _ E] ok by (simp add: client_kept_def)
  have pin: "sk_in (tp_sock (snd (client_send_ping_response E (c\<lparr>cc_ping_response_id := i\<rparr>)))) = sk_in (tp_sock c)" for i
    by (simp add: client_send_ping_response_def write_client_def write_packet_in Let_def split_beta)
  have slot: "client_kept c (upd_client_slot (unat (data ! 1 - 16)) f c)"
    if "\<And>x. cs_status x \<le> 2 \<Longrightarrow> length (cs_public_key x) = 32 \<Longrightarrow> cs_status (f x) \<le> 2 \<and> length (cs_public_key (f x)) = 32" "\<not> data ! 1 < 16" for f
    using client_kept_slot [OF ok that(1) port_bound [OF that(2)]] .
  have sin: "sk_in (tp_sock (upd_client_slot x f c)) = sk_in (tp_sock c)" for x f by (simp add: upd_client_slot_def)
  have resp: "client_kept c (snd (snd (client_routing_response c data))) \<and> sk_in (tp_sock (snd (snd (client_routing_response c data)))) = sk_in (tp_sock c)"
    using client_kept_refl [OF ok] slot by (simp add: client_routing_response_def Let_def sin)
  have note1: "client_kept c (snd (snd (client_notification c data a b))) \<and> sk_in (tp_sock (snd (snd (client_notification c data a b)))) = sk_in (tp_sock c)" if "b \<le> 2" for a b
    using client_kept_refl [OF ok] slot that by (simp add: client_notification_def Let_def sin)
  have tup: "\<exists>r evs c'. t = (r, evs, c') \<and> P c'" if "P (snd (snd t))" for t and P :: "TCP_Client_Connection \<Rightarrow> bool" using that by (metis prod.collapse)
  show ?thesis
    using client_kept_refl [OF ok] pong pin tup [of "\<lambda>c'. client_kept c c' \<and> sk_in (tp_sock c') = sk_in (tp_sock c)", OF resp]
      tup [of "\<lambda>c'. client_kept c c' \<and> sk_in (tp_sock c') = sk_in (tp_sock c)", OF note1]
    unfolding client_handle_TCP_packet_def Let_def by auto
qed

lemma confirmed_pings_kept:
  assumes ok: "tcp_client_ok c" and E: "client_env_ok N E"
  shows "client_kept c (confirmed_pings E c)"
proof -
  define c1 where "c1 = snd (send_pending_data (ce_tcp E) c)"
  define c2 where "c2 = snd (client_send_ping_response E c1)"
  define c3 where "c3 = snd (client_send_ping_request E c2)"
  have e: "tcp_env_ok N (ce_tcp E)" using E by (simp add: client_env_ok_def)
  have k1: "client_kept c c1" unfolding c1_def by (rule client_kept_pending [OF ok e])
  then have k2: "client_kept c c2" unfolding c2_def using client_kept_pings(2) [OF _ E] client_kept_trans by (metis client_kept_def)
  then have k3: "client_kept c c3" unfolding c3_def using client_kept_pings(1) [OF _ E] client_kept_trans by (metis client_kept_def)
  have "client_kept c3 (snd (client_send_ping_request E (c3\<lparr>cc_ping_id := i, cc_ping_request_id := i\<rparr>)))" for i
    using client_kept_pings(1) [of "c3\<lparr>cc_ping_id := i, cc_ping_request_id := i\<rparr>", OF _ E] k3 by (simp add: client_kept_def)
  then show ?thesis using client_kept_trans [OF k3] k3 unfolding confirmed_pings_def c1_def [symmetric] c2_def [symmetric] c3_def [symmetric] Let_def by simp
qed

text \<open>
  What a client relies on when it calls back: the callback keeps the client's structure, status and key, does not
  take bytes from its socket, and keeps an invariant of its own.
\<close>

locale client_callbacks =
  fixes cb :: "'p client_callback" and inv :: "'p \<Rightarrow> bool"
  assumes callback_kept: "tcp_client_ok c \<Longrightarrow> inv p \<Longrightarrow> client_kept c (fst (cb e (c, p)))"
    and callback_in: "tcp_client_ok c \<Longrightarrow> inv p \<Longrightarrow> sk_in (tp_sock (fst (cb e (c, p)))) = sk_in (tp_sock c)"
    and callback_inv: "tcp_client_ok c \<Longrightarrow> inv p \<Longrightarrow> inv (snd (cb e (c, p)))"
begin

lemma callbacks_kept:
  "tcp_client_ok c \<Longrightarrow> inv p \<Longrightarrow> client_kept c (fst (fold cb evs (c, p))) \<and> sk_in (tp_sock (fst (fold cb evs (c, p)))) = sk_in (tp_sock c) \<and> inv (snd (fold cb evs (c, p)))"
proof (induction evs arbitrary: c p)
  case (Cons e evs)
  obtain c1 p1 where e: "cb e (c, p) = (c1, p1)" by fastforce
  have k: "client_kept c c1" "sk_in (tp_sock c1) = sk_in (tp_sock c)" "inv p1"
    using callback_kept [OF Cons.prems, of e] callback_in [OF Cons.prems, of e] callback_inv [OF Cons.prems, of e] e by simp_all
  have "tcp_client_ok c1" using k(1) by (simp add: client_kept_def)
  then show ?case using Cons.IH [OF _ k(3)] client_kept_trans [OF k(1)] k(2) e by simp
qed (simp add: client_kept_refl)

text \<open>The loop over the packets ends, and does not fail unless a callback is missing.\<close>

lemma client_loop_ok:
  assumes "tcp_client_ok c" and E: "client_env_ok N E" and "length (sk_in (tp_sock c)) < fuel" and "inv p"
  shows "(\<exists>c' p'. client_recv_loop E cb fuel c p = Inr (c', p') \<and> tcp_client_ok c' \<and> cc_status c' \<in> {cc_status c, TCP_CLIENT_DISCONNECTED} \<and> inv p') \<or>
    client_recv_loop E cb fuel c p = Inl NullCallback \<and> \<not> onion_isset c"
  using assms(1,3,4)
proof (induction fuel arbitrary: c p)
  case (Suc fuel)
  obtain len packet c1 where r: "read_packet_TCP_secure_connection (ce_tcp E) c MAX_PACKET_SIZE = (len, packet, c1)" using prod_cases3 by blast
  have k1: "client_kept c c1" using read_packet_kept [OF Suc.prems(1), of "ce_tcp E" MAX_PACKET_SIZE] r by simp
  then have ok1: "tcp_client_ok c1" by (simp add: client_kept_def)
  show ?case
  proof (cases "len = 0 \<or> len = - 1")
    case True
    then show ?thesis using r k1 Suc.prems(3) by (auto simp: client_kept_def)
  next
    case False
    have less: "length (sk_in (tp_sock c1)) < fuel" using read_packet_shrinks [OF r] False Suc.prems(2) by simp
    from client_packet_kept [OF ok1 E, of packet] show ?thesis
    proof (elim disjE exE conjE)
      assume "client_handle_TCP_packet E c1 packet = Inl NullCallback" "\<not> onion_isset c1"
      then show ?thesis using r False k1 by (simp add: client_kept_def)
    next
      fix rr evs c2 assume h: "client_handle_TCP_packet E c1 packet = Inr (rr, evs, c2)" "client_kept c1 c2" "sk_in (tp_sock c2) = sk_in (tp_sock c1)"
      obtain c3 p3 where f: "fold cb evs (c2, p) = (c3, p3)" by fastforce
      have "tcp_client_ok c2" using h(2) by (simp add: client_kept_def)
      from callbacks_kept [OF this Suc.prems(3), of evs] f
      have k3: "client_kept c2 c3" "sk_in (tp_sock c3) = sk_in (tp_sock c2)" "inv p3" by simp_all
      have k: "client_kept c c3" using client_kept_trans [OF client_kept_trans [OF k1 h(2)] k3(1)] .
      then have ok3: "tcp_client_ok c3" by (simp add: client_kept_def)
      show ?thesis
      proof (cases "rr = - 1")
        case True
        then show ?thesis using r False h(1) f k k3(3) by (auto simp: client_kept_def)
      next
        case rr: False
        have "length (sk_in (tp_sock c3)) < fuel" using less h(3) k3(2) by simp
        from Suc.IH [OF ok3 this k3(3)] show ?thesis using h(1) f r False rr k by (auto simp: client_kept_def)
      qed
    qed
  qed
qed simp

lemma do_confirmed_ok:
  assumes ok: "tcp_client_ok c" and E: "client_env_ok N E" and p: "inv p"
  shows "(\<exists>c' p'. do_confirmed_TCP E cb c p = Inr (c', p') \<and> tcp_client_ok c' \<and> cc_status c' \<in> {cc_status c, TCP_CLIENT_DISCONNECTED} \<and> inv p') \<or>
    do_confirmed_TCP E cb c p = Inl NullCallback \<and> \<not> onion_isset c"
proof -
  have k: "client_kept c (confirmed_pings E c)" by (rule confirmed_pings_kept [OF ok E])
  then have "tcp_client_ok (confirmed_pings E c)" by (simp add: client_kept_def)
  from client_loop_ok [OF this E lessI p] show ?thesis unfolding do_confirmed_TCP_def Let_def using k p by (auto simp: client_kept_def)
qed

end

text \<open>A step before the connection is confirmed: the state moves forward and the key stays.\<close>

definition client_forward :: "TCP_Client_Connection \<Rightarrow> TCP_Client_Connection \<Rightarrow> bool" where
  "client_forward c c' \<longleftrightarrow> tcp_client_ok c' \<and> status_rank (cc_status c) \<le> status_rank (cc_status c') \<and> onion_isset c' = onion_isset c \<and>
     tp_shared_key c' = tp_shared_key c \<and> suffix (sk_in (tp_sock c')) (sk_in (tp_sock c)) \<and> (cc_status c' = TCP_CLIENT_CONFIRMED \<longrightarrow> cc_status c = TCP_CLIENT_CONFIRMED)"

lemma forward_trans: "client_forward a b \<Longrightarrow> client_forward b c \<Longrightarrow> client_forward a c"
  by (auto simp: client_forward_def intro: suffix_order.trans)

lemma kept_forward: "client_kept c c' \<Longrightarrow> suffix (sk_in (tp_sock c')) (sk_in (tp_sock c)) \<Longrightarrow> client_forward c c'"
  by (simp add: client_kept_def client_forward_def)

lemma client_kept_sock: "tcp_client_ok c \<Longrightarrow> client_kept c (c\<lparr>tp_sock := s\<rparr>)"
  by (simp add: client_kept_def tcp_client_ok_def client_slots_ok_def pipe_ok_def)

lemma answers_kept:
  assumes "tcp_client_ok c"
  shows "client_kept c (snd (proxy_http_read_connection_response E c))" "client_kept c (snd (socks5_read_handshake_response E c))"
    "client_kept c (snd (proxy_socks5_read_connection_response E c))"
  using client_kept_sock [OF assms]
  by (simp_all add: proxy_http_read_connection_response_def socks5_read_handshake_response_def proxy_socks5_read_connection_response_def Let_def split_beta)

lemma read_TCP_packet_suffix: "suffix (sk_in (snd (snd (read_TCP_packet E s n)))) (sk_in s)"
proof -
  have "suffix (drop k xs) xs" for k and xs :: bytes by (metis append_take_drop_id suffixI)
  then show ?thesis by (simp add: read_TCP_packet_def sock_recv_def Let_def split_beta)
qed

lemma answers_suffix:
  "suffix (sk_in (tp_sock (snd (proxy_http_read_connection_response E c)))) (sk_in (tp_sock c))"
  "suffix (sk_in (tp_sock (snd (socks5_read_handshake_response E c)))) (sk_in (tp_sock c))"
  "suffix (sk_in (tp_sock (snd (proxy_socks5_read_connection_response E c)))) (sk_in (tp_sock c))"
  using read_TCP_packet_suffix suffix_order.trans [OF read_TCP_packet_suffix read_TCP_packet_suffix]
  by (simp_all add: proxy_http_read_connection_response_def socks5_read_handshake_response_def proxy_socks5_read_connection_response_def Let_def split_beta)

lemma requests_in: "sk_in (tp_sock (snd (generate_handshake E c))) = sk_in (tp_sock c)"
  "sk_in (tp_sock (proxy_socks5_generate_connection_request c)) = sk_in (tp_sock c)"
  by (simp_all add: generate_handshake_def proxy_socks5_generate_connection_request_def Let_def split_beta split: option.split)

lemma requests_kept:
  assumes ok: "tcp_client_ok c" and E: "client_env_ok N E"
  shows "client_kept c (snd (generate_handshake E c))" "client_kept c (proxy_socks5_generate_connection_request c)"
proof -
  have c: "length (last_packet c) = 2050" "length (cc_self_public_key c) = 32" "length (ip_addr (ipp_ip (cc_ip_port c))) = 16"
    using ok by (simp_all add: tcp_client_ok_def pipe_ok_def ip_ok_def)
  have e: "nacl_ok N" "te_nacl (ce_tcp E) = N" "length (fst (ce_keypair E)) = 32" "length (ce_sent_nonce E) = 24" "length (ce_new_nonce E) = 24"
    using E by (simp_all add: client_env_ok_def tcp_env_ok_def)
  obtain lp where g: "generate_handshake E c = (0, c\<lparr>cc_temp_secret_key := snd (ce_keypair E), tp_sent_nonce := ce_sent_nonce E, last_packet := lp,
      last_packet_length := 128, last_packet_sent := 0\<rparr>)" "length lp = 2050"
    using generate_handshake_result [OF e c(2,1)] by blast
  then show "client_kept c (snd (generate_handshake E c))" using ok e by (simp add: client_kept_def tcp_client_ok_def client_slots_ok_def pipe_ok_def)
  show "client_kept c (proxy_socks5_generate_connection_request c)"
    using ok c(1,3) by (simp add: proxy_socks5_generate_connection_request_def client_kept_def tcp_client_ok_def client_slots_ok_def pipe_ok_def Let_def ip4_of_def)
qed

lemma proxy_stage_forward:
  assumes ok: "tcp_client_ok c" and E: "client_env_ok N E" and a: "\<And>c. tcp_client_ok c \<Longrightarrow> client_kept c (snd (answer c))"
    and f: "\<And>c. tcp_client_ok c \<Longrightarrow> client_kept c (follow c)" and suf: "\<And>c. suffix (sk_in (tp_sock (snd (answer c)))) (sk_in (tp_sock c))" "\<And>c. sk_in (tp_sock (follow c)) = sk_in (tp_sock c)"
    and st: "status_rank st \<le> status_rank st'" "st' \<noteq> TCP_CLIENT_CONFIRMED" "st \<noteq> TCP_CLIENT_DISCONNECTED"
  shows "client_forward c (proxy_stage E st answer follow st' c)"
proof -
  have e: "tcp_env_ok N (ce_tcp E)" using E by (simp add: client_env_ok_def)
  define c1 where "c1 = snd (send_pending_data (ce_tcp E) c)"
  define c2 where "c2 = snd (answer c1)"
  have k1: "client_kept c c1" unfolding c1_def by (rule client_kept_pending [OF ok e])
  then have k2: "client_kept c c2" unfolding c2_def using a client_kept_trans by (metis client_kept_def)
  then have k3: "client_kept c (follow c2)" using f client_kept_trans by (metis client_kept_def)
  have i1: "sk_in (tp_sock c1) = sk_in (tp_sock c)" unfolding c1_def by (rule send_pending_in)
  have i2: "suffix (sk_in (tp_sock c2)) (sk_in (tp_sock c))" using suf(1) [of c1] i1 by (simp add: c2_def)
  have "status_rank x \<le> 6" for x by (cases x) simp_all
  then show ?thesis
    using kept_forward [OF k1] kept_forward [OF k2] k2 k3 i1 i2 suf(2) [of c2] kept_forward [OF client_kept_refl [OF ok]] st
    unfolding proxy_stage_def Let_def split_beta c1_def [symmetric] c2_def [symmetric] by (auto simp: client_kept_def client_forward_def)
qed

lemma connecting_forward:
  assumes ok: "tcp_client_ok c" and E: "client_env_ok N E"
  shows "client_forward c (connecting_stage E c)"
proof -
  have e: "tcp_env_ok N (ce_tcp E)" using E by (simp add: client_env_ok_def)
  from client_kept_pending [OF ok e] ok show ?thesis
    by (auto simp: send_pending_in connecting_stage_def Let_def split_beta client_kept_def client_forward_def)
qed

text \<open>A packet that opens with the key, as the relay with the other half of the key makes it.\<close>

definition opens_handshake :: "nacl \<Rightarrow> bytes \<Rightarrow> bytes \<Rightarrow> bool" where
  "opens_handshake N key d \<longleftrightarrow> length d = TCP_SERVER_HANDSHAKE_SIZE \<and> (\<exists>plain. decrypt_data_symmetric N key (take 24 d) (drop 24 d) = Some plain \<and> length plain = 56)"

lemma unconfirmed_forward:
  assumes ok: "tcp_client_ok c" and E: "client_env_ok N E"
  defines "c' \<equiv> unconfirmed_stage E c"
  shows "tcp_client_ok c' \<and> status_rank (cc_status c) \<le> status_rank (cc_status c') \<and> onion_isset c' = onion_isset c \<and>
    (cc_status c' = TCP_CLIENT_CONFIRMED \<longrightarrow> cc_status c = TCP_CLIENT_CONFIRMED \<or> opens_handshake N (tp_shared_key c) (take 96 (sk_in (tp_sock c))))"
proof (cases "cc_status c = TCP_CLIENT_UNCONFIRMED")
  case True
  obtain len d s where r: "read_TCP_packet (ce_tcp E) (tp_sock c) 96 = (len, d, s)" using prod_cases3 by blast
  have e: "te_nacl (ce_tcp E) = N" "\<forall>fd k n. te_recv (ce_tcp E) fd k n = int n" using E by (simp_all add: client_env_ok_def tcp_env_ok_def)
  have ok1: "tcp_client_ok (c\<lparr>tp_sock := s\<rparr>)" using client_kept_sock [OF ok] by (simp add: client_kept_def)
  show ?thesis
  proof (cases "len = 96")
    case False
    then show ?thesis using True r ok1 by (simp add: c'_def unconfirmed_stage_def)
  next
    case len: True
    have d: "length d = 96" "d = take 96 (sk_in (tp_sock c))" using r len e(2) by (auto simp: read_TCP_packet_def TCP_socket_data_recv_buffer_def sock_recv_def split: if_splits)
    have "read_at d 24 72 = drop 24 d" using d(1) by (simp add: read_at_def)
    then have "(\<exists>plain. length plain = 56 \<and> opens_handshake N (tp_shared_key c) d \<and> handle_handshake E (c\<lparr>tp_sock := s\<rparr>) d = (0, c\<lparr>tp_sock := s, tp_recv_nonce := read_at plain 32 24,
        tp_shared_key := encrypt_precompute N (take 32 plain) (cc_temp_secret_key c), cc_temp_secret_key := replicate 32 0\<rparr>)) \<or>
        handle_handshake E (c\<lparr>tp_sock := s\<rparr>) d = (- 1, c\<lparr>tp_sock := s\<rparr>)"
      using e(1) d(1) by (auto simp: handle_handshake_def opens_handshake_def split: option.split)
    then show ?thesis using True r len ok1 d(2) by (auto simp: c'_def unconfirmed_stage_def tcp_client_ok_def client_slots_ok_def pipe_ok_def)
  qed
qed (use ok in \<open>simp add: c'_def unconfirmed_stage_def\<close>)

lemma dec_text_length: "n < 10 ^ Suc k \<Longrightarrow> length (dec_text n) \<le> Suc k"
proof (induction k arbitrary: n)
  case 0
  then show ?case by (simp add: dec_text.simps)
next
  case (Suc k)
  show ?case
  proof (cases "n < 10")
    case False
    have "n div 10 < 10 ^ Suc k" using Suc.prems by (simp add: div_less_iff_less_mult mult.commute)
    then show ?thesis using Suc.IH False by (subst dec_text.simps) simp
  qed (simp add: dec_text.simps)
qed

lemma http_request_kept:
  assumes ok: "tcp_client_ok c" and E: "client_env_ok N E"
  shows "tcp_client_ok (snd (proxy_http_generate_connection_request E c))"
proof (cases "ce_ip_text E (ipp_ip (cc_ip_port c))")
  case (Some t)
  have t: "length t \<le> 45" using E Some unfolding client_env_ok_def by blast
  have "unat (ipp_port (cc_ip_port c)) < 65536" using unsigned_less [of "ipp_port (cc_ip_port c)"] by simp
  then have p: "length (dec_text (unat (ipp_port (cc_ip_port c)))) \<le> 5" using dec_text_length [of _ 4] by simp
  then show ?thesis using ok t Some
    by (simp add: proxy_http_generate_connection_request_def tcp_client_ok_def client_slots_ok_def pipe_ok_def Let_def text_bytes_def)
qed (use ok in \<open>simp add: proxy_http_generate_connection_request_def\<close>)

lemma new_client_ok:
  assumes "new_TCP_connection E addr spk cpk csk proxy = Some c" and E: "client_env_ok N E" and "length cpk = 32" and "ip_ok (ipp_ip addr)"
  shows "tcp_client_ok c"
proof -
  let ?temp = "\<lambda>sock st info kill. \<lparr>tp_sock = sock, tp_recv_nonce = replicate 24 0, tp_sent_nonce = replicate 24 0,
     tp_shared_key = encrypt_precompute (te_nacl (ce_tcp E)) spk csk, next_packet_length = 0, last_packet = replicate 2050 0, last_packet_length = 0, last_packet_sent = 0,
     priority_queue = [], cc_status = st, cc_self_public_key = cpk, cc_public_key = spk, cc_ip_port = addr,
     cc_proxy_info = info, cc_temp_secret_key = replicate 32 0, cc_kill_at = kill, cc_last_pinged = 0, cc_ping_id = 0,
     cc_ping_response_id = 0, cc_ping_request_id = 0, cc_connections = replicate NUM_CLIENT_CONNECTIONS client_slot_zero,
     response_isset = False, status_isset = False, data_isset = False, oob_isset = False, onion_isset = False\<rparr>"
  have ok: "tcp_client_ok (?temp sock st info kill)" for sock st info kill
    using assms(3,4) by (simp add: tcp_client_ok_def client_slots_ok_def pipe_ok_def client_slot_zero_def)
  have "tcp_client_ok (snd (generate_handshake E (?temp sock st info kill)))" "tcp_client_ok (snd (proxy_http_generate_connection_request E (?temp sock st info kill)))"
    "tcp_client_ok (proxy_socks5_generate_handshake (?temp sock st info kill))" for sock st info kill
    using requests_kept(1) [OF ok E] http_request_kept [OF ok E] ok [of sock st info kill]
    by (simp_all add: client_kept_def proxy_socks5_generate_handshake_def tcp_client_ok_def client_slots_ok_def pipe_ok_def)
  moreover have "tcp_client_ok (k\<lparr>cc_kill_at := t\<rparr>) = tcp_client_ok k" for k t
    by (simp add: tcp_client_ok_def client_slots_ok_def pipe_ok_def)
  ultimately show ?thesis using assms(1) ok
    by (auto simp: new_TCP_connection_def Let_def split_beta split: if_splits option.splits)
qed

context client_callbacks
begin

lemma client_forward_ok:
  assumes "tcp_client_ok c" and "client_env_ok N E" and "inv p"
  shows "(\<exists>c' p'. do_TCP_connection E cb c p = Inr (c', p') \<and> tcp_client_ok c' \<and> status_rank (cc_status c) \<le> status_rank (cc_status c') \<and> inv p' \<and>
      (cc_status c' = TCP_CLIENT_CONFIRMED \<longrightarrow> cc_status c = TCP_CLIENT_CONFIRMED \<or>
         (\<exists>k. opens_handshake N (tp_shared_key c) (take 96 (drop k (sk_in (tp_sock c))))))) \<or>
    do_TCP_connection E cb c p = Inl NullCallback \<and> \<not> onion_isset c"
proof (cases "cc_status c = TCP_CLIENT_DISCONNECTED")
  case True
  then show ?thesis using assms(1,3) by (simp add: do_TCP_connection_def)
next
  case False
  let ?start = "\<lambda>c. snd (generate_handshake E c)"
  define c1 where "c1 = proxy_stage E TCP_CLIENT_PROXY_HTTP_CONNECTING (proxy_http_read_connection_response E) ?start TCP_CLIENT_CONNECTING c"
  define c2 where "c2 = proxy_stage E TCP_CLIENT_PROXY_SOCKS5_CONNECTING (socks5_read_handshake_response E) proxy_socks5_generate_connection_request TCP_CLIENT_PROXY_SOCKS5_UNCONFIRMED c1"
  define c3 where "c3 = proxy_stage E TCP_CLIENT_PROXY_SOCKS5_UNCONFIRMED (proxy_socks5_read_connection_response E) ?start TCP_CLIENT_CONNECTING c2"
  define c4 where "c4 = connecting_stage E c3"
  define c5 where "c5 = unconfirmed_stage E c4"
  note req = requests_kept [OF _ assms(2)]
  have f1: "client_forward c c1" unfolding c1_def by (rule proxy_stage_forward [OF assms(1,2) answers_kept(1) req(1) answers_suffix(1) requests_in(1)]) simp_all
  then have ok1: "tcp_client_ok c1" by (simp add: client_forward_def)
  have f2: "client_forward c1 c2" unfolding c2_def by (rule proxy_stage_forward [OF ok1 assms(2) answers_kept(2) req(2) answers_suffix(2) requests_in(2)]) simp_all
  then have ok2: "tcp_client_ok c2" by (simp add: client_forward_def)
  have f3: "client_forward c2 c3" unfolding c3_def by (rule proxy_stage_forward [OF ok2 assms(2) answers_kept(3) req(1) answers_suffix(3) requests_in(1)]) simp_all
  then have ok3: "tcp_client_ok c3" by (simp add: client_forward_def)
  have f4: "client_forward c3 c4" unfolding c4_def by (rule connecting_forward [OF ok3 assms(2)])
  have f: "client_forward c c4" using forward_trans [OF forward_trans [OF forward_trans [OF f1 f2] f3] f4] .
  then have ok4: "tcp_client_ok c4" by (simp add: client_forward_def)
  obtain k where k: "sk_in (tp_sock c4) = drop k (sk_in (tp_sock c))"
    using f by (metis append_eq_conv_conj client_forward_def suffix_def)
  note u = unconfirmed_forward [OF ok4 assms(2), folded c5_def, unfolded k]
  have res: "do_TCP_connection E cb c p = (if cc_status c5 = TCP_CLIENT_CONFIRMED then
       case do_confirmed_TCP E cb c5 p of Inl e \<Rightarrow> Inl e | Inr (c6, p6) \<Rightarrow> Inr (client_deadline E c6, p6) else Inr (client_deadline E c5, p))"
    using False unfolding do_TCP_connection_def c5_def c4_def c3_def c2_def c1_def Let_def by simp
  have rank: "status_rank x \<le> 6" for x by (cases x) simp_all
  have dl: "tcp_client_ok c' \<Longrightarrow> tcp_client_ok (client_deadline E c') \<and> cc_status (client_deadline E c') \<in> {cc_status c', TCP_CLIENT_DISCONNECTED}" for c'
    by (simp add: client_deadline_def)
  have "tcp_client_ok c5" using u by simp
  from do_confirmed_ok [OF this assms(2,3)] assms(3) dl dl [OF this] u f rank show ?thesis unfolding res client_forward_def
    by (cases "cc_status c5 = TCP_CLIENT_CONFIRMED") (fastforce+)
qed

end

text \<open>Collecting the events is such a callback.\<close>

interpretation logged: client_callbacks log_callback "\<lambda>_. True"
  by unfold_locales (simp_all add: log_callback_def client_kept_refl)

text \<open>
  C16. Running a client always ends and keeps its structure: 240 slots with states 0 to 2, buffers within
  bounds, nonces of full length. Its state only moves forward, from the proxy over the handshake to confirmed
  and at last to disconnected, and it becomes confirmed only by 96 bytes
  it received that open with the key it shares with the relay. The one failure is an onion response that arrives before \<open>onion_response_handler\<close> was called.
\<close>

theorem tcp_client_moves_forward:
  assumes "tcp_client_ok c" and "client_env_ok N E"
  shows "(\<exists>c' evs. do_TCP_connection E log_callback c [] = Inr (c', evs) \<and> tcp_client_ok c' \<and> status_rank (cc_status c) \<le> status_rank (cc_status c') \<and>
      (cc_status c' = TCP_CLIENT_CONFIRMED \<longrightarrow> cc_status c = TCP_CLIENT_CONFIRMED \<or>
         (\<exists>k. opens_handshake N (tp_shared_key c) (take 96 (drop k (sk_in (tp_sock c))))))) \<or>
    do_TCP_connection E log_callback c [] = Inl NullCallback \<and> \<not> onion_isset c"
  using logged.client_forward_ok [OF assms TrueI] by blast

text \<open>The packets that a confirmed client sends first do not change what it reads.\<close>

lemma confirmed_reads:
  assumes ok: "tcp_client_ok c" and E: "client_env_ok N E" and now: "te_now (ce_tcp E) < te_now (ce_tcp E) + 10" and ping: "cc_ping_id c = 0"
  shows "\<exists>c4. do_confirmed_TCP E cb c p = client_recv_loop E cb (Suc (length (sk_in (tp_sock c)))) c4 p \<and> onion_isset c4 = onion_isset c \<and>
    sk_in (tp_sock c4) = sk_in (tp_sock c) \<and> next_packet_length c4 = next_packet_length c \<and> tp_recv_nonce c4 = tp_recv_nonce c \<and> tp_shared_key c4 = tp_shared_key c \<and>
    data_isset c4 = data_isset c \<and> cc_connections c4 = cc_connections c"
proof -
  have e: "tcp_env_ok N (ce_tcp E)" "\<forall>fd k n. te_send (ce_tcp E) fd k n \<le> int n" using E by (simp_all add: client_env_ok_def tcp_env_ok_def)
  define same where "same a b \<longleftrightarrow> tcp_client_ok b \<and> onion_isset b = onion_isset a \<and> sk_in (tp_sock b) = sk_in (tp_sock a) \<and> next_packet_length b = next_packet_length a \<and>
    tp_recv_nonce b = tp_recv_nonce a \<and> tp_shared_key b = tp_shared_key a \<and> data_isset b = data_isset a \<and> cc_connections b = cc_connections a" for a b :: TCP_Client_Connection
  have tr: "same a b \<Longrightarrow> same b d \<Longrightarrow> same a d" for a b d by (simp add: same_def)
  have pending: "same a (snd (send_pending_data (ce_tcp E) a)) \<and> cc_ping_id (snd (send_pending_data (ce_tcp E) a)) = cc_ping_id a" if "tcp_client_ok a" for a
  proof -
    have "pipe_ok a" using that by (simp add: tcp_client_ok_def)
    from send_pending_stream [OF this e(2) prod.collapse [symmetric]] client_kept_pending [OF that e(1)]
    show ?thesis by (simp add: same_def client_kept_def pipe_view_def client_more(4,8,9) [OF send_pending_more])
  qed
  have wr: "same a (snd (write_client E a d pr)) \<and> cc_ping_id (snd (write_client E a d pr)) = cc_ping_id a" if "tcp_client_ok a" for a d pr
  proof -
    have "pipe_ok a" using that by (simp add: tcp_client_ok_def)
    from write_packet_stream [OF this e(1) prod.collapse [symmetric]] client_kept_write [OF that E, of d pr]
    show ?thesis by (simp add: same_def client_kept_def pipe_view_def write_client_def client_more(4,8,9) [OF write_packet_more])
  qed
  have pings: "same a (snd (client_send_ping_response E a)) \<and> cc_ping_id (snd (client_send_ping_response E a)) = cc_ping_id a"
    "same a (snd (client_send_ping_request E a)) \<and> cc_ping_id (snd (client_send_ping_request E a)) = cc_ping_id a" if "tcp_client_ok a" for a
    using wr [OF that] that by (simp_all add: client_send_ping_response_def client_send_ping_request_def Let_def split_beta same_def)
  define c1 where "c1 = snd (send_pending_data (ce_tcp E) c)"
  define c2 where "c2 = snd (client_send_ping_response E c1)"
  define c3 where "c3 = snd (client_send_ping_request E c2)"
  define c4 where "c4 = confirmed_pings E c"
  have c4: "c4 = (if is_timeout (te_now (ce_tcp E)) (cc_last_pinged c3) TCP_PING_FREQUENCY then
                  let ping_id = (if ce_random64 E = 0 then ce_random64 E + 1 else ce_random64 E)
                  in (snd (client_send_ping_request E (c3\<lparr>cc_ping_id := ping_id, cc_ping_request_id := ping_id\<rparr>)))\<lparr>cc_last_pinged := te_now (ce_tcp E)\<rparr>
                else c3)"
    unfolding c4_def confirmed_pings_def c1_def c2_def c3_def Let_def ..
  have s1: "same c c1" "cc_ping_id c1 = 0" using pending [OF ok] ping by (simp_all add: c1_def)
  have s2: "same c1 c2" "cc_ping_id c2 = 0" using pings(1) [of c1] s1 by (simp_all add: c2_def same_def)
  have s3: "same c2 c3" "cc_ping_id c3 = 0" using pings(2) [of c2] s2 by (simp_all add: c3_def same_def)
  have "tcp_client_ok (c3\<lparr>cc_ping_id := i, cc_ping_request_id := i\<rparr>)" for i using s3(1) by (simp add: same_def)
  from pings(2) [OF this] have "same (c3\<lparr>cc_ping_id := i, cc_ping_request_id := i\<rparr>) (snd (client_send_ping_request E (c3\<lparr>cc_ping_id := i, cc_ping_request_id := i\<rparr>)))" for i by blast
  moreover have "same a (b\<lparr>cc_last_pinged := t\<rparr>) = same a b" "same (a\<lparr>cc_ping_id := i, cc_ping_request_id := i\<rparr>) b = same a b" for a b t i by (simp_all add: same_def)
  ultimately have s4: "same c3 c4" using s3(1) by (simp add: c4 Let_def) (simp add: same_def)
  have "\<not> (cc_ping_id c4 \<noteq> 0 \<and> is_timeout (te_now (ce_tcp E)) (cc_last_pinged c4) TCP_PING_TIMEOUT)"
    using now s3(2) by (auto simp: c4 is_timeout_def Let_def)
  then have "do_confirmed_TCP E cb c p = client_recv_loop E cb (Suc (length (sk_in (tp_sock c4)))) c4 p"
    unfolding do_confirmed_TCP_def c4_def [symmetric] Let_def by (rule if_not_P)
  then show ?thesis using tr [OF tr [OF tr [OF s1(1) s2(1)] s3(1)] s4] by (intro exI [of _ c4]) (simp add: same_def del: client_recv_loop.simps)
qed

text \<open>
  A relay can make a new client call a null pointer: when its answer to the handshake and an onion response arrive
  together, the client handles the response in the same call in which it becomes confirmed, before
  \<open>tcp_relay_on_online\<close> could set its callbacks.
\<close>

theorem tcp_client_null_callback:
  assumes "tcp_client_ok c" and "client_env_ok N E" and "cc_status c = TCP_CLIENT_UNCONFIRMED" "sk_in (tp_sock c) = []" "next_packet_length c = 0"
    and "\<not> onion_isset c" "cc_ping_id c = 0" and "te_now (ce_tcp E) < te_now (ce_tcp E) + 10"
    and "length nonce = 24" "length enc = 72" "length tpk = 32" "length snonce = 24"
    and "decrypt_data_symmetric N (tp_shared_key c) nonce enc = Some (tpk @ snonce)" and "data \<noteq> []" "length data \<le> 2031"
  shows "do_TCP_connection E cb (arrive (nonce @ enc @ tcp_frame N (encrypt_precompute N tpk (cc_temp_secret_key c)) snonce (TCP_PACKET_ONION_RESPONSE # data)) c) p = Inl NullCallback"
proof -
  let ?m = "TCP_PACKET_ONION_RESPONSE # data"
  let ?f = "tcp_frame N (encrypt_precompute N tpk (cc_temp_secret_key c)) snonce ?m"
  have e: "te_nacl (ce_tcp E) = N" "\<forall>fd k n. te_recv (ce_tcp E) fd k n = int n" "tcp_env_ok N (ce_tcp E)"
    using assms(2) by (simp_all add: client_env_ok_def tcp_env_ok_def)
  define c2 where "c2 = unconfirmed_stage E (arrive (nonce @ enc @ ?f) c)"
  note f = client_confirms [OF e(1,2) assms(3,4,9-13), where tail = ?f, folded c2_def]
  have ping: "cc_ping_id c2 = 0" using f(10) assms(7) by simp
  obtain c4 where c4: "do_confirmed_TCP E cb c2 p = client_recv_loop E cb (Suc (length (sk_in (tp_sock c2)))) c4 p" "onion_isset c4 = onion_isset c2"
    "sk_in (tp_sock c4) = sk_in (tp_sock c2)" "next_packet_length c4 = next_packet_length c2" "tp_recv_nonce c4 = tp_recv_nonce c2" "tp_shared_key c4 = tp_shared_key c2"
    using confirmed_reads [OF f(11) [OF assms(1)] assms(2,8) ping, of cb p] by blast
  have m: "\<forall>m\<in>set [?m]. msg_ok m" using assms(15) by (simp add: msg_ok_def)
  have ex: "expects N c4 [?m] (sk_in (tp_sock c4) @ [])" using c4 f(2,3,5,8) assms(5) by (simp add: expects_def)
  obtain r d c5 where r: "read_packet_TCP_secure_connection (ce_tcp E) c4 MAX_PACKET_SIZE = (r, d, c5)" using prod_cases3 by blast
  from read_packet_result [OF e(3) m ex r] have d: "d = ?m" "r = int (length ?m)" by auto
  have "onion_isset c5 = onion_isset c4" using client_more(6) [OF read_packet_more, of "ce_tcp E" c4 MAX_PACKET_SIZE] r by simp
  then have "client_handle_TCP_packet E c5 d = Inl NullCallback" using d(1) assms(6,14) c4(2) f(9) by (cases data) (simp_all add: client_handle_TCP_packet_def)
  then have "do_confirmed_TCP E cb c2 p = Inl NullCallback" using c4(1) r d(2) by simp
  then show ?thesis by (simp add: f(12) [of cb p])
qed

section \<open>Data from client to client\<close>

lemma client_data_packet:
  assumes "\<not> w < 16" and "data \<noteq> []" and "data_isset b"
  shows "client_handle_TCP_packet G b (w # data) = Inr (0, [DataCallback (cs_number (cc_connections b ! unat (w - 16))) (w - 16) data], b)"
proof -
  have "w \<notin> {0,1,2,3,4,5,6,7,8,9}" using assms(1) by auto
  then show ?thesis using assms by (cases data) (simp_all add: client_handle_TCP_packet_def Let_def)
qed

text \<open>
  The two ends of one direction of a connection in step: the writer has nothing pending, the reader has
  read everything, and both have the same key and nonce.
\<close>

definition in_step :: "'a tcp_pipe_scheme \<Rightarrow> 'b tcp_pipe_scheme \<Rightarrow> bool" where
  "in_step w r \<longleftrightarrow> pipe_ok w \<and> last_packet_length w = 0 \<and> priority_queue w = [] \<and> tp_shared_key r = tp_shared_key w \<and>
     tp_recv_nonce r = tp_sent_nonce w \<and> next_packet_length r = 0 \<and> sk_in (tp_sock r) = []"

definition sent_on :: "bytes \<Rightarrow> 'a tcp_pipe_scheme \<Rightarrow> 'a tcp_pipe_scheme" where
  "sent_on b c = c\<lparr>tp_sock := (tp_sock c)\<lparr>sk_out := sk_out (tp_sock c) @ b, sk_calls := sk_calls (tp_sock c) + 1\<rparr>, tp_sent_nonce := increment_nonce (tp_sent_nonce c)\<rparr>"

lemma eager_write:
  assumes N: "nacl_ok N" "eager_env N E" and w: "pipe_ok w" "last_packet_length w = 0" "priority_queue w = []" and m: "msg_ok m"
  shows "write_packet_TCP_secure_connection E w m False = (1, sent_on (tcp_frame N (tp_shared_key w) (tp_sent_nonce w) m) w)"
proof -
  obtain enc where enc: "encrypt_data_symmetric N (tp_shared_key w) (tp_sent_nonce w) m = Some enc" "length enc = length m + 16"
      "tcp_frame N (tp_shared_key w) (tp_sent_nonce w) m = bytes_be 2 (length m + 16) @ enc"
    by (rule tcp_frame_parts [OF N(1) m]) blast
  have "send_pending_data E w = (0, w)" using w by (simp add: send_pending_data_def send_pending_data_nonpriority_def)
  then show ?thesis using N(2) m enc
    by (simp add: write_packet_TCP_secure_connection_def send_frame_def sock_send_def eager_env_def msg_ok_def sent_on_def Let_def)
qed

lemma arrived_read:
  assumes E: "tcp_env_ok N E" and r: "in_step w r" and m: "msg_ok m"
  shows "\<exists>sk. read_packet_TCP_secure_connection E (arrive (tcp_frame N (tp_shared_key w) (tp_sent_nonce w) m) r) MAX_PACKET_SIZE =
    (int (length m), m, r\<lparr>tp_sock := sk, tp_recv_nonce := increment_nonce (tp_recv_nonce r)\<rparr>) \<and> sk_in sk = [] \<and> sk_out sk = sk_out (tp_sock r)"
proof -
  let ?c = "arrive (tcp_frame N (tp_shared_key w) (tp_sent_nonce w) m) r"
  obtain q d c' where q: "read_packet_TCP_secure_connection E ?c MAX_PACKET_SIZE = (q, d, c')" using prod_cases3 by blast
  have ex: "expects N ?c [m] (sk_in (tp_sock ?c) @ [])" using r by (simp add: expects_def arrive_def in_step_def)
  have ms: "\<forall>x\<in>set [m]. msg_ok x" using m by simp
  note res = read_packet_result [OF E ms ex q]
  from res [THEN conjunct1] obtain sk n nonce where c': "c' = ?c\<lparr>tp_sock := sk, next_packet_length := n, tp_recv_nonce := nonce\<rparr>"
      "sk_out sk = sk_out (tp_sock ?c)" by (elim exE conjE)
  from res [THEN conjunct2] have d: "d = m" "q = int (length m)" "tp_recv_nonce c' = increment_nonce (tp_recv_nonce ?c)" "expects N c' [] (sk_in (tp_sock c') @ [])"
    by (elim disjE exE conjE; simp)+
  have "n = 0" "sk_in sk = []" using d(4) by (simp_all add: expects_def c'(1) split: if_splits)
  moreover have "?c\<lparr>tp_sock := sk, next_packet_length := 0, tp_recv_nonce := nonce\<rparr> = r\<lparr>tp_sock := sk, tp_recv_nonce := nonce\<rparr>"
    using r by (cases r) (simp add: arrive_def in_step_def)
  moreover have "nonce = increment_nonce (tp_recv_nonce r)" "sk_out sk = sk_out (tp_sock r)" using d(3) c' by (simp_all add: arrive_def)
  ultimately show ?thesis unfolding q c'(1) d(1,2) by (intro exI [of _ sk]) simp
qed

lemma read_idle: "next_packet_length c = 0 \<Longrightarrow> sk_in (tp_sock c) = [] \<Longrightarrow> read_packet_TCP_secure_connection E c n = (0, [], c)"
  by (cases c) (simp add: read_packet_TCP_secure_connection_def read_TCP_length_def TCP_socket_data_recv_buffer_def)

lemma slot_byte:
  assumes "z < 240"
  shows "unat (word_of_nat (z + 16) :: u8) = z + 16" "16 \<le> (word_of_nat (z + 16) :: u8)" "(word_of_nat (z + 16) :: u8) - 16 = word_of_nat z" "unat (word_of_nat z :: u8) = z"
proof -
  show u: "unat (word_of_nat (z + 16) :: u8) = z + 16" by (rule unat_word_of_nat_id) (use assms in simp)
  then show "16 \<le> (word_of_nat (z + 16) :: u8)" by (simp add: word_le_nat_alt)
  show "(word_of_nat (z + 16) :: u8) - 16 = word_of_nat z" "unat (word_of_nat z :: u8) = z" using assms by (simp_all add: unat_word_of_nat_id)
qed

text \<open>The relay's part: the frame that arrives is read, and its data written to the other connection.\<close>

lemma relay_passes_on:
  assumes N: "nacl_ok N" "eager_env N (se_tcp F)" "tcp_env_ok N (se_tcp F)" and s: "server_ok s" "i < num_cons s" "x < 240" "leads_to s i x j y"
    and step: "in_step w (con_at s i)" "pipe_ok (con_at s j)" "last_packet_length (con_at s j) = 0" "priority_queue (con_at s j) = []"
    and data: "data \<noteq> []" "length data \<le> 2031"
  defines "m \<equiv> word_of_nat (x + 16) # data"
  defines "f \<equiv> tcp_frame N (tp_shared_key (con_at s j)) (tp_sent_nonce (con_at s j)) (word_of_nat (y + 16) # data)"
  shows "j < num_cons s \<and> j \<noteq> i \<and> y < 240 \<and> leads_to s j y i x \<and>
    (\<exists>sk. do_confirmed_recv F i (upd_con i (arrive (tcp_frame N (tp_shared_key w) (tp_sent_nonce w) m)) s) =
      Some (s\<lparr>accepted_connection_array := (accepted_connection_array s)[i := (con_at s i)\<lparr>tp_sock := sk, tp_recv_nonce := increment_nonce (tp_recv_nonce (con_at s i))\<rparr>,
        j := sent_on f (con_at s j)]\<rparr>) \<and> sk_in sk = [] \<and> sk_out sk = sk_out (tp_sock (con_at s i)))"
proof -
  let ?wire = "tcp_frame N (tp_shared_key w) (tp_sent_nonce w) m"
  let ?s0 = "upd_con i (arrive ?wire) s"
  have m: "msg_ok m" "msg_ok (word_of_nat (y + 16) # data)" using data by (simp_all add: m_def msg_ok_def)
  obtain sk where sk: "read_packet_TCP_secure_connection (se_tcp F) (arrive ?wire (con_at s i)) MAX_PACKET_SIZE =
      (int (length m), m, (con_at s i)\<lparr>tp_sock := sk, tp_recv_nonce := increment_nonce (tp_recv_nonce (con_at s i))\<rparr>)" "sk_in sk = []" "sk_out sk = sk_out (tp_sock (con_at s i))"
    using arrived_read [OF N(3) step(1) m(1)] by blast
  define con where "con = (con_at s i)\<lparr>tp_sock := sk, tp_recv_nonce := increment_nonce (tp_recv_nonce (con_at s i))\<rparr>"
  define s1 where "s1 = upd_con i (\<lambda>_. con) s"
  have v: "server_view s1 = server_view s" unfolding s1_def by (rule upd_con_view) (simp add: con_def con_view_def)
  have ok1: "server_ok s1" using view_server_ok [OF v _ s(1)] by (simp add: s1_def)
  have i1: "i < num_cons s1" using s(2) by (simp add: s1_def upd_con_def)
  have "tc_connections con = tc_connections (con_at s i)" by (simp add: con_def)
  then have sl: "the_slot s1 i z = the_slot s i z" for z using s(2) by (simp add: the_slot_def s1_def upd_con_def)
  have x: "m \<noteq> []" "16 \<le> m ! 0" "unat (m ! 0) - 16 = x" using slot_byte [OF s(3)] by (simp_all add: m_def)
  have on: "sl_status (the_slot s1 i (unat (m ! 0) - 16)) = 2" using s(4) sl x(3) by (simp add: leads_to_def)
  obtain j' y' where jy: "j' < num_cons s1" "j' \<noteq> i" "y' < 240" "leads_to s1 i x j' y'" "leads_to s1 j' y' i x"
      "handle_TCP_packet F s1 i m = (case write_packet_TCP_secure_connection (se_tcp F) (con_at s1 j') (word_of_nat (y' + 16) # drop 1 m) False of
         (r, c) \<Rightarrow> (if r = - 1 then - 1 else 0, s1\<lparr>accepted_connection_array := (accepted_connection_array s1)[j' := c]\<rparr>))"
    using relay_routes [OF ok1 i1 x(1,2) on, of F] unfolding x(3) by blast
  have same: "j' = j" "y' = y" using jy(4) s(4) sl by (simp_all add: leads_to_def)
  have cj: "con_at s1 j = con_at s j" using jy(2) same by (simp add: s1_def upd_con_def)
  have len: "num_cons s1 = num_cons s" by (simp add: s1_def upd_con_def)
  define s2 where "s2 = s1\<lparr>accepted_connection_array := (accepted_connection_array s1)[j := sent_on f (con_at s j)]\<rparr>"
  have h: "handle_TCP_packet F s1 i m = (0, s2)"
    using jy(6) eager_write [OF N(1,2) step(2-4) m(2)] cj same by (simp add: m_def f_def s2_def)
  have ci: "con_at s2 i = con" using jy(2) same s(2) by (simp add: s2_def s1_def upd_con_def)
  have "next_packet_length con = 0" "sk_in (tp_sock con) = []" using step(1) sk(2) by (simp_all add: con_def in_step_def)
  then have idle: "read_packet_TCP_secure_connection (se_tcp F) (con_at s2 i) MAX_PACKET_SIZE = (0, [], con)" unfolding ci by (rule read_idle)
  have again: "upd_con i (\<lambda>_. con) s2 = s2" unfolding ci [symmetric] by (simp add: upd_con_def)
  have at0: "con_at ?s0 i = arrive ?wire (con_at s i)" "upd_con i (\<lambda>_. con) ?s0 = s1" using s(2) by (simp_all add: upd_con_def s1_def)
  have "0 < length ?wire" using tcp_frame_length [OF N(1) m(1)] by simp
  then obtain k where k: "length (sk_in (tp_sock (con_at ?s0 i))) = Suc k" unfolding at0 by (cases "length (sk_in (tp_sock (arrive ?wire (con_at s i))))") (auto simp: arrive_def)
  have "do_confirmed_recv F i ?s0 = Some s2"
    unfolding do_confirmed_recv_def k using sk(1) h idle at0 again x(1) by (simp add: con_def [symmetric])
  moreover have "leads_to s j y i x" "j < num_cons s" "j \<noteq> i" "y < 240"
    using jy cj same len s(2) by (auto simp: leads_to_def the_slot_def s1_def upd_con_def con_def)
  ultimately show ?thesis using sk(2,3) unfolding s2_def s1_def con_def upd_con_def by (intro conjI exI [of _ sk]) simp_all
qed

text \<open>The part of the client at the other end.\<close>

lemma in_step_after:
  assumes "in_step w r" and "tp_shared_key r' = tp_shared_key r" "tp_recv_nonce r' = increment_nonce (tp_recv_nonce r)" "next_packet_length r' = 0" "sk_in (tp_sock r') = []"
  shows "in_step (sent_on f w) r'"
  using assms increment_nonce_funpow [of "tp_sent_nonce w" 1] by (simp add: in_step_def sent_on_def pipe_ok_def)

lemma client_receives:
  assumes b: "tcp_client_ok b" "cc_status b = TCP_CLIENT_CONFIRMED" "data_isset b" "cc_ping_id b = 0" and E: "client_env_ok N G"
    and now: "te_now (ce_tcp G) < te_now (ce_tcp G) + 10" and step: "in_step w b" and y: "y < 240" and data: "data \<noteq> []" "length data \<le> 2031"
  defines "f \<equiv> tcp_frame N (tp_shared_key w) (tp_sent_nonce w) (word_of_nat (y + 16) # data)"
  shows "\<exists>b'. do_TCP_connection G log_callback (arrive f b) [] = Inr (b', [DataCallback (cs_number (cc_connections b ! y)) (word_of_nat y) data]) \<and> in_step (sent_on f w) b'"
proof -
  let ?m = "word_of_nat (y + 16) # data" and ?c = "arrive f b"
  have e: "tcp_env_ok N (ce_tcp G)" using E by (simp add: client_env_ok_def)
  have c: "tcp_client_ok ?c" "cc_status ?c = TCP_CLIENT_CONFIRMED" "cc_ping_id ?c = 0" "sk_in (tp_sock ?c) = f" "next_packet_length ?c = 0"
    "tp_recv_nonce ?c = tp_recv_nonce b" "tp_shared_key ?c = tp_shared_key b" "data_isset ?c" "cc_connections ?c = cc_connections b"
    using b step by (simp_all add: arrive_def tcp_client_ok_def client_slots_ok_def pipe_ok_def in_step_def)
  obtain c4 where c4: "do_confirmed_TCP G log_callback ?c [] = client_recv_loop G log_callback (Suc (length f)) c4 []" "sk_in (tp_sock c4) = f"
    "next_packet_length c4 = 0" "tp_recv_nonce c4 = tp_recv_nonce b" "tp_shared_key c4 = tp_shared_key b" "data_isset c4" "cc_connections c4 = cc_connections b"
    using confirmed_reads [OF c(1) E now c(3), of log_callback "[]"] c(4-9) by auto
  define r where "r = c4\<lparr>tp_sock := (tp_sock c4)\<lparr>sk_in := []\<rparr>\<rparr>"
  have r: "c4 = arrive f r" using c4(2) by (simp add: r_def arrive_def)
  have "in_step w r" using step c4(3-5) by (simp add: in_step_def r_def)
  moreover have m: "msg_ok ?m" using data by (simp add: msg_ok_def)
  ultimately obtain sk where sk: "read_packet_TCP_secure_connection (ce_tcp G) c4 MAX_PACKET_SIZE =
      (int (length ?m), ?m, r\<lparr>tp_sock := sk, tp_recv_nonce := increment_nonce (tp_recv_nonce r)\<rparr>)" "sk_in sk = []"
    using arrived_read [OF e, of w r ?m] unfolding r f_def by blast
  define c5 where "c5 = r\<lparr>tp_sock := sk, tp_recv_nonce := increment_nonce (tp_recv_nonce r)\<rparr>"
  have c5: "data_isset c5" "cc_connections c5 = cc_connections b" "next_packet_length c5 = 0" "sk_in (tp_sock c5) = []" "tp_shared_key c5 = tp_shared_key b"
    "tp_recv_nonce c5 = increment_nonce (tp_recv_nonce b)" using c4 sk(2) by (simp_all add: c5_def r_def)
  let ?ev = "DataCallback (cs_number (cc_connections b ! y)) (word_of_nat y) data"
  have "\<not> (word_of_nat (y + 16) :: u8) < 16" using slot_byte(2) [OF y] by (simp add: not_less)
  from client_data_packet [OF this data(1) c5(1), of G] have h: "client_handle_TCP_packet G c5 ?m = Inr (0, [?ev], c5)"
    using slot_byte(3,4) [OF y] c5(2) by simp
  have idle: "client_recv_loop G log_callback (Suc k) c5 p = Inr (c5, p)" for k p using read_idle [OF c5(3,4)] by simp
  have "0 < length f" using tcp_frame_length [OF _ m] e by (simp add: f_def tcp_env_ok_def)
  then obtain k where k: "length f = Suc k" by (cases "length f") auto
  have "do_confirmed_TCP G log_callback ?c [] = Inr (c5, [?ev])"
    unfolding c4(1) k client_recv_loop.simps(2) [of _ _ "Suc k"] using sk(1) h idle [of k "[?ev]"] by (simp add: c5_def [symmetric] log_callback_def del: client_recv_loop.simps)
  then have "do_TCP_connection G log_callback ?c [] = Inr (client_deadline G c5, [?ev])"
    using c(2) by (simp add: do_TCP_connection_def proxy_stage_def connecting_stage_def unconfirmed_stage_def Let_def)
  moreover have "in_step (sent_on f w) (client_deadline G c5)"
    using c5 by (intro in_step_after [OF step]) (simp_all add: client_deadline_def)
  ultimately show ?thesis by blast
qed

text \<open>
  C15. Data that a client sends on an online slot reaches the client at the other end of the relay. The
  clients \<open>a\<close> and \<open>b\<close> are in step with the relay's connections \<open>i\<close> and \<open>j\<close>, which the slots \<open>x\<close> of \<open>i\<close> and
  \<open>y\<close> of \<open>j\<close> link; \<open>a\<close> has no ping request or response left to send, \<open>b\<close> waits for no answer to a ping, and
  the sockets of \<open>a\<close> and the relay take what they are given. Then \<open>send_data\<close> returns 1; when its bytes
  arrive at the relay, the relay's loop for connection \<open>i\<close> writes one packet to connection \<open>j\<close>, in full, and
  leaves every other connection as it is; and when these bytes arrive at \<open>b\<close>, the only callback
  called is the data callback, with the number of slot \<open>y\<close> and the unchanged data. Afterwards
  both connections are in step again.
\<close>

theorem tcp_data_reaches_client:
  assumes "nacl_ok N" "eager_env N (ce_tcp E)" "eager_env N (se_tcp F)" "tcp_env_ok N (se_tcp F)" "client_env_ok N G" "te_now (ce_tcp G) < te_now (ce_tcp G) + 10"
    and "server_ok s" "i < length (accepted_connection_array s)" "x < 240" "leads_to s i x j y"
    and "in_step a (accepted_connection_array s ! i)" "in_step (accepted_connection_array s ! j) b"
    and "cs_status (cc_connections a ! x) = 2" "cc_ping_response_id a = 0" "cc_ping_request_id a = 0"
    and "tcp_client_ok b" "cc_status b = TCP_CLIENT_CONFIRMED" "data_isset b" "cc_ping_id b = 0" and "data \<noteq> []" "length data \<le> 2031"
  shows "\<exists>a' bytes s' bytes' b'. send_data E a x data = (1, a') \<and> sk_out (tp_sock a') = sk_out (tp_sock a) @ bytes \<and>
    do_confirmed_recv F i (upd_con i (arrive bytes) s) = Some s' \<and> j < length (accepted_connection_array s) \<and> j \<noteq> i \<and> leads_to s j y i x \<and>
    sk_out (tp_sock (accepted_connection_array s' ! j)) = sk_out (tp_sock (accepted_connection_array s ! j)) @ bytes' \<and>
    sk_out (tp_sock (accepted_connection_array s' ! i)) = sk_out (tp_sock (accepted_connection_array s ! i)) \<and>
    (\<forall>k. k = i \<or> k = j \<or> accepted_connection_array s' ! k = accepted_connection_array s ! k) \<and>
    do_TCP_connection G log_callback (arrive bytes' b) [] = Inr (b', [DataCallback (cs_number (cc_connections b ! y)) (word_of_nat y) data]) \<and>
    in_step a' (accepted_connection_array s' ! i) \<and> in_step (accepted_connection_array s' ! j) b'"
proof -
  let ?m = "word_of_nat (x + 16) # data"
  let ?f = "tcp_frame N (tp_shared_key a) (tp_sent_nonce a) ?m"
  let ?f' = "tcp_frame N (tp_shared_key (con_at s j)) (tp_sent_nonce (con_at s j)) (word_of_nat (y + 16) # data)"
  have w: "pipe_ok a" "last_packet_length a = 0" "priority_queue a = []" "pipe_ok (con_at s j)" "last_packet_length (con_at s j) = 0" "priority_queue (con_at s j) = []"
    using assms(11,12) by (simp_all add: in_step_def)
  have m: "msg_ok ?m" using assms(21) by (simp add: msg_ok_def)
  have send: "send_data E a x data = (1, sent_on ?f a)"
    using assms(9,13-15,21) eager_write [OF assms(1,2) w(1-3) m] by (simp add: send_data_def client_send_ping_response_def client_send_ping_request_def write_client_def)
  note pass = relay_passes_on [OF assms(1,3,4,7-11) w(4-6) assms(20,21)]
  then obtain sk where jy: "j < num_cons s" "j \<noteq> i" "y < 240" "leads_to s j y i x"
    and sk: "do_confirmed_recv F i (upd_con i (arrive ?f) s) =
      Some (s\<lparr>accepted_connection_array := (accepted_connection_array s)[i := (con_at s i)\<lparr>tp_sock := sk, tp_recv_nonce := increment_nonce (tp_recv_nonce (con_at s i))\<rparr>,
        j := sent_on ?f' (con_at s j)]\<rparr>)" "sk_in sk = []" "sk_out sk = sk_out (tp_sock (con_at s i))" by blast
  let ?con = "(con_at s i)\<lparr>tp_sock := sk, tp_recv_nonce := increment_nonce (tp_recv_nonce (con_at s i))\<rparr>"
  let ?s' = "s\<lparr>accepted_connection_array := (accepted_connection_array s)[i := ?con, j := sent_on ?f' (con_at s j)]\<rparr>"
  obtain b' where b': "do_TCP_connection G log_callback (arrive ?f' b) [] = Inr (b', [DataCallback (cs_number (cc_connections b ! y)) (word_of_nat y) data])"
      "in_step (sent_on ?f' (con_at s j)) b'"
    using client_receives [OF assms(16-19,5,6,12) jy(3) assms(20,21)] by blast
  have at: "con_at ?s' i = ?con" "con_at ?s' j = sent_on ?f' (con_at s j)" "\<forall>k. k = i \<or> k = j \<or> con_at ?s' k = con_at s k" using assms(8) jy(1,2) by (simp_all, metis nth_list_update_neq)
  have "in_step (sent_on ?f a) (con_at ?s' i)"
    unfolding at(1) using assms(11) sk(2) by (intro in_step_after [OF assms(11)]) (simp_all add: in_step_def)
  moreover have "sk_out (tp_sock (sent_on q c)) = sk_out (tp_sock c) @ q" for q and c :: "'c tcp_pipe_scheme" by (simp add: sent_on_def)
  ultimately show ?thesis using send sk jy b' at
    by (intro exI [of _ "sent_on ?f a"] exI [of _ ?f] exI [of _ ?s'] exI [of _ ?f'] exI [of _ b'] conjI) (simp_all add: sent_on_def)
qed

section \<open>Examples\<close>

definition sample_tcp_address :: IP_Port where
  "sample_tcp_address = \<lparr>ipp_ip = \<lparr>ip_family = AF_INET, ip_addr = [127, 0, 0, 1] @ replicate 12 0\<rparr>, ipp_port = 443\<rparr>"

definition sample_client_env :: tcp_client_env where
  "sample_client_env = \<lparr>ce_tcp = willing_env nacl_identity, ce_keypair = (replicate 32 3, replicate 32 3), ce_sent_nonce = replicate 24 4, ce_new_nonce = replicate 24 5,
     ce_random64 = 6, ce_ip_text = (\<lambda>_. Some (text_bytes ''127.0.0.1'')), ce_sock = Some \<lparr>sk_fd = 0, sk_in = [], sk_out = [], sk_calls = 0\<rparr>\<rparr>"

definition sample_relay_env :: tcp_server_env where
  "sample_relay_env = sample_server_env\<lparr>se_tcp := willing_env nacl_identity, se_keypair := (\<lambda>_. (replicate 32 3, replicate 32 3))\<rparr>"

lemma sample_eager: "eager_env N (willing_env N)"
  by (simp add: eager_env_def willing_env_def)

theorem tcp_handshake_completes_witness:
  "\<exists>c c1 con1. \<exists>c2 :: TCP_Client_Connection. new_TCP_connection sample_client_env sample_tcp_address (replicate 32 1) (replicate 32 1) (replicate 32 1) None = Some c \<and>
     do_TCP_connection sample_client_env log_callback c [] = Inr (c1, []) \<and>
     read_connection_handshake sample_relay_env (arrive (sk_out (tp_sock c1)) (connection_zero\<lparr>tc_status := 1\<rparr>)) (replicate 32 1) = (1, con1) \<and>
     tc_public_key con1 = replicate 32 1 \<and> cc_status c2 = TCP_CLIENT_CONFIRMED \<and> tp_shared_key c2 = tp_shared_key con1"
proof -
  let ?con = "connection_zero\<lparr>tc_status := TCP_STATUS_CONNECTED\<rparr>"
  have E: "eager_env nacl_identity (ce_tcp sample_client_env)" "eager_env nacl_identity (se_tcp sample_relay_env)"
    by (simp_all add: sample_client_env_def sample_relay_env_def sample_eager)
  have k: "keys_agree nacl_identity (replicate 32 1) (replicate 32 1) (replicate 32 1) (replicate 32 1)"
    "keys_agree nacl_identity (fst (ce_keypair sample_client_env)) (snd (ce_keypair sample_client_env))
      (fst (se_keypair sample_relay_env (sk_fd (tp_sock ?con)))) (snd (se_keypair sample_relay_env (sk_fd (tp_sock ?con))))"
    by (simp_all add: keys_agree_def sample_client_env_def sample_relay_env_def)
  have len: "length (replicate 32 (1::u8)) = 32" "length (fst (ce_keypair sample_client_env)) = 32" "length (ce_sent_nonce sample_client_env) = 24"
    "length (ce_new_nonce sample_client_env) = 24" "length (fst (se_keypair sample_relay_env (sk_fd (tp_sock ?con)))) = 32"
    "\<forall>fd k. length (se_nonce sample_relay_env fd k) = 24" "ip_family (ipp_ip sample_tcp_address) \<in> {AF_INET, AF_INET6}"
    by (simp_all add: sample_client_env_def sample_relay_env_def sample_server_env_def sample_tcp_address_def)
  have sk: "ce_sock sample_client_env = Some \<lparr>sk_fd = 0, sk_in = [], sk_out = [], sk_calls = 0\<rparr>" "sk_in \<lparr>sk_fd = 0, sk_in = [], sk_out = [], sk_calls = 0\<rparr> = []"
    "sk_out \<lparr>sk_fd = 0, sk_in = [], sk_out = [], sk_calls = 0\<rparr> = []" "te_now (ce_tcp sample_client_env) < te_now (ce_tcp sample_client_env) + 10"
    "tc_status ?con = TCP_STATUS_CONNECTED" "sk_in (tp_sock ?con) = []" "sk_out (tp_sock ?con) = []"
    by (simp_all add: sample_client_env_def willing_env_def connection_zero_def)
  from tcp_handshake_completes [OF nacl_identity_ok E k len sk, of log_callback "[]" "[]"] show ?thesis by blast
qed

text \<open>A confirmed client with an open slot.\<close>

definition sample_tcp_client :: "nat \<Rightarrow> TCP_Client_Connection" where
  "sample_tcp_client x = (the (new_TCP_connection sample_client_env sample_tcp_address (replicate 32 1) (replicate 32 1) (replicate 32 1) None))
     \<lparr>cc_connections := (replicate 240 client_slot_zero)[x := \<lparr>cs_status = 2, cs_public_key = replicate 32 2, cs_number = 9\<rparr>], data_isset := True, onion_isset := True\<rparr>"

lemma sample_client_env_ok: "client_env_ok nacl_identity sample_client_env"
  using willing_env_ok [OF nacl_identity_ok] by (simp add: client_env_ok_def sample_client_env_def text_bytes_def)

lemma sample_tcp_client_fields:
  "tcp_client_ok (sample_tcp_client x)" "cc_ping_response_id (sample_tcp_client x) = 0" "cc_ping_request_id (sample_tcp_client x) = 0"
proof -
  obtain c c1 where c: "new_TCP_connection sample_client_env sample_tcp_address (replicate 32 1) (replicate 32 1) (replicate 32 1) None = Some c"
    "do_TCP_connection sample_client_env log_callback c [] = Inr (c1, [])"
    using client_connects [OF nacl_identity_ok, of sample_client_env sample_tcp_address _ "replicate 32 1" "replicate 32 1" "replicate 32 1"] sample_eager
    by (fastforce simp: sample_client_env_def sample_tcp_address_def willing_env_def)
  have "tcp_client_ok c" using new_client_ok [OF c(1) sample_client_env_ok] by (simp add: ip_ok_def sample_tcp_address_def)
  moreover have "cs_status y \<le> 2 \<and> length (cs_public_key y) = 32"
    if "y \<in> set ((replicate 240 client_slot_zero)[x := \<lparr>cs_status = 2, cs_public_key = replicate 32 2, cs_number = 9\<rparr>])" for y
    using subsetD [OF set_update_subset_insert that] by (auto simp: client_slot_zero_def)
  ultimately show "tcp_client_ok (sample_tcp_client x)"
    using c(1) by (simp add: sample_tcp_client_def tcp_client_ok_def client_slots_ok_def pipe_ok_def)
  show "cc_ping_response_id (sample_tcp_client x) = 0" "cc_ping_request_id (sample_tcp_client x) = 0"
    using c(1) by (auto simp: sample_tcp_client_def new_TCP_connection_def generate_handshake_def Let_def split_beta split: if_splits option.splits)
qed

theorem tcp_client_moves_forward_witness:
  "\<exists>evs c'. do_TCP_connection sample_client_env log_callback (sample_tcp_client 7) [] = Inr (c', evs) \<and> tcp_client_ok c'"
  using tcp_client_moves_forward [OF sample_tcp_client_fields(1) [of 7] sample_client_env_ok] by (auto simp: sample_tcp_client_def)

text \<open>The clients of the sample relay, in step with its connections.\<close>

definition sample_peer :: "nat \<Rightarrow> TCP_Client_Connection" where
  "sample_peer x = (sample_tcp_client x)\<lparr>tp_sock := \<lparr>sk_fd = 0, sk_in = [], sk_out = [], sk_calls = 0\<rparr>, tp_shared_key := tp_shared_key connection_zero,
     tp_sent_nonce := replicate 24 0, tp_recv_nonce := replicate 24 0, next_packet_length := 0, last_packet_length := 0, last_packet_sent := 0, priority_queue := [],
     cc_status := TCP_CLIENT_CONFIRMED, cc_ping_id := 0\<rparr>"

theorem tcp_data_reaches_client_witness:
  "\<exists>a' bytes s' bytes' b'. send_data sample_client_env (sample_peer 7) 7 [5] = (1, a') \<and> sk_out (tp_sock a') = bytes \<and>
     do_confirmed_recv sample_relay_env 0 (upd_con 0 (arrive bytes) sample_relay) = Some s' \<and> sk_out (tp_sock (accepted_connection_array s' ! 1)) = bytes' \<and>
     do_TCP_connection sample_client_env log_callback (arrive bytes' (sample_peer 3)) [] = Inr (b', [DataCallback 9 3 [5]])"
proof -
  have E: "eager_env nacl_identity (ce_tcp sample_client_env)" "eager_env nacl_identity (se_tcp sample_relay_env)" "tcp_env_ok nacl_identity (se_tcp sample_relay_env)"
    "te_now (ce_tcp sample_client_env) < te_now (ce_tcp sample_client_env) + 10"
    using willing_env_ok [OF nacl_identity_ok] by (simp_all add: sample_client_env_def sample_relay_env_def sample_eager) (simp add: willing_env_def)
  have r: "0 < length (accepted_connection_array sample_relay)" "(7::nat) < 240" "leads_to sample_relay 0 7 1 3"
    by (simp_all add: sample_relay_def leads_to_def the_slot_def relay_client_slot)
  have p: "tcp_client_ok (sample_peer x)" "cc_ping_response_id (sample_peer x) = 0" "cc_ping_request_id (sample_peer x) = 0" "cc_status (sample_peer x) = TCP_CLIENT_CONFIRMED"
    "data_isset (sample_peer x)" "cc_ping_id (sample_peer x) = 0" for x
    using sample_tcp_client_fields [of x] by (simp_all add: sample_peer_def tcp_client_ok_def client_slots_ok_def pipe_ok_def) (simp add: sample_tcp_client_def)
  have sl: "cs_status (cc_connections (sample_peer 7) ! 7) = 2" "cs_number (cc_connections (sample_peer 3) ! 3) = 9" by (simp_all add: sample_peer_def sample_tcp_client_def)
  have i: "in_step (sample_peer x) (relay_client z sl k)" "in_step (relay_client z sl k) (sample_peer x)" for x z sl k
    using p(1) [of x] by (simp_all add: in_step_def sample_peer_def tcp_client_ok_def relay_client_def connection_zero_def) (simp add: pipe_ok_def)
  have s: "in_step (sample_peer 7) (accepted_connection_array sample_relay ! 0)" "in_step (accepted_connection_array sample_relay ! 1) (sample_peer 3)"
    by (simp_all add: sample_relay_def i)
  have d: "[5::u8] \<noteq> []" "length [5::u8] \<le> 2031" by simp_all
  have out: "sk_out (tp_sock (sample_peer 7)) = []" "sk_out (tp_sock (accepted_connection_array sample_relay ! 1)) = []"
    by (simp_all add: sample_peer_def sample_relay_def relay_client_def connection_zero_def)
  from tcp_data_reaches_client [OF nacl_identity_ok E(1-3) sample_client_env_ok E(4) sample_relay_ok r s sl(1) p(2,3) p(1,4-6) d]
  show ?thesis unfolding sl(2) out by (elim exE conjE) (rule exI | rule conjI | assumption | simp)+
qed

definition sample_waiting_client :: TCP_Client_Connection where
  "sample_waiting_client = (sample_tcp_client 7)\<lparr>tp_sock := \<lparr>sk_fd = 0, sk_in = [], sk_out = [], sk_calls = 0\<rparr>, next_packet_length := 0, cc_status := TCP_CLIENT_UNCONFIRMED,
     onion_isset := False, cc_ping_id := 0\<rparr>"

theorem tcp_client_null_callback_witness:
  "\<exists>b. do_TCP_connection sample_client_env log_callback (arrive b sample_waiting_client) [] = Inl NullCallback"
proof -
  have c: "tcp_client_ok sample_waiting_client" using sample_tcp_client_fields(1) [of 7]
    by (simp add: sample_waiting_client_def tcp_client_ok_def client_slots_ok_def pipe_ok_def)
  have f: "cc_status sample_waiting_client = TCP_CLIENT_UNCONFIRMED" "sk_in (tp_sock sample_waiting_client) = []" "next_packet_length sample_waiting_client = 0"
    "\<not> onion_isset sample_waiting_client" "cc_ping_id sample_waiting_client = 0" "te_now (ce_tcp sample_client_env) < te_now (ce_tcp sample_client_env) + 10"
    by (simp_all add: sample_waiting_client_def sample_client_env_def willing_env_def)
  have "replicate 56 (8::u8) \<noteq> []" by simp
  from encrypt_symmetric_Some [OF nacl_identity_ok this, of "tp_shared_key sample_waiting_client" "replicate 24 1"]
  obtain enc where enc: "length enc = length (replicate 56 (8::u8)) + 16" "decrypt_data_symmetric nacl_identity (tp_shared_key sample_waiting_client) (replicate 24 1) enc = Some (replicate 56 8)" by blast
  have "replicate 56 (8::u8) = replicate 32 8 @ replicate 24 8" by (simp flip: replicate_add)
  then have d: "decrypt_data_symmetric nacl_identity (tp_shared_key sample_waiting_client) (replicate 24 1) enc = Some (replicate 32 8 @ replicate 24 8)" using enc(2) by simp
  have len: "length (replicate 24 (1::u8)) = 24" "length enc = 72" "length (replicate 32 (8::u8)) = 32" "length (replicate 24 (8::u8)) = 24" "[1::u8] \<noteq> []" "length [1::u8] \<le> 2031"
    using enc(1) by simp_all
  show ?thesis by (intro exI, rule tcp_client_null_callback [OF c sample_client_env_ok f len(1-4) d len(5,6)])
qed

end
