(* ===== verification/Spec2Isabelle.thy ===== *)
theory Spec2Isabelle
  imports Tox_Prelude Util Ring_Buffer BS_List Ping_Array Crypto_Core Network Node_Format DHT_Distance Shared_Keys DHT_Nodes DHT_State Packets_Array Handshake Crypto_Conn Crypto_Data Crypto_Index Crypto_Life DHT_Packets DHT_Requests DHT_Exchange Onion Onion_Announce DHT_Save DHT_Maintain DHT_Upkeep TCP_Stream TCP_Server TCP_Relay TCP_Client TCP_Session
begin

text \<open>
  \<^bold>\<open>Verification of toxcore.\<close>

  The program is a peer-to-peer library (\<open>src/toxcore\<close>). Peers find each other in a distributed hash table
  (\<open>DHT.c\<close>, \<open>ping.c\<close>) over UDP, announce themselves to nodes they reach over an onion of three nodes
  (\<open>onion.c\<close>, \<open>onion_announce.c\<close>), talk over connections with their own encryption, acknowledgement and
  ordering (\<open>net_crypto.c\<close>), and fall back to TCP relays (\<open>TCP_server.c\<close>, \<open>TCP_client.c\<close>) where UDP does not
  get through.
  Below lie containers (\<open>list.c\<close>, \<open>ping_array.c\<close>, \<open>util.c\<close>) and wrappers around NaCl (\<open>crypto_core.c\<close>).

  \<^bold>\<open>How the code is modelled.\<close> A C structure is a record with the names of the source, an array a list, a
  \<open>w\<close>-bit integer a word of that width where it can wrap and a natural number where the code bounds it. A
  function that changes a structure takes it and returns it with its result; the return values \<open>-1\<close> and
  \<open>0\<close> for failure are kept or are \<open>None\<close>. Packets that are sent, callbacks and closed sockets are values
  of an event type, in the order of the calls. Bytes are lists of 8-bit words, with \<open>memcmp\<close>, \<open>memcpy\<close> and
  \<open>memmove\<close> on them in \<open>Tox_Prelude\<close>. A whole function is one step: the mutexes of \<open>net_crypto.c\<close> are left out.

  \<^bold>\<open>What comes from elsewhere\<close> is a parameter: the NaCl primitives (record \<open>nacl\<close>, with \<open>nacl_ok\<close>:
  what was sealed opens again, and lengths are kept), random bytes, the clock, \<open>malloc\<close> and \<open>realloc\<close>, what the
  sockets take and give, \<open>qsort\<close> (\<open>qsort_ok\<close>: a sorted permutation where the comparison is an order),
  SHA-256 and uninitialised memory. They are collected in \<open>nc_env\<close>, \<open>dht_env\<close>, \<open>onion_env\<close>, \<open>announce_env\<close>,
  \<open>tcp_env\<close>, \<open>tcp_server_env\<close> and \<open>tcp_client_env\<close>; every witness instantiates them with concrete functions.

  \<^bold>\<open>Containers and formats.\<close>
  \<^item> \<open>Util\<close>: clock, byte order and the sections of a save file (\<open>util.c\<close>); \<open>Ring_Buffer\<close>: the ring buffer of
    \<open>util.c\<close>, an overwriting bounded queue (locale \<open>overwriting_queue\<close>).
  \<^item> \<open>BS_List\<close>: the sorted list of \<open>list.c\<close>. The binary search ends and implements the lookup of a map, adding
    and removing implement its update under failing allocations (locale \<open>key_index\<close>); the relay and the
    encrypted connections use it through these laws.
  \<^item> \<open>Ping_Array\<close>: the outstanding requests of \<open>ping_array.c\<close> (locale \<open>request_store\<close>): a request is answered once and
    with its own data.
  \<^item> \<open>Crypto_Core\<close>: encryption wrappers, nonces and request packets; \<open>Network\<close>: addresses of \<open>network.c\<close> and the
    address classes of \<open>LAN_discovery.c\<close>; \<open>Node_Format\<close>: \<open>pack_nodes\<close> and \<open>unpack_nodes\<close> of \<open>DHT.c\<close>, with round
    trip and bounds.

  \<^bold>\<open>The DHT.\<close>
  \<^item> \<open>DHT_Distance\<close>: the XOR metric and \<open>add_to_list\<close>; \<open>Shared_Keys\<close>: the cache of shared keys, which returns
    what would be computed; \<open>DHT_Nodes\<close>: client lists and \<open>get_close_nodes\<close>, which returns exactly the closest
    eligible nodes.
  \<^item> \<open>DHT_State\<close>: the close list, friends and \<open>addto_lists\<close> with the invariant \<open>dht_ok\<close>, and the bounds within which
    the friend list keeps it; \<open>DHT_Packets\<close>:
    \<open>ping.c\<close> and the handlers for node requests; \<open>DHT_Requests\<close>: every waiting request was sent;
    \<open>DHT_Exchange\<close>: two nodes that exchange pings and nodes.
  \<^item> \<open>DHT_Save\<close>: \<open>DHT_save\<close> and \<open>DHT_load\<close>; \<open>DHT_Maintain\<close>: the periodic work, routed packets, NAT punching and
    hardening; \<open>DHT_Upkeep\<close>: over all of these, what is known of nodes changes only by an answer to a request
    that was sent to that key and address.

  \<^bold>\<open>The onion.\<close> \<open>Onion\<close>: paths, packets in three layers and the way back; a packet reaches its destination and
  the answer its source. \<open>Onion_Announce\<close>: the list of announced keys, its ping ids, and data that is passed on to an
  announced key.

  \<^bold>\<open>Encrypted connections\<close> (\<open>net_crypto.c\<close>).
  \<^item> \<open>Packets_Array\<close>: the buffers of packets with 32-bit numbers; delivery in order under loss, repetition and
    reordering, and the request packets for what is missing.
  \<^item> \<open>Handshake\<close>: cookies and handshakes; \<open>Crypto_Conn\<close>: the connections, data packets, temporary packets and timeouts;
    \<open>Crypto_Data\<close>: a message written on one end is delivered at the other, and nonces are followed;
    \<open>Crypto_Index\<close>: the index of addresses; \<open>Crypto_Life\<close>: the state machine of a connection, with what a packet
    has to contain for each transition, over all operations that write a status.

  \<^bold>\<open>TCP relays\<close> (\<open>TCP_server.c\<close>, \<open>TCP_client.c\<close>). \<open>TCP_Stream\<close>: framing and queues of a connection; what is accepted arrives in
  order whatever the sockets take at a time. \<open>TCP_Server\<close>: the relay. \<open>TCP_Relay\<close>: its invariant in every reachable
  state, and that data passes only between two clients that asked for each other. \<open>TCP_Client\<close>: the client end, with
  proxies, handshake, slots and callbacks. \<open>TCP_Session\<close>: client and relay together: the handshake gives both the same
  key and nonces, a client moves through its states in order (locale \<open>client_callbacks\<close>: for every callback that keeps
  the client's structure), and data that one client sends arrives at the callback of the other, byte for byte over both
  connections.

  \<^bold>\<open>Loops and bounds.\<close> Loops over arrays are recursion on the array or a fold over its indices. The binary
  search of \<open>list.c\<close>, the delivery loop of \<open>net_crypto.c\<close>, the loop over received packets of the relay and the
  loops that may run long carry fuel or a measure; each fuel has a lemma that the fuel suffices (the size of the array, the
  number of packets in the buffer, the bytes that wait in the socket), so that their results are those of the
  loops of the source. The relay is followed up to \<open>2 ^ 20\<close> connections (\<open>server_env_ok\<close>: a larger array is not
  granted by \<open>realloc\<close>), below which its 32-bit sizes do not wrap.

  \<^bold>\<open>What the development shows wrong\<close> is stated as theorems where it can be: capacity lost by
  \<open>bs_list_remove\<close>, a bucket index out of range in \<open>add_to_close\<close>, a packet one full turn ahead that takes the slot
  of another, the last packet number that is not delivered, a save file whose length wraps, a node to ping
  that blocks its list, locks of a friend that are handed out twice or written out of range, a count of friends that
  wraps, and an onion response that calls a null pointer.

  \<^bold>\<open>Not modelled.\<close>
  \<^item> Sockets, host names, interfaces, threads and logging (\<open>network.c\<close>, \<open>LAN_discovery.c\<close>, \<open>logger.c\<close>): system calls.
  \<^item> The congestion control in \<open>send_crypto_packets\<close>, which computes in floating point; the \<open>epoll\<close> variant of the
    relay, and \<open>assoc.c\<close>, which are build options.
  \<^item> The layers above the connections: \<open>onion_client.c\<close>, \<open>TCP_connection.c\<close>, \<open>friend_connection.c\<close>,
    \<open>friend_requests.c\<close>, \<open>Messenger.c\<close>, \<open>group.c\<close> and the API in \<open>tox.c\<close>, which call the modelled parts.
  \<^item> \<open>toxav\<close> (codecs and threads), \<open>toxdns\<close>, \<open>toxencryptsave\<close> (with vendored code), the bootstrap programs and the tests.
\<close>

end
